(* ===== verification/Prelude.thy ===== *)
theory Prelude
  imports Main "HOL-Library.Word" "HOL-Library.Monad_Syntax"
begin

text \<open>
  Shared vocabulary of the development: the machine integers of the C code, the
  little-endian readers and writers the wire formats use, bounded reads and writes of
  byte buffers, and the theorem collections the component theories extend.

  A C operation with undefined behaviour (an access outside a buffer, a use of a freed
  block) is a value of type \<open>'a option\<close>: \<open>None\<close> is the fault.  The error codes the code
  itself returns are ordinary integers, as in the source.
\<close>

unbundle bit_operations_syntax

type_synonym u8 = "8 word"
type_synonym u16 = "16 word"
type_synonym u32 = "32 word"
type_synonym u64 = "64 word"
type_synonym bytes = "8 word list"

named_theorems mem_simps \<open>evaluation of bounded buffer accesses\<close>
named_theorems wire_simps \<open>encoding and decoding of little-endian fields\<close>

section \<open>Bounded buffer accesses\<close>

text \<open>\<open>memcpy(dst + off, src, length src)\<close> on a buffer of known size.\<close>

definition put_bytes :: "nat \<Rightarrow> 'a list \<Rightarrow> 'a list \<Rightarrow> 'a list option" where
  "put_bytes off src buf =
     (if off + length src \<le> length buf
      then Some (take off buf @ src @ drop (off + length src) buf) else None)"

definition get_bytes :: "nat \<Rightarrow> nat \<Rightarrow> 'a list \<Rightarrow> 'a list option" where
  "get_bytes off n buf =
     (if off + n \<le> length buf then Some (take n (drop off buf)) else None)"

definition get_at :: "nat \<Rightarrow> 'a list \<Rightarrow> 'a option" where
  "get_at i buf = (if i < length buf then Some (buf ! i) else None)"

lemma put_bytes_Some [mem_simps]:
  "off + length src \<le> length buf \<Longrightarrow>
     put_bytes off src buf = Some (take off buf @ src @ drop (off + length src) buf)"
  by (simp add: put_bytes_def)

lemma put_bytes_None_iff: "put_bytes off src buf = None \<longleftrightarrow> length buf < off + length src"
  by (auto simp: put_bytes_def)

lemma length_put_bytes: "put_bytes off src buf = Some buf' \<Longrightarrow> length buf' = length buf"
  by (auto simp: put_bytes_def split: if_splits)

lemma get_put_bytes: "put_bytes off src buf = Some buf' \<Longrightarrow> get_bytes off (length src) buf' = Some src"
  by (auto simp: put_bytes_def get_bytes_def split: if_splits)

lemma nth_put_bytes:
  "put_bytes off src buf = Some buf' \<Longrightarrow> i < length buf \<Longrightarrow>
     buf' ! i = (if off \<le> i \<and> i < off + length src then src ! (i - off) else buf ! i)"
  by (auto simp: put_bytes_def nth_append min_def split: if_splits)

lemma take_put_bytes:
  "put_bytes off src buf = Some buf' \<Longrightarrow> take (off + length src) buf' = take off buf @ src"
  by (auto simp: put_bytes_def min_def simp flip: length_greater_0_conv split: if_splits)

lemma length_get_bytes: "get_bytes off n buf = Some xs \<Longrightarrow> length xs = n"
  by (auto simp: get_bytes_def split: if_splits)

lemma get_at_Some [mem_simps]: "i < length buf \<Longrightarrow> get_at i buf = Some (buf ! i)"
  by (simp add: get_at_def)

lemma get_at_None_iff: "get_at i buf = None \<longleftrightarrow> length buf \<le> i"
  by (auto simp: get_at_def)

text \<open>A \<open>for\<close> loop over \<open>n\<close> indices from \<open>i\<close> whose body may fault.\<close>

primrec for_loop :: "(nat \<Rightarrow> 'b \<Rightarrow> 'b option) \<Rightarrow> nat \<Rightarrow> nat \<Rightarrow> 'b \<Rightarrow> 'b option" where
  "for_loop f 0 i s = Some s"
| "for_loop f (Suc n) i s = (case f i s of None \<Rightarrow> None | Some s' \<Rightarrow> for_loop f n (i + 1) s')"

lemma for_loop_fault: "j < n \<Longrightarrow> (\<And>s. f (i + j) s = None) \<Longrightarrow> for_loop f n i s = None"
proof (induction n arbitrary: i j s)
  case 0
  then show ?case by simp
next
  case (Suc n)
  show ?case
  proof (cases j)
    case 0
    then show ?thesis using Suc.prems(2) [of s] by simp
  next
    case (Suc k)
    have "for_loop f n (i + 1) s' = None" for s'
      by (rule Suc.IH [of k]) (use Suc Suc.prems in auto)
    then show ?thesis by (auto split: option.splits)
  qed
qed

lemma for_loop_inv:
  assumes "\<And>j s. i \<le> j \<Longrightarrow> j < i + n \<Longrightarrow> P j s \<Longrightarrow> \<exists>s'. f j s = Some s' \<and> P (Suc j) s'" "P i s"
  shows "\<exists>s'. for_loop f n i s = Some s' \<and> P (i + n) s'"
  using assms
proof (induction n arbitrary: i s)
  case 0
  then show ?case by simp
next
  case (Suc n)
  obtain s1 where s1: "f i s = Some s1" "P (Suc i) s1" using Suc.prems(1) [of i s] Suc.prems(2) by auto
  have "\<exists>s'. for_loop f n (Suc i) s1 = Some s' \<and> P (Suc i + n) s'"
    by (rule Suc.IH) (use Suc.prems(1) s1(2) in auto)
  then show ?case using s1(1) by simp
qed

section \<open>Little-endian fields\<close>

definition le16 :: "u8 \<Rightarrow> u8 \<Rightarrow> u16" where
  "le16 b0 b1 = (ucast b0 :: u16) OR push_bit 8 (ucast b1 :: u16)"

definition le32 :: "u8 \<Rightarrow> u8 \<Rightarrow> u8 \<Rightarrow> u8 \<Rightarrow> u32" where
  "le32 b0 b1 b2 b3 = (ucast b0 :: u32) OR push_bit 8 (ucast b1 :: u32)
     OR push_bit 16 (ucast b2 :: u32) OR push_bit 24 (ucast b3 :: u32)"

definition bytes16 :: "u16 \<Rightarrow> bytes" where
  "bytes16 w = [ucast w, ucast (drop_bit 8 w)]"

definition bytes32 :: "u32 \<Rightarrow> bytes" where
  "bytes32 w = [ucast w, ucast (drop_bit 8 w),
                ucast (drop_bit 16 w), ucast (drop_bit 24 w)]"

lemma length_bytes16 [simp]: "length (bytes16 w) = 2"
  by (simp add: bytes16_def)

lemma length_bytes32 [simp]: "length (bytes32 w) = 4"
  by (simp add: bytes32_def)

lemma le16_bytes16 [wire_simps]:
  "le16 (ucast w) (ucast (drop_bit 8 w)) = w"
  unfolding le16_def
  by (rule bit_word_eqI) (auto simp: bit_simps)

lemma le32_bytes32 [wire_simps]:
  "le32 (ucast w) (ucast (drop_bit 8 w))
        (ucast (drop_bit 16 w)) (ucast (drop_bit 24 w)) = w"
proof (rule bit_word_eqI)
  fix n
  assume "n < LENGTH(32)"
  then show "bit (le32 (ucast w) (ucast (drop_bit 8 w))
      (ucast (drop_bit 16 w)) (ucast (drop_bit 24 w))) n = bit w n"
    by (cases "n < 16"; cases "n < 24") (auto simp: le32_def bit_simps not_less)
qed

lemma bytes16_le16 [wire_simps]: "bytes16 (le16 a b) = [a, b]"
  unfolding le16_def bytes16_def
  by (auto intro!: bit_word_eqI simp: bit_simps impossible_bit)

section \<open>Generic list facts\<close>

lemma take_Suc_conv_app_nth': "i < length xs \<Longrightarrow> take (Suc i) xs = take i xs @ [xs ! i]"
  by (rule take_Suc_conv_app_nth)

lemma bind_Some_iff: "Option.bind m f = Some y \<longleftrightarrow> (\<exists>x. m = Some x \<and> f x = Some y)"
  by (cases m) auto

end
