(* ===== verification/UsbCmd.thy ===== *)
theory UsbCmd
  imports Prelude
begin

text \<open>
  The camera command channel: \<open>fnusb_control\<close> of \<open>libfreenect/usb_libusb10.c\<close> and all of
  \<open>libfreenect/flags.c\<close> (\<open>send_cmd\<close>, the register and CMOS accessors, \<open>freenect_set_flag\<close>).

  The USB host and the device behind it are a state \<open>'u\<close> with two parameters, the two
  directions of \<open>libusb_control_transfer\<close>: an OUT transfer returns the number of bytes taken
  or a negative error, an IN transfer an error or the bytes received.  A result \<open>None\<close>
  is a run that does not return (the reply is polled for ever) or that uses a local
  variable no reply has initialised.
\<close>

section \<open>The USB control pipe\<close>

record 'u usb_ops =
  ctl_out :: "u8 \<Rightarrow> u8 \<Rightarrow> u16 \<Rightarrow> u16 \<Rightarrow> bytes \<Rightarrow> 'u \<Rightarrow> int \<times> 'u"
  ctl_in :: "u8 \<Rightarrow> u8 \<Rightarrow> u16 \<Rightarrow> u16 \<Rightarrow> nat \<Rightarrow> 'u \<Rightarrow> (int + bytes) \<times> 'u"

text \<open>What libusb documents: an error code is negative, a transfer never exceeds its buffer.\<close>

definition usb_contract :: "('u, 'x) usb_ops_scheme \<Rightarrow> bool" where
  "usb_contract ops \<longleftrightarrow>
     (\<forall>rt rq v i n u. case fst (ctl_in ops rt rq v i n u) of
        Inl e \<Rightarrow> e < 0 | Inr xs \<Rightarrow> length xs \<le> n)"

definition fnusb_control_out ::
  "('u, 'x) usb_ops_scheme \<Rightarrow> u8 \<Rightarrow> u8 \<Rightarrow> u16 \<Rightarrow> u16 \<Rightarrow> bytes \<Rightarrow> 'u \<Rightarrow> int \<times> 'u" where
  "fnusb_control_out ops bmRequestType bRequest wValue wIndex xs u =
     ctl_out ops bmRequestType bRequest wValue wIndex xs u"

definition fnusb_control_in ::
  "('u, 'x) usb_ops_scheme \<Rightarrow> u8 \<Rightarrow> u8 \<Rightarrow> u16 \<Rightarrow> u16 \<Rightarrow> nat \<Rightarrow> 'u \<Rightarrow> (int + bytes) \<times> 'u" where
  "fnusb_control_in ops bmRequestType bRequest wValue wIndex wLength u =
     ctl_in ops bmRequestType bRequest wValue wIndex wLength u"

text \<open>The value an IN transfer returns to the C code.\<close>

definition actual_length :: "int + bytes \<Rightarrow> int" where
  "actual_length r = (case r of Inl e \<Rightarrow> e | Inr xs \<Rightarrow> int (length xs))"

definition received :: "int + bytes \<Rightarrow> bytes" where
  "received r = (case r of Inl e \<Rightarrow> [] | Inr xs \<Rightarrow> xs)"

lemma actual_length_simps [simp]:
  "actual_length (Inl e) = e" "actual_length (Inr xs) = int (length xs)"
  "received (Inl e) = []" "received (Inr xs) = xs"
  by (simp_all add: actual_length_def received_def)

lemma usb_contractD:
  "usb_contract ops \<Longrightarrow> ctl_in ops rt rq v i n u = (Inl e, u') \<Longrightarrow> e < 0"
  "usb_contract ops \<Longrightarrow> ctl_in ops rt rq v i n u = (Inr xs, u') \<Longrightarrow> length xs \<le> n"
  unfolding usb_contract_def by (metis fst_conv sum.case)+

section \<open>Commands\<close>

text \<open>The part of \<open>freenect_device\<close> the command channel uses.\<close>

record 'u cam_link =
  usb_state :: 'u
  cam_tag :: u16
  cam_pid :: int

definition PID_K4W_CAMERA :: int where "PID_K4W_CAMERA = 0x02bf"

record cam_hdr =
  ch_magic0 :: u8
  ch_magic1 :: u8
  ch_len :: u16
  ch_cmd :: u16
  ch_tag :: u16

definition cam_hdr_size :: nat where "cam_hdr_size = 8"

definition cam_hdr_bytes :: "cam_hdr \<Rightarrow> bytes" where
  "cam_hdr_bytes c = ch_magic0 c # ch_magic1 c #
     bytes16 (ch_len c) @ bytes16 (ch_cmd c) @ bytes16 (ch_tag c)"

definition read_cam_hdr :: "bytes \<Rightarrow> cam_hdr" where
  "read_cam_hdr b =
     \<lparr>ch_magic0 = b ! 0, ch_magic1 = b ! 1, ch_len = le16 (b ! 2) (b ! 3),
      ch_cmd = le16 (b ! 4) (b ! 5), ch_tag = le16 (b ! 6) (b ! 7)\<rparr>"

text \<open>The bytes of an OUT transfer.\<close>

definition cmd_packet :: "u16 \<Rightarrow> u16 \<Rightarrow> bytes \<Rightarrow> bytes" where
  "cmd_packet cmd tag cmdbuf =
     cam_hdr_bytes \<lparr>ch_magic0 = 0x47, ch_magic1 = 0x4d, ch_len = of_nat (length cmdbuf div 2),
       ch_cmd = cmd, ch_tag = tag\<rparr> @ cmdbuf"

text \<open>The polling loop: an empty or a full (512 byte) reply means not ready.\<close>

partial_function (option) poll_reply ::
  "('u, 'x) usb_ops_scheme \<Rightarrow> 'u \<Rightarrow> ((int + bytes) \<times> 'u) option" where
  "poll_reply ops u =
     (let (r, u') = fnusb_control_in ops 0xc0 0 0 0 0x200 u
      in if actual_length r = 0 \<or> actual_length r = 0x200 then poll_reply ops u' else Some (r, u'))"

text \<open>
  \<open>send_cmd\<close> returns its C result, the bytes it stored at the start of \<open>replybuf\<close>, and the
  device.
\<close>

definition check_reply ::
  "u16 \<Rightarrow> int \<Rightarrow> nat \<Rightarrow> bytes \<Rightarrow> ('u, 'm) cam_link_scheme \<Rightarrow>
     int \<times> bytes \<times> ('u, 'm) cam_link_scheme" where
  "check_reply cmd res reply_len ibuf d =
     (if length ibuf < cam_hdr_size then (res, [], d)
      else
        (let rhdr = read_cam_hdr ibuf; actual_len = length ibuf - cam_hdr_size
         in if ch_magic0 rhdr \<noteq> 0x52 \<or> ch_magic1 rhdr \<noteq> 0x42 then (-1, [], d)
            else if ch_cmd rhdr \<noteq> cmd then (-1, [], d)
            else if ch_tag rhdr \<noteq> cam_tag d then (-1, [], d)
            else if unat (ch_len rhdr) \<noteq> actual_len div 2 then (-1, [], d)
            else (int actual_len,
                  take (if actual_len > reply_len then reply_len else actual_len)
                    (drop cam_hdr_size ibuf),
                  d\<lparr>cam_tag := cam_tag d + 1\<rparr>)))"

definition send_cmd ::
  "('u, 'x) usb_ops_scheme \<Rightarrow> u16 \<Rightarrow> bytes \<Rightarrow> nat \<Rightarrow> ('u, 'm) cam_link_scheme \<Rightarrow>
     (int \<times> bytes \<times> ('u, 'm) cam_link_scheme) option" where
  "send_cmd ops cmd cmdbuf reply_len d =
     (if odd (length cmdbuf) \<or> length cmdbuf > 0x400 - cam_hdr_size then Some (-1, [], d)
      else
        (let (res, u1) = fnusb_control_out ops 0x40 0 0 0 (cmd_packet cmd (cam_tag d) cmdbuf) (usb_state d);
             d1 = d\<lparr>usb_state := u1\<rparr>
         in if res < 0 then Some (res, [], d1)
            else
              (case poll_reply ops u1 of None \<Rightarrow> None
               | Some (r, u2) \<Rightarrow>
                   Some (check_reply cmd res reply_len (received r) (d1\<lparr>usb_state := u2\<rparr>)))))"

section \<open>Registers\<close>

text \<open>
  \<open>reply[1]\<close> is the uninitialised local variable itself when the reply was shorter than
  four bytes: then the read is a fault.
\<close>

definition read_register ::
  "('u, 'x) usb_ops_scheme \<Rightarrow> u16 \<Rightarrow> ('u, 'm) cam_link_scheme \<Rightarrow> (u16 \<times> ('u, 'm) cam_link_scheme) option" where
  "read_register ops reg d =
     (case send_cmd ops 0x02 (bytes16 reg) 4 d of None \<Rightarrow> None
      | Some (res, reply, d') \<Rightarrow>
          (if res < 0 then Some (0xFFFF, d')
           else if length reply < 4 then None
           else Some (le16 (reply ! 2) (reply ! 3), d')))"

definition write_register ::
  "('u, 'x) usb_ops_scheme \<Rightarrow> u16 \<Rightarrow> u16 \<Rightarrow> ('u, 'm) cam_link_scheme \<Rightarrow> (int \<times> ('u, 'm) cam_link_scheme) option" where
  "write_register ops reg val d =
     (case send_cmd ops 0x03 (bytes16 reg @ bytes16 val) 4 d of None \<Rightarrow> None
      | Some (res, reply, d') \<Rightarrow> (if res < 0 then Some (res, d') else Some (0, d')))"

definition read_cmos_register ::
  "('u, 'x) usb_ops_scheme \<Rightarrow> u16 \<Rightarrow> ('u, 'm) cam_link_scheme \<Rightarrow> (u16 \<times> ('u, 'm) cam_link_scheme) option" where
  "read_cmos_register ops reg d =
     (case send_cmd ops 0x95 (bytes16 1 @ bytes16 (reg AND 0x7fff) @ bytes16 0) 6 d of None \<Rightarrow> None
      | Some (res, reply, d') \<Rightarrow>
          (if res < 0 then Some (0xFFFF, d')
           else if length reply < 6 then None
           else Some (le16 (reply ! 4) (reply ! 5), d')))"

definition write_cmos_register ::
  "('u, 'x) usb_ops_scheme \<Rightarrow> u16 \<Rightarrow> u16 \<Rightarrow> ('u, 'm) cam_link_scheme \<Rightarrow> (int \<times> ('u, 'm) cam_link_scheme) option" where
  "write_cmos_register ops reg val d =
     (case send_cmd ops 0x95 (bytes16 1 @ bytes16 (reg OR 0x8000) @ bytes16 val) 6 d of None \<Rightarrow> None
      | Some (res, reply, d') \<Rightarrow> Some (res, d'))"

section \<open>Flags\<close>

definition FREENECT_AUTO_EXPOSURE :: int where "FREENECT_AUTO_EXPOSURE = 2 ^ 14"
definition FREENECT_AUTO_WHITE_BALANCE :: int where "FREENECT_AUTO_WHITE_BALANCE = 2 ^ 1"
definition FREENECT_RAW_COLOR :: int where "FREENECT_RAW_COLOR = 2 ^ 4"
definition FREENECT_MIRROR_DEPTH :: int where "FREENECT_MIRROR_DEPTH = 2 ^ 16"
definition FREENECT_MIRROR_VIDEO :: int where "FREENECT_MIRROR_VIDEO = 2 ^ 17"
definition FREENECT_NEAR_MODE :: int where "FREENECT_NEAR_MODE = 2 ^ 18"

definition register_for_flag :: "int \<Rightarrow> int" where
  "register_for_flag flag =
     (if flag = FREENECT_MIRROR_DEPTH then 0x17
      else if flag = FREENECT_MIRROR_VIDEO then 0x47 else -1)"

definition set_near_mode ::
  "('u, 'x) usb_ops_scheme \<Rightarrow> bool \<Rightarrow> ('u, 'm) cam_link_scheme \<Rightarrow> (int \<times> ('u, 'm) cam_link_scheme) option" where
  "set_near_mode ops on d =
     (if cam_pid d \<noteq> PID_K4W_CAMERA then Some (-1, d)
      else
        (case write_register ops 0x0015 (if on then 0x0007 else 0x001E) d of None \<Rightarrow> None
         | Some (ret, d1) \<Rightarrow>
             (if ret < 0 then Some (ret, d1)
              else write_register ops 0x02EF (if on then 0x0000 else 0x0190) d1)))"

definition set_cmos_flag ::
  "('u, 'x) usb_ops_scheme \<Rightarrow> int \<Rightarrow> bool \<Rightarrow> ('u, 'm) cam_link_scheme \<Rightarrow> (int \<times> ('u, 'm) cam_link_scheme) option" where
  "set_cmos_flag ops flag on d =
     (case read_cmos_register ops 0x0106 d of None \<Rightarrow> None
      | Some (cmos_value, d1) \<Rightarrow>
          (if cmos_value = 0xFFFF then Some (-1, d1)
           else write_cmos_register ops 0x0106
                  (if on then cmos_value OR word_of_int flag else cmos_value AND NOT (word_of_int flag)) d1))"

text \<open>\<open>flag\<close> and \<open>value\<close> are the C enumerations' integers; \<open>FREENECT_ON\<close> is 1.\<close>

definition freenect_set_flag ::
  "('u, 'x) usb_ops_scheme \<Rightarrow> int \<Rightarrow> int \<Rightarrow> ('u, 'm) cam_link_scheme \<Rightarrow> (int \<times> ('u, 'm) cam_link_scheme) option" where
  "freenect_set_flag ops flag val d =
     (if flag = FREENECT_NEAR_MODE then set_near_mode ops (val = 1) d
      else if flag \<ge> 2 ^ 16 then
        (let reg = register_for_flag flag
         in if reg < 0 then Some (reg, d) else write_register ops (word_of_int reg) (word_of_int val) d)
      else set_cmos_flag ops flag (val = 1) d)"

section \<open>The effect of a command\<close>

lemma check_reply_effect:
  assumes "check_reply cmd res n ibuf d = (r, w, d')"
  shows "(0 \<le> r \<and> length w = min (nat r) n \<and> d' = d\<lparr>cam_tag := cam_tag d + 1\<rparr>)
    \<or> (w = [] \<and> d' = d \<and> (r = -1 \<or> r = res))"
  using assms by (auto simp: check_reply_def Let_def min_def split: if_splits)

lemma send_cmd_effect:
  assumes "send_cmd ops cmd p n d = Some (r, w, d')"
  obtains (answered) u' where "0 \<le> r" "length w = min (nat r) n"
      "d' = d\<lparr>usb_state := u', cam_tag := cam_tag d + 1\<rparr>"
    | (failed) u' where "w = []" "d' = d\<lparr>usb_state := u'\<rparr>"
proof (cases "odd (length p) \<or> length p > 0x400 - cam_hdr_size")
  case True
  then show ?thesis using assms failed [of "usb_state d"] by (auto simp: send_cmd_def)
next
  case False
  obtain res u1 where o: "fnusb_control_out ops 0x40 0 0 0 (cmd_packet cmd (cam_tag d) p) (usb_state d)
      = (res, u1)" by fastforce
  show ?thesis
  proof (cases "res < 0")
    case True
    then show ?thesis using False assms o failed [of u1] by (auto simp: send_cmd_def)
  next
    case nonneg: False
    then obtain rp u2 where p: "poll_reply ops u1 = Some (rp, u2)"
      and c: "check_reply cmd res n (received rp) (d\<lparr>usb_state := u2\<rparr>) = (r, w, d')"
      using False assms o by (auto simp: send_cmd_def split: option.splits)
    from check_reply_effect [OF c] show ?thesis
      using answered [of u2] failed [of u2] by auto
  qed
qed

text \<open>The fields of the device a command never touches.\<close>

definition link_frame :: "('u, 'm) cam_link_scheme \<Rightarrow> int \<times> 'm" where
  "link_frame d = (cam_pid d, cam_link.more d)"

lemma send_cmd_frame: "send_cmd ops cmd p n d = Some (r, w, d') \<Longrightarrow> link_frame d' = link_frame d"
  by (erule send_cmd_effect) (simp_all add: link_frame_def)

section \<open>A bus of registers\<close>

text \<open>
  What a client of the register interface relies on: a write touches nothing of the client's
  own state and its result is a success code or an error code.
\<close>

locale register_bus =
  fixes wr :: "u16 \<Rightarrow> u16 \<Rightarrow> 's \<Rightarrow> (int \<times> 's) option"
    and view :: "'s \<Rightarrow> 'v"
  assumes wr_frame: "wr r v s = Some (res, s') \<Longrightarrow> view s' = view s"
    and wr_result: "wr r v s = Some (res, s') \<Longrightarrow> res \<le> 0"
begin

primrec write_all :: "(u16 \<times> u16) list \<Rightarrow> 's \<Rightarrow> 's option" where
  "write_all [] s = Some s"
| "write_all (rv # rvs) s =
     (case wr (fst rv) (snd rv) s of None \<Rightarrow> None | Some (res, s') \<Rightarrow> write_all rvs s')"

lemma write_all_frame: "write_all rvs s = Some s' \<Longrightarrow> view s' = view s"
proof (induction rvs arbitrary: s)
  case Nil
  then show ?case by simp
next
  case (Cons rv rvs)
  from Cons.prems obtain res s1 where "wr (fst rv) (snd rv) s = Some (res, s1)" "write_all rvs s1 = Some s'"
    by (auto split: option.splits)
  with Cons.IH wr_frame show ?case by metis
qed

lemma write_all_append:
  "write_all (xs @ ys) s = Option.bind (write_all xs s) (write_all ys)"
  by (induction xs arbitrary: s) (auto split: option.splits)

end

lemma write_register_frame:
  "write_register ops r v d = Some (res, d') \<Longrightarrow> link_frame d' = link_frame d"
  by (auto simp: write_register_def split: option.splits if_splits dest: send_cmd_frame)

lemma write_register_result: "write_register ops r v d = Some (res, d') \<Longrightarrow> res \<le> 0"
  by (auto simp: write_register_def split: option.splits if_splits)

interpretation reg_bus: register_bus "write_register ops" link_frame for ops
  by unfold_locales (auto intro: write_register_frame write_register_result)

section \<open>A device that answers\<close>

definition reply_packet :: "u16 \<Rightarrow> u16 \<Rightarrow> bytes \<Rightarrow> bytes" where
  "reply_packet cmd tag rep =
     cam_hdr_bytes \<lparr>ch_magic0 = 0x52, ch_magic1 = 0x42, ch_len = of_nat (length rep div 2),
       ch_cmd = cmd, ch_tag = tag\<rparr> @ rep"

text \<open>
  The device takes the command \<open>cmd\<close> with payload \<open>p\<close> and tag \<open>tag\<close> in state \<open>u\<close> and, after
  any number of not-ready replies, answers with payload \<open>rep\<close>, ending in \<open>u'\<close>.
\<close>

inductive becomes_ready :: "('u, 'x) usb_ops_scheme \<Rightarrow> 'u \<Rightarrow> bytes \<Rightarrow> 'u \<Rightarrow> bool" for ops where
  ready: "ctl_in ops 0xc0 0 0 0 0x200 u = (Inr xs, u') \<Longrightarrow> xs \<noteq> [] \<Longrightarrow> length xs \<noteq> 0x200
    \<Longrightarrow> becomes_ready ops u xs u'"
| not_yet: "ctl_in ops 0xc0 0 0 0 0x200 u = (Inr ys, u1) \<Longrightarrow> ys = [] \<or> length ys = 0x200
    \<Longrightarrow> becomes_ready ops u1 xs u' \<Longrightarrow> becomes_ready ops u xs u'"

definition answers ::
  "('u, 'x) usb_ops_scheme \<Rightarrow> u16 \<Rightarrow> u16 \<Rightarrow> bytes \<Rightarrow> 'u \<Rightarrow> bytes \<Rightarrow> 'u \<Rightarrow> bool" where
  "answers ops cmd tag p u rep u' \<longleftrightarrow> even (length rep) \<and> length rep < 0x1f8
     \<and> (\<exists>u1. ctl_out ops 0x40 0 0 0 (cmd_packet cmd tag p) u = (int (8 + length p), u1)
            \<and> becomes_ready ops u1 (reply_packet cmd tag rep) u')"

lemma poll_reply_ready: "becomes_ready ops u xs u' \<Longrightarrow> poll_reply ops u = Some (Inr xs, u')"
proof (induction rule: becomes_ready.induct)
  case (ready u xs u')
  then show ?case by (subst poll_reply.simps) (simp add: fnusb_control_in_def)
next
  case (not_yet u ys u1 xs u')
  then show ?case by (subst poll_reply.simps) (auto simp: fnusb_control_in_def)
qed

lemma poll_reply_error:
  "ctl_in ops 0xc0 0 0 0 0x200 u = (Inl e, u') \<Longrightarrow> e < 0 \<Longrightarrow> poll_reply ops u = Some (Inl e, u')"
  by (subst poll_reply.simps) (simp add: fnusb_control_in_def)

text \<open>A device that never becomes ready is polled for ever.\<close>

lemma poll_reply_diverges:
  assumes "\<And>v. P v \<Longrightarrow> \<exists>ys v'. ctl_in ops 0xc0 0 0 0 0x200 v = (Inr ys, v') \<and> (ys = [] \<or> length ys = 0x200) \<and> P v'"
    and "P u"
  shows "poll_reply ops u = None"
proof (rule ccontr)
  assume "poll_reply ops u \<noteq> None"
  then obtain y where y: "poll_reply ops u = Some y" by auto
  have "ops = ops \<longrightarrow> \<not> P u"
  proof (rule poll_reply.raw_induct [where P = "\<lambda>o' v y. o' = ops \<longrightarrow> \<not> P v", OF _ y], intro impI notI)
    fix f and o' :: "('a, 'b) usb_ops_scheme" and v y
    assume IH: "\<And>o' v y. f o' v = Some y \<Longrightarrow> o' = ops \<longrightarrow> \<not> P v"
      and step: "(let (r, u') = fnusb_control_in o' 0xc0 0 0 0 0x200 v
        in if actual_length r = 0 \<or> actual_length r = 0x200 then f o' u' else Some (r, u')) = Some y"
      and "o' = ops" "P v"
    obtain ys v' where "ctl_in ops 0xc0 0 0 0 0x200 v = (Inr ys, v')"
      "ys = [] \<or> length ys = 0x200" "P v'" using assms(1) [OF \<open>P v\<close>] by blast
    then show False using IH step \<open>o' = ops\<close> by (auto simp: fnusb_control_in_def)
  qed
  with assms(2) show False by simp
qed

lemma read_reply_packet:
  "read_cam_hdr (reply_packet cmd tag rep) =
     \<lparr>ch_magic0 = 0x52, ch_magic1 = 0x42, ch_len = of_nat (length rep div 2), ch_cmd = cmd, ch_tag = tag\<rparr>"
  "length (reply_packet cmd tag rep) = cam_hdr_size + length rep"
  "drop cam_hdr_size (reply_packet cmd tag rep) = rep"
  by (simp_all add: read_cam_hdr_def reply_packet_def cam_hdr_bytes_def cam_hdr_size_def
      bytes16_def wire_simps nth_append)

lemma check_reply_packet:
  assumes "even (length rep)" "length rep < 0x1f8"
  shows "check_reply cmd res n (reply_packet cmd (cam_tag d) rep) d
    = (int (length rep), take n rep, d\<lparr>cam_tag := cam_tag d + 1\<rparr>)"
proof -
  have "unat (of_nat (length rep div 2) :: u16) = length rep div 2"
    using assms(2) by (simp add: unat_of_nat)
  then show ?thesis
    by (simp add: check_reply_def Let_def read_reply_packet)
qed

lemma send_cmd_answers:
  assumes "answers ops cmd (cam_tag d) p (usb_state d) rep u'"
    and "even (length p)" "length p \<le> 0x3f8"
  shows "send_cmd ops cmd p n d
    = Some (int (length rep), take n rep, d\<lparr>usb_state := u', cam_tag := cam_tag d + 1\<rparr>)"
proof -
  obtain u1 where o: "ctl_out ops 0x40 0 0 0 (cmd_packet cmd (cam_tag d) p) (usb_state d) = (int (8 + length p), u1)"
    and r: "becomes_ready ops u1 (reply_packet cmd (cam_tag d) rep) u'"
    and len: "even (length rep)" "length rep < 0x1f8"
    using assms(1) by (auto simp: answers_def)
  show ?thesis
    using assms(2,3) check_reply_packet [OF len, of cmd _ n "d\<lparr>usb_state := u'\<rparr>"]
    by (simp add: send_cmd_def cam_hdr_size_def fnusb_control_out_def o poll_reply_ready [OF r])
qed

lemma read_cmos_answers:
  assumes "answers ops 0x95 (cam_tag d) (bytes16 1 @ bytes16 (reg AND 0x7fff) @ bytes16 0) (usb_state d)
      (st @ bytes16 v) u'" "length st = 4"
  shows "read_cmos_register ops reg d = Some (v, d\<lparr>usb_state := u', cam_tag := cam_tag d + 1\<rparr>)"
proof -
  have "send_cmd ops 0x95 (bytes16 1 @ bytes16 (reg AND 0x7fff) @ bytes16 0) 6 d
      = Some (6, st @ bytes16 v, d\<lparr>usb_state := u', cam_tag := cam_tag d + 1\<rparr>)"
    using assms(2) by (subst send_cmd_answers [OF assms(1)]) simp_all
  moreover have "le16 ((st @ bytes16 v) ! 4) ((st @ bytes16 v) ! 5) = v"
    using assms(2) by (simp add: nth_append bytes16_def wire_simps)
  ultimately show ?thesis
    using assms(2) by (simp only: read_cmos_register_def option.case prod.case) simp
qed

lemma write_cmos_answers:
  assumes "answers ops 0x95 (cam_tag d) (bytes16 1 @ bytes16 (reg OR 0x8000) @ bytes16 v) (usb_state d) rep u'"
  shows "write_cmos_register ops reg v d
    = Some (int (length rep), d\<lparr>usb_state := u', cam_tag := cam_tag d + 1\<rparr>)"
  by (simp add: write_cmos_register_def send_cmd_answers [OF assms(1)])

lemma write_register_answers:
  assumes "answers ops 0x03 (cam_tag d) (bytes16 reg @ bytes16 v) (usb_state d) rep u'"
  shows "write_register ops reg v d = Some (0, d\<lparr>usb_state := u', cam_tag := cam_tag d + 1\<rparr>)"
  by (simp add: write_register_def send_cmd_answers [OF assms(1)])

section \<open>A simulated camera\<close>

text \<open>
  A concrete device for the witnesses: two banks of registers behind the command protocol,
  with two not-ready replies before each answer.
\<close>

record sim_cam =
  sim_regs :: "u16 \<Rightarrow> u16"
  sim_cmos :: "u16 \<Rightarrow> u16"
  sim_wait :: nat
  sim_reply :: bytes

definition sim_serve :: "u16 \<Rightarrow> bytes \<Rightarrow> sim_cam \<Rightarrow> bytes \<times> sim_cam" where
  "sim_serve cmd p c =
     (let a = le16 (p ! 0) (p ! 1); b = le16 (p ! 2) (p ! 3)
      in if cmd = 0x02 then (bytes16 0 @ bytes16 (sim_regs c a), c)
         else if cmd = 0x03 then (bytes16 0, c\<lparr>sim_regs := (sim_regs c)(a := b)\<rparr>)
         else if cmd = 0x95 then
           (if b AND 0x8000 = 0
            then (bytes16 a @ bytes16 b @ bytes16 (sim_cmos c b), c)
            else (bytes16 a @ bytes16 b @ [p ! 4, p ! 5],
                  c\<lparr>sim_cmos := (sim_cmos c)(b AND 0x7fff := le16 (p ! 4) (p ! 5))\<rparr>))
         else if cmd = 0x04 then (replicate 322 0, c)
         else if a = 0x40 then (replicate 118 0, c)
         else if a = 0x41 then (replicate 8 0, c)
         else (replicate 4 0, c))"

definition sim_ops :: "sim_cam usb_ops" where
  "sim_ops =
     \<lparr>ctl_out = (\<lambda>rt rq v i pkt c.
        let h = read_cam_hdr pkt; (rep, c') = sim_serve (ch_cmd h) (drop 8 pkt) c
        in (int (length pkt),
            c'\<lparr>sim_wait := 2, sim_reply := reply_packet (ch_cmd h) (ch_tag h) rep\<rparr>)),
      ctl_in = (\<lambda>rt rq v i n c.
        if 0 < sim_wait c then (Inr [], c\<lparr>sim_wait := sim_wait c - 1\<rparr>)
        else (Inr (take n (sim_reply c)), c))\<rparr>"

definition sim_start :: "sim_cam cam_link" where
  "sim_start = \<lparr>usb_state = \<lparr>sim_regs = (\<lambda>_. 0), sim_cmos = (\<lambda>_. 0x4012), sim_wait = 0, sim_reply = []\<rparr>,
     cam_tag = 0xFFFF, cam_pid = PID_K4W_CAMERA\<rparr>"

lemma sim_out:
  "even (length p) \<Longrightarrow> length p \<le> 0x3f8 \<Longrightarrow> sim_serve cmd p c = (rep, c') \<Longrightarrow>
     ctl_out sim_ops rt rq v i (cmd_packet cmd tag p) c
       = (int (8 + length p), c'\<lparr>sim_wait := 2, sim_reply := reply_packet cmd tag rep\<rparr>)"
  by (simp add: sim_ops_def cmd_packet_def cam_hdr_bytes_def read_cam_hdr_def bytes16_def
      wire_simps nth_append)

lemma sim_ready:
  assumes "length rep < 0x1f8"
  shows "becomes_ready sim_ops (c\<lparr>sim_wait := n, sim_reply := reply_packet cmd tag rep\<rparr>)
    (reply_packet cmd tag rep) (c\<lparr>sim_wait := 0, sim_reply := reply_packet cmd tag rep\<rparr>)"
proof (induction n)
  case 0
  show ?case
    by (rule becomes_ready.ready)
      (use assms in \<open>auto simp: sim_ops_def read_reply_packet(2) cam_hdr_size_def reply_packet_def cam_hdr_bytes_def\<close>)
next
  case (Suc n)
  show ?case
    by (rule becomes_ready.not_yet [where ys = "[]", OF _ _ Suc.IH]) (simp_all add: sim_ops_def)
qed

lemma sim_answers:
  assumes "sim_serve cmd p c = (rep, c')" "even (length p)" "length p \<le> 0x3f8"
    and "even (length rep)" "length rep < 0x1f8"
  shows "answers sim_ops cmd tag p c rep (c'\<lparr>sim_wait := 0, sim_reply := reply_packet cmd tag rep\<rparr>)"
  unfolding answers_def
  using assms sim_out [OF assms(2,3,1)] sim_ready [OF assms(5)] by blast

section \<open>Properties\<close>

text \<open>C19: The command protocol works.  When the device takes the command and, after any
  number of not-ready replies, answers it with the same command word and tag, \<open>send_cmd\<close>
  returns the length of the answer, stores its payload cut to the caller's buffer, and
  advances the tag by one (modulo 65536).\<close>
theorem send_cmd_answered:
  assumes "answers ops cmd (cam_tag d) p (usb_state d) rep u'"
    and "even (length p)" "length p \<le> 0x3f8"
  shows "send_cmd ops cmd p n d
    = Some (int (length rep), take n rep, d\<lparr>usb_state := u', cam_tag := cam_tag d + 1\<rparr>)"
  using assms by (rule send_cmd_answers)

theorem send_cmd_answered_witness:
  "\<exists>u'. send_cmd sim_ops 0x02 (bytes16 0x15) 4 sim_start
     = Some (4, [0, 0, 0, 0], sim_start\<lparr>usb_state := u', cam_tag := 0\<rparr>)"
proof -
  have s: "sim_serve 0x02 (bytes16 0x15) (usb_state sim_start) = ([0, 0, 0, 0], usb_state sim_start)"
    by (simp add: sim_serve_def sim_start_def bytes16_def)
  show ?thesis
    using send_cmd_answered [where n = 4 and d = sim_start,
        OF sim_answers [OF s, where tag = "cam_tag sim_start"]]
    by (auto simp: sim_start_def)
qed

text \<open>What a command can do to the device record, whatever the device replies: either
  the reply was accepted, its length is returned, at most the caller's buffer is filled, and
  the tag moves on by one; or nothing is stored and the tag stays.  No other field changes.\<close>
lemma send_cmd_outcome:
  assumes "send_cmd ops cmd p n d = Some (r, w, d')"
  shows "length w \<le> n \<and> link_frame d' = link_frame d \<and>
    (if cam_tag d' = cam_tag d then w = [] else 0 \<le> r \<and> length w = min (nat r) n \<and> cam_tag d' = cam_tag d + 1)"
  using assms by (rule send_cmd_effect) (auto simp: link_frame_def)

lemma send_cmd_outcome_example:
  "send_cmd sim_ops 0x02 [1] 4 sim_start = Some (-1, [], sim_start)
   \<and> length ([] :: bytes) \<le> 4 \<and> link_frame sim_start = link_frame sim_start"
proof -
  have c: "send_cmd sim_ops 0x02 [1] 4 sim_start = Some (-1, [], sim_start)"
    by (simp add: send_cmd_def)
  from send_cmd_outcome [OF c] c show ?thesis by simp
qed

text \<open>A CMOS flag is a read-modify-write.  When the device answers the two commands,
  \<open>freenect_set_flag\<close> writes back the register's old value with exactly the flag's bit set
  or cleared, and returns the length of the write's reply: it is positive, although the
  header promises 0 on success.\<close>
lemma set_flag_read_modify_write:
  assumes "0 \<le> flag" "flag < 2 ^ 16" "v \<noteq> 0xFFFF" "length st = 4"
    and "answers ops 0x95 (cam_tag d) (bytes16 1 @ bytes16 0x0106 @ bytes16 0) (usb_state d) (st @ bytes16 v) u1"
    and "answers ops 0x95 (cam_tag d + 1)
           (bytes16 1 @ bytes16 0x8106 @
             bytes16 (if val = 1 then v OR word_of_int flag else v AND NOT (word_of_int flag))) u1 rep u2"
  shows "freenect_set_flag ops flag val d
    = Some (int (length rep), d\<lparr>usb_state := u2, cam_tag := cam_tag d + 2\<rparr>)"
proof -
  have r: "read_cmos_register ops 0x0106 d = Some (v, d\<lparr>usb_state := u1, cam_tag := cam_tag d + 1\<rparr>)"
    by (rule read_cmos_answers) (use assms(4,5) in simp_all)
  let ?d1 = "d\<lparr>usb_state := u1, cam_tag := cam_tag d + 1\<rparr>"
  let ?v' = "if val = 1 then v OR word_of_int flag else v AND NOT (word_of_int flag)"
  have w: "write_cmos_register ops 0x0106 ?v' ?d1
      = Some (int (length rep), ?d1\<lparr>usb_state := u2, cam_tag := cam_tag ?d1 + 1\<rparr>)"
    by (rule write_cmos_answers) (use assms(6) in simp)
  have "flag \<noteq> FREENECT_NEAR_MODE" "\<not> 2 ^ 16 \<le> flag"
    using assms(2) by (auto simp: FREENECT_NEAR_MODE_def)
  then show ?thesis
    using assms(3) w r by (simp add: freenect_set_flag_def set_cmos_flag_def)
qed

lemma set_flag_read_modify_write_example:
  "\<exists>u. freenect_set_flag sim_ops FREENECT_RAW_COLOR 0 sim_start
     = Some (6, sim_start\<lparr>usb_state := u, cam_tag := 1\<rparr>)"
proof -
  let ?c = "usb_state sim_start"
  have s1: "sim_serve 0x95 (bytes16 1 @ bytes16 0x0106 @ bytes16 0) ?c
      = ((bytes16 1 @ bytes16 0x0106) @ bytes16 0x4012, ?c)"
    by (simp add: sim_serve_def sim_start_def bytes16_def le16_def Let_def)
  obtain c1 where a1: "answers sim_ops 0x95 (cam_tag sim_start)
      (bytes16 1 @ bytes16 0x0106 @ bytes16 0) ?c ((bytes16 1 @ bytes16 0x0106) @ bytes16 0x4012) c1"
    using sim_answers [OF s1] by fastforce
  obtain c2 where s2: "sim_serve 0x95 (bytes16 1 @ bytes16 0x8106 @ bytes16 (0x4012 AND NOT 0x10)) c1
      = (bytes16 1 @ bytes16 0x8106 @ bytes16 0x4002, c2)"
    by (simp add: sim_serve_def bytes16_def le16_def Let_def)
  obtain c3 where a2: "answers sim_ops 0x95 (cam_tag sim_start + 1)
      (bytes16 1 @ bytes16 0x8106 @ bytes16 (0x4012 AND NOT 0x10)) c1
      (bytes16 1 @ bytes16 0x8106 @ bytes16 0x4002) c3"
    using sim_answers [OF s2] by fastforce
  have "freenect_set_flag sim_ops FREENECT_RAW_COLOR 0 sim_start
     = Some (int (length (bytes16 1 @ bytes16 0x8106 @ bytes16 0x4002)),
         sim_start\<lparr>usb_state := c3, cam_tag := cam_tag sim_start + 2\<rparr>)"
    by (rule set_flag_read_modify_write [where v = "0x4012", OF _ _ _ _ a1])
      (use a2 in \<open>simp_all add: FREENECT_RAW_COLOR_def\<close>)
  then show ?thesis by (simp add: sim_start_def)
qed

text \<open>A lost reply is reported as success.  When the OUT transfer succeeds and the IN
  transfer that should bring the answer fails, \<open>send_cmd\<close> returns the OUT transfer's count,
  so \<open>write_register\<close> returns 0 although the device confirmed nothing.\<close>
lemma lost_reply_is_success:
  assumes "ctl_out ops 0x40 0 0 0 (cmd_packet 3 (cam_tag d) (bytes16 r @ bytes16 v)) (usb_state d) = (12, u1)"
    and "ctl_in ops 0xc0 0 0 0 0x200 u1 = (Inl e, u2)" "e < 0"
  shows "write_register ops r v d = Some (0, d\<lparr>usb_state := u2\<rparr>)"
  using assms(1) poll_reply_error [OF assms(2,3)]
  by (simp add: write_register_def send_cmd_def cam_hdr_size_def fnusb_control_out_def check_reply_def)

lemma lost_reply_is_success_example:
  "write_register (sim_ops\<lparr>ctl_in := (\<lambda>_ _ _ _ _ c. (Inl (-7), c))\<rparr>) 6 2 sim_start
     = Some (0, sim_start\<lparr>usb_state :=
         snd (ctl_out sim_ops 0x40 0 0 0 (cmd_packet 3 0xFFFF (bytes16 6 @ bytes16 2)) (usb_state sim_start))\<rparr>)"
  by (rule lost_reply_is_success [where e = "-7"])
    (simp_all add: sim_ops_def sim_start_def cmd_packet_def cam_hdr_bytes_def bytes16_def Let_def split_beta)

text \<open>The wait for an answer has no bound: a device that accepts commands but
  answers every poll with an empty (or a 512 byte) packet is polled for ever, so \<open>send_cmd\<close>
  does not return.\<close>
lemma silent_device_never_returns:
  assumes "\<And>v. \<exists>ys v'. ctl_in ops 0xc0 0 0 0 0x200 v = (Inr ys, v') \<and> (ys = [] \<or> length ys = 0x200)"
    and "0 \<le> fst (ctl_out ops 0x40 0 0 0 (cmd_packet cmd (cam_tag d) p) (usb_state d))"
    and "even (length p)" "length p \<le> 0x3f8"
  shows "send_cmd ops cmd p n d = None"
proof -
  have "poll_reply ops u = None" for u
    using poll_reply_diverges [where P = "\<lambda>_. True" and ops = ops] assms(1) by blast
  then show ?thesis
    using assms(2-4) by (simp add: send_cmd_def cam_hdr_size_def fnusb_control_out_def split_beta Let_def)
qed

lemma silent_device_never_returns_example:
  "send_cmd (sim_ops\<lparr>ctl_in := (\<lambda>_ _ _ _ _ c. (Inr [], c))\<rparr>) 2 [1, 0] 4 sim_start = None"
  by (rule silent_device_never_returns)
    (simp_all add: sim_ops_def Let_def split_beta)

end
