(* ===== verification/UsbBulk.thy ===== *)
theory UsbBulk
  imports UsbCmd
begin

text \<open>
  Bulk transfers: \<open>fnusb_bulk\<close> of \<open>libfreenect/usb_libusb10.c\<close> and the two directions of
  \<open>libusb_bulk_transfer\<close>, an argument.  A transfer gets an endpoint, its data or the size of
  its buffer, and a timeout; it returns the result code with the number of bytes taken, or
  with the bytes received.
\<close>

record 'u bulk_ops = "'u usb_ops" +
  bulk_out :: "u8 \<Rightarrow> bytes \<Rightarrow> nat \<Rightarrow> 'u \<Rightarrow> (int \<times> nat) \<times> 'u"
  bulk_in :: "u8 \<Rightarrow> nat \<Rightarrow> nat \<Rightarrow> 'u \<Rightarrow> (int \<times> bytes) \<times> 'u"

definition fnusb_bulk_out :: "('u, 'x) bulk_ops_scheme \<Rightarrow> u8 \<Rightarrow> bytes \<Rightarrow> 'u \<Rightarrow> (int \<times> nat) \<times> 'u" where
  "fnusb_bulk_out ops endpoint data u = bulk_out ops endpoint data 0 u"

definition fnusb_bulk_in :: "('u, 'x) bulk_ops_scheme \<Rightarrow> u8 \<Rightarrow> nat \<Rightarrow> 'u \<Rightarrow> (int \<times> bytes) \<times> 'u" where
  "fnusb_bulk_in ops endpoint n u = bulk_in ops endpoint n 0 u"

text \<open>A command sent with a length check, as every caller does.\<close>

definition send_exact :: "('u, 'x) bulk_ops_scheme \<Rightarrow> bytes \<Rightarrow> 'u \<Rightarrow> bool \<times> 'u" where
  "send_exact ops data u =
     (let ((res, transferred), u') = fnusb_bulk_out ops 1 data u in (res = 0 \<and> transferred = length data, u'))"

text \<open>A host that takes every bulk transfer whole, and the list of what it took as its state.\<close>

definition records_bulk :: "(bytes list, 'x) bulk_ops_scheme \<Rightarrow> bool" where
  "records_bulk ops \<longleftrightarrow> (\<forall>ep xs t u. bulk_out ops ep xs t u = ((0, length xs), u @ [xs]))
     \<and> (\<forall>ep n t u. snd (bulk_in ops ep n t u) = u)"

lemma send_exact_records: "records_bulk ops \<Longrightarrow> send_exact ops xs u = (True, u @ [xs])"
  by (simp add: send_exact_def fnusb_bulk_out_def records_bulk_def)

end
