(* ===== verification/Tilt.thy ===== *)
theory Tilt
  imports UsbBulk Complex_Main
begin

text \<open>
  Motor, accelerometer and LED, \<open>libfreenect/tilt.c\<close>: the control requests of the older
  devices and the bulk commands of those that drive the motor through the audio function.

  Angles are doubles in C; they are reals here.  The only operations on them, a comparison,
  a multiplication by 2 and a truncation of a value of at most 62, are exact on finite doubles.
  A read of bytes of a local buffer that no transfer has written is \<open>None\<close>.
\<close>

section \<open>State\<close>

record raw_tilt_state =
  accelerometer_x :: u16
  accelerometer_y :: u16
  accelerometer_z :: u16
  tilt_angle :: u8
  tilt_status :: u8

text \<open>
  The motor fields of a device, and the two static counters, kept as the 32 bits that are sent.
\<close>

record 'u motor =
  mt_usb :: 'u
  mt_audio_enabled :: bool
  mt_motor_subdevice :: bool
  mt_raw_state :: raw_tilt_state
  tag_seq :: u32
  tag_next_ack :: u32

section \<open>Commands over the audio function\<close>

definition motor_command :: "u32 \<Rightarrow> u32 \<Rightarrow> u32 \<Rightarrow> bytes" where
  "motor_command tag arg1 cmd = bytes32 0x06022009 @ bytes32 tag @ bytes32 arg1 @ bytes32 cmd"

definition get_reply :: "('u, 'x) bulk_ops_scheme \<Rightarrow> 'u motor \<Rightarrow> int \<times> 'u motor" where
  "get_reply ops d =
     (let ((res, buffer), u) = bulk_in ops 0x81 512 100 (mt_usb d); d1 = d\<lparr>mt_usb := u\<rparr>
      in if res \<noteq> 0 then (res, d1)
         else if length buffer \<noteq> 12 then (res, d1)
         else
           (let magic = le32 (buffer ! 0) (buffer ! 1) (buffer ! 2) (buffer ! 3);
                status = le32 (buffer ! 8) (buffer ! 9) (buffer ! 10) (buffer ! 11);
                res1 = (if magic \<noteq> 0x0a6fe000 then -1 else res);
                res2 = (if status \<noteq> 0 then -1 else res1)
            in (res2, d1\<lparr>tag_next_ack := tag_next_ack d1 + 1\<rparr>)))"

text \<open>A 32 bit value of the accelerometer reply, which starts 16 bytes into the buffer.\<close>

definition accel_field :: "bytes \<Rightarrow> nat \<Rightarrow> u32" where
  "accel_field buffer i =
     le32 (buffer ! (16 + 4 * i)) (buffer ! (17 + 4 * i)) (buffer ! (18 + 4 * i)) (buffer ! (19 + 4 * i))"

definition update_tilt_state_alt :: "('u, 'x) bulk_ops_scheme \<Rightarrow> 'u motor \<Rightarrow> (int \<times> 'u motor) option" where
  "update_tilt_state_alt ops d =
     (let cmd = motor_command (tag_seq d) 0x68 0x8032;
          ((res, transferred), u) = bulk_out ops 0x01 cmd 250 (mt_usb d);
          d1 = d\<lparr>tag_seq := tag_seq d + 1, mt_usb := u\<rparr>
      in if res \<noteq> 0 then Some (res, d1)
         else
           (let ((res, buffer), u) = bulk_in ops 0x81 256 250 (mt_usb d1); d2 = d1\<lparr>mt_usb := u\<rparr>
            in if res \<noteq> 0 then Some (res, d2)
               else if length buffer < 32 then None
               else Some (get_reply ops (d2\<lparr>mt_raw_state := (mt_raw_state d2)
                      \<lparr>accelerometer_x := ucast (accel_field buffer 0),
                       accelerometer_y := ucast (accel_field buffer 1),
                       accelerometer_z := ucast (accel_field buffer 2),
                       tilt_angle := ucast (accel_field buffer 3) * 2\<rparr>\<rparr>))))"

definition freenect_set_tilt_degs_alt ::
  "('u, 'x) bulk_ops_scheme \<Rightarrow> int \<Rightarrow> 'u motor \<Rightarrow> int \<times> 'u motor" where
  "freenect_set_tilt_degs_alt ops tilt_degrees d =
     (if tilt_degrees > 31 \<or> tilt_degrees < -31 then (-1, d)
      else
        (let cmd = motor_command (tag_seq d) 0 0x803b @ bytes32 (word_of_int tilt_degrees);
             ((res, transferred), u) = bulk_out ops 0x01 cmd 250 (mt_usb d);
             d1 = d\<lparr>tag_seq := tag_seq d + 1, mt_usb := u\<rparr>
         in if res \<noteq> 0 then (res, d1) else get_reply ops d1))"

definition LED_OFF :: int where "LED_OFF = 0"
definition LED_GREEN :: int where "LED_GREEN = 1"
definition LED_RED :: int where "LED_RED = 2"
definition LED_YELLOW :: int where "LED_YELLOW = 3"
definition LED_BLINK_GREEN :: int where "LED_BLINK_GREEN = 4"
definition LED_BLINK_RED_YELLOW :: int where "LED_BLINK_RED_YELLOW = 6"

definition LED_ALT_OFF :: int where "LED_ALT_OFF = 1"
definition LED_ALT_BLINK_GREEN :: int where "LED_ALT_BLINK_GREEN = 2"
definition LED_ALT_SOLID_GREEN :: int where "LED_ALT_SOLID_GREEN = 3"
definition LED_ALT_SOLID_RED :: int where "LED_ALT_SOLID_RED = 4"

definition alt_led_state :: "int \<Rightarrow> int" where
  "alt_led_state state =
     (if state = LED_GREEN then LED_ALT_SOLID_GREEN
      else if state = LED_RED then LED_ALT_SOLID_RED
      else if state = LED_YELLOW then LED_ALT_SOLID_GREEN
      else if state = LED_OFF then LED_ALT_OFF
      else if state = LED_BLINK_GREEN then LED_ALT_BLINK_GREEN
      else LED_GREEN)"

definition fnusb_set_led_alt :: "('u, 'x) bulk_ops_scheme \<Rightarrow> int \<Rightarrow> 'u motor \<Rightarrow> int \<times> 'u motor" where
  "fnusb_set_led_alt ops state d =
     (let cmd = motor_command (tag_seq d) 0 0x10 @ bytes32 (word_of_int (alt_led_state state));
          ((res, transferred), u) = bulk_out ops 0x01 cmd 100 (mt_usb d);
          d1 = d\<lparr>tag_seq := tag_seq d + 1, mt_usb := u\<rparr>
      in if res \<noteq> 0 then (res, d1) else get_reply ops d1)"

definition freenect_set_led_alt :: "('u, 'x) bulk_ops_scheme \<Rightarrow> int \<Rightarrow> 'u motor \<Rightarrow> int \<times> 'u motor" where
  "freenect_set_led_alt ops state d = fnusb_set_led_alt ops state d"

section \<open>The operations of the interface\<close>

definition freenect_update_tilt_state :: "('u, 'x) bulk_ops_scheme \<Rightarrow> 'u motor \<Rightarrow> (int \<times> 'u motor) option" where
  "freenect_update_tilt_state ops d =
     (if mt_audio_enabled d then update_tilt_state_alt ops d
      else if \<not> mt_motor_subdevice d then Some (0, d)
      else
        (let (r, u) = fnusb_control_in ops 0xC0 0x32 0 0 10 (mt_usb d); d1 = d\<lparr>mt_usb := u\<rparr>;
             ret = actual_length r; buf = received r
         in if ret \<noteq> 10 then Some (if ret < 0 then ret else -1, d1)
            else Some (ret, d1\<lparr>mt_raw_state := \<lparr>
                   accelerometer_x = push_bit 8 (ucast (buf ! 2)) OR ucast (buf ! 3),
                   accelerometer_y = push_bit 8 (ucast (buf ! 4)) OR ucast (buf ! 5),
                   accelerometer_z = push_bit 8 (ucast (buf ! 6)) OR ucast (buf ! 7),
                   tilt_angle = buf ! 8, tilt_status = buf ! 9\<rparr>\<rparr>)))"

text \<open>The conversion of a double to an integer type: towards zero.\<close>

definition to_int_trunc :: "real \<Rightarrow> int" where
  "to_int_trunc x = (if x < 0 then - \<lfloor>- x\<rfloor> else \<lfloor>x\<rfloor>)"

definition MAX_TILT_ANGLE :: real where "MAX_TILT_ANGLE = 31"
definition MIN_TILT_ANGLE :: real where "MIN_TILT_ANGLE = - 31"

definition tilt_control_value :: "real \<Rightarrow> int" where
  "tilt_control_value angle =
     (let angle = (if angle < MIN_TILT_ANGLE then MIN_TILT_ANGLE
                   else if angle > MAX_TILT_ANGLE then MAX_TILT_ANGLE else angle)
      in to_int_trunc (angle * 2))"

definition freenect_set_tilt_degs :: "('u, 'x) bulk_ops_scheme \<Rightarrow> real \<Rightarrow> 'u motor \<Rightarrow> int \<times> 'u motor" where
  "freenect_set_tilt_degs ops angle d =
     (if mt_audio_enabled d then freenect_set_tilt_degs_alt ops (to_int_trunc angle) d
      else if \<not> mt_motor_subdevice d then (0, d)
      else
        (let (ret, u) = fnusb_control_out ops 0x40 0x31 (word_of_int (tilt_control_value angle)) 0 [] (mt_usb d)
         in (ret, d\<lparr>mt_usb := u\<rparr>)))"

definition freenect_set_led :: "('u, 'x) bulk_ops_scheme \<Rightarrow> int \<Rightarrow> 'u motor \<Rightarrow> int \<times> 'u motor" where
  "freenect_set_led ops option d =
     (if mt_audio_enabled d then freenect_set_led_alt ops option d
      else if \<not> mt_motor_subdevice d then (0, d)
      else
        (let (ret, u) = fnusb_control_out ops 0x40 0x06 (word_of_int option) 0 [] (mt_usb d)
         in (ret, d\<lparr>mt_usb := u\<rparr>)))"

definition freenect_get_tilt_state :: "'u motor \<Rightarrow> raw_tilt_state" where
  "freenect_get_tilt_state d = mt_raw_state d"

definition freenect_get_tilt_degs :: "raw_tilt_state \<Rightarrow> real" where
  "freenect_get_tilt_degs state = of_int (sint (tilt_angle state)) / 2"

definition freenect_get_tilt_status :: "raw_tilt_state \<Rightarrow> u8" where
  "freenect_get_tilt_status state = tilt_status state"

section \<open>Replies\<close>

lemma to_int_trunc_bounds: "of_int (- n) \<le> x \<Longrightarrow> x \<le> of_int n \<Longrightarrow> - n \<le> to_int_trunc x \<and> to_int_trunc x \<le> n"
  unfolding to_int_trunc_def by (auto simp: le_floor_iff floor_le_iff) linarith+

lemma tilt_control_value_bounds: "- 62 \<le> tilt_control_value angle \<and> tilt_control_value angle \<le> 62"
  unfolding tilt_control_value_def Let_def MIN_TILT_ANGLE_def MAX_TILT_ANGLE_def
  by (rule to_int_trunc_bounds) auto

text \<open>The value that reaches the device is a two's complement 16 bit number in half degrees.\<close>

lemma word16_round: "- 62 \<le> i \<Longrightarrow> i \<le> 62 \<Longrightarrow> sint (word_of_int i :: u16) = i"
  by (simp add: sint_sbintrunc' signed_take_bit_int_eq_self)

lemma get_reply_fields:
  "get_reply ops d = (r, d') \<Longrightarrow> mt_raw_state d' = mt_raw_state d \<and> tag_seq d' = tag_seq d"
  by (auto simp: get_reply_def Let_def split: prod.splits if_splits)

section \<open>Properties\<close>

text \<open>The motor is never driven beyond its range.  On a device whose motor takes control
  requests, \<open>freenect_set_tilt_degs\<close> sends exactly one request, whose value, read as the signed 16 bit
  number of half degrees, is between -62 and 62 for every angle, and is the doubled angle truncated
  towards zero when the angle is in range.\<close>
lemma tilt_request_in_range:
  assumes "\<not> mt_audio_enabled d" "mt_motor_subdevice d"
  shows "\<exists>w :: u16. - 62 \<le> sint w \<and> sint w \<le> 62
    \<and> (- 31 \<le> angle \<and> angle \<le> 31 \<longrightarrow> sint w = to_int_trunc (2 * angle))
    \<and> freenect_set_tilt_degs ops angle d
      = (fst (ctl_out ops 0x40 0x31 w 0 [] (mt_usb d)), d\<lparr>mt_usb := snd (ctl_out ops 0x40 0x31 w 0 [] (mt_usb d))\<rparr>)"
proof -
  let ?v = "tilt_control_value angle"
  have b: "- 62 \<le> ?v" "?v \<le> 62" using tilt_control_value_bounds by auto
  define w :: u16 where "w = word_of_int ?v"
  have "sint w = ?v" using word16_round [OF b] by (simp only: w_def)
  moreover have "- 31 \<le> angle \<and> angle \<le> 31 \<longrightarrow> ?v = to_int_trunc (2 * angle)"
    by (auto simp: tilt_control_value_def MIN_TILT_ANGLE_def MAX_TILT_ANGLE_def Let_def mult.commute)
  ultimately show ?thesis
    using b assms by (intro exI [of _ w])
      (auto simp: freenect_set_tilt_degs_def fnusb_control_out_def w_def [symmetric] split_beta Let_def)
qed

text \<open>A motor on a host that accepts every control transfer and answers no bulk transfer.\<close>

definition sample_motor_ops :: "(u16 list) bulk_ops" where
  "sample_motor_ops = \<lparr>ctl_out = (\<lambda>rt rq v i xs u. (0, v # u)), ctl_in = (\<lambda>rt rq v i n u. (Inr (replicate n 7), u)),
     bulk_out = (\<lambda>ep xs t u. ((0, length xs), u)), bulk_in = (\<lambda>ep n t u. ((-7, []), u))\<rparr>"

definition sample_motor :: "(u16 list) motor" where
  "sample_motor = \<lparr>mt_usb = [], mt_audio_enabled = False, mt_motor_subdevice = True,
     mt_raw_state = \<lparr>accelerometer_x = 0, accelerometer_y = 0, accelerometer_z = 0, tilt_angle = 0, tilt_status = 0\<rparr>,
     tag_seq = 0, tag_next_ack = 0\<rparr>"

lemma tilt_request_in_range_example:
  "\<exists>w :: u16. sint w \<le> 62 \<and> mt_usb (snd (freenect_set_tilt_degs sample_motor_ops 45 sample_motor)) = [w]"
proof -
  have "\<not> mt_audio_enabled sample_motor" "mt_motor_subdevice sample_motor" by (simp_all add: sample_motor_def)
  from tilt_request_in_range [OF this, of 45 sample_motor_ops] show ?thesis
    by (force simp: sample_motor_ops_def sample_motor_def)
qed

text \<open>The default of the LED translation switches the LED off.  \<open>fnusb_set_led_alt\<close> maps states it
  has no case for to \<open>LED_GREEN\<close> of the old numbering, which the new devices read as off: a request
  to blink red and yellow sends the same command as a request to switch the LED off.\<close>
lemma alt_led_default_is_off:
  assumes "state \<notin> {LED_OFF, LED_GREEN, LED_RED, LED_YELLOW, LED_BLINK_GREEN}"
  shows "fnusb_set_led_alt ops state d = fnusb_set_led_alt ops LED_OFF d"
proof -
  have "alt_led_state state = alt_led_state LED_OFF"
    using assms by (auto simp: alt_led_state_def LED_ALT_OFF_def LED_GREEN_def LED_OFF_def LED_RED_def LED_YELLOW_def)
  then show ?thesis by (simp add: fnusb_set_led_alt_def)
qed

lemma alt_led_default_is_off_example:
  "fnusb_set_led_alt sample_motor_ops LED_BLINK_RED_YELLOW sample_motor
     = fnusb_set_led_alt sample_motor_ops LED_OFF sample_motor"
  by (rule alt_led_default_is_off)
    (simp add: LED_BLINK_RED_YELLOW_def LED_GREEN_def LED_OFF_def LED_RED_def LED_YELLOW_def LED_BLINK_GREEN_def)

end
