(* ===== verification/Loader.thy ===== *)
theory Loader
  imports UsbBulk
begin

text \<open>
  The firmware loader of the audio device, \<open>libfreenect/loader.c\<close>: the version command, the
  upload of an image in pages of 16 KiB and packets of 512 bytes, the search for the firmware
  file and the upload of the CEMD data.  The file system, the environment variables and \<open>errno\<close>
  are the record \<open>file_env\<close>.  A use of an uninitialised pointer and an overflow of a local
  buffer are \<open>None\<close>.
\<close>

section \<open>State\<close>

record 'u loader =
  ld_usb :: 'u
  audio_tag :: u32

record file_env =
  fe_getenv :: "string \<Rightarrow> string option"
  fe_file :: "string \<Rightarrow> bytes option"
  fe_errno :: int

definition bootloader_command :: "u32 \<Rightarrow> u32 \<Rightarrow> u32 \<Rightarrow> u32 \<Rightarrow> bytes" where
  "bootloader_command tag bytes cmd addr =
     bytes32 0x06022009 @ bytes32 tag @ bytes32 bytes @ bytes32 cmd @ bytes32 addr @ bytes32 0"

definition cemdloader_command :: "u32 \<Rightarrow> u32 \<Rightarrow> u32 \<Rightarrow> u32 \<Rightarrow> bytes" where
  "cemdloader_command tag arg1 cmd arg2 =
     bytes32 0x06022009 @ bytes32 tag @ bytes32 arg1 @ bytes32 cmd @ bytes32 arg2 @ replicate 32 0"

record firmware_header =
  fw_magic :: u32
  fw_ver_minor :: u16
  fw_ver_major :: u16
  fw_ver_release :: u16
  fw_ver_patch :: u16
  fw_base_addr :: u32
  fw_size :: u32
  fw_entry_addr :: u32

definition firmware_header_size :: nat where "firmware_header_size = 24"

definition read_firmware_header :: "bytes \<Rightarrow> firmware_header" where
  "read_firmware_header b =
     \<lparr>fw_magic = le32 (b ! 0) (b ! 1) (b ! 2) (b ! 3), fw_ver_minor = le16 (b ! 4) (b ! 5),
      fw_ver_major = le16 (b ! 6) (b ! 7), fw_ver_release = le16 (b ! 8) (b ! 9),
      fw_ver_patch = le16 (b ! 10) (b ! 11), fw_base_addr = le32 (b ! 12) (b ! 13) (b ! 14) (b ! 15),
      fw_size = le32 (b ! 16) (b ! 17) (b ! 18) (b ! 19), fw_entry_addr = le32 (b ! 20) (b ! 21) (b ! 22) (b ! 23)\<rparr>"

section \<open>Commands\<close>

definition get_reply_loader :: "('u, 'x) bulk_ops_scheme \<Rightarrow> 'u loader \<Rightarrow> int \<times> 'u loader" where
  "get_reply_loader ops d =
     (let ((res, dump), u) = fnusb_bulk_in ops 0x81 512 (ld_usb d); d1 = d\<lparr>ld_usb := u\<rparr>
      in if res \<noteq> 0 \<or> length dump \<noteq> 12 then (res, d1)
         else if le32 (dump ! 0) (dump ! 1) (dump ! 2) (dump ! 3) \<noteq> 0x0a6fe000 then (-1, d1)
         else if le32 (dump ! 4) (dump ! 5) (dump ! 6) (dump ! 7) \<noteq> audio_tag d1 then (-1, d1)
         else (res, d1))"

definition check_version_string :: "('u, 'x) bulk_ops_scheme \<Rightarrow> 'u loader \<Rightarrow> int \<times> 'u loader" where
  "check_version_string ops d =
     (let (ok, u) = send_exact ops (bootloader_command (audio_tag d) 0x60 0 0x15) (ld_usb d); d1 = d\<lparr>ld_usb := u\<rparr>
      in if \<not> ok then (-1, d1)
         else
           (let ((res, buffer), u) = fnusb_bulk_in ops 0x81 512 (ld_usb d1); d2 = d1\<lparr>ld_usb := u\<rparr>
            in if res \<noteq> 0 then (res, d2)
               else (let (res, d3) = get_reply_loader ops d2 in (res, d3\<lparr>audio_tag := audio_tag d3 + 1\<rparr>))))"

section \<open>Upload of an image\<close>

text \<open>The inner loop: a page in packets of at most 512 bytes.\<close>

function send_page :: "('u, 'x) bulk_ops_scheme \<Rightarrow> bytes \<Rightarrow> 'u \<Rightarrow> bool \<times> 'u" where
  "send_page ops page u =
     (if page = [] then (True, u)
      else (let (ok, u') = send_exact ops (take 512 page) u
            in if ok then send_page ops (drop 512 page) u' else (False, u')))"
  by auto

termination by (relation "measure (\<lambda>(ops, page, u). length page)") auto

declare send_page.simps [simp del]

text \<open>The outer loop: \<open>rest\<close> is what is left of the image in memory, \<open>sent\<close> the bytes sent;
  the result tells whether all transfers succeeded.  \<open>bytesLeft\<close> and \<open>total_bytes_sent\<close>, an \<open>int\<close>
  in C, are natural numbers: they differ only for an image of 2 GiB or more.\<close>

definition page_length :: "u32 \<Rightarrow> nat \<Rightarrow> bytes \<Rightarrow> nat" where
  "page_length fsize sent rest =
     (let left = fsize - of_nat sent; read = (if 0x4000 > left then unat left else 0x4000)
      in if read > length rest then length rest else read)"

lemma page_length_le: "page_length fsize sent rest \<le> length rest"
  by (simp add: page_length_def Let_def)

function upload_pages ::
  "('u, 'x) bulk_ops_scheme \<Rightarrow> u32 \<Rightarrow> nat \<Rightarrow> u32 \<Rightarrow> bytes \<Rightarrow> 'u loader \<Rightarrow> bool \<times> nat \<times> 'u loader" where
  "upload_pages ops fsize sent addr rest d =
     (let read = page_length fsize sent rest
      in if read = 0 then (True, sent, d)
         else
           (let (ok, u) = send_exact ops (bootloader_command (audio_tag d) (of_nat read) 0x03 addr) (ld_usb d);
                d1 = d\<lparr>ld_usb := u\<rparr>
            in if \<not> ok then (False, sent, d1)
               else
                 (let (ok, u) = send_page ops (take read rest) (ld_usb d1); d2 = d1\<lparr>ld_usb := u\<rparr>
                  in if \<not> ok then (False, sent, d2)
                     else
                       (let (res, d3) = get_reply_loader ops d2
                        in upload_pages ops fsize (sent + read) (addr + of_nat read) (drop read rest)
                             (d3\<lparr>audio_tag := audio_tag d3 + 1\<rparr>)))))"
  by auto

termination
proof (relation "measure (\<lambda>(ops, fsize, sent, addr, rest, d). length rest)", goal_cases)
  case 1
  then show ?case by simp
next
  case (2 ops fsize sent addr rest d x)
  then show ?case using page_length_le [of fsize sent rest] by simp
qed

declare upload_pages.simps [simp del]

definition upload_firmware_from_memory ::
  "('u, 'x) bulk_ops_scheme \<Rightarrow> int \<Rightarrow> bytes \<Rightarrow> 'u loader \<Rightarrow> int \<times> 'u loader" where
  "upload_firmware_from_memory ops errno fw d =
     (if length fw < firmware_header_size then (- errno, d)
      else
        (let fwheader = read_firmware_header fw;
             (ok, sent, d1) = upload_pages ops (fw_size fwheader) 0 (fw_base_addr fwheader) fw d
         in if \<not> ok then (-1, d1)
            else if of_nat sent \<noteq> fw_size fwheader then (-1, d1)
            else
              (let (ok, u) = send_exact ops (bootloader_command (audio_tag d1) 0 0x04 (fw_entry_addr fwheader)) (ld_usb d1);
                   d2 = d1\<lparr>ld_usb := u\<rparr>
               in if \<not> ok then (-1, d2)
                  else (let (res, d3) = get_reply_loader ops d2 in (0, d3\<lparr>audio_tag := audio_tag d3 + 1\<rparr>)))))"

section \<open>Finding the firmware file\<close>

text \<open>
  The path of attempt \<open>i\<close>, \<open>Some None\<close> where the loop continues without one.  Attempt 3
  prints into a pointer that was not set in this round.
\<close>

definition fw_path :: "file_env \<Rightarrow> string \<Rightarrow> nat \<Rightarrow> string option option" where
  "fw_path env fw_filename i =
     (if i = 0 then Some (map_option (\<lambda>p. p @ fw_filename) (fe_getenv env ''LIBFREENECT_FIRMWARE_PATH''))
      else if i = 1 then (if length fw_filename + 2 \<le> 2048 then Some (Some (''.'' @ fw_filename)) else None)
      else if i = 2 then Some (map_option (\<lambda>p. p @ ''/.libfreenect'' @ fw_filename) (fe_getenv env ''HOME''))
      else if i = 3 then None
      else if i = 4 then Some (Some (''/usr/share/libfreenect'' @ fw_filename))
      else Some (Some (''./../Resources'' @ fw_filename)))"

function fw_search :: "file_env \<Rightarrow> string \<Rightarrow> nat \<Rightarrow> bytes option option" where
  "fw_search env fw_filename i =
     (if i \<ge> 6 then Some None
      else
        (case fw_path env fw_filename i of None \<Rightarrow> None
         | Some None \<Rightarrow> fw_search env fw_filename (i + 1)
         | Some (Some path) \<Rightarrow>
             (case fe_file env path of Some fw \<Rightarrow> Some (Some fw) | None \<Rightarrow> fw_search env fw_filename (i + 1))))"
  by auto

termination by (relation "measure (\<lambda>(env, fw_filename, i). 6 - i)") auto

declare fw_search.simps [simp del]

definition upload_firmware ::
  "('u, 'x) bulk_ops_scheme \<Rightarrow> file_env \<Rightarrow> string \<Rightarrow> 'u loader \<Rightarrow> (int \<times> 'u loader) option" where
  "upload_firmware ops env filename d =
     (if length filename + 2 > 1024 then None
      else
        (case fw_search env (''/'' @ filename) 0 of None \<Rightarrow> None
         | Some None \<Rightarrow> Some (- fe_errno env, d)
         | Some (Some fw) \<Rightarrow>
             (if fw = [] then Some (- fe_errno env, d)
              else Some (upload_firmware_from_memory ops (fe_errno env) fw d))))"

section \<open>CEMD data\<close>

function upload_cemd_pages ::
  "('u, 'x) bulk_ops_scheme \<Rightarrow> u32 \<Rightarrow> bytes \<Rightarrow> 'u loader \<Rightarrow> bool \<times> 'u loader" where
  "upload_cemd_pages ops addr rest d =
     (let page = take 0x4000 rest; read = length page
      in if read = 0 then (True, d)
         else
           (let (ok, u) = send_exact ops (cemdloader_command (audio_tag d) (of_nat read) 0x134 addr) (ld_usb d);
                d1 = d\<lparr>ld_usb := u\<rparr>
            in if \<not> ok then (False, d1)
               else
                 (let (ok, u) = send_page ops page (ld_usb d1); d2 = d1\<lparr>ld_usb := u\<rparr>
                  in if \<not> ok then (False, d2)
                     else
                       (let (res, d3) = get_reply_loader ops d2
                        in upload_cemd_pages ops (addr + of_nat read) (drop read rest)
                             (d3\<lparr>audio_tag := audio_tag d3 + 1\<rparr>)))))"
  by auto

termination by (relation "measure (\<lambda>(ops, addr, rest, d). length rest)") auto

declare upload_cemd_pages.simps [simp del]

definition upload_cemd_data :: "('u, 'x) bulk_ops_scheme \<Rightarrow> file_env \<Rightarrow> 'u loader \<Rightarrow> int \<times> 'u loader" where
  "upload_cemd_data ops env d =
     (let (ok, u) = send_exact ops (cemdloader_command (audio_tag d) 0 0x133 0x00064014) (ld_usb d); d1 = d\<lparr>ld_usb := u\<rparr>
      in if \<not> ok then (-1, d1)
         else
           (let (res, d2) = get_reply_loader ops d1; d3 = d2\<lparr>audio_tag := audio_tag d2 + 1\<rparr>
            in case fe_file env ''cemd_data.bin'' of None \<Rightarrow> (fe_errno env, d3)
               | Some contents \<Rightarrow>
                   (let (ok, d4) = upload_cemd_pages ops 0 contents d3
                    in if \<not> ok then (-1, d4)
                       else
                         (let (ok, u) = send_exact ops (cemdloader_command (audio_tag d4) 0 0x135 0x00064000) (ld_usb d4);
                              d5 = d4\<lparr>ld_usb := u\<rparr>
                          in if \<not> ok then (-1, d5)
                             else (let (res, d6) = get_reply_loader ops d5
                                   in (0, d6\<lparr>audio_tag := audio_tag d6 + 1\<rparr>))))))"

section \<open>What an upload sends\<close>

function chunks :: "nat \<Rightarrow> 'a list \<Rightarrow> 'a list list" where
  "chunks n xs = (if n = 0 \<or> xs = [] then [] else take n xs # chunks n (drop n xs))"
  by auto

termination by (relation "measure (\<lambda>(n, xs). length xs)") auto

declare chunks.simps [simp del]

lemma chunks_Nil [simp]: "chunks n [] = []"
  by (simp add: chunks.simps)

lemma chunks_step: "0 < n \<Longrightarrow> xs \<noteq> [] \<Longrightarrow> chunks n xs = take n xs # chunks n (drop n xs)"
  by (subst chunks.simps) simp

lemma concat_chunks: "0 < n \<Longrightarrow> concat (chunks n xs) = xs"
proof (induction n xs rule: chunks.induct)
  case (1 n xs)
  then show ?case by (cases "xs = []") (simp_all add: chunks_step)
qed

lemma chunks_bound: "c \<in> set (chunks n xs) \<Longrightarrow> 0 < length c \<and> length c \<le> n"
proof (induction n xs rule: chunks.induct)
  case (1 n xs)
  then show ?case by (cases "n = 0 \<or> xs = []") (auto simp: chunks.simps [of n xs])
qed

text \<open>The packets of the pages: a write command with tag, length and address, then the data.\<close>

fun page_traffic :: "u32 \<Rightarrow> u32 \<Rightarrow> bytes list \<Rightarrow> bytes list" where
  "page_traffic tag addr [] = []"
| "page_traffic tag addr (p # ps) =
     bootloader_command tag (of_nat (length p)) 0x03 addr # chunks 512 p
       @ page_traffic (tag + 1) (addr + of_nat (length p)) ps"

lemma send_page_records: "records_bulk ops \<Longrightarrow> send_page ops page u = (True, u @ chunks 512 page)"
proof (induction ops page u rule: send_page.induct)
  case (1 ops page u)
  show ?case
    using 1 by (cases "page = []") (subst send_page.simps, simp add: send_exact_records chunks_step)+
qed

lemma get_reply_records:
  assumes "records_bulk ops"
  shows "snd (get_reply_loader ops d) = d"
proof -
  obtain res dump u where b: "bulk_in ops 0x81 512 0 (ld_usb d) = ((res, dump), u)" by (metis prod.exhaust)
  have "snd (bulk_in ops 0x81 512 0 (ld_usb d)) = ld_usb d" using assms by (simp add: records_bulk_def)
  then show ?thesis by (simp add: get_reply_loader_def fnusb_bulk_in_def b Let_def)
qed

lemma page_length_eq:
  assumes "sent \<le> unat fsize"
  shows "page_length fsize sent rest = min 0x4000 (min (unat fsize - sent) (length rest))"
proof -
  have "unat fsize < 2 ^ LENGTH(32)" by (rule unsigned_less)
  then have "sent < 2 ^ 32" using assms by simp
  then have s: "unat (of_nat sent :: u32) = sent" by (simp add: unat_of_nat take_bit_nat_eq_self)
  have "unat (fsize - of_nat sent) = unat fsize - sent"
    using assms by (subst unat_sub) (simp_all add: word_le_nat_alt s)
  then show ?thesis by (auto simp: page_length_def Let_def word_less_nat_alt)
qed

lemma upload_pages_records:
  assumes "records_bulk ops" "sent \<le> unat fsize"
  shows "upload_pages ops fsize sent addr rest d =
    (let n = min (unat fsize - sent) (length rest); pages = chunks 0x4000 (take n rest)
     in (True, sent + n, d\<lparr>ld_usb := ld_usb d @ page_traffic (audio_tag d) addr pages,
                            audio_tag := audio_tag d + of_nat (length pages)\<rparr>))"
  using assms
proof (induction "length rest" arbitrary: sent addr rest d rule: less_induct)
  case less
  define n where "n = min (unat fsize - sent) (length rest)"
  define read where "read = page_length fsize sent rest"
  have read: "read = min 0x4000 n" using page_length_eq [OF less.prems(2)] by (simp add: read_def n_def)
  show ?case
  proof (cases "n = 0")
    case True
    then have "read = 0" by (simp add: read)
    then show ?thesis using True by (subst upload_pages.simps) (simp add: read_def [symmetric] n_def [symmetric])
  next
    case False
    then have r: "read \<noteq> 0" "read \<le> length rest" "sent + read \<le> unat fsize" by (auto simp: read n_def)
    have n': "min (unat fsize - (sent + read)) (length (drop read rest)) = n - read"
      unfolding n_def by simp
    have pages: "chunks 0x4000 (take n rest) = take read rest # chunks 0x4000 (take (n - read) (drop read rest))"
    proof -
      have "take n rest \<noteq> []" using False by (auto simp: n_def)
      moreover have "take 0x4000 (take n rest) = take read rest" by (simp add: read min.commute)
      moreover have "drop 0x4000 (take n rest) = take (n - read) (drop read rest)"
        by (cases "n \<le> 0x4000") (simp_all add: read drop_take)
      ultimately show ?thesis by (simp add: chunks_step)
    qed
    define d2 where "d2 = d\<lparr>ld_usb := ld_usb d @ bootloader_command (audio_tag d) (of_nat read) 0x03 addr # chunks 512 (take read rest)\<rparr>"
    obtain res where g: "get_reply_loader ops d2 = (res, d2)"
      using get_reply_records [OF less.prems(1), of d2] by (cases "get_reply_loader ops d2") auto
    have len: "length (drop read rest) < length rest" using r by (cases rest) auto
    note IH = less.hyps [OF len less.prems(1) r(3)]
    have "upload_pages ops fsize sent addr rest d
        = upload_pages ops fsize (sent + read) (addr + of_nat read) (drop read rest) (d2\<lparr>audio_tag := audio_tag d2 + 1\<rparr>)"
      using r(1) g by (subst upload_pages.simps)
        (simp add: read_def [symmetric] Let_def send_exact_records [OF less.prems(1)] send_page_records [OF less.prems(1)] d2_def)
    also have "\<dots> = (let pages = chunks 0x4000 (take (n - read) (drop read rest))
       in (True, sent + read + (n - read), d2\<lparr>ld_usb := ld_usb d2 @ page_traffic (audio_tag d + 1) (addr + of_nat read) pages,
             audio_tag := audio_tag d + 1 + of_nat (length pages)\<rparr>))"
      by (simp only: IH n' Let_def) (simp add: d2_def)
    also have "sent + read + (n - read) = sent + n" by (simp add: read)
    finally show ?thesis
      unfolding n_def [symmetric] Let_def pages using r(2)
      by (simp only: page_traffic.simps list.size length_take min.absorb2 of_nat_Suc) (simp add: d2_def)
  qed
qed

section \<open>Properties\<close>

text \<open>The pages of an image: its declared size, as far as the file goes, in pieces of 16 KiB.\<close>

definition image_pages :: "bytes \<Rightarrow> bytes list" where
  "image_pages fw = chunks 0x4000 (take (unat (fw_size (read_firmware_header fw))) fw)"

text \<open>C30: The firmware upload sends the image and nothing else.  To a device that takes every transfer,
  \<open>upload_firmware_from_memory\<close> sends for each page of at most 16 KiB one write command with the next
  tag, the page's length and address, then the page in packets of at most 512 bytes; the pages together are
  exactly the declared bytes of the image, header included.  If the file holds them all, the launch command
  follows and the result is 0; if not, the device is not launched and the result is -1.\<close>
theorem firmware_upload_traffic:
  assumes "records_bulk ops" "firmware_header_size \<le> length fw"
  shows "let hdr = read_firmware_header fw; pages = image_pages fw;
             sent = page_traffic (audio_tag d) (fw_base_addr hdr) pages;
             tag = audio_tag d + of_nat (length pages)
    in concat pages = take (unat (fw_size hdr)) fw \<and>
       upload_firmware_from_memory ops errno fw d =
         (if unat (fw_size hdr) \<le> length fw
          then (0, d\<lparr>ld_usb := ld_usb d @ sent @ [bootloader_command tag 0 0x04 (fw_entry_addr hdr)], audio_tag := tag + 1\<rparr>)
          else (-1, d\<lparr>ld_usb := ld_usb d @ sent, audio_tag := tag\<rparr>))"
proof -
  define hdr where "hdr = read_firmware_header fw"
  define n where "n = min (unat (fw_size hdr)) (length fw)"
  define d1 where "d1 = d\<lparr>ld_usb := ld_usb d @ page_traffic (audio_tag d) (fw_base_addr hdr) (image_pages fw),
      audio_tag := audio_tag d + of_nat (length (image_pages fw))\<rparr>"
  have take: "take n fw = take (unat (fw_size hdr)) fw" by (simp add: n_def min_def)
  have up: "upload_pages ops (fw_size hdr) 0 (fw_base_addr hdr) fw d = (True, n, d1)"
    by (simp add: upload_pages_records [OF assms(1)] Let_def d1_def image_pages_def hdr_def n_def min_def)
  have "unat (fw_size hdr) < 2 ^ LENGTH(32)" by (rule unsigned_less)
  then have size: "of_nat n = fw_size hdr \<longleftrightarrow> unat (fw_size hdr) \<le> length fw"
    by (auto simp: n_def min_def word_of_nat_eq_iff take_bit_nat_eq_self unat_of_nat
        dest: arg_cong [where f = unat])
  have "upload_firmware_from_memory ops errno fw d =
     (if unat (fw_size hdr) \<le> length fw
      then (0, d1\<lparr>ld_usb := ld_usb d1 @ [bootloader_command (audio_tag d1) 0 0x04 (fw_entry_addr hdr)], audio_tag := audio_tag d1 + 1\<rparr>)
      else (-1, d1))"
    using assms(2) up size
    by (simp add: upload_firmware_from_memory_def hdr_def [symmetric] send_exact_records [OF assms(1)]
        get_reply_records [OF assms(1)] split_beta Let_def)
  then show ?thesis
    by (simp add: Let_def hdr_def [symmetric] d1_def image_pages_def concat_chunks)
qed

text \<open>A host that records, and an image of 30 bytes.\<close>

definition recording_ops :: "(bytes list) bulk_ops" where
  "recording_ops = \<lparr>ctl_out = (\<lambda>rt rq v i xs u. (0, u)), ctl_in = (\<lambda>rt rq v i n u. (Inl (-1), u)),
     bulk_out = (\<lambda>ep xs t u. ((0, length xs), u @ [xs])), bulk_in = (\<lambda>ep n t u. ((0, []), u))\<rparr>"

definition sample_image :: bytes where
  "sample_image = [0x0D, 0xF0, 0x77, 0xCA, 0, 0, 1, 0, 2, 0, 3, 0, 0, 0, 8, 0, 30, 0, 0, 0, 0x10, 0, 8, 0] @ [1, 2, 3, 4, 5, 6]"

theorem firmware_upload_traffic_witness:
  "upload_firmware_from_memory recording_ops 0 sample_image \<lparr>ld_usb = [], audio_tag = 7\<rparr>
     = (0, \<lparr>ld_usb = [bootloader_command 7 30 3 0x80000, sample_image, bootloader_command 8 0 4 0x80010], audio_tag = 9\<rparr>)"
proof -
  have r: "records_bulk recording_ops" by (simp add: records_bulk_def recording_ops_def)
  have h: "fw_size (read_firmware_header sample_image) = 30" "fw_base_addr (read_firmware_header sample_image) = 0x80000"
    "fw_entry_addr (read_firmware_header sample_image) = 0x80010"
    by (simp_all add: read_firmware_header_def sample_image_def le32_def)
  have len: "length sample_image = 30" "sample_image \<noteq> []" by (simp_all add: sample_image_def)
  have pages: "image_pages sample_image = [sample_image]" "chunks 512 sample_image = [sample_image]"
    using len by (simp_all add: image_pages_def h chunks_step)
  show ?thesis
    using firmware_upload_traffic [OF r, of sample_image "\<lparr>ld_usb = [], audio_tag = 7\<rparr>" 0]
    by (simp add: pages h len Let_def firmware_header_size_def)
qed

text \<open>The search for the firmware on disk never gets to its last directories.  Unless the file is
  in the directory of the environment variable, in the working directory or under the home directory, the
  fourth attempt prints the path into a pointer that this round of the loop has not set.\<close>
lemma firmware_search_uninitialised:
  assumes "length filename + 3 \<le> 2048"
    and "\<And>p. fe_getenv env ''LIBFREENECT_FIRMWARE_PATH'' = Some p \<Longrightarrow> fe_file env (p @ ''/'' @ filename) = None"
    and "fe_file env (''./'' @ filename) = None"
    and "\<And>p. fe_getenv env ''HOME'' = Some p \<Longrightarrow> fe_file env (p @ ''/.libfreenect/'' @ filename) = None"
  shows "upload_firmware ops env filename d = None"
proof -
  have 3: "fw_search env (''/'' @ filename) 3 = None"
    by (subst fw_search.simps) (simp add: fw_path_def)
  have 2: "fw_search env (''/'' @ filename) 2 = None"
    using assms(4) 3 by (subst fw_search.simps) (auto simp: fw_path_def split: option.split)
  have 1: "fw_search env (''/'' @ filename) 1 = None"
    using assms(1,3) 2 by (subst fw_search.simps) (auto simp: fw_path_def numeral_2_eq_2 split: option.split)
  have "fw_search env (''/'' @ filename) 0 = None"
    using assms(2) 1 by (subst fw_search.simps) (auto simp: fw_path_def split: option.split)
  then show ?thesis by (simp add: upload_firmware_def)
qed

lemma firmware_search_uninitialised_example:
  "upload_firmware recording_ops \<lparr>fe_getenv = (\<lambda>_. None),
     fe_file = (\<lambda>p. if p = ''/usr/share/libfreenect/audios.bin'' then Some sample_image else None), fe_errno = 2\<rparr>
     ''audios.bin'' \<lparr>ld_usb = [], audio_tag = 0\<rparr> = None"
  by (rule firmware_search_uninitialised) simp_all

end
