(* ===== verification/UsbDevices.thy ===== *)
theory UsbDevices
  imports Tilt Loader "HOL-Library.State_Monad"
begin

text \<open>
  Finding, opening and closing the three USB functions of a Kinect: the device part of
  \<open>libfreenect/usb_libusb10.c\<close>.

  The operations are state transformers over \<open>usb_world\<close>: the host, the open device handles, the
  part of the context they use and the subdevices of the device being opened.  A handle is a number,
  fresh at each successful \<open>libusb_open\<close>.  Two ghost flags record what the C code must not do:
  \<open>uw_bad_handle\<close> a call on a handle that is not open, \<open>uw_undefined\<close> a use of an
  uninitialised variable (or a fault inside the firmware upload).  Log output has no state.
\<close>

section \<open>Devices and requests\<close>

record usb_device =
  ud_desc_res :: int
  ud_vendor :: int
  ud_product :: int
  ud_bcd_device :: int
  ud_serial_index :: u8
  ud_bus :: int
  ud_parent :: nat

datatype usb_request =
    Open_Device nat | Close_Handle nat | Reset_Device nat | Claim_Interface nat | Release_Interface nat
  | Kernel_Driver_Active nat | Detach_Kernel_Driver nat | Attach_Kernel_Driver nat | Set_Alt_Setting nat
  | Num_Interfaces nat | Sleep

text \<open>The rest of libusb: a request returns its result code, a string descriptor the result
  and the text, the device list \<open>None\<close> for a negative count.\<close>

record 'u usb_host = "'u bulk_ops" +
  host_request :: "usb_request \<Rightarrow> 'u \<Rightarrow> int \<times> 'u"
  host_string :: "nat \<Rightarrow> u8 \<Rightarrow> 'u \<Rightarrow> (int \<times> string) \<times> 'u"
  host_devices :: "'u \<Rightarrow> usb_device list option \<times> 'u"
  host_files :: file_env

record subdevices =
  sd_cam :: "nat option"
  sd_cam_pid :: int
  sd_motor :: "nat option"
  sd_audio :: "nat option"
  sd_audio_pid :: int
  sd_motor_control_with_audio :: bool
  sd_motor_control_enabled :: bool
  sd_audio_tag :: u32

record 'u usb_world =
  uw_host :: 'u
  uw_next :: nat
  uw_open :: "nat set"
  uw_bad_handle :: bool
  uw_undefined :: bool
  uw_enabled :: u32
  uw_zero_plane_res :: nat
  uw_fw_nui :: "bytes option"
  uw_fw_k4w :: "bytes option"
  uw_tag_seq :: u32
  uw_tag_next_ack :: u32
  uw_dev :: subdevices

type_synonym ('u, 'a) usb = "('u usb_world, 'a) state"

definition VID_MICROSOFT :: int where "VID_MICROSOFT = 0x45e"
definition PID_NUI_AUDIO :: int where "PID_NUI_AUDIO = 0x02ad"
definition PID_NUI_CAMERA :: int where "PID_NUI_CAMERA = 0x02ae"
definition PID_NUI_MOTOR :: int where "PID_NUI_MOTOR = 0x02b0"
definition PID_K4W_AUDIO :: int where "PID_K4W_AUDIO = 0x02be"
definition PID_K4W_AUDIO_ALT_1 :: int where "PID_K4W_AUDIO_ALT_1 = 0x02c3"
definition PID_K4W_AUDIO_ALT_2 :: int where "PID_K4W_AUDIO_ALT_2 = 0x02bb"

definition FREENECT_DEVICE_MOTOR :: u32 where "FREENECT_DEVICE_MOTOR = 1"
definition FREENECT_DEVICE_CAMERA :: u32 where "FREENECT_DEVICE_CAMERA = 2"
definition FREENECT_DEVICE_AUDIO :: u32 where "FREENECT_DEVICE_AUDIO = 4"

section \<open>Requests\<close>

definition modify :: "('u usb_world \<Rightarrow> 'u usb_world) \<Rightarrow> ('u, unit) usb" where
  "modify f = do { w \<leftarrow> State_Monad.get; State_Monad.set (f w) }"

definition set_dev :: "(subdevices \<Rightarrow> subdevices) \<Rightarrow> ('u, unit) usb" where
  "set_dev f = modify (\<lambda>w. w\<lparr>uw_dev := f (uw_dev w)\<rparr>)"

definition undefined_use :: "('u, unit) usb" where
  "undefined_use = modify (\<lambda>w. w\<lparr>uw_undefined := True\<rparr>)"

definition touch :: "nat \<Rightarrow> ('u, unit) usb" where
  "touch hdl = modify (\<lambda>w. if hdl \<in> uw_open w then w else w\<lparr>uw_bad_handle := True\<rparr>)"

definition request :: "('u, 'x) usb_host_scheme \<Rightarrow> usb_request \<Rightarrow> ('u, int) usb" where
  "request ops rq = do {
     w \<leftarrow> State_Monad.get;
     (let (res, u) = host_request ops rq (uw_host w)
      in do { State_Monad.set (w\<lparr>uw_host := u\<rparr>); State_Monad.return res }) }"

text \<open>A request on an open handle.\<close>

definition on_handle :: "('u, 'x) usb_host_scheme \<Rightarrow> (nat \<Rightarrow> usb_request) \<Rightarrow> nat \<Rightarrow> ('u, int) usb" where
  "on_handle ops rq hdl = do { touch hdl; request ops (rq hdl) }"

definition libusb_open :: "('u, 'x) usb_host_scheme \<Rightarrow> nat \<Rightarrow> ('u, int \<times> nat option) usb" where
  "libusb_open ops i = do {
     res \<leftarrow> request ops (Open_Device i);
     if res \<noteq> 0 then State_Monad.return (res, None)
     else do {
       w \<leftarrow> State_Monad.get;
       State_Monad.set (w\<lparr>uw_next := uw_next w + 1, uw_open := insert (uw_next w) (uw_open w)\<rparr>);
       State_Monad.return (res, Some (uw_next w)) } }"

definition libusb_close :: "('u, 'x) usb_host_scheme \<Rightarrow> nat \<Rightarrow> ('u, unit) usb" where
  "libusb_close ops hdl = do {
     r \<leftarrow> on_handle ops Close_Handle hdl;
     modify (\<lambda>w. w\<lparr>uw_open := uw_open w - {hdl}\<rparr>) }"

definition get_string :: "('u, 'x) usb_host_scheme \<Rightarrow> nat \<Rightarrow> u8 \<Rightarrow> ('u, int \<times> string) usb" where
  "get_string ops hdl i = do {
     touch hdl;
     w \<leftarrow> State_Monad.get;
     (let (r, u) = host_string ops hdl i (uw_host w)
      in do { State_Monad.set (w\<lparr>uw_host := u\<rparr>); State_Monad.return r }) }"

definition get_device_list :: "('u, 'x) usb_host_scheme \<Rightarrow> ('u, usb_device list option) usb" where
  "get_device_list ops = do {
     w \<leftarrow> State_Monad.get;
     (let (devs, u) = host_devices ops (uw_host w)
      in do { State_Monad.set (w\<lparr>uw_host := u\<rparr>); State_Monad.return devs }) }"

section \<open>Enumeration\<close>

definition is_kinect_camera :: "usb_device \<Rightarrow> bool" where
  "is_kinect_camera d \<longleftrightarrow> ud_vendor d = VID_MICROSOFT \<and> (ud_product d = PID_NUI_CAMERA \<or> ud_product d = PID_K4W_CAMERA)"

primrec count_cameras :: "usb_device list \<Rightarrow> int" where
  "count_cameras [] = 0"
| "count_cameras (d # ds) =
     (if ud_desc_res d < 0 then count_cameras ds
      else if is_kinect_camera d then count_cameras ds + 1 else count_cameras ds)"

definition fnusb_num_devices :: "('u, 'x) usb_host_scheme \<Rightarrow> ('u, int) usb" where
  "fnusb_num_devices ops = do {
     devs \<leftarrow> get_device_list ops;
     State_Monad.return (case devs of None \<Rightarrow> -1 | Some ds \<Rightarrow> count_cameras ds) }"

definition fnusb_is_pid_k4w_audio :: "int \<Rightarrow> bool" where
  "fnusb_is_pid_k4w_audio pid \<longleftrightarrow> pid = PID_K4W_AUDIO \<or> pid = PID_K4W_AUDIO_ALT_1 \<or> pid = PID_K4W_AUDIO_ALT_2"

text \<open>The first audio function of a Kinect on the bus and hub of a camera, as an index.\<close>

fun find_audio :: "usb_device \<Rightarrow> (nat \<times> usb_device) list \<Rightarrow> nat option" where
  "find_audio camera [] = None"
| "find_audio camera ((i, d) # ds) =
     (if ud_desc_res d < 0 then find_audio camera ds
      else if ud_vendor d = VID_MICROSOFT \<and> (ud_product d = PID_NUI_AUDIO \<or> fnusb_is_pid_k4w_audio (ud_product d))
              \<and> ud_bus d = ud_bus camera \<and> ud_parent d = ud_parent camera
      then Some i else find_audio camera ds)"

definition fnusb_find_connected_audio_device :: "usb_device \<Rightarrow> usb_device list \<Rightarrow> nat option" where
  "fnusb_find_connected_audio_device camera devs =
     (if devs = [] \<or> ud_bus camera < 0 then None else find_audio camera (enumerate 0 devs))"

definition K4W_1473_SERIAL :: string where "K4W_1473_SERIAL = ''0000000000000000''"

text \<open>The serial number of a camera, or of its audio function when the camera has the dummy one:
  the buffer keeps the old text unless the second read wrote it.\<close>

definition camera_serial ::
  "('u, 'x) usb_host_scheme \<Rightarrow> usb_device list \<Rightarrow> usb_device \<Rightarrow> string \<Rightarrow> ('u, string) usb" where
  "camera_serial ops devs camera serial =
     (if take 16 serial \<noteq> K4W_1473_SERIAL then State_Monad.return serial
      else case fnusb_find_connected_audio_device camera devs of
        None \<Rightarrow> State_Monad.return serial
      | Some j \<Rightarrow>
          if ud_desc_res (devs ! j) \<noteq> 0 then State_Monad.return serial
          else do {
            (res, audio_handle) \<leftarrow> libusb_open ops j;
            (case audio_handle of None \<Rightarrow> State_Monad.return serial
             | Some a \<Rightarrow> do {
                 (res, text) \<leftarrow> get_string ops a (ud_serial_index (devs ! j));
                 libusb_close ops a;
                 State_Monad.return (if res < 0 then serial else text) }) })"

fun list_serials ::
  "('u, 'x) usb_host_scheme \<Rightarrow> usb_device list \<Rightarrow> (nat \<times> usb_device) list \<Rightarrow> ('u, string list) usb" where
  "list_serials ops devs [] = State_Monad.return []"
| "list_serials ops devs ((i, d) # ds) =
     (if ud_desc_res d < 0 \<or> \<not> is_kinect_camera d \<or> ud_serial_index d = 0 then list_serials ops devs ds
      else do {
        (res, camera_handle) \<leftarrow> libusb_open ops i;
        (case camera_handle of None \<Rightarrow> list_serials ops devs ds
         | Some c \<Rightarrow> do {
             (res, serial) \<leftarrow> get_string ops c (ud_serial_index d);
             libusb_close ops c;
             if res < 0 then list_serials ops devs ds
             else do {
               serial \<leftarrow> camera_serial ops devs d serial;
               rest \<leftarrow> list_serials ops devs ds;
               State_Monad.return (serial # rest) } }) })"

text \<open>The attribute list, \<open>None\<close> for the result -1; its length is the result otherwise.\<close>

definition fnusb_list_device_attributes :: "('u, 'x) usb_host_scheme \<Rightarrow> ('u, string list option) usb" where
  "fnusb_list_device_attributes ops = do {
     devs \<leftarrow> get_device_list ops;
     (case devs of None \<Rightarrow> State_Monad.return None
      | Some ds \<Rightarrow> do { serials \<leftarrow> list_serials ops ds (enumerate 0 ds); State_Monad.return (Some serials) }) }"

section \<open>Opening the camera\<close>

definition set_led_green :: "('u, 'x) usb_host_scheme \<Rightarrow> nat \<Rightarrow> ('u, unit) usb" where
  "set_led_green ops hdl = do {
     touch hdl;
     modify (\<lambda>w. let (r, m) = fnusb_set_led_alt ops LED_GREEN
         \<lparr>mt_usb = uw_host w, mt_audio_enabled = False, mt_motor_subdevice = False,
          mt_raw_state = \<lparr>accelerometer_x = 0, accelerometer_y = 0, accelerometer_z = 0, tilt_angle = 0, tilt_status = 0\<rparr>,
          tag_seq = uw_tag_seq w, tag_next_ack = uw_tag_next_ack w\<rparr>
       in w\<lparr>uw_host := mt_usb m, uw_tag_seq := tag_seq m, uw_tag_next_ack := tag_next_ack m\<rparr>) }"

text \<open>The LED of the newer devices is set to keep the camera alive; errors are only logged.\<close>

definition wake_audio :: "('u, 'x) usb_host_scheme \<Rightarrow> nat \<Rightarrow> ('u, unit) usb" where
  "wake_audio ops j = do {
     (res, audioHandle) \<leftarrow> libusb_open ops j;
     (case audioHandle of None \<Rightarrow> State_Monad.return ()
      | Some a \<Rightarrow> do {
          r \<leftarrow> on_handle ops Reset_Device a;
          libusb_close ops a;
          (res, audioHandle) \<leftarrow> libusb_open ops j;
          (case audioHandle of None \<Rightarrow> State_Monad.return ()
           | Some b \<Rightarrow> do {
               res \<leftarrow> on_handle ops Claim_Interface b;
               (if res \<noteq> 0 then State_Monad.return ()
                else do {
                  set_led_green ops b;
                  r \<leftarrow> on_handle ops Release_Interface b;
                  State_Monad.return () });
               libusb_close ops b }) }) }"

definition setup_newer_device ::
  "('u, 'x) usb_host_scheme \<Rightarrow> usb_device list \<Rightarrow> usb_device \<Rightarrow> ('u, unit) usb" where
  "setup_newer_device ops devs d = do {
     w \<leftarrow> State_Monad.get;
     (let requested_devices = uw_enabled w
      in do {
        modify (\<lambda>w. w\<lparr>uw_enabled := uw_enabled w AND NOT FREENECT_DEVICE_MOTOR, uw_zero_plane_res := 334\<rparr>);
        set_dev (\<lambda>sd. sd\<lparr>sd_motor_control_with_audio := True\<rparr>);
        (case fnusb_find_connected_audio_device d devs of None \<Rightarrow> State_Monad.return ()
         | Some j \<Rightarrow> wake_audio ops j);
        (if requested_devices AND FREENECT_DEVICE_MOTOR \<noteq> 0 \<and> requested_devices AND FREENECT_DEVICE_AUDIO = 0
         then modify (\<lambda>w. w\<lparr>uw_enabled := uw_enabled w OR FREENECT_DEVICE_AUDIO\<rparr>)
         else State_Monad.return ()) }) }"

definition close_camera :: "('u, 'x) usb_host_scheme \<Rightarrow> nat \<Rightarrow> ('u, unit) usb" where
  "close_camera ops c = do { libusb_close ops c; set_dev (\<lambda>sd. sd\<lparr>sd_cam := None\<rparr>) }"

text \<open>The matching camera: the result code, and whether the search loop is left by \<open>break\<close>.\<close>

definition open_camera ::
  "('u, 'x) usb_host_scheme \<Rightarrow> usb_device list \<Rightarrow> nat \<Rightarrow> usb_device \<Rightarrow> ('u, int \<times> bool) usb" where
  "open_camera ops devs i d = do {
     set_dev (\<lambda>sd. sd\<lparr>sd_cam_pid := ud_product d\<rparr>);
     (res, cam) \<leftarrow> libusb_open ops i;
     (case cam of None \<Rightarrow> State_Monad.return (res, True)
      | Some c \<Rightarrow> do {
          set_dev (\<lambda>sd. sd\<lparr>sd_cam := Some c\<rparr>);
          (if ud_product d = PID_K4W_CAMERA \<or> ud_bcd_device d \<noteq> 267 then setup_newer_device ops devs d
           else modify (\<lambda>w. w\<lparr>uw_zero_plane_res := 322\<rparr>));
          active \<leftarrow> on_handle ops Kernel_Driver_Active c;
          detached \<leftarrow> (if active = 1 then on_handle ops Detach_Kernel_Driver c else State_Monad.return 0);
          (if detached < 0 then do { close_camera ops c; State_Monad.return (detached, True) }
           else do {
             claimed \<leftarrow> on_handle ops Claim_Interface c;
             (if claimed < 0 then do { close_camera ops c; State_Monad.return (claimed, True) }
              else if ud_product d = PID_K4W_CAMERA then do {
                alt \<leftarrow> on_handle ops Set_Alt_Setting c;
                (if alt \<noteq> 0 then do { close_camera ops c; State_Monad.return (alt, True) }
                 else State_Monad.return (alt, False)) }
              else State_Monad.return (claimed, False)) }) }) }"

text \<open>The first loop: \<open>res\<close> is \<open>None\<close> while it is not initialised.\<close>

fun camera_loop ::
  "('u, 'x) usb_host_scheme \<Rightarrow> usb_device list \<Rightarrow> int \<Rightarrow> (nat \<times> usb_device) list \<Rightarrow> int \<Rightarrow> int option \<Rightarrow> ('u, int option) usb" where
  "camera_loop ops devs index [] nr_cam res = State_Monad.return res"
| "camera_loop ops devs index ((i, d) # ds) nr_cam res =
     (if ud_desc_res d < 0 \<or> ud_vendor d \<noteq> VID_MICROSOFT then camera_loop ops devs index ds nr_cam res
      else do {
        w \<leftarrow> State_Monad.get;
        if uw_enabled w AND FREENECT_DEVICE_CAMERA \<noteq> 0 \<and> sd_cam (uw_dev w) = None
           \<and> (ud_product d = PID_NUI_CAMERA \<or> ud_product d = PID_K4W_CAMERA)
        then (if nr_cam = index then do {
                (r, brk) \<leftarrow> open_camera ops devs i d;
                (if brk then State_Monad.return (Some r) else camera_loop ops devs index ds nr_cam (Some r)) }
              else camera_loop ops devs index ds (nr_cam + 1) (Some 0))
        else camera_loop ops devs index ds nr_cam (Some 0) })"

section \<open>Opening motor and audio\<close>

definition open_motor :: "('u, 'x) usb_host_scheme \<Rightarrow> nat \<Rightarrow> ('u, int \<times> bool) usb" where
  "open_motor ops i = do {
     (res, motor) \<leftarrow> libusb_open ops i;
     (case motor of None \<Rightarrow> State_Monad.return (res, True)
      | Some m \<Rightarrow> do {
          set_dev (\<lambda>sd. sd\<lparr>sd_motor := Some m\<rparr>);
          res \<leftarrow> on_handle ops Claim_Interface m;
          (if res < 0 then do {
             libusb_close ops m;
             set_dev (\<lambda>sd. sd\<lparr>sd_motor := None\<rparr>);
             State_Monad.return (res, True) }
           else State_Monad.return (res, False)) }) }"

text \<open>Firmware comes from memory for the two devices in boot loader state, or from a file.\<close>

definition upload_to_audio :: "('u, 'x) usb_host_scheme \<Rightarrow> usb_device \<Rightarrow> nat \<Rightarrow> ('u, int) usb" where
  "upload_to_audio ops d a = do {
     touch a;
     w \<leftarrow> State_Monad.get;
     (let from_memory = (\<lambda>fw. Some (upload_firmware_from_memory ops (fe_errno (host_files ops)) fw
                          \<lparr>ld_usb = uw_host w, audio_tag = sd_audio_tag (uw_dev w)\<rparr>));
          outcome =
            (case (uw_fw_nui w, uw_fw_k4w w) of
               (nui, k4w) \<Rightarrow>
                 (if ud_product d = PID_NUI_AUDIO \<and> nui \<noteq> None \<and> nui \<noteq> Some [] then from_memory (the nui)
                  else if ud_product d = PID_K4W_AUDIO \<and> k4w \<noteq> None \<and> k4w \<noteq> Some [] then from_memory (the k4w)
                  else upload_firmware ops (host_files ops) ''audios.bin''
                         \<lparr>ld_usb = uw_host w, audio_tag = sd_audio_tag (uw_dev w)\<rparr>))
      in case outcome of
           None \<Rightarrow> do { undefined_use; State_Monad.return (-1) }
         | Some (res, l) \<Rightarrow> do {
             State_Monad.set (w\<lparr>uw_host := ld_usb l, uw_dev := (uw_dev w)\<lparr>sd_audio_tag := audio_tag l\<rparr>\<rparr>);
             State_Monad.return res }) }"

definition enable_audio_motor :: "('u, unit) usb" where
  "enable_audio_motor = set_dev (\<lambda>sd. if sd_motor_control_with_audio sd then sd\<lparr>sd_motor_control_enabled := True\<rparr> else sd)"

text \<open>One scan for the audio device that restarts with serial number \<open>serial\<close>.  The product
  test looks at \<open>desc\<close>, the descriptor of the old device.\<close>

fun find_restarted ::
  "('u, 'x) usb_host_scheme \<Rightarrow> usb_device \<Rightarrow> string \<Rightarrow> (nat \<times> usb_device) list \<Rightarrow> ('u, unit) usb" where
  "find_restarted ops desc serial [] = State_Monad.return ()"
| "find_restarted ops desc serial ((i, d) # ds) =
     (if ud_desc_res d < 0 then find_restarted ops desc serial ds
      else if \<not> (ud_vendor d = VID_MICROSOFT \<and> (ud_product d = PID_NUI_AUDIO \<or> fnusb_is_pid_k4w_audio (ud_product desc)))
      then find_restarted ops desc serial ds
      else do {
        (r, new_dev) \<leftarrow> libusb_open ops i;
        (case new_dev of None \<Rightarrow> find_restarted ops desc serial ds
         | Some a \<Rightarrow> do {
             (r, text) \<leftarrow> get_string ops a (ud_serial_index d);
             if r < 0 then do { libusb_close ops a; find_restarted ops desc serial ds }
             else if r = int (length serial) \<and> text = serial then do {
               r \<leftarrow> on_handle ops Claim_Interface a;
               if r \<noteq> 0 then do { libusb_close ops a; find_restarted ops desc serial ds }
               else do {
                 set_dev (\<lambda>sd. sd\<lparr>sd_audio := Some a\<rparr>);
                 n \<leftarrow> on_handle ops Num_Interfaces a;
                 if n \<ge> 2 then enable_audio_motor
                 else do {
                   set_dev (\<lambda>sd. sd\<lparr>sd_audio := None\<rparr>);
                   libusb_close ops a;
                   find_restarted ops desc serial ds } } }
             else find_restarted ops desc serial ds }) })"

primrec wait_restarted :: "('u, 'x) usb_host_scheme \<Rightarrow> usb_device \<Rightarrow> string \<Rightarrow> nat \<Rightarrow> ('u, unit) usb" where
  "wait_restarted ops desc serial 0 = State_Monad.return ()"
| "wait_restarted ops desc serial (Suc n) = do {
     devs \<leftarrow> get_device_list ops;
     (case devs of None \<Rightarrow> undefined_use | Some ds \<Rightarrow> find_restarted ops desc serial (enumerate 0 ds));
     w \<leftarrow> State_Monad.get;
     if sd_audio (uw_dev w) \<noteq> None then State_Monad.return ()
     else do { r \<leftarrow> request ops Sleep; wait_restarted ops desc serial n } }"

definition restart_with_firmware ::
  "('u, 'x) usb_host_scheme \<Rightarrow> usb_device \<Rightarrow> nat \<Rightarrow> ('u, int \<times> bool) usb" where
  "restart_with_firmware ops d a = do {
     (res, serial) \<leftarrow> get_string ops a (ud_serial_index d);
     if res < 0 then State_Monad.return (res, True)
     else do {
       res \<leftarrow> upload_to_audio ops d a;
       if res < 0 then State_Monad.return (res, True)
       else do {
         libusb_close ops a;
         set_dev (\<lambda>sd. sd\<lparr>sd_audio := None\<rparr>);
         wait_restarted ops d serial 10;
         State_Monad.return (res, False) } } }"

definition open_audio :: "('u, 'x) usb_host_scheme \<Rightarrow> nat \<Rightarrow> usb_device \<Rightarrow> ('u, int \<times> bool) usb" where
  "open_audio ops i d = do {
     set_dev (\<lambda>sd. sd\<lparr>sd_audio_pid := ud_product d\<rparr>);
     (res, audio) \<leftarrow> libusb_open ops i;
     (case audio of None \<Rightarrow> State_Monad.return (res, True)
      | Some a \<Rightarrow> do {
          set_dev (\<lambda>sd. sd\<lparr>sd_audio := Some a\<rparr>);
          res \<leftarrow> on_handle ops Claim_Interface a;
          if res < 0 then do {
            libusb_close ops a;
            set_dev (\<lambda>sd. sd\<lparr>sd_audio := None\<rparr>);
            State_Monad.return (res, True) }
          else do {
            n \<leftarrow> on_handle ops Num_Interfaces a;
            if n \<ge> 2 then do { enable_audio_motor; State_Monad.return (res, False) }
            else restart_with_firmware ops d a } }) }"

text \<open>The second loop.  A \<open>break\<close> in either part leaves it.\<close>

definition motor_part :: "('u, 'x) usb_host_scheme \<Rightarrow> int \<Rightarrow> nat \<Rightarrow> usb_device \<Rightarrow> int \<Rightarrow> ('u, bool \<times> int) usb" where
  "motor_part ops index i d nr_mot = do {
     w \<leftarrow> State_Monad.get;
     if uw_enabled w AND FREENECT_DEVICE_MOTOR \<noteq> 0 \<and> sd_motor (uw_dev w) = None \<and> ud_product d = PID_NUI_MOTOR
     then (if nr_mot = index then do { (r, brk) \<leftarrow> open_motor ops i; State_Monad.return (brk, nr_mot) }
           else State_Monad.return (False, nr_mot + 1))
     else State_Monad.return (False, nr_mot) }"

definition audio_part :: "('u, 'x) usb_host_scheme \<Rightarrow> int \<Rightarrow> nat \<Rightarrow> usb_device \<Rightarrow> int \<Rightarrow> ('u, bool \<times> int) usb" where
  "audio_part ops index i d nr_audio = do {
     w \<leftarrow> State_Monad.get;
     if uw_enabled w AND FREENECT_DEVICE_AUDIO \<noteq> 0 \<and> sd_audio (uw_dev w) = None
        \<and> (ud_product d = PID_NUI_AUDIO \<or> fnusb_is_pid_k4w_audio (ud_product d))
     then (if nr_audio = index then do { (r, brk) \<leftarrow> open_audio ops i d; State_Monad.return (brk, nr_audio) }
           else State_Monad.return (False, nr_audio + 1))
     else State_Monad.return (False, nr_audio) }"

fun motor_audio_loop ::
  "('u, 'x) usb_host_scheme \<Rightarrow> int \<Rightarrow> (nat \<times> usb_device) list \<Rightarrow> int \<Rightarrow> int \<Rightarrow> ('u, unit) usb" where
  "motor_audio_loop ops index [] nr_mot nr_audio = State_Monad.return ()"
| "motor_audio_loop ops index ((i, d) # ds) nr_mot nr_audio =
     (if ud_desc_res d < 0 \<or> ud_vendor d \<noteq> VID_MICROSOFT then motor_audio_loop ops index ds nr_mot nr_audio
      else do {
        (brk, nr_mot) \<leftarrow> motor_part ops index i d nr_mot;
        if brk then State_Monad.return ()
        else do {
          (brk, nr_audio) \<leftarrow> audio_part ops index i d nr_audio;
          if brk then State_Monad.return () else motor_audio_loop ops index ds nr_mot nr_audio } })"

section \<open>Opening and closing a device\<close>

definition release_and_close :: "('u, 'x) usb_host_scheme \<Rightarrow> nat option \<Rightarrow> ('u, unit) usb" where
  "release_and_close ops h =
     (case h of None \<Rightarrow> State_Monad.return ()
      | Some a \<Rightarrow> do { r \<leftarrow> on_handle ops Release_Interface a; libusb_close ops a })"

definition subdevices_complete :: "'u usb_world \<Rightarrow> bool" where
  "subdevices_complete w \<longleftrightarrow>
     (sd_cam (uw_dev w) \<noteq> None \<or> uw_enabled w AND FREENECT_DEVICE_CAMERA = 0)
     \<and> (sd_motor (uw_dev w) \<noteq> None \<or> uw_enabled w AND FREENECT_DEVICE_MOTOR = 0)
     \<and> (sd_audio (uw_dev w) \<noteq> None \<or> uw_enabled w AND FREENECT_DEVICE_AUDIO = 0)"

definition check_subdevices :: "('u, 'x) usb_host_scheme \<Rightarrow> ('u, int) usb" where
  "check_subdevices ops = do {
     w \<leftarrow> State_Monad.get;
     if subdevices_complete w then State_Monad.return 0
     else do {
       release_and_close ops (sd_cam (uw_dev w));
       release_and_close ops (sd_motor (uw_dev w));
       release_and_close ops (sd_audio (uw_dev w));
       State_Monad.return (-1) } }"

definition fnusb_open_subdevices :: "('u, 'x) usb_host_scheme \<Rightarrow> int \<Rightarrow> ('u, int) usb" where
  "fnusb_open_subdevices ops index = do {
     set_dev (\<lambda>sd. sd\<lparr>sd_motor_control_with_audio := False, sd_motor_control_enabled := False,
                     sd_cam := None, sd_motor := None, sd_audio := None\<rparr>);
     devs \<leftarrow> get_device_list ops;
     (case devs of None \<Rightarrow> State_Monad.return (-1)
      | Some ds \<Rightarrow> do {
          res \<leftarrow> camera_loop ops ds index (enumerate 0 ds) 0 None;
          w \<leftarrow> State_Monad.get;
          (if uw_enabled w = FREENECT_DEVICE_CAMERA then State_Monad.return ()
           else case res of
             None \<Rightarrow> do { undefined_use; motor_audio_loop ops index (enumerate 0 ds) 0 0 }
           | Some r \<Rightarrow> (if r < 0 then State_Monad.return () else motor_audio_loop ops index (enumerate 0 ds) 0 0));
          check_subdevices ops }) }"

definition close_one :: "('u, 'x) usb_host_scheme \<Rightarrow> bool \<Rightarrow> nat option \<Rightarrow> ('u, unit) usb" where
  "close_one ops attach h =
     (case h of None \<Rightarrow> State_Monad.return ()
      | Some a \<Rightarrow> do {
          r \<leftarrow> on_handle ops Release_Interface a;
          r \<leftarrow> (if attach then on_handle ops Attach_Kernel_Driver a else State_Monad.return 0);
          libusb_close ops a })"

definition fnusb_close_subdevices :: "('u, 'x) usb_host_scheme \<Rightarrow> ('u, int) usb" where
  "fnusb_close_subdevices ops = do {
     w \<leftarrow> State_Monad.get;
     close_one ops True (sd_cam (uw_dev w));
     close_one ops False (sd_motor (uw_dev w));
     close_one ops False (sd_audio (uw_dev w));
     set_dev (\<lambda>sd. sd\<lparr>sd_cam := None, sd_motor := None, sd_audio := None\<rparr>);
     State_Monad.return 0 }"

end
