(* ===== verification/UsbDevicesProofs.thy ===== *)
theory UsbDevicesProofs
  imports UsbDevices
begin

text \<open>
  Handle discipline of \<open>fnusb_open_subdevices\<close> and \<open>fnusb_close_subdevices\<close>: a small Hoare logic
  for the state monad, one rule per operation, and the properties.
\<close>

section \<open>Triples\<close>

definition triple :: "('s \<Rightarrow> bool) \<Rightarrow> ('s, 'a) state \<Rightarrow> ('a \<Rightarrow> 's \<Rightarrow> bool) \<Rightarrow> bool" where
  "triple P m Q \<longleftrightarrow> (\<forall>w. P w \<longrightarrow> Q (fst (run_state m w)) (snd (run_state m w)))"

named_theorems usb_rules \<open>triples of the operations on devices\<close>

lemma triple_bind: "triple P m R \<Longrightarrow> (\<And>x. triple (R x) (f x) Q) \<Longrightarrow> triple P (State_Monad.bind m f) Q"
  by (simp add: triple_def split_beta)

lemma triple_return: "(\<And>w. P w \<Longrightarrow> Q x w) \<Longrightarrow> triple P (State_Monad.return x) Q"
  by (simp add: triple_def)

lemma triple_get: "triple P State_Monad.get (\<lambda>x w. P w \<and> x = w)"
  by (simp add: triple_def)

lemma triple_pre: "triple P m Q \<Longrightarrow> (\<And>w. P' w \<Longrightarrow> P w) \<Longrightarrow> triple P' m Q"
  by (simp add: triple_def)

lemma triple_post: "triple P m Q \<Longrightarrow> (\<And>x w. Q x w \<Longrightarrow> Q' x w) \<Longrightarrow> triple P m Q'"
  by (simp add: triple_def)

lemma triple_modify: "(\<And>w. P w \<Longrightarrow> Q () (f w)) \<Longrightarrow> triple P (modify f) Q"
  by (simp add: triple_def modify_def)

lemma triple_case: "(\<And>a b. x = (a, b) \<Longrightarrow> triple P (f a b) Q) \<Longrightarrow> triple P (case x of (a, b) \<Rightarrow> f a b) Q"
  by (cases x) simp

lemma tripleD: "triple P m Q \<Longrightarrow> P w \<Longrightarrow> run_state m w = (x, w') \<Longrightarrow> Q x w'"
  by (simp add: triple_def split_beta) (metis fst_conv snd_conv)

section \<open>Handles\<close>

definition opt_list :: "'a option \<Rightarrow> 'a list" where
  "opt_list x = (case x of None \<Rightarrow> [] | Some a \<Rightarrow> [a])"

lemma opt_list_simps [simp]: "opt_list None = []" "opt_list (Some a) = [a]"
  by (simp_all add: opt_list_def)

type_synonym slots = "nat option \<times> nat option \<times> nat option"

definition slot_handles :: "slots \<Rightarrow> nat list" where
  "slot_handles D = opt_list (fst D) @ opt_list (fst (snd D)) @ opt_list (snd (snd D))"

text \<open>
  The handles in use are the three slots \<open>D\<close> of the device and the local ones \<open>L\<close>: all open,
  all different, none of the set \<open>B\<close> open before; unless \<open>lk\<close> there are no others.
\<close>

definition hs :: "bool \<Rightarrow> nat set \<Rightarrow> slots \<Rightarrow> nat list \<Rightarrow> 'u usb_world \<Rightarrow> bool" where
  "hs lk B D L w \<longleftrightarrow> (sd_cam (uw_dev w), sd_motor (uw_dev w), sd_audio (uw_dev w)) = D
     \<and> \<not> uw_bad_handle w \<and> (\<forall>h \<in> uw_open w. h < uw_next w)
     \<and> distinct (slot_handles D @ L) \<and> set (slot_handles D @ L) \<inter> B = {}
     \<and> B \<union> set (slot_handles D @ L) \<subseteq> uw_open w \<and> (\<not> lk \<longrightarrow> uw_open w = B \<union> set (slot_handles D @ L))"

text \<open>What a request to the host leaves alone.\<close>

lemma hs_host: "hs lk B D L (w\<lparr>uw_host := u\<rparr>) = hs lk B D L w"
  by (simp add: hs_def)

lemma request_rule [usb_rules]: "triple (hs lk B D L) (request ops rq) (\<lambda>_. hs lk B D L)"
  by (simp add: triple_def request_def split_beta hs_host)

lemma touch_rule: "a \<in> set (slot_handles D @ L) \<Longrightarrow> triple (hs lk B D L) (touch a) (\<lambda>_. hs lk B D L)"
  unfolding touch_def by (rule triple_modify) (auto simp: hs_def)

lemma on_handle_rule [usb_rules]:
  "a \<in> set (slot_handles D @ L) \<Longrightarrow> triple (hs lk B D L) (on_handle ops rq a) (\<lambda>_. hs lk B D L)"
  unfolding on_handle_def by (rule triple_bind [OF touch_rule request_rule])

lemma get_string_rule [usb_rules]:
  "a \<in> set (slot_handles D @ L) \<Longrightarrow> triple (hs lk B D L) (get_string ops a i) (\<lambda>_. hs lk B D L)"
  unfolding get_string_def
  by (rule triple_bind [OF touch_rule]) (auto simp: triple_def split_beta hs_host)

lemma get_device_list_rule [usb_rules]: "triple (hs lk B D L) (get_device_list ops) (\<lambda>_. hs lk B D L)"
  by (simp add: triple_def get_device_list_def split_beta hs_host)

lemma hs_fresh:
  assumes "hs lk B D L w"
  shows "hs lk B D (uw_next w # L) (w\<lparr>uw_next := Suc (uw_next w), uw_open := insert (uw_next w) (uw_open w)\<rparr>)"
proof -
  have fresh: "uw_next w \<notin> uw_open w" using assms by (auto simp: hs_def)
  then have "uw_next w \<notin> B" "uw_next w \<notin> set (slot_handles D @ L)" using assms by (auto simp: hs_def)
  then show ?thesis using assms by (auto simp: hs_def)
qed

text \<open>What follows \<open>libusb_open\<close> runs without a handle, or with a new local one.\<close>

lemma open_bind:
  assumes "\<And>res. triple (hs lk B D L) (f (res, None)) Q"
    and "\<And>a. triple (hs lk B D (a # L)) (f (0, Some a)) Q"
  shows "triple (hs lk B D L) (State_Monad.bind (libusb_open ops i) f) Q"
proof -
  have "triple (hs lk B D L) (libusb_open ops i)
     (\<lambda>(res, h) w. case h of None \<Rightarrow> hs lk B D L w | Some a \<Rightarrow> res = 0 \<and> hs lk B D (a # L) w)"
    unfolding libusb_open_def
    by (rule triple_bind [OF request_rule]) (simp add: triple_def hs_fresh)
  then show ?thesis
    by (rule triple_bind)
       (use assms in \<open>force simp: triple_def split: prod.splits option.splits\<close>)
qed

lemma libusb_close_rule [usb_rules]: "triple (hs lk B D (a # L)) (libusb_close ops a) (\<lambda>_. hs lk B D L)"
  unfolding libusb_close_def
  by (rule triple_bind [OF on_handle_rule], simp, rule triple_modify) (auto simp: hs_def)

lemma modify_dev_rule:
  assumes "\<And>sd. sd_cam (f sd) = sd_cam sd \<and> sd_motor (f sd) = sd_motor sd \<and> sd_audio (f sd) = sd_audio sd"
  shows "triple (hs lk B D L) (set_dev f) (\<lambda>_. hs lk B D L)"
  unfolding set_dev_def by (rule triple_modify) (simp add: hs_def assms)

text \<open>Moving a handle into a slot, and closing the handle of a slot.\<close>

lemma set_slot_rules:
  "triple (hs lk B (None, m, a) (x # L)) (set_dev (\<lambda>sd. sd\<lparr>sd_cam := Some x\<rparr>)) (\<lambda>_. hs lk B (Some x, m, a) L)"
  "triple (hs lk B (c, None, a) (x # L)) (set_dev (\<lambda>sd. sd\<lparr>sd_motor := Some x\<rparr>)) (\<lambda>_. hs lk B (c, Some x, a) L)"
  "triple (hs lk B (c, m, None) (x # L)) (set_dev (\<lambda>sd. sd\<lparr>sd_audio := Some x\<rparr>)) (\<lambda>_. hs lk B (c, m, Some x) L)"
  unfolding set_dev_def by (rule triple_modify; auto simp: hs_def slot_handles_def)+

text \<open>The handle of a slot is closed before the slot is cleared.\<close>

lemma close_slot_rule:
  fixes ops :: "('u, 'x) usb_host_scheme"
  assumes "x \<in> set (slot_handles D @ L)"
    and "\<And>w :: 'u usb_world. hs lk B D L w \<Longrightarrow> hs lk B D' L (w\<lparr>uw_open := uw_open w - {x}, uw_dev := f (uw_dev w)\<rparr>)"
  shows "triple (hs lk B D L) (State_Monad.bind (libusb_close ops x) (\<lambda>_. set_dev f)) (\<lambda>_. hs lk B D' L)"
proof (rule triple_bind [where R = "\<lambda>_ w. hs lk B D' L (w\<lparr>uw_dev := f (uw_dev w)\<rparr>)"])
  show "triple (hs lk B D L) (libusb_close ops x) (\<lambda>_ w. hs lk B D' L (w\<lparr>uw_dev := f (uw_dev w)\<rparr>))"
    unfolding libusb_close_def
    by (rule triple_bind [OF on_handle_rule [OF assms(1)]], rule triple_modify) (use assms(2) in simp)
  show "triple (\<lambda>w. hs lk B D' L (w\<lparr>uw_dev := f (uw_dev w)\<rparr>)) (set_dev f) (\<lambda>_. hs lk B D' L)" for y
    unfolding set_dev_def by (rule triple_modify)
qed

lemma close_slot_rules:
  "triple (hs lk B (Some x, m, a) L)
     (State_Monad.bind (libusb_close ops x) (\<lambda>_. set_dev (\<lambda>sd. sd\<lparr>sd_cam := None\<rparr>))) (\<lambda>_. hs lk B (None, m, a) L)"
  "triple (hs lk B (c, Some x, a) L)
     (State_Monad.bind (libusb_close ops x) (\<lambda>_. set_dev (\<lambda>sd. sd\<lparr>sd_motor := None\<rparr>))) (\<lambda>_. hs lk B (c, None, a) L)"
  "triple (hs lk B (c, m, Some x) L)
     (State_Monad.bind (libusb_close ops x) (\<lambda>_. set_dev (\<lambda>sd. sd\<lparr>sd_audio := None\<rparr>))) (\<lambda>_. hs lk B (c, m, None) L)"
  by (rule close_slot_rule; auto simp: hs_def slot_handles_def)+

section \<open>The camera\<close>

lemma set_led_green_rule [usb_rules]:
  "a \<in> set (slot_handles D @ L) \<Longrightarrow> triple (hs lk B D L) (set_led_green ops a) (\<lambda>_. hs lk B D L)"
  unfolding set_led_green_def
  by (rule triple_bind [OF touch_rule], assumption, rule triple_modify) (simp add: hs_def split_beta Let_def)

lemma triple_if: "(b \<Longrightarrow> triple P m Q) \<Longrightarrow> (\<not> b \<Longrightarrow> triple P n Q) \<Longrightarrow> triple P (if b then m else n) Q"
  by simp

lemma wake_audio_rule [usb_rules]: "triple (hs lk B D L) (wake_audio ops j) (\<lambda>_. hs lk B D L)"
  unfolding wake_audio_def
  apply (rule open_bind; simp)
   apply (rule triple_return, assumption)
  apply (rule triple_bind [OF on_handle_rule], simp)
  apply (rule triple_bind [OF libusb_close_rule])
  apply (rule open_bind; simp)
   apply (rule triple_return, assumption)
  apply (rule triple_bind [OF on_handle_rule], simp)
  apply (rule triple_bind [OF _ libusb_close_rule])
  apply (rule triple_if, rule triple_return, assumption)
  apply (rule triple_bind [OF set_led_green_rule], simp)
  apply (rule triple_bind [OF on_handle_rule], simp)
  apply (rule triple_return, assumption)
  done

lemma modify_rule:
  assumes "\<And>w. uw_dev (f w) = uw_dev w \<and> uw_open (f w) = uw_open w \<and> uw_next (f w) = uw_next w
     \<and> uw_bad_handle (f w) = uw_bad_handle w"
  shows "triple (hs lk B D L) (modify f) (\<lambda>_. hs lk B D L)"
  by (rule triple_modify) (simp add: hs_def assms)

lemma undefined_use_rule [usb_rules]: "triple (hs lk B D L) undefined_use (\<lambda>_. hs lk B D L)"
  unfolding undefined_use_def by (rule modify_rule) simp

lemma enable_audio_motor_rule [usb_rules]: "triple (hs lk B D L) enable_audio_motor (\<lambda>_. hs lk B D L)"
  unfolding enable_audio_motor_def by (rule modify_dev_rule) simp

lemma setup_newer_device_rule [usb_rules]: "triple (hs lk B D L) (setup_newer_device ops devs d) (\<lambda>_. hs lk B D L)"
  unfolding setup_newer_device_def Let_def
  apply (rule triple_bind [OF triple_get])
  apply (rule triple_pre [where P = "hs lk B D L"])
   apply (rule triple_bind [OF modify_rule], simp)
   apply (rule triple_bind [OF modify_dev_rule], simp)
   apply (rule triple_bind [where R = "\<lambda>_. hs lk B D L"])
    apply (simp add: wake_audio_rule triple_return split: option.split)
   apply (rule triple_if)
    apply (rule modify_rule, simp)
   apply (rule triple_return, assumption)
  apply simp
  done

text \<open>What holds between two devices of a loop: the slots are free or hold open handles.\<close>

definition slots_ok :: "bool \<Rightarrow> nat set \<Rightarrow> 'u usb_world \<Rightarrow> bool" where
  "slots_ok lk B w \<longleftrightarrow> (\<exists>D. hs lk B D [] w)"

lemma slots_now: "slots_ok lk B w \<Longrightarrow> hs lk B (sd_cam (uw_dev w), sd_motor (uw_dev w), sd_audio (uw_dev w)) [] w"
proof -
  assume "slots_ok lk B w"
  then obtain D where "hs lk B D [] w" unfolding slots_ok_def by blast
  moreover from this have "D = (sd_cam (uw_dev w), sd_motor (uw_dev w), sd_audio (uw_dev w))" by (simp add: hs_def)
  ultimately show ?thesis by simp
qed

lemma triple_return_slots: "triple (hs lk B D []) (State_Monad.return x) (\<lambda>_. slots_ok lk B)"
  unfolding slots_ok_def by (rule triple_return) blast

lemma triple_slots:
  assumes "\<And>D. triple (hs lk B D []) m Q"
  shows "triple (slots_ok lk B) m Q"
  using assms by (auto simp: triple_def slots_ok_def)

lemma triple_slots': "triple (slots_ok lk B) m Q \<Longrightarrow> triple (hs lk B D []) m Q"
  unfolding slots_ok_def by (erule triple_pre) blast

lemma triple_to_slots: "triple P m (\<lambda>_. hs lk B D []) \<Longrightarrow> triple P m (\<lambda>_. slots_ok lk B)"
  unfolding slots_ok_def by (erule triple_post) blast

lemma close_camera_rule: "triple (hs lk B (Some x, m, a) L) (close_camera ops x) (\<lambda>_. hs lk B (None, m, a) L)"
  unfolding close_camera_def by (rule close_slot_rules)

lemma close_camera_return:
  "triple (hs lk B (Some x, m, a) []) (State_Monad.bind (close_camera ops x) (\<lambda>_. State_Monad.return r)) (\<lambda>_. slots_ok lk B)"
  by (rule triple_bind [OF close_camera_rule triple_return_slots])

lemma close_slot_return:
  "triple (hs lk B (Some x, m, a) []) (State_Monad.bind (libusb_close ops x) (\<lambda>_. State_Monad.bind
     (set_dev (\<lambda>sd. sd\<lparr>sd_cam := None\<rparr>)) (\<lambda>_. State_Monad.return r))) (\<lambda>_. slots_ok lk B)"
  "triple (hs lk B (c, Some x, a) []) (State_Monad.bind (libusb_close ops x) (\<lambda>_. State_Monad.bind
     (set_dev (\<lambda>sd. sd\<lparr>sd_motor := None\<rparr>)) (\<lambda>_. State_Monad.return r))) (\<lambda>_. slots_ok lk B)"
  "triple (hs lk B (c, m, Some x) []) (State_Monad.bind (libusb_close ops x) (\<lambda>_. State_Monad.bind
     (set_dev (\<lambda>sd. sd\<lparr>sd_audio := None\<rparr>)) (\<lambda>_. State_Monad.return r))) (\<lambda>_. slots_ok lk B)"
  by (subst State_Monad.bind_assoc [symmetric], rule triple_bind [OF _ triple_return_slots], rule close_slot_rules)+

lemma open_camera_rule: "triple (hs lk B (None, m, a) []) (open_camera ops devs i d) (\<lambda>_. slots_ok lk B)"
  unfolding open_camera_def
proof (rule triple_bind [OF modify_dev_rule], simp, (rule open_bind; simp only: prod.case option.case), goal_cases)
  case (2 x c)
  let ?hs = "hs lk B (Some c, m, a) []"
  have "c \<in> set (slot_handles (Some c, m, a) @ [])" by (simp add: slot_handles_def)
  note on_c = on_handle_rule [OF this]
  show ?case
    apply (rule triple_bind [OF set_slot_rules(1)])
    apply (rule triple_bind [where R = "\<lambda>_. ?hs"])
     apply (rule triple_if [OF setup_newer_device_rule modify_rule], simp)
    apply (rule triple_bind [OF on_c])
    apply (rule triple_bind [where R = "\<lambda>_. ?hs"])
     apply (rule triple_if [OF on_c triple_return], assumption)
    apply (rule triple_if [OF close_camera_return])
    apply (rule triple_bind [OF on_c])
    apply (rule triple_if [OF close_camera_return])
    apply (rule triple_if)
     apply (rule triple_bind [OF on_c])
     apply (rule triple_if [OF close_camera_return triple_return_slots])
    apply (rule triple_return_slots)
    done
qed (rule triple_return_slots)

lemma triple_if_read:
  "(b v \<Longrightarrow> triple (\<lambda>w. P w \<and> w = v) m Q) \<Longrightarrow> (\<not> b v \<Longrightarrow> triple (\<lambda>w. P w \<and> w = v) n Q)
    \<Longrightarrow> triple (\<lambda>w. P w \<and> v = w) (if b v then m else n) Q"
  by (simp add: triple_def)

lemma camera_loop_rule: "triple (slots_ok lk B) (camera_loop ops devs index ds nr res) (\<lambda>_. slots_ok lk B)"
proof (induction ds arbitrary: nr res)
  case Nil
  then show ?case by (simp add: triple_return)
next
  case (Cons p ds)
  obtain i d where [simp]: "p = (i, d)" by fastforce
  have next_one: "triple (\<lambda>w. slots_ok lk B w \<and> w = v) (camera_loop ops devs index ds nr res) (\<lambda>_. slots_ok lk B)"
    for v nr res
    by (rule triple_pre [OF Cons.IH]) simp
  have here: "triple (\<lambda>w. slots_ok lk B w \<and> w = v)
       (State_Monad.bind (open_camera ops devs i d) (\<lambda>(r, brk).
          if brk then State_Monad.return (Some r) else camera_loop ops devs index ds nr (Some r))) (\<lambda>_. slots_ok lk B)"
    if none: "sd_cam (uw_dev v) = None" for v
  proof (cases "slots_ok lk B v")
    case True
    then obtain m a where hs: "hs lk B (None, m, a) [] v"
      using slots_now [OF True, unfolded none] by blast
    show ?thesis
      apply (rule triple_pre [OF triple_bind [OF open_camera_rule]])
       apply (rule triple_case, rule triple_if [OF triple_return Cons.IH], assumption)
      using hs by blast
  next
    case False
    then show ?thesis by (simp add: triple_def)
  qed
  show ?case
    apply (simp only: camera_loop.simps \<open>p = (i, d)\<close>)
    apply (rule triple_if [OF Cons.IH])
    apply (rule triple_bind [OF triple_get])
    apply (rule triple_if_read)
     apply (rule triple_if [OF here next_one], blast)
    apply (rule next_one)
    done
qed

section \<open>Motor and audio\<close>

lemma open_motor_rule: "triple (hs lk B (c, None, a) []) (open_motor ops i) (\<lambda>_. slots_ok lk B)"
  unfolding open_motor_def
proof (rule open_bind; simp only: prod.case option.case)
  fix m
  have "m \<in> set (slot_handles (c, Some m, a) @ [])" by (simp add: slot_handles_def)
  note on_m = on_handle_rule [OF this]
  show "triple (hs lk B (c, None, a) [m])
      (State_Monad.bind (set_dev (\<lambda>sd. sd\<lparr>sd_motor := Some m\<rparr>)) (\<lambda>_. State_Monad.bind (on_handle ops Claim_Interface m) (\<lambda>res.
         if res < 0 then State_Monad.bind (libusb_close ops m) (\<lambda>_. State_Monad.bind (set_dev (\<lambda>sd. sd\<lparr>sd_motor := None\<rparr>))
           (\<lambda>_. State_Monad.return (res, True)))
         else State_Monad.return (res, False)))) (\<lambda>_. slots_ok lk B)"
    apply (rule triple_bind [OF set_slot_rules(2)])
    apply (rule triple_bind [OF on_m])
    apply (rule triple_if)
     apply (rule close_slot_return(2))
    apply (rule triple_return_slots)
    done
qed (rule triple_return_slots)

text \<open>A device list search for the restarted device; its leak is the \<open>lk\<close> of the conclusion.\<close>

lemma forget_local: "triple (hs True B D L) m Q \<Longrightarrow> triple (hs True B D (a # L)) m Q"
  by (erule triple_pre) (auto simp: hs_def)

lemma clear_audio_rule:
  "triple (hs lk B (c, m, Some a) L) (set_dev (\<lambda>sd. sd\<lparr>sd_audio := None\<rparr>)) (\<lambda>_. hs lk B (c, m, None) (a # L))"
  unfolding set_dev_def by (rule triple_modify) (auto simp: hs_def slot_handles_def)

lemma find_restarted_rule:
  "triple (hs True B (c, m, None) []) (find_restarted ops desc serial ds) (\<lambda>_. slots_ok True B)"
proof (induction ds)
  case Nil
  show ?case by (simp add: triple_return_slots)
next
  case (Cons p ds)
  obtain i d where p: "p = (i, d)" by fastforce
  show ?case
    apply (simp only: find_restarted.simps p)
    apply (rule triple_if [OF Cons.IH])
    apply (rule triple_if [OF Cons.IH])
    apply (rule open_bind; simp only: prod.case option.case)
     apply (rule Cons.IH)
    apply (rule triple_bind [OF get_string_rule], simp)
    apply (rule triple_case)
    apply (rule triple_if)
     apply (rule triple_bind [OF libusb_close_rule Cons.IH])
    apply (rule triple_if)
     apply (rule triple_bind [OF on_handle_rule], simp)
     apply (rule triple_if)
      apply (rule triple_bind [OF libusb_close_rule Cons.IH])
     apply (rule triple_bind [OF set_slot_rules(3)])
     apply (rule triple_bind [OF on_handle_rule], simp add: slot_handles_def)
     apply (rule triple_if)
      apply (rule triple_to_slots [OF enable_audio_motor_rule])
     apply (rule triple_bind [OF clear_audio_rule])
     apply (rule triple_bind [OF libusb_close_rule Cons.IH])
    apply (rule forget_local [OF Cons.IH])
    done
qed

lemma slots_none: "slots_ok lk B w \<Longrightarrow> sd_audio (uw_dev w) = None \<Longrightarrow> \<exists>c m. hs lk B (c, m, None) [] w"
  using slots_now [of lk B w] by metis

lemma wait_restarted_rule:
  "triple (hs True B (c, m, None) []) (wait_restarted ops desc serial n) (\<lambda>_. slots_ok True B)"
proof (induction n arbitrary: c m)
  case 0
  show ?case by (simp add: triple_return_slots)
next
  case (Suc n)
  have again: "triple (\<lambda>w. slots_ok True B w \<and> w = v)
      (State_Monad.bind (request ops Sleep) (\<lambda>r. wait_restarted ops desc serial n)) (\<lambda>_. slots_ok True B)"
    if none: "sd_audio (uw_dev v) = None" for v
  proof (cases "slots_ok True B v")
    case True
    then obtain c m where "hs True B (c, m, None) [] v" using slots_none none by blast
    then show ?thesis
      by (intro triple_pre [OF triple_bind [OF request_rule Suc.IH]]) blast
  qed (simp add: triple_def)
  show ?case
    apply (simp only: wait_restarted.simps)
    apply (rule triple_bind [OF get_device_list_rule])
    apply (rule triple_bind [where R = "\<lambda>_. slots_ok True B"])
     apply (simp add: find_restarted_rule triple_to_slots [OF undefined_use_rule] split: option.split)
    apply (rule triple_bind [OF triple_get])
    apply (rule triple_if_read)
     apply (rule triple_return, simp)
    apply (rule again, simp)
    done
qed

lemma triple_option:
  "triple P m Q \<Longrightarrow> (\<And>a b. triple P (f a b) Q)
    \<Longrightarrow> triple P (case x of None \<Rightarrow> m | Some r \<Rightarrow> (case r of (a, b) \<Rightarrow> f a b)) Q"
  by (simp split: option.split prod.split)

lemma upload_rule: "a \<in> set (slot_handles D @ L) \<Longrightarrow> triple (hs lk B D L) (upload_to_audio ops d a) (\<lambda>_. hs lk B D L)"
  unfolding upload_to_audio_def Let_def
  apply (rule triple_bind [OF touch_rule], assumption)
  apply (rule triple_bind [OF triple_get])
  apply (rule triple_option)
   apply (rule triple_bind [OF triple_pre [OF undefined_use_rule] triple_return], blast, assumption)
  apply (simp add: triple_def hs_def)
  done

lemma restart_rule: "triple (hs True B (c, m, Some a) []) (restart_with_firmware ops d a) (\<lambda>_. slots_ok True B)"
proof -
  have "a \<in> set (slot_handles (c, m, Some a) @ [])" by (simp add: slot_handles_def)
  note on_a = get_string_rule [OF this] upload_rule [OF this]
  show ?thesis
    unfolding restart_with_firmware_def
    apply (rule triple_bind [OF on_a(1)])
    apply (rule triple_case)
    apply (rule triple_if [OF triple_return_slots])
    apply (rule triple_bind [OF on_a(2)])
    apply (rule triple_if [OF triple_return_slots])
    apply (subst State_Monad.bind_assoc [symmetric])
    apply (rule triple_bind [OF close_slot_rules(3)])
    apply (rule triple_bind [OF wait_restarted_rule])
    apply (rule triple_return, assumption)
    done
qed

text \<open>Every audio device runs its firmware: it has two interfaces.\<close>

definition two_interfaces :: "('u, 'x) usb_host_scheme \<Rightarrow> bool" where
  "two_interfaces ops \<longleftrightarrow> (\<forall>hdl u. 2 \<le> fst (host_request ops (Num_Interfaces hdl) u))"

lemma num_interfaces_rule:
  "a \<in> set (slot_handles D @ L) \<Longrightarrow>
   triple (hs lk B D L) (on_handle ops Num_Interfaces a) (\<lambda>n w. hs lk B D L w \<and> (two_interfaces ops \<longrightarrow> 2 \<le> n))"
  unfolding on_handle_def
  by (rule triple_bind [OF touch_rule], assumption)
     (simp add: triple_def request_def split_beta hs_host two_interfaces_def)

lemma open_audio_rule:
  assumes "lk \<or> two_interfaces ops"
  shows "triple (hs lk B (c, m, None) []) (open_audio ops i d) (\<lambda>_. slots_ok lk B)"
  unfolding open_audio_def
proof (rule triple_bind [OF modify_dev_rule], simp, rule open_bind; simp only: prod.case option.case)
  fix a
  have "a \<in> set (slot_handles (c, m, Some a) @ [])" by (simp add: slot_handles_def)
  note on_a = on_handle_rule [OF this] num_interfaces_rule [OF this]
  show "triple (hs lk B (c, m, None) [a])
      (State_Monad.bind (set_dev (\<lambda>sd. sd\<lparr>sd_audio := Some a\<rparr>)) (\<lambda>_. State_Monad.bind (on_handle ops Claim_Interface a) (\<lambda>res.
         if res < 0 then State_Monad.bind (libusb_close ops a) (\<lambda>_. State_Monad.bind (set_dev (\<lambda>sd. sd\<lparr>sd_audio := None\<rparr>))
           (\<lambda>_. State_Monad.return (res, True)))
         else State_Monad.bind (on_handle ops Num_Interfaces a) (\<lambda>n.
           if 2 \<le> n then State_Monad.bind enable_audio_motor (\<lambda>_. State_Monad.return (res, False))
           else restart_with_firmware ops d a)))) (\<lambda>_. slots_ok lk B)"
    apply (rule triple_bind [OF set_slot_rules(3)])
    apply (rule triple_bind [OF on_a(1)])
    apply (rule triple_if)
     apply (rule close_slot_return(3))
    apply (rule triple_bind [OF on_a(2)])
    apply (rule triple_if)
     apply (rule triple_pre [OF triple_bind [OF enable_audio_motor_rule triple_return_slots]], blast)
    subgoal for r n
      using assms by (cases lk) (auto intro: triple_pre [OF restart_rule] simp: triple_def [of "\<lambda>_. False"])
    done
qed (rule triple_return_slots)

lemma triple_in_state:
  "(\<And>v. P v \<Longrightarrow> triple (\<lambda>w. w = v) (f v) Q) \<Longrightarrow> triple P (State_Monad.bind State_Monad.get f) Q"
  by (simp add: triple_def)

lemma slots_in_state: "slots_ok lk B v \<Longrightarrow> triple (slots_ok lk B) m Q \<Longrightarrow> triple (\<lambda>w. w = v) m Q"
  by (erule triple_pre) simp

lemma motor_part_rule: "triple (slots_ok lk B) (motor_part ops index i d nr) (\<lambda>_. slots_ok lk B)"
  unfolding motor_part_def
proof (rule triple_in_state, rule triple_if, goal_cases)
  case (1 v)
  then have "hs lk B (sd_cam (uw_dev v), None, sd_audio (uw_dev v)) [] v" using slots_now [of lk B v] by simp
  then have "triple (\<lambda>w. w = v) (open_motor ops i) (\<lambda>_. slots_ok lk B)"
    by (intro triple_pre [OF open_motor_rule]) simp
  then show ?case
    by (intro triple_if triple_bind [where R = "\<lambda>_. slots_ok lk B"] triple_case triple_return) (simp_all add: 1)
next
  case (2 v)
  then show ?case by (intro triple_return) simp
qed

lemma audio_part_rule:
  assumes "lk \<or> two_interfaces ops"
  shows "triple (slots_ok lk B) (audio_part ops index i d nr) (\<lambda>_. slots_ok lk B)"
  unfolding audio_part_def
proof (rule triple_in_state, rule triple_if, goal_cases)
  case (1 v)
  then have "hs lk B (sd_cam (uw_dev v), sd_motor (uw_dev v), None) [] v" using slots_now [of lk B v] by simp
  then have "triple (\<lambda>w. w = v) (open_audio ops i d) (\<lambda>_. slots_ok lk B)"
    by (intro triple_pre [OF open_audio_rule [OF assms]]) simp
  then show ?case
    by (intro triple_if triple_bind [where R = "\<lambda>_. slots_ok lk B"] triple_case triple_return) (simp_all add: 1)
next
  case (2 v)
  then show ?case by (intro triple_return) simp
qed

lemma motor_audio_loop_rule:
  assumes "lk \<or> two_interfaces ops"
  shows "triple (slots_ok lk B) (motor_audio_loop ops index ds nr_mot nr_audio) (\<lambda>_. slots_ok lk B)"
proof (induction ds arbitrary: nr_mot nr_audio)
  case Nil
  show ?case by (simp add: triple_return)
next
  case (Cons p ds)
  obtain i d where p: "p = (i, d)" by fastforce
  show ?case
    apply (simp only: motor_audio_loop.simps p)
    apply (rule triple_if [OF Cons.IH])
    apply (rule triple_bind [OF motor_part_rule])
    apply (rule triple_case)
    apply (rule triple_if)
     apply (rule triple_return, assumption)
    apply (rule triple_bind [OF audio_part_rule [OF assms]])
    apply (rule triple_case)
    apply (rule triple_if [OF triple_return Cons.IH], assumption)
    done
qed

section \<open>Release\<close>

text \<open>The same, for handles that are only listed.\<close>

definition handles :: "bool \<Rightarrow> nat set \<Rightarrow> nat list \<Rightarrow> 'u usb_world \<Rightarrow> bool" where
  "handles lk B X w \<longleftrightarrow> \<not> uw_bad_handle w \<and> (\<forall>h \<in> uw_open w. h < uw_next w) \<and> distinct X \<and> set X \<inter> B = {} \<and> B \<union> set X \<subseteq> uw_open w
     \<and> (\<not> lk \<longrightarrow> uw_open w = B \<union> set X)"

lemma hs_handles: "hs lk B D [] w \<Longrightarrow> handles lk B (slot_handles D) w"
  by (simp add: hs_def handles_def)

lemma on_listed_rule: "a \<in> set X \<Longrightarrow> triple (handles lk B X) (on_handle ops rq a) (\<lambda>_. handles lk B X)"
  by (auto simp: triple_def on_handle_def touch_def modify_def request_def split_beta handles_def)

lemma close_listed_rule: "triple (handles lk B (a # X)) (libusb_close ops a) (\<lambda>_. handles lk B X)"
  unfolding libusb_close_def
  by (rule triple_bind [OF on_listed_rule], simp, rule triple_modify) (auto simp: handles_def)

lemma release_rule: "triple (handles lk B (opt_list h @ X)) (release_and_close ops h) (\<lambda>_. handles lk B X)"
  unfolding release_and_close_def
  by (cases h) (simp_all add: triple_return triple_bind [OF on_listed_rule close_listed_rule])

lemma close_one_rule: "triple (handles lk B (opt_list h @ X)) (close_one ops attach h) (\<lambda>_. handles lk B X)"
proof (cases h)
  case (Some a)
  show ?thesis
    unfolding close_one_def Some option.case opt_list_simps append.simps
    apply (rule triple_bind [OF on_listed_rule], simp)
    apply (rule triple_bind [OF _ close_listed_rule])
    apply (rule triple_if [OF on_listed_rule triple_return], simp, assumption)
    done
qed (simp add: close_one_def triple_return)

text \<open>The result of \<open>check_subdevices\<close>: everything asked for and open, or everything closed.\<close>

definition opened :: "bool \<Rightarrow> nat set \<Rightarrow> int \<Rightarrow> 'u usb_world \<Rightarrow> bool" where
  "opened lk B res w \<longleftrightarrow> (res = 0 \<and> subdevices_complete w \<and> slots_ok lk B w) \<or> (res = -1 \<and> handles lk B [] w)"

lemma check_subdevices_rule: "triple (slots_ok lk B) (check_subdevices ops) (opened lk B)"
  unfolding check_subdevices_def
proof (rule triple_in_state, rule triple_if, goal_cases)
  case (1 v)
  then show ?case by (intro triple_return) (simp add: opened_def)
next
  case (2 v)
  let ?h = "\<lambda>f. opt_list (f (uw_dev v))"
  have start: "handles lk B (?h sd_cam @ ?h sd_motor @ ?h sd_audio @ []) v"
    using hs_handles [OF slots_now [OF 2(1)]] by (simp only: slot_handles_def fst_conv snd_conv append_Nil2)
  show ?case
    apply (rule triple_pre [OF triple_bind [OF release_rule]])
     apply (rule triple_bind [OF release_rule])
     apply (rule triple_bind [OF release_rule])
     apply (rule triple_return, simp add: opened_def)
    using start apply simp
    done
qed

lemma open_subdevices_rule:
  assumes "lk \<or> two_interfaces ops"
  shows "triple (\<lambda>w. \<not> uw_bad_handle w \<and> uw_open w = B \<and> (\<forall>h \<in> B. h < uw_next w))
     (fnusb_open_subdevices ops index) (opened lk B)"
  unfolding fnusb_open_subdevices_def
  apply (rule triple_bind [where R = "\<lambda>_. hs lk B (None, None, None) []"])
   apply (simp add: set_dev_def triple_def modify_def hs_def slot_handles_def)
  apply (rule triple_bind [OF get_device_list_rule])
  apply (simp only: option.case_eq_if)
  apply (rule triple_if)
   apply (rule triple_return, simp add: opened_def hs_def handles_def slot_handles_def)
  apply (rule triple_bind [OF triple_slots' [OF camera_loop_rule]])
  apply (rule triple_in_state)
  apply (rule triple_bind [where R = "\<lambda>_. slots_ok lk B"])
   apply (rule slots_in_state, assumption)
   apply (rule triple_if)
    apply (rule triple_return, assumption)
   apply (rule triple_if)
    apply (rule triple_bind [OF triple_slots [OF triple_to_slots [OF undefined_use_rule]] motor_audio_loop_rule [OF assms]])
   apply (rule triple_if [OF triple_return motor_audio_loop_rule [OF assms]], assumption)
  apply (rule check_subdevices_rule)
  done

lemma close_subdevices_rule:
  "triple (slots_ok lk B) (fnusb_close_subdevices ops)
     (\<lambda>res w. res = 0 \<and> handles lk B [] w \<and> sd_cam (uw_dev w) = None \<and> sd_motor (uw_dev w) = None \<and> sd_audio (uw_dev w) = None)"
  unfolding fnusb_close_subdevices_def
proof (rule triple_in_state, goal_cases)
  case (1 v)
  let ?h = "\<lambda>f. opt_list (f (uw_dev v))"
  have start: "handles lk B (?h sd_cam @ ?h sd_motor @ ?h sd_audio @ []) v"
    using hs_handles [OF slots_now [OF 1]] by (simp only: slot_handles_def fst_conv snd_conv append_Nil2)
  show ?case
    apply (rule triple_pre [OF triple_bind [OF close_one_rule]])
     apply (rule triple_bind [OF close_one_rule])
     apply (rule triple_bind [OF close_one_rule [where X = "[]" and lk = lk and B = B]])
     apply (simp add: set_dev_def modify_def triple_def handles_def)
    using start apply simp
    done
qed

section \<open>The device properties\<close>

text \<open>Every handle in use is an old one.\<close>

definition world_ok :: "'u usb_world \<Rightarrow> bool" where
  "world_ok w \<longleftrightarrow> \<not> uw_bad_handle w \<and> (\<forall>h \<in> uw_open w. h < uw_next w)"

lemma open_subdevices_opened:
  assumes "world_ok w" and "run_state (fnusb_open_subdevices ops index) w = (res, w')" and "lk \<or> two_interfaces ops"
  shows "opened lk (uw_open w) res w'"
  using tripleD [OF open_subdevices_rule [OF assms(3), of "uw_open w"] _ assms(2)] assms(1) by (simp add: world_ok_def)

text \<open>What was asked for is not forgotten.  Only \<open>setup_newer_device\<close> changes the flags of the
  context: it drops the motor flag, and then the audio function stands in for the motor.\<close>

definition flags :: "(u32 \<Rightarrow> bool \<Rightarrow> bool) \<Rightarrow> 'u usb_world \<Rightarrow> bool" where
  "flags P w \<longleftrightarrow> P (uw_enabled w) (sd_motor_control_with_audio (uw_dev w))"

definition asked :: "u32 \<Rightarrow> u32 \<Rightarrow> bool \<Rightarrow> bool" where
  "asked e enabled with_audio \<longleftrightarrow>
     (e AND FREENECT_DEVICE_CAMERA \<noteq> 0 \<longrightarrow> enabled AND FREENECT_DEVICE_CAMERA \<noteq> 0)
     \<and> (e AND FREENECT_DEVICE_AUDIO \<noteq> 0 \<longrightarrow> enabled AND FREENECT_DEVICE_AUDIO \<noteq> 0)
     \<and> (e AND FREENECT_DEVICE_MOTOR \<noteq> 0 \<longrightarrow> enabled AND FREENECT_DEVICE_MOTOR \<noteq> 0
          \<or> with_audio \<and> enabled AND FREENECT_DEVICE_AUDIO \<noteq> 0)"

definition keeps_flags :: "(u32 \<Rightarrow> bool \<Rightarrow> bool) \<Rightarrow> ('u, 'a) usb \<Rightarrow> bool" where
  "keeps_flags P m \<longleftrightarrow> triple (flags P) m (\<lambda>_. flags P)"

named_theorems flag_rules \<open>operations that keep what was asked for\<close>

lemma keeps_flags_structure [flag_rules]:
  fixes m n :: "('u, 'a) usb" and l :: "('u, 'b) usb" and k :: "'c \<Rightarrow> 'd \<Rightarrow> ('u, 'a) usb"
  shows "keeps_flags P (State_Monad.return x :: ('u, 'a) usb)" "keeps_flags P (State_Monad.get :: ('u, 'u usb_world) usb)"
    "keeps_flags P l \<Longrightarrow> (\<And>y. keeps_flags P (f y)) \<Longrightarrow> keeps_flags P (State_Monad.bind l f :: ('u, 'a) usb)"
    "(b \<Longrightarrow> keeps_flags P m) \<Longrightarrow> (\<not> b \<Longrightarrow> keeps_flags P n) \<Longrightarrow> keeps_flags P (if b then m else n)"
    "keeps_flags P m \<Longrightarrow> (\<And>z. keeps_flags P (g z)) \<Longrightarrow> keeps_flags P (case o' of None \<Rightarrow> m | Some z \<Rightarrow> g z)"
    "(\<And>c d. keeps_flags P (k c d)) \<Longrightarrow> keeps_flags P (case q of (c, d) \<Rightarrow> k c d)"
  by (auto simp: keeps_flags_def triple_def split_beta split: option.split)

lemma keeps_flags_same:
  "(\<And>w. uw_enabled (snd (run_state m w)) = uw_enabled w
      \<and> sd_motor_control_with_audio (uw_dev (snd (run_state m w))) = sd_motor_control_with_audio (uw_dev w))
    \<Longrightarrow> keeps_flags P m"
  by (simp add: keeps_flags_def triple_def flags_def)

lemma keeps_flags_requests [flag_rules]:
  "keeps_flags P (request ops rq)" "keeps_flags P (touch a)" "keeps_flags P (libusb_open ops i)"
  "keeps_flags P (get_string ops a j)" "keeps_flags P (get_device_list ops)" "keeps_flags P (on_handle ops rh a)"
  "keeps_flags P (libusb_close ops a)" "keeps_flags P undefined_use" "keeps_flags P (set_led_green ops a)"
  "keeps_flags P enable_audio_motor" "keeps_flags P (upload_to_audio ops d a)"
  by (rule keeps_flags_same;
      simp add: request_def touch_def modify_def libusb_open_def get_string_def get_device_list_def on_handle_def set_dev_def
        libusb_close_def undefined_use_def set_led_green_def enable_audio_motor_def upload_to_audio_def Let_def split_beta
        split: option.split)+

lemma keeps_flags_set_dev [flag_rules]:
  "(\<And>sd. sd_motor_control_with_audio (f sd) = sd_motor_control_with_audio sd) \<Longrightarrow> keeps_flags P (set_dev f)"
  by (rule keeps_flags_same) (simp add: set_dev_def modify_def)

lemma keeps_flags_modify [flag_rules]:
  "(\<And>w. uw_enabled (f w) = uw_enabled w \<and> uw_dev (f w) = uw_dev w) \<Longrightarrow> keeps_flags P (modify f)"
  by (rule keeps_flags_same) (simp add: modify_def)

lemma keeps_flags_wake_audio [flag_rules]: "keeps_flags P (wake_audio ops j)"
  unfolding wake_audio_def by (intro flag_rules)

lemma enabled_bits:
  fixes x :: u32
  shows "(x AND NOT FREENECT_DEVICE_MOTOR) AND FREENECT_DEVICE_CAMERA = x AND FREENECT_DEVICE_CAMERA"
    "(x AND NOT FREENECT_DEVICE_MOTOR) AND FREENECT_DEVICE_AUDIO = x AND FREENECT_DEVICE_AUDIO"
    "(x OR FREENECT_DEVICE_AUDIO) AND FREENECT_DEVICE_CAMERA = x AND FREENECT_DEVICE_CAMERA"
    "(x OR FREENECT_DEVICE_AUDIO) AND FREENECT_DEVICE_AUDIO = FREENECT_DEVICE_AUDIO"
    "(x OR FREENECT_DEVICE_AUDIO) AND FREENECT_DEVICE_MOTOR = x AND FREENECT_DEVICE_MOTOR"
    "FREENECT_DEVICE_AUDIO \<noteq> 0"
  by (simp_all add: FREENECT_DEVICE_MOTOR_def FREENECT_DEVICE_CAMERA_def FREENECT_DEVICE_AUDIO_def and.assoc
      bit.conj_disj_distrib2)

lemma keeps_flags_setup_newer_device [flag_rules]: "keeps_flags (asked e) (setup_newer_device ops devs d)"
proof -
  define P where "P v enabled with_audio \<longleftrightarrow> enabled = uw_enabled v AND NOT FREENECT_DEVICE_MOTOR \<and> with_audio"
    for v :: "'a usb_world" and enabled with_audio
  have wake: "triple (flags (P v)) (case o' of None \<Rightarrow> State_Monad.return () | Some j \<Rightarrow> wake_audio ops j) (\<lambda>_. flags (P v))" for v o'
    unfolding keeps_flags_def [symmetric] by (intro flag_rules)
  have add: "triple (flags (P v)) (if uw_enabled v AND FREENECT_DEVICE_MOTOR \<noteq> 0 \<and> uw_enabled v AND FREENECT_DEVICE_AUDIO = 0
       then modify (\<lambda>w. w\<lparr>uw_enabled := uw_enabled w OR FREENECT_DEVICE_AUDIO\<rparr>) else State_Monad.return ()) (\<lambda>_. flags (asked e))"
    if "flags (asked e) v" for v
    by (rule triple_if; (rule triple_modify | rule triple_return))
       (use that enabled_bits in \<open>auto simp: flags_def P_def asked_def\<close>)
  show ?thesis
    unfolding keeps_flags_def setup_newer_device_def Let_def
    apply (rule triple_in_state)
    subgoal for v
      apply (rule triple_bind [where R = "\<lambda>_ w. uw_enabled w = uw_enabled v AND NOT FREENECT_DEVICE_MOTOR"])
       apply (rule triple_modify, simp)
      apply (rule triple_bind [where R = "\<lambda>_. flags (P v)"])
       apply (unfold set_dev_def, rule triple_modify, simp add: flags_def P_def)
      apply (rule triple_bind [OF wake add])
      apply assumption
      done
    done
qed

lemma keeps_flags_close_camera [flag_rules]: "keeps_flags P (close_camera ops c)"
  unfolding close_camera_def by (intro flag_rules) simp

lemma keeps_flags_open_camera [flag_rules]: "keeps_flags (asked e) (open_camera ops devs i d)"
  unfolding open_camera_def by (intro flag_rules; simp)

lemma keeps_flags_camera_loop [flag_rules]: "keeps_flags (asked e) (camera_loop ops devs index ds nr res)"
proof (induction ds arbitrary: nr res)
  case (Cons p ds)
  then show ?case by (cases p) (simp only: camera_loop.simps, intro flag_rules)
qed (simp add: flag_rules)

lemma keeps_flags_open_motor [flag_rules]: "keeps_flags P (open_motor ops i)"
  unfolding open_motor_def by (intro flag_rules; simp)

lemma keeps_flags_find_restarted [flag_rules]: "keeps_flags P (find_restarted ops desc serial ds)"
proof (induction ds)
  case (Cons p ds)
  then show ?case by (cases p) (simp only: find_restarted.simps, intro flag_rules; simp)
qed (simp add: flag_rules)

lemma keeps_flags_wait_restarted [flag_rules]: "keeps_flags P (wait_restarted ops desc serial n)"
  by (induction n) (simp_all only: wait_restarted.simps, (intro flag_rules; assumption?)+)

lemma keeps_flags_open_audio [flag_rules]: "keeps_flags P (open_audio ops i d)"
  unfolding open_audio_def restart_with_firmware_def by (intro flag_rules; simp)

lemma keeps_flags_motor_audio_loop [flag_rules]: "keeps_flags P (motor_audio_loop ops index ds nr_mot nr_audio)"
proof (induction ds arbitrary: nr_mot nr_audio)
  case (Cons p ds)
  then show ?case
    by (cases p) (simp only: motor_audio_loop.simps motor_part_def audio_part_def, intro flag_rules)
qed (simp add: flag_rules)

lemma keeps_flags_check_subdevices [flag_rules]: "keeps_flags P (check_subdevices ops)"
  unfolding check_subdevices_def release_and_close_def by (intro flag_rules)

lemma keeps_flags_open_subdevices:
  "triple (\<lambda>w. uw_enabled w = e) (fnusb_open_subdevices ops index) (\<lambda>_. flags (asked e))"
proof -
  have start: "triple (\<lambda>w. uw_enabled w = e) (set_dev f) (\<lambda>_. flags (asked e))" for f
    unfolding set_dev_def by (rule triple_modify) (simp add: flags_def asked_def)
  show ?thesis
    unfolding fnusb_open_subdevices_def
    by (rule triple_bind [OF start], fold keeps_flags_def, intro flag_rules)
qed

text \<open>A slot holds a handle that was opened between the two states.\<close>

definition opened_for :: "(subdevices \<Rightarrow> nat option) \<Rightarrow> 'u usb_world \<Rightarrow> 'u usb_world \<Rightarrow> bool" where
  "opened_for slot w w' \<longleftrightarrow> (\<exists>h. slot (uw_dev w') = Some h \<and> h \<in> uw_open w' - uw_open w)"

text \<open>C21: Opening the subdevices of a Kinect never uses a handle that is not open (a device, LED,
  firmware or interface call on a closed handle), whatever the host answers: after a failed claim,
  a reset, a firmware upload that restarts the audio device, or a search that finds several
  devices.  It closes no handle that was open before and its result is 0 or -1.  With the result 0,
  every subdevice the context asked for when the call began has a handle opened by the call: the
  camera, the audio function, and the motor, or for the newer devices (which have no separate
  motor) the audio function that controls the motor.\<close>

theorem open_subdevices_handles:
  assumes "world_ok w" and "run_state (fnusb_open_subdevices ops index) w = (res, w')"
  shows "\<not> uw_bad_handle w' \<and> uw_open w \<subseteq> uw_open w' \<and> res \<in> {0, -1}
    \<and> (res = 0 \<longrightarrow>
        (uw_enabled w AND FREENECT_DEVICE_CAMERA \<noteq> 0 \<longrightarrow> opened_for sd_cam w w')
      \<and> (uw_enabled w AND FREENECT_DEVICE_AUDIO \<noteq> 0 \<longrightarrow> opened_for sd_audio w w')
      \<and> (uw_enabled w AND FREENECT_DEVICE_MOTOR \<noteq> 0 \<longrightarrow>
           opened_for sd_motor w w' \<or> sd_motor_control_with_audio (uw_dev w') \<and> opened_for sd_audio w w'))"
proof -
  have op: "opened True (uw_open w) res w'" using open_subdevices_opened [OF assms(1,2), of True] by simp
  have fl: "asked (uw_enabled w) (uw_enabled w') (sd_motor_control_with_audio (uw_dev w'))"
    using tripleD [OF keeps_flags_open_subdevices _ assms(2)] by (simp add: flags_def)
  have new: "opened_for sd_cam w w' \<longleftrightarrow> sd_cam (uw_dev w') \<noteq> None" "opened_for sd_motor w w' \<longleftrightarrow> sd_motor (uw_dev w') \<noteq> None"
    "opened_for sd_audio w w' \<longleftrightarrow> sd_audio (uw_dev w') \<noteq> None" if "slots_ok True (uw_open w) w'"
    using that by (auto simp: opened_for_def slots_ok_def hs_def slot_handles_def opt_list_def split: option.splits)
  have "res = 0 \<Longrightarrow> slots_ok True (uw_open w) w' \<and> subdevices_complete w'" using op by (auto simp: opened_def)
  then show ?thesis
    using op fl by (auto simp: opened_def slots_ok_def hs_def handles_def asked_def new subdevices_complete_def)
qed

lemma slots_handles: "slots_ok lk B w \<Longrightarrow> \<exists>X. handles lk B X w"
  using hs_handles slots_now by blast

text \<open>C40: Opening and then closing a Kinect leaves no device handle behind when every audio device
  already runs its firmware (its two interfaces show it): a failed open closes all it opened, and after a
  successful one \<open>fnusb_close_subdevices\<close> closes exactly the handles of the device, uses none that
  is closed, and clears its slots; every handle open before is still open.\<close>

theorem open_close_subdevices:
  assumes "world_ok w" and "two_interfaces ops" and "run_state (fnusb_open_subdevices ops index) w = (res, w1)"
    and "run_state (fnusb_close_subdevices ops) w1 = (r, w2)"
  shows "(res = 0 \<and> r = 0 \<and> uw_open w2 = uw_open w \<and> \<not> uw_bad_handle w2 \<and> sd_cam (uw_dev w2) = None
           \<and> sd_motor (uw_dev w2) = None \<and> sd_audio (uw_dev w2) = None)
     \<or> (res = -1 \<and> uw_open w1 = uw_open w \<and> \<not> uw_bad_handle w1)"
proof -
  have "opened False (uw_open w) res w1" by (rule open_subdevices_opened [OF assms(1,3)]) (simp add: assms(2))
  then show ?thesis
    unfolding opened_def
    using tripleD [OF close_subdevices_rule [of False "uw_open w"] _ assms(4)]
    by (auto simp: handles_def)
qed

lemma undefined_stays:
  "triple uw_undefined (request ops rq) (\<lambda>_. uw_undefined)"
  "triple uw_undefined (touch a) (\<lambda>_. uw_undefined)"
  "triple uw_undefined (modify (\<lambda>w. w\<lparr>uw_open := uw_open w - X\<rparr>)) (\<lambda>_. uw_undefined)"
  by (simp_all add: triple_def request_def touch_def modify_def split_beta)

lemma release_undefined: "triple uw_undefined (release_and_close ops h) (\<lambda>_. uw_undefined)"
  unfolding release_and_close_def libusb_close_def on_handle_def
  by (cases h) (auto intro!: triple_return triple_bind [OF undefined_stays(1)] triple_bind [OF undefined_stays(2)]
      undefined_stays simp: State_Monad.bind_assoc)

lemma check_undefined: "uw_undefined v \<Longrightarrow> uw_undefined (snd (run_state (check_subdevices ops) v))"
proof -
  assume v: "uw_undefined v"
  have "triple uw_undefined (check_subdevices ops) (\<lambda>_. uw_undefined)"
    unfolding check_subdevices_def
    apply (rule triple_in_state)
    apply (rule triple_pre [where P = uw_undefined])
     apply (rule triple_if, rule triple_return, assumption)
     apply (rule triple_bind [OF release_undefined])+
     apply (rule triple_return, assumption)
    apply simp
    done
  then show ?thesis using v by (simp add: triple_def)
qed

lemma camera_loop_none:
  "(\<forall>(i, d) \<in> set ds. ud_desc_res d < 0 \<or> ud_vendor d \<noteq> VID_MICROSOFT)
    \<Longrightarrow> camera_loop ops devs index ds nr res = State_Monad.return res"
  by (induction ds) auto

lemma motor_audio_loop_none:
  "(\<forall>(i, d) \<in> set ds. ud_desc_res d < 0 \<or> ud_vendor d \<noteq> VID_MICROSOFT)
    \<Longrightarrow> motor_audio_loop ops index ds nr_mot nr_audio = State_Monad.return ()"
  by (induction ds) auto

text \<open>When no Microsoft device is attached (or none can be described), and more than the camera
  is asked for, \<open>fnusb_open_subdevices\<close> tests a result variable that no statement has assigned.\<close>

lemma open_without_kinect_undefined:
  assumes "host_devices ops (uw_host w) = (Some ds, u)"
    and "\<forall>d \<in> set ds. ud_desc_res d < 0 \<or> ud_vendor d \<noteq> VID_MICROSOFT"
    and "uw_enabled w \<noteq> FREENECT_DEVICE_CAMERA"
  shows "uw_undefined (snd (run_state (fnusb_open_subdevices ops index) w))"
proof -
  have none: "\<forall>(i, d) \<in> set (enumerate 0 ds). ud_desc_res d < 0 \<or> ud_vendor d \<noteq> VID_MICROSOFT"
    using assms(2) by (auto simp: in_set_enumerate_eq)
  have keeps: "uw_undefined (snd (run_state (check_subdevices ops) v))" if "uw_undefined v" for v
    using that by (rule check_undefined)
  show ?thesis
    using assms(1,3)
    by (simp add: fnusb_open_subdevices_def set_dev_def modify_def get_device_list_def undefined_use_def
        camera_loop_none [OF none] motor_audio_loop_none [OF none] keeps)
qed

section \<open>Witnesses and examples\<close>

text \<open>A host on which every request succeeds, with a fixed device list, number of interfaces and
  serial number text; there are no firmware files.\<close>

definition steady_host :: "usb_device list \<Rightarrow> int \<Rightarrow> int \<times> string \<Rightarrow> unit usb_host" where
  "steady_host devs n text =
     \<lparr>ctl_out = (\<lambda>_ _ _ _ xs u. (int (length xs), u)), ctl_in = (\<lambda>_ _ _ _ _ u. (Inr [], u)),
      bulk_out = (\<lambda>_ xs _ u. ((0, length xs), u)), bulk_in = (\<lambda>_ _ _ u. ((0, []), u)),
      host_request = (\<lambda>rq u. (case rq of Num_Interfaces _ \<Rightarrow> n | _ \<Rightarrow> 0, u)),
      host_string = (\<lambda>_ _ u. (text, u)), host_devices = (\<lambda>u. (Some devs, u)),
      host_files = \<lparr>fe_getenv = (\<lambda>_. None), fe_file = (\<lambda>_. None), fe_errno = 2\<rparr>\<rparr>"

definition plain_device :: "int \<Rightarrow> int \<Rightarrow> usb_device" where
  "plain_device vendor product' = \<lparr>ud_desc_res = 0, ud_vendor = vendor, ud_product = product', ud_bcd_device = 267,
     ud_serial_index = 3, ud_bus = 1, ud_parent = 1\<rparr>"

definition fresh_world :: "u32 \<Rightarrow> unit usb_world" where
  "fresh_world enabled = \<lparr>uw_host = (), uw_next = 1, uw_open = {0}, uw_bad_handle = False, uw_undefined = False,
     uw_enabled = enabled, uw_zero_plane_res = 0, uw_fw_nui = None, uw_fw_k4w = None, uw_tag_seq = 0, uw_tag_next_ack = 0,
     uw_dev = \<lparr>sd_cam = None, sd_cam_pid = 0, sd_motor = None, sd_audio = None, sd_audio_pid = 0,
       sd_motor_control_with_audio = False, sd_motor_control_enabled = False, sd_audio_tag = 0\<rparr>\<rparr>"

definition kinect_1414 :: "usb_device list" where
  "kinect_1414 = [plain_device 0x1d6b 2, plain_device 0x45e 0x02b0, plain_device 0x45e 0x02ad, plain_device 0x45e 0x02ae]"

lemmas usb_ids = VID_MICROSOFT_def PID_NUI_AUDIO_def PID_NUI_CAMERA_def PID_NUI_MOTOR_def PID_K4W_AUDIO_def
  PID_K4W_AUDIO_ALT_1_def PID_K4W_AUDIO_ALT_2_def PID_K4W_CAMERA_def FREENECT_DEVICE_MOTOR_def FREENECT_DEVICE_CAMERA_def
  FREENECT_DEVICE_AUDIO_def fnusb_is_pid_k4w_audio_def

lemmas usb_runs = set_dev_def modify_def get_device_list_def request_def on_handle_def touch_def libusb_open_def
  libusb_close_def get_string_def undefined_use_def release_and_close_def close_one_def

lemmas usb_opens = fnusb_open_subdevices_def open_camera_def open_motor_def open_audio_def motor_part_def audio_part_def
  enable_audio_motor_def check_subdevices_def subdevices_complete_def fnusb_close_subdevices_def

lemma open_1414:
  "run_state (fnusb_open_subdevices (steady_host kinect_1414 2 (0, [])) 0) (fresh_world 7)
     = (0, (fresh_world 7)\<lparr>uw_next := 4, uw_open := {0, 1, 2, 3}, uw_zero_plane_res := 322,
         uw_dev := \<lparr>sd_cam = Some 1, sd_cam_pid = 0x02ae, sd_motor = Some 2, sd_audio = Some 3, sd_audio_pid = 0x02ad,
           sd_motor_control_with_audio = False, sd_motor_control_enabled = False, sd_audio_tag = 0\<rparr>\<rparr>)"
  by (simp add: usb_opens usb_runs usb_ids steady_host_def kinect_1414_def plain_device_def fresh_world_def insert_commute)
     (simp add: numeral_2_eq_2 numeral_3_eq_3)

lemma fresh_world_ok: "world_ok (fresh_world e)"
  by (simp add: world_ok_def fresh_world_def)

text \<open>On the older Kinect all three are opened.  The newer one (product 02be, 02bf) has no separate
  motor: its audio function stands in.\<close>

theorem open_subdevices_handles_witness:
  "\<exists>w'. run_state (fnusb_open_subdevices (steady_host kinect_1414 2 (0, [])) 0) (fresh_world 7) = (0, w')
    \<and> (\<forall>f \<in> {sd_cam, sd_audio, sd_motor}. \<exists>h. f (uw_dev w') = Some h \<and> h \<in> uw_open w' - {0})"
  (is "\<exists>w'. ?run = (0, w') \<and> ?new w'")
proof -
  have "?new (snd ?run)"
    using open_subdevices_handles [OF fresh_world_ok open_1414]
    by (simp only: open_1414 snd_conv)
       (simp add: opened_for_def fresh_world_def FREENECT_DEVICE_MOTOR_def FREENECT_DEVICE_CAMERA_def FREENECT_DEVICE_AUDIO_def)
  moreover have "?run = (0, snd ?run)" by (simp only: open_1414 snd_conv)
  ultimately show ?thesis by blast
qed

theorem open_close_subdevices_witness:
  "uw_open (snd (run_state (fnusb_close_subdevices (steady_host kinect_1414 2 (0, [])))
     (snd (run_state (fnusb_open_subdevices (steady_host kinect_1414 2 (0, [])) 0) (fresh_world 7))))) = {0}"
proof -
  have two: "two_interfaces (steady_host kinect_1414 2 (0, []))" by (simp add: two_interfaces_def steady_host_def)
  obtain r w2 where c: "run_state (fnusb_close_subdevices (steady_host kinect_1414 2 (0, [])))
      (snd (run_state (fnusb_open_subdevices (steady_host kinect_1414 2 (0, [])) 0) (fresh_world 7))) = (r, w2)" by fastforce
  from open_close_subdevices [OF fresh_world_ok two open_1414, of r w2] c show ?thesis
    by (simp add: open_1414) (simp add: fresh_world_def)
qed

lemma open_without_kinect_undefined_example:
  "uw_undefined (snd (run_state (fnusb_open_subdevices (steady_host [plain_device 0x1d6b 2] 2 (0, [])) 0) (fresh_world 7)))"
  by (rule open_without_kinect_undefined [where ds = "[plain_device 0x1d6b 2]" and u = "()"])
     (simp_all add: steady_host_def plain_device_def fresh_world_def usb_ids)

text \<open>An audio device that stays in its boot loader, because its serial number cannot be read (or the firmware
  upload fails), counts as opened: the loop is left with the handle of the boot loader in the slot.\<close>

lemma boot_loader_counts_as_open:
  "run_state (fnusb_open_subdevices (steady_host [plain_device 0x45e 0x02ad] 1 (-1, [])) 0) (fresh_world 4)
     = (0, (fresh_world 4)\<lparr>uw_next := 2, uw_open := {0, 1}, uw_dev :=
         \<lparr>sd_cam = None, sd_cam_pid = 0, sd_motor = None, sd_audio = Some 1, sd_audio_pid = 0x02ad,
          sd_motor_control_with_audio = False, sd_motor_control_enabled = False, sd_audio_tag = 0\<rparr>\<rparr>)"
  by (simp add: usb_opens usb_runs usb_ids steady_host_def restart_with_firmware_def plain_device_def fresh_world_def
      insert_commute)

text \<open>A device with another serial number, met in the search for the restarted one, stays open.\<close>

lemma serial_mismatch_stays_open:
  "run_state (find_restarted (steady_host [] 2 (3, ''abc'')) (plain_device 0x45e 0x02ad) ''xyz'' [(0, plain_device 0x45e 0x02ad)]) (fresh_world 7)
     = ((), (fresh_world 7)\<lparr>uw_next := 2, uw_open := {0, 1}\<rparr>)"
  by (simp add: usb_runs usb_ids steady_host_def plain_device_def fresh_world_def insert_commute)

end
