(* ===== verification/CMemory.thy ===== *)
theory CMemory
  imports Prelude
begin

text \<open>
  The heap the C code allocates its buffers on: a block per pointer, each a byte list,
  \<open>malloc\<close>, \<open>free\<close>, \<open>memcpy\<close> into a block and reads from it.  Pointer 0 is NULL.  A fault
  (access outside a live block, double free) is \<open>None\<close>.  The contents of a fresh block are
  not determined by C; they are the field \<open>junk\<close>, any function of the address and offset.
  Allocation succeeds: the code checks none of the results modelled here.
\<close>

type_synonym ptr = nat

abbreviation (input) NULL :: ptr where "NULL \<equiv> 0"

record heap =
  blocks :: "ptr \<Rightarrow> bytes option"
  next_ptr :: ptr
  junk :: "ptr \<Rightarrow> nat \<Rightarrow> u8"

definition heap_wf :: "heap \<Rightarrow> bool" where
  "heap_wf h \<longleftrightarrow> 0 < next_ptr h \<and> blocks h NULL = None
     \<and> (\<forall>p \<ge> next_ptr h. blocks h p = None)"

definition malloc :: "nat \<Rightarrow> heap \<Rightarrow> ptr \<times> heap" where
  "malloc n h = (next_ptr h,
     h\<lparr>blocks := (blocks h)(next_ptr h := Some (map (junk h (next_ptr h)) [0..<n])),
       next_ptr := Suc (next_ptr h)\<rparr>)"

definition free :: "ptr \<Rightarrow> heap \<Rightarrow> heap option" where
  "free p h =
     (if p = NULL then Some h
      else case blocks h p of None \<Rightarrow> None
           | Some _ \<Rightarrow> Some (h\<lparr>blocks := (blocks h)(p := None)\<rparr>))"

definition store :: "ptr \<Rightarrow> bytes \<Rightarrow> heap \<Rightarrow> heap" where
  "store p bs h = h\<lparr>blocks := (blocks h)(p := Some bs)\<rparr>"

definition mem_write :: "ptr \<Rightarrow> nat \<Rightarrow> bytes \<Rightarrow> heap \<Rightarrow> heap option" where
  "mem_write p off src h =
     (case blocks h p of None \<Rightarrow> None
      | Some buf \<Rightarrow> map_option (\<lambda>buf'. store p buf' h) (put_bytes off src buf))"

definition mem_read :: "ptr \<Rightarrow> nat \<Rightarrow> nat \<Rightarrow> heap \<Rightarrow> bytes option" where
  "mem_read p off n h =
     (case blocks h p of None \<Rightarrow> None | Some buf \<Rightarrow> get_bytes off n buf)"

definition block_size :: "heap \<Rightarrow> ptr \<Rightarrow> nat option" where
  "block_size h p = map_option length (blocks h p)"

section \<open>Allocation\<close>

lemma malloc_wf: "heap_wf h \<Longrightarrow> malloc n h = (p, h') \<Longrightarrow> heap_wf h'"
  by (auto simp: malloc_def heap_wf_def)

lemma malloc_fresh: "heap_wf h \<Longrightarrow> malloc n h = (p, h') \<Longrightarrow> p \<noteq> NULL \<and> blocks h p = None"
  by (auto simp: malloc_def heap_wf_def)

lemma malloc_block_size:
  "malloc n h = (p, h') \<Longrightarrow> block_size h' q = (if q = p then Some n else block_size h q)"
  by (auto simp: malloc_def block_size_def)

lemma malloc_other: "malloc n h = (p, h') \<Longrightarrow> q \<noteq> p \<Longrightarrow> blocks h' q = blocks h q"
  by (auto simp: malloc_def)

lemma malloc_dom: "malloc n h = (p, h') \<Longrightarrow> dom (blocks h') = insert p (dom (blocks h))"
  by (auto simp: malloc_def)

lemma free_dom: "free p h = Some h' \<Longrightarrow> dom (blocks h') = dom (blocks h) - ({p} - {NULL})"
  by (auto simp: free_def split: if_splits option.splits)

lemma free_ok: "p \<in> dom (blocks h) \<Longrightarrow> \<exists>h'. free p h = Some h'"
  by (auto simp: free_def)

lemma free_other: "free p h = Some h' \<Longrightarrow> q \<noteq> p \<Longrightarrow> blocks h' q = blocks h q"
  by (auto simp: free_def split: if_splits option.splits)

lemma free_removes: "free p h = Some h' \<Longrightarrow> p \<noteq> NULL \<Longrightarrow> blocks h' p = None"
  by (auto simp: free_def split: if_splits option.splits)

lemma free_wf: "heap_wf h \<Longrightarrow> free p h = Some h' \<Longrightarrow> heap_wf h'"
  by (auto simp: free_def heap_wf_def split: if_splits option.splits)

lemma free_NULL [simp]: "free NULL h = Some h"
  by (simp add: free_def)

lemma double_free_faults: "p \<noteq> NULL \<Longrightarrow> free p h = Some h' \<Longrightarrow> free p h' = None"
  by (auto simp: free_def split: option.splits)

lemma block_size_live: "block_size h p \<noteq> None \<longleftrightarrow> blocks h p \<noteq> None"
  by (simp add: block_size_def)

section \<open>Accesses\<close>

lemma mem_write_ok:
  "block_size h p = Some n \<Longrightarrow> off + length src \<le> n \<Longrightarrow>
     \<exists>buf. blocks h p = Some buf \<and> length buf = n \<and>
       mem_write p off src h = Some (store p (take off buf @ src @ drop (off + length src) buf) h)"
  by (auto simp: block_size_def mem_write_def put_bytes_def)

lemma mem_write_block_size: "mem_write p off src h = Some h' \<Longrightarrow> block_size h' q = block_size h q"
  by (auto simp: mem_write_def store_def block_size_def length_put_bytes split: option.splits)

lemma mem_write_other: "mem_write p off src h = Some h' \<Longrightarrow> q \<noteq> p \<Longrightarrow> blocks h' q = blocks h q"
  by (auto simp: mem_write_def store_def split: option.splits)

lemma mem_read_ok:
  "block_size h p = Some n \<Longrightarrow> off + k \<le> n \<Longrightarrow> \<exists>xs. mem_read p off k h = Some xs \<and> length xs = k"
  by (auto simp: block_size_def mem_read_def get_bytes_def)

lemma store_block_size:
  "block_size h p = Some n \<Longrightarrow> length bs = n \<Longrightarrow> block_size (store p bs h) q = block_size h q"
  by (auto simp: store_def block_size_def)

lemma store_wf: "heap_wf h \<Longrightarrow> blocks h p \<noteq> None \<Longrightarrow> heap_wf (store p bs h)"
  by (auto simp: store_def heap_wf_def intro!: gr0I)

lemma mem_write_wf: "heap_wf h \<Longrightarrow> mem_write p off src h = Some h' \<Longrightarrow> heap_wf h'"
  by (auto simp: mem_write_def intro!: store_wf split: option.splits)

lemma store_other: "q \<noteq> p \<Longrightarrow> blocks (store p bs h) q = blocks h q"
  by (simp add: store_def)

lemma store_same [simp]: "blocks (store p bs h) p = Some bs"
  by (simp add: store_def)

end
