(* ===== verification/PacketStream.thy ===== *)
theory PacketStream
  imports CMemory
begin

text \<open>
  The isochronous packet reassembler of \<open>libfreenect/cameras.c\<close>: \<open>packet_stream\<close>
  (freenect_internal.h), \<open>stream_process\<close>, \<open>stream_init\<close>, \<open>stream_freebufs\<close> and
  \<open>stream_setbuf\<close>.  Logging is compiled out in this build and has no state.
\<close>

section \<open>State\<close>

record packet_stream =
  ps_running :: bool
  ps_flag :: u8
  ps_synced :: bool
  ps_seq :: u8
  ps_got_pkts :: int
  ps_pkt_num :: int
  ps_pkts_per_frame :: int
  ps_pkt_size :: int
  ps_frame_size :: int
  ps_last_pkt_size :: int
  ps_valid_pkts :: int
  ps_lost_pkts :: u32
  ps_valid_frames :: int
  ps_variable_length :: bool
  ps_last_timestamp :: u32
  ps_timestamp :: u32
  ps_split_bufs :: bool
  ps_lib_buf :: ptr
  ps_usr_buf :: ptr
  ps_raw_buf :: ptr
  ps_proc_buf :: ptr

text \<open>The 12-byte packet header, and the payload after it.\<close>

record pkt_hdr =
  hdr_magic0 :: u8
  hdr_magic1 :: u8
  hdr_flag :: u8
  hdr_seq :: u8
  hdr_timestamp :: u32

definition pkt_hdr_size :: nat where
  "pkt_hdr_size = 12"

definition read_pkt_hdr :: "bytes \<Rightarrow> pkt_hdr" where
  "read_pkt_hdr pkt = \<lparr>hdr_magic0 = pkt ! 0, hdr_magic1 = pkt ! 1, hdr_flag = pkt ! 3,
     hdr_seq = pkt ! 5, hdr_timestamp = le32 (pkt ! 8) (pkt ! 9) (pkt ! 10) (pkt ! 11)\<rparr>"

text \<open>
  A chunk callback (user code) receives the raw buffer, the payload, the packet number and
  the payload length; what it leaves in the raw buffer is its result.
\<close>

type_synonym chunk_cb = "bytes \<Rightarrow> bytes \<Rightarrow> int \<Rightarrow> int \<Rightarrow> bytes"

definition sof_flag :: "packet_stream \<Rightarrow> u8" where "sof_flag s = ps_flag s OR 1"
definition mof_flag :: "packet_stream \<Rightarrow> u8" where "mof_flag s = ps_flag s OR 2"
definition eof_flag :: "packet_stream \<Rightarrow> u8" where "eof_flag s = ps_flag s OR 5"

section \<open>Processing one packet\<close>

text \<open>Drop packets until a start of frame; \<open>None\<close>: not synced yet, the packet is dropped.\<close>

definition stream_sync :: "packet_stream \<Rightarrow> pkt_hdr \<Rightarrow> packet_stream option" where
  "stream_sync s hdr =
     (if \<not> ps_synced s then
        (if hdr_flag hdr \<noteq> sof_flag s then None
         else Some (s\<lparr>ps_synced := True, ps_seq := hdr_seq hdr, ps_pkt_num := 0,
                      ps_valid_pkts := 0, ps_got_pkts := 0\<rparr>))
      else Some s)"

text \<open>
  Lost packets: \<open>Inl\<close> resynchronises (the handler returns 0), \<open>Inr (got, s)\<close> goes on with
  \<open>got_frame_size\<close> bytes of a frame the gap ended (0 if it ended none).
\<close>

definition stream_lost :: "packet_stream \<Rightarrow> pkt_hdr \<Rightarrow> packet_stream + (int \<times> packet_stream)" where
  "stream_lost s hdr =
     (if ps_seq s \<noteq> hdr_seq hdr then
        (let lost = hdr_seq hdr - ps_seq s;
             s1 = s\<lparr>ps_lost_pkts := ps_lost_pkts s + ucast lost\<rparr>
         in if lost > 5 \<or> ps_variable_length s1 then Inl (s1\<lparr>ps_synced := False\<rparr>)
            else
              (let s2 = s1\<lparr>ps_seq := hdr_seq hdr\<rparr>;
                   left = ps_pkts_per_frame s2 - ps_pkt_num s2
               in if left \<le> uint lost
                  then Inr (ps_frame_size s2,
                        s2\<lparr>ps_pkt_num := uint lost - left, ps_valid_pkts := ps_got_pkts s2,
                           ps_got_pkts := 0, ps_timestamp := ps_last_timestamp s2,
                           ps_valid_frames := ps_valid_frames s2 + 1\<rparr>)
                  else Inr (0, s2\<lparr>ps_pkt_num := ps_pkt_num s2 + uint lost\<rparr>)))
      else Inr (0, s))"

definition expected_pkt_size :: "packet_stream \<Rightarrow> int" where
  "expected_pkt_size s =
     (if ps_pkt_num s = ps_pkts_per_frame s - 1 then ps_last_pkt_size s else ps_pkt_size s)"

text \<open>
  Header and length checks: \<open>Some s'\<close> is an early return of \<open>got_frame_size\<close> in state
  \<open>s'\<close>, \<open>None\<close> accepts the packet.
\<close>

definition stream_check :: "packet_stream \<Rightarrow> u8 \<Rightarrow> int \<Rightarrow> packet_stream option" where
  "stream_check s fl datalen =
     (let sof = sof_flag s; mof = mof_flag s; eof = eof_flag s;
          n = ps_pkt_num s; ppf = ps_pkts_per_frame s
      in if \<not> ps_variable_length s then
           (if \<not> (n = 0 \<and> fl = sof) \<and> \<not> (n = ppf - 1 \<and> fl = eof)
               \<and> \<not> (n > 0 \<and> n < ppf - 1 \<and> fl = mof)
            then Some (s\<lparr>ps_synced := False\<rparr>)
            else if datalen > expected_pkt_size s then Some s
            else None)
         else
           (if \<not> (n = 0 \<and> fl = sof) \<and> \<not> (n < ppf \<and> (fl = eof \<or> fl = mof))
            then Some (s\<lparr>ps_synced := False\<rparr>)
            else if datalen > expected_pkt_size s then Some (s\<lparr>ps_synced := False\<rparr>)
            else if datalen < expected_pkt_size s \<and> fl \<noteq> eof then Some (s\<lparr>ps_synced := False\<rparr>)
            else None))"

text \<open>The payload goes into the raw buffer, through the chunk callback if one is set.\<close>

definition stream_copy ::
  "heap \<Rightarrow> packet_stream \<Rightarrow> bytes \<Rightarrow> chunk_cb option \<Rightarrow> heap option" where
  "stream_copy h s data cb =
     (case cb of
        Some f \<Rightarrow>
          (case blocks h (ps_raw_buf s) of None \<Rightarrow> None
           | Some buf \<Rightarrow> Some (store (ps_raw_buf s)
                (f buf data (ps_pkt_num s) (int (length data))) h))
      | None \<Rightarrow>
          (if ps_pkt_num s * ps_pkt_size s < 0 then None
           else mem_write (ps_raw_buf s) (nat (ps_pkt_num s * ps_pkt_size s)) data h))"

definition stream_advance :: "packet_stream \<Rightarrow> pkt_hdr \<Rightarrow> int \<Rightarrow> int \<Rightarrow> int \<times> packet_stream" where
  "stream_advance s hdr datalen got =
     (let off = ps_pkt_num s * ps_pkt_size s;
          s1 = s\<lparr>ps_pkt_num := ps_pkt_num s + 1, ps_seq := ps_seq s + 1,
                 ps_got_pkts := ps_got_pkts s + 1, ps_last_timestamp := hdr_timestamp hdr\<rparr>
      in if hdr_flag hdr = eof_flag s
         then (off + (if ps_variable_length s then datalen else ps_last_pkt_size s),
               s1\<lparr>ps_pkt_num := 0, ps_valid_pkts := ps_got_pkts s1, ps_got_pkts := 0,
                  ps_timestamp := ps_last_timestamp s1,
                  ps_valid_frames := ps_valid_frames s1 + 1\<rparr>)
         else (got, s1))"

text \<open>
  The packet is a buffer of its own: a header or payload that is not all inside it is a
  fault.  The payload starts behind the header; its length is the \<open>int\<close> the code computes.
\<close>

definition fetch_hdr :: "bytes \<Rightarrow> pkt_hdr option" where
  "fetch_hdr pkt = map_option read_pkt_hdr (get_bytes 0 pkt_hdr_size pkt)"

definition fetch_data :: "bytes \<Rightarrow> int \<Rightarrow> bytes option" where
  "fetch_data pkt datalen = (if datalen < 0 then None else get_bytes pkt_hdr_size (nat datalen) pkt)"

definition stream_process ::
  "heap \<Rightarrow> packet_stream \<Rightarrow> bytes \<Rightarrow> chunk_cb option \<Rightarrow> (int \<times> packet_stream \<times> heap) option" where
  "stream_process h s pkt cb =
     (if length pkt < 12 then Some (0, s, h)
      else
        (case fetch_hdr pkt of None \<Rightarrow> None
         | Some hdr \<Rightarrow>
           (let datalen = int (length pkt) - int pkt_hdr_size
            in if hdr_magic0 hdr \<noteq> 0x52 \<or> hdr_magic1 hdr \<noteq> 0x42 then Some (0, s, h)
               else
                 case stream_sync s hdr of
                   None \<Rightarrow> Some (0, s, h)
                 | Some s1 \<Rightarrow>
                     (case stream_lost s1 hdr of
                        Inl s2 \<Rightarrow> Some (0, s2, h)
                      | Inr (got, s2) \<Rightarrow>
                          (case stream_check s2 (hdr_flag hdr) datalen of
                             Some s3 \<Rightarrow> Some (got, s3, h)
                           | None \<Rightarrow>
                               (case fetch_data pkt datalen of None \<Rightarrow> None
                                | Some data \<Rightarrow>
                                  (case stream_copy h s2 data cb of
                                     None \<Rightarrow> None
                                   | Some h' \<Rightarrow>
                                       (let (got', s4) = stream_advance s2 hdr datalen got
                                        in Some (got', s4, h')))))))))"

section \<open>Buffers of a stream\<close>

definition stream_init_bufs ::
  "heap \<Rightarrow> packet_stream \<Rightarrow> int \<Rightarrow> int \<Rightarrow> packet_stream \<times> heap" where
  "stream_init_bufs h s rlen plen =
     (let (s1, h1) =
            (if ps_usr_buf s \<noteq> NULL
             then (s\<lparr>ps_lib_buf := NULL, ps_proc_buf := ps_usr_buf s\<rparr>, h)
             else (let (p, h') = malloc (nat plen) h
                   in (s\<lparr>ps_lib_buf := p, ps_proc_buf := p\<rparr>, h')))
      in if rlen = 0
         then (s1\<lparr>ps_split_bufs := False, ps_raw_buf := ps_proc_buf s1, ps_frame_size := plen\<rparr>, h1)
         else (let (p, h') = malloc (nat rlen) h1
               in (s1\<lparr>ps_split_bufs := True, ps_raw_buf := p, ps_frame_size := rlen\<rparr>, h')))"

definition stream_init_pkts :: "packet_stream \<Rightarrow> packet_stream" where
  "stream_init_pkts s =
     (let r = ps_frame_size s mod ps_pkt_size s
      in s\<lparr>ps_last_pkt_size := (if r = 0 then ps_pkt_size s else r),
           ps_pkts_per_frame := (ps_frame_size s + ps_pkt_size s - 1) div ps_pkt_size s\<rparr>)"

definition stream_init ::
  "heap \<Rightarrow> packet_stream \<Rightarrow> int \<Rightarrow> int \<Rightarrow> packet_stream \<times> heap" where
  "stream_init h s rlen plen =
     (let (s', h') = stream_init_bufs h (s\<lparr>ps_valid_frames := 0, ps_synced := False\<rparr>) rlen plen
      in (stream_init_pkts s', h'))"

definition stream_freebufs :: "heap \<Rightarrow> packet_stream \<Rightarrow> (packet_stream \<times> heap) option" where
  "stream_freebufs h s =
     (case (if ps_split_bufs s then free (ps_raw_buf s) h else Some h) of
        None \<Rightarrow> None
      | Some h1 \<Rightarrow>
          (case (if ps_lib_buf s \<noteq> NULL then free (ps_lib_buf s) h1 else Some h1) of
             None \<Rightarrow> None
           | Some h2 \<Rightarrow>
               Some (s\<lparr>ps_raw_buf := NULL, ps_proc_buf := NULL, ps_lib_buf := NULL\<rparr>, h2)))"

definition stream_setbuf :: "packet_stream \<Rightarrow> ptr \<Rightarrow> int \<times> packet_stream" where
  "stream_setbuf s pbuf =
     (if \<not> ps_running s then (0, s\<lparr>ps_usr_buf := pbuf\<rparr>)
      else if pbuf = NULL \<and> ps_lib_buf s = NULL then (-1, s)
      else
        (let s1 = s\<lparr>ps_usr_buf := pbuf\<rparr>;
             s2 = (if pbuf = NULL then s1\<lparr>ps_proc_buf := ps_lib_buf s1\<rparr>
                   else s1\<lparr>ps_proc_buf := pbuf\<rparr>);
             s3 = (if \<not> ps_split_bufs s2 then s2\<lparr>ps_raw_buf := ps_proc_buf s2\<rparr> else s2)
         in (0, s3)))"


text \<open>With the length guard passed, header and payload lie inside the packet.\<close>

lemma read_pkt_hdr_take: "pkt_hdr_size \<le> length pkt \<Longrightarrow> read_pkt_hdr (take pkt_hdr_size pkt) = read_pkt_hdr pkt"
  by (simp add: read_pkt_hdr_def pkt_hdr_size_def)

lemma fetch_hdr_eq: "pkt_hdr_size \<le> length pkt \<Longrightarrow> fetch_hdr pkt = Some (read_pkt_hdr pkt)"
  by (simp add: fetch_hdr_def get_bytes_def read_pkt_hdr_take)

lemma fetch_data_eq:
  "pkt_hdr_size \<le> length pkt \<Longrightarrow>
     fetch_data pkt (int (length pkt) - int pkt_hdr_size) = Some (drop pkt_hdr_size pkt)"
  by (simp add: fetch_data_def get_bytes_def nat_minus_as_int)

lemma short_packet_faults: "length pkt < pkt_hdr_size \<Longrightarrow> fetch_hdr pkt = None"
  by (simp add: fetch_hdr_def get_bytes_def)

lemma stream_process_eq:
  "stream_process h s pkt cb =
     (if length pkt < pkt_hdr_size then Some (0, s, h)
      else
        (let hdr = read_pkt_hdr pkt; data = drop pkt_hdr_size pkt; datalen = int (length data)
         in if hdr_magic0 hdr \<noteq> 0x52 \<or> hdr_magic1 hdr \<noteq> 0x42 then Some (0, s, h)
            else
              case stream_sync s hdr of
                None \<Rightarrow> Some (0, s, h)
              | Some s1 \<Rightarrow>
                  (case stream_lost s1 hdr of
                     Inl s2 \<Rightarrow> Some (0, s2, h)
                   | Inr (got, s2) \<Rightarrow>
                       (case stream_check s2 (hdr_flag hdr) datalen of
                          Some s3 \<Rightarrow> Some (got, s3, h)
                        | None \<Rightarrow>
                            (case stream_copy h s2 data cb of
                               None \<Rightarrow> None
                             | Some h' \<Rightarrow>
                                 (let (got', s4) = stream_advance s2 hdr datalen got
                                  in Some (got', s4, h')))))))"
proof (cases "length pkt < pkt_hdr_size")
  case True
  then show ?thesis by (simp add: stream_process_def pkt_hdr_size_def)
next
  case False
  then have le: "pkt_hdr_size \<le> length pkt" by simp
  have "int (length pkt) - int pkt_hdr_size = int (length (drop pkt_hdr_size pkt))" using le by simp
  with False show ?thesis
    using fetch_data_eq [OF le]
    by (simp add: stream_process_def fetch_hdr_eq [OF le] Let_def pkt_hdr_size_def cong: option.case_cong sum.case_cong)
qed

section \<open>Geometry of a stream and its invariant\<close>

definition stream_geom :: "packet_stream \<Rightarrow> bool" where
  "stream_geom s \<longleftrightarrow> 0 < ps_pkt_size s \<and> 0 < ps_pkts_per_frame s
     \<and> 1 \<le> ps_last_pkt_size s \<and> ps_last_pkt_size s \<le> ps_pkt_size s
     \<and> (ps_pkts_per_frame s - 1) * ps_pkt_size s + ps_last_pkt_size s = ps_frame_size s"

definition stream_ok :: "heap \<Rightarrow> packet_stream \<Rightarrow> bool" where
  "stream_ok h s \<longleftrightarrow> stream_geom s
     \<and> (ps_synced s \<longrightarrow> 0 \<le> ps_pkt_num s \<and> ps_pkt_num s \<le> ps_pkts_per_frame s)
     \<and> (\<exists>n. block_size h (ps_raw_buf s) = Some n \<and> ps_frame_size s \<le> int n)"

definition flags_distinct :: "packet_stream \<Rightarrow> bool" where
  "flags_distinct s \<longleftrightarrow> ps_flag s AND 7 = 0"

lemma flags_distinctD:
  assumes "flags_distinct s"
  shows "sof_flag s \<noteq> mof_flag s" "sof_flag s \<noteq> eof_flag s" "mof_flag s \<noteq> eof_flag s"
proof -
  have eq: "(ps_flag s OR a) AND 7 = a AND 7" for a
    using assms by (simp add: flags_distinct_def word_ao_dist)
  have "sof_flag s AND 7 = 1" "mof_flag s AND 7 = 2" "eof_flag s AND 7 = 5"
    by (simp_all add: sof_flag_def mof_flag_def eof_flag_def eq)
  then show "sof_flag s \<noteq> mof_flag s" "sof_flag s \<noteq> eof_flag s" "mof_flag s \<noteq> eof_flag s"
    by auto
qed

text \<open>A payload no longer than expected ends inside the frame.\<close>

lemma expected_within_frame:
  assumes g: "stream_geom s" and n: "0 \<le> ps_pkt_num s" "ps_pkt_num s < ps_pkts_per_frame s"
    and d: "d \<le> expected_pkt_size s"
  shows "ps_pkt_num s * ps_pkt_size s + d \<le> ps_frame_size s"
proof (cases "ps_pkt_num s = ps_pkts_per_frame s - 1")
  case True
  then show ?thesis using g d by (simp add: stream_geom_def expected_pkt_size_def)
next
  case False
  with n have "ps_pkt_num s + 1 \<le> ps_pkts_per_frame s - 1" by simp
  then have "(ps_pkt_num s + 1) * ps_pkt_size s \<le> (ps_pkts_per_frame s - 1) * ps_pkt_size s"
    using g by (intro mult_right_mono) (auto simp: stream_geom_def)
  then show ?thesis using g d False
    by (simp add: stream_geom_def expected_pkt_size_def algebra_simps)
qed

lemma stream_sync_ok:
  "stream_geom s \<Longrightarrow> stream_sync s hdr = Some s1 \<Longrightarrow> ps_synced s1 \<and> stream_geom s1
     \<and> ps_raw_buf s1 = ps_raw_buf s \<and> ps_frame_size s1 = ps_frame_size s
     \<and> ps_variable_length s1 = ps_variable_length s \<and> ps_flag s1 = ps_flag s
     \<and> ps_pkts_per_frame s1 = ps_pkts_per_frame s
     \<and> (ps_synced s \<longrightarrow> s1 = s) \<and> (\<not> ps_synced s \<longrightarrow> ps_pkt_num s1 = 0)"
  by (auto simp: stream_sync_def stream_geom_def split: if_splits)

lemma stream_lost_ok:
  assumes "stream_lost s hdr = Inr (got, s2)" "stream_geom s"
    and "0 \<le> ps_pkt_num s" "ps_pkt_num s \<le> ps_pkts_per_frame s"
  shows "stream_geom s2 \<and> 0 \<le> ps_pkt_num s2 \<and> ps_raw_buf s2 = ps_raw_buf s
     \<and> ps_frame_size s2 = ps_frame_size s \<and> ps_flag s2 = ps_flag s
     \<and> ps_variable_length s2 = ps_variable_length s \<and> ps_synced s2 = ps_synced s
     \<and> ps_pkts_per_frame s2 = ps_pkts_per_frame s
     \<and> (got = 0 \<or> got = ps_frame_size s)"
  using assms by (auto simp: stream_lost_def Let_def stream_geom_def split: if_splits)

lemma stream_lost_Inl:
  "stream_lost s hdr = Inl s2 \<Longrightarrow> \<exists>l. s2 = s\<lparr>ps_lost_pkts := l, ps_synced := False\<rparr>"
  by (auto simp: stream_lost_def Let_def split: if_splits)

lemma stream_check_Some:
  "stream_check s fl d = Some s3 \<Longrightarrow> s3 = s\<lparr>ps_synced := False\<rparr>
     \<or> s3 = s \<and> \<not> ps_variable_length s \<and> (ps_pkt_num s = 0 \<or> ps_pkt_num s < ps_pkts_per_frame s)"
  by (auto simp: stream_check_def Let_def split: if_splits)

lemma stream_check_None:
  assumes "stream_check s fl d = None" "0 \<le> ps_pkt_num s" "stream_geom s"
  shows "ps_pkt_num s < ps_pkts_per_frame s \<and> d \<le> expected_pkt_size s"
  using assms by (auto simp: stream_check_def stream_geom_def Let_def split: if_splits)

lemma stream_copy_ok:
  assumes ok: "stream_geom s" "0 \<le> ps_pkt_num s" "ps_pkt_num s < ps_pkts_per_frame s"
    and size: "block_size h (ps_raw_buf s) = Some n" "ps_frame_size s \<le> int n"
    and d: "int (length data) \<le> expected_pkt_size s"
    and cb: "\<And>f buf x i k. cb = Some f \<Longrightarrow> length (f buf x i k) = length buf"
  shows "\<exists>h'. stream_copy h s data cb = Some h' \<and> block_size h' = block_size h"
proof (cases cb)
  case None
  have "0 \<le> ps_pkt_num s * ps_pkt_size s"
    using ok by (simp add: stream_geom_def)
  moreover have "nat (ps_pkt_num s * ps_pkt_size s) + length data \<le> n"
    using expected_within_frame [OF ok d] size calculation by linarith
  ultimately show ?thesis
    using mem_write_ok [OF size(1)] mem_write_block_size None
    by (fastforce simp: stream_copy_def not_less)
next
  case (Some f)
  from size obtain buf where "blocks h (ps_raw_buf s) = Some buf"
    by (auto simp: block_size_def)
  then show ?thesis
    using Some cb by (auto simp: stream_copy_def store_def block_size_def)
qed

lemma stream_advance_ok:
  assumes "stream_advance s hdr d got = (got', s4)" "stream_geom s" "0 \<le> ps_pkt_num s"
    "ps_pkt_num s < ps_pkts_per_frame s"
  shows "stream_geom s4 \<and> 0 \<le> ps_pkt_num s4 \<and> ps_pkt_num s4 \<le> ps_pkts_per_frame s4
    \<and> ps_raw_buf s4 = ps_raw_buf s \<and> ps_frame_size s4 = ps_frame_size s"
  using assms by (auto simp: stream_advance_def Let_def stream_geom_def split: if_splits)

lemma stream_ok_unsync:
  "stream_ok h s \<Longrightarrow> stream_ok h (s\<lparr>ps_lost_pkts := l, ps_synced := False\<rparr>)"
  by (simp add: stream_ok_def stream_geom_def)


text \<open>Safety: no packet, whatever its header and length, makes the handler touch memory
  outside the raw buffer, and the invariant is kept.\<close>

lemma stream_process_ok:
  assumes ok: "stream_ok h s"
    and cb: "\<And>f buf x i k. cb = Some f \<Longrightarrow> length (f buf x i k) = length buf"
  shows "\<exists>r s' h'. stream_process h s pkt cb = Some (r, s', h') \<and> stream_ok h' s'
    \<and> block_size h' = block_size h"
proof (cases "length pkt < pkt_hdr_size \<or> hdr_magic0 (read_pkt_hdr pkt) \<noteq> 0x52
    \<or> hdr_magic1 (read_pkt_hdr pkt) \<noteq> 0x42")
  case True
  then show ?thesis using ok by (auto simp: stream_process_eq Let_def)
next
  case hdr_ok: False
  define hdr where "hdr = read_pkt_hdr pkt"
  define data where "data = drop pkt_hdr_size pkt"
  note unf = stream_process_eq Let_def hdr_def [symmetric] data_def [symmetric]
  from ok obtain n where size: "block_size h (ps_raw_buf s) = Some n" "ps_frame_size s \<le> int n"
    by (auto simp: stream_ok_def)
  show ?thesis
  proof (cases "stream_sync s hdr")
    case None
    then show ?thesis using hdr_ok ok by (auto simp: unf)
  next
    case (Some s1)
    with ok have s1: "stream_geom s1" "0 \<le> ps_pkt_num s1" "ps_pkt_num s1 \<le> ps_pkts_per_frame s1"
      "ps_raw_buf s1 = ps_raw_buf s" "ps_frame_size s1 = ps_frame_size s"
      using stream_sync_ok [of s hdr s1] by (auto simp: stream_ok_def stream_geom_def)
    show ?thesis
    proof (cases "stream_lost s1 hdr")
      case (Inl s2)
      from stream_lost_Inl [OF Inl] have "stream_ok h s2"
        using s1 size by (auto simp: stream_ok_def stream_geom_def)
      then show ?thesis using hdr_ok Some Inl by (simp add: unf)
    next
      case (Inr p)
      then obtain got s2 where p: "stream_lost s1 hdr = Inr (got, s2)" by (cases p) auto
      note s2 = stream_lost_ok [OF p s1(1-3)]
      show ?thesis
      proof (cases "stream_check s2 (hdr_flag hdr) (int (length data))")
        case c: (Some s3)
        from stream_check_Some [OF c] have "stream_ok h s3"
          using s1 s2 size by (auto simp: stream_ok_def stream_geom_def)
        then show ?thesis using hdr_ok Some p c by (simp add: unf)
      next
        case None
        with s2 have c: "ps_pkt_num s2 < ps_pkts_per_frame s2"
          "int (length data) \<le> expected_pkt_size s2"
          using stream_check_None by blast+
        have "\<exists>h'. stream_copy h s2 data cb = Some h' \<and> block_size h' = block_size h"
          using s1 s2 c size cb by (intro stream_copy_ok [where n = n]) auto
        then obtain h' where h': "stream_copy h s2 data cb = Some h'" "block_size h' = block_size h"
          by blast
        obtain got' s4 where adv: "stream_advance s2 hdr (int (length data)) got = (got', s4)"
          by fastforce
        have "stream_geom s4 \<and> 0 \<le> ps_pkt_num s4 \<and> ps_pkt_num s4 \<le> ps_pkts_per_frame s4
            \<and> ps_raw_buf s4 = ps_raw_buf s2 \<and> ps_frame_size s4 = ps_frame_size s2"
          using stream_advance_ok [OF adv] s2 c by blast
        then have "stream_ok h' s4" using h' s1 s2 size by (auto simp: stream_ok_def)
        then show ?thesis using hdr_ok Some p None h' adv by (simp add: unf)
      qed
    qed
  qed
qed


section \<open>What the handler returns\<close>

lemma stream_advance_got:
  assumes "stream_advance s hdr d got = (got', s4)" "stream_geom s" "\<not> ps_variable_length s"
    and n: "hdr_flag hdr = eof_flag s \<Longrightarrow> ps_pkt_num s = ps_pkts_per_frame s - 1"
    and "got = 0 \<or> got = ps_frame_size s"
  shows "got' = 0 \<or> got' = ps_frame_size s"
  using assms by (auto simp: stream_advance_def stream_geom_def Let_def split: if_splits)

lemma stream_check_eof:
  assumes "stream_check s (eof_flag s) d = None" "\<not> ps_variable_length s" "flags_distinct s"
  shows "ps_pkt_num s = ps_pkts_per_frame s - 1"
  using assms flags_distinctD [of s] by (auto simp: stream_check_def Let_def split: if_splits)

lemma stream_process_cases:
  assumes "stream_process h s pkt cb = Some (r, s', h')"
  obtains (ignored) "r = 0" "s' = s" "h' = h"
  | (resync) s1 where "stream_sync s (read_pkt_hdr pkt) = Some s1"
      "stream_lost s1 (read_pkt_hdr pkt) = Inl s'" "r = 0" "h' = h"
  | (rejected) s1 s2 where "stream_sync s (read_pkt_hdr pkt) = Some s1"
      "stream_lost s1 (read_pkt_hdr pkt) = Inr (r, s2)" "h' = h"
      "stream_check s2 (hdr_flag (read_pkt_hdr pkt)) (int (length (drop pkt_hdr_size pkt))) = Some s'"
  | (accepted) s1 got s2 where "stream_sync s (read_pkt_hdr pkt) = Some s1"
      "stream_lost s1 (read_pkt_hdr pkt) = Inr (got, s2)"
      "stream_check s2 (hdr_flag (read_pkt_hdr pkt)) (int (length (drop pkt_hdr_size pkt))) = None"
      "stream_copy h s2 (drop pkt_hdr_size pkt) cb = Some h'"
      "stream_advance s2 (read_pkt_hdr pkt) (int (length (drop pkt_hdr_size pkt))) got = (r, s')"
  using assms
  by (auto simp: stream_process_eq Let_def split: if_splits option.splits sum.splits prod.splits)

text \<open>The fields no packet changes: the configuration of the stream and its buffers.\<close>

definition stream_conf ::
  "packet_stream \<Rightarrow> (bool \<times> u8 \<times> bool \<times> bool) \<times> (int \<times> int \<times> int \<times> int) \<times> (ptr \<times> ptr \<times> ptr \<times> ptr)" where
  "stream_conf s = ((ps_running s, ps_flag s, ps_variable_length s, ps_split_bufs s),
     (ps_pkts_per_frame s, ps_pkt_size s, ps_frame_size s, ps_last_pkt_size s),
     (ps_lib_buf s, ps_usr_buf s, ps_raw_buf s, ps_proc_buf s))"

lemma stream_sync_conf: "stream_sync s hdr = Some s1 \<Longrightarrow> stream_conf s1 = stream_conf s"
  by (auto simp: stream_sync_def stream_conf_def split: if_splits)

lemma stream_lost_conf:
  "stream_lost s hdr = Inl s2 \<Longrightarrow> stream_conf s2 = stream_conf s"
  "stream_lost s hdr = Inr (got, s3) \<Longrightarrow> stream_conf s3 = stream_conf s"
  by (auto simp: stream_lost_def stream_conf_def Let_def split: if_splits)

lemma stream_check_conf: "stream_check s fl d = Some s3 \<Longrightarrow> stream_conf s3 = stream_conf s"
  by (drule stream_check_Some) (auto simp: stream_conf_def)

lemma stream_advance_conf:
  "stream_advance s hdr d got = (got', s4) \<Longrightarrow> stream_conf s4 = stream_conf s"
  by (auto simp: stream_advance_def stream_conf_def Let_def split: if_splits)

lemma stream_process_conf:
  assumes "stream_process h s pkt cb = Some (r, s', h')"
  shows "stream_conf s' = stream_conf s"
  using assms
  by (cases rule: stream_process_cases)
    (auto dest!: stream_sync_conf stream_lost_conf stream_check_conf stream_advance_conf)

section \<open>A frame sent as packets\<close>

text \<open>The sender's side: the packets the camera cuts a frame into.\<close>

definition packet_of :: "u8 \<Rightarrow> u8 \<Rightarrow> u32 \<Rightarrow> bytes \<Rightarrow> bytes" where
  "packet_of fl sq ts data = [0x52, 0x42, 0, fl, 0, sq, 0, 0] @ bytes32 ts @ data"

definition frame_packet :: "packet_stream \<Rightarrow> bytes \<Rightarrow> u8 \<Rightarrow> u32 \<Rightarrow> nat \<Rightarrow> bytes" where
  "frame_packet s frame q ts i =
     packet_of (if i = 0 then sof_flag s
                else if int i = ps_pkts_per_frame s - 1 then eof_flag s else mof_flag s)
       (q + of_nat i) ts
       (take (nat (ps_pkt_size s)) (drop (i * nat (ps_pkt_size s)) frame))"

fun stream_run :: "heap \<Rightarrow> packet_stream \<Rightarrow> bytes list \<Rightarrow> (int list \<times> packet_stream \<times> heap) option" where
  "stream_run h s [] = Some ([], s, h)"
| "stream_run h s (p # ps) =
     (case stream_process h s p None of None \<Rightarrow> None
      | Some (r, s', h') \<Rightarrow>
          (case stream_run h' s' ps of None \<Rightarrow> None
           | Some (rs, s'', h'') \<Rightarrow> Some (r # rs, s'', h'')))"

lemma stream_run_append:
  "stream_run h s (ps @ qs) =
     (case stream_run h s ps of None \<Rightarrow> None
      | Some (rs, s', h') \<Rightarrow>
          (case stream_run h' s' qs of None \<Rightarrow> None
           | Some (rs', s'', h'') \<Rightarrow> Some (rs @ rs', s'', h'')))"
  by (induction ps arbitrary: h s) (auto split: option.splits)

lemma read_packet_of [wire_simps]:
  "read_pkt_hdr (packet_of fl sq ts data) =
     \<lparr>hdr_magic0 = 0x52, hdr_magic1 = 0x42, hdr_flag = fl, hdr_seq = sq, hdr_timestamp = ts\<rparr>"
  by (simp add: read_pkt_hdr_def packet_of_def bytes32_def le32_bytes32 nth_append)

lemma drop_packet_of [wire_simps]: "drop pkt_hdr_size (packet_of fl sq ts data) = data"
  by (simp add: packet_of_def pkt_hdr_size_def bytes32_def)

lemma length_packet_of [wire_simps]: "length (packet_of fl sq ts data) = pkt_hdr_size + length data"
  by (simp add: packet_of_def pkt_hdr_size_def)

lemma stream_process_accept:
  assumes "ps_synced s" "stream_check s fl (int (length data)) = None"
  shows "stream_process h s (packet_of fl (ps_seq s) ts data) cb =
    (case stream_copy h s data cb of None \<Rightarrow> None
     | Some h' \<Rightarrow>
        (let (got', s4) = stream_advance s \<lparr>hdr_magic0 = 0x52, hdr_magic1 = 0x42, hdr_flag = fl,
               hdr_seq = ps_seq s, hdr_timestamp = ts\<rparr> (int (length data)) 0
         in Some (got', s4, h')))"
  using assms by (simp add: stream_process_eq Let_def wire_simps stream_sync_def stream_lost_def)

lemma stream_process_sync:
  assumes "\<not> ps_synced s"
  shows "stream_process h s (packet_of (sof_flag s) q ts data) cb =
    stream_process h (s\<lparr>ps_synced := True, ps_seq := q, ps_pkt_num := 0, ps_valid_pkts := 0,
        ps_got_pkts := 0\<rparr>) (packet_of (sof_flag s) q ts data) cb"
  using assms by (simp add: stream_process_eq Let_def wire_simps stream_sync_def)

text \<open>The state after \<open>k\<close> packets of a frame, none lost, and the bytes stored by then.\<close>

definition mid_state :: "packet_stream \<Rightarrow> u8 \<Rightarrow> u32 \<Rightarrow> nat \<Rightarrow> packet_stream" where
  "mid_state s q ts k = s\<lparr>ps_synced := True, ps_seq := q + of_nat k, ps_got_pkts := int k,
     ps_pkt_num := int k, ps_last_timestamp := ts\<rparr>"

definition stored :: "heap \<Rightarrow> packet_stream \<Rightarrow> bytes \<Rightarrow> nat \<Rightarrow> bool" where
  "stored h s frame k \<longleftrightarrow> (\<exists>buf. blocks h (ps_raw_buf s) = Some buf
     \<and> nat (ps_frame_size s) \<le> length buf \<and> k \<le> length buf \<and> take k buf = take k frame)"

lemma stream_copy_stored:
  assumes st: "stored h s frame (k * p)" and num: "ps_raw_buf s' = ps_raw_buf s"
    "ps_pkt_num s' = int k" "ps_pkt_size s' = int p"
    and fit: "k * p + length data \<le> nat (ps_frame_size s)"
    and data: "take (k * p + length data) frame = take (k * p) frame @ data"
  shows "\<exists>h'. stream_copy h s' data None = Some h' \<and> stored h' s frame (k * p + length data)"
proof -
  from st obtain buf where buf: "blocks h (ps_raw_buf s) = Some buf"
    "nat (ps_frame_size s) \<le> length buf" "take (k * p) buf = take (k * p) frame"
    by (auto simp: stored_def)
  with fit have put: "put_bytes (k * p) data buf =
      Some (take (k * p) buf @ data @ drop (k * p + length data) buf)"
    by (simp add: mem_simps)
  have off: "nat (int k * int p) = k * p" "\<not> int k * int p < 0"
    by (simp_all add: not_less flip: of_nat_mult)
  show ?thesis
    using buf put num fit data take_put_bytes [OF put] length_put_bytes [OF put]
    by (auto simp: stream_copy_def mem_write_def off stored_def)
qed

lemma chunk_take:
  "take (k * p + length (take p (drop (k * p) xs))) xs = take (k * p) xs @ take p (drop (k * p) xs)"
  by (metis append_take_drop_id length_take min.cobounded2 take_add take_all_iff length_drop
      min_def take_append nat_le_linear)

lemma mid_state_simps [simp]:
  "ps_synced (mid_state s q ts k)" "ps_seq (mid_state s q ts k) = q + of_nat k"
  "ps_pkt_num (mid_state s q ts k) = int k" "ps_got_pkts (mid_state s q ts k) = int k"
  "ps_raw_buf (mid_state s q ts k) = ps_raw_buf s" "ps_pkt_size (mid_state s q ts k) = ps_pkt_size s"
  "ps_frame_size (mid_state s q ts k) = ps_frame_size s"
  "ps_last_pkt_size (mid_state s q ts k) = ps_last_pkt_size s"
  "ps_pkts_per_frame (mid_state s q ts k) = ps_pkts_per_frame s"
  "ps_variable_length (mid_state s q ts k) = ps_variable_length s"
  "sof_flag (mid_state s q ts k) = sof_flag s" "mof_flag (mid_state s q ts k) = mof_flag s"
  "eof_flag (mid_state s q ts k) = eof_flag s"
  by (simp_all add: mid_state_def sof_flag_def mof_flag_def eof_flag_def)

text \<open>The length of chunk \<open>k\<close> of a whole frame.\<close>

lemma chunk_length:
  assumes g: "stream_geom s" and len: "length frame = nat (ps_frame_size s)"
    and k: "int k < ps_pkts_per_frame s"
  shows "int (length (take (nat (ps_pkt_size s)) (drop (k * nat (ps_pkt_size s)) frame))) =
    (if int k = ps_pkts_per_frame s - 1 then ps_last_pkt_size s else ps_pkt_size s)"
    and "k * nat (ps_pkt_size s) + length (take (nat (ps_pkt_size s)) (drop (k * nat (ps_pkt_size s)) frame))
      \<le> nat (ps_frame_size s)"
proof -
  define p where "p = nat (ps_pkt_size s)"
  have p: "ps_pkt_size s = int p" "0 < p" using g by (auto simp: p_def stream_geom_def)
  define m where "m = nat (ps_pkts_per_frame s - 1)"
  have m: "ps_pkts_per_frame s - 1 = int m" using g by (auto simp: m_def stream_geom_def)
  define l where "l = nat (ps_last_pkt_size s)"
  have l: "ps_last_pkt_size s = int l" "1 \<le> l" "l \<le> p"
    using g p by (auto simp: l_def stream_geom_def)
  have fs: "nat (ps_frame_size s) = m * p + l"
    using g m p l unfolding stream_geom_def by (metis nat_int of_nat_add of_nat_mult)
  have km: "k \<le> m" using k m by linarith
  show "int (length (take (nat (ps_pkt_size s)) (drop (k * nat (ps_pkt_size s)) frame))) =
    (if int k = ps_pkts_per_frame s - 1 then ps_last_pkt_size s else ps_pkt_size s)"
  proof (cases "k = m")
    case True
    then show ?thesis using len fs l m p by (simp add: min_def)
  next
    case False
    with km have "Suc k * p \<le> m * p" by (intro mult_right_mono) auto
    then have "k * p + p \<le> m * p + l" by simp
    then have "p \<le> length frame - k * p" using len fs by linarith
    then show ?thesis using False m p by (simp add: min_def)
  qed
  have "k * p \<le> m * p" using km by (rule mult_le_mono1)
  moreover have "length (take p (drop (k * p) frame)) \<le> m * p + l - k * p"
    using len fs by simp
  ultimately have "k * p + length (take p (drop (k * p) frame)) \<le> m * p + l" by linarith
  then show "k * nat (ps_pkt_size s) + length (take (nat (ps_pkt_size s))
      (drop (k * nat (ps_pkt_size s)) frame)) \<le> nat (ps_frame_size s)"
    using fs p by simp
qed

text \<open>One packet of the frame, received in order.\<close>

lemma stream_step:
  assumes g: "stream_geom s" and v: "\<not> ps_variable_length s" and fl: "flags_distinct s"
    and two: "1 < ps_pkts_per_frame s" and len: "length frame = nat (ps_frame_size s)"
    and k: "int k < ps_pkts_per_frame s" and st: "stored h s frame (k * nat (ps_pkt_size s))"
  shows "\<exists>h'. stream_process h (mid_state s q ts' k) (frame_packet s frame q ts k) None =
      Some (if int k = ps_pkts_per_frame s - 1
            then (ps_frame_size s,
                  (mid_state s q ts (Suc k))\<lparr>ps_pkt_num := 0, ps_valid_pkts := int k + 1,
                    ps_got_pkts := 0, ps_timestamp := ts,
                    ps_valid_frames := ps_valid_frames s + 1\<rparr>, h')
            else (0, mid_state s q ts (Suc k), h'))
    \<and> stored h' s frame (k * nat (ps_pkt_size s)
         + length (take (nat (ps_pkt_size s)) (drop (k * nat (ps_pkt_size s)) frame)))"
proof -
  define p where "p = nat (ps_pkt_size s)"
  have p: "ps_pkt_size s = int p" using g by (auto simp: p_def stream_geom_def)
  define data where "data = take p (drop (k * p) frame)"
  define m where "m = mid_state s q ts' k"
  note cl = chunk_length [OF g len k, unfolded p nat_int, folded data_def]
  define fb where "fb = (if k = 0 then sof_flag s
      else if int k = ps_pkts_per_frame s - 1 then eof_flag s else mof_flag s)"
  have pkt: "frame_packet s frame q ts k = packet_of fb (ps_seq m) ts data"
    by (simp add: frame_packet_def fb_def m_def data_def p)
  have chk: "stream_check m fb (int (length data)) = None"
    using v two k cl(1) p flags_distinctD [OF fl]
    by (auto simp: stream_check_def m_def fb_def expected_pkt_size_def Let_def)
  have "take (k * p + length data) frame = take (k * p) frame @ data"
    unfolding data_def by (rule chunk_take)
  then have "\<exists>h'. stream_copy h m data None = Some h' \<and> stored h' s frame (k * p + length data)"
    using st cl(2) p by (intro stream_copy_stored) (auto simp: m_def)
  then obtain h' where h': "stream_copy h m data None = Some h'"
    "stored h' s frame (k * p + length data)" by blast
  have last: "int k = ps_pkts_per_frame s - 1 \<Longrightarrow> int k * int p + ps_last_pkt_size s = ps_frame_size s"
    using g p by (simp add: stream_geom_def)
  have sync: "ps_synced m" by (simp add: m_def)
  have eof: "fb = eof_flag m \<longleftrightarrow> int k = ps_pkts_per_frame s - 1"
    using two flags_distinctD [OF fl] by (auto simp: fb_def m_def)
  have "stream_advance m \<lparr>hdr_magic0 = 0x52, hdr_magic1 = 0x42, hdr_flag = fb,
      hdr_seq = ps_seq m, hdr_timestamp = ts\<rparr> (int (length data)) 0 =
      (if int k = ps_pkts_per_frame s - 1
       then (ps_frame_size s, (mid_state s q ts (Suc k))\<lparr>ps_pkt_num := 0,
               ps_valid_pkts := int k + 1, ps_got_pkts := 0, ps_timestamp := ts,
               ps_valid_frames := ps_valid_frames s + 1\<rparr>)
       else (0, mid_state s q ts (Suc k)))"
    using v last p
    by (simp add: stream_advance_def Let_def eof) (simp add: m_def mid_state_def ac_simps)
  then have "stream_process h m (packet_of fb (ps_seq m) ts data) None =
      Some (if int k = ps_pkts_per_frame s - 1
            then (ps_frame_size s, (mid_state s q ts (Suc k))\<lparr>ps_pkt_num := 0,
                    ps_valid_pkts := int k + 1, ps_got_pkts := 0, ps_timestamp := ts,
                    ps_valid_frames := ps_valid_frames s + 1\<rparr>, h')
            else (0, mid_state s q ts (Suc k), h'))"
    by (simp add: stream_process_accept [OF sync chk] h'(1))
  with h'(2) show ?thesis unfolding pkt m_def data_def p_def by blast
qed

definition frame_done :: "packet_stream \<Rightarrow> u8 \<Rightarrow> u32 \<Rightarrow> packet_stream" where
  "frame_done s q ts = (mid_state s q ts (nat (ps_pkts_per_frame s)))\<lparr>ps_pkt_num := 0,
     ps_valid_pkts := ps_pkts_per_frame s, ps_got_pkts := 0, ps_timestamp := ts,
     ps_valid_frames := ps_valid_frames s + 1\<rparr>"

lemma stream_run_rest:
  assumes g: "stream_geom s" and v: "\<not> ps_variable_length s" and fl: "flags_distinct s"
    and two: "1 < ps_pkts_per_frame s" and len: "length frame = nat (ps_frame_size s)"
    and n: "n = nat (ps_pkts_per_frame s)" and k: "k < n"
    and st: "stored h s frame (k * nat (ps_pkt_size s))"
  shows "\<exists>h'. stream_run h (mid_state s q ts' k) (map (frame_packet s frame q ts) [k..<n]) =
      Some (replicate (n - Suc k) 0 @ [ps_frame_size s], frame_done s q ts, h')
    \<and> stored h' s frame (nat (ps_frame_size s))"
  using k st
proof (induction "n - Suc k" arbitrary: k h ts')
  case 0
  then have k: "k = n - 1" "int k = ps_pkts_per_frame s - 1" "int k < ps_pkts_per_frame s"
    "[k..<n] = [k]" "Suc k = n"
    using n two by (auto simp: upt_rec)
  from stream_step [OF g v fl two len k(3) "0.prems"(2), of q ts' ts] obtain h' where
    h': "stream_process h (mid_state s q ts' k) (frame_packet s frame q ts k) None =
      Some (ps_frame_size s, (mid_state s q ts (Suc k))\<lparr>ps_pkt_num := 0,
              ps_valid_pkts := int k + 1, ps_got_pkts := 0, ps_timestamp := ts,
              ps_valid_frames := ps_valid_frames s + 1\<rparr>, h')"
    "stored h' s frame (k * nat (ps_pkt_size s)
        + length (take (nat (ps_pkt_size s)) (drop (k * nat (ps_pkt_size s)) frame)))"
    using k(2) by auto
  have "int (length (take (nat (ps_pkt_size s)) (drop (k * nat (ps_pkt_size s)) frame)))
      = ps_last_pkt_size s"
    using chunk_length(1) [OF g len k(3)] k(2) by simp
  then have "int (k * nat (ps_pkt_size s) + length (take (nat (ps_pkt_size s))
      (drop (k * nat (ps_pkt_size s)) frame))) = ps_frame_size s"
    unfolding of_nat_add of_nat_mult using g k(2) by (simp add: stream_geom_def)
  then have "k * nat (ps_pkt_size s) + length (take (nat (ps_pkt_size s))
      (drop (k * nat (ps_pkt_size s)) frame)) = nat (ps_frame_size s)"
    by linarith
  then show ?case using h' k n by (simp add: frame_done_def)
next
  case (Suc j)
  then have k: "int k \<noteq> ps_pkts_per_frame s - 1" "int k < ps_pkts_per_frame s"
    "[k..<n] = k # [Suc k..<n]" "n - Suc k = Suc (n - Suc (Suc k))"
    "j = n - Suc (Suc k)" "Suc k < n"
    using n two by (auto simp: upt_rec)
  from stream_step [OF g v fl two len k(2) Suc.prems(2), of q ts' ts] obtain h' where
    h': "stream_process h (mid_state s q ts' k) (frame_packet s frame q ts k) None =
      Some (0, mid_state s q ts (Suc k), h')"
    "stored h' s frame (k * nat (ps_pkt_size s)
        + length (take (nat (ps_pkt_size s)) (drop (k * nat (ps_pkt_size s)) frame)))"
    using k(1) by auto
  have "int (length (take (nat (ps_pkt_size s)) (drop (k * nat (ps_pkt_size s)) frame)))
      = ps_pkt_size s"
    using chunk_length(1) [OF g len k(2)] k(1) by simp
  then have "stored h' s frame (Suc k * nat (ps_pkt_size s))"
    using h'(2) by (simp add: add.commute)
  from Suc.hyps(1) [OF k(5) k(6) this, of ts] obtain h'' where
    "stream_run h' (mid_state s q ts (Suc k)) (map (frame_packet s frame q ts) [Suc k..<n]) =
      Some (replicate (n - Suc (Suc k)) 0 @ [ps_frame_size s], frame_done s q ts, h'')"
    "stored h'' s frame (nat (ps_frame_size s))" by blast
  then show ?case using h'(1) k by simp
qed

lemma frame_roundtrip:
  assumes ok: "stream_ok h s" and v: "\<not> ps_variable_length s" and fl: "flags_distinct s"
    and two: "1 < ps_pkts_per_frame s" and len: "length frame = nat (ps_frame_size s)"
    and start: "\<not> ps_synced s \<or> ps_pkt_num s = 0 \<and> ps_got_pkts s = 0 \<and> ps_seq s = q"
  shows "\<exists>h'. stream_run h s (map (frame_packet s frame q ts) [0..<nat (ps_pkts_per_frame s)]) =
      Some (replicate (nat (ps_pkts_per_frame s) - 1) 0 @ [ps_frame_size s], frame_done s q ts, h')
    \<and> mem_read (ps_raw_buf s) 0 (nat (ps_frame_size s)) h' = Some frame"
proof -
  define s1 where "s1 = (if ps_synced s then s else s\<lparr>ps_valid_pkts := 0\<rparr>)"
  define n where "n = nat (ps_pkts_per_frame s)"
  have g: "stream_geom s" using ok by (simp add: stream_ok_def)
  have n: "0 < n" "[0..<n] = 0 # [1..<n]" using two by (auto simp: n_def upt_rec)
  have run: "stream_run h s (map (frame_packet s frame q ts) [0..<n]) =
      stream_run h (mid_state s1 q (ps_last_timestamp s) 0) (map (frame_packet s1 frame q ts) [0..<n])"
  proof (cases "ps_synced s")
    case True
    then have "mid_state s1 q (ps_last_timestamp s) 0 = s"
      using start by (simp add: mid_state_def s1_def)
    then show ?thesis using True by (simp add: s1_def)
  next
    case False
    have "frame_packet s1 frame q ts = frame_packet s frame q ts"
      using False by (simp add: fun_eq_iff frame_packet_def s1_def sof_flag_def mof_flag_def eof_flag_def)
    moreover have "s\<lparr>ps_synced := True, ps_seq := q, ps_pkt_num := 0, ps_valid_pkts := 0,
        ps_got_pkts := 0\<rparr> = mid_state s1 q (ps_last_timestamp s) 0"
      using False by (intro packet_stream.equality) (simp_all add: mid_state_def s1_def)
    ultimately show ?thesis
      using stream_process_sync [OF False] False unfolding n(2) by (simp add: frame_packet_def)
  qed
  have s1: "stream_geom s1" "\<not> ps_variable_length s1" "flags_distinct s1" "1 < ps_pkts_per_frame s1"
    "length frame = nat (ps_frame_size s1)" "n = nat (ps_pkts_per_frame s1)"
    "frame_done s1 q ts = frame_done s q ts" "ps_frame_size s1 = ps_frame_size s"
    "ps_raw_buf s1 = ps_raw_buf s"
    using g v fl two len
    by (auto simp: s1_def stream_geom_def flags_distinct_def n_def frame_done_def mid_state_def)
  have "stored h s1 frame (0 * nat (ps_pkt_size s1))"
    using ok by (auto simp: stored_def s1_def stream_ok_def block_size_def)
  from stream_run_rest [OF s1(1-6) n(1) this, of q "ps_last_timestamp s" ts] obtain h' where
    "stream_run h s (map (frame_packet s frame q ts) [0..<n]) =
      Some (replicate (n - 1) 0 @ [ps_frame_size s], frame_done s q ts, h')"
    "stored h' s1 frame (nat (ps_frame_size s1))"
    unfolding run by (auto simp: s1)
  then show ?thesis using len s1
    by (auto simp: n_def stored_def mem_read_def get_bytes_def)
qed

section \<open>Geometry set up by \<open>stream_init\<close>, and the life of the buffers\<close>

lemma ceil_div_split:
  fixes f p :: int
  assumes "0 < p" "0 < f"
  defines "l \<equiv> (if f mod p = 0 then p else f mod p)"
  shows "((f + p - 1) div p - 1) * p + l = f \<and> 1 \<le> l \<and> l \<le> p \<and> 0 < (f + p - 1) div p"
proof (cases "f mod p = 0")
  case True
  then obtain k where k: "f = p * k" by (auto simp: mod_eq_0_iff_dvd)
  then have "f + p - 1 = (p - 1) + p * k" by simp
  moreover have "((p - 1) + p * k) div p = k + (p - 1) div p"
    using assms(1) by (intro div_mult_self2) simp
  moreover have "(p - 1) div p = 0" using assms(1) by (intro div_pos_pos_trivial) auto
  ultimately have "(f + p - 1) div p = k" by (simp only: add_0_right)
  moreover have "0 < k" using assms k by (simp add: zero_less_mult_iff)
  ultimately show ?thesis using assms(1) k True unfolding l_def by (simp add: algebra_simps)
next
  case False
  define k where "k = f div p"
  define r where "r = f mod p"
  have f: "f = p * k + r" "0 < r" "r < p" "0 \<le> k"
    using assms(1,2) False pos_mod_sign [of p f] pos_mod_bound [of p f]
    by (auto simp: k_def r_def pos_imp_zdiv_nonneg_iff order_less_le)
  have "f + p - 1 = (r - 1) + p * (k + 1)" using f(1) by (simp add: algebra_simps)
  moreover have "((r - 1) + p * (k + 1)) div p = (k + 1) + (r - 1) div p"
    using assms(1) by (intro div_mult_self2) simp
  moreover have "(r - 1) div p = 0" using f by (intro div_pos_pos_trivial) auto
  ultimately have "(f + p - 1) div p = k + 1" by (simp only: add_0_right)
  then show ?thesis using f False by (simp add: l_def r_def [symmetric] algebra_simps)
qed

lemma stream_init_pkts_geom:
  "0 < ps_pkt_size s \<Longrightarrow> 0 < ps_frame_size s \<Longrightarrow> stream_geom (stream_init_pkts s)"
  using ceil_div_split [of "ps_pkt_size s" "ps_frame_size s"]
  by (simp add: stream_init_pkts_def stream_geom_def Let_def)

lemma stream_init_bufs_fields:
  assumes "stream_init_bufs h s rlen plen = (s', h')"
  shows "ps_pkt_size s' = ps_pkt_size s \<and> ps_flag s' = ps_flag s
    \<and> ps_variable_length s' = ps_variable_length s \<and> ps_valid_frames s' = ps_valid_frames s
    \<and> ps_synced s' = ps_synced s \<and> ps_frame_size s' = (if rlen = 0 then plen else rlen)
    \<and> ps_running s' = ps_running s \<and> ps_usr_buf s' = ps_usr_buf s"
  using assms by (auto simp: stream_init_bufs_def Let_def malloc_def split: if_splits prod.splits)

lemma stream_init_fields:
  assumes "stream_init h s rlen plen = (s', h')"
  shows "ps_pkt_size s' = ps_pkt_size s \<and> ps_flag s' = ps_flag s
    \<and> ps_variable_length s' = ps_variable_length s \<and> ps_valid_frames s' = 0
    \<and> \<not> ps_synced s' \<and> ps_frame_size s' = (if rlen = 0 then plen else rlen)
    \<and> ps_running s' = ps_running s \<and> ps_usr_buf s' = ps_usr_buf s"
  using assms
  by (auto simp: stream_init_def stream_init_pkts_def Let_def dest!: stream_init_bufs_fields
      split: prod.splits)

lemma stream_init_geom:
  assumes "0 < ps_pkt_size s" "0 \<le> rlen" "0 < plen" "stream_init h s rlen plen = (s', h')"
  shows "stream_geom s'"
proof -
  obtain s1 where b: "stream_init_bufs h (s\<lparr>ps_valid_frames := 0, ps_synced := False\<rparr>) rlen plen = (s1, h')"
    and s': "s' = stream_init_pkts s1"
    using assms(4) by (auto simp: stream_init_def split: prod.splits)
  show ?thesis unfolding s'
    using stream_init_bufs_fields [OF b] assms(1-3) by (intro stream_init_pkts_geom) auto
qed

text \<open>Blocks the stream itself allocated.\<close>

definition owned :: "packet_stream \<Rightarrow> ptr set" where
  "owned s = (if ps_split_bufs s then {ps_raw_buf s} else {}) \<union> ({ps_lib_buf s} - {NULL})"

lemma stream_init_bufs_blocks:
  assumes wf: "heap_wf h" and "0 \<le> rlen" "0 < plen"
    and usr: "ps_usr_buf s \<noteq> NULL \<Longrightarrow> \<exists>n. block_size h (ps_usr_buf s) = Some n \<and> plen \<le> int n"
    and init: "stream_init_bufs h s rlen plen = (s', h')"
  shows "heap_wf h'"
    and "\<exists>n. block_size h' (ps_raw_buf s') = Some n \<and> ps_frame_size s' \<le> int n"
    and "\<exists>n. block_size h' (ps_proc_buf s') = Some n \<and> plen \<le> int n"
    and "owned s' \<inter> dom (blocks h) = {}" and "dom (blocks h') = dom (blocks h) \<union> owned s'"
    and "\<And>p. blocks h p \<noteq> None \<Longrightarrow> blocks h' p = blocks h p"
    and "ps_split_bufs s' \<Longrightarrow> ps_raw_buf s' \<noteq> NULL \<and> ps_raw_buf s' \<noteq> ps_lib_buf s'"
    and "\<not> ps_split_bufs s' \<Longrightarrow> ps_raw_buf s' = ps_proc_buf s'"
proof -
  obtain s1 h1 where 1: "(if ps_usr_buf s \<noteq> NULL
       then (s\<lparr>ps_lib_buf := NULL, ps_proc_buf := ps_usr_buf s\<rparr>, h)
       else (case malloc (nat plen) h of (p, h') \<Rightarrow>
               (s\<lparr>ps_lib_buf := p, ps_proc_buf := p\<rparr>, h'))) = (s1, h1)"
    by fastforce
  have s1: "heap_wf h1" "\<exists>n. block_size h1 (ps_proc_buf s1) = Some n \<and> plen \<le> int n"
    "{ps_lib_buf s1} - {NULL} \<subseteq> - dom (blocks h)"
    "dom (blocks h1) = dom (blocks h) \<union> ({ps_lib_buf s1} - {NULL})"
    "\<And>p. blocks h p \<noteq> None \<Longrightarrow> blocks h1 p = blocks h p"
    using 1 wf usr \<open>0 < plen\<close>
    by (auto simp: malloc_def heap_wf_def block_size_def dom_def split: if_splits)
  note step = init [unfolded stream_init_bufs_def Let_def 1 prod.case]
  have "heap_wf h'
    \<and> (\<exists>n. block_size h' (ps_raw_buf s') = Some n \<and> ps_frame_size s' \<le> int n)
    \<and> (\<exists>n. block_size h' (ps_proc_buf s') = Some n \<and> plen \<le> int n)
    \<and> owned s' \<inter> dom (blocks h) = {} \<and> dom (blocks h') = dom (blocks h) \<union> owned s'
    \<and> (\<forall>p. blocks h p \<noteq> None \<longrightarrow> blocks h' p = blocks h p)
    \<and> (ps_split_bufs s' \<longrightarrow> ps_raw_buf s' \<noteq> NULL \<and> ps_raw_buf s' \<noteq> ps_lib_buf s')
    \<and> (\<not> ps_split_bufs s' \<longrightarrow> ps_raw_buf s' = ps_proc_buf s')"
  proof (cases "rlen = 0")
    case True
    with step have "s' = s1\<lparr>ps_split_bufs := False, ps_raw_buf := ps_proc_buf s1,
        ps_frame_size := plen\<rparr>" "h' = h1" by auto
    then show ?thesis using s1 by (auto simp: owned_def)
  next
    case False
    then obtain p where p: "malloc (nat rlen) h1 = (p, h')"
      and s': "s' = s1\<lparr>ps_split_bufs := True, ps_raw_buf := p, ps_frame_size := rlen\<rparr>"
      using step by (auto split: prod.splits)
    note m = malloc_wf [OF s1(1) p] malloc_fresh [OF s1(1) p] malloc_block_size [OF p]
      malloc_other [OF p] malloc_dom [OF p]
    have fresh: "p \<notin> dom (blocks h1)" using m(2) by auto
    then have "p \<notin> dom (blocks h)" "p \<noteq> ps_lib_buf s1" using s1(4) m(2) by auto
    moreover have "ps_proc_buf s1 \<noteq> p" using s1(2) fresh by (auto simp: block_size_def)
    moreover have "blocks h' q = blocks h q" if "blocks h q \<noteq> None" for q
      using that s1(5) [OF that] m(4) [of q] \<open>p \<notin> dom (blocks h)\<close> by (cases "q = p") auto
    ultimately show ?thesis
      using m s1 \<open>0 \<le> rlen\<close> unfolding s' owned_def by auto
  qed
  then show "heap_wf h'"
    and "\<exists>n. block_size h' (ps_raw_buf s') = Some n \<and> ps_frame_size s' \<le> int n"
    and "\<exists>n. block_size h' (ps_proc_buf s') = Some n \<and> plen \<le> int n"
    and "owned s' \<inter> dom (blocks h) = {}" and "dom (blocks h') = dom (blocks h) \<union> owned s'"
    and "\<And>p. blocks h p \<noteq> None \<Longrightarrow> blocks h' p = blocks h p"
    and "ps_split_bufs s' \<Longrightarrow> ps_raw_buf s' \<noteq> NULL \<and> ps_raw_buf s' \<noteq> ps_lib_buf s'"
    and "\<not> ps_split_bufs s' \<Longrightarrow> ps_raw_buf s' = ps_proc_buf s'"
    by blast+
qed

text \<open>
  The life of a started stream: packets arrive and the client exchanges the buffer.  Both
  keep the set of blocks the stream owns, so that \<open>stream_freebufs\<close> releases exactly these.
\<close>

datatype stream_event = Packet bytes | Set_Buffer ptr

inductive stream_steps :: "heap \<times> packet_stream \<Rightarrow> stream_event list \<Rightarrow> heap \<times> packet_stream \<Rightarrow> bool" where
  steps_nil: "stream_steps c [] c"
| steps_packet: "stream_process h s pkt None = Some (r, s', h') \<Longrightarrow> stream_steps (h', s') es c \<Longrightarrow>
     stream_steps (h, s) (Packet pkt # es) c"
| steps_setbuf: "stream_setbuf s p = (r, s') \<Longrightarrow> stream_steps (h, s') es c \<Longrightarrow>
     stream_steps (h, s) (Set_Buffer p # es) c"

definition buffers_inv :: "ptr set \<Rightarrow> heap \<Rightarrow> packet_stream \<Rightarrow> bool" where
  "buffers_inv D h s \<longleftrightarrow> owned s \<inter> D = {} \<and> dom (blocks h) = D \<union> owned s
     \<and> (ps_split_bufs s \<longrightarrow> ps_raw_buf s \<noteq> NULL \<and> ps_raw_buf s \<noteq> ps_lib_buf s)"

lemma stream_init_inv:
  assumes "heap_wf h" "0 \<le> rlen" "0 < plen"
    "ps_usr_buf s \<noteq> NULL \<Longrightarrow> \<exists>n. block_size h (ps_usr_buf s) = Some n \<and> plen \<le> int n"
    "stream_init h s rlen plen = (s', h')"
  shows "buffers_inv (dom (blocks h)) h' s'"
proof -
  obtain s1 where b: "stream_init_bufs h (s\<lparr>ps_valid_frames := 0, ps_synced := False\<rparr>) rlen plen = (s1, h')"
    and s': "s' = stream_init_pkts s1"
    using assms(5) by (auto simp: stream_init_def split: prod.splits)
  have usr: "ps_usr_buf (s\<lparr>ps_valid_frames := 0, ps_synced := False\<rparr>) \<noteq> NULL \<Longrightarrow>
      \<exists>n. block_size h (ps_usr_buf (s\<lparr>ps_valid_frames := 0, ps_synced := False\<rparr>)) = Some n \<and> plen \<le> int n"
    using assms(4) by simp
  note i = stream_init_bufs_blocks [OF assms(1-3) usr b]
  show ?thesis using i(4,5,7)
    by (auto simp: buffers_inv_def owned_def s' stream_init_pkts_def Let_def)
qed

lemma stream_copy_dom:
  "stream_copy h s data cb = Some h' \<Longrightarrow> dom (blocks h') = dom (blocks h)"
  by (auto simp: stream_copy_def mem_write_def store_def split: option.splits if_splits)

lemma stream_process_dom:
  assumes "stream_process h s pkt cb = Some (r, s', h')"
  shows "dom (blocks h') = dom (blocks h)"
  using assms
proof (cases rule: stream_process_cases)
  case (accepted s1 got s2)
  from stream_copy_dom [OF accepted(4)] show ?thesis .
qed simp_all

lemma buffers_inv_conf:
  "stream_conf s' = stream_conf s \<Longrightarrow> dom (blocks h') = dom (blocks h) \<Longrightarrow>
     buffers_inv D h s \<Longrightarrow> buffers_inv D h' s'"
  by (auto simp: buffers_inv_def stream_conf_def owned_def)

lemma stream_setbuf_keeps:
  assumes "stream_setbuf s p = (r, s')"
  shows "ps_split_bufs s' = ps_split_bufs s" "ps_lib_buf s' = ps_lib_buf s"
    "ps_split_bufs s \<Longrightarrow> ps_raw_buf s' = ps_raw_buf s" "ps_running s' = ps_running s"
  using assms by (auto simp: stream_setbuf_def Let_def split: if_splits)

lemma buffers_inv_setbuf:
  assumes "stream_setbuf s p = (r, s')" "buffers_inv D h s"
  shows "buffers_inv D h s'"
proof -
  note k = stream_setbuf_keeps [OF assms(1)]
  have "owned s' = owned s" using k by (simp add: owned_def)
  then show ?thesis using k assms(2) by (simp add: buffers_inv_def)
qed

lemma stream_steps_inv:
  "stream_steps c es c' \<Longrightarrow> buffers_inv D (fst c) (snd c) \<Longrightarrow> buffers_inv D (fst c') (snd c')"
proof (induction rule: stream_steps.induct)
  case (steps_nil c)
  then show ?case by simp
next
  case (steps_packet h s pkt r s' h' es c)
  from steps_packet.prems have "buffers_inv D h s" by (simp only: fst_conv snd_conv)
  then have "buffers_inv D h' s'"
    by (rule buffers_inv_conf [OF stream_process_conf [OF steps_packet.hyps(1)]
          stream_process_dom [OF steps_packet.hyps(1)]])
  then show ?case by (intro steps_packet.IH) (simp only: fst_conv snd_conv)
next
  case (steps_setbuf s p r s' h es c)
  from steps_setbuf.prems have "buffers_inv D h s" by (simp only: fst_conv snd_conv)
  then have "buffers_inv D h s'" by (rule buffers_inv_setbuf [OF steps_setbuf.hyps(1)])
  then show ?case by (intro steps_setbuf.IH) (simp only: fst_conv snd_conv)
qed

lemma stream_freebufs_inv:
  assumes inv: "buffers_inv D h s"
  shows "\<exists>s' h'. stream_freebufs h s = Some (s', h') \<and> dom (blocks h') = D"
proof -
  have "\<exists>h1. (if ps_split_bufs s then free (ps_raw_buf s) h else Some h) = Some h1
      \<and> dom (blocks h1) = D \<union> ({ps_lib_buf s} - {NULL})"
  proof (cases "ps_split_bufs s")
    case True
    with inv obtain h1 where h1: "free (ps_raw_buf s) h = Some h1"
      using free_ok [of "ps_raw_buf s" h] by (auto simp: buffers_inv_def owned_def)
    then show ?thesis using True inv free_dom [OF h1]
      by (auto simp: buffers_inv_def owned_def)
  qed (use inv in \<open>auto simp: buffers_inv_def owned_def\<close>)
  then obtain h1 where h1: "(if ps_split_bufs s then free (ps_raw_buf s) h else Some h) = Some h1"
    "dom (blocks h1) = D \<union> ({ps_lib_buf s} - {NULL})" by blast
  have "ps_lib_buf s = NULL \<or> ps_lib_buf s \<notin> D"
    using inv by (auto simp: buffers_inv_def owned_def)
  then have "\<exists>h2. (if ps_lib_buf s \<noteq> NULL then free (ps_lib_buf s) h1 else Some h1) = Some h2
      \<and> dom (blocks h2) = D"
  proof (cases "ps_lib_buf s = NULL")
    case False
    with h1(2) obtain h2 where h2: "free (ps_lib_buf s) h1 = Some h2"
      using free_ok [of "ps_lib_buf s" h1] by auto
    then show ?thesis using False free_dom [OF h2] h1(2) \<open>_ \<or> _\<close> by auto
  qed (use h1(2) in simp)
  then obtain h2 where "(if ps_lib_buf s \<noteq> NULL then free (ps_lib_buf s) h1 else Some h1) = Some h2"
    "dom (blocks h2) = D" by blast
  then show ?thesis using h1(1) by (simp add: stream_freebufs_def)
qed

section \<open>Sequences of packets\<close>

lemma stream_run_ok:
  "stream_ok h s \<Longrightarrow> \<exists>rs s' h'. stream_run h s ps = Some (rs, s', h') \<and> stream_ok h' s'"
proof (induction ps arbitrary: h s)
  case Nil
  then show ?case by simp
next
  case (Cons p ps)
  from stream_process_ok [OF Cons.prems, of None p] obtain r s1 h1 where
    1: "stream_process h s p None = Some (r, s1, h1)" "stream_ok h1 s1" by auto
  from Cons.IH [OF 1(2)] obtain rs s2 h2 where
    "stream_run h1 s1 ps = Some (rs, s2, h2)" "stream_ok h2 s2" by auto
  then show ?case using 1 by simp
qed

lemma stream_init_ok:
  assumes "heap_wf h" "0 < ps_pkt_size s" "0 \<le> rlen" "0 < plen"
    "ps_usr_buf s \<noteq> NULL \<Longrightarrow> \<exists>n. block_size h (ps_usr_buf s) = Some n \<and> plen \<le> int n"
    "stream_init h s rlen plen = (s', h')"
  shows "stream_ok h' s'"
proof -
  obtain s1 where b: "stream_init_bufs h (s\<lparr>ps_valid_frames := 0, ps_synced := False\<rparr>) rlen plen = (s1, h')"
    and s': "s' = stream_init_pkts s1"
    using assms(6) by (auto simp: stream_init_def split: prod.splits)
  have usr: "ps_usr_buf (s\<lparr>ps_valid_frames := 0, ps_synced := False\<rparr>) \<noteq> NULL \<Longrightarrow>
      \<exists>n. block_size h (ps_usr_buf (s\<lparr>ps_valid_frames := 0, ps_synced := False\<rparr>)) = Some n \<and> plen \<le> int n"
    using assms(5) by simp
  have "ps_raw_buf s' = ps_raw_buf s1" "ps_frame_size s' = ps_frame_size s1"
    by (simp_all add: s' stream_init_pkts_def Let_def)
  then show ?thesis
    using stream_init_geom [OF assms(2-4,6)] stream_init_fields [OF assms(6)]
      stream_init_bufs_blocks(2) [OF assms(1,3,4) usr b] by (simp add: stream_ok_def)
qed

text \<open>How the handler counts frames: with more than six packets per frame, the return value
  is nonzero exactly when \<open>valid_frames\<close> grows, by one.\<close>

lemma stream_lost_count:
  assumes "stream_lost s hdr = Inr (got, s2)" "0 < ps_frame_size s"
  shows "ps_valid_frames s2 = ps_valid_frames s + of_bool (got \<noteq> 0)"
    and "got \<noteq> 0 \<Longrightarrow> ps_pkt_num s \<le> ps_pkts_per_frame s \<Longrightarrow> ps_pkt_num s2 \<le> 5"
  using assms
  by (auto simp: stream_lost_def Let_def word_less_def split: if_splits)

lemma stream_geom_frame_pos: "stream_geom s \<Longrightarrow> 0 < ps_frame_size s"
proof -
  assume g: "stream_geom s"
  then have "0 \<le> (ps_pkts_per_frame s - 1) * ps_pkt_size s"
    by (intro mult_nonneg_nonneg) (auto simp: stream_geom_def)
  then show ?thesis using g unfolding stream_geom_def by linarith
qed

lemma stream_process_count:
  assumes ok: "stream_ok h s" and v: "\<not> ps_variable_length s" and fl: "flags_distinct s"
    and big: "6 < ps_pkts_per_frame s" and run: "stream_process h s pkt cb = Some (r, s', h')"
  shows "(r = 0 \<or> r = ps_frame_size s) \<and> ps_valid_frames s' = ps_valid_frames s + of_bool (r \<noteq> 0)"
  using run
proof (cases rule: stream_process_cases)
  case (resync s1)
  then show ?thesis
    by (auto simp: stream_sync_def stream_lost_def Let_def split: if_splits)
next
  case (rejected s1 s2)
  have g: "stream_geom s" "0 < ps_frame_size s"
    using ok stream_geom_frame_pos by (auto simp: stream_ok_def)
  note s1 = stream_sync_ok [OF g(1) rejected(1)]
  have n1: "0 \<le> ps_pkt_num s1" "ps_pkt_num s1 \<le> ps_pkts_per_frame s1"
    using s1 ok by (auto simp: stream_ok_def stream_geom_def)
  have vf: "ps_valid_frames s1 = ps_valid_frames s"
    using rejected(1) by (auto simp: stream_sync_def split: if_splits)
  have "ps_valid_frames s' = ps_valid_frames s2"
    using stream_check_Some [OF rejected(4)] by auto
  then show ?thesis
    using stream_lost_count(1) [OF rejected(2)] stream_lost_ok [OF rejected(2) _ n1] s1 g vf by auto
next
  case (accepted s1 got s2)
  have g: "stream_geom s" "0 < ps_frame_size s"
    using ok stream_geom_frame_pos by (auto simp: stream_ok_def)
  note s1 = stream_sync_ok [OF g(1) accepted(1)]
  have n1: "0 \<le> ps_pkt_num s1" "ps_pkt_num s1 \<le> ps_pkts_per_frame s1"
    using s1 ok by (auto simp: stream_ok_def stream_geom_def)
  have vf: "ps_valid_frames s1 = ps_valid_frames s"
    using accepted(1) by (auto simp: stream_sync_def split: if_splits)
  have gs1: "stream_geom s1" using s1 by blast
  note s2 = stream_lost_ok [OF accepted(2) gs1 n1]
  note c = stream_lost_count [OF accepted(2)]
  have fl2: "flags_distinct s2" "\<not> ps_variable_length s2" "ps_pkts_per_frame s2 = ps_pkts_per_frame s"
    "ps_frame_size s2 = ps_frame_size s"
    using s1 s2 fl v by (auto simp: flags_distinct_def)
  have eof: "hdr_flag (read_pkt_hdr pkt) = eof_flag s2 \<Longrightarrow> ps_pkt_num s2 = ps_pkts_per_frame s2 - 1"
    using stream_check_eof accepted(3) fl2 by metis
  have got: "hdr_flag (read_pkt_hdr pkt) = eof_flag s2 \<Longrightarrow> got = 0"
  proof (rule ccontr)
    assume "hdr_flag (read_pkt_hdr pkt) = eof_flag s2" "got \<noteq> 0"
    then have "ps_pkt_num s2 \<le> 5" "ps_pkt_num s2 = ps_pkts_per_frame s - 1"
      using c(2) n1 s1 g eof fl2 by auto
    then show False using big by simp
  qed
  have "r = 0 \<or> r = ps_frame_size s"
    using stream_advance_got [OF accepted(5) _ fl2(2) eof] s2 fl2 by auto
  moreover have "ps_valid_frames s' = ps_valid_frames s + of_bool (r \<noteq> 0)"
    using accepted(5) got eof c(1) s1 s2 vf g fl2
    by (auto simp: stream_advance_def Let_def stream_geom_def split: if_splits)
  ultimately show ?thesis ..
qed simp_all

lemma stream_conf_simps:
  assumes "stream_conf s' = stream_conf s"
  shows "ps_running s' = ps_running s" "ps_flag s' = ps_flag s"
    "ps_variable_length s' = ps_variable_length s" "ps_split_bufs s' = ps_split_bufs s"
    "ps_pkts_per_frame s' = ps_pkts_per_frame s" "ps_pkt_size s' = ps_pkt_size s"
    "ps_frame_size s' = ps_frame_size s" "ps_last_pkt_size s' = ps_last_pkt_size s"
    "ps_lib_buf s' = ps_lib_buf s" "ps_usr_buf s' = ps_usr_buf s"
    "ps_raw_buf s' = ps_raw_buf s" "ps_proc_buf s' = ps_proc_buf s"
  using assms by (auto simp: stream_conf_def)

lemma stream_run_count:
  "stream_ok h s \<Longrightarrow> \<not> ps_variable_length s \<Longrightarrow> flags_distinct s \<Longrightarrow> 6 < ps_pkts_per_frame s \<Longrightarrow>
     stream_run h s ps = Some (rs, s', h') \<Longrightarrow>
     set rs \<subseteq> {0, ps_frame_size s}
     \<and> ps_valid_frames s' = ps_valid_frames s + int (length (filter (\<lambda>r. r \<noteq> 0) rs))"
proof (induction ps arbitrary: h s rs)
  case Nil
  then show ?case by simp
next
  case (Cons p ps)
  from stream_process_ok [OF Cons.prems(1), of None p] obtain r s1 h1 where
    1: "stream_process h s p None = Some (r, s1, h1)" "stream_ok h1 s1" by auto
  note c = stream_process_count [OF Cons.prems(1-4) 1(1)]
  note k = stream_conf_simps [OF stream_process_conf [OF 1(1)]]
  from Cons.prems(5) 1 obtain rs1 where
    2: "stream_run h1 s1 ps = Some (rs1, s', h')" "rs = r # rs1"
    by (auto split: option.splits prod.splits)
  have "flags_distinct s1" using k(2) Cons.prems(3) by (simp add: flags_distinct_def)
  from Cons.IH [OF 1(2) _ this _ 2(1)] k Cons.prems(2,4) have
    "set rs1 \<subseteq> {0, ps_frame_size s}"
    "ps_valid_frames s' = ps_valid_frames s1 + int (length (filter (\<lambda>r. r \<noteq> 0) rs1))" by auto
  then show ?case using c 2 by auto
qed

text \<open>An unsynchronised stream ignores everything but a start-of-frame packet.\<close>

lemma stream_unsynced_drop:
  "\<not> ps_synced s \<Longrightarrow> hdr_flag (read_pkt_hdr pkt) \<noteq> sof_flag s \<Longrightarrow>
     stream_process h s pkt cb = Some (0, s, h)"
  by (simp add: stream_process_eq stream_sync_def Let_def)

lemma stream_unsynced_drop_run:
  "\<not> ps_synced s \<Longrightarrow> \<forall>p \<in> set ps. hdr_flag (read_pkt_hdr p) \<noteq> sof_flag s \<Longrightarrow>
     stream_run h s ps = Some (replicate (length ps) 0, s, h)"
  by (induction ps) (auto simp: stream_unsynced_drop)

section \<open>Properties\<close>

definition sample_heap :: heap where
  "sample_heap = \<lparr>blocks = (\<lambda>_. None), next_ptr = 1, junk = (\<lambda>_ _. 0)\<rparr>"

definition sample_stream :: packet_stream where
  "sample_stream = \<lparr>ps_running = False, ps_flag = 0x70, ps_synced = False, ps_seq = 0,
     ps_got_pkts = 0, ps_pkt_num = 0, ps_pkts_per_frame = 0, ps_pkt_size = 4, ps_frame_size = 0,
     ps_last_pkt_size = 0, ps_valid_pkts = 0, ps_lost_pkts = 0, ps_valid_frames = 0,
     ps_variable_length = False, ps_last_timestamp = 0, ps_timestamp = 0, ps_split_bufs = False,
     ps_lib_buf = NULL, ps_usr_buf = NULL, ps_raw_buf = NULL, ps_proc_buf = NULL\<rparr>"

lemma sample_heap_wf: "heap_wf sample_heap"
  by (simp add: sample_heap_def heap_wf_def)

text \<open>C1: Memory safety of the packet reassembler.  Whatever packets the USB device delivers,
  in whatever order, with whatever headers and lengths, a stream set up by \<open>stream_init\<close> with
  a client buffer of at least the announced size (or none) processes all of them without
  touching a byte outside its raw buffer or reading one outside the packet (the fixed header or the
  payload), and its geometry invariant survives.\<close>

theorem stream_never_faults:
  assumes "heap_wf h" "0 < ps_pkt_size s" "0 \<le> rlen" "0 < plen"
    "ps_usr_buf s \<noteq> NULL \<Longrightarrow> \<exists>n. block_size h (ps_usr_buf s) = Some n \<and> plen \<le> int n"
    "stream_init h s rlen plen = (s', h')"
  shows "\<exists>rs s'' h''. stream_run h' s' pkts = Some (rs, s'', h'') \<and> stream_ok h'' s''"
  using stream_run_ok [OF stream_init_ok [OF assms]] .

theorem stream_never_faults_witness:
  "\<exists>rs s'' h''. stream_run (snd (stream_init sample_heap sample_stream 0 10))
      (fst (stream_init sample_heap sample_stream 0 10)) [[1, 2, 3], replicate 40 0x52] =
      Some (rs, s'', h'') \<and> stream_ok h'' s''"
  by (rule stream_never_faults [where h = sample_heap and s = sample_stream and rlen = 0 and plen = 10])
    (simp_all add: sample_heap_wf sample_stream_def)

text \<open>C3: A frame the camera sends as packets arrives intact.  From a stream waiting for a
  frame, the packets of a frame received in order return 0 for all but the last and the frame
  size for the last; then the raw buffer holds exactly the frame, the stream waits for the
  next sequence number, and the packet and frame counters and the timestamp are those of this
  frame.\<close>

theorem frame_delivered:
  assumes "stream_ok h s" "\<not> ps_variable_length s" "flags_distinct s" "1 < ps_pkts_per_frame s"
    and "length frame = nat (ps_frame_size s)"
    and "\<not> ps_synced s \<or> ps_pkt_num s = 0 \<and> ps_got_pkts s = 0 \<and> ps_seq s = q"
  shows "\<exists>s' h'. stream_run h s (map (frame_packet s frame q ts) [0..<nat (ps_pkts_per_frame s)]) =
      Some (replicate (nat (ps_pkts_per_frame s) - 1) 0 @ [ps_frame_size s], s', h')
    \<and> mem_read (ps_raw_buf s) 0 (nat (ps_frame_size s)) h' = Some frame
    \<and> ps_synced s' \<and> ps_pkt_num s' = 0 \<and> ps_got_pkts s' = 0
    \<and> ps_seq s' = q + of_nat (nat (ps_pkts_per_frame s))
    \<and> ps_valid_pkts s' = ps_pkts_per_frame s \<and> ps_timestamp s' = ts
    \<and> ps_valid_frames s' = ps_valid_frames s + 1"
proof -
  from frame_roundtrip [OF assms, of ts] obtain h' where
    "stream_run h s (map (frame_packet s frame q ts) [0..<nat (ps_pkts_per_frame s)]) =
      Some (replicate (nat (ps_pkts_per_frame s) - 1) 0 @ [ps_frame_size s], frame_done s q ts, h')"
    "mem_read (ps_raw_buf s) 0 (nat (ps_frame_size s)) h' = Some frame" by blast
  moreover have "ps_synced (frame_done s q ts) \<and> ps_pkt_num (frame_done s q ts) = 0
      \<and> ps_got_pkts (frame_done s q ts) = 0
      \<and> ps_seq (frame_done s q ts) = q + of_nat (nat (ps_pkts_per_frame s))
      \<and> ps_valid_pkts (frame_done s q ts) = ps_pkts_per_frame s
      \<and> ps_timestamp (frame_done s q ts) = ts
      \<and> ps_valid_frames (frame_done s q ts) = ps_valid_frames s + 1"
    by (simp add: frame_done_def mid_state_def)
  ultimately show ?thesis by blast
qed

definition sample_started :: "packet_stream \<times> heap" where
  "sample_started = stream_init sample_heap sample_stream 0 10"

lemma sample_started_ok:
  "stream_ok (snd sample_started) (fst sample_started)"
  by (rule stream_init_ok [where h = sample_heap and s = sample_stream and rlen = 0 and plen = 10])
    (simp_all add: sample_heap_wf sample_stream_def sample_started_def)

lemma sample_started_fields:
  "ps_pkts_per_frame (fst sample_started) = 3" "ps_frame_size (fst sample_started) = 10"
  "ps_flag (fst sample_started) = 0x70" "\<not> ps_variable_length (fst sample_started)"
  "\<not> ps_synced (fst sample_started)" "ps_raw_buf (fst sample_started) = 1"
  by (simp_all add: sample_started_def stream_init_def stream_init_bufs_def stream_init_pkts_def
      malloc_def sample_stream_def sample_heap_def Let_def)

theorem frame_delivered_witness:
  "\<exists>s' h'. stream_run (snd sample_started) (fst sample_started)
      (map (frame_packet (fst sample_started) [1,2,3,4,5,6,7,8,9,10] 250 77) [0..<3]) =
      Some ([0, 0, 10], s', h')
    \<and> mem_read 1 0 10 h' = Some [1,2,3,4,5,6,7,8,9,10] \<and> ps_seq s' = 253"
  using frame_delivered [OF sample_started_ok, where frame = "[1,2,3,4,5,6,7,8,9,10]" and q = 250 and ts = 77]
  by (simp add: sample_started_fields flags_distinct_def numeral_2_eq_2) blast

text \<open>C28: What the handler reports.  With more than six packets per frame, every call returns
  either 0 or the frame size, and \<open>valid_frames\<close> counts exactly the calls that returned a
  frame, losses included.\<close>

theorem frames_counted:
  assumes "stream_ok h s" "\<not> ps_variable_length s" "flags_distinct s" "6 < ps_pkts_per_frame s"
    and "stream_run h s pkts = Some (rs, s', h')"
  shows "set rs \<subseteq> {0, ps_frame_size s}
    \<and> ps_valid_frames s' = ps_valid_frames s + int (length (filter (\<lambda>r. r \<noteq> 0) rs))"
  using stream_run_count [OF assms] .

definition sample_started7 :: "packet_stream \<times> heap" where
  "sample_started7 = stream_init sample_heap sample_stream 0 28"

lemma sample_started7_ok: "stream_ok (snd sample_started7) (fst sample_started7)"
  by (rule stream_init_ok [where h = sample_heap and s = sample_stream and rlen = 0 and plen = 28])
    (simp_all add: sample_heap_wf sample_stream_def sample_started7_def)

theorem frames_counted_witness:
  "\<exists>rs s' h'. stream_run (snd sample_started7) (fst sample_started7) [[], [0x52, 0x42]] = Some (rs, s', h')
    \<and> set rs \<subseteq> {0, 28} \<and> ps_valid_frames s' = int (length (filter (\<lambda>r. r \<noteq> 0) rs))"
proof -
  obtain rs s' h' where run: "stream_run (snd sample_started7) (fst sample_started7)
      [[], [0x52, 0x42]] = Some (rs, s', h')"
    using stream_run_ok [OF sample_started7_ok] by blast
  have "ps_valid_frames (fst sample_started7) = 0" "\<not> ps_variable_length (fst sample_started7)"
    "flags_distinct (fst sample_started7)" "6 < ps_pkts_per_frame (fst sample_started7)"
    "ps_frame_size (fst sample_started7) = 28"
    by (simp_all add: sample_started7_def stream_init_def stream_init_bufs_def stream_init_pkts_def
        malloc_def sample_stream_def sample_heap_def Let_def flags_distinct_def)
  then show ?thesis
    using run frames_counted [OF sample_started7_ok _ _ _ run] by (intro exI conjI) auto
qed

text \<open>Loss of synchronisation.  When the sequence number jumps by more than five (modulo
  256), the packet is dropped, nothing is stored, the loss is added to \<open>lost_pkts\<close>, and from
  then on every packet is dropped with the state unchanged until one carries the start-of-frame
  flag.\<close>

lemma big_gap_resyncs:
  assumes "ps_synced s" "pkt_hdr_size \<le> length pkt"
    and "hdr_magic0 (read_pkt_hdr pkt) = 0x52" "hdr_magic1 (read_pkt_hdr pkt) = 0x42"
    and "5 < hdr_seq (read_pkt_hdr pkt) - ps_seq s"
    and "\<forall>p \<in> set pkts. hdr_flag (read_pkt_hdr p) \<noteq> sof_flag s"
  shows "stream_run h s (pkt # pkts) =
    Some (replicate (Suc (length pkts)) 0,
          s\<lparr>ps_synced := False,
            ps_lost_pkts := ps_lost_pkts s + ucast (hdr_seq (read_pkt_hdr pkt) - ps_seq s)\<rparr>, h)"
proof -
  define s1 where "s1 = s\<lparr>ps_synced := False,
      ps_lost_pkts := ps_lost_pkts s + ucast (hdr_seq (read_pkt_hdr pkt) - ps_seq s)\<rparr>"
  have "ps_seq s \<noteq> hdr_seq (read_pkt_hdr pkt)" using assms(5) by auto
  then have "stream_process h s pkt None = Some (0, s1, h)"
    using assms(1-5)
    by (simp add: stream_process_eq Let_def stream_sync_def stream_lost_def s1_def)
  moreover have "stream_run h s1 pkts = Some (replicate (length pkts) 0, s1, h)"
    using assms(6) by (intro stream_unsynced_drop_run) (auto simp: s1_def sof_flag_def)
  ultimately show ?thesis by (simp add: s1_def)
qed

lemma big_gap_resyncs_example:
  "stream_run sample_heap (sample_stream\<lparr>ps_synced := True\<rparr>)
      [packet_of 0x72 9 0 [1, 2], packet_of 0x72 10 0 [3]] =
    Some ([0, 0], (sample_stream\<lparr>ps_synced := True\<rparr>)\<lparr>ps_synced := False, ps_lost_pkts := 9\<rparr>, sample_heap)"
  using big_gap_resyncs [where s = "sample_stream\<lparr>ps_synced := True\<rparr>" and h = sample_heap
      and pkt = "packet_of 0x72 9 0 [1, 2]" and pkts = "[packet_of 0x72 10 0 [3]]"]
  by (simp add: wire_simps sample_stream_def sof_flag_def)

text \<open>C8: The buffers of a stream have a clean life.  After \<open>stream_init\<close>, whatever packets
  arrive and however often the client exchanges its buffer with \<open>stream_setbuf\<close>,
  \<open>stream_freebufs\<close> frees every block the stream allocated, none twice, and no block of the
  client: the live blocks are those that were live before \<open>stream_init\<close>.\<close>

theorem stream_buffers_released:
  assumes "heap_wf h" "0 \<le> rlen" "0 < plen"
    and "ps_usr_buf s \<noteq> NULL \<Longrightarrow> \<exists>n. block_size h (ps_usr_buf s) = Some n \<and> plen \<le> int n"
    and "stream_init h s rlen plen = (s1, h1)" "stream_steps (h1, s1) es (h2, s2)"
  shows "\<exists>s3 h3. stream_freebufs h2 s2 = Some (s3, h3) \<and> dom (blocks h3) = dom (blocks h)"
proof -
  have "buffers_inv (dom (blocks h)) h1 s1" using stream_init_inv [OF assms(1-5)] .
  then have "buffers_inv (dom (blocks h)) h2 s2"
    using stream_steps_inv [OF assms(6), of "dom (blocks h)"] by simp
  then show ?thesis by (rule stream_freebufs_inv)
qed

theorem stream_buffers_released_witness:
  "\<exists>s3 h3. stream_freebufs (snd sample_started)
      (snd (stream_setbuf (fst sample_started) 17)) = Some (s3, h3) \<and> dom (blocks h3) = {}"
proof -
  have init: "stream_init sample_heap sample_stream 0 10 = (fst sample_started, snd sample_started)"
    by (simp add: sample_started_def)
  obtain r s2 where set: "stream_setbuf (fst sample_started) 17 = (r, s2)" by fastforce
  have "stream_steps (snd sample_started, fst sample_started) [Set_Buffer 17] (snd sample_started, s2)"
    by (rule steps_setbuf [OF set steps_nil])
  from stream_buffers_released [OF sample_heap_wf _ _ _ init this] set show ?thesis
    by (simp add: sample_stream_def sample_heap_def)
qed

end
