(* ===== verification/PixelUnpack.thy ===== *)
theory PixelUnpack
  imports Prelude
begin

text \<open>
  The unpackers of packed depth and infrared pixels: \<open>convert_packed_to_16bit\<close>,
  \<open>convert_packed_to_8bit\<close> and the unrolled \<open>convert_packed11_to_16bit\<close> of
  \<open>libfreenect/cameras.c\<close>, and \<open>unpack_8_pixels\<close> of \<open>libfreenect/registration.c\<close>.
  A read past the end of the source buffer is \<open>None\<close>.  The specification is the bit stream:
  bit \<open>j\<close> of a byte list, counted from the most significant bit of its first byte.
\<close>

section \<open>The generic unpackers\<close>

text \<open>The inner loop: shift bytes in until \<open>vw\<close> bits are there.\<close>

fun unpack_fill :: "nat \<Rightarrow> bytes \<Rightarrow> u32 \<Rightarrow> nat \<Rightarrow> (bytes \<times> u32 \<times> nat) option" where
  "unpack_fill vw [] buffer bitsIn =
     (if bitsIn < vw then None else Some ([], buffer, bitsIn))"
| "unpack_fill vw (b # src) buffer bitsIn =
     (if bitsIn < vw then unpack_fill vw src (push_bit 8 buffer OR ucast b) (bitsIn + 8)
      else Some (b # src, buffer, bitsIn))"

primrec unpack16_loop :: "nat \<Rightarrow> nat \<Rightarrow> bytes \<Rightarrow> u32 \<Rightarrow> nat \<Rightarrow> u16 list option" where
  "unpack16_loop vw 0 src buffer bitsIn = Some []"
| "unpack16_loop vw (Suc n) src buffer bitsIn =
     (case unpack_fill vw src buffer bitsIn of None \<Rightarrow> None
      | Some (src', buffer', bitsIn') \<Rightarrow>
          map_option ((#) (ucast (drop_bit (bitsIn' - vw) buffer' AND (push_bit vw 1 - 1))))
            (unpack16_loop vw n src' buffer' (bitsIn' - vw)))"

definition convert_packed_to_16bit :: "bytes \<Rightarrow> nat \<Rightarrow> nat \<Rightarrow> u16 list option" where
  "convert_packed_to_16bit src vw n = unpack16_loop vw n src 0 0"

primrec unpack8_loop :: "nat \<Rightarrow> nat \<Rightarrow> bytes \<Rightarrow> u32 \<Rightarrow> nat \<Rightarrow> u8 list option" where
  "unpack8_loop vw 0 src buffer bitsIn = Some []"
| "unpack8_loop vw (Suc n) src buffer bitsIn =
     (case unpack_fill vw src buffer bitsIn of None \<Rightarrow> None
      | Some (src', buffer', bitsIn') \<Rightarrow>
          map_option ((#) (ucast (drop_bit (bitsIn' - vw + vw - 8) buffer')))
            (unpack8_loop vw n src' buffer' (bitsIn' - vw)))"

definition convert_packed_to_8bit :: "bytes \<Rightarrow> nat \<Rightarrow> nat \<Rightarrow> u8 list option" where
  "convert_packed_to_8bit src vw n = unpack8_loop vw n src 0 0"

section \<open>The unrolled unpackers\<close>

definition unpack_8_pixels :: "bytes \<Rightarrow> u16 list option" where
  "unpack_8_pixels raw =
     (if length raw < 11 then None
      else
        (let r = (\<lambda>i. ucast (raw ! i) :: u32); baseMask = 0x7FF
         in Some (map ucast
              [push_bit 3 (r 0) OR drop_bit 5 (r 1),
               (push_bit 6 (r 1) OR drop_bit 2 (r 2)) AND baseMask,
               (push_bit 9 (r 2) OR push_bit 1 (r 3) OR drop_bit 7 (r 4)) AND baseMask,
               (push_bit 4 (r 4) OR drop_bit 4 (r 5)) AND baseMask,
               (push_bit 7 (r 5) OR drop_bit 1 (r 6)) AND baseMask,
               (push_bit 10 (r 6) OR push_bit 2 (r 7) OR drop_bit 6 (r 8)) AND baseMask,
               (push_bit 5 (r 8) OR drop_bit 3 (r 9)) AND baseMask,
               (push_bit 8 (r 9) OR r 10) AND baseMask])))"

text \<open>
  The loop of \<open>convert_packed11_to_16bit\<close>, whose body is the same eight assignments: eight
  pixels from eleven bytes while at least eight are left.
\<close>

fun convert_packed11_to_16bit :: "bytes \<Rightarrow> nat \<Rightarrow> u16 list option" where
  "convert_packed11_to_16bit raw n =
     (if 8 \<le> n then
        (case unpack_8_pixels raw of None \<Rightarrow> None
         | Some px \<Rightarrow> map_option ((@) px) (convert_packed11_to_16bit (drop 11 raw) (n - 8)))
      else Some [])"

declare convert_packed11_to_16bit.simps [simp del]

section \<open>The bit stream\<close>

definition src_bit :: "bytes \<Rightarrow> nat \<Rightarrow> bool" where
  "src_bit src j = bit (src ! (j div 8)) (7 - j mod 8)"

text \<open>\<open>w\<close> is the \<open>i\<close>th \<open>vw\<close>-bit field of the stream, most significant bit first.\<close>

definition packed_elem :: "nat \<Rightarrow> bytes \<Rightarrow> nat \<Rightarrow> u16 \<Rightarrow> bool" where
  "packed_elem vw src i w \<longleftrightarrow> (\<forall>b. bit w b \<longleftrightarrow> b < vw \<and> src_bit src ((i + 1) * vw - 1 - b))"

text \<open>The eight most significant bits of the \<open>i\<close>th field.\<close>

definition packed_elem_msb :: "nat \<Rightarrow> bytes \<Rightarrow> nat \<Rightarrow> u8 \<Rightarrow> bool" where
  "packed_elem_msb vw src i w \<longleftrightarrow> (\<forall>b. bit w b \<longleftrightarrow> b < 8 \<and> src_bit src (i * vw + 7 - b))"

lemma packed_elem_unique: "packed_elem vw src i v \<Longrightarrow> packed_elem vw src i w \<Longrightarrow> v = w"
  by (rule bit_word_eqI) (simp add: packed_elem_def)

lemma src_bit_drop: "src_bit (drop k src) j = src_bit src (8 * k + j)" if "j div 8 + k < length src"
  using that by (simp add: src_bit_def add.commute)

text \<open>
  Loop invariant: \<open>k\<close> bytes of \<open>orig\<close> were read, the buffer's low bits are the last bits
  read, and \<open>8 * k = used + bitsIn\<close>.
\<close>

definition fill_inv :: "bytes \<Rightarrow> nat \<Rightarrow> nat \<Rightarrow> bytes \<Rightarrow> u32 \<Rightarrow> nat \<Rightarrow> bool" where
  "fill_inv orig used k src buffer bitsIn \<longleftrightarrow> k \<le> length orig \<and> src = drop k orig
     \<and> 8 * k = used + bitsIn
     \<and> (\<forall>b. b < 32 \<and> b < 8 * k \<longrightarrow> (bit buffer b \<longleftrightarrow> src_bit orig (8 * k - 1 - b)))"

lemma fill_inv_step:
  assumes "fill_inv orig used k (b # src) buffer bitsIn"
  shows "fill_inv orig used (Suc k) src (push_bit 8 buffer OR ucast b) (bitsIn + 8)"
proof -
  have d: "drop k orig = b # src" using assms by (simp add: fill_inv_def)
  have k: "k < length orig" using d by (intro ccontr [of "k < length orig"]) simp
  have "b = orig ! k" using nth_via_drop [OF d] by simp
  moreover have "tl (drop k orig) = src" by (simp only: d list.sel)
  then have "src = drop (Suc k) orig" by (simp only: drop_Suc tl_drop)
  ultimately have k: "k < length orig" "b = orig ! k" "src = drop (Suc k) orig" using k by auto
  have "bit (push_bit 8 buffer OR ucast b) c \<longleftrightarrow> src_bit orig (8 * Suc k - 1 - c)"
    if "c < 32" "c < 8 * Suc k" for c
  proof (cases "c < 8")
    case True
    then have "8 * Suc k - 1 - c = (7 - c) + 8 * k" by simp
    then have "(8 * Suc k - 1 - c) div 8 = k" "(8 * Suc k - 1 - c) mod 8 = 7 - c" by simp_all
    then show ?thesis using True that k by (simp add: bit_simps src_bit_def)
  next
    case False
    then have idx: "8 * Suc k - 1 - c = 8 * k - 1 - (c - 8)" by simp
    have "bit (push_bit 8 buffer OR ucast b) c = bit buffer (c - 8)"
      using False that by (auto simp: bit_simps impossible_bit)
    moreover have "\<forall>b. b < 32 \<and> b < 8 * k \<longrightarrow> (bit buffer b \<longleftrightarrow> src_bit orig (8 * k - 1 - b))"
      using assms unfolding fill_inv_def by blast
    moreover have "c - 8 < 32" "c - 8 < 8 * k" using False that by auto
    ultimately have "bit buffer (c - 8) \<longleftrightarrow> src_bit orig (8 * k - 1 - (c - 8))"
      "bit (push_bit 8 buffer OR ucast b) c = bit buffer (c - 8)" by blast+
    then show ?thesis by (simp only: idx)
  qed
  then show ?thesis using k assms by (simp add: fill_inv_def)
qed

lemma unpack_fill_ok:
  assumes "fill_inv orig used k src buffer bitsIn" "used + vw \<le> 8 * length orig"
    "bitsIn < vw + 8"
  shows "\<exists>k' src' buffer' bitsIn'. unpack_fill vw src buffer bitsIn = Some (src', buffer', bitsIn')
    \<and> fill_inv orig used k' src' buffer' bitsIn' \<and> vw \<le> bitsIn' \<and> bitsIn' < vw + 8"
  using assms
proof (induction vw src buffer bitsIn arbitrary: k rule: unpack_fill.induct)
  case (1 vw buffer bitsIn)
  then show ?case by (auto simp: fill_inv_def)
next
  case (2 vw b src buffer bitsIn)
  show ?case
  proof (cases "bitsIn < vw")
    case True
    from "2.IH" [OF True fill_inv_step [OF "2.prems"(1)] "2.prems"(2)] True
    show ?thesis by simp
  next
    case False
    with "2.prems" show ?thesis by auto
  qed
qed

text \<open>Taking the next field off the buffer.\<close>

lemma fill_inv_take:
  "fill_inv orig used k src buffer bitsIn \<Longrightarrow> vw \<le> bitsIn \<Longrightarrow>
     fill_inv orig (used + vw) k src buffer (bitsIn - vw)"
  by (auto simp: fill_inv_def)

lemma fill_inv_elem:
  assumes inv: "fill_inv orig (i * vw) k src buffer bitsIn" and vw: "vw \<le> bitsIn" "bitsIn < vw + 8"
    "vw \<le> 16"
  shows "packed_elem vw orig i (ucast (drop_bit (bitsIn - vw) buffer AND (push_bit vw 1 - 1)))"
  unfolding packed_elem_def
proof
  fix b
  show "bit (ucast (drop_bit (bitsIn - vw) buffer AND (push_bit vw 1 - 1)) :: u16) b \<longleftrightarrow>
      b < vw \<and> src_bit orig ((i + 1) * vw - 1 - b)"
  proof (cases "b < vw")
    case True
    have "8 * k = i * vw + bitsIn" using inv by (simp add: fill_inv_def)
    moreover from this have "8 * k - 1 - (b + (bitsIn - vw)) = (i + 1) * vw - 1 - b"
      using True vw by simp
    moreover have "b + (bitsIn - vw) < 32" "b + (bitsIn - vw) < 8 * k"
      using True vw calculation by auto
    ultimately have "bit buffer (b + (bitsIn - vw)) \<longleftrightarrow> src_bit orig ((i + 1) * vw - 1 - b)"
      using inv unfolding fill_inv_def by metis
    then show ?thesis using True vw
      by (auto simp: bit_simps mask_eq_exp_minus_1 [symmetric] push_bit_of_1 add.commute)
  next
    case False
    then show ?thesis by (auto simp: bit_simps mask_eq_exp_minus_1 [symmetric] push_bit_of_1)
  qed
qed

lemma fill_inv_msb:
  assumes inv: "fill_inv orig (i * vw) k src buffer bitsIn" and vw: "vw \<le> bitsIn" "bitsIn < vw + 8"
    "8 \<le> vw" "vw \<le> 24"
  shows "packed_elem_msb vw orig i (ucast (drop_bit (bitsIn - vw + vw - 8) buffer))"
  unfolding packed_elem_msb_def
proof
  fix b
  show "bit (ucast (drop_bit (bitsIn - vw + vw - 8) buffer) :: u8) b \<longleftrightarrow>
      b < 8 \<and> src_bit orig (i * vw + 7 - b)"
  proof (cases "b < 8")
    case True
    have "8 * k = i * vw + bitsIn" using inv by (simp add: fill_inv_def)
    moreover from this have "8 * k - 1 - (b + (bitsIn - 8)) = i * vw + 7 - b"
      using True vw by simp
    moreover have "b + (bitsIn - 8) < 32" "b + (bitsIn - 8) < 8 * k"
      using True vw calculation by auto
    ultimately have "bit buffer (b + (bitsIn - 8)) \<longleftrightarrow> src_bit orig (i * vw + 7 - b)"
      using inv unfolding fill_inv_def by metis
    then show ?thesis using True vw by (auto simp: bit_simps add.commute)
  next
    case False
    then show ?thesis by (auto simp: bit_simps)
  qed
qed

lemma unpack16_loop_ok:
  assumes "fill_inv orig (i * vw) k src buffer bitsIn" "bitsIn < 8" "vw \<le> 16" "(i + n) * vw \<le> 8 * length orig"
  shows "\<exists>out. unpack16_loop vw n src buffer bitsIn = Some out \<and> length out = n
    \<and> (\<forall>j < n. packed_elem vw orig (i + j) (out ! j))"
  using assms
proof (induction n arbitrary: i k src buffer bitsIn)
  case 0
  then show ?case by simp
next
  case (Suc n)
  have "i * vw + vw \<le> 8 * length orig" using Suc.prems(4) by (simp add: algebra_simps)
  from unpack_fill_ok [OF Suc.prems(1) this] Suc.prems(2) obtain k' src' buffer' bitsIn' where
    f: "unpack_fill vw src buffer bitsIn = Some (src', buffer', bitsIn')"
      "fill_inv orig (i * vw) k' src' buffer' bitsIn'" "vw \<le> bitsIn'" "bitsIn' < vw + 8"
    by fastforce
  have inv: "fill_inv orig (Suc i * vw) k' src' buffer' (bitsIn' - vw)"
    using fill_inv_take [OF f(2,3)] by (simp add: add.commute)
  have small: "bitsIn' - vw < 8" using f(3,4) by simp
  from Suc.IH [OF inv small] Suc.prems(3,4) obtain out where
    out: "unpack16_loop vw n src' buffer' (bitsIn' - vw) = Some out" "length out = n"
      "\<forall>j < n. packed_elem vw orig (Suc i + j) (out ! j)"
    by (auto simp: algebra_simps)
  show ?case
    using f(1) out fill_inv_elem [OF f(2-4) Suc.prems(3)]
    by (auto simp: less_Suc_eq_0_disj)
qed

lemma unpack8_loop_ok:
  assumes "fill_inv orig (i * vw) k src buffer bitsIn" "bitsIn < 8" "8 \<le> vw" "vw \<le> 24"
    "(i + n) * vw \<le> 8 * length orig"
  shows "\<exists>out. unpack8_loop vw n src buffer bitsIn = Some out \<and> length out = n
    \<and> (\<forall>j < n. packed_elem_msb vw orig (i + j) (out ! j))"
  using assms
proof (induction n arbitrary: i k src buffer bitsIn)
  case 0
  then show ?case by simp
next
  case (Suc n)
  have "i * vw + vw \<le> 8 * length orig" using Suc.prems(5) by (simp add: algebra_simps)
  from unpack_fill_ok [OF Suc.prems(1) this] Suc.prems(2) obtain k' src' buffer' bitsIn' where
    f: "unpack_fill vw src buffer bitsIn = Some (src', buffer', bitsIn')"
      "fill_inv orig (i * vw) k' src' buffer' bitsIn'" "vw \<le> bitsIn'" "bitsIn' < vw + 8"
    by fastforce
  have inv: "fill_inv orig (Suc i * vw) k' src' buffer' (bitsIn' - vw)"
    using fill_inv_take [OF f(2,3)] by (simp add: add.commute)
  have small: "bitsIn' - vw < 8" using f(3,4) by simp
  from Suc.IH [OF inv small] Suc.prems(3-5) obtain out where
    out: "unpack8_loop vw n src' buffer' (bitsIn' - vw) = Some out" "length out = n"
      "\<forall>j < n. packed_elem_msb vw orig (Suc i + j) (out ! j)"
    by (auto simp: algebra_simps)
  show ?case
    using f(1) out fill_inv_msb [OF f(2-4) Suc.prems(3,4)]
    by (auto simp: less_Suc_eq_0_disj)
qed

lemma fill_inv_start: "fill_inv src (0 * vw) 0 src 0 0"
  by (simp add: fill_inv_def)

section \<open>The unrolled loop against the bit stream\<close>

lemma nat_less_8_cases:
  "(i::nat) < 8 \<Longrightarrow> i = 0 \<or> i = 1 \<or> i = 2 \<or> i = 3 \<or> i = 4 \<or> i = 5 \<or> i = 6 \<or> i = 7"
  by presburger

lemma nat_less_11_cases:
  "(i::nat) < 11 \<Longrightarrow> i = 0 \<or> i = 1 \<or> i = 2 \<or> i = 3 \<or> i = 4 \<or> i = 5 \<or> i = 6 \<or> i = 7
     \<or> i = 8 \<or> i = 9 \<or> i = 10"
  by presburger

lemma mask11: "(0x7FF :: u32) = mask 11"
  by (simp add: mask_eq_exp_minus_1)

text \<open>The bits of one field assembled from two or three neighbouring bytes.\<close>

lemma field2_bits:
  fixes a c :: u8
  shows "b < 11 \<Longrightarrow> bit (ucast ((push_bit l (ucast a) OR drop_bit m (ucast c)) AND (0x7FF :: u32)) :: u16) b
    \<longleftrightarrow> (l \<le> b \<and> bit a (b - l)) \<or> bit c (m + b)"
  unfolding mask11 by (auto simp: bit_simps impossible_bit)

lemma field3_bits:
  fixes a c e :: u8
  shows "b < 11 \<Longrightarrow> bit (ucast ((push_bit l (ucast a) OR push_bit k (ucast c) OR drop_bit m (ucast e))
      AND (0x7FF :: u32)) :: u16) b
    \<longleftrightarrow> (l \<le> b \<and> bit a (b - l)) \<or> (k \<le> b \<and> bit c (b - k)) \<or> bit e (m + b)"
  unfolding mask11 by (auto simp: bit_simps impossible_bit)

lemma field3_bits_1:
  fixes a c e :: u8
  shows "b < 11 \<Longrightarrow> bit (ucast ((push_bit l (ucast a) OR ucast c * 2 OR drop_bit m (ucast e))
      AND (0x7FF :: u32)) :: u16) b
    \<longleftrightarrow> (l \<le> b \<and> bit a (b - l)) \<or> (1 \<le> b \<and> bit c (b - 1)) \<or> bit e (m + b)"
  using field3_bits [of b l a 1 c m e] by simp

lemma field_first_bits:
  fixes a c :: u8
  shows "bit (ucast (push_bit 3 (ucast a) OR drop_bit 5 (ucast c) :: u32) :: u16) b
    \<longleftrightarrow> b < 11 \<and> ((3 \<le> b \<and> bit a (b - 3)) \<or> bit c (5 + b))"
  by (auto simp: bit_simps impossible_bit dest: bit_imp_le_length)

lemma field_last_bits:
  fixes a c :: u8
  shows "b < 11 \<Longrightarrow> bit (ucast ((push_bit 8 (ucast a) OR ucast c) AND (0x7FF :: u32)) :: u16) b
    \<longleftrightarrow> (8 \<le> b \<and> bit a (b - 8)) \<or> bit c b"
  unfolding mask11 by (auto simp: bit_simps impossible_bit)

lemma field_masked: "bit (ucast (x AND (0x7FF :: u32)) :: u16) b \<Longrightarrow> b < 11"
  unfolding mask11 by (auto simp: bit_simps)

lemma packed_elem11I:
  assumes "\<And>b. bit w b \<Longrightarrow> b < 11"
    and "\<forall>b \<in> {0,1,2,3,4,5,6,7,8,9,10}. bit w b \<longleftrightarrow> src_bit raw ((i + 1) * 11 - 1 - b)"
  shows "packed_elem 11 raw i w"
  unfolding packed_elem_def
proof
  fix b
  show "bit w b \<longleftrightarrow> b < 11 \<and> src_bit raw ((i + 1) * 11 - 1 - b)"
  proof (cases "b < 11")
    case True
    then have "b \<in> {0,1,2,3,4,5,6,7,8,9,10}" using nat_less_11_cases by simp
    with assms(2) True show ?thesis by blast
  next
    case False
    with assms(1) show ?thesis by blast
  qed
qed

lemma unpack_pixel0:
  "packed_elem 11 raw 0 (ucast (push_bit 3 (ucast (raw ! 0)) OR drop_bit 5 (ucast (raw ! 1)) :: u32))"
  by (rule packed_elem11I, simp add: field_first_bits)
    (simp add: field_first_bits src_bit_def impossible_bit)

lemma unpack_pixel1:
  "packed_elem 11 raw 1 (ucast ((push_bit 6 (ucast (raw ! 1)) OR drop_bit 2 (ucast (raw ! 2))) AND (0x7FF :: u32)))"
  by (rule packed_elem11I, erule field_masked)
    (simp add: field2_bits src_bit_def impossible_bit)

lemma unpack_pixel2:
  "packed_elem 11 raw 2 (ucast ((push_bit 9 (ucast (raw ! 2)) OR push_bit 1 (ucast (raw ! 3))
       OR drop_bit 7 (ucast (raw ! 4))) AND (0x7FF :: u32)))"
  by (rule packed_elem11I, erule field_masked)
    (simp add: field3_bits_1 src_bit_def impossible_bit)

lemma unpack_pixel3:
  "packed_elem 11 raw 3 (ucast ((push_bit 4 (ucast (raw ! 4)) OR drop_bit 4 (ucast (raw ! 5))) AND (0x7FF :: u32)))"
  by (rule packed_elem11I, erule field_masked)
    (simp add: field2_bits src_bit_def impossible_bit)

lemma unpack_pixel4:
  "packed_elem 11 raw 4 (ucast ((push_bit 7 (ucast (raw ! 5)) OR drop_bit 1 (ucast (raw ! 6))) AND (0x7FF :: u32)))"
  by (rule packed_elem11I, erule field_masked)
    (simp only: ball_simps field2_bits, simp add: src_bit_def impossible_bit numeral_2_eq_2 numeral_3_eq_3, simp add: eval_nat_numeral)

lemma unpack_pixel5:
  "packed_elem 11 raw 5 (ucast ((push_bit 10 (ucast (raw ! 6)) OR push_bit 2 (ucast (raw ! 7))
       OR drop_bit 6 (ucast (raw ! 8))) AND (0x7FF :: u32)))"
  by (rule packed_elem11I, erule field_masked)
    (simp add: field3_bits src_bit_def impossible_bit)

lemma unpack_pixel6:
  "packed_elem 11 raw 6 (ucast ((push_bit 5 (ucast (raw ! 8)) OR drop_bit 3 (ucast (raw ! 9))) AND (0x7FF :: u32)))"
  by (rule packed_elem11I, erule field_masked)
    (simp add: field2_bits src_bit_def impossible_bit)

lemma unpack_pixel7:
  "packed_elem 11 raw 7 (ucast ((push_bit 8 (ucast (raw ! 9)) OR ucast (raw ! 10)) AND (0x7FF :: u32)))"
  by (rule packed_elem11I, erule field_masked)
    (simp add: field_last_bits src_bit_def impossible_bit)

lemmas unpack_pixel = unpack_pixel0 unpack_pixel1 unpack_pixel2 unpack_pixel3 unpack_pixel4
  unpack_pixel5 unpack_pixel6 unpack_pixel7

lemma unpack_8_pixels_ok:
  assumes "11 \<le> length raw"
  shows "\<exists>px. unpack_8_pixels raw = Some px \<and> length px = 8 \<and> (\<forall>i < 8. packed_elem 11 raw i (px ! i))"
proof -
  obtain px where px: "unpack_8_pixels raw = Some px" "length px = 8"
    using assms by (simp add: unpack_8_pixels_def Let_def)
  have "packed_elem 11 raw i (px ! i)" if "i < 8" for i
    using px(1) assms nat_less_8_cases [OF that] unpack_pixel [of raw]
    by (auto simp: unpack_8_pixels_def Let_def)
  with px show ?thesis by blast
qed

lemma packed_elem_drop:
  assumes "packed_elem 11 (drop 11 raw) i w" "11 * (i + 9) \<le> 8 * length raw"
  shows "packed_elem 11 raw (i + 8) w"
proof -
  have "src_bit (drop 11 raw) ((i + 1) * 11 - 1 - b) = src_bit raw ((i + 8 + 1) * 11 - 1 - b)"
    if "b < 11" for b
  proof -
    have "(i + 8 + 1) * 11 - 1 - b = 8 * 11 + ((i + 1) * 11 - 1 - b)" using that by simp
    moreover have "((i + 1) * 11 - 1 - b) div 8 < length raw - 11"
      by (rule less_mult_imp_div_less) (use that assms(2) in simp)
    then have "((i + 1) * 11 - 1 - b) div 8 + 11 < length raw" by simp
    ultimately show ?thesis by (simp only: src_bit_drop)
  qed
  then show ?thesis using assms(1) by (auto simp: packed_elem_def)
qed

lemma convert_packed11_ok:
  "n mod 8 = 0 \<Longrightarrow> 11 * n \<le> 8 * length raw \<Longrightarrow>
     \<exists>out. convert_packed11_to_16bit raw n = Some out \<and> length out = n
       \<and> (\<forall>i < n. packed_elem 11 raw i (out ! i))"
proof (induction raw n rule: convert_packed11_to_16bit.induct)
  case (1 raw n)
  show ?case
  proof (cases "8 \<le> n")
    case False
    then have "n = 0" using "1.prems" by (cases "n < 8") auto
    then show ?thesis by (simp add: convert_packed11_to_16bit.simps)
  next
    case True
    then have "11 \<le> length raw" using "1.prems" by linarith
    then obtain px where px: "unpack_8_pixels raw = Some px" "length px = 8"
      "\<forall>i < 8. packed_elem 11 raw i (px ! i)" using unpack_8_pixels_ok by blast
    have "(n - 8) mod 8 = 0" using "1.prems" True by (metis le_mod_geq)
    moreover have le: "11 * (n - 8) \<le> 8 * length (drop 11 raw)"
      using "1.prems" True by (simp add: diff_mult_distrib2)
    ultimately obtain out where out: "convert_packed11_to_16bit (drop 11 raw) (n - 8) = Some out"
      "length out = n - 8" "\<forall>i < n - 8. packed_elem 11 (drop 11 raw) i (out ! i)"
      using "1.IH" [OF True px(1)] le by auto
    have "packed_elem 11 raw i ((px @ out) ! i)" if "i < n" for i
    proof (cases "i < 8")
      case True
      then show ?thesis using px by (simp add: nth_append)
    next
      case False
      then have "packed_elem 11 (drop 11 raw) (i - 8) (out ! (i - 8))" using that out(3) by simp
      then have "packed_elem 11 raw (i - 8 + 8) (out ! (i - 8))"
        by (rule packed_elem_drop) (use that "1.prems"(2) False le in simp)
      then show ?thesis using False px(2) by (simp add: nth_append)
    qed
    then show ?thesis
      using True px out by (simp add: convert_packed11_to_16bit.simps [of raw n])
  qed
qed

section \<open>Properties\<close>

text \<open>C32: \<open>convert_packed_to_16bit\<close> reads nothing past the packed buffer, and
  its \<open>i\<close>th output is exactly the \<open>i\<close>th \<open>vw\<close>-bit field of the source bit stream, zero
  padded to 16 bits, for every width of 1 to 16 bits and every count the buffer holds.\<close>
theorem convert_packed_to_16bit_correct:
  assumes "0 < vw" "vw \<le> 16" "n * vw \<le> 8 * length src"
  shows "\<exists>out. convert_packed_to_16bit src vw n = Some out \<and> length out = n
    \<and> (\<forall>i < n. packed_elem vw src i (out ! i))"
  using unpack16_loop_ok [OF fill_inv_start, where n = n and vw = vw and orig = src] assms
  by (simp add: convert_packed_to_16bit_def)

theorem convert_packed_to_16bit_correct_witness:
  "\<exists>out. convert_packed_to_16bit [0xAB, 0xCD, 0xEF] 12 2 = Some out \<and> length out = 2
    \<and> packed_elem 12 [0xAB, 0xCD, 0xEF] 0 (out ! 0) \<and> packed_elem 12 [0xAB, 0xCD, 0xEF] 1 (out ! 1)"
  using convert_packed_to_16bit_correct [of 12 2 "[0xAB, 0xCD, 0xEF]"]
  by (auto simp: numeral_2_eq_2)

text \<open>\<open>convert_packed_to_8bit\<close> reads nothing past the packed buffer, and its
  \<open>i\<close>th output is the eight most significant bits of the \<open>i\<close>th field, for every width of
  8 to 24 bits.\<close>
lemma convert_packed_to_8bit_correct:
  assumes "8 \<le> vw" "vw \<le> 24" "n * vw \<le> 8 * length src"
  shows "\<exists>out. convert_packed_to_8bit src vw n = Some out \<and> length out = n
    \<and> (\<forall>i < n. packed_elem_msb vw src i (out ! i))"
  using unpack8_loop_ok [OF fill_inv_start, where n = n and vw = vw and orig = src] assms
  by (simp add: convert_packed_to_8bit_def)

lemma convert_packed_to_8bit_correct_example:
  "\<exists>out. convert_packed_to_8bit [0xAB, 0xCD, 0xEF] 10 2 = Some out \<and> length out = 2
    \<and> packed_elem_msb 10 [0xAB, 0xCD, 0xEF] 0 (out ! 0)
    \<and> packed_elem_msb 10 [0xAB, 0xCD, 0xEF] 1 (out ! 1)"
  using convert_packed_to_8bit_correct [of 10 2 "[0xAB, 0xCD, 0xEF]"]
  by (auto simp: numeral_2_eq_2)

text \<open>The unrolled unpacker computes the same pixels as the generic one at
  width 11, on every buffer that holds a multiple of eight pixels.\<close>
lemma convert_packed11_unrolled:
  assumes "n mod 8 = 0" "11 * n \<le> 8 * length raw"
  shows "convert_packed11_to_16bit raw n = convert_packed_to_16bit raw 11 n"
proof -
  obtain a where a: "convert_packed11_to_16bit raw n = Some a" "length a = n"
    "\<forall>i < n. packed_elem 11 raw i (a ! i)" using convert_packed11_ok [OF assms] by blast
  obtain b where b: "convert_packed_to_16bit raw 11 n = Some b" "length b = n"
    "\<forall>i < n. packed_elem 11 raw i (b ! i)"
    using unpack16_loop_ok [OF fill_inv_start, where n = n and vw = 11 and orig = raw] assms
    by (auto simp: convert_packed_to_16bit_def)
  have "a = b" using a b by (intro nth_equalityI) (auto intro: packed_elem_unique)
  with a b show ?thesis by simp
qed

lemma convert_packed11_unrolled_example:
  "convert_packed11_to_16bit [1, 2, 3, 4, 5, 6, 7, 8, 9, 10, 11] 8
     = convert_packed_to_16bit [1, 2, 3, 4, 5, 6, 7, 8, 9, 10, 11] 11 8"
  by (rule convert_packed11_unrolled) simp_all

end
