(* ===== verification/ColorConvert.thy ===== *)
theory ColorConvert
  imports Prelude "HOL-Library.Signed_Division"
begin

text \<open>
  The colour converters of \<open>libfreenect/cameras.c\<close>: \<open>convert_uyvy_to_rgb\<close> and the Bayer
  demosaicing \<open>convert_bayer_to_rgb\<close> with its two 32 bit shift buffers.  The first yields the
  new contents of \<open>proc_buf\<close>, the second the bytes it writes there from the start on;
  \<open>None\<close> is an access outside a buffer.
\<close>

section \<open>YUV\<close>

text \<open>The macro \<open>CLAMP\<close>.\<close>

definition CLAMP :: "int \<Rightarrow> int" where
  "CLAMP x = (let x = (if x < 0 then 0 else x) in if x > 255 then 255 else x)"

definition uyvy_red :: "int \<Rightarrow> int \<Rightarrow> int" where
  "uyvy_red y v = (y - 16) * 1164 sdiv 1000 + (v - 128) * 1596 sdiv 1000"

definition uyvy_green :: "int \<Rightarrow> int \<Rightarrow> int \<Rightarrow> int" where
  "uyvy_green y u v =
     (y - 16) * 1164 sdiv 1000 - (v - 128) * 813 sdiv 1000 - (u - 128) * 391 sdiv 1000"

definition uyvy_blue :: "int \<Rightarrow> int \<Rightarrow> int" where
  "uyvy_blue y u = (y - 16) * 1164 sdiv 1000 + (u - 128) * 2018 sdiv 1000"

text \<open>The body of the inner loop: two pixels from the bytes \<open>u, y1, v, y2\<close>.\<close>

definition uyvy_pair :: "u8 \<Rightarrow> u8 \<Rightarrow> u8 \<Rightarrow> u8 \<Rightarrow> bytes" where
  "uyvy_pair ub y1b vb y2b =
     (let u = uint ub; y1 = uint y1b; v = uint vb; y2 = uint y2b
      in [word_of_int (CLAMP (uyvy_red y1 v)), word_of_int (CLAMP (uyvy_green y1 u v)),
          word_of_int (CLAMP (uyvy_blue y1 u)), word_of_int (CLAMP (uyvy_red y2 v)),
          word_of_int (CLAMP (uyvy_green y2 u v)), word_of_int (CLAMP (uyvy_blue y2 u))])"

text \<open>One round of the loop over \<open>x = 2 * k\<close>, and the two loops.\<close>

definition uyvy_body :: "bytes \<Rightarrow> nat \<Rightarrow> nat \<Rightarrow> nat \<Rightarrow> bytes \<Rightarrow> bytes option" where
  "uyvy_body raw width y k proc_buf =
     (let i = width * y + 2 * k
      in case get_bytes (2 * i) 4 raw of None \<Rightarrow> None
         | Some b \<Rightarrow> put_bytes (3 * i) (uyvy_pair (b ! 0) (b ! 1) (b ! 2) (b ! 3)) proc_buf)"

definition convert_uyvy_to_rgb :: "bytes \<Rightarrow> nat \<Rightarrow> nat \<Rightarrow> bytes \<Rightarrow> bytes option" where
  "convert_uyvy_to_rgb raw width height proc_buf =
     for_loop (\<lambda>y. for_loop (uyvy_body raw width y) ((width + 1) div 2) 0) height 0 proc_buf"

section \<open>Bayer demosaicing\<close>

text \<open>\<open>(a + b) >> 1\<close> on two bytes promoted to \<open>int\<close>.\<close>

definition avg8 :: "u8 \<Rightarrow> u8 \<Rightarrow> u8" where
  "avg8 a b = ucast (drop_bit 1 (ucast a + ucast b :: u32))"

text \<open>
  The three bytes of a pixel.  \<open>cross\<close> is the average over the four diagonal neighbours, which
  the loop body and the last column compute differently.
\<close>

definition bayer_emit :: "bool \<Rightarrow> bool \<Rightarrow> u32 \<Rightarrow> u32 \<Rightarrow> u8 \<Rightarrow> u8 \<Rightarrow> bytes" where
  "bayer_emit yOdd xOdd hVals vSums hSum cross =
     (if \<not> yOdd then
        (if \<not> xOdd then [hSum, ucast (drop_bit 8 hVals), ucast (drop_bit 8 vSums)]
         else [ucast (drop_bit 8 hVals), avg8 hSum (ucast (drop_bit 8 vSums)), cross])
      else
        (if \<not> xOdd then [cross, avg8 hSum (ucast (drop_bit 8 vSums)), ucast (drop_bit 8 hVals)]
         else [ucast (drop_bit 8 vSums), ucast (drop_bit 8 hVals), hSum]))"

text \<open>\<open>a + b\<close> on two bytes, in 32 bits.\<close>

definition sum8 :: "u8 \<Rightarrow> u8 \<Rightarrow> u32" where
  "sum8 a b = ucast a + ucast b"

text \<open>The loop over \<open>x\<close>, then the last column; the three lists are what the line pointers
  point at.\<close>

fun bayer_cols :: "bool \<Rightarrow> bool \<Rightarrow> nat \<Rightarrow> bytes \<Rightarrow> bytes \<Rightarrow> bytes \<Rightarrow> u32 \<Rightarrow> u32 \<Rightarrow> bytes option" where
  "bayer_cols yOdd xOdd 0 prevLine curLine nextLine hVals vSums =
     (let hVals = hVals OR ucast (ucast (drop_bit 16 hVals) :: u8);
          vSums = vSums OR ucast (ucast (drop_bit 16 vSums) :: u8)
      in Some (bayer_emit yOdd xOdd hVals vSums (ucast hVals) (ucast vSums)))"
| "bayer_cols yOdd xOdd (Suc n) (p # prevLine) (c # curLine) (q # nextLine) hVals vSums =
     (let hVals = hVals OR ucast c;
          vSums = vSums OR drop_bit 1 (sum8 p q);
          hSum = avg8 (ucast (drop_bit 16 hVals)) (ucast hVals)
      in map_option ((@) (bayer_emit yOdd xOdd hVals vSums hSum
             (avg8 (ucast (drop_bit 16 vSums)) (ucast vSums))))
           (bayer_cols yOdd (\<not> xOdd) n prevLine curLine nextLine (push_bit 8 hVals) (push_bit 8 vSums)))"
| "bayer_cols yOdd xOdd (Suc n) prevLine curLine nextLine hVals vSums = None"

definition bayer_line :: "bool \<Rightarrow> nat \<Rightarrow> bytes \<Rightarrow> bytes \<Rightarrow> bytes \<Rightarrow> bytes option" where
  "bayer_line yOdd width prevLine curLine nextLine =
     (case (prevLine, curLine, nextLine) of
        (p # prevLine', c # curLine', q # nextLine') \<Rightarrow>
          (case (prevLine', curLine', nextLine') of
             (p1 # _, c1 # _, q1 # _) \<Rightarrow>
               bayer_cols yOdd False (width - 1) prevLine' curLine' nextLine'
                 (push_bit 8 (ucast c) OR push_bit 16 (ucast c1))
                 ((push_bit 7 (sum8 p q) AND 0xFF00) OR (push_bit 15 (sum8 p1 q1) AND 0xFF0000))
           | _ \<Rightarrow> None)
      | _ \<Rightarrow> None)"

text \<open>The loop over \<open>y\<close>; \<open>prev\<close> and \<open>next\<close> are the offsets of the line pointers.\<close>

primrec bayer_lines :: "bytes \<Rightarrow> nat \<Rightarrow> nat \<Rightarrow> nat \<Rightarrow> nat \<Rightarrow> nat \<Rightarrow> nat \<Rightarrow> bytes option" where
  "bayer_lines raw width height 0 cur prev nxt = Some []"
| "bayer_lines raw width height (Suc n) cur prev nxt =
     (let y = height - Suc n;
          prev' = (if y > 0 \<and> y < height - 1 then cur - width
                   else if y = 0 then nxt else prev);
          nxt' = (if \<not> (y > 0 \<and> y < height - 1) \<and> y \<noteq> 0 then prev' else nxt)
      in (case bayer_line (odd y) width (drop prev' raw) (drop cur raw) (drop nxt' raw) of None \<Rightarrow> None
          | Some line \<Rightarrow>
              map_option ((@) line)
                (bayer_lines raw width height n (cur + width) (prev' + width) (nxt' + width))))"

definition convert_bayer_to_rgb :: "bytes \<Rightarrow> nat \<Rightarrow> nat \<Rightarrow> bytes option" where
  "convert_bayer_to_rgb raw width height = bayer_lines raw width height height 0 0 width"

section \<open>Reference: one pixel at a time\<close>

text \<open>Coordinates mirrored at the borders.\<close>

definition before :: "nat \<Rightarrow> nat" where "before x = (if x = 0 then 1 else x - 1)"
definition after :: "nat \<Rightarrow> nat \<Rightarrow> nat" where "after w x = (if x + 1 = w then w - 2 else x + 1)"

definition px :: "bytes \<Rightarrow> nat \<Rightarrow> nat \<Rightarrow> nat \<Rightarrow> u8" where
  "px raw w x y = raw ! (y * w + x)"

definition h_avg :: "bytes \<Rightarrow> nat \<Rightarrow> nat \<Rightarrow> nat \<Rightarrow> u8" where
  "h_avg raw w x y = avg8 (px raw w (before x) y) (px raw w (after w x) y)"

definition v_avg :: "bytes \<Rightarrow> nat \<Rightarrow> nat \<Rightarrow> nat \<Rightarrow> nat \<Rightarrow> u8" where
  "v_avg raw w h x y = avg8 (px raw w x (before y)) (px raw w x (after h y))"

definition diag_avg :: "bytes \<Rightarrow> nat \<Rightarrow> nat \<Rightarrow> nat \<Rightarrow> nat \<Rightarrow> u8" where
  "diag_avg raw w h x y = avg8 (v_avg raw w h (before x) y) (v_avg raw w h (after w x) y)"

definition cross_avg :: "bytes \<Rightarrow> nat \<Rightarrow> nat \<Rightarrow> nat \<Rightarrow> nat \<Rightarrow> u8" where
  "cross_avg raw w h x y = avg8 (h_avg raw w x y) (v_avg raw w h x y)"

text \<open>The four configurations of the comment in the source.\<close>

definition bayer_pixel :: "bytes \<Rightarrow> nat \<Rightarrow> nat \<Rightarrow> nat \<Rightarrow> nat \<Rightarrow> bytes" where
  "bayer_pixel raw w h x y =
     (if even y then
        (if even x then [h_avg raw w x y, px raw w x y, v_avg raw w h x y]
         else [px raw w x y, cross_avg raw w h x y, diag_avg raw w h x y])
      else
        (if even x then [diag_avg raw w h x y, cross_avg raw w h x y, px raw w x y]
         else [v_avg raw w h x y, px raw w x y, h_avg raw w x y]))"

section \<open>The shift buffers\<close>

text \<open>A shift buffer holding the previous and the current value, the next slot empty.\<close>

definition shift_buf :: "u32 \<Rightarrow> u8 \<Rightarrow> u8 \<Rightarrow> bool" where
  "shift_buf v l c \<longleftrightarrow> (ucast (drop_bit 16 v) :: u8) = l \<and> (ucast (drop_bit 8 v) :: u8) = c \<and> (ucast v :: u8) = 0"

lemma shift_buf_put:
  fixes n :: u8
  assumes "shift_buf v l c"
  shows "(ucast (drop_bit 16 (v OR ucast n)) :: u8) = l" "(ucast (drop_bit 8 (v OR ucast n)) :: u8) = c"
    "(ucast (v OR ucast n) :: u8) = n"
proof -
  have "drop_bit 16 (ucast n :: u32) = 0" "drop_bit 8 (ucast n :: u32) = 0"
    by (rule bit_word_eqI, simp add: bit_simps impossible_bit)+
  then show "(ucast (drop_bit 16 (v OR ucast n)) :: u8) = l" "(ucast (drop_bit 8 (v OR ucast n)) :: u8) = c"
    using assms by (simp_all add: shift_buf_def)
  have "(ucast (v OR ucast n) :: u8) = ucast v OR n"
    by (rule bit_word_eqI) (auto simp: bit_simps)
  then show "(ucast (v OR ucast n) :: u8) = n" using assms by (simp add: shift_buf_def)
qed

lemma shift_buf_shift: "shift_buf (push_bit 8 v) (ucast (drop_bit 8 v)) (ucast v)"
  unfolding shift_buf_def
  by (intro conjI bit_word_eqI) (auto simp: bit_simps)

lemma shift_buf_start: "shift_buf (push_bit 8 (ucast c) OR push_bit 16 (ucast l)) (l :: u8) (c :: u8)"
  unfolding shift_buf_def
  by (intro conjI bit_word_eqI) (auto simp: bit_simps impossible_bit)

lemma sum8_bound: "unat (sum8 a b) < 512"
proof -
  have "unat a < 256" "unat b < 256" using unsigned_less [of a] unsigned_less [of b] by simp_all
  moreover from this have "take_bit 32 (unat a) = unat a" "take_bit 32 (unat b) = unat b"
    by (auto intro!: take_bit_nat_eq_self)
  ultimately have "unat (sum8 a b) = unat a + unat b"
    by (simp add: sum8_def unat_word_ariths unsigned_ucast_eq)
  with \<open>unat a < 256\<close> \<open>unat b < 256\<close> show ?thesis by simp
qed

lemma sum8_bit: "9 \<le> n \<Longrightarrow> \<not> bit (sum8 a b) n"
proof
  assume "9 \<le> n" "bit (sum8 a b) n"
  moreover have "sum8 a b = take_bit 9 (sum8 a b)"
    using sum8_bound [of a b]
    by (intro word_unat_eq_iff [THEN iffD2]) (simp add: unsigned_take_bit_eq take_bit_nat_eq_self)
  ultimately show False by (metis bit_take_bit_iff not_less)
qed

lemma avg8_bit: "bit (avg8 a b) n \<longleftrightarrow> n < 8 \<and> bit (sum8 a b) (Suc n)"
  by (auto simp: avg8_def sum8_def bit_simps)

lemma avg8_shift: "drop_bit 1 (sum8 a b) = ucast (avg8 a b)"
proof (rule bit_word_eqI)
  fix n assume "n < LENGTH(32)"
  show "bit (drop_bit 1 (sum8 a b)) n = bit (ucast (avg8 a b) :: u32) n"
  proof (cases "n < 8")
    case True
    then show ?thesis by (simp add: bit_simps avg8_bit)
  next
    case False
    then have "\<not> bit (sum8 a b) (Suc n)" by (intro sum8_bit) simp
    then show ?thesis using False by (simp add: bit_simps avg8_bit)
  qed
qed

lemma mask_ff00: "(0xFF00 :: u32) = push_bit 8 (mask 8)"
  by (simp add: mask_eq_exp_minus_1)

lemma mask_ff0000: "(0xFF0000 :: u32) = push_bit 16 (mask 8)"
  by (simp add: mask_eq_exp_minus_1)

lemma bit_ff00: "bit (0xFF00 :: u32) n \<longleftrightarrow> 8 \<le> n \<and> n < 16"
  unfolding mask_ff00 by (auto simp: bit_simps)

lemma bit_ff0000: "bit (0xFF0000 :: u32) n \<longleftrightarrow> 16 \<le> n \<and> n < 24"
  unfolding mask_ff0000 by (auto simp: bit_simps)

lemma shifted_avg:
  assumes "\<And>n. bit (m :: u32) n \<longleftrightarrow> j \<le> n \<and> n < j + 8" "j = Suc k" "k < 24"
  shows "push_bit k (sum8 p q) AND m = push_bit j (ucast (avg8 p q))"
proof (rule bit_word_eqI)
  fix n assume n: "n < LENGTH(32)"
  show "bit (push_bit k (sum8 p q) AND m) n = bit (push_bit j (ucast (avg8 p q) :: u32)) n"
  proof (cases "j \<le> n \<and> n < j + 8")
    case True
    then have "bit m n" "Suc (n - j) = n - k" "n - j < 8" "k \<le> n" "j \<le> n"
      using assms(1) [of n] assms(2) by auto
    then show ?thesis
      using n by (simp add: bit_push_bit_iff bit_and_iff bit_ucast_iff avg8_bit)
  next
    case False
    then have "\<not> bit m n" "\<not> (j \<le> n \<and> n - j < 8)" using assms(1) [of n] by auto
    then show ?thesis
      by (auto simp: bit_push_bit_iff bit_and_iff bit_ucast_iff avg8_bit)
  qed
qed

lemma vsums_start:
  "push_bit 7 (sum8 p q) AND 0xFF00 = push_bit 8 (ucast (avg8 p q))"
  "push_bit 15 (sum8 p q) AND 0xFF0000 = push_bit 16 (ucast (avg8 p q))"
  by (rule shifted_avg, simp only: bit_ff00, auto)
    (rule shifted_avg, simp only: bit_ff0000, auto)

lemma sum8_same: "n < 8 \<Longrightarrow> bit (sum8 a a) (Suc n) \<longleftrightarrow> bit a n"
proof -
  assume n: "n < 8"
  have e: "sum8 a a = push_bit 1 (ucast a)" by (simp add: sum8_def push_bit_eq_mult)
  show ?thesis unfolding e using n by (simp only: bit_push_bit_iff bit_ucast_iff) simp
qed

lemma avg8_same [simp]: "avg8 a a = a"
  by (rule bit_word_eqI) (simp add: avg8_bit sum8_same)

section \<open>One line\<close>

text \<open>The pixel of a line from the three lines around it.\<close>

definition line_avg :: "bytes \<Rightarrow> bytes \<Rightarrow> nat \<Rightarrow> u8" where
  "line_avg prev nxt x = avg8 (prev ! x) (nxt ! x)"

definition line_pixel :: "bool \<Rightarrow> nat \<Rightarrow> bytes \<Rightarrow> bytes \<Rightarrow> bytes \<Rightarrow> nat \<Rightarrow> bytes" where
  "line_pixel yOdd w prev cur nxt x =
     (let h = avg8 (cur ! before x) (cur ! after w x);
          v = line_avg prev nxt x;
          d = avg8 (line_avg prev nxt (before x)) (line_avg prev nxt (after w x))
      in if \<not> yOdd then (if even x then [h, cur ! x, v] else [cur ! x, avg8 h v, d])
         else (if even x then [d, avg8 h v, cur ! x] else [v, cur ! x, h]))"

lemma bayer_cols_ok:
  assumes "2 \<le> w" "w \<le> length prev" "w \<le> length cur" "w \<le> length nxt"
  shows "x + n + 1 = w \<Longrightarrow> shift_buf hVals (cur ! before x) (cur ! x) \<Longrightarrow>
    shift_buf vSums (line_avg prev nxt (before x)) (line_avg prev nxt x) \<Longrightarrow>
    bayer_cols yOdd (odd x) n (drop (x + 1) prev) (drop (x + 1) cur) (drop (x + 1) nxt) hVals vSums
      = Some (concat (map (line_pixel yOdd w prev cur nxt) [x..<w]))"
proof (induction n arbitrary: x hVals vSums)
  case 0
  note h = shift_buf_put [OF 0(2), of "cur ! before x"]
  note v = shift_buf_put [OF 0(3), of "line_avg prev nxt (before x)"]
  have w: "w = Suc x" "x \<noteq> 0" using 0(1) assms(1) by auto
  have a: "after w x = before x" using w by (simp add: after_def before_def)
  have l: "ucast (drop_bit 16 hVals) = cur ! before x" "ucast (drop_bit 16 vSums) = line_avg prev nxt (before x)"
    using 0(2,3) by (simp_all add: shift_buf_def)
  have u: "[x..<w] = [x]" using w(1) by simp
  show ?case
    unfolding bayer_cols.simps Let_def l u bayer_emit_def h v
    by (simp add: line_pixel_def Let_def a)
next
  case (Suc n)
  have b: "x + 1 < w" using Suc.prems(1) by simp
  have c: "drop (x + 1) l = l ! (x + 1) # drop (x + 1 + 1) l" if "w \<le> length l" for l :: bytes
    using b that by (simp add: Cons_nth_drop_Suc)
  have a: "after w x = x + 1" "before (x + 1) = x" using b by (simp_all add: after_def before_def)
  note h = shift_buf_put [OF Suc.prems(2), of "cur ! (x + 1)"]
  note v = shift_buf_put [OF Suc.prems(3), of "line_avg prev nxt (x + 1)"]
  have s: "drop_bit 1 (sum8 (prev ! (x + 1)) (nxt ! (x + 1))) = ucast (line_avg prev nxt (x + 1))"
    by (simp only: avg8_shift line_avg_def)
  let ?h = "hVals OR ucast (cur ! (x + 1))" and ?v = "vSums OR ucast (line_avg prev nxt (x + 1))"
  have "shift_buf (push_bit 8 ?h) (cur ! before (x + 1)) (cur ! (x + 1))"
    using shift_buf_shift [of ?h] by (simp only: h a)
  moreover have "shift_buf (push_bit 8 ?v) (line_avg prev nxt (before (x + 1))) (line_avg prev nxt (x + 1))"
    using shift_buf_shift [of ?v] by (simp only: v a)
  ultimately have IH: "bayer_cols yOdd (odd (x + 1)) n (drop (x + 1 + 1) prev) (drop (x + 1 + 1) cur)
      (drop (x + 1 + 1) nxt) (push_bit 8 ?h) (push_bit 8 ?v)
      = Some (concat (map (line_pixel yOdd w prev cur nxt) [x + 1..<w]))"
    using Suc.IH [of "x + 1"] Suc.prems(1) by simp
  have o: "odd (x + 1) = (\<not> odd x)" by simp
  have e: "bayer_emit yOdd (odd x) ?h ?v (avg8 (ucast (drop_bit 16 ?h)) (ucast ?h))
      (avg8 (ucast (drop_bit 16 ?v)) (ucast ?v)) = line_pixel yOdd w prev cur nxt x"
    unfolding bayer_emit_def h v by (simp add: line_pixel_def Let_def a)
  have u: "[x..<w] = x # [x + 1..<w]" using b by (simp add: upt_conv_Cons)
  show ?case
    unfolding c [OF assms(2)] c [OF assms(3)] c [OF assms(4)] bayer_cols.simps Let_def s e u
    using IH unfolding o by simp
qed

lemma bayer_line_ok:
  assumes "2 \<le> w" "w \<le> length prev" "w \<le> length cur" "w \<le> length nxt"
  shows "bayer_line yOdd w prev cur nxt = Some (concat (map (line_pixel yOdd w prev cur nxt) [0..<w]))"
proof -
  obtain p p1 ps where p: "prev = p # p1 # ps" using assms(1,2) by (cases prev; cases "tl prev") auto
  obtain c c1 cs where c: "cur = c # c1 # cs" using assms(1,3) by (cases cur; cases "tl cur") auto
  obtain q q1 qs where q: "nxt = q # q1 # qs" using assms(1,4) by (cases nxt; cases "tl nxt") auto
  have h: "shift_buf (push_bit 8 (ucast c) OR push_bit 16 (ucast c1)) (cur ! before 0) (cur ! 0)"
    using shift_buf_start by (simp add: c before_def)
  have v: "shift_buf ((push_bit 7 (sum8 p q) AND 0xFF00) OR (push_bit 15 (sum8 p1 q1) AND 0xFF0000))
      (line_avg prev nxt (before 0)) (line_avg prev nxt 0)"
    unfolding vsums_start using shift_buf_start by (simp add: p q before_def line_avg_def)
  have "0 + (w - 1) + 1 = w" using assms(1) by simp
  from bayer_cols_ok [OF assms this h v, of yOdd] show ?thesis
    unfolding bayer_line_def p c q prod.case list.case by simp
qed

section \<open>The frame\<close>

definition bayer_row :: "bytes \<Rightarrow> nat \<Rightarrow> nat \<Rightarrow> nat \<Rightarrow> bytes" where
  "bayer_row raw w h y = concat (map (\<lambda>x. bayer_pixel raw w h x y) [0..<w])"

lemma before_less: "2 \<le> n \<Longrightarrow> k < n \<Longrightarrow> before k < n"
  by (auto simp: before_def)

lemma after_less: "2 \<le> n \<Longrightarrow> k < n \<Longrightarrow> after n k < n"
  by (auto simp: after_def)

lemma line_fits: "y < h \<Longrightarrow> w * h \<le> length raw \<Longrightarrow> y * w + w \<le> length raw"
proof -
  assume "y < h" "w * h \<le> length raw"
  then have "Suc y * w \<le> h * w" by (intro mult_le_mono1) simp
  with \<open>w * h \<le> length raw\<close> show ?thesis by (simp add: mult.commute)
qed

lemma px_drop: "y * w + w \<le> length raw \<Longrightarrow> drop (y * w) raw ! x = px raw w x y"
  by (simp add: px_def)

lemma line_pixel_bayer:
  assumes "2 \<le> w" "2 \<le> h" "w * h \<le> length raw" "x < w" "y < h"
  shows "line_pixel (odd y) w (drop (before y * w) raw) (drop (y * w) raw) (drop (after h y * w) raw) x
    = bayer_pixel raw w h x y"
proof -
  note fits = line_fits [OF assms(5,3)] line_fits [OF before_less [OF assms(2,5)] assms(3)]
    line_fits [OF after_less [OF assms(2,5)] assms(3)]
  show ?thesis
    unfolding line_pixel_def bayer_pixel_def line_avg_def h_avg_def v_avg_def diag_avg_def cross_avg_def
      px_drop [OF fits(1)] px_drop [OF fits(2)] px_drop [OF fits(3)] Let_def by simp
qed

lemma bayer_lines_ok:
  assumes "2 \<le> w" "3 \<le> h" "w * h \<le> length raw"
  shows "y + n = h \<Longrightarrow> (y + 1 < h \<Longrightarrow> nxt = (y + 1) * w) \<Longrightarrow> (y + 1 = h \<Longrightarrow> prev = (h - 2) * w) \<Longrightarrow>
    bayer_lines raw w h n (y * w) prev nxt = Some (concat (map (bayer_row raw w h) [y..<h]))"
proof (induction n arbitrary: y prev nxt)
  case 0
  then show ?case by simp
next
  case (Suc n)
  have y: "y < h" "h - Suc n = y" using Suc.prems(1) by simp_all
  define prev' where "prev' = (if y > 0 \<and> y < h - 1 then y * w - w else if y = 0 then nxt else prev)"
  define nxt' where "nxt' = (if \<not> (y > 0 \<and> y < h - 1) \<and> y \<noteq> 0 then prev' else nxt)"
  have p: "prev' = before y * w"
  proof (cases "y + 1 = h")
    case True
    then have "h - 2 = y - 1" "0 < y" "\<not> y < h - 1" using assms(2) by auto
    then show ?thesis using Suc.prems(3) [OF True] by (simp add: prev'_def before_def)
  next
    case False
    then show ?thesis using Suc.prems(2) y(1) by (auto simp: prev'_def before_def diff_mult_distrib)
  qed
  have q: "nxt' = after h y * w"
    using Suc.prems(2,3) y(1) assms(2) by (auto simp: nxt'_def prev'_def after_def)
  have h2: "2 \<le> h" using assms(2) by simp
  note fits = line_fits [OF y(1) assms(3)] line_fits [OF before_less [OF h2 y(1)] assms(3)]
    line_fits [OF after_less [OF h2 y(1)] assms(3)]
  have line: "bayer_line (odd y) w (drop prev' raw) (drop (y * w) raw) (drop nxt' raw) = Some (bayer_row raw w h y)"
  proof -
    have "bayer_line (odd y) w (drop prev' raw) (drop (y * w) raw) (drop nxt' raw)
        = Some (concat (map (line_pixel (odd y) w (drop (before y * w) raw) (drop (y * w) raw)
            (drop (after h y * w) raw)) [0..<w]))"
      unfolding p q by (rule bayer_line_ok) (use assms(1) fits in auto)
    also have "\<dots> = Some (bayer_row raw w h y)"
      unfolding bayer_row_def
      using line_pixel_bayer [OF assms(1) h2 assms(3) _ y(1)] by (auto intro!: arg_cong [of _ _ concat] map_cong)
    finally show ?thesis .
  qed
  have "bayer_lines raw w h n ((y + 1) * w) (prev' + w) (nxt' + w)
      = Some (concat (map (bayer_row raw w h) [y + 1..<h]))"
  proof (rule Suc.IH)
    show "y + 1 + n = h" using Suc.prems(1) by simp
    show "nxt' + w = (y + 1 + 1) * w" if "y + 1 + 1 < h"
      using that unfolding q by (simp add: after_def)
    show "prev' + w = (h - 2) * w" if "y + 1 + 1 = h"
    proof -
      have "before y = y - 1" "0 < y" "h - 2 = y" using that assms(2) by (auto simp: before_def)
      then show ?thesis unfolding p by (cases y) auto
    qed
  qed
  moreover have "[y..<h] = y # [y + 1..<h]" using y(1) by (simp add: upt_conv_Cons)
  ultimately show ?case
    using line unfolding bayer_lines.simps Let_def y(2) prev'_def [symmetric] nxt'_def [symmetric]
    by (simp add: add.commute)
qed

section \<open>YUV pixels\<close>

text \<open>Pixel \<open>p\<close> of the frame: its own luma, the chroma of its pair.\<close>

definition uyvy_pixel :: "bytes \<Rightarrow> nat \<Rightarrow> bytes" where
  "uyvy_pixel raw p =
     (let u = uint (raw ! (4 * (p div 2))); v = uint (raw ! (4 * (p div 2) + 2)); y = uint (raw ! (2 * p + 1))
      in [word_of_int (CLAMP (uyvy_red y v)), word_of_int (CLAMP (uyvy_green y u v)),
          word_of_int (CLAMP (uyvy_blue y u))])"

definition uyvy_done :: "bytes \<Rightarrow> nat \<Rightarrow> nat \<Rightarrow> bytes \<Rightarrow> bool" where
  "uyvy_done raw L n s \<longleftrightarrow> length s = L \<and> (\<forall>p < n. \<forall>c < 3. s ! (3 * p + c) = uyvy_pixel raw p ! c)"

lemma uyvy_step:
  assumes "even i" "2 * i + 4 \<le> length raw" "3 * i + 6 \<le> L" "uyvy_done raw L i s"
  shows "\<exists>s'. put_bytes (3 * i) (uyvy_pair (raw ! (2 * i)) (raw ! (2 * i + 1)) (raw ! (2 * i + 2)) (raw ! (2 * i + 3))) s
      = Some s' \<and> uyvy_done raw L (i + 2) s'"
proof -
  let ?src = "uyvy_pair (raw ! (2 * i)) (raw ! (2 * i + 1)) (raw ! (2 * i + 2)) (raw ! (2 * i + 3))"
  have len: "length ?src = 6" by (simp add: uyvy_pair_def Let_def)
  obtain s' where s': "put_bytes (3 * i) ?src s = Some s'"
    using assms(3,4) len by (auto simp: put_bytes_def uyvy_done_def)
  have L: "length s' = L" "length s = L"
    using length_put_bytes [OF s'] assms(4) by (simp_all add: uyvy_done_def)
  obtain k where k: "i = 2 * k" using assms(1) by blast
  have src: "?src ! c = uyvy_pixel raw i ! c" "?src ! (3 + c) = uyvy_pixel raw (i + 1) ! c" if "c < 3" for c
    using that by (auto simp: uyvy_pair_def uyvy_pixel_def Let_def k less_Suc_eq numeral_3_eq_3)
  have "s' ! (3 * p + c) = uyvy_pixel raw p ! c" if "p < i + 2" "c < 3" for p c
  proof -
    have "p < i \<or> p = i \<or> p = i + 1" using that(1) by auto
    then consider "p < i" | "p = i" | "p = i + 1" by blast
    then show ?thesis
    proof cases
      case 1
      then have "3 * p + c < 3 * i" using that(2) by simp
      then show ?thesis
        using nth_put_bytes [OF s', of "3 * p + c"] L assms(3,4) that(2) 1 by (simp add: uyvy_done_def)
    next
      case 2
      then show ?thesis
        using nth_put_bytes [OF s', of "3 * p + c"] L assms(3) that(2) src(1) [OF that(2)] len by simp
    next
      case 3
      then have "3 * p + c - 3 * i = 3 + c" by simp
      then show ?thesis
        using nth_put_bytes [OF s', of "3 * p + c"] L assms(3) that(2) src(2) [OF that(2)] len 3 by simp
    qed
  qed
  with s' L show ?thesis by (simp add: uyvy_done_def)
qed

lemma uyvy_row:
  assumes "even w" "y < h" "2 * w * h \<le> length raw" "3 * w * h \<le> L" "uyvy_done raw L (w * y) s"
  shows "\<exists>s'. for_loop (uyvy_body raw w y) ((w + 1) div 2) 0 s = Some s' \<and> uyvy_done raw L (w * (y + 1)) s'"
proof -
  obtain m where m: "w = 2 * m" using assms(1) by blast
  have row: "w * y + w \<le> w * h"
  proof -
    have "w * (y + 1) \<le> w * h" using assms(2) by (intro mult_le_mono2) simp
    then show ?thesis by simp
  qed
  have "\<exists>s'. for_loop (uyvy_body raw w y) m 0 s = Some s' \<and> uyvy_done raw L (w * y + 2 * (0 + m)) s'"
  proof (rule for_loop_inv [where P = "\<lambda>k. uyvy_done raw L (w * y + 2 * k)"])
    fix k s assume k: "k < 0 + m" and d: "uyvy_done raw L (w * y + 2 * k) s"
    define i where "i = w * y + 2 * k"
    have i: "even i" "i + 2 \<le> w * h" using k row m by (auto simp: i_def)
    then have b: "2 * i + 4 \<le> length raw" "3 * i + 6 \<le> L" using assms(3,4) by linarith+
    have g: "get_bytes (2 * i) 4 raw = Some (take 4 (drop (2 * i) raw))"
      using b(1) by (simp add: get_bytes_def)
    have n: "take 4 (drop (2 * i) raw) ! c = raw ! (2 * i + c)" if "c < 4" for c
      using that b(1) by simp
    have "uyvy_body raw w y k s = put_bytes (3 * i)
        (uyvy_pair (raw ! (2 * i)) (raw ! (2 * i + 1)) (raw ! (2 * i + 2)) (raw ! (2 * i + 3))) s"
      using n [of 0] n [of 1] n [of 2] n [of 3]
      unfolding uyvy_body_def Let_def i_def [symmetric] g by simp
    with uyvy_step [OF i(1) b d [folded i_def]]
    show "\<exists>s'. uyvy_body raw w y k s = Some s' \<and> uyvy_done raw L (w * y + 2 * Suc k) s'"
      by (simp add: i_def)
  qed (use assms(5) in simp)
  then show ?thesis using m by (simp add: add.commute)
qed

lemma uyvy_frame_ok:
  assumes "even w" "2 * w * h \<le> length raw" "3 * w * h \<le> length proc"
  shows "\<exists>out. convert_uyvy_to_rgb raw w h proc = Some out \<and> uyvy_done raw (length proc) (w * h) out"
proof -
  have "\<exists>s'. for_loop (\<lambda>y. for_loop (uyvy_body raw w y) ((w + 1) div 2) 0) h 0 proc = Some s'
    \<and> uyvy_done raw (length proc) (w * (0 + h)) s'"
    by (rule for_loop_inv [where P = "\<lambda>y. uyvy_done raw (length proc) (w * y)"])
      (use uyvy_row [OF assms(1) _ assms(2,3)] in \<open>simp_all add: uyvy_done_def\<close>)
  then show ?thesis by (simp add: convert_uyvy_to_rgb_def)
qed

section \<open>Properties\<close>

text \<open>C29: The demosaicing interpolates.  For every frame of at least two
  columns and three lines, the single pass with two 32 bit shift buffers writes, pixel after
  pixel, the values of the four Bayer configurations computed from the neighbouring pixels,
  with the lines and columns mirrored at the borders, and reads nothing outside the frame.
  The mean of four neighbours is the truncated mean of two truncated means.\<close>
theorem bayer_pass_correct:
  assumes "2 \<le> w" "3 \<le> h" "w * h \<le> length raw"
  shows "convert_bayer_to_rgb raw w h
    = Some (concat (map (\<lambda>y. concat (map (\<lambda>x. bayer_pixel raw w h x y) [0..<w])) [0..<h]))"
  using bayer_lines_ok [OF assms, of 0 h w 0] assms(2)
  by (simp add: convert_bayer_to_rgb_def bayer_row_def [abs_def])

theorem bayer_pass_correct_witness:
  "convert_bayer_to_rgb [10, 20, 30, 40, 50, 60] 2 3
    = Some (concat (map (\<lambda>y. concat (map (\<lambda>x. bayer_pixel [10, 20, 30, 40, 50, 60] 2 3 x y) [0..<2])) [0..<3]))"
  by (rule bayer_pass_correct) simp_all

text \<open>The YUV conversion.  For every frame of even width that the two buffers hold, pixel
  \<open>p\<close> of the output is the clamped conversion of its own luma byte and the chroma bytes of
  its pair, and no byte outside the buffers is touched.\<close>
lemma uyvy_pass_correct:
  assumes "even w" "2 * w * h \<le> length raw" "3 * w * h \<le> length proc"
  shows "\<exists>out. convert_uyvy_to_rgb raw w h proc = Some out \<and> length out = length proc
    \<and> (\<forall>p < w * h. \<forall>c < 3. out ! (3 * p + c) = uyvy_pixel raw p ! c)"
  using uyvy_frame_ok [OF assms] by (auto simp: uyvy_done_def)

lemma uyvy_pass_correct_example:
  "\<exists>out. convert_uyvy_to_rgb [128, 16, 128, 235] 2 1 [0, 0, 0, 0, 0, 0] = Some out
     \<and> out ! 3 = uyvy_pixel [128, 16, 128, 235] 1 ! 0"
proof -
  obtain out where out: "convert_uyvy_to_rgb [128, 16, 128, 235] 2 1 [0, 0, 0, 0, 0, 0] = Some out"
    "\<forall>p < 2 * 1. \<forall>c < 3. out ! (3 * p + c) = uyvy_pixel [128, 16, 128, 235] p ! c"
    using uyvy_pass_correct [of 2 1 "[128, 16, 128, 235]" "[0, 0, 0, 0, 0, 0]"] by auto
  have "out ! (3 * 1 + 0) = uyvy_pixel [128, 16, 128, 235] 1 ! 0"
    by (rule out(2) [rule_format]) simp_all
  with out(1) show ?thesis by simp
qed

text \<open>The comment over the pass gives the mean of four as \<open>(G1 + G2 + G3 + G4) / 4\<close>; truncating the
  two halves first can give one less.  Here the neighbours are 1, 0, 3 and 0.\<close>

lemma mean_of_four_truncated_twice:
  "bayer_pixel [0, 0, 0, 0, 3, 0, 1, 0, 0, 0, 0, 0, 0, 0, 0] 3 5 1 2 ! 1 = 0" "(1 + 0 + 3 + 0) div 4 = (1 :: nat)"
  by code_simp+

text \<open>A frame of two columns and two lines has no line between the first and the last one, and the pass
  reads outside it.\<close>

lemma two_lines_too_few: "convert_bayer_to_rgb [0, 0, 0, 0] 2 2 = None"
  by code_simp

end
