(* ===== verification/FrameModes.thy ===== *)
theory FrameModes
  imports Prelude
begin

text \<open>
  The tables of supported frame modes of \<open>libfreenect/cameras.c\<close> and their lookups.  An enum
  of \<open>libfreenect.h\<close> is a datatype with the source's enumerators and a code function.  A mode
  that is not found is a local struct of which only \<open>is_valid\<close> is assigned: the lookups take
  the initial contents \<open>retval\<close> of that struct as an argument.
\<close>

section \<open>Enumerations\<close>

datatype resolution = RESOLUTION_LOW | RESOLUTION_MEDIUM | RESOLUTION_HIGH | RESOLUTION_DUMMY

datatype video_format = VIDEO_RGB | VIDEO_BAYER | VIDEO_IR_8BIT | VIDEO_IR_10BIT
  | VIDEO_IR_10BIT_PACKED | VIDEO_YUV_RGB | VIDEO_YUV_RAW | VIDEO_DUMMY

datatype depth_format = DEPTH_11BIT | DEPTH_10BIT | DEPTH_11BIT_PACKED | DEPTH_10BIT_PACKED
  | DEPTH_REGISTERED | DEPTH_MM | DEPTH_DUMMY

fun res_code :: "resolution \<Rightarrow> u32" where
  "res_code RESOLUTION_LOW = 0" | "res_code RESOLUTION_MEDIUM = 1"
| "res_code RESOLUTION_HIGH = 2" | "res_code RESOLUTION_DUMMY = 2147483647"

fun video_code :: "video_format \<Rightarrow> u32" where
  "video_code VIDEO_RGB = 0" | "video_code VIDEO_BAYER = 1" | "video_code VIDEO_IR_8BIT = 2"
| "video_code VIDEO_IR_10BIT = 3" | "video_code VIDEO_IR_10BIT_PACKED = 4"
| "video_code VIDEO_YUV_RGB = 5" | "video_code VIDEO_YUV_RAW = 6"
| "video_code VIDEO_DUMMY = 2147483647"

fun depth_code :: "depth_format \<Rightarrow> u32" where
  "depth_code DEPTH_11BIT = 0" | "depth_code DEPTH_10BIT = 1" | "depth_code DEPTH_11BIT_PACKED = 2"
| "depth_code DEPTH_10BIT_PACKED = 3" | "depth_code DEPTH_REGISTERED = 4" | "depth_code DEPTH_MM = 5"
| "depth_code DEPTH_DUMMY = 2147483647"

text \<open>
  The casts from an integer back to an enumeration; an integer that is no enumerator's code
  (never one of a supported mode, \<open>supported_modes_decode\<close>) goes to the dummy.
\<close>

definition res_of :: "u32 \<Rightarrow> resolution" where
  "res_of c = (if c = 0 then RESOLUTION_LOW else if c = 1 then RESOLUTION_MEDIUM
     else if c = 2 then RESOLUTION_HIGH else RESOLUTION_DUMMY)"

definition video_of :: "u32 \<Rightarrow> video_format" where
  "video_of c = (if c = 0 then VIDEO_RGB else if c = 1 then VIDEO_BAYER
     else if c = 2 then VIDEO_IR_8BIT else if c = 3 then VIDEO_IR_10BIT
     else if c = 4 then VIDEO_IR_10BIT_PACKED else if c = 5 then VIDEO_YUV_RGB
     else if c = 6 then VIDEO_YUV_RAW else VIDEO_DUMMY)"

definition depth_of :: "u32 \<Rightarrow> depth_format" where
  "depth_of c = (if c = 0 then DEPTH_11BIT else if c = 1 then DEPTH_10BIT
     else if c = 2 then DEPTH_11BIT_PACKED else if c = 3 then DEPTH_10BIT_PACKED
     else if c = 4 then DEPTH_REGISTERED else if c = 5 then DEPTH_MM else DEPTH_DUMMY)"

definition MAKE_RESERVED :: "u32 \<Rightarrow> u32 \<Rightarrow> u32" where
  "MAKE_RESERVED res fmt = push_bit 8 (res AND 0xff) OR (fmt AND 0xff)"

definition RESERVED_TO_RESOLUTION :: "u32 \<Rightarrow> resolution" where
  "RESERVED_TO_RESOLUTION r = res_of (drop_bit 8 r AND 0xff)"

definition RESERVED_TO_FORMAT :: "u32 \<Rightarrow> u32" where
  "RESERVED_TO_FORMAT r = r AND 0xff"

section \<open>Mode tables\<close>

record 'f frame_mode =
  fm_reserved :: u32
  fm_resolution :: resolution
  fm_format :: 'f
  fm_bytes :: int
  fm_width :: int
  fm_height :: int
  fm_data_bits :: int
  fm_padding_bits :: int
  fm_framerate :: int
  fm_is_valid :: bool

definition frame_mode_row ::
  "u32 \<Rightarrow> resolution \<Rightarrow> 'f \<Rightarrow> int \<Rightarrow> int \<Rightarrow> int \<Rightarrow> int \<Rightarrow> int \<Rightarrow> int \<Rightarrow> 'f frame_mode" where
  "frame_mode_row reserved res fmt bytes' width height data padding rate =
     \<lparr>fm_reserved = reserved, fm_resolution = res, fm_format = fmt, fm_bytes = bytes',
      fm_width = width, fm_height = height, fm_data_bits = data, fm_padding_bits = padding,
      fm_framerate = rate, fm_is_valid = True\<rparr>"

definition supported_video_modes :: "video_format frame_mode list" where
  "supported_video_modes = [
    frame_mode_row (MAKE_RESERVED (res_code RESOLUTION_HIGH) (video_code VIDEO_RGB)) RESOLUTION_HIGH VIDEO_RGB (1280*1024*3) 1280 1024 24 0 10,
    frame_mode_row (MAKE_RESERVED (res_code RESOLUTION_MEDIUM) (video_code VIDEO_RGB)) RESOLUTION_MEDIUM VIDEO_RGB (640*480*3) 640 480 24 0 30,
    frame_mode_row (MAKE_RESERVED (res_code RESOLUTION_HIGH) (video_code VIDEO_BAYER)) RESOLUTION_HIGH VIDEO_BAYER (1280*1024) 1280 1024 8 0 10,
    frame_mode_row (MAKE_RESERVED (res_code RESOLUTION_MEDIUM) (video_code VIDEO_BAYER)) RESOLUTION_MEDIUM VIDEO_BAYER (640*480) 640 480 8 0 30,
    frame_mode_row (MAKE_RESERVED (res_code RESOLUTION_HIGH) (video_code VIDEO_IR_8BIT)) RESOLUTION_HIGH VIDEO_IR_8BIT (1280*1024) 1280 1024 8 0 10,
    frame_mode_row (MAKE_RESERVED (res_code RESOLUTION_MEDIUM) (video_code VIDEO_IR_8BIT)) RESOLUTION_MEDIUM VIDEO_IR_8BIT (640*488) 640 488 8 0 30,
    frame_mode_row (MAKE_RESERVED (res_code RESOLUTION_HIGH) (video_code VIDEO_IR_10BIT)) RESOLUTION_HIGH VIDEO_IR_10BIT (1280*1024*2) 1280 1024 10 6 10,
    frame_mode_row (MAKE_RESERVED (res_code RESOLUTION_MEDIUM) (video_code VIDEO_IR_10BIT)) RESOLUTION_MEDIUM VIDEO_IR_10BIT (640*488*2) 640 488 10 6 30,
    frame_mode_row (MAKE_RESERVED (res_code RESOLUTION_HIGH) (video_code VIDEO_IR_10BIT_PACKED)) RESOLUTION_HIGH VIDEO_IR_10BIT_PACKED (1280*1024*10 div 8) 1280 1024 10 0 10,
    frame_mode_row (MAKE_RESERVED (res_code RESOLUTION_MEDIUM) (video_code VIDEO_IR_10BIT_PACKED)) RESOLUTION_MEDIUM VIDEO_IR_10BIT_PACKED (640*488*10 div 8) 640 488 10 0 30,
    frame_mode_row (MAKE_RESERVED (res_code RESOLUTION_MEDIUM) (video_code VIDEO_YUV_RGB)) RESOLUTION_MEDIUM VIDEO_YUV_RGB (640*480*3) 640 480 24 0 15,
    frame_mode_row (MAKE_RESERVED (res_code RESOLUTION_MEDIUM) (video_code VIDEO_YUV_RAW)) RESOLUTION_MEDIUM VIDEO_YUV_RAW (640*480*2) 640 480 16 0 15]"

definition supported_depth_modes :: "depth_format frame_mode list" where
  "supported_depth_modes = [
    frame_mode_row (MAKE_RESERVED (res_code RESOLUTION_MEDIUM) (depth_code DEPTH_11BIT)) RESOLUTION_MEDIUM DEPTH_11BIT (640*480*2) 640 480 11 5 30,
    frame_mode_row (MAKE_RESERVED (res_code RESOLUTION_MEDIUM) (depth_code DEPTH_10BIT)) RESOLUTION_MEDIUM DEPTH_10BIT (640*480*2) 640 480 10 6 30,
    frame_mode_row (MAKE_RESERVED (res_code RESOLUTION_MEDIUM) (depth_code DEPTH_11BIT_PACKED)) RESOLUTION_MEDIUM DEPTH_11BIT_PACKED (640*480*11 div 8) 640 480 11 0 30,
    frame_mode_row (MAKE_RESERVED (res_code RESOLUTION_MEDIUM) (depth_code DEPTH_10BIT_PACKED)) RESOLUTION_MEDIUM DEPTH_10BIT_PACKED (640*480*10 div 8) 640 480 10 0 30,
    frame_mode_row (MAKE_RESERVED (res_code RESOLUTION_MEDIUM) (depth_code DEPTH_REGISTERED)) RESOLUTION_MEDIUM DEPTH_REGISTERED (640*480*2) 640 480 16 0 30,
    frame_mode_row (MAKE_RESERVED (res_code RESOLUTION_MEDIUM) (depth_code DEPTH_MM)) RESOLUTION_MEDIUM DEPTH_MM (640*480*2) 640 480 16 0 30]"

section \<open>Lookups\<close>

definition freenect_get_video_mode_count :: int where
  "freenect_get_video_mode_count = 12"

definition freenect_get_depth_mode_count :: int where
  "freenect_get_depth_mode_count = 6"

definition freenect_get_video_mode :: "video_format frame_mode \<Rightarrow> int \<Rightarrow> video_format frame_mode" where
  "freenect_get_video_mode retval mode_num =
     (if mode_num \<ge> 0 \<and> mode_num < freenect_get_video_mode_count
      then supported_video_modes ! nat mode_num else retval\<lparr>fm_is_valid := False\<rparr>)"

definition freenect_get_depth_mode :: "depth_format frame_mode \<Rightarrow> int \<Rightarrow> depth_format frame_mode" where
  "freenect_get_depth_mode retval mode_num =
     (if mode_num \<ge> 0 \<and> mode_num < freenect_get_depth_mode_count
      then supported_depth_modes ! nat mode_num else retval\<lparr>fm_is_valid := False\<rparr>)"

text \<open>The search loop over a table: the first mode with that identifier.\<close>

fun find_reserved :: "u32 \<Rightarrow> 'f frame_mode list \<Rightarrow> 'f frame_mode option" where
  "find_reserved unique_id [] = None"
| "find_reserved unique_id (m # ms) =
     (if fm_reserved m = unique_id then Some m else find_reserved unique_id ms)"

definition freenect_find_video_mode ::
  "video_format frame_mode \<Rightarrow> resolution \<Rightarrow> video_format \<Rightarrow> video_format frame_mode" where
  "freenect_find_video_mode retval res fmt =
     (case find_reserved (MAKE_RESERVED (res_code res) (video_code fmt)) supported_video_modes of
        Some m \<Rightarrow> m | None \<Rightarrow> retval\<lparr>fm_is_valid := False\<rparr>)"

definition freenect_find_depth_mode ::
  "depth_format frame_mode \<Rightarrow> resolution \<Rightarrow> depth_format \<Rightarrow> depth_format frame_mode" where
  "freenect_find_depth_mode retval res fmt =
     (case find_reserved (MAKE_RESERVED (res_code res) (depth_code fmt)) supported_depth_modes of
        Some m \<Rightarrow> m | None \<Rightarrow> retval\<lparr>fm_is_valid := False\<rparr>)"

section \<open>Facts about the tables\<close>

lemma video_modes_length: "int (length supported_video_modes) = freenect_get_video_mode_count"
  by (simp add: supported_video_modes_def freenect_get_video_mode_count_def)

lemma depth_modes_length: "int (length supported_depth_modes) = freenect_get_depth_mode_count"
  by (simp add: supported_depth_modes_def freenect_get_depth_mode_count_def)

lemma find_reserved_Some:
  "find_reserved r ms = Some m \<Longrightarrow> m \<in> set ms \<and> fm_reserved m = r"
  by (induction ms) (auto split: if_splits)

lemma find_reserved_None: "find_reserved r ms = None \<longleftrightarrow> (\<forall>m \<in> set ms. fm_reserved m \<noteq> r)"
  by (induction ms) auto

lemma find_reserved_distinct:
  "distinct (List.map fm_reserved ms) \<Longrightarrow> m \<in> set ms \<Longrightarrow> find_reserved (fm_reserved m) ms = Some m"
  by (induction ms) auto

lemmas mode_tables = supported_video_modes_def supported_depth_modes_def frame_mode_row_def
  MAKE_RESERVED_def

lemma video_modes_distinct: "distinct (List.map fm_reserved supported_video_modes)"
  by (simp add: mode_tables)

lemma depth_modes_distinct: "distinct (List.map fm_reserved supported_depth_modes)"
  by (simp add: mode_tables)

lemma video_modes_own_id:
  "\<forall>m \<in> set supported_video_modes. fm_is_valid m \<and> fm_reserved m = MAKE_RESERVED (res_code (fm_resolution m)) (video_code (fm_format m))
     \<and> RESERVED_TO_RESOLUTION (fm_reserved m) = fm_resolution m \<and> video_of (RESERVED_TO_FORMAT (fm_reserved m)) = fm_format m"
  by (simp add: mode_tables RESERVED_TO_RESOLUTION_def RESERVED_TO_FORMAT_def res_of_def video_of_def)

lemma depth_modes_own_id:
  "\<forall>m \<in> set supported_depth_modes. fm_is_valid m \<and> fm_reserved m = MAKE_RESERVED (res_code (fm_resolution m)) (depth_code (fm_format m))
     \<and> RESERVED_TO_RESOLUTION (fm_reserved m) = fm_resolution m \<and> depth_of (RESERVED_TO_FORMAT (fm_reserved m)) = fm_format m"
  by (simp add: mode_tables RESERVED_TO_RESOLUTION_def RESERVED_TO_FORMAT_def res_of_def depth_of_def)

section \<open>Tables of modes as an interface\<close>

text \<open>
  What the camera operations rely on: a table whose identifiers are distinct, computed from
  resolution and format, and decoded by the casts of \<open>freenect_set_*_mode\<close>.
\<close>

locale mode_table =
  fixes modes :: "'f frame_mode list" and code :: "'f \<Rightarrow> u32" and decode :: "u32 \<Rightarrow> 'f"
  assumes distinct_ids: "distinct (List.map fm_reserved modes)"
    and own_id: "m \<in> set modes \<Longrightarrow> fm_reserved m = MAKE_RESERVED (res_code (fm_resolution m)) (code (fm_format m))"
    and valid: "m \<in> set modes \<Longrightarrow> fm_is_valid m"
    and decode_res: "m \<in> set modes \<Longrightarrow> RESERVED_TO_RESOLUTION (fm_reserved m) = fm_resolution m"
    and decode_fmt: "m \<in> set modes \<Longrightarrow> decode (RESERVED_TO_FORMAT (fm_reserved m)) = fm_format m"
begin

definition lookup :: "resolution \<Rightarrow> 'f \<Rightarrow> 'f frame_mode option" where
  "lookup res fmt = find_reserved (MAKE_RESERVED (res_code res) (code fmt)) modes"

lemma lookup_own: "m \<in> set modes \<Longrightarrow> lookup (fm_resolution m) (fm_format m) = Some m"
  using find_reserved_distinct [OF distinct_ids] own_id by (simp add: lookup_def)

lemma lookup_Some: "lookup res fmt = Some m \<Longrightarrow> m \<in> set modes \<and> fm_is_valid m"
  using find_reserved_Some valid by (auto simp: lookup_def)

lemma set_then_get:
  "m \<in> set modes \<Longrightarrow>
     lookup (RESERVED_TO_RESOLUTION (fm_reserved m)) (decode (RESERVED_TO_FORMAT (fm_reserved m))) = Some m"
  by (simp add: decode_res decode_fmt lookup_own)

end

interpretation video: mode_table supported_video_modes video_code video_of
  using video_modes_distinct video_modes_own_id by unfold_locales auto

interpretation depth: mode_table supported_depth_modes depth_code depth_of
  using depth_modes_distinct depth_modes_own_id by unfold_locales auto

lemma find_video_lookup:
  "freenect_find_video_mode retval res fmt =
     (case video.lookup res fmt of Some m \<Rightarrow> m | None \<Rightarrow> retval\<lparr>fm_is_valid := False\<rparr>)"
  by (simp add: freenect_find_video_mode_def video.lookup_def)

lemma find_depth_lookup:
  "freenect_find_depth_mode retval res fmt =
     (case depth.lookup res fmt of Some m \<Rightarrow> m | None \<Rightarrow> retval\<lparr>fm_is_valid := False\<rparr>)"
  by (simp add: freenect_find_depth_mode_def depth.lookup_def)

section \<open>Properties\<close>

text \<open>Every supported mode, video and depth, is a buffer of exactly
  \<open>width * height * (data + padding bits) / 8\<close> bytes, as the header says of the field.\<close>
lemma frame_bytes_fit:
  "(\<forall>m \<in> set supported_video_modes. 8 * fm_bytes m = fm_width m * fm_height m * (fm_data_bits m + fm_padding_bits m))
   \<and> (\<forall>m \<in> set supported_depth_modes. 8 * fm_bytes m = fm_width m * fm_height m * (fm_data_bits m + fm_padding_bits m))"
  by (simp add: mode_tables)

lemma frame_bytes_fit_example:
  "8 * fm_bytes (supported_depth_modes ! 2) = 640 * 480 * 11"
proof -
  have "supported_depth_modes ! 2 \<in> set supported_depth_modes"
    by (simp add: supported_depth_modes_def)
  with frame_bytes_fit have "8 * fm_bytes (supported_depth_modes ! 2)
      = fm_width (supported_depth_modes ! 2) * fm_height (supported_depth_modes ! 2)
        * (fm_data_bits (supported_depth_modes ! 2) + fm_padding_bits (supported_depth_modes ! 2))"
    by blast
  then show ?thesis by (simp add: mode_tables)
qed

text \<open>Lookup and enumeration agree.  The video mode numbered \<open>n\<close> is the one
  \<open>freenect_find_video_mode\<close> finds for its resolution and format, and it is valid.\<close>
lemma video_mode_enumeration:
  assumes "0 \<le> n" "n < freenect_get_video_mode_count"
  shows "let m = freenect_get_video_mode retval n
    in fm_is_valid m \<and> freenect_find_video_mode retval (fm_resolution m) (fm_format m) = m"
proof -
  let ?m = "supported_video_modes ! nat n"
  have "nat n < length supported_video_modes"
    using assms video_modes_length by linarith
  then have "?m \<in> set supported_video_modes" by (rule nth_mem)
  then show ?thesis
    using assms by (simp add: freenect_get_video_mode_def find_video_lookup video.lookup_own video.valid)
qed

lemma video_mode_enumeration_example:
  "\<forall>retval. freenect_find_video_mode retval RESOLUTION_MEDIUM VIDEO_IR_8BIT = freenect_get_video_mode retval 5"
proof
  fix retval
  show "freenect_find_video_mode retval RESOLUTION_MEDIUM VIDEO_IR_8BIT = freenect_get_video_mode retval 5"
    using video_mode_enumeration [of 5 retval]
    by (simp add: freenect_get_video_mode_def freenect_get_video_mode_count_def mode_tables Let_def)
qed

end
