(* ===== verification/IsoStream.thy ===== *)
theory IsoStream
  imports Prelude
begin

text \<open>
  Isochronous streams of \<open>libfreenect/usb_libusb10.c\<close>: \<open>fnusb_start_iso\<close>, \<open>iso_callback\<close>,
  \<open>fnusb_stop_iso\<close> and \<open>fnusb_get_max_iso_packet_size\<close>.

  A transfer is its index in \<open>strm->xfers\<close>, \<open>None\<close> where \<open>libusb_alloc_transfer\<close> returned NULL.
  The transfers libusb holds are the set \<open>inflight\<close>; it runs the callback of a transfer in
  flight once, and the transfer is in flight again only when it is resubmitted with success.
  What libusb answers (allocation, submission, status, actual lengths) is an argument.
\<close>

datatype transfer_status = TRANSFER_COMPLETED | TRANSFER_ERROR | TRANSFER_TIMED_OUT
  | TRANSFER_CANCELLED | TRANSFER_STALL | TRANSFER_NO_DEVICE | TRANSFER_OVERFLOW

definition LIBUSB_ERROR_NO_DEVICE :: int where "LIBUSB_ERROR_NO_DEVICE = -4"

record iso_stream =
  is_xfers :: "nat option list"
  is_num_xfers :: int
  is_pkts :: int
  is_len :: int
  is_dead :: bool
  is_dead_xfers :: int

text \<open>The stream, the \<open>device_dead\<close> field of its parent, the transfers in flight and the
  state \<open>'s\<close> of the client the packets go to.\<close>

record 's iso_state =
  st_strm :: iso_stream
  st_device_dead :: bool
  st_inflight :: "nat set"
  st_client :: 's

type_synonym 's iso_cb = "bytes \<Rightarrow> 's \<Rightarrow> 's option"

definition fnusb_get_max_iso_packet_size :: "int \<Rightarrow> int \<Rightarrow> int" where
  "fnusb_get_max_iso_packet_size sz default_size = (if sz \<le> 0 then default_size else sz)"

section \<open>Starting\<close>

text \<open>One round of the loop: allocate transfer \<open>i\<close> and submit it.\<close>

definition start_xfer :: "(nat \<Rightarrow> bool) \<Rightarrow> (nat \<Rightarrow> int) \<Rightarrow> nat \<Rightarrow> 's iso_state \<Rightarrow> 's iso_state" where
  "start_xfer alloc submit i st =
     (let strm = st_strm st
      in if \<not> alloc i
         then st\<lparr>st_strm := strm\<lparr>is_xfers := is_xfers strm @ [None],
                                 is_dead_xfers := is_dead_xfers strm + 1\<rparr>\<rparr>
         else if submit i < 0
         then st\<lparr>st_strm := strm\<lparr>is_xfers := is_xfers strm @ [Some i],
                                 is_dead_xfers := is_dead_xfers strm + 1\<rparr>\<rparr>
         else st\<lparr>st_strm := strm\<lparr>is_xfers := is_xfers strm @ [Some i]\<rparr>,
                 st_inflight := insert i (st_inflight st)\<rparr>)"

definition fnusb_start_iso ::
  "(nat \<Rightarrow> bool) \<Rightarrow> (nat \<Rightarrow> int) \<Rightarrow> int \<Rightarrow> int \<Rightarrow> int \<Rightarrow> 's iso_state \<Rightarrow> int \<times> 's iso_state" where
  "fnusb_start_iso alloc submit xfers pkts len st =
     (0, fold (start_xfer alloc submit) [0..<nat xfers]
           (st\<lparr>st_strm := \<lparr>is_xfers = [], is_num_xfers = xfers, is_pkts = pkts, is_len = len,
                           is_dead = False, is_dead_xfers = 0\<rparr>\<rparr>))"

section \<open>The transfer callback\<close>

text \<open>Each packet of a completed transfer: slot \<open>i\<close> of the buffer, cut to its actual length.\<close>

fun deliver_packets :: "'s iso_cb \<Rightarrow> nat \<Rightarrow> nat list \<Rightarrow> bytes \<Rightarrow> 's \<Rightarrow> 's option" where
  "deliver_packets cb len [] buf s = Some s"
| "deliver_packets cb len (n # ns) buf s =
     (if length buf < len \<or> len < n then None
      else case cb (take n buf) s of None \<Rightarrow> None
           | Some s' \<Rightarrow> deliver_packets cb len ns (drop len buf) s')"

definition kill_xfer :: "'s iso_state \<Rightarrow> 's iso_state" where
  "kill_xfer st = st\<lparr>st_strm := (st_strm st)\<lparr>is_dead_xfers := is_dead_xfers (st_strm st) + 1\<rparr>\<rparr>"

text \<open>Resubmit transfer \<open>i\<close>; \<open>res\<close> is what \<open>libusb_submit_transfer\<close> returns.\<close>

definition resubmit :: "nat \<Rightarrow> int \<Rightarrow> 's iso_state \<Rightarrow> 's iso_state" where
  "resubmit i res st =
     (if res \<noteq> 0
      then (kill_xfer st)\<lparr>st_device_dead := st_device_dead st \<or> res = LIBUSB_ERROR_NO_DEVICE\<rparr>
      else st\<lparr>st_inflight := insert i (st_inflight st)\<rparr>)"

definition iso_callback ::
  "'s iso_cb \<Rightarrow> nat \<Rightarrow> transfer_status \<Rightarrow> nat list \<Rightarrow> bytes \<Rightarrow> int \<Rightarrow> 's iso_state \<Rightarrow> 's iso_state option" where
  "iso_callback cb i status lens buf res st =
     (if is_dead (st_strm st) then Some (kill_xfer st)
      else case status of
        TRANSFER_COMPLETED \<Rightarrow>
          (if length lens < nat (is_pkts (st_strm st)) then None
           else map_option (\<lambda>s'. resubmit i res (st\<lparr>st_client := s'\<rparr>))
                  (deliver_packets cb (nat (is_len (st_strm st)))
                     (take (nat (is_pkts (st_strm st))) lens) buf (st_client st)))
      | TRANSFER_NO_DEVICE \<Rightarrow> Some ((kill_xfer st)\<lparr>st_device_dead := True\<rparr>)
      | TRANSFER_CANCELLED \<Rightarrow> Some ((kill_xfer st)\<lparr>st_device_dead := True\<rparr>)
      | _ \<Rightarrow> Some (resubmit i res st))"

text \<open>libusb completes transfer \<open>i\<close>: it leaves the transfers in flight and its callback runs.\<close>

definition complete_xfer ::
  "'s iso_cb \<Rightarrow> nat \<Rightarrow> transfer_status \<Rightarrow> nat list \<Rightarrow> bytes \<Rightarrow> int \<Rightarrow> 's iso_state \<Rightarrow> 's iso_state option" where
  "complete_xfer cb i status lens buf res st =
     iso_callback cb i status lens buf res (st\<lparr>st_inflight := st_inflight st - {i}\<rparr>)"

section \<open>Stopping\<close>

text \<open>
  \<open>libusb_cancel_transfer\<close> dereferences its argument: cancelling a NULL transfer is a fault.
  The waiting loop consumes the completions \<open>libusb_handle_events\<close> delivers (each an index
  and a status) until all transfers are dead; the result also holds the completions left over.
  \<open>None\<close> with all completions consumed is a loop still waiting.
\<close>

fun stop_wait :: "'s iso_cb \<Rightarrow> (nat \<times> transfer_status) list \<Rightarrow> 's iso_state \<Rightarrow>
    (('s iso_state) \<times> (nat \<times> transfer_status) list) option" where
  "stop_wait cb [] st =
     (if is_dead_xfers (st_strm st) < is_num_xfers (st_strm st) then None else Some (st, []))"
| "stop_wait cb (e # es) st =
     (if is_dead_xfers (st_strm st) < is_num_xfers (st_strm st)
      then case complete_xfer cb (fst e) (snd e) [] [] 0 st of None \<Rightarrow> None
           | Some st' \<Rightarrow> stop_wait cb es st'
      else Some (st, e # es))"

definition fnusb_stop_iso ::
  "'s iso_cb \<Rightarrow> (nat \<times> transfer_status) list \<Rightarrow> 's iso_state \<Rightarrow> (int \<times> 's iso_state) option" where
  "fnusb_stop_iso cb es st =
     (let st1 = st\<lparr>st_strm := (st_strm st)\<lparr>is_dead := True\<rparr>\<rparr>
      in if None \<in> set (is_xfers (st_strm st1)) then None
         else map_option (\<lambda>(st2, _). (0, st2)) (stop_wait cb es st1))"

section \<open>Accounting of transfers\<close>

definition iso_inv :: "'s iso_state \<Rightarrow> bool" where
  "iso_inv st \<longleftrightarrow> finite (st_inflight st) \<and> 0 \<le> is_dead_xfers (st_strm st)
     \<and> is_dead_xfers (st_strm st) + int (card (st_inflight st)) = is_num_xfers (st_strm st)
     \<and> (\<forall>i \<in> st_inflight st. i < length (is_xfers (st_strm st)) \<and> is_xfers (st_strm st) ! i = Some i)"

text \<open>The fields no completion changes.\<close>

definition iso_conf :: "iso_stream \<Rightarrow> nat option list \<times> int \<times> int \<times> int \<times> bool" where
  "iso_conf s = (is_xfers s, is_num_xfers s, is_pkts s, is_len s, is_dead s)"

lemma start_xfer_counts:
  assumes "i \<notin> st_inflight st" "finite (st_inflight st)" "length (is_xfers (st_strm st)) = i"
  shows "is_dead_xfers (st_strm (start_xfer alloc submit i st)) + int (card (st_inflight (start_xfer alloc submit i st)))
      = is_dead_xfers (st_strm st) + int (card (st_inflight st)) + 1"
    and "st_inflight (start_xfer alloc submit i st) = st_inflight st \<union> (if alloc i \<and> 0 \<le> submit i then {i} else {})"
    and "is_xfers (st_strm (start_xfer alloc submit i st)) = is_xfers (st_strm st) @ [if alloc i then Some i else None]"
    and "is_num_xfers (st_strm (start_xfer alloc submit i st)) = is_num_xfers (st_strm st)"
    and "is_dead_xfers (st_strm st) \<le> is_dead_xfers (st_strm (start_xfer alloc submit i st))"
    and "is_dead (st_strm (start_xfer alloc submit i st)) = is_dead (st_strm st)"
    and "is_pkts (st_strm (start_xfer alloc submit i st)) = is_pkts (st_strm st)"
    and "is_len (st_strm (start_xfer alloc submit i st)) = is_len (st_strm st)"
    and "st_client (start_xfer alloc submit i st) = st_client st"
    and "st_device_dead (start_xfer alloc submit i st) = st_device_dead st"
  using assms by (auto simp: start_xfer_def Let_def)

lemma start_loop:
  assumes "st_inflight st = {}" "is_xfers (st_strm st) = []" "is_dead_xfers (st_strm st) = 0"
  shows "let st' = fold (start_xfer alloc submit) [0..<n] st
    in is_dead_xfers (st_strm st') + int (card (st_inflight st')) = int n
      \<and> st_inflight st' = {i. i < n \<and> alloc i \<and> 0 \<le> submit i}
      \<and> is_xfers (st_strm st') = map (\<lambda>i. if alloc i then Some i else None) [0..<n]
      \<and> is_num_xfers (st_strm st') = is_num_xfers (st_strm st) \<and> 0 \<le> is_dead_xfers (st_strm st')
      \<and> is_dead (st_strm st') = is_dead (st_strm st) \<and> st_client st' = st_client st
      \<and> is_pkts (st_strm st') = is_pkts (st_strm st) \<and> is_len (st_strm st') = is_len (st_strm st)
      \<and> st_device_dead st' = st_device_dead st"
proof (induction n)
  case 0
  then show ?case using assms by simp
next
  case (Suc n)
  define st' where "st' = fold (start_xfer alloc submit) [0..<n] st"
  note IH = Suc.IH [unfolded Let_def, folded st'_def]
  have pre: "n \<notin> st_inflight st'" "finite (st_inflight st')" "length (is_xfers (st_strm st')) = n"
    using IH by auto
  have f: "fold (start_xfer alloc submit) [0..<Suc n] st = start_xfer alloc submit n st'"
    by (simp add: st'_def)
  have "{i. i < Suc n \<and> alloc i \<and> 0 \<le> submit i}
      = {i. i < n \<and> alloc i \<and> 0 \<le> submit i} \<union> (if alloc n \<and> 0 \<le> submit n then {n} else {})"
    by (auto simp: less_Suc_eq)
  then show ?case
    unfolding f Let_def using start_xfer_counts [OF pre, of alloc submit] IH
      IH [THEN conjunct1, unfolded IH [THEN conjunct2, THEN conjunct1]] by simp
qed

lemma fnusb_start_iso_inv:
  assumes "fnusb_start_iso alloc submit xfers pkts len st = (r, st')" "st_inflight st = {}" "0 \<le> xfers"
  shows "iso_inv st' \<and> r = 0 \<and> is_num_xfers (st_strm st') = xfers \<and> is_pkts (st_strm st') = pkts
    \<and> is_len (st_strm st') = len \<and> \<not> is_dead (st_strm st') \<and> st_client st' = st_client st
    \<and> st_inflight st' = {i. i < nat xfers \<and> alloc i \<and> 0 \<le> submit i}
    \<and> is_xfers (st_strm st') = map (\<lambda>i. if alloc i then Some i else None) [0..<nat xfers]"
proof -
  define st0 where "st0 = st\<lparr>st_strm := \<lparr>is_xfers = [], is_num_xfers = xfers, is_pkts = pkts,
    is_len = len, is_dead = False, is_dead_xfers = 0\<rparr>\<rparr>"
  have st': "st' = fold (start_xfer alloc submit) [0..<nat xfers] st0" and r: "r = 0"
    using assms(1) by (auto simp: fnusb_start_iso_def st0_def)
  have "st_inflight st0 = {}" "is_xfers (st_strm st0) = []" "is_dead_xfers (st_strm st0) = 0"
    using assms(2) by (simp_all add: st0_def)
  note L = start_loop [OF this, of alloc submit "nat xfers", unfolded Let_def, folded st']
  have fin: "finite (st_inflight st')" and
    all: "\<forall>i \<in> st_inflight st'. i < length (is_xfers (st_strm st')) \<and> is_xfers (st_strm st') ! i = Some i"
    using L [THEN conjunct2, THEN conjunct1] L [THEN conjunct2, THEN conjunct2, THEN conjunct1] by auto
  have z: "is_num_xfers (st_strm st0) = xfers" "is_pkts (st_strm st0) = pkts" "is_len (st_strm st0) = len"
    "\<not> is_dead (st_strm st0)" "st_client st0 = st_client st" "int (nat xfers) = xfers"
    using assms(3) by (simp_all add: st0_def)
  have "is_dead_xfers (st_strm st') + int (card (st_inflight st')) = xfers"
    "is_num_xfers (st_strm st') = xfers" "0 \<le> is_dead_xfers (st_strm st')"
    by (insert L [unfolded z(1-3,5-6)]) (elim conjE, assumption)+
  then have "iso_inv st'" unfolding iso_inv_def using fin all by simp
  moreover have "\<not> is_dead (st_strm st')" using L z(4) by (elim conjE) simp
  ultimately show ?thesis
    using L [unfolded z(1-3,5-6)] r by (elim conjE) (intro conjI, assumption+)
qed

lemma kill_xfer_simps [simp]:
  "st_inflight (kill_xfer st) = st_inflight st" "st_client (kill_xfer st) = st_client st"
  "st_device_dead (kill_xfer st) = st_device_dead st"
  "is_dead_xfers (st_strm (kill_xfer st)) = is_dead_xfers (st_strm st) + 1"
  "iso_conf (st_strm (kill_xfer st)) = iso_conf (st_strm st)"
  by (simp_all add: kill_xfer_def iso_conf_def)

text \<open>A completion either leaves the transfer out, one more dead, or puts it back in flight.\<close>

definition xfer_step :: "nat \<Rightarrow> 's iso_state \<Rightarrow> 's iso_state \<Rightarrow> bool" where
  "xfer_step i st st' \<longleftrightarrow> iso_conf (st_strm st') = iso_conf (st_strm st) \<and>
     (is_dead_xfers (st_strm st') = is_dead_xfers (st_strm st) + 1 \<and> st_inflight st' = st_inflight st - {i}
      \<or> is_dead_xfers (st_strm st') = is_dead_xfers (st_strm st) \<and> st_inflight st' = insert i (st_inflight st)
        \<and> \<not> is_dead (st_strm st))"

lemma resubmit_step:
  "iso_conf (st_strm (resubmit i res st)) = iso_conf (st_strm st)
   \<and> (is_dead_xfers (st_strm (resubmit i res st)) = is_dead_xfers (st_strm st) + 1 \<and> st_inflight (resubmit i res st) = st_inflight st
      \<or> is_dead_xfers (st_strm (resubmit i res st)) = is_dead_xfers (st_strm st) \<and> st_inflight (resubmit i res st) = insert i (st_inflight st))"
  by (simp add: resubmit_def)

lemma resubmit_client [simp]: "st_client (resubmit i res st) = st_client st"
  by (simp add: resubmit_def)

lemma complete_xfer_step:
  assumes "complete_xfer cb i status lens buf res st = Some st'"
  shows "xfer_step i st st'"
proof (cases "is_dead (st_strm st)")
  case True
  then show ?thesis using assms by (auto simp: complete_xfer_def iso_callback_def xfer_step_def)
next
  case False
  have r: "xfer_step i st (resubmit i res (st\<lparr>st_inflight := st_inflight st - {i}, st_client := c\<rparr>))" for c
    using resubmit_step [of i res "st\<lparr>st_inflight := st_inflight st - {i}, st_client := c\<rparr>"] False
    by (simp add: xfer_step_def)
  have r': "xfer_step i st (resubmit i res (st\<lparr>st_inflight := st_inflight st - {i}\<rparr>))"
    using resubmit_step [of i res "st\<lparr>st_inflight := st_inflight st - {i}\<rparr>"] False
    by (simp add: xfer_step_def)
  have k: "xfer_step i st ((kill_xfer (st\<lparr>st_inflight := st_inflight st - {i}\<rparr>))\<lparr>st_device_dead := True\<rparr>)"
    by (simp add: xfer_step_def)
  show ?thesis
  proof (cases status)
    case TRANSFER_COMPLETED
    then obtain c where "st' = resubmit i res (st\<lparr>st_inflight := st_inflight st - {i}, st_client := c\<rparr>)"
      using assms False by (simp add: complete_xfer_def iso_callback_def split: if_splits) blast
    with r show ?thesis by simp
  qed (use assms False r' k in \<open>simp_all add: complete_xfer_def iso_callback_def\<close>)
qed

lemma iso_conf_fields:
  assumes "iso_conf s' = iso_conf s"
  shows "is_xfers s' = is_xfers s" "is_num_xfers s' = is_num_xfers s" "is_pkts s' = is_pkts s"
    "is_len s' = is_len s" "is_dead s' = is_dead s"
  using assms by (simp_all add: iso_conf_def)

lemma xfer_step_inv:
  assumes "iso_inv st" "i \<in> st_inflight st" "xfer_step i st st'"
  shows "iso_inv st'"
proof -
  have f: "finite (st_inflight st)" using assms(1) by (simp add: iso_inv_def)
  have c: "card (st_inflight st) = Suc (card (st_inflight st - {i}))"
    using card.remove [OF f assms(2)] by simp
  have ins: "insert i (st_inflight st) = st_inflight st" using assms(2) by blast
  have conf: "iso_conf (st_strm st') = iso_conf (st_strm st)" using assms(3) by (simp add: xfer_step_def)
  note same = iso_conf_fields [OF conf]
  consider (dead) "is_dead_xfers (st_strm st') = is_dead_xfers (st_strm st) + 1" "st_inflight st' = st_inflight st - {i}"
    | (live) "is_dead_xfers (st_strm st') = is_dead_xfers (st_strm st)" "st_inflight st' = st_inflight st"
    using assms(3) ins by (auto simp: xfer_step_def)
  then show ?thesis
    using assms(1) c by cases (simp_all add: iso_inv_def same)
qed

lemma complete_xfer_inv:
  "iso_inv st \<Longrightarrow> i \<in> st_inflight st \<Longrightarrow> complete_xfer cb i status lens buf res st = Some st' \<Longrightarrow> iso_inv st'"
  using complete_xfer_step xfer_step_inv by blast

section \<open>The client of a stream\<close>

text \<open>
  What a stream relies on in the callback it delivers packets to: in the states the client
  keeps, it accepts every packet.
\<close>

primrec run_packets :: "'s iso_cb \<Rightarrow> bytes list \<Rightarrow> 's \<Rightarrow> 's option" where
  "run_packets process [] s = Some s"
| "run_packets process (p # ps) s =
     (case process p s of None \<Rightarrow> None | Some s' \<Rightarrow> run_packets process ps s')"

locale packet_sink =
  fixes process :: "bytes \<Rightarrow> 's \<Rightarrow> 's option" and inv :: "'s \<Rightarrow> bool"
  assumes process_ok: "inv s \<Longrightarrow> \<exists>s'. process pkt s = Some s' \<and> inv s'"
begin

lemma run_ok: "inv s \<Longrightarrow> \<exists>s'. run_packets process pkts s = Some s' \<and> inv s'"
proof (induction pkts arbitrary: s)
  case Nil
  then show ?case by simp
next
  case (Cons p ps)
  obtain s1 where "process p s = Some s1" "inv s1" using process_ok [OF Cons.prems] by blast
  then show ?case using Cons.IH [of s1] by simp
qed

lemma deliver_ok:
  "inv s \<Longrightarrow> \<forall>n \<in> set lens. n \<le> len \<Longrightarrow> length lens * len \<le> length buf \<Longrightarrow>
     \<exists>s'. deliver_packets process len lens buf s = Some s' \<and> inv s'"
proof (induction lens arbitrary: buf s)
  case Nil
  then show ?case by simp
next
  case (Cons n lens)
  obtain s1 where "process (take n buf) s = Some s1" "inv s1"
    using process_ok [OF Cons.prems(1)] by blast
  moreover have "len \<le> length buf" "n \<le> len" "length lens * len \<le> length (drop len buf)"
    using Cons.prems(2,3) by auto
  ultimately show ?case using Cons.IH [of s1 "drop len buf"] Cons.prems(2) by simp
qed

lemma complete_ok:
  assumes "inv (st_client st)" "0 \<le> is_pkts (st_strm st)" "0 \<le> is_len (st_strm st)"
    and "status = TRANSFER_COMPLETED \<Longrightarrow> \<not> is_dead (st_strm st) \<Longrightarrow>
      length lens = nat (is_pkts (st_strm st)) \<and> (\<forall>n \<in> set lens. n \<le> nat (is_len (st_strm st)))
      \<and> length buf = nat (is_pkts (st_strm st) * is_len (st_strm st))"
  shows "\<exists>st'. complete_xfer process i status lens buf res st = Some st' \<and> inv (st_client st')"
proof (cases "is_dead (st_strm st) \<or> status \<noteq> TRANSFER_COMPLETED")
  case True
  then show ?thesis
    using assms(1) by (cases status) (auto simp: complete_xfer_def iso_callback_def)
next
  case False
  then have l: "length lens = nat (is_pkts (st_strm st))" "\<forall>n \<in> set lens. n \<le> nat (is_len (st_strm st))"
    "length lens * nat (is_len (st_strm st)) \<le> length buf"
    using assms(2-4) by (auto simp: nat_mult_distrib)
  obtain s' where "deliver_packets process (nat (is_len (st_strm st))) lens buf (st_client st) = Some s'" "inv s'"
    using deliver_ok [OF assms(1) l(2,3)] by blast
  then show ?thesis
    using False l(1) by (simp add: complete_xfer_def iso_callback_def)
qed

end

section \<open>Runs of a stream\<close>

text \<open>libusb completes transfers that are in flight, in any order, with any outcome.\<close>

inductive iso_run :: "'s iso_cb \<Rightarrow> 's iso_state \<Rightarrow> 's iso_state \<Rightarrow> bool" for cb where
  run_refl: "iso_run cb st st"
| run_complete: "iso_run cb st st1 \<Longrightarrow> i \<in> st_inflight st1 \<Longrightarrow>
     complete_xfer cb i status lens buf res st1 = Some st2 \<Longrightarrow> iso_run cb st st2"

inductive_cases iso_runE: "iso_run cb st st'"

lemma iso_run_inv: "iso_run cb st st' \<Longrightarrow> iso_inv st \<Longrightarrow> iso_inv st'"
  by (induction rule: iso_run.induct) (auto dest: complete_xfer_inv)

lemma iso_run_conf: "iso_run cb st st' \<Longrightarrow> iso_conf (st_strm st') = iso_conf (st_strm st)"
  by (induction rule: iso_run.induct) (auto dest: complete_xfer_step simp: xfer_step_def)

lemma complete_dead:
  "is_dead (st_strm st) \<Longrightarrow> complete_xfer cb i status lens buf res st
     = Some (kill_xfer (st\<lparr>st_inflight := st_inflight st - {i}\<rparr>))"
  by (simp add: complete_xfer_def iso_callback_def)

lemma iso_inv_waiting:
  assumes "iso_inv st"
  shows "is_dead_xfers (st_strm st) < is_num_xfers (st_strm st) \<longleftrightarrow> st_inflight st \<noteq> {}"
proof -
  have "finite (st_inflight st)" using assms by (simp add: iso_inv_def)
  then have "st_inflight st \<noteq> {} \<longleftrightarrow> 0 < card (st_inflight st)" by (simp add: card_gt_0_iff)
  moreover have "is_dead_xfers (st_strm st) + int (card (st_inflight st)) = is_num_xfers (st_strm st)"
    using assms by (simp add: iso_inv_def)
  ultimately show ?thesis by linarith
qed

lemma stop_wait_dead:
  "iso_inv st \<Longrightarrow> is_dead (st_strm st) \<Longrightarrow> distinct (map fst es) \<Longrightarrow> set (map fst es) \<subseteq> st_inflight st \<Longrightarrow>
   (if set (map fst es) = st_inflight st
    then \<exists>st'. stop_wait cb es st = Some (st', []) \<and> st_inflight st' = {} \<and> st_client st' = st_client st
    else stop_wait cb es st = None)"
proof (induction es arbitrary: st)
  case Nil
  then show ?case using iso_inv_waiting [of st] by auto
next
  case (Cons e es)
  define st1 where "st1 = kill_xfer (st\<lparr>st_inflight := st_inflight st - {fst e}\<rparr>)"
  have e: "fst e \<in> st_inflight st" using Cons.prems(4) by simp
  have c: "complete_xfer cb (fst e) (snd e) [] [] 0 st = Some st1"
    using Cons.prems(2) by (simp add: complete_dead st1_def)
  have lt: "is_dead_xfers (st_strm st) < is_num_xfers (st_strm st)"
    using iso_inv_waiting [OF Cons.prems(1)] e by auto
  have inv: "iso_inv st1" using complete_xfer_inv [OF Cons.prems(1) e c] .
  have d: "is_dead (st_strm st1)" using Cons.prems(2) by (simp add: st1_def kill_xfer_def)
  have i1: "st_inflight st1 = st_inflight st - {fst e}" "st_client st1 = st_client st"
    by (simp_all add: st1_def)
  have iff: "set (map fst (e # es)) = st_inflight st \<longleftrightarrow> set (map fst es) = st_inflight st1"
  proof -
    have "fst e \<notin> set (map fst es)" using Cons.prems(3) by simp
    then show ?thesis using e i1(1) by (metis Diff_insert_absorb insert_Diff list.set(2) list.simps(9))
  qed
  have "stop_wait cb (e # es) st = stop_wait cb es st1" using lt c by simp
  moreover have "set (map fst es) \<subseteq> st_inflight st1"
  proof -
    have "fst e \<notin> set (map fst es)" "set (map fst es) \<subseteq> st_inflight st" using Cons.prems(3,4) by simp_all
    then show ?thesis unfolding i1(1) by blast
  qed
  ultimately show ?case
    using Cons.IH [OF inv d] Cons.prems(3) iff i1(2) by (simp only: distinct.simps list.map) auto
qed

section \<open>Properties\<close>

text \<open>C22: The accounting \<open>fnusb_stop_iso\<close> relies on.  From \<open>fnusb_start_iso\<close> on, whatever
  allocations and submissions fail, whatever transfers complete in whatever order with
  whatever status, and whether or not they can be resubmitted: the dead transfers and the
  transfers in flight together are always exactly \<open>num_xfers\<close>.\<close>
theorem iso_transfers_accounted:
  assumes "fnusb_start_iso alloc submit xfers pkts len st = (r, st1)" "st_inflight st = {}" "0 \<le> xfers"
    and "iso_run cb st1 st2"
  shows "is_dead_xfers (st_strm st2) + int (card (st_inflight st2)) = xfers"
proof -
  have "iso_inv st2" "is_num_xfers (st_strm st2) = xfers"
    using fnusb_start_iso_inv [OF assms(1-3)] iso_run_inv [OF assms(4)]
      iso_conf_fields(2) [OF iso_run_conf [OF assms(4)]] by auto
  then show ?thesis by (simp add: iso_inv_def)
qed

definition sample_iso :: "nat iso_state" where
  "sample_iso = \<lparr>st_strm = \<lparr>is_xfers = [], is_num_xfers = 0, is_pkts = 0, is_len = 0, is_dead = False,
     is_dead_xfers = 0\<rparr>, st_device_dead = False, st_inflight = {}, st_client = 0\<rparr>"

definition count_bytes :: "nat iso_cb" where
  "count_bytes pkt n = Some (n + length pkt)"

theorem iso_transfers_accounted_witness:
  "is_dead_xfers (st_strm (snd (fnusb_start_iso (\<lambda>_. True) (\<lambda>i. if i = 1 then -1 else 0) 3 2 4 sample_iso)))
    + int (card (st_inflight (snd (fnusb_start_iso (\<lambda>_. True) (\<lambda>i. if i = 1 then -1 else 0) 3 2 4 sample_iso)))) = 3"
  by (rule iso_transfers_accounted [OF prod.collapse [symmetric] _ _ run_refl [of count_bytes]])
    (simp_all add: sample_iso_def)

text \<open>C35: \<open>fnusb_stop_iso\<close> frees the transfers only when libusb holds none of them.  With
  the completions of transfers in flight that the event loop delivers, it returns exactly
  when every slot of the table has a transfer and all those in flight have completed; then nothing is
  in flight, and no packet reached the client after the stop.  Otherwise it does not return:
  it waits on, or with a slot whose transfer could not be allocated it faults.\<close>
theorem stop_iso_waits_for_all:
  assumes "iso_inv st" "distinct (map fst es)" "set (map fst es) \<subseteq> st_inflight st"
  shows "if None \<notin> set (is_xfers (st_strm st)) \<and> set (map fst es) = st_inflight st
    then \<exists>st'. fnusb_stop_iso cb es st = Some (0, st') \<and> st_inflight st' = {} \<and> st_client st' = st_client st
    else fnusb_stop_iso cb es st = None"
proof -
  let ?st = "st\<lparr>st_strm := (st_strm st)\<lparr>is_dead := True\<rparr>\<rparr>"
  have "iso_inv ?st" using assms(1) by (simp add: iso_inv_def)
  note w = stop_wait_dead [OF this _ assms(2), of cb, simplified, OF assms(3) [simplified]]
  consider "None \<in> set (is_xfers (st_strm st))"
    | "None \<notin> set (is_xfers (st_strm st))" "set (map fst es) = st_inflight st"
    | "None \<notin> set (is_xfers (st_strm st))" "set (map fst es) \<noteq> st_inflight st" by blast
  then show ?thesis
  proof cases
    case 1
    then show ?thesis by (simp add: fnusb_stop_iso_def)
  next
    case 2
    then obtain st' where "stop_wait cb es ?st = Some (st', [])" "st_inflight st' = {}" "st_client st' = st_client st"
      using w by auto
    then show ?thesis using 2 by (simp add: fnusb_stop_iso_def)
  next
    case 3
    then have "stop_wait cb es ?st = None" using w by simp
    then show ?thesis using 3 by (simp add: fnusb_stop_iso_def)
  qed
qed

theorem stop_iso_waits_for_all_witness:
  "fnusb_stop_iso count_bytes [(1, TRANSFER_CANCELLED)]
     (snd (fnusb_start_iso (\<lambda>_. True) (\<lambda>_. 0) 2 2 4 sample_iso)) = None
   \<and> (\<exists>st'. fnusb_stop_iso count_bytes [(1, TRANSFER_CANCELLED), (0, TRANSFER_COMPLETED)]
        (snd (fnusb_start_iso (\<lambda>_. True) (\<lambda>_. 0) 2 2 4 sample_iso)) = Some (0, st') \<and> st_inflight st' = {})"
proof -
  let ?st = "snd (fnusb_start_iso (\<lambda>_. True) (\<lambda>_. 0) 2 2 4 sample_iso)"
  have st: "iso_inv ?st" "st_inflight ?st = {i. i < nat 2 \<and> True \<and> 0 \<le> (0::int)}"
    "is_xfers (st_strm ?st) = map (\<lambda>i. if True then Some i else None) [0..<nat 2]"
    using fnusb_start_iso_inv [of "\<lambda>_. True" "\<lambda>_. 0" 2 2 4 sample_iso 0 ?st]
    by (simp_all add: sample_iso_def fnusb_start_iso_def)
  have fl: "st_inflight ?st = {0, 1}" unfolding st(2) by auto
  have a: "None \<notin> set (is_xfers (st_strm ?st))" unfolding st(3) by simp
  have one: "distinct (map fst [(1::nat, TRANSFER_CANCELLED)])" "set (map fst [(1, TRANSFER_CANCELLED)]) \<subseteq> st_inflight ?st"
    "set (map fst [(1, TRANSFER_CANCELLED)]) \<noteq> st_inflight ?st" unfolding fl by simp_all
  have two: "distinct (map fst [(1::nat, TRANSFER_CANCELLED), (0, TRANSFER_COMPLETED)])"
    "set (map fst [(1, TRANSFER_CANCELLED), (0, TRANSFER_COMPLETED)]) = st_inflight ?st" unfolding fl by auto
  show ?thesis
    using stop_iso_waits_for_all [OF st(1) one(1,2), of count_bytes] one(3)
      stop_iso_waits_for_all [OF st(1) two(1) equalityD1 [OF two(2)], of count_bytes] a two(2)
    by (simp only: if_True if_False simp_thms) blast
qed

text \<open>A transfer that could not be allocated breaks the stop.  \<open>fnusb_start_iso\<close> goes on
  and returns 0 when \<open>libusb_alloc_transfer\<close> fails, leaving a NULL pointer in the table; every
  later \<open>fnusb_stop_iso\<close> passes it to \<open>libusb_cancel_transfer\<close> and faults.\<close>
lemma failed_alloc_breaks_stop:
  assumes "fnusb_start_iso alloc submit xfers pkts len st = (r, st1)" "st_inflight st = {}"
    and "i < nat xfers" "\<not> alloc i" "iso_run cb st1 st2"
  shows "r = 0 \<and> fnusb_stop_iso cb' es st2 = None"
proof -
  have x: "is_xfers (st_strm st1) = map (\<lambda>i. if alloc i then Some i else None) [0..<nat xfers]" and "r = 0"
    using fnusb_start_iso_inv [OF assms(1,2)] assms(3) by auto
  have "is_xfers (st_strm st2) = is_xfers (st_strm st1)"
    using iso_conf_fields(1) [OF iso_run_conf [OF assms(5)]] .
  then have "None \<in> set (is_xfers (st_strm st2))" using x assms(3,4) by (auto simp: image_iff)
  with \<open>r = 0\<close> show ?thesis by (simp add: fnusb_stop_iso_def)
qed

lemma failed_alloc_breaks_stop_example:
  "fst (fnusb_start_iso (\<lambda>i. i \<noteq> 2) (\<lambda>_. 0) 6 128 1920 sample_iso) = 0
   \<and> fnusb_stop_iso count_bytes []
       (snd (fnusb_start_iso (\<lambda>i. i \<noteq> 2) (\<lambda>_. 0) 6 128 1920 sample_iso)) = None"
  by (rule failed_alloc_breaks_stop [where i = 2, OF prod.collapse [symmetric] _ _ _ run_refl [of count_bytes]])
    (simp_all add: sample_iso_def)

end
