(* ===== verification/CFloat.thy ===== *)
theory CFloat
  imports Complex_Main Prelude
begin

text \<open>
  The floating point arithmetic of the C code: \<open>float\<close> bit patterns and their values, the
  operations on \<open>double\<close> and \<open>float\<close>, and the truncating conversion to an integer.

  A finite \<open>double\<close> is its value, a real number; \<open>None\<close> is a number that is not finite
  (an infinity or a NaN).  Every operation is the exact operation followed by rounding.  The
  rounding functions of the processor, which give \<open>None\<close> on overflow, are parameters
  (\<open>fl_single\<close>, \<open>fl_double\<close>); \<open>fl_rounds\<close> states the accuracy IEEE 754 prescribes.
\<close>

type_synonym fl = "real option"

text \<open>The value of an IEEE 754 single precision number: sign, 8 bits of exponent, 23 bits of fraction.\<close>

definition f32_fraction :: "u32 \<Rightarrow> nat" where
  "f32_fraction w = unat (take_bit 23 w)"

definition f32_exponent :: "u32 \<Rightarrow> nat" where
  "f32_exponent w = unat (take_bit 8 (drop_bit 23 w))"

definition f32 :: "u32 \<Rightarrow> fl" where
  "f32 w =
     (if f32_exponent w = 255 then None
      else Some ((if bit w 31 then -1 else 1) *
        (if f32_exponent w = 0 then real (f32_fraction w) / 2 ^ 149
         else real (2 ^ 23 + f32_fraction w) * 2 ^ f32_exponent w / 2 ^ 150)))"

record fl_arith =
  fl_single :: "real \<Rightarrow> fl"
  fl_double :: "real \<Rightarrow> fl"

definition fl_div :: "(real \<Rightarrow> fl) \<Rightarrow> real \<Rightarrow> real \<Rightarrow> fl" where
  "fl_div rnd x y = (if y = 0 then None else rnd (x / y))"

text \<open>Conversion to an integer type cuts off the fraction; outside the type it is undefined.\<close>

definition fl_trunc :: "real \<Rightarrow> int" where
  "fl_trunc x = (if 0 \<le> x then \<lfloor>x\<rfloor> else \<lceil>x\<rceil>)"

definition fl_to_int :: "int \<Rightarrow> int \<Rightarrow> real \<Rightarrow> int option" where
  "fl_to_int lo hi x = (if lo \<le> fl_trunc x \<and> fl_trunc x \<le> hi then Some (fl_trunc x) else None)"

section \<open>Accuracy\<close>

text \<open>
  Rounding to a format with \<open>p\<close> bits of precision whose least positive number is \<open>2 ^ -m\<close> and
  whose greatest is above \<open>2 ^ e\<close>.
\<close>

definition fl_rounds :: "nat \<Rightarrow> nat \<Rightarrow> nat \<Rightarrow> (real \<Rightarrow> fl) \<Rightarrow> bool" where
  "fl_rounds p m e rnd \<longleftrightarrow> (\<forall>x. case rnd x of
       None \<Rightarrow> 2 ^ e < \<bar>x\<bar>
     | Some y \<Rightarrow> \<bar>y - x\<bar> \<le> \<bar>x\<bar> / 2 ^ p + 1 / 2 ^ m)"

definition ieee754 :: "'a fl_arith_scheme \<Rightarrow> bool" where
  "ieee754 fa \<longleftrightarrow> fl_rounds 24 149 127 (fl_single fa) \<and> fl_rounds 53 1074 1023 (fl_double fa)"

lemma exact_rounds: "fl_rounds p m e Some"
  by (simp add: fl_rounds_def)

text \<open>The error of one operation on numbers of moderate size, with a margin.\<close>

definition fl_near :: "real \<Rightarrow> real \<Rightarrow> bool" where
  "fl_near x y \<longleftrightarrow> \<bar>y - x\<bar> \<le> (\<bar>x\<bar> + 1) / 2 ^ 23"

lemma fl_rounds_near:
  assumes "fl_rounds p m e rnd" "24 \<le> p" "24 \<le> m" "\<bar>x\<bar> \<le> 2 ^ 127" "127 \<le> e"
  shows "\<exists>y. rnd x = Some y \<and> fl_near x y"
proof -
  have e: "(2::real) ^ 127 \<le> 2 ^ e" using assms(5) by (intro power_increasing) auto
  then obtain y where y: "rnd x = Some y" "\<bar>y - x\<bar> \<le> \<bar>x\<bar> / 2 ^ p + 1 / 2 ^ m"
    using assms(1,4) unfolding fl_rounds_def by (cases "rnd x") (force dest: spec [of _ x])+
  have "\<bar>x\<bar> / 2 ^ p \<le> \<bar>x\<bar> / 2 ^ 23"
    using power_increasing [of 23 p "2::real"] assms(2) by (intro divide_left_mono) auto
  moreover have "1 / 2 ^ m \<le> 1 / (2::real) ^ 23"
    using power_increasing [of 23 m "2::real"] assms(3) by (intro divide_left_mono) auto
  ultimately have "\<bar>y - x\<bar> \<le> \<bar>x\<bar> / 2 ^ 23 + 1 / 2 ^ 23" using y(2) by linarith
  then have "fl_near x y" unfolding fl_near_def add_divide_distrib .
  with y(1) show ?thesis by blast
qed

lemma single_near: "ieee754 fa \<Longrightarrow> \<bar>x\<bar> \<le> 2 ^ 127 \<Longrightarrow> \<exists>y. fl_single fa x = Some y \<and> fl_near x y"
  by (rule fl_rounds_near [of 24 149 127]) (simp_all add: ieee754_def)

lemma double_near: "ieee754 fa \<Longrightarrow> \<bar>x\<bar> \<le> 2 ^ 127 \<Longrightarrow> \<exists>y. fl_double fa x = Some y \<and> fl_near x y"
  by (rule fl_rounds_near [of 53 1074 1023]) (simp_all add: ieee754_def)

text \<open>A result known only to have an order of magnitude: the sign of a large operand survives.\<close>

lemma double_error:
  assumes "ieee754 fa" "fl_double fa x = Some y"
  shows "fl_near x y"
proof -
  have "\<bar>y - x\<bar> \<le> \<bar>x\<bar> / 2 ^ 53 + 1 / 2 ^ 1074"
    using assms unfolding ieee754_def fl_rounds_def by (auto dest!: spec [of _ x] split: option.splits)
  moreover have "\<bar>x\<bar> / 2 ^ 53 \<le> \<bar>x\<bar> / 2 ^ 23" by (intro divide_left_mono) auto
  moreover have "1 / 2 ^ 1074 \<le> 1 / (2::real) ^ 23" by (intro divide_left_mono power_increasing) auto
  ultimately have "\<bar>y - x\<bar> \<le> \<bar>x\<bar> / 2 ^ 23 + 1 / 2 ^ 23" by linarith
  then show ?thesis unfolding fl_near_def add_divide_distrib .
qed

lemma near_bounds:
  assumes "fl_near x y" "l \<le> x" "x \<le> u"
  shows "l - (\<bar>l\<bar> + 1) / 2 ^ 23 \<le> y" "y \<le> u + (\<bar>u\<bar> + 1) / 2 ^ 23"
proof -
  have a: "\<bar>y - x\<bar> \<le> (\<bar>x\<bar> + 1) / 8388608" using assms(1) by (simp add: fl_near_def)
  then have b: "x - (\<bar>x\<bar> + 1) / 8388608 \<le> y" "y \<le> x + (\<bar>x\<bar> + 1) / 8388608"
    unfolding abs_le_iff by linarith+
  have c: "(2::real) ^ 23 = 8388608" by simp
  show "l - (\<bar>l\<bar> + 1) / 2 ^ 23 \<le> y" unfolding c using b(1) assms(2) by (cases "0 \<le> x"; cases "0 \<le> l"; simp add: field_simps)
  show "y \<le> u + (\<bar>u\<bar> + 1) / 2 ^ 23" unfolding c using b(2) assms(3) by (cases "0 \<le> x"; cases "0 \<le> u"; simp add: field_simps)
qed

lemma fl_trunc_bounds: "x - 1 < real_of_int (fl_trunc x)" "real_of_int (fl_trunc x) < x + 1"
  unfolding fl_trunc_def by (cases "0 \<le> x"; simp; linarith)+

end
