(* ===== verification/Registration.thy ===== *)
theory Registration
  imports PixelUnpack CFloat "HOL-Library.Signed_Division"
begin

text \<open>
  Depth registration, \<open>libfreenect/registration.c\<close>: the tables, the projection of a depth
  frame into the colour camera (\<open>freenect_apply_registration\<close>), the metric frame
  (\<open>freenect_apply_depth_to_mm\<close>), and the inverse mapping of a colour frame
  (\<open>freenect_map_rgb_to_depth\<close>).

  A signed 32 or 64 bit C integer is a word read with \<open>sint\<close>; \<open>sdiv\<close> is C's truncating
  division.  A table pointer is \<open>None\<close> when NULL.  A result \<open>None\<close> is an access outside a
  table or buffer, or an arithmetic overflow C leaves undefined.  The two routines that
  compute table entries in floating point, \<open>freenect_raw_to_mm\<close> and
  \<open>freenect_init_depth_to_rgb\<close>, are modelled operation by operation over the arithmetic of
  theory CFloat; the processor's rounding, and what it makes of a conversion C leaves
  undefined, are arguments (\<open>fp_tables\<close>).
\<close>

section \<open>Data\<close>

record reg_info =
  ri_dx_center :: u32
  ri_ax :: u32
  ri_bx :: u32
  ri_cx :: u32
  ri_dx :: u32
  ri_dx_start :: u32
  ri_ay :: u32
  ri_by :: u32
  ri_cy :: u32
  ri_dy :: u32
  ri_dy_start :: u32
  ri_dx_beta_start :: u32
  ri_dy_beta_start :: u32
  ri_rollout_blank :: u32
  ri_rollout_size :: u32
  ri_dx_beta_inc :: u32
  ri_dy_beta_inc :: u32
  ri_dxdx_start :: u32
  ri_dxdy_start :: u32
  ri_dydx_start :: u32
  ri_dydy_start :: u32
  ri_dxdxdx_start :: u32
  ri_dydxdx_start :: u32
  ri_dxdxdy_start :: u32
  ri_dydxdy_start :: u32
  ri_back_comp1 :: u32
  ri_dydydx_start :: u32
  ri_back_comp2 :: u32
  ri_dydydy_start :: u32

definition rd32 :: "bytes \<Rightarrow> nat \<Rightarrow> u32" where
  "rd32 b i = le32 (b ! (4 * i)) (b ! (4 * i + 1)) (b ! (4 * i + 2)) (b ! (4 * i + 3))"

text \<open>The structure as it arrives in a reply: 29 little-endian words.\<close>

definition reg_info_size :: nat where "reg_info_size = 116"

definition read_reg_info :: "bytes \<Rightarrow> reg_info" where
  "read_reg_info b =
     \<lparr>ri_dx_center = rd32 b 0,
      ri_ax = rd32 b 1,
      ri_bx = rd32 b 2,
      ri_cx = rd32 b 3,
      ri_dx = rd32 b 4,
      ri_dx_start = rd32 b 5,
      ri_ay = rd32 b 6,
      ri_by = rd32 b 7,
      ri_cy = rd32 b 8,
      ri_dy = rd32 b 9,
      ri_dy_start = rd32 b 10,
      ri_dx_beta_start = rd32 b 11,
      ri_dy_beta_start = rd32 b 12,
      ri_rollout_blank = rd32 b 13,
      ri_rollout_size = rd32 b 14,
      ri_dx_beta_inc = rd32 b 15,
      ri_dy_beta_inc = rd32 b 16,
      ri_dxdx_start = rd32 b 17,
      ri_dxdy_start = rd32 b 18,
      ri_dydx_start = rd32 b 19,
      ri_dydy_start = rd32 b 20,
      ri_dxdxdx_start = rd32 b 21,
      ri_dydxdx_start = rd32 b 22,
      ri_dxdxdy_start = rd32 b 23,
      ri_dydxdy_start = rd32 b 24,
      ri_back_comp1 = rd32 b 25,
      ri_dydydx_start = rd32 b 26,
      ri_back_comp2 = rd32 b 27,
      ri_dydydy_start = rd32 b 28\<rparr>"

record reg_pad_info =
  rp_start_lines :: u16
  rp_end_lines :: u16
  rp_cropping_lines :: u16

text \<open>The four floats of the zero plane, as their bit patterns.\<close>

record zero_plane_info =
  zp_dcmos_emitter_dist :: u32
  zp_dcmos_rcmos_dist :: u32
  zp_reference_distance :: u32
  zp_reference_pixel_size :: u32

text \<open>\<open>const_shift\<close> is a double that only ever holds a 16 bit integer.\<close>

record registration =
  rg_info :: reg_info
  rg_pad :: reg_pad_info
  rg_zero_plane :: zero_plane_info
  rg_const_shift :: u16
  rg_raw_to_mm :: "u16 list option"
  rg_depth_to_rgb :: "u32 list option"
  rg_table :: "(u32 \<times> u32) list option"

definition DEPTH_X_RES :: nat where "DEPTH_X_RES = 640"
definition DEPTH_Y_RES :: nat where "DEPTH_Y_RES = 480"
definition DEPTH_MAX_METRIC_VALUE :: nat where "DEPTH_MAX_METRIC_VALUE = 10000"
definition DEPTH_MAX_RAW_VALUE :: nat where "DEPTH_MAX_RAW_VALUE = 2048"
definition DEPTH_NO_RAW_VALUE :: nat where "DEPTH_NO_RAW_VALUE = 2047"
definition REG_X_VAL_SCALE :: int where "REG_X_VAL_SCALE = 256"

definition depth_pixels :: nat where "depth_pixels = DEPTH_X_RES * DEPTH_Y_RES"

text \<open>An entry of a table behind a pointer.\<close>

definition table_at :: "'a list option \<Rightarrow> nat \<Rightarrow> 'a option" where
  "table_at t i = Option.bind t (get_at i)"

section \<open>Reading a packed frame pixel by pixel\<close>

text \<open>The loop state \<open>unpack\<close>, \<open>source_index\<close>, \<open>input_packed\<close>, and the next raw value.\<close>

fun next_raw :: "u16 list \<times> nat \<times> bytes \<Rightarrow> (u16 \<times> (u16 list \<times> nat \<times> bytes)) option" where
  "next_raw (unpack, source_index, input_packed) =
     (if source_index = 8
      then case unpack_8_pixels input_packed of None \<Rightarrow> None
           | Some px \<Rightarrow> Some (px ! 0, (px, 1, drop 11 input_packed))
      else Some (unpack ! source_index, (unpack, source_index + 1, input_packed)))"

text \<open>Run the body \<open>f index raw\<close> for \<open>n\<close> pixels from \<open>index\<close> on.\<close>

primrec pixel_loop ::
  "(nat \<Rightarrow> u16 \<Rightarrow> 'b \<Rightarrow> 'b option) \<Rightarrow> nat \<Rightarrow> nat \<Rightarrow> u16 list \<times> nat \<times> bytes \<Rightarrow> 'b \<Rightarrow> 'b option" where
  "pixel_loop f 0 index src out = Some out"
| "pixel_loop f (Suc n) index src out =
     (case next_raw src of None \<Rightarrow> None
      | Some (raw, src') \<Rightarrow>
          (case f index raw out of None \<Rightarrow> None
           | Some out' \<Rightarrow> pixel_loop f n (index + 1) src' out'))"

section \<open>Metric depth\<close>

definition mm_pixel :: "registration \<Rightarrow> nat \<Rightarrow> u16 \<Rightarrow> u16 list \<Rightarrow> u16 list option" where
  "mm_pixel reg index raw out =
     (case table_at (rg_raw_to_mm reg) (unat raw) of None \<Rightarrow> None
      | Some metric_depth \<Rightarrow>
          put_bytes index
            [if unat metric_depth < DEPTH_MAX_METRIC_VALUE then metric_depth
             else of_nat DEPTH_MAX_METRIC_VALUE] out)"

definition freenect_apply_depth_to_mm :: "registration \<Rightarrow> bytes \<Rightarrow> u16 list \<Rightarrow> u16 list option" where
  "freenect_apply_depth_to_mm reg input_packed output_mm =
     pixel_loop (mm_pixel reg) depth_pixels 0 (replicate 8 0, 8, input_packed) output_mm"

section \<open>Registration to the colour camera\<close>

definition int32_range :: "int \<Rightarrow> bool" where
  "int32_range i \<longleftrightarrow> - (2 ^ 31) \<le> i \<and> i < 2 ^ 31"

text \<open>The column of a pixel in the colour image, an unsigned 32 bit value.\<close>

definition reg_column :: "registration \<Rightarrow> nat \<Rightarrow> nat \<Rightarrow> u32 option" where
  "reg_column reg index depth =
     (case table_at (rg_table reg) index of None \<Rightarrow> None
      | Some e \<Rightarrow>
          (case table_at (rg_depth_to_rgb reg) depth of None \<Rightarrow> None
           | Some shift \<Rightarrow>
               (let s = sint (fst e) + sint shift
                in if int32_range s then Some (word_of_int (s sdiv REG_X_VAL_SCALE)) else None)))"

definition reg_row :: "registration \<Rightarrow> nat \<Rightarrow> u32 option" where
  "reg_row reg index = map_option snd (table_at (rg_table reg) index)"

text \<open>
  Where a depth pixel goes: \<open>Some None\<close> is one of the \<open>continue\<close>s, \<open>Some (Some (t, mm))\<close> the
  \<open>target_index\<close> and the depth.
\<close>

definition reg_target :: "registration \<Rightarrow> nat \<Rightarrow> u16 \<Rightarrow> (u32 \<times> u16) option option" where
  "reg_target reg index raw =
     (case table_at (rg_raw_to_mm reg) (unat raw) of None \<Rightarrow> None
      | Some mm \<Rightarrow>
          (if mm = 0 \<or> unat mm \<ge> DEPTH_MAX_METRIC_VALUE then Some None
           else
             (case reg_column reg index (unat mm) of None \<Rightarrow> None
              | Some nx \<Rightarrow>
                  (case reg_row reg index of None \<Rightarrow> None
                   | Some ny \<Rightarrow>
                       (if unat nx \<ge> DEPTH_X_RES then Some None
                        else
                          Some (Some (ny * of_nat DEPTH_X_RES + nx
                            - of_nat DEPTH_Y_RES * ucast (rp_start_lines (rg_pad reg)), mm)))))))"

definition reg_pixel :: "registration \<Rightarrow> nat \<Rightarrow> u16 \<Rightarrow> u16 list \<Rightarrow> u16 list option" where
  "reg_pixel reg index raw out =
     (case reg_target reg index raw of None \<Rightarrow> None
      | Some None \<Rightarrow> Some out
      | Some (Some (t, mm)) \<Rightarrow>
          (case get_at (unat t) out of None \<Rightarrow> None
           | Some current_depth \<Rightarrow>
               Some (if current_depth = 0 \<or> current_depth > mm then out[unat t := mm] else out)))"

definition freenect_apply_registration :: "registration \<Rightarrow> bytes \<Rightarrow> u16 list \<Rightarrow> u16 list option" where
  "freenect_apply_registration reg input_packed output_mm =
     (case put_bytes 0 (replicate depth_pixels 0) output_mm of None \<Rightarrow> None
      | Some out \<Rightarrow> pixel_loop (reg_pixel reg) depth_pixels 0 (replicate 8 0, 8, input_packed) out)"

section \<open>Colour pixels for a metric frame\<close>

text \<open>First pass: the colour pixel of each depth pixel (-1 for none) and the nearest depth.\<close>

definition rgb_map_pixel :: "registration \<Rightarrow> u16 list \<Rightarrow> nat \<Rightarrow> u32 list \<times> u16 list \<Rightarrow> (u32 list \<times> u16 list) option" where
  "rgb_map_pixel reg depth_mm index mz =
     (let map0 = fst mz @ [-1]; zBuffer = snd mz
      in case get_at index depth_mm of None \<Rightarrow> None
         | Some wz \<Rightarrow>
             (if wz = 0 then Some (map0, zBuffer)
              else
                (case reg_column reg index (unat wz) of None \<Rightarrow> None
                 | Some cx \<Rightarrow>
                     (case reg_row reg index of None \<Rightarrow> None
                      | Some ry \<Rightarrow>
                          (let cy = ry - ucast (rp_start_lines (rg_pad reg)) * of_nat DEPTH_Y_RES
                           in if unat cx \<ge> DEPTH_X_RES then Some (map0, zBuffer)
                              else
                                (let cindex = cy * of_nat DEPTH_X_RES + cx
                                 in case get_at (unat cindex) zBuffer of None \<Rightarrow> None
                                    | Some z \<Rightarrow>
                                        Some (fst mz @ [cindex],
                                          if z = 0 \<or> z > wz then zBuffer[unat cindex := wz] else zBuffer)))))))"

text \<open>Second pass: black, the colour pixel, or (an occluded pixel) nothing.\<close>

definition rgb_copy_pixel ::
  "u16 list \<Rightarrow> u32 list \<Rightarrow> u16 list \<Rightarrow> bytes \<Rightarrow> nat \<Rightarrow> bytes \<Rightarrow> bytes option" where
  "rgb_copy_pixel depth_mm cmap zBuffer rgb_raw index rgb_registered =
     (if cmap ! index = -1 then put_bytes (3 * index) [0, 0, 0] rgb_registered
      else
        (case get_at index depth_mm of None \<Rightarrow> None
         | Some currentDepth \<Rightarrow>
             (case get_at (unat (cmap ! index)) zBuffer of None \<Rightarrow> None
              | Some minDepth \<Rightarrow>
                  (if currentDepth \<le> minDepth
                   then (case get_bytes (unat (cmap ! index * 3)) 3 rgb_raw of None \<Rightarrow> None
                         | Some px \<Rightarrow> put_bytes (3 * index) px rgb_registered)
                   else Some rgb_registered))))"

definition freenect_map_rgb_to_depth ::
  "registration \<Rightarrow> u16 list \<Rightarrow> bytes \<Rightarrow> bytes \<Rightarrow> bytes option" where
  "freenect_map_rgb_to_depth reg depth_mm rgb_raw rgb_registered =
     (case for_loop (rgb_map_pixel reg depth_mm) depth_pixels 0 ([], replicate depth_pixels 0) of
        None \<Rightarrow> None
      | Some (cmap, zBuffer) \<Rightarrow>
          for_loop (rgb_copy_pixel depth_mm cmap zBuffer rgb_raw) depth_pixels 0 rgb_registered)"

section \<open>Construction of the tables\<close>

text \<open>The twelve 64 bit accumulators of \<open>freenect_create_dxdy_tables\<close>.\<close>

record dxdy =
  dX0 :: u64
  dY0 :: u64
  dXdX0 :: u64
  dXdY0 :: u64
  dYdX0 :: u64
  dYdY0 :: u64
  dXdXdX0 :: u64
  dYdXdX0 :: u64
  dYdXdY0 :: u64
  dXdXdY0 :: u64
  dYdYdX0 :: u64
  dYdYdY0 :: u64

definition sar :: "nat \<Rightarrow> u64 \<Rightarrow> u64" where "sar n w = signed_drop_bit n w"

text \<open>\<open>(v << a) >> b\<close> and \<open>(v << a) << b\<close> in 32 bits, then widened.\<close>

definition shl_sar32 :: "nat \<Rightarrow> nat \<Rightarrow> u32 \<Rightarrow> u64" where
  "shl_sar32 a b v = scast (signed_drop_bit b (push_bit a v))"

definition shl_shl32 :: "nat \<Rightarrow> nat \<Rightarrow> u32 \<Rightarrow> u64" where
  "shl_shl32 a b v = scast (push_bit b (push_bit a v))"

definition dxdy_start :: "reg_info \<Rightarrow> dxdy" where
  "dxdy_start r =
     \<lparr>dX0 = shl_sar32 13 4 (ri_dx_start r), dY0 = shl_sar32 13 4 (ri_dy_start r),
      dXdX0 = shl_sar32 11 3 (ri_dxdx_start r), dXdY0 = shl_sar32 11 3 (ri_dxdy_start r),
      dYdX0 = shl_sar32 11 3 (ri_dydx_start r), dYdY0 = shl_sar32 11 3 (ri_dydy_start r),
      dXdXdX0 = shl_shl32 5 3 (ri_dxdxdx_start r), dYdXdX0 = shl_shl32 5 3 (ri_dydxdx_start r),
      dYdXdY0 = shl_shl32 5 3 (ri_dydxdy_start r), dXdXdY0 = shl_shl32 5 3 (ri_dxdxdy_start r),
      dYdYdX0 = shl_shl32 5 3 (ri_dydydx_start r), dYdYdY0 = shl_shl32 5 3 (ri_dydydy_start r)\<rparr>"

definition dxdy_row :: "reg_info \<Rightarrow> dxdy \<Rightarrow> dxdy" where
  "dxdy_row r t =
     \<lparr>dX0 = dX0 t + sar 6 (dYdX0 t), dY0 = dY0 t + sar 6 (dYdY0 t),
      dXdX0 = dXdX0 t + sar 8 (dYdXdX0 t), dXdY0 = dXdY0 t + sar 8 (dYdXdY0 t),
      dYdX0 = dYdX0 t + sar 8 (dYdYdX0 t), dYdY0 = dYdY0 t + sar 8 (dYdYdY0 t),
      dXdXdX0 = dXdXdX0 t + scast (ri_cx r), dYdXdX0 = dYdXdX0 t + scast (ri_dx r),
      dYdXdY0 = dYdXdY0 t + scast (ri_dy r), dXdXdY0 = dXdXdY0 t + scast (ri_cy r),
      dYdYdX0 = dYdYdX0 t + scast (ri_bx r), dYdYdY0 = dYdYdY0 t + scast (ri_by r)\<rparr>"

text \<open>The inner loop's accumulators: value, first and second difference, for x and y.\<close>

type_synonym dxdy_col = "(u64 \<times> u64 \<times> u64) \<times> (u64 \<times> u64 \<times> u64)"

definition dxdy_col_start :: "dxdy \<Rightarrow> dxdy_col" where
  "dxdy_col_start t = ((dX0 t, dXdX0 t, dXdXdX0 t), (dY0 t, dXdY0 t, dXdXdY0 t))"

fun dxdy_col_step :: "reg_info \<Rightarrow> dxdy_col \<Rightarrow> dxdy_col" where
  "dxdy_col_step r ((x, dx, ddx), (y, dy, ddy)) =
     ((x + sar 6 dx, dx + sar 8 ddx, ddx + scast (ri_ax r)),
      (y + sar 6 dy, dy + sar 8 ddy, ddy + scast (ri_ay r)))"

primrec dxdy_cols :: "reg_info \<Rightarrow> nat \<Rightarrow> dxdy_col \<Rightarrow> (u64 \<times> u64) list" where
  "dxdy_cols r 0 c = []"
| "dxdy_cols r (Suc n) c = (fst (fst c), fst (snd c)) # dxdy_cols r n (dxdy_col_step r c)"

primrec dxdy_rows :: "reg_info \<Rightarrow> nat \<Rightarrow> nat \<Rightarrow> dxdy \<Rightarrow> (u64 \<times> u64) list" where
  "dxdy_rows r w 0 t = []"
| "dxdy_rows r w (Suc n) t =
     (let t' = dxdy_row r t in dxdy_cols r w (dxdy_col_start t') @ dxdy_rows r w n t')"

text \<open>
  The two tables, each double as the integer it is a multiple \<open>2 ^ -17\<close> of.
\<close>

definition freenect_create_dxdy_tables :: "nat \<Rightarrow> nat \<Rightarrow> reg_info \<Rightarrow> (u64 \<times> u64) list" where
  "freenect_create_dxdy_tables resolution_x resolution_y r =
     dxdy_rows r resolution_x resolution_y (dxdy_start r)"

text \<open>
  One entry of the registration table.  \<open>new_x\<close> and \<open>new_y\<close> are doubles; inside the image
  they are exact multiples of \<open>2 ^ -17\<close>, and rounding cannot move a value across the image's
  bounds, which are doubles themselves.  The conversion of a \<open>new_y\<close> outside the range of an
  \<open>int32_t\<close> is undefined.
\<close>

definition reg_table_entry :: "nat \<Rightarrow> nat \<Rightarrow> u64 \<times> u64 \<Rightarrow> (u32 \<times> u32) option" where
  "reg_table_entry x y d =
     (let new_x = (int x + 1) * 2 ^ 17 + sint (fst d);
          new_y = (int y + 1) * 2 ^ 17 + sint (snd d);
          outside = new_x < 0 \<or> new_y < 0 \<or> new_x \<ge> int DEPTH_X_RES * 2 ^ 17 \<or> new_y \<ge> int DEPTH_Y_RES * 2 ^ 17;
          e0 = (if outside then 2 * int DEPTH_X_RES * REG_X_VAL_SCALE else new_x sdiv 2 ^ 9);
          e1 = new_y sdiv 2 ^ 17
      in if int32_range e1 then Some (word_of_int e0, word_of_int e1) else None)"

definition freenect_init_registration_table :: "reg_info \<Rightarrow> (u32 \<times> u32) list option" where
  "freenect_init_registration_table r =
     those (map (\<lambda>(i, d). reg_table_entry (i mod DEPTH_X_RES) (i div DEPTH_X_RES) d)
              (enumerate 0 (freenect_create_dxdy_tables DEPTH_X_RES DEPTH_Y_RES r)))"

text \<open>
  The processor: its rounding functions, and the entries it stores where the computed value is
  not a finite number in the range of the integer type.  C leaves that conversion undefined;
  the entry may depend on everything the computation depends on.
\<close>

record fp_tables = fl_arith +
  fp_mm_undef :: "zero_plane_info \<Rightarrow> u16 \<Rightarrow> u16 \<Rightarrow> u16"
  fp_shift_undef :: "zero_plane_info \<Rightarrow> nat \<Rightarrow> u32"

text \<open>
  \<open>freenect_raw_to_mm\<close>: the operations in the order of the C expressions, with
  \<open>parameter_coefficient\<close> 4, \<open>pixel_size_factor\<close> 1, \<open>shift_scale\<close> 10.
\<close>

definition raw_to_mm_value :: "fp_tables \<Rightarrow> zero_plane_info \<Rightarrow> u16 \<Rightarrow> u16 \<Rightarrow> fl" where
  "raw_to_mm_value fp zpi const_shift raw =
     do {
       p \<leftarrow> f32 (zp_reference_pixel_size zpi);
       d \<leftarrow> f32 (zp_reference_distance zpi);
       e \<leftarrow> f32 (zp_dcmos_emitter_dist zpi);
       c1 \<leftarrow> fl_double fp (4 * real (unat const_shift));
       c2 \<leftarrow> fl_div (fl_double fp) c1 1;
       c3 \<leftarrow> fl_double fp (real (unat raw) - c2);
       c4 \<leftarrow> fl_div (fl_double fp) c3 4;
       fixed_ref_x \<leftarrow> fl_double fp (c4 - 0.375);
       m1 \<leftarrow> fl_double fp (fixed_ref_x * p);
       metric \<leftarrow> fl_double fp (m1 * 1);
       n \<leftarrow> fl_double fp (metric * d);
       den \<leftarrow> fl_double fp (e - metric);
       q \<leftarrow> fl_div (fl_double fp) n den;
       z \<leftarrow> fl_double fp (q + d);
       fl_double fp (10 * z)
     }"

definition freenect_raw_to_mm :: "fp_tables \<Rightarrow> u16 \<Rightarrow> registration \<Rightarrow> u16" where
  "freenect_raw_to_mm fp raw reg =
     (case Option.bind (raw_to_mm_value fp (rg_zero_plane reg) (rg_const_shift reg) raw) (fl_to_int 0 65535) of
        Some k \<Rightarrow> word_of_int k
      | None \<Rightarrow> fp_mm_undef fp (rg_zero_plane reg) (rg_const_shift reg) raw)"

text \<open>
  \<open>freenect_init_depth_to_rgb\<close>.  The pixel size at sensor resolution is multiplied as a
  \<open>float\<close>, everything else in \<open>double\<close>.
\<close>

definition depth_to_rgb_scale :: "fp_tables \<Rightarrow> zero_plane_info \<Rightarrow> (real \<times> real \<times> real) option" where
  "depth_to_rgb_scale fp zpi =
     do {
       p \<leftarrow> f32 (zp_reference_pixel_size zpi);
       d \<leftarrow> f32 (zp_reference_distance zpi);
       r \<leftarrow> f32 (zp_dcmos_rcmos_dist zpi);
       s1 \<leftarrow> fl_single fp (p * 2);
       s2 \<leftarrow> fl_single fp (s1 * 10);
       pixel_size \<leftarrow> fl_div (fl_double fp) 1 s2;
       r1 \<leftarrow> fl_double fp (r * pixel_size);
       pixels_between_rgb_and_ir_cmos \<leftarrow> fl_double fp (r1 * 10);
       d1 \<leftarrow> fl_double fp (d * pixel_size);
       reference_distance_in_pixels \<leftarrow> fl_double fp (d1 * 10);
       Some (pixel_size, pixels_between_rgb_and_ir_cmos, reference_distance_in_pixels)
     }"

definition depth_to_rgb_value :: "fp_tables \<Rightarrow> zero_plane_info \<Rightarrow> nat \<Rightarrow> fl" where
  "depth_to_rgb_value fp zpi i =
     do {
       (pixel_size, cmos, reference) \<leftarrow> depth_to_rgb_scale fp zpi;
       current \<leftarrow> fl_double fp (real i * pixel_size);
       v1 \<leftarrow> fl_double fp (current - reference);
       v2 \<leftarrow> fl_double fp (cmos * v1);
       v3 \<leftarrow> fl_div (fl_double fp) v2 current;
       v4 \<leftarrow> fl_double fp (v3 + 0.375);
       fl_double fp (v4 * 256)
     }"

definition depth_to_rgb_entry :: "fp_tables \<Rightarrow> zero_plane_info \<Rightarrow> nat \<Rightarrow> u32" where
  "depth_to_rgb_entry fp zpi i =
     (case Option.bind (depth_to_rgb_value fp zpi i) (fl_to_int (- (2 ^ 31)) (2 ^ 31 - 1)) of
        Some k \<Rightarrow> word_of_int k
      | None \<Rightarrow> fp_shift_undef fp zpi i)"

definition freenect_init_depth_to_rgb :: "fp_tables \<Rightarrow> zero_plane_info \<Rightarrow> u32 list" where
  "freenect_init_depth_to_rgb fp zpi = map (depth_to_rgb_entry fp zpi) [0..<DEPTH_MAX_METRIC_VALUE]"

definition complete_tables :: "fp_tables \<Rightarrow> registration \<Rightarrow> registration option" where
  "complete_tables fp reg =
     (case freenect_init_registration_table (rg_info reg) of None \<Rightarrow> None
      | Some t \<Rightarrow> Some (reg
          \<lparr>rg_raw_to_mm := Some ((map (\<lambda>i. freenect_raw_to_mm fp (of_nat i) reg) [0..<DEPTH_MAX_RAW_VALUE])
               [DEPTH_NO_RAW_VALUE := 0]),
           rg_depth_to_rgb := Some (freenect_init_depth_to_rgb fp (rg_zero_plane reg)),
           rg_table := Some t\<rparr>))"

definition freenect_destroy_registration :: "registration \<Rightarrow> registration" where
  "freenect_destroy_registration reg =
     reg\<lparr>rg_raw_to_mm := None, rg_depth_to_rgb := None, rg_table := None\<rparr>"

definition freenect_init_registration :: "fp_tables \<Rightarrow> registration \<Rightarrow> registration option" where
  "freenect_init_registration fp reg = complete_tables fp (freenect_destroy_registration reg)"

definition freenect_copy_registration :: "fp_tables \<Rightarrow> registration \<Rightarrow> registration option" where
  "freenect_copy_registration fp reg =
     complete_tables fp
       \<lparr>rg_info = rg_info reg, rg_pad = rg_pad reg, rg_zero_plane = rg_zero_plane reg,
        rg_const_shift = rg_const_shift reg, rg_raw_to_mm = None, rg_depth_to_rgb = None,
        rg_table = None\<rparr>"

section \<open>Pixel loops are loops over the unpacked frame\<close>

fun loop_list :: "(nat \<Rightarrow> 'a \<Rightarrow> 'b \<Rightarrow> 'b option) \<Rightarrow> 'a list \<Rightarrow> nat \<Rightarrow> 'b \<Rightarrow> 'b option" where
  "loop_list f [] i s = Some s"
| "loop_list f (x # xs) i s = (case f i x s of None \<Rightarrow> None | Some s' \<Rightarrow> loop_list f xs (i + 1) s')"

lemma loop_list_append:
  "loop_list f (xs @ ys) i s = Option.bind (loop_list f xs i s) (loop_list f ys (i + length xs))"
  by (induction xs arbitrary: i s) (auto split: option.splits)

text \<open>A loop whose body always succeeds under an invariant.\<close>

lemma loop_list_inv:
  assumes step: "\<And>j s. j < length xs \<Longrightarrow> P j s \<Longrightarrow> \<exists>s'. f (i + j) (xs ! j) s = Some s' \<and> P (Suc j) s'"
    and "P 0 s"
  shows "\<exists>s'. loop_list f xs i s = Some s' \<and> P (length xs) s'"
proof -
  have "\<exists>s'. loop_list f (take n xs) i s = Some s' \<and> P n s'" if "n \<le> length xs" for n
    using that
  proof (induction n)
    case 0
    then show ?case using assms(2) by simp
  next
    case (Suc n)
    then obtain s1 where s1: "loop_list f (take n xs) i s = Some s1" "P n s1" by auto
    obtain s2 where "f (i + n) (xs ! n) s1 = Some s2" "P (Suc n) s2"
      using step [OF _ s1(2)] Suc.prems by auto
    then show ?case
      using s1(1) Suc.prems by (simp add: take_Suc_conv_app_nth loop_list_append min_absorb2)
  qed
  from this [of "length xs"] show ?thesis by simp
qed

text \<open>The converse: what a loop that returned has kept.\<close>

lemma loop_list_keeps:
  assumes step: "\<And>j s s'. j < length xs \<Longrightarrow> P j s \<Longrightarrow> f (i + j) (xs ! j) s = Some s' \<Longrightarrow> P (Suc j) s'"
    and "P 0 s" "loop_list f xs i s = Some s'"
  shows "P (length xs) s'"
proof -
  have "P n s'" if "n \<le> length xs" "loop_list f (take n xs) i s = Some s'" for n s'
    using that
  proof (induction n arbitrary: s')
    case 0
    then show ?case using assms(2) by simp
  next
    case (Suc n)
    then have "Option.bind (loop_list f (take n xs) i s) (loop_list f [xs ! n] (i + n)) = Some s'"
      by (simp add: take_Suc_conv_app_nth loop_list_append min_absorb2)
    then obtain s1 where "loop_list f (take n xs) i s = Some s1" "f (i + n) (xs ! n) s1 = Some s'"
      by (auto simp: bind_Some_iff split: option.splits)
    with Suc step show ?case by auto
  qed
  from this [of "length xs" s'] assms(3) show ?thesis by simp
qed

lemma pixel_loop_buffered:
  "si \<le> 8 \<Longrightarrow> length unpack = 8 \<Longrightarrow>
     pixel_loop f (8 - si + m) i (unpack, si, inp) s
       = Option.bind (loop_list f (drop si unpack) i s) (pixel_loop f m (i + (8 - si)) (unpack, 8, inp))"
proof (induction "8 - si" arbitrary: si i s)
  case 0
  then show ?case by simp
next
  case (Suc k)
  then have lt: "si < 8" and k: "k = 8 - Suc si" by auto
  have d: "drop si unpack = unpack ! si # drop (Suc si) unpack"
    using lt Suc.prems(2) by (simp add: Cons_nth_drop_Suc)
  have e: "8 - si + m = Suc (8 - Suc si + m)" "i + (8 - si) = i + 1 + (8 - Suc si)"
    using lt by simp_all
  show ?case
    using Suc.hyps(1) [OF k, of "i + 1"] Suc.prems lt unfolding d e
    by (auto split: option.splits)
qed

lemma pixel_loop_block:
  assumes "unpack_8_pixels inp = Some px"
  shows "pixel_loop f (8 + m) i (unpack, 8, inp) s
    = Option.bind (loop_list f px i s) (pixel_loop f m (i + 8) (px, 8, drop 11 inp))"
proof -
  have px: "length px = 8"
    using assms by (auto simp: unpack_8_pixels_def Let_def split: if_splits)
  then obtain x xs where x: "px = x # xs" by (cases px) auto
  obtain k where k: "8 + m = Suc k" "8 - 1 + m = k" by simp
  note b = pixel_loop_buffered [of 1 px f m "i + 1" "drop 11 inp", unfolded k(2)]
  show ?thesis
    unfolding k(1) using b px assms by (auto simp: x add.commute split: option.splits)
qed

lemma pixel_loop_unpacked:
  "convert_packed11_to_16bit inp n = Some px \<Longrightarrow> n mod 8 = 0 \<Longrightarrow>
     pixel_loop f n i (unpack, 8, inp) s = loop_list f px i s"
proof (induction inp n arbitrary: px i unpack s rule: convert_packed11_to_16bit.induct)
  case (1 inp n)
  show ?case
  proof (cases "8 \<le> n")
    case False
    then have "n = 0" using "1.prems"(2) by (cases "n < 8") auto
    then show ?thesis using "1.prems"(1) by (simp add: convert_packed11_to_16bit.simps)
  next
    case True
    then obtain px1 px2 where p: "unpack_8_pixels inp = Some px1"
      "convert_packed11_to_16bit (drop 11 inp) (n - 8) = Some px2" "px = px1 @ px2"
      using "1.prems"(1) by (subst (asm) convert_packed11_to_16bit.simps) (auto split: option.splits)
    have len: "length px1 = 8"
      using p(1) by (auto simp: unpack_8_pixels_def Let_def split: if_splits)
    have m: "(n - 8) mod 8 = 0" using "1.prems"(2) True by (metis le_mod_geq)
    have "pixel_loop f (8 + (n - 8)) i (unpack, 8, inp) s
        = Option.bind (loop_list f px1 i s) (pixel_loop f (n - 8) (i + 8) (px1, 8, drop 11 inp))"
      by (rule pixel_loop_block [OF p(1)])
    moreover have "pixel_loop f (n - 8) (i + 8) (px1, 8, drop 11 inp) = loop_list f px2 (i + 8)"
      by (rule ext) (rule "1.IH" [OF True p(1) p(2) m])
    ultimately show ?thesis using True len by (simp add: p(3) loop_list_append)
  qed
qed

end
