(* ===== verification/Calibration.thy ===== *)
theory Calibration
  imports Registration
begin

text \<open>
  The two floating point tables of \<open>registration.c\<close> for a camera whose zero plane is that of a
  Kinect, up to generous tolerances: whatever the processor's rounding, a raw value becomes 0 or
  at least 130 mm, and the shift of a depth of at least 130 mm is less than two image widths.
\<close>

section \<open>Intervals\<close>

lemma double_in:
  assumes "ieee754 fa" "l \<le> x" "x \<le> u" "- (2 ^ 100) \<le> l" "u \<le> 2 ^ 100"
    "l' \<le> l - (\<bar>l\<bar> + 1) / 2 ^ 23" "u + (\<bar>u\<bar> + 1) / 2 ^ 23 \<le> u'"
  shows "\<exists>y. fl_double fa x = Some y \<and> l' \<le> y \<and> y \<le> u'"
proof -
  have "\<bar>x\<bar> \<le> 2 ^ 127" using assms(2-5) by simp
  then obtain y where y: "fl_double fa x = Some y" "fl_near x y" using double_near [OF assms(1)] by blast
  show ?thesis using y(1) near_bounds [OF y(2) assms(2,3)] assms(6,7) by (intro exI [of _ y]) linarith
qed

lemma single_in:
  assumes "ieee754 fa" "l \<le> x" "x \<le> u" "- (2 ^ 100) \<le> l" "u \<le> 2 ^ 100"
    "l' \<le> l - (\<bar>l\<bar> + 1) / 2 ^ 23" "u + (\<bar>u\<bar> + 1) / 2 ^ 23 \<le> u'"
  shows "\<exists>y. fl_single fa x = Some y \<and> l' \<le> y \<and> y \<le> u'"
proof -
  have "\<bar>x\<bar> \<le> 2 ^ 127" using assms(2-5) by simp
  then obtain y where y: "fl_single fa x = Some y" "fl_near x y" using single_near [OF assms(1)] by blast
  show ?thesis using y(1) near_bounds [OF y(2) assms(2,3)] assms(6,7) by (intro exI [of _ y]) linarith
qed

lemma times_in:
  fixes x y :: real
  assumes "a \<le> x" "x \<le> b" "c \<le> y" "y \<le> d" "0 \<le> a" "0 \<le> c"
  shows "a * c \<le> x * y" "x * y \<le> b * d"
  using assms by (auto intro: mult_mono)

lemma div_in:
  fixes x y :: real
  assumes "a \<le> x" "x \<le> b" "c \<le> y" "y \<le> d" "0 \<le> a" "0 < c"
  shows "a / d \<le> x / y" "x / y \<le> b / c"
  using assms by (auto intro!: frac_le)

section \<open>A Kinect\<close>

definition f32_in :: "real \<Rightarrow> real \<Rightarrow> u32 \<Rightarrow> bool" where
  "f32_in lo hi w \<longleftrightarrow> (case f32 w of None \<Rightarrow> False | Some x \<Rightarrow> lo \<le> x \<and> x \<le> hi)"

text \<open>
  A Kinect reports an emitter 7.5 cm and a colour camera about 2.4 cm from the infrared camera,
  120 mm of focal length, pixels of 0.1042 mm, and a constant shift of 200.
\<close>

definition kinect_zero_plane :: "zero_plane_info \<Rightarrow> bool" where
  "kinect_zero_plane z \<longleftrightarrow> f32_in 6 9 (zp_dcmos_emitter_dist z) \<and> f32_in 1 4 (zp_dcmos_rcmos_dist z)
     \<and> f32_in 100 140 (zp_reference_distance z) \<and> f32_in 0.08 0.125 (zp_reference_pixel_size z)"

definition kinect_calibration :: "registration \<Rightarrow> bool" where
  "kinect_calibration reg \<longleftrightarrow> kinect_zero_plane (rg_zero_plane reg) \<and> unat (rg_const_shift reg) \<le> 300"

text \<open>What the processor makes of an undefined conversion is no depth between 1 and 129 mm.\<close>

definition no_tiny_depths :: "fp_tables \<Rightarrow> registration \<Rightarrow> bool" where
  "no_tiny_depths fp reg \<longleftrightarrow>
     (\<forall>i < 2048. let mm = fp_mm_undef fp (rg_zero_plane reg) (rg_const_shift reg) (of_nat i)
                 in mm = 0 \<or> 130 \<le> unat mm)"

section \<open>Shifts\<close>

lemma depth_to_rgb_scale_in:
  assumes fp: "ieee754 fp" and z: "kinect_zero_plane z"
  shows "\<exists>ps A B. depth_to_rgb_scale fp z = Some (ps, A, B) \<and> 0.3999 \<le> ps \<and> ps \<le> 0.6252
    \<and> 3.9 \<le> A \<and> A \<le> 25.1 \<and> 398 \<le> B \<and> B \<le> 877"
proof -
  obtain p d r where p: "f32 (zp_reference_pixel_size z) = Some p" "0.08 \<le> p" "p \<le> 0.125"
    and d: "f32 (zp_reference_distance z) = Some d" "100 \<le> d" "d \<le> 140"
    and r: "f32 (zp_dcmos_rcmos_dist z) = Some r" "1 \<le> r" "r \<le> 4"
    using z by (auto simp: kinect_zero_plane_def f32_in_def split: option.splits)
  obtain s1 where s1: "fl_single fp (p * 2) = Some s1" "0.15999 \<le> s1" "s1 \<le> 0.25001"
    using single_in [OF fp, of "0.16" "p * 2" "0.25" "0.15999" "0.25001"] p by auto
  obtain s2 where s2: "fl_single fp (s1 * 10) = Some s2" "1.5998 \<le> s2" "s2 \<le> 2.5002"
    using single_in [OF fp, of "1.5999" "s1 * 10" "2.5001" "1.5998" "2.5002"] s1 by auto
  have "0.39996 \<le> 1 / s2" "1 / s2 \<le> 0.62508"
    using div_in [of 1 1 1 "1.5998" s2 "2.5002"] s2 by auto
  then obtain ps where ps: "fl_double fp (1 / s2) = Some ps" "0.3999 \<le> ps" "ps \<le> 0.6252"
    using double_in [OF fp, of "0.39996" "1 / s2" "0.62508" "0.3999" "0.6252"] by auto
  have "0.3999 \<le> r * ps" "r * ps \<le> 2.5008"
    using times_in [of 1 r 4 "0.3999" ps "0.6252"] r ps by auto
  then obtain r1 where r1: "fl_double fp (r * ps) = Some r1" "0.399 \<le> r1" "r1 \<le> 2.502"
    using double_in [OF fp, of "0.3999" "r * ps" "2.5008" "0.399" "2.502"] by auto
  obtain A where A: "fl_double fp (r1 * 10) = Some A" "3.9 \<le> A" "A \<le> 25.1"
    using double_in [OF fp, of "3.99" "r1 * 10" "25.02" "3.9" "25.1"] r1 by auto
  have "39.99 \<le> d * ps" "d * ps \<le> 87.528"
    using times_in [of 100 d 140 "0.3999" ps "0.6252"] d ps by auto
  then obtain d1 where d1: "fl_double fp (d * ps) = Some d1" "39.9 \<le> d1" "d1 \<le> 87.6"
    using double_in [OF fp, of "39.99" "d * ps" "87.528" "39.9" "87.6"] by auto
  obtain B where B: "fl_double fp (d1 * 10) = Some B" "398 \<le> B" "B \<le> 877"
    using double_in [OF fp, of "399" "d1 * 10" "876" "398" "877"] d1 by auto
  have "s2 \<noteq> 0" using s2 by auto
  then show ?thesis
    using ps A B by (simp add: depth_to_rgb_scale_def p(1) d(1) r(1) s1(1) s2(1) fl_div_def r1(1) d1(1))
qed

lemma depth_to_rgb_value_in:
  assumes fp: "ieee754 fp" and z: "kinect_zero_plane z" and i: "130 \<le> i" "i < 10000"
  shows "\<exists>v. depth_to_rgb_value fp z i = Some v \<and> -102700 \<le> v \<and> v \<le> 725700"
proof -
  obtain ps A B where s: "depth_to_rgb_scale fp z = Some (ps, A, B)"
    and ps: "0.3999 \<le> ps" "ps \<le> 0.6252" and A: "3.9 \<le> A" "A \<le> 25.1" and B: "398 \<le> B" "B \<le> 877"
    using depth_to_rgb_scale_in [OF fp z] by blast
  have "51.987 \<le> real i * ps" "real i * ps \<le> 6252"
    using times_in [of 130 "real i" 10000 "0.3999" ps "0.6252"] i ps by auto
  then obtain c where c: "fl_double fp (real i * ps) = Some c" "51.9 \<le> c" "c \<le> 6253"
    using double_in [OF fp, of "51.987" "real i * ps" "6252" "51.9" "6253"] by auto
  obtain v1 where v1: "fl_double fp (c - B) = Some v1" "-826 \<le> v1" "v1 \<le> 5856"
    using double_in [OF fp, of "-825.1" "c - B" "5855" "-826" "5856"] c B by auto
  have "- 20733 \<le> A * v1 \<and> A * v1 \<le> 146986"
  proof (cases "0 \<le> v1")
    case True
    then have "0 \<le> A * v1" "A * v1 \<le> 25.1 * 5856"
      using A v1 by (simp, intro mult_mono) auto
    then show ?thesis by simp
  next
    case False
    then show ?thesis using times_in [of "3.9" A "25.1" 0 "- v1" "826"] A v1 by simp
  qed
  then obtain v2 where v2: "fl_double fp (A * v1) = Some v2" "-20800 \<le> v2" "v2 \<le> 147000"
    using double_in [OF fp, of "-20733" "A * v1" "146986" "-20800" "147000"] by auto
  have "- 401 \<le> v2 / c \<and> v2 / c \<le> 2833"
    using c(2) v2 by (simp add: field_simps)
  then obtain v3 where v3: "fl_double fp (v2 / c) = Some v3" "-401.1 \<le> v3" "v3 \<le> 2834"
    using double_in [OF fp, of "-401" "v2 / c" "2833" "-401.1" "2834"] by auto
  obtain v4 where v4: "fl_double fp (v3 + 0.375) = Some v4" "-401 \<le> v4" "v4 \<le> 2834.5"
    using double_in [OF fp, of "-400.725" "v3 + 0.375" "2834.4" "-401" "2834.5"] v3 by auto
  obtain v where v: "fl_double fp (v4 * 256) = Some v" "-102700 \<le> v" "v \<le> 725700"
    using double_in [OF fp, of "-102656" "v4 * 256" "725632" "-102700" "725700"] v4 by auto
  have "c \<noteq> 0" using c by auto
  then show ?thesis
    using v by (simp add: depth_to_rgb_value_def s c(1) v1(1) v2(1) v3(1) v4(1) [simplified] fl_div_def)
qed

text \<open>A shift that neither overflows nor moves the marker back into the image.\<close>

definition shift_ok :: "u32 \<Rightarrow> bool" where
  "shift_ok s \<longleftrightarrow> - (640 * 256) \<le> sint s \<and> sint s < 2 ^ 30"

lemma depth_to_rgb_shift_ok:
  assumes "ieee754 fp" "kinect_zero_plane z" "130 \<le> i" "i < 10000"
  shows "shift_ok (freenect_init_depth_to_rgb fp z ! i)"
proof -
  obtain v where v: "depth_to_rgb_value fp z i = Some v" "-102700 \<le> v" "v \<le> 725700"
    using depth_to_rgb_value_in [OF assms] by blast
  define k where "k = fl_trunc v"
  have k: "-102701 \<le> k" "k \<le> 725701" using v(2,3) fl_trunc_bounds [of v] by (simp_all add: k_def)
  then have "depth_to_rgb_entry fp z i = word_of_int k"
    by (simp add: depth_to_rgb_entry_def v(1) fl_to_int_def k_def [symmetric])
  moreover have "sint (word_of_int k :: u32) = k"
    using k by (simp add: int_word_sint mod_pos_pos_trivial)
  ultimately show ?thesis
    using k assms(4) by (simp add: freenect_init_depth_to_rgb_def DEPTH_MAX_METRIC_VALUE_def shift_ok_def)
qed

section \<open>Depths\<close>

lemma double_ge:
  assumes "ieee754 fa" "fl_double fa x = Some y" "l \<le> x" "l' \<le> l - (\<bar>l\<bar> + 1) / 2 ^ 23"
  shows "l' \<le> y"
  using near_bounds(1) [OF double_error [OF assms(1,2)] assms(3) order_refl] assms(4) by linarith

lemma double_le:
  assumes "ieee754 fa" "fl_double fa x = Some y" "x \<le> u" "u + (\<bar>u\<bar> + 1) / 2 ^ 23 \<le> u'"
  shows "y \<le> u'"
  using near_bounds(2) [OF double_error [OF assms(1,2)] order_refl assms(3)] assms(4) by linarith

text \<open>The last four operations: the distance, and its singularity at \<open>metric = e\<close>.\<close>

lemma distance_behind_plane:
  assumes fp: "ieee754 fp" and M: "-38 \<le> M" "M \<le> 0" and e: "6 \<le> e" "e \<le> 9" and d: "100 \<le> d" "d \<le> 140"
    and n: "fl_double fp (M * d) = Some n" and den: "fl_double fp (e - M) = Some den"
    and q: "fl_double fp (n / den) = Some q"
  shows "(132/10) - d \<le> q"
proof -
  have "- (38 * 140) \<le> M * d" using M d mult_mono [of "- M" 38 d 140] by simp
  moreover have "M * d \<le> 0" using M d by (simp add: mult_le_0_iff)
  moreover have "M * d - (\<bar>M * d\<bar> + 1) / 2 ^ 23 \<le> n"
    using near_bounds(1) [OF double_error [OF fp n] order_refl order_refl] .
  ultimately have n1: "M * d - (1/1000) \<le> n" by (simp add: field_simps)
  have a: "e - M - (\<bar>e - M\<bar> + 1) / 2 ^ 23 \<le> den" "den \<le> e - M + (\<bar>e - M\<bar> + 1) / 2 ^ 23"
    using near_bounds [OF double_error [OF fp den] order_refl order_refl] by blast+
  then have den1: "e - M - (1/1000) \<le> den" "den \<le> e - M + (1/1000)"
    using M e by (simp_all add: field_simps)
  have "d * (e - M - (1/1000)) \<le> d * den" using den1 d by (intro mult_left_mono) auto
  then have "d * e - M * d - (14/100) \<le> d * den" using d by (simp add: algebra_simps)
  moreover have "100 * e \<le> d * e" using d e by simp
  ultimately have "(133/10) * den \<le> n + d * den" using n1 den1 M e by linarith
  moreover have "0 < den" using den1 M e by simp
  ultimately have "(133/10) - d \<le> n / den" by (simp add: field_simps)
  moreover have "(132/10) - d \<le> ((133/10) - d) - (\<bar>(133/10) - d\<bar> + 1) / 2 ^ 23" using d by (simp add: field_simps)
  ultimately show ?thesis by (rule double_ge [OF fp q])
qed

lemma distance_before_pole:
  assumes fp: "ieee754 fp" and M: "0 \<le> M" "M \<le> 64" and e: "6 \<le> e" "e \<le> 9" and d: "100 \<le> d" "d \<le> 140"
    and n: "fl_double fp (M * d) = Some n" and den: "fl_double fp (e - M) = Some den" "0 < den"
    and q: "fl_double fp (n / den) = Some q"
  shows "-(1/10) \<le> q"
proof -
  have "M * d - (\<bar>M * d\<bar> + 1) / 2 ^ 23 \<le> n"
    using near_bounds(1) [OF double_error [OF fp n] order_refl order_refl] .
  moreover have Md: "0 \<le> M * d" "M * 100 \<le> M * d" using M d by (auto intro: mult_left_mono)
  ultimately have n1: "-(1/1000) \<le> n" "(9/10) * (M * d) - (1/1000) \<le> n" by (simp_all add: field_simps)
  have den1: "e - M - (\<bar>e - M\<bar> + 1) / 2 ^ 23 \<le> den"
    using near_bounds(1) [OF double_error [OF fp den(1)] order_refl order_refl] .
  have "-(1/1000) \<le> n / den"
  proof (cases "1 \<le> den")
    case True
    then show ?thesis using n1(1) by (simp add: field_simps)
  next
    case False
    then have "1 \<le> M" using den1 e M by (simp add: field_simps abs_if split: if_splits)
    then have "0 \<le> n" using n1(2) Md(2) by linarith
    then show ?thesis using den(2) by (smt (verit) divide_nonneg_pos)
  qed
  then show ?thesis by (rule double_ge [OF fp q]) simp
qed

lemma distance_beyond_pole:
  assumes fp: "ieee754 fp" and M: "-38 \<le> M" "M \<le> 64" and e: "6 \<le> e" "e \<le> 9" and d: "100 \<le> d" "d \<le> 140"
    and n: "fl_double fp (M * d) = Some n" and den: "fl_double fp (e - M) = Some den" "den < 0"
    and q: "fl_double fp (n / den) = Some q"
  shows "q \<le> - (104/100) * d"
proof -
  have a: "e - M - (\<bar>e - M\<bar> + 1) / 2 ^ 23 \<le> den"
    using near_bounds(1) [OF double_error [OF fp den(1)] order_refl order_refl] .
  then have M1: "e - (1/1000) \<le> M" using den(2) e M by (simp add: field_simps abs_if split: if_splits)
  then have den1: "e - M - (1/1000) \<le> den" using a M e by (simp add: field_simps abs_if split: if_splits)
  have M0: "0 \<le> M" using M1 e by simp
  have "M * d \<le> 64 * 140" "0 \<le> M * d" using mult_mono [of M 64 d 140] M M0 d by auto
  moreover have "M * d - (\<bar>M * d\<bar> + 1) / 2 ^ 23 \<le> n"
    using near_bounds(1) [OF double_error [OF fp n] order_refl order_refl] .
  ultimately have n1: "M * d - (1/100) \<le> n" by (simp add: field_simps)
  have "d * (e - M - (1/1000)) \<le> d * den" using den1 d by (intro mult_left_mono) auto
  then have "d * e - M * d - (14/100) \<le> d * den" using d by (simp add: algebra_simps)
  moreover have "6 * d \<le> d * e" "M * d \<le> 64 * d" using d e M by simp_all
  ultimately have "- (105/100) * (d * den) \<le> n" using n1 d by linarith
  then have "n / den \<le> - (105/100) * d" using den(2) by (simp add: divide_le_eq mult.assoc)
  moreover have "- (105/100) * d + (\<bar>- (105/100) * d\<bar> + 1) / 2 ^ 23 \<le> - (104/100) * d" using d by (simp add: field_simps)
  ultimately show ?thesis by (rule double_le [OF fp q])
qed

lemma metric_in:
  assumes fp: "ieee754 fp" and p: "8/100 \<le> p" "p \<le> 125/1000" and cs: "0 \<le> cs" "cs \<le> 300"
    and raw: "0 \<le> raw" "raw \<le> 2047"
    and c: "fl_double fp (4 * cs) = Some c1" "fl_double fp c1 = Some c2" "fl_double fp (raw - c2) = Some c3"
      "fl_double fp (c3 / 4) = Some c4" "fl_double fp (c4 - 3/8) = Some x"
    and m: "fl_double fp (x * p) = Some m1" "fl_double fp m1 = Some M"
  shows "-38 \<le> M" "M \<le> 64"
proof -
  have "-1/1000 \<le> c1" "c1 \<le> 12001/10"
    using double_ge [OF fp c(1), of 0 "-1/1000"] double_le [OF fp c(1), of 1200 "12001/10"] cs by simp_all
  then have "-2/1000 \<le> c2" "c2 \<le> 12002/10"
    using double_ge [OF fp c(2), of "-1/1000" "-2/1000"] double_le [OF fp c(2), of "12001/10" "12002/10"] by simp_all
  then have "-12003/10 \<le> c3" "c3 \<le> 20471/10"
    using double_ge [OF fp c(3), of "-12002/10" "-12003/10"] double_le [OF fp c(3), of "20470/10 + 2/1000" "20471/10"] raw
    by simp_all
  then have "-3002/10 \<le> c4" "c4 \<le> 5119/10"
    using double_ge [OF fp c(4), of "-30008/100" "-3002/10"] double_le [OF fp c(4), of "51178/100" "5119/10"]
    by simp_all
  then have x: "-301 \<le> x" "x \<le> 511 + 6/10"
    using double_ge [OF fp c(5), of "-3006/10" "-301"] double_le [OF fp c(5), of "51153/100" "511 + 6/10"] by simp_all
  have "-301 * (125/1000) \<le> x * p \<and> x * p \<le> (511 + 6/10) * (125/1000)"
  proof (cases "0 \<le> x")
    case True
    then have "0 \<le> x * p" "x * p \<le> (511 + 6/10) * (125/1000)"
      using x p by (simp, intro mult_mono) auto
    then show ?thesis by simp
  next
    case False
    then have "0 \<le> - x * p" "- x * p \<le> 301 * (125/1000)"
      using x p by (simp add: mult_le_0_iff, intro mult_mono) auto
    then show ?thesis by simp
  qed
  then have m1: "-377/10 \<le> m1" "m1 \<le> 6396/100"
    using double_ge [OF fp m(1), of "-37625/1000" "-377/10"] double_le [OF fp m(1), of "6395/100" "6396/100"] by simp_all
  then show "-38 \<le> M" "M \<le> 64"
    using double_ge [OF fp m(2), of "-377/10" "-38"] double_le [OF fp m(2), of "6396/100" 64] by simp_all
qed

text \<open>No finite distance is between -1 and 131: behind the reference plane the least is about 136 mm.\<close>

lemma raw_to_mm_value_in:
  assumes fp: "ieee754 fp" and z: "kinect_zero_plane z" and cs: "unat cs \<le> 300" and raw: "unat raw < 2048"
    and v: "raw_to_mm_value fp z cs raw = Some v"
  shows "v \<le> -1 \<or> 131 \<le> v"
proof -
  obtain p d e where p: "f32 (zp_reference_pixel_size z) = Some p" "8/100 \<le> p" "p \<le> 125/1000"
    and d: "f32 (zp_reference_distance z) = Some d" "100 \<le> d" "d \<le> 140"
    and e: "f32 (zp_dcmos_emitter_dist z) = Some e" "6 \<le> e" "e \<le> 9"
    using z by (auto simp: kinect_zero_plane_def f32_in_def split: option.splits)
  obtain c1 c2 c3 c4 x m1 M n den q s where
    c: "fl_double fp (4 * real (unat cs)) = Some c1" "fl_double fp c1 = Some c2"
      "fl_double fp (real (unat raw) - c2) = Some c3" "fl_double fp (c3 / 4) = Some c4"
      "fl_double fp (c4 - 3/8) = Some x"
    and m: "fl_double fp (x * p) = Some m1" "fl_double fp m1 = Some M"
    and n: "fl_double fp (M * d) = Some n" and den: "fl_double fp (e - M) = Some den" "den \<noteq> 0"
    and q: "fl_double fp (n / den) = Some q" and s: "fl_double fp (q + d) = Some s"
    and v': "fl_double fp (10 * s) = Some v"
    using v by (auto simp: raw_to_mm_value_def fl_div_def p(1) d(1) e(1) bind_Some_iff split: if_splits)
  have raw': "unat raw \<le> 2047" using raw by simp
  have r: "0 \<le> real (unat cs)" "real (unat cs) \<le> 300" "0 \<le> real (unat raw)" "real (unat raw) \<le> 2047"
    using of_nat_mono [OF cs, where 'a = real] of_nat_mono [OF raw', where 'a = real]
    by (simp_all only: of_nat_0_le_iff of_nat_numeral)
  note M = metric_in [OF fp p(2,3) r c m]
  consider "M \<le> 0" | "0 \<le> M" "0 < den" | "den < 0" using den(2) by linarith
  then show ?thesis
  proof cases
    case 1
    then have "132/10 \<le> q + d" using distance_behind_plane [OF fp M(1) _ e(2,3) d(2,3) n den(1) q] by simp
    then have "1319/100 \<le> s" by (rule double_ge [OF fp s]) simp
    then have "131 \<le> v" by (intro double_ge [OF fp v', of "1319/10"]) simp_all
    then show ?thesis ..
  next
    case 2
    then have "99 \<le> q + d" using distance_before_pole [OF fp _ M(2) e(2,3) d(2,3) n den(1) _ q] d by simp
    then have "98 \<le> s" by (rule double_ge [OF fp s]) simp
    then have "131 \<le> v" by (intro double_ge [OF fp v', of 980]) simp_all
    then show ?thesis ..
  next
    case 3
    then have "q + d \<le> -4" using distance_beyond_pole [OF fp M e(2,3) d(2,3) n den(1) _ q] d by simp
    then have "s \<le> -3" by (rule double_le [OF fp s]) simp
    then have "v \<le> -1" by (intro double_le [OF fp v', of "-30"]) simp_all
    then show ?thesis ..
  qed
qed

text \<open>So a depth below 130 mm can only come from a conversion C leaves undefined.\<close>

lemma raw_to_mm_ok:
  assumes "ieee754 fp" "kinect_calibration reg" "no_tiny_depths fp reg" "i < 2048"
  shows "freenect_raw_to_mm fp (of_nat i) reg = 0 \<or> 130 \<le> unat (freenect_raw_to_mm fp (of_nat i) reg)"
proof -
  let ?v = "raw_to_mm_value fp (rg_zero_plane reg) (rg_const_shift reg) (of_nat i)"
  have cal: "kinect_zero_plane (rg_zero_plane reg)" "unat (rg_const_shift reg) \<le> 300"
    using assms(2) by (simp_all add: kinect_calibration_def)
  show ?thesis
  proof (cases "Option.bind ?v (fl_to_int 0 65535)")
    case None
    then show ?thesis using assms(3,4) by (simp add: freenect_raw_to_mm_def no_tiny_depths_def Let_def)
  next
    case (Some k)
    then obtain v where v: "?v = Some v" "k = fl_trunc v" "0 \<le> k" "k \<le> 65535"
      by (auto simp: bind_Some_iff fl_to_int_def split: if_splits)
    have "unat (of_nat i :: u16) < 2048" using assms(4) by (simp add: unat_of_nat)
    from raw_to_mm_value_in [OF assms(1) cal this v(1)] have "131 \<le> v"
      using v(2,3) fl_trunc_bounds [of v] by (auto simp: fl_trunc_def split: if_splits)
    then have "130 \<le> k" using v(2) fl_trunc_bounds(1) [of v] by linarith
    then have "unat (word_of_int k :: u16) = nat k" using v(4) by (simp add: unat_eq_nat_uint uint_word_of_int)
    then show ?thesis using Some \<open>130 \<le> k\<close> by (simp add: freenect_raw_to_mm_def le_nat_iff)
  qed
qed

end
