(* ===== verification/RegistrationProofs.thy ===== *)
theory RegistrationProofs
  imports Calibration
begin

text \<open>
  Correctness of the registration tables and of the frame conversions that use them: bounds of
  every table entry, memory safety of the projection, the depth buffer it implements, and the
  corner cases in which the code leaves its tables.
\<close>

section \<open>Signed integers\<close>

lemma sint_of_int32: "int32_range k \<Longrightarrow> sint (word_of_int k :: u32) = k"
  by (simp add: int32_range_def int_word_sint mod_pos_pos_trivial)

lemma unat_of_int32: "0 \<le> k \<Longrightarrow> k < 2 ^ 32 \<Longrightarrow> unat (word_of_int k :: u32) = nat k"
  by (simp add: unat_eq_nat_uint uint_word_of_int)

lemma sdiv_nonneg: "0 \<le> (k::int) \<Longrightarrow> 0 < l \<Longrightarrow> k sdiv l = k div l"
  by (cases "k = 0") (simp_all add: signed_divide_int_def)

section \<open>The packed frame\<close>

lemma packed_elem11_bound: "packed_elem 11 src i w \<Longrightarrow> unat w < 2048"
proof -
  assume p: "packed_elem 11 src i w"
  have "w = take_bit 11 w"
    by (rule bit_word_eqI) (use p in \<open>auto simp: packed_elem_def bit_simps\<close>)
  then have "unat w = take_bit 11 (unat w)" by (metis unsigned_take_bit_eq)
  then show ?thesis using take_bit_nat_less_exp [of 11 "unat w"] by simp
qed

definition frame_raws :: "bytes \<Rightarrow> u16 list" where
  "frame_raws inp = the (convert_packed11_to_16bit inp depth_pixels)"

lemma depth_pixels_eq: "depth_pixels = 307200"
  by (simp add: depth_pixels_def DEPTH_X_RES_def DEPTH_Y_RES_def)

lemma frame_raws:
  assumes "422400 \<le> length inp"
  shows "convert_packed11_to_16bit inp depth_pixels = Some (frame_raws inp)"
    and "length (frame_raws inp) = depth_pixels"
    and "\<And>i. i < depth_pixels \<Longrightarrow> packed_elem 11 inp i (frame_raws inp ! i)"
    and "\<And>i. i < depth_pixels \<Longrightarrow> unat (frame_raws inp ! i) < 2048"
proof -
  obtain px where px: "convert_packed11_to_16bit inp depth_pixels = Some px" "length px = depth_pixels"
    "\<forall>i < depth_pixels. packed_elem 11 inp i (px ! i)"
    using convert_packed11_ok [of depth_pixels inp] assms by (auto simp: depth_pixels_eq)
  then have "frame_raws inp = px" by (simp add: frame_raws_def)
  with px packed_elem11_bound show "convert_packed11_to_16bit inp depth_pixels = Some (frame_raws inp)"
    "length (frame_raws inp) = depth_pixels"
    "\<And>i. i < depth_pixels \<Longrightarrow> packed_elem 11 inp i (frame_raws inp ! i)"
    "\<And>i. i < depth_pixels \<Longrightarrow> unat (frame_raws inp ! i) < 2048" by blast+
qed

lemma frame_loop:
  "422400 \<le> length inp \<Longrightarrow>
     pixel_loop f depth_pixels 0 (unpack, 8, inp) s = loop_list f (frame_raws inp) 0 s"
  by (rule pixel_loop_unpacked [OF frame_raws(1)]) (simp_all add: depth_pixels_eq)

section \<open>Metric frames\<close>

definition mm_value :: "u16 list \<Rightarrow> u16 \<Rightarrow> u16" where
  "mm_value tab raw = (if unat (tab ! unat raw) < 10000 then tab ! unat raw else 10000)"

lemma apply_depth_to_mm_ok:
  assumes "rg_raw_to_mm reg = Some tab" "length tab = 2048" "422400 \<le> length inp"
    "depth_pixels \<le> length out0"
  shows "\<exists>out. freenect_apply_depth_to_mm reg inp out0 = Some out \<and> length out = length out0
    \<and> (\<forall>i < depth_pixels. out ! i = mm_value tab (frame_raws inp ! i))"
proof -
  define P where "P j s \<longleftrightarrow> length s = length out0 \<and> (\<forall>i < j. s ! i = mm_value tab (frame_raws inp ! i))"
    for j and s :: "u16 list"
  have "\<exists>s'. loop_list (mm_pixel reg) (frame_raws inp) 0 out0 = Some s' \<and> P (length (frame_raws inp)) s'"
  proof (rule loop_list_inv)
    fix j s assume j: "j < length (frame_raws inp)" and P: "P j s"
    then have b: "unat (frame_raws inp ! j) < length tab" "j < length s"
      using frame_raws(2,4) [OF assms(3)] assms(2,4) by (auto simp: P_def)
    have "mm_pixel reg j (frame_raws inp ! j) s = Some (s[j := mm_value tab (frame_raws inp ! j)])"
      using b assms(1)
      by (simp add: mm_pixel_def table_at_def get_at_def put_bytes_def mm_value_def
          DEPTH_MAX_METRIC_VALUE_def upd_conv_take_nth_drop)
    moreover have "P (Suc j) (s[j := mm_value tab (frame_raws inp ! j)])"
      using P b(2) by (auto simp: P_def nth_list_update less_Suc_eq)
    ultimately show "\<exists>s'. mm_pixel reg (0 + j) (frame_raws inp ! j) s = Some s' \<and> P (Suc j) s'" by simp
  qed (simp add: P_def)
  then show ?thesis
    unfolding freenect_apply_depth_to_mm_def frame_loop [OF assms(3)] P_def frame_raws(2) [OF assms(3)] .
qed

section \<open>Bounds of the registration table\<close>

text \<open>Either a pixel of the colour image, the column in 1/256, or the marker to the right of it.\<close>

definition table_entry_ok :: "u32 \<times> u32 \<Rightarrow> bool" where
  "table_entry_ok e \<longleftrightarrow> 0 \<le> sint (fst e) \<and> sint (fst e) < 640 * 256 \<and> unat (snd e) < 480
     \<or> sint (fst e) = 1280 * 256"

lemma reg_table_entry_ok:
  assumes "reg_table_entry x y d = Some e"
  shows "table_entry_ok e"
proof -
  define nx where "nx = (int x + 1) * 2 ^ 17 + sint (fst d)"
  define ny where "ny = (int y + 1) * 2 ^ 17 + sint (snd d)"
  show ?thesis
  proof (cases "nx < 0 \<or> ny < 0 \<or> nx \<ge> 640 * 2 ^ 17 \<or> ny \<ge> 480 * 2 ^ 17")
    case True
    then have "fst e = word_of_int (1280 * 256)"
      using assms by (auto simp: reg_table_entry_def Let_def nx_def ny_def DEPTH_X_RES_def DEPTH_Y_RES_def
          REG_X_VAL_SCALE_def split: if_splits)
    then show ?thesis by (simp add: table_entry_ok_def)
  next
    case False
    then have e: "e = (word_of_int (nx sdiv 2 ^ 9), word_of_int (ny sdiv 2 ^ 17))"
      using assms by (auto simp: reg_table_entry_def Let_def nx_def ny_def DEPTH_X_RES_def DEPTH_Y_RES_def
          REG_X_VAL_SCALE_def split: if_splits)
    have x: "0 \<le> nx div 2 ^ 9" "nx div 2 ^ 9 < 163840" and y: "0 \<le> ny div 2 ^ 17" "ny div 2 ^ 17 < 480"
      using False by auto
    have "nx sdiv 2 ^ 9 = nx div 2 ^ 9" "ny sdiv 2 ^ 17 = ny div 2 ^ 17"
      using False by (simp_all add: sdiv_nonneg)
    moreover have "int32_range (nx div 2 ^ 9)" using x by (simp add: int32_range_def)
    ultimately show ?thesis
      using x y by (simp add: e table_entry_ok_def sint_of_int32 unat_of_int32)
  qed
qed

lemma those_Some: "those xs = Some ys \<longleftrightarrow> xs = map Some ys"
proof (induction xs arbitrary: ys)
  case Nil
  then show ?case by auto
next
  case (Cons x xs)
  show ?case
  proof (cases x)
    case None
    then show ?thesis by (cases ys) auto
  next
    case (Some a)
    then show ?thesis using Cons.IH by (cases ys) auto
  qed
qed

lemma length_dxdy_cols [simp]: "length (dxdy_cols r n c) = n"
  by (induction n arbitrary: c) auto

lemma length_dxdy_rows [simp]: "length (dxdy_rows r w n t) = n * w"
  by (induction n arbitrary: t) (auto simp: Let_def)

lemma init_registration_table_ok:
  assumes "freenect_init_registration_table r = Some t"
  shows "length t = depth_pixels \<and> (\<forall>e \<in> set t. table_entry_ok e)"
proof -
  let ?f = "\<lambda>(i, d). reg_table_entry (i mod DEPTH_X_RES) (i div DEPTH_X_RES) d"
  let ?xs = "enumerate 0 (freenect_create_dxdy_tables DEPTH_X_RES DEPTH_Y_RES r)"
  have m: "map ?f ?xs = map Some t"
    using assms by (simp add: freenect_init_registration_table_def those_Some)
  have "length t = length ?xs" using arg_cong [OF m, of length] by simp
  moreover have "table_entry_ok e" if "e \<in> set t" for e
  proof -
    have "Some e \<in> set (map ?f ?xs)" unfolding m using that by simp
    then obtain p where "?f p = Some e" by (metis (no_types, lifting) imageE list.set_map)
    then show ?thesis using reg_table_entry_ok by (cases p) auto
  qed
  ultimately show ?thesis by (simp add: freenect_create_dxdy_tables_def depth_pixels_def)
qed

section \<open>Safety of the projection\<close>

text \<open>
  Tables that are safe to project with: complete, and a good shift for every depth that occurs.
\<close>

definition reg_ready :: "registration \<Rightarrow> bool" where
  "reg_ready reg \<longleftrightarrow>
     (\<exists>tab b t. rg_raw_to_mm reg = Some tab \<and> length tab = 2048
        \<and> rg_depth_to_rgb reg = Some b \<and> length b = 10000
        \<and> (\<forall>mm \<in> set tab. mm \<noteq> 0 \<and> unat mm < 10000 \<longrightarrow> shift_ok (b ! unat mm))
        \<and> rg_table reg = Some t \<and> length t = depth_pixels \<and> (\<forall>e \<in> set t. table_entry_ok e))"

lemma complete_tables_ready:
  assumes "complete_tables fp reg = Some reg'"
    and fp: "ieee754 fp" "kinect_calibration reg" "no_tiny_depths fp reg"
  shows "reg_ready reg' \<and> rg_pad reg' = rg_pad reg"
proof -
  define tab where "tab = (map (\<lambda>i. freenect_raw_to_mm fp (of_nat i) reg) [0..<2048]) [2047 := 0]"
  obtain t where t: "freenect_init_registration_table (rg_info reg) = Some t"
    and reg': "reg' = reg\<lparr>rg_raw_to_mm := Some tab,
        rg_depth_to_rgb := Some (freenect_init_depth_to_rgb fp (rg_zero_plane reg)), rg_table := Some t\<rparr>"
    using assms(1)
    by (auto simp: complete_tables_def tab_def DEPTH_MAX_RAW_VALUE_def DEPTH_NO_RAW_VALUE_def split: option.splits)
  have "shift_ok (freenect_init_depth_to_rgb fp (rg_zero_plane reg) ! unat mm)"
    if "mm \<in> set tab" "mm \<noteq> 0" "unat mm < 10000" for mm
  proof (rule depth_to_rgb_shift_ok [OF fp(1) _ _ that(3)])
    have "mm \<in> insert 0 (set (map (\<lambda>i. freenect_raw_to_mm fp (of_nat i) reg) [0..<2048]))"
      using that(1) set_update_subset_insert unfolding tab_def by fast
    then obtain i where "i < 2048" "mm = freenect_raw_to_mm fp (of_nat i) reg" using \<open>mm \<noteq> 0\<close> by auto
    then show "130 \<le> unat mm" using raw_to_mm_ok [OF fp] \<open>mm \<noteq> 0\<close> by auto
  qed (use fp(2) in \<open>simp add: kinect_calibration_def\<close>)
  moreover have "length tab = 2048" "length (freenect_init_depth_to_rgb fp (rg_zero_plane reg)) = 10000"
    by (simp_all add: tab_def freenect_init_depth_to_rgb_def DEPTH_MAX_METRIC_VALUE_def)
  ultimately show ?thesis
    using init_registration_table_ok [OF t] unfolding reg' reg_ready_def by simp
qed

lemma init_registration_ready:
  assumes "freenect_init_registration fp reg = Some reg'" "ieee754 fp" "kinect_calibration reg" "no_tiny_depths fp reg"
  shows "reg_ready reg' \<and> rg_pad reg' = rg_pad reg"
proof -
  have "reg_ready reg' \<and> rg_pad reg' = rg_pad (freenect_destroy_registration reg)"
    by (rule complete_tables_ready [OF assms(1) [unfolded freenect_init_registration_def] assms(2)])
      (use assms(3,4) in \<open>simp_all add: freenect_destroy_registration_def kinect_calibration_def no_tiny_depths_def\<close>)
  then show ?thesis by (simp add: freenect_destroy_registration_def)
qed

text \<open>The sum of an entry and a shift, scaled: inside the image only for an image entry.\<close>

lemma reg_column_ok:
  assumes "reg_ready reg" "index < depth_pixels" "rg_raw_to_mm reg = Some tab" "mm \<in> set tab"
    "mm \<noteq> 0" "unat mm < 10000"
  defines "depth \<equiv> unat mm"
  shows "\<exists>nx ny. reg_column reg index depth = Some nx \<and> reg_row reg index = Some ny
    \<and> (unat nx < 640 \<longrightarrow> unat ny < 480)"
proof -
  obtain b t where b: "rg_depth_to_rgb reg = Some b" "length b = 10000" "shift_ok (b ! depth)"
    and t: "rg_table reg = Some t" "length t = depth_pixels" "\<forall>e \<in> set t. table_entry_ok e"
    using assms(1,3-6) unfolding reg_ready_def depth_def by auto
  define e s where "e = t ! index" and "s = sint (fst e) + sint (b ! depth)"
  have e: "table_entry_ok e" using t assms(2) by (simp add: e_def)
  have fst_e: "0 \<le> sint (fst e)" "sint (fst e) \<le> 1280 * 256" using e by (auto simp: table_entry_ok_def)
  have r: "int32_range s" using fst_e b(3) by (simp add: int32_range_def s_def shift_ok_def)
  have c: "reg_column reg index depth = Some (word_of_int (s sdiv 256))" "reg_row reg index = Some (snd e)"
    using b t assms(2,6) r [unfolded s_def e_def depth_def]
    by (simp_all add: reg_column_def reg_row_def table_at_def get_at_def e_def s_def REG_X_VAL_SCALE_def depth_def)
  have "unat (snd e) < 480" if "unat (word_of_int (s sdiv 256) :: u32) < 640"
  proof (rule ccontr)
    assume "\<not> unat (snd e) < 480"
    then have "sint (fst e) = 1280 * 256" using e by (auto simp: table_entry_ok_def)
    then have "640 * 256 \<le> s" "s < 2 ^ 31"
      using b(3) r by (simp_all add: s_def shift_ok_def int32_range_def)
    then have "s sdiv 256 = s div 256" "640 \<le> s div 256" "s div 256 < 2 ^ 31"
      by (auto simp: sdiv_nonneg)
    then have "640 \<le> unat (word_of_int (s sdiv 256) :: u32)"
      by (simp add: unat_of_int32 nat_le_eq_zle)
    with that show False by simp
  qed
  with c show ?thesis by blast
qed

lemma reg_target_ok:
  assumes "reg_ready reg" "index < depth_pixels" "unat raw < 2048" "rp_start_lines (rg_pad reg) = 0"
  shows "reg_target reg index raw = Some None
    \<or> (\<exists>t mm. reg_target reg index raw = Some (Some (t, mm)) \<and> unat t < depth_pixels \<and> mm \<noteq> 0)"
proof -
  obtain tab where tab: "rg_raw_to_mm reg = Some tab" "length tab = 2048"
    using assms(1) unfolding reg_ready_def by blast
  have at: "table_at (rg_raw_to_mm reg) (unat raw) = Some (tab ! unat raw)"
    using tab assms(3) by (simp add: table_at_def get_at_def)
  show ?thesis
  proof (cases "tab ! unat raw = 0 \<or> 10000 \<le> unat (tab ! unat raw)")
    case True
    then show ?thesis using at by (auto simp: reg_target_def DEPTH_MAX_METRIC_VALUE_def)
  next
    case False
    then have mm: "tab ! unat raw \<noteq> 0" "unat (tab ! unat raw) < 10000" by auto
    have elem: "tab ! unat raw \<in> set tab" using tab(2) assms(3) by simp
    obtain nx ny where c: "reg_column reg index (unat (tab ! unat raw)) = Some nx" "reg_row reg index = Some ny"
      "unat nx < 640 \<longrightarrow> unat ny < 480" using reg_column_ok [OF assms(1,2) tab(1) elem mm] by blast
    have "unat (ny * 640 + nx) < 307200" if "unat nx < 640"
    proof -
      have ny: "unat ny < 480" using c(3) that by simp
      have "unat ny * 640 + unat nx < 307200" using ny that by linarith
      moreover have "ny * 640 + nx = of_nat (unat ny * 640 + unat nx)" by simp
      ultimately show ?thesis
        by (metis (no_types, lifting) le_less_trans unat_of_nat mod_less_eq_dividend)
    qed
    then show ?thesis
      using False at c assms(4)
      by (auto simp: reg_target_def DEPTH_MAX_METRIC_VALUE_def DEPTH_X_RES_def depth_pixels_eq not_less)
  qed
qed

lemma apply_registration_ok:
  assumes "reg_ready reg" "rp_start_lines (rg_pad reg) = 0" "422400 \<le> length inp" "depth_pixels \<le> length out0"
  shows "\<exists>out. freenect_apply_registration reg inp out0 = Some out \<and> length out = length out0"
proof -
  define wiped :: "u16 list" where "wiped = replicate depth_pixels 0 @ drop depth_pixels out0"
  have w: "put_bytes 0 (replicate depth_pixels 0) out0 = Some wiped" "length wiped = length out0"
    using assms(4) by (simp_all add: put_bytes_def wiped_def)
  have "\<exists>s'. loop_list (reg_pixel reg) (frame_raws inp) 0 wiped = Some s' \<and> length s' = length out0"
  proof (rule loop_list_inv [where P = "\<lambda>_ s. length s = length out0"])
    fix j and s :: "u16 list" assume "j < length (frame_raws inp)" and s: "length s = length out0"
    then have "j < depth_pixels" "unat (frame_raws inp ! j) < 2048"
      using frame_raws(2,4) [OF assms(3)] by auto
    from reg_target_ok [OF assms(1) this assms(2)]
    show "\<exists>s'. reg_pixel reg (0 + j) (frame_raws inp ! j) s = Some s' \<and> length s' = length out0"
      using s assms(4) by (auto simp: reg_pixel_def get_at_def)
  qed (simp add: w(2))
  then show ?thesis
    unfolding freenect_apply_registration_def w(1) option.case frame_loop [OF assms(3)] .
qed

section \<open>The projection is a depth buffer\<close>

text \<open>The depths among the first \<open>n\<close> pixels that are projected to position \<open>t\<close>.\<close>

definition depths_at :: "registration \<Rightarrow> u16 list \<Rightarrow> nat \<Rightarrow> nat \<Rightarrow> u16 list" where
  "depths_at reg raws n t = List.map_filter
     (\<lambda>i. case reg_target reg i (raws ! i) of
        Some (Some (t', mm)) \<Rightarrow> if unat t' = t then Some mm else None | _ \<Rightarrow> None) [0..<n]"

definition nearest :: "u16 list \<Rightarrow> u16" where
  "nearest xs = (if xs = [] then 0 else Min (set xs))"

lemma nearest_zero: "0 \<notin> set xs \<Longrightarrow> nearest xs = 0 \<longleftrightarrow> xs = []"
  unfolding nearest_def by (metis List.finite_set Min_in set_empty)

lemma nearest_snoc:
  assumes "0 \<notin> set xs"
  shows "nearest (xs @ [m]) = (if nearest xs = 0 \<or> nearest xs > m then m else nearest xs)"
proof (cases "xs = []")
  case True
  then show ?thesis by (simp add: nearest_def)
next
  case False
  define M where "M = Min (set xs)"
  have n: "nearest xs = M" "nearest (xs @ [m]) = min m M"
    using False by (simp_all add: nearest_def M_def)
  have "M \<noteq> 0" using nearest_zero [OF assms] False n(1) by simp
  then show ?thesis unfolding n by (auto simp: min_def)
qed

lemma reg_target_nonzero: "reg_target reg i raw = Some (Some (t, mm)) \<Longrightarrow> mm \<noteq> 0"
  by (auto simp: reg_target_def split: option.splits if_splits)

lemma depths_at_Suc:
  "depths_at reg raws (Suc n) t = depths_at reg raws n t @
     (case reg_target reg n (raws ! n) of
        Some (Some (t', mm)) \<Rightarrow> if unat t' = t then [mm] else [] | _ \<Rightarrow> [])"
  by (simp add: depths_at_def map_filter_def split: option.splits)

lemma depths_at_nonzero: "0 \<notin> set (depths_at reg raws n t)"
proof (induction n)
  case 0
  then show ?case by (simp add: depths_at_def map_filter_def)
next
  case (Suc n)
  then show ?case
    by (auto simp: depths_at_Suc dest: reg_target_nonzero [OF sym] split: option.splits if_splits)
qed

definition zbuffer_inv :: "registration \<Rightarrow> u16 list \<Rightarrow> nat \<Rightarrow> nat \<Rightarrow> u16 list \<Rightarrow> bool" where
  "zbuffer_inv reg raws L n s \<longleftrightarrow> length s = L
     \<and> (\<forall>t < depth_pixels. t < L \<longrightarrow> s ! t = nearest (depths_at reg raws n t))"

lemma zbuffer_step:
  assumes "zbuffer_inv reg raws L n s" "reg_pixel reg n (raws ! n) s = Some s'"
  shows "zbuffer_inv reg raws L (Suc n) s'"
proof -
  consider (skip) "reg_target reg n (raws ! n) = Some None" "s' = s"
    | (hit) t mm where "reg_target reg n (raws ! n) = Some (Some (t, mm))" "unat t < length s"
        "s' = (if s ! unat t = 0 \<or> s ! unat t > mm then s[unat t := mm] else s)"
    using assms(2) by (auto simp: reg_pixel_def get_at_def split: option.splits if_splits)
  then show ?thesis
  proof cases
    case skip
    then show ?thesis using assms(1) by (simp add: zbuffer_inv_def depths_at_Suc)
  next
    case hit
    have "s' ! u = nearest (depths_at reg raws (Suc n) u)" if "u < depth_pixels" "u < L" for u
    proof -
      have su: "s ! u = nearest (depths_at reg raws n u)" using assms(1) that by (simp add: zbuffer_inv_def)
      show ?thesis
      proof (cases "u = unat t")
        case True
        then have "depths_at reg raws (Suc n) u = depths_at reg raws n u @ [mm]"
          by (simp add: depths_at_Suc hit(1))
        then show ?thesis
          using nearest_snoc [OF depths_at_nonzero, of reg raws n u mm] hit(2,3) True su by simp
      next
        case False
        then have "depths_at reg raws (Suc n) u = depths_at reg raws n u"
          by (simp add: depths_at_Suc hit(1))
        moreover have "s' ! u = s ! u" using False hit(3) by simp
        ultimately show ?thesis using su by simp
      qed
    qed
    moreover have "length s' = L" using assms(1) hit(3) by (simp add: zbuffer_inv_def)
    ultimately show ?thesis by (simp add: zbuffer_inv_def)
  qed
qed

lemma apply_registration_zbuffer:
  assumes "freenect_apply_registration reg inp out0 = Some out" "422400 \<le> length inp"
  shows "length out = length out0
    \<and> (\<forall>t < depth_pixels. out ! t = nearest (depths_at reg (frame_raws inp) depth_pixels t))"
proof -
  let ?w = "replicate depth_pixels 0 @ drop depth_pixels out0"
  have len: "depth_pixels \<le> length out0"
    and l: "loop_list (reg_pixel reg) (frame_raws inp) 0 ?w = Some out"
    using assms by (auto simp: freenect_apply_registration_def put_bytes_def frame_loop split: if_splits)
  have "zbuffer_inv reg (frame_raws inp) (length out0) (length (frame_raws inp)) out"
  proof (rule loop_list_keeps [OF _ _ l])
    show "zbuffer_inv reg (frame_raws inp) (length out0) 0 ?w"
      using len by (simp add: zbuffer_inv_def depths_at_def nearest_def nth_append map_filter_def)
  qed (simp add: zbuffer_step)
  then show ?thesis
    using len frame_raws(2) [OF assms(2)] by (simp add: zbuffer_inv_def)
qed

section \<open>Closed form of the difference tables\<close>

lemma dxdy_cols_nth:
  "j < n \<Longrightarrow> dxdy_cols r n c ! j
     = (let c' = (dxdy_col_step r ^^ j) c in (fst (fst c'), fst (snd c')))"
proof (induction n arbitrary: j c)
  case 0
  then show ?case by simp
next
  case (Suc n)
  then show ?case by (cases j) (simp_all add: funpow_swap1)
qed

lemma dxdy_rows_nth:
  "i < n \<Longrightarrow> j < w \<Longrightarrow> dxdy_rows r w n t ! (i * w + j)
     = (let c = (dxdy_col_step r ^^ j) (dxdy_col_start ((dxdy_row r ^^ Suc i) t)) in (fst (fst c), fst (snd c)))"
proof (induction n arbitrary: i t)
  case 0
  then show ?case by simp
next
  case (Suc n)
  show ?case
  proof (cases i)
    case 0
    then show ?thesis using Suc.prems by (simp add: Let_def nth_append dxdy_cols_nth)
  next
    case (Suc k)
    then show ?thesis
      using Suc.IH [of k "dxdy_row r t"] Suc.prems
      by (simp add: Let_def nth_append funpow_swap1)
  qed
qed

section \<open>A registration with no distortion\<close>

definition zero_info :: reg_info where "zero_info = read_reg_info (replicate 116 0)"

definition zero_dxdy :: dxdy where
  "zero_dxdy = \<lparr>dX0 = 0, dY0 = 0, dXdX0 = 0, dXdY0 = 0, dYdX0 = 0, dYdY0 = 0, dXdXdX0 = 0,
     dYdXdX0 = 0, dYdXdY0 = 0, dXdXdY0 = 0, dYdYdX0 = 0, dYdYdY0 = 0\<rparr>"

lemma zero_info_fields:
  "zero_info = \<lparr>ri_dx_center = 0, ri_ax = 0, ri_bx = 0, ri_cx = 0, ri_dx = 0, ri_dx_start = 0,
     ri_ay = 0, ri_by = 0, ri_cy = 0, ri_dy = 0, ri_dy_start = 0, ri_dx_beta_start = 0,
     ri_dy_beta_start = 0, ri_rollout_blank = 0, ri_rollout_size = 0, ri_dx_beta_inc = 0,
     ri_dy_beta_inc = 0, ri_dxdx_start = 0, ri_dxdy_start = 0, ri_dydx_start = 0, ri_dydy_start = 0,
     ri_dxdxdx_start = 0, ri_dydxdx_start = 0, ri_dxdxdy_start = 0, ri_dydxdy_start = 0,
     ri_back_comp1 = 0, ri_dydydx_start = 0, ri_back_comp2 = 0, ri_dydydy_start = 0\<rparr>"
  by (simp add: zero_info_def read_reg_info_def rd32_def le32_def)

lemma zero_start: "dxdy_start zero_info = zero_dxdy"
  by (simp add: dxdy_start_def zero_info_fields zero_dxdy_def shl_sar32_def shl_shl32_def)

lemma zero_row: "dxdy_row zero_info zero_dxdy = zero_dxdy"
  by (simp add: dxdy_row_def zero_info_fields zero_dxdy_def sar_def)

lemma zero_cols: "dxdy_cols zero_info n ((0, 0, 0), (0, 0, 0)) = replicate n (0, 0)"
  by (induction n) (simp_all add: zero_info_fields sar_def)

lemma zero_rows: "dxdy_rows zero_info w n zero_dxdy = replicate (n * w) (0, 0)"
proof (induction n)
  case 0
  then show ?case by simp
next
  case (Suc n)
  have "dxdy_col_start zero_dxdy = ((0, 0, 0), (0, 0, 0))"
    by (simp add: dxdy_col_start_def zero_dxdy_def)
  then show ?case using Suc by (simp add: Let_def zero_row zero_cols replicate_add)
qed

lemma zero_entry: "x < 640 \<Longrightarrow> y < 480 \<Longrightarrow> reg_table_entry x y (0, 0) \<noteq> None"
  by (simp add: reg_table_entry_def Let_def sdiv_nonneg int32_range_def)

lemma zero_table: "freenect_init_registration_table zero_info \<noteq> None"
proof -
  let ?f = "\<lambda>(i, d). reg_table_entry (i mod DEPTH_X_RES) (i div DEPTH_X_RES) d"
  let ?xs = "enumerate 0 (replicate (DEPTH_Y_RES * DEPTH_X_RES) (0 :: u64, 0 :: u64))"
  have nn: "?f p \<noteq> None" if "p \<in> set ?xs" for p
  proof -
    obtain i d where p: "p = (i, d)" by (cases p)
    then have i: "i < DEPTH_Y_RES * DEPTH_X_RES"
      and d: "d = replicate (DEPTH_Y_RES * DEPTH_X_RES) (0, 0) ! i"
      using that by (simp_all add: in_set_enumerate_eq)
    have "p = (i, (0, 0))" unfolding p d using i by (simp only: nth_replicate)
    moreover have "i mod DEPTH_X_RES < 640" "i div DEPTH_X_RES < 480"
      using i by (simp_all add: DEPTH_X_RES_def DEPTH_Y_RES_def less_mult_imp_div_less)
    ultimately show ?thesis using zero_entry by auto
  qed
  have "map ?f ?xs = map Some (map (the \<circ> ?f) ?xs)"
    unfolding map_map
    by (rule list.map_cong0) (simp only: o_apply option.collapse [OF nn])
  then have "those (map ?f ?xs) = Some (map (the \<circ> ?f) ?xs)" by (rule those_Some [THEN iffD2])
  then show ?thesis
    unfolding freenect_init_registration_table_def freenect_create_dxdy_tables_def zero_start zero_rows
    by (rule ssubst) (rule option.distinct)
qed

text \<open>7.5 cm, 2.5 cm, 120 mm and 13/128 mm; exact arithmetic.\<close>

definition sample_reg :: registration where
  "sample_reg = \<lparr>rg_info = zero_info,
     rg_pad = \<lparr>rp_start_lines = 0, rp_end_lines = 0, rp_cropping_lines = 0\<rparr>,
     rg_zero_plane = \<lparr>zp_dcmos_emitter_dist = 0x40F00000, zp_dcmos_rcmos_dist = 0x40200000,
       zp_reference_distance = 0x42F00000, zp_reference_pixel_size = 0x3DD00000\<rparr>,
     rg_const_shift = 200, rg_raw_to_mm = None, rg_depth_to_rgb = None, rg_table = None\<rparr>"

definition sample_fp :: fp_tables where
  "sample_fp = \<lparr>fl_single = Some, fl_double = Some, fp_mm_undef = (\<lambda>z cs raw. 0), fp_shift_undef = (\<lambda>z i. 0)\<rparr>"

lemma sample_floats:
  "f32 0x40F00000 = Some (15/2)" "f32 0x40200000 = Some (5/2)"
  "f32 0x42F00000 = Some 120" "f32 0x3DD00000 = Some (13/128)"
  by (simp_all add: f32_def f32_exponent_def f32_fraction_def take_bit_eq_mod drop_bit_eq_div)

lemma sample_fp_ok: "ieee754 sample_fp" "no_tiny_depths sample_fp reg"
  by (simp_all add: ieee754_def sample_fp_def exact_rounds no_tiny_depths_def)

lemma sample_zero_plane: "kinect_zero_plane (rg_zero_plane sample_reg)"
  by (simp add: kinect_zero_plane_def f32_in_def sample_reg_def sample_floats)

lemma sample_calibration: "kinect_calibration sample_reg"
  using sample_zero_plane by (simp add: kinect_calibration_def sample_reg_def)

lemma sample_init:
  obtains reg where "freenect_init_registration sample_fp sample_reg = Some reg" "reg_ready reg"
    "rp_start_lines (rg_pad reg) = 0"
proof -
  have "rg_info (freenect_destroy_registration sample_reg) = zero_info"
    by (simp add: freenect_destroy_registration_def sample_reg_def)
  with zero_table obtain reg where r: "freenect_init_registration sample_fp sample_reg = Some reg"
    by (auto simp: freenect_init_registration_def complete_tables_def)
  have ready: "reg_ready reg \<and> rg_pad reg = rg_pad sample_reg"
    by (rule init_registration_ready [OF r sample_fp_ok(1) sample_calibration sample_fp_ok(2)])
  have "rp_start_lines (rg_pad sample_reg) = 0" by (simp add: sample_reg_def)
  then have "rp_start_lines (rg_pad reg) = 0" using ready by (elim conjE) (simp only:)
  with r conjunct1 [OF ready] show ?thesis by (rule that)
qed

section \<open>Properties\<close>

text \<open>C10: The projection is a depth buffer.  Whatever the tables, when
  \<open>freenect_apply_registration\<close> runs without a fault, every position of the output holds the
  smallest depth of all pixels projected to it, independently of their order, and 0 where no
  pixel lands.\<close>
theorem registration_keeps_nearest:
  assumes "freenect_apply_registration reg inp out0 = Some out" "422400 \<le> length inp"
  shows "length out = length out0
    \<and> (\<forall>t < depth_pixels. out ! t = nearest (depths_at reg (frame_raws inp) depth_pixels t))"
  using assms by (rule apply_registration_zbuffer)

theorem registration_keeps_nearest_witness:
  "\<exists>reg out. freenect_apply_registration reg (replicate 422400 0) (replicate 307200 7) = Some out
     \<and> out ! 641 = nearest (depths_at reg (frame_raws (replicate 422400 0)) depth_pixels 641)"
proof -
  obtain reg where r: "reg_ready reg" "rp_start_lines (rg_pad reg) = 0" using sample_init by blast
  have len: "422400 \<le> length (replicate 422400 0 :: bytes)" "depth_pixels \<le> length (replicate 307200 7 :: u16 list)"
    by (simp_all only: length_replicate depth_pixels_eq)
  obtain out where out: "freenect_apply_registration reg (replicate 422400 0) (replicate 307200 7) = Some out"
    using apply_registration_ok [OF r len] by blast
  have "641 < depth_pixels" by (simp add: depth_pixels_eq)
  with registration_keeps_nearest [OF out len(1)] out show ?thesis by blast
qed

text \<open>C36: Memory safety of the projection.  With the tables
  \<open>freenect_init_registration\<close> computes from the calibration of a Kinect (emitter at 6 to 9 cm,
  colour camera at 1 to 4 cm, focal length 100 to 140 mm, pixels of 0.08 to 0.125 mm, constant
  shift at most 300) in IEEE 754 arithmetic, and no padding lines, no packed frame whatsoever
  makes \<open>freenect_apply_registration\<close> read or write outside a table or buffer; the distortion
  coefficients are arbitrary.  The one assumption on what C leaves undefined: converting a
  distance outside 0 to 65535 to \<open>uint16_t\<close> does not give a number from 1 to 129.\<close>
theorem registration_never_faults:
  assumes "freenect_init_registration fp reg0 = Some reg" "rp_start_lines (rg_pad reg0) = 0"
    and "ieee754 fp" "kinect_calibration reg0" "no_tiny_depths fp reg0"
    and "422400 \<le> length inp" "depth_pixels \<le> length out0"
  shows "\<exists>out. freenect_apply_registration reg inp out0 = Some out \<and> length out = length out0"
proof -
  have "reg_ready reg \<and> rg_pad reg = rg_pad reg0"
    by (rule init_registration_ready [OF assms(1,3-5)])
  then have "reg_ready reg" "rp_start_lines (rg_pad reg) = 0" using assms(2) by simp_all
  then show ?thesis using assms(6,7) by (rule apply_registration_ok)
qed

theorem registration_never_faults_witness:
  "\<exists>reg out. freenect_init_registration sample_fp sample_reg = Some reg
     \<and> freenect_apply_registration reg (replicate 422400 255) (replicate 307200 0) = Some out"
proof -
  obtain reg where r: "freenect_init_registration sample_fp sample_reg = Some reg" using sample_init by blast
  have "rp_start_lines (rg_pad sample_reg) = 0" by (simp add: sample_reg_def)
  from registration_never_faults [OF r this sample_fp_ok(1) sample_calibration sample_fp_ok(2),
      of "replicate 422400 255" "replicate 307200 0"] r
  show ?thesis unfolding length_replicate depth_pixels_eq by blast
qed

text \<open>The conversion C leaves undefined is reached by every Kinect: beyond the pole of the
  distance formula the value is negative.\<close>
lemma far_raw_conversion_undefined:
  "freenect_raw_to_mm (sample_fp\<lparr>fp_mm_undef := f\<rparr>) 2046 sample_reg
     = f (rg_zero_plane sample_reg) (rg_const_shift sample_reg) 2046"
  by (simp add: freenect_raw_to_mm_def raw_to_mm_value_def sample_reg_def sample_floats sample_fp_def
      fl_div_def fl_to_int_def fl_trunc_def)

text \<open>The padding lines of the camera are not checked.  With one of them, a pixel projected to the first row
  gets a target that wraps around to the end of the address range.\<close>

lemma padding_lines_leave_frame:
  assumes "table_at (rg_raw_to_mm reg) (unat raw) = Some mm" "mm \<noteq> 0" "unat mm < DEPTH_MAX_METRIC_VALUE"
    and "reg_column reg index (unat mm) = Some nx" "nx < 480" "reg_row reg index = Some 0"
    and "rp_start_lines (rg_pad reg) = 1" "length out = depth_pixels"
  shows "reg_pixel reg index raw out = None"
proof -
  have n: "unat nx < 480" using assms(5) by (simp add: word_less_nat_alt)
  then have t: "reg_target reg index raw = Some (Some (nx - 480, mm))"
    using assms by (simp add: reg_target_def DEPTH_X_RES_def DEPTH_Y_RES_def)
  have "(nx - 480) + 480 = nx" by simp
  then have "\<not> unat (nx - 480) + 480 < 2 ^ 32" using n unat_add_lem [of "nx - 480" 480] by auto
  then have "depth_pixels \<le> unat (nx - 480)" by (simp add: depth_pixels_def DEPTH_X_RES_def DEPTH_Y_RES_def)
  then show ?thesis using t assms(8) by (simp add: reg_pixel_def get_at_def)
qed

text \<open>The metric frame.  With a complete depth table, \<open>freenect_apply_depth_to_mm\<close>
  writes, for every pixel of the packed frame, its table entry capped at 10000 mm, and nothing
  else.\<close>
lemma depth_to_mm_correct:
  assumes "rg_raw_to_mm reg = Some tab" "length tab = 2048" "422400 \<le> length inp"
    "depth_pixels \<le> length out0"
  shows "\<exists>out. freenect_apply_depth_to_mm reg inp out0 = Some out \<and> length out = length out0
    \<and> (\<forall>i < depth_pixels. packed_elem 11 inp i (frame_raws inp ! i)
         \<and> out ! i = mm_value tab (frame_raws inp ! i))"
  using apply_depth_to_mm_ok [OF assms] frame_raws(3) [OF assms(3)] by blast

lemma depth_to_mm_correct_example:
  "\<exists>out. freenect_apply_depth_to_mm (sample_reg\<lparr>rg_raw_to_mm := Some (replicate 2048 12000)\<rparr>)
       (replicate 422400 0x5A) (replicate 307200 0) = Some out
     \<and> out ! 3 = mm_value (replicate 2048 12000) (frame_raws (replicate 422400 0x5A) ! 3)"
proof -
  have "3 < depth_pixels" by (simp add: depth_pixels_eq)
  then show ?thesis
    using depth_to_mm_correct [of "sample_reg\<lparr>rg_raw_to_mm := Some (replicate 2048 12000)\<rparr>"
        "replicate 2048 12000" "replicate 422400 0x5A" "replicate 307200 0"]
    unfolding length_replicate depth_pixels_eq by auto
qed

text \<open>The two nested loops of \<open>freenect_create_dxdy_tables\<close> compute a closed form:
  the entry of pixel \<open>(x, y)\<close> is determined by \<open>x\<close> steps of the column differences from the
  state after \<open>y + 1\<close> steps of the row differences, and by nothing of the other pixels.\<close>
lemma registration_table_closed_form:
  assumes "freenect_init_registration_table r = Some t" "x < DEPTH_X_RES" "y < DEPTH_Y_RES"
  shows "let c = (dxdy_col_step r ^^ x) (dxdy_col_start ((dxdy_row r ^^ Suc y) (dxdy_start r)))
    in reg_table_entry x y (fst (fst c), fst (snd c)) = Some (t ! (y * DEPTH_X_RES + x))"
proof -
  let ?tab = "freenect_create_dxdy_tables DEPTH_X_RES DEPTH_Y_RES r"
  let ?f = "\<lambda>(i, d). reg_table_entry (i mod DEPTH_X_RES) (i div DEPTH_X_RES) d"
  let ?i = "y * DEPTH_X_RES + x"
  have m: "map ?f (enumerate 0 ?tab) = map Some t"
    using assms(1) by (simp add: freenect_init_registration_table_def those_Some)
  have len: "length ?tab = DEPTH_Y_RES * DEPTH_X_RES" by (simp add: freenect_create_dxdy_tables_def)
  have i: "?i < DEPTH_Y_RES * DEPTH_X_RES"
  proof -
    have "?i < Suc y * DEPTH_X_RES" using assms(2) by simp
    also have "\<dots> \<le> DEPTH_Y_RES * DEPTH_X_RES" using assms(3) by (intro mult_le_mono1) simp
    finally show ?thesis .
  qed
  have "length t = length ?tab" using arg_cong [OF m, of length] by simp
  then have "?f (enumerate 0 ?tab ! ?i) = Some (t ! ?i)"
    using arg_cong [OF m, of "\<lambda>l. l ! ?i"] i len by simp
  moreover have "enumerate 0 ?tab ! ?i = (?i, ?tab ! ?i)"
    using i len by (simp add: nth_enumerate_eq)
  moreover have "?i mod DEPTH_X_RES = x" "?i div DEPTH_X_RES = y" using assms(2) by auto
  moreover have "?tab ! ?i = (let c = (dxdy_col_step r ^^ x) (dxdy_col_start ((dxdy_row r ^^ Suc y) (dxdy_start r)))
      in (fst (fst c), fst (snd c)))"
    unfolding freenect_create_dxdy_tables_def by (rule dxdy_rows_nth [OF assms(3,2)])
  ultimately show ?thesis by (simp only: prod.case Let_def)
qed

lemma registration_table_closed_form_example:
  "\<exists>t. freenect_init_registration_table zero_info = Some t
     \<and> reg_table_entry 1 0 (0, 0) = Some (t ! (0 * DEPTH_X_RES + 1))"
proof -
  obtain t where t: "freenect_init_registration_table zero_info = Some t" using zero_table by blast
  have "(dxdy_row zero_info ^^ Suc 0) (dxdy_start zero_info) = zero_dxdy"
    by (simp only: funpow.simps o_apply id_apply zero_start zero_row)
  moreover have "dxdy_col_start zero_dxdy = ((0, 0, 0), (0, 0, 0))"
    by (simp add: dxdy_col_start_def zero_dxdy_def)
  moreover have "dxdy_col_step zero_info ((0, 0, 0), (0, 0, 0)) = ((0, 0, 0), (0, 0, 0))"
    by (simp add: zero_info_fields sar_def)
  ultimately have "(dxdy_col_step zero_info ^^ 1) (dxdy_col_start ((dxdy_row zero_info ^^ Suc 0) (dxdy_start zero_info)))
      = ((0, 0, 0), (0, 0, 0))"
    by (simp only: One_nat_def funpow.simps o_apply id_apply)
  moreover have "1 < DEPTH_X_RES" "0 < DEPTH_Y_RES" by (simp_all add: DEPTH_X_RES_def DEPTH_Y_RES_def)
  ultimately have "reg_table_entry 1 0 (0, 0) = Some (t ! (0 * DEPTH_X_RES + 1))"
    using registration_table_closed_form [OF t, of 1 0] by (simp only: Let_def fst_conv snd_conv)
  with t show ?thesis by blast
qed

text \<open>The two conversions disagree on the largest depth.  A pixel at 10000 mm or more is
  capped to exactly 10000 by \<open>freenect_apply_depth_to_mm\<close>; handed to
  \<open>freenect_map_rgb_to_depth\<close>, such a frame makes it read entry 10000 of the 10000 entry table
  \<open>depth_to_rgb_shift\<close>.\<close>
lemma far_pixel_overruns_table:
  assumes "rg_raw_to_mm reg = Some tab" "length tab = 2048" "rg_depth_to_rgb reg = Some b" "length b = 10000"
    and "422400 \<le> length inp" "freenect_apply_depth_to_mm reg inp (replicate depth_pixels 0) = Some depth"
    and "i < depth_pixels" "10000 \<le> unat (tab ! unat (frame_raws inp ! i))"
  shows "freenect_map_rgb_to_depth reg depth rgb_raw rgb_registered = None"
proof -
  have "depth ! i = 10000"
    using apply_depth_to_mm_ok [OF assms(1,2,5), of "replicate depth_pixels 0"] assms(6-8)
    by (auto simp: mm_value_def)
  then have "rgb_map_pixel reg depth (0 + i) s = None" for s
    using assms(3,4)
    by (auto simp: rgb_map_pixel_def get_at_def reg_column_def table_at_def split: option.splits)
  then have "for_loop (rgb_map_pixel reg depth) depth_pixels 0 s = None" for s
    by (rule for_loop_fault [OF assms(7)])
  then show ?thesis by (simp add: freenect_map_rgb_to_depth_def)
qed

lemma far_pixel_overruns_table_example:
  "\<exists>depth. freenect_apply_depth_to_mm (sample_reg\<lparr>rg_raw_to_mm := Some (replicate 2048 12000),
         rg_depth_to_rgb := Some (replicate 10000 0)\<rparr>)
       (replicate 422400 0) (replicate depth_pixels 0) = Some depth
     \<and> freenect_map_rgb_to_depth (sample_reg\<lparr>rg_raw_to_mm := Some (replicate 2048 12000),
         rg_depth_to_rgb := Some (replicate 10000 0)\<rparr>) depth [] [] = None"
proof -
  let ?reg = "sample_reg\<lparr>rg_raw_to_mm := Some (replicate 2048 12000), rg_depth_to_rgb := Some (replicate 10000 0)\<rparr>"
  have t: "rg_raw_to_mm ?reg = Some (replicate 2048 12000)" "rg_depth_to_rgb ?reg = Some (replicate 10000 0)"
    by simp_all
  have l: "length (replicate 2048 (12000 :: u16)) = 2048" "length (replicate 10000 (0 :: u32)) = 10000"
    "422400 \<le> length (replicate 422400 (0 :: u8))" "depth_pixels \<le> length (replicate depth_pixels (0 :: u16))"
    by (simp_all only: length_replicate)
  obtain depth where d: "freenect_apply_depth_to_mm ?reg (replicate 422400 0) (replicate depth_pixels 0) = Some depth"
    using apply_depth_to_mm_ok [OF t(1) l(1,3,4)] by blast
  have i: "0 < depth_pixels" by (simp add: depth_pixels_eq)
  have "unat (frame_raws (replicate 422400 0) ! 0) < 2048" using frame_raws(4) [OF l(3) i] .
  then have "10000 \<le> unat (replicate 2048 (12000 :: u16) ! unat (frame_raws (replicate 422400 0) ! 0))" by simp
  from far_pixel_overruns_table [OF t(1) l(1) t(2) l(2,3) d i this] d show ?thesis by blast
qed

end
