(* ===== verification/Cameras.thy ===== *)
theory Cameras
  imports PacketStream PixelUnpack ColorConvert UsbCmd FrameModes IsoStream RegistrationProofs
begin

text \<open>
  The camera side of a device, \<open>libfreenect/cameras.c\<close>: starting and stopping the depth and
  video streams, the two packet handlers that turn a raw frame into the frame the client gets,
  the calibration data read from the camera, mode changes, initialisation and teardown.

  A state is the device record and the heap with its buffers.  The device holds the list of
  frame callbacks made so far.  What the code takes from outside (libusb, the floating-point
  tables, the uninitialised contents of a local struct) is the record \<open>cam_env\<close>.
\<close>

section \<open>The device\<close>

datatype frame_event = Depth_Frame ptr u32 | Video_Frame ptr u32

record 'u freenect_device = "'u cam_link" +
  fd_depth_cb :: bool
  fd_video_cb :: bool
  fd_depth_chunk_cb :: "chunk_cb option"
  fd_video_chunk_cb :: "chunk_cb option"
  fd_video_format :: video_format
  fd_depth_format :: depth_format
  fd_video_resolution :: resolution
  fd_depth_resolution :: resolution
  fd_depth :: packet_stream
  fd_video :: packet_stream
  fd_registration :: registration
  fd_zero_plane_res :: nat
  fd_depth_isoc :: "unit iso_state"
  fd_video_isoc :: "unit iso_state"
  fd_frames :: "frame_event list"

record 'u cam_env = "'u usb_ops" +
  env_alloc :: "nat \<Rightarrow> bool"
  env_submit :: "nat \<Rightarrow> int"
  env_max_iso :: int
  env_completions :: "(nat \<times> transfer_status) list"
  env_fp :: fp_tables
  env_video_retval :: "video_format frame_mode"
  env_depth_retval :: "depth_format frame_mode"

type_synonym 'u cam_state = "'u freenect_device \<times> heap"

definition DEPTH_PKTDSIZE :: int where "DEPTH_PKTDSIZE = 1760 - 12"
definition VIDEO_PKTDSIZE :: int where "VIDEO_PKTDSIZE = 1920 - 12"
definition DEPTH_PKTBUF :: int where "DEPTH_PKTBUF = 1920"
definition VIDEO_PKTBUF :: int where "VIDEO_PKTBUF = 1920"
definition NUM_XFERS :: int where "NUM_XFERS = 6"
definition PKTS_PER_XFER :: int where "PKTS_PER_XFER = 128"

text \<open>A client transfer callback is not needed to start or stop a stream.\<close>

definition no_client :: "unit iso_cb" where "no_client pkt s = Some s"

text \<open>Register writes whose results the code ignores.\<close>

primrec write_registers ::
  "('u, 'x) usb_ops_scheme \<Rightarrow> (u16 \<times> u16) list \<Rightarrow> ('u, 'm) cam_link_scheme \<Rightarrow> ('u, 'm) cam_link_scheme option" where
  "write_registers ops [] d = Some d"
| "write_registers ops (rv # rvs) d =
     (case write_register ops (fst rv) (snd rv) d of None \<Rightarrow> None
      | Some (res, d') \<Rightarrow> write_registers ops rvs d')"

section \<open>Frame handlers\<close>

text \<open>A frame buffer seen as an array of 16 bit values, and back.\<close>

fun bytes_u16s :: "bytes \<Rightarrow> u16 list" where
  "bytes_u16s (a # b # bs) = le16 a b # bytes_u16s bs"
| "bytes_u16s bs = []"

definition u16s_bytes :: "u16 list \<Rightarrow> bytes" where
  "u16s_bytes xs = concat (map bytes16 xs)"

text \<open>Decode the raw frame into \<open>proc_buf\<close>.\<close>

definition depth_convert :: "'u freenect_device \<Rightarrow> heap \<Rightarrow> heap option" where
  "depth_convert dev h =
     (let raw = ps_raw_buf (fd_depth dev); proc = ps_proc_buf (fd_depth dev);
          put = (\<lambda>xs. mem_write proc 0 (u16s_bytes xs) h)
      in case fd_depth_format dev of
           DEPTH_11BIT \<Rightarrow>
             Option.bind (blocks h raw) (\<lambda>b. Option.bind (convert_packed11_to_16bit b (640 * 480)) put)
         | DEPTH_REGISTERED \<Rightarrow>
             Option.bind (blocks h raw) (\<lambda>b. Option.bind (blocks h proc) (\<lambda>p.
               Option.bind (freenect_apply_registration (fd_registration dev) b (bytes_u16s p)) put))
         | DEPTH_MM \<Rightarrow>
             Option.bind (blocks h raw) (\<lambda>b. Option.bind (blocks h proc) (\<lambda>p.
               Option.bind (freenect_apply_depth_to_mm (fd_registration dev) b (bytes_u16s p)) put))
         | DEPTH_10BIT \<Rightarrow>
             Option.bind (blocks h raw) (\<lambda>b. Option.bind (convert_packed_to_16bit b 10 (640 * 480)) put)
         | _ \<Rightarrow> Some h)"

definition depth_process :: "bytes \<Rightarrow> 'u cam_state \<Rightarrow> 'u cam_state option" where
  "depth_process pkt st =
     (let (dev, h) = st
      in if pkt = [] then Some st
         else if \<not> ps_running (fd_depth dev) then Some st
         else
           (case stream_process h (fd_depth dev) pkt (fd_depth_chunk_cb dev) of None \<Rightarrow> None
            | Some (got_frame_size, s, h1) \<Rightarrow>
                (let dev1 = dev\<lparr>fd_depth := s\<rparr>
                 in if got_frame_size = 0 then Some (dev1, h1)
                    else
                      (case depth_convert dev1 h1 of None \<Rightarrow> None
                       | Some h2 \<Rightarrow>
                           Some (if fd_depth_cb dev1
                                 then dev1\<lparr>fd_frames := fd_frames dev1 @ [Depth_Frame (ps_proc_buf s) (ps_timestamp s)]\<rparr>
                                 else dev1, h2)))))"

definition freenect_get_current_video_mode ::
  "('u, 'x) cam_env_scheme \<Rightarrow> 'u freenect_device \<Rightarrow> video_format frame_mode" where
  "freenect_get_current_video_mode env dev =
     freenect_find_video_mode (env_video_retval env) (fd_video_resolution dev) (fd_video_format dev)"

definition freenect_get_current_depth_mode ::
  "('u, 'x) cam_env_scheme \<Rightarrow> 'u freenect_device \<Rightarrow> depth_format frame_mode" where
  "freenect_get_current_depth_mode env dev =
     freenect_find_depth_mode (env_depth_retval env) (fd_depth_resolution dev) (fd_depth_format dev)"

definition video_convert :: "('u, 'x) cam_env_scheme \<Rightarrow> 'u freenect_device \<Rightarrow> heap \<Rightarrow> heap option" where
  "video_convert env dev h =
     (let raw = ps_raw_buf (fd_video dev); proc = ps_proc_buf (fd_video dev);
          mode = freenect_get_current_video_mode env dev;
          w = nat (fm_width mode); hh = nat (fm_height mode)
      in case fd_video_format dev of
           VIDEO_RGB \<Rightarrow>
             Option.bind (blocks h raw) (\<lambda>b. Option.bind (convert_bayer_to_rgb b w hh)
               (\<lambda>xs. mem_write proc 0 xs h))
         | VIDEO_IR_10BIT \<Rightarrow>
             Option.bind (blocks h raw) (\<lambda>b. Option.bind (convert_packed_to_16bit b 10 (w * hh))
               (\<lambda>xs. mem_write proc 0 (u16s_bytes xs) h))
         | VIDEO_IR_8BIT \<Rightarrow>
             Option.bind (blocks h raw) (\<lambda>b. Option.bind (convert_packed_to_8bit b 10 (w * hh))
               (\<lambda>xs. mem_write proc 0 xs h))
         | VIDEO_YUV_RGB \<Rightarrow>
             Option.bind (blocks h raw) (\<lambda>b. Option.bind (blocks h proc) (\<lambda>p.
               Option.bind (convert_uyvy_to_rgb b w hh p) (\<lambda>xs. mem_write proc 0 xs h)))
         | _ \<Rightarrow> Some h)"

definition video_process :: "('u, 'x) cam_env_scheme \<Rightarrow> bytes \<Rightarrow> 'u cam_state \<Rightarrow> 'u cam_state option" where
  "video_process env pkt st =
     (let (dev, h) = st
      in if pkt = [] then Some st
         else if \<not> ps_running (fd_video dev) then Some st
         else
           (case stream_process h (fd_video dev) pkt (fd_video_chunk_cb dev) of None \<Rightarrow> None
            | Some (got_frame_size, s, h1) \<Rightarrow>
                (let dev1 = dev\<lparr>fd_video := s\<rparr>
                 in if got_frame_size = 0 then Some (dev1, h1)
                    else
                      (case video_convert env dev1 h1 of None \<Rightarrow> None
                       | Some h2 \<Rightarrow>
                           Some (if fd_video_cb dev1
                                 then dev1\<lparr>fd_frames := fd_frames dev1 @ [Video_Frame (ps_proc_buf s) (ps_timestamp s)]\<rparr>
                                 else dev1, h2)))))"

section \<open>Calibration data\<close>

text \<open>The five words of an \<open>OPCODE_ALGORITHM_PARAMS\<close> command for the current video mode.\<close>

definition param_cmd :: "('u, 'x) cam_env_scheme \<Rightarrow> u16 \<Rightarrow> 'u freenect_device \<Rightarrow> bytes" where
  "param_cmd env param dev =
     (let mode = freenect_get_current_video_mode env dev
      in bytes16 param @ bytes16 0 @ bytes16 (ucast (res_code (fm_resolution mode)))
         @ bytes16 (word_of_int (fm_framerate mode)) @ bytes16 0)"

definition freenect_fetch_reg_info ::
  "('u, 'x) cam_env_scheme \<Rightarrow> 'u freenect_device \<Rightarrow> (int \<times> 'u freenect_device) option" where
  "freenect_fetch_reg_info env dev =
     (case send_cmd env 0x16 (param_cmd env 0x40 dev) 118 dev of None \<Rightarrow> None
      | Some (res, reply, dev1) \<Rightarrow>
          (if res \<noteq> 118 then Some (-1, dev1)
           else Some (0, dev1\<lparr>fd_registration := (fd_registration dev1)
                                \<lparr>rg_info := read_reg_info (drop 2 reply)\<rparr>\<rparr>)))"

definition freenect_fetch_reg_pad_info ::
  "('u, 'x) cam_env_scheme \<Rightarrow> 'u freenect_device \<Rightarrow> (int \<times> 'u freenect_device) option" where
  "freenect_fetch_reg_pad_info env dev =
     (case send_cmd env 0x16 (param_cmd env 0x41 dev) 8 dev of None \<Rightarrow> None
      | Some (res, reply, dev1) \<Rightarrow>
          (if res \<noteq> 8 then Some (-1, dev1)
           else Some (0, dev1\<lparr>fd_registration := (fd_registration dev1)
                  \<lparr>rg_pad := \<lparr>rp_start_lines = le16 (reply ! 2) (reply ! 3),
                             rp_end_lines = le16 (reply ! 4) (reply ! 5),
                             rp_cropping_lines = le16 (reply ! 6) (reply ! 7)\<rparr>\<rparr>\<rparr>)))"

definition freenect_fetch_reg_const_shift ::
  "('u, 'x) cam_env_scheme \<Rightarrow> 'u freenect_device \<Rightarrow> (int \<times> 'u freenect_device) option" where
  "freenect_fetch_reg_const_shift env dev =
     (case send_cmd env 0x16 (param_cmd env 0x00 dev) 4 dev of None \<Rightarrow> None
      | Some (res, reply, dev1) \<Rightarrow>
          (if res \<noteq> 4 then Some (-1, dev1)
           else Some (0, dev1\<lparr>fd_registration := (fd_registration dev1)
                                \<lparr>rg_const_shift := le16 (reply ! 2) (reply ! 3)\<rparr>\<rparr>)))"

text \<open>The four floats are at offset 94; the second is then replaced by \<open>2.4f\<close>.\<close>

definition freenect_fetch_zero_plane_info ::
  "('u, 'x) cam_env_scheme \<Rightarrow> 'u freenect_device \<Rightarrow> (int \<times> 'u freenect_device) option" where
  "freenect_fetch_zero_plane_info env dev =
     (case send_cmd env 0x04 (replicate 10 0) (fd_zero_plane_res dev) dev of None \<Rightarrow> None
      | Some (res, reply, dev1) \<Rightarrow>
          (if res \<noteq> int (fd_zero_plane_res dev) then Some (-1, dev1)
           else
             (case get_bytes 94 16 reply of None \<Rightarrow> None
              | Some z \<Rightarrow>
                  Some (0, dev1\<lparr>fd_registration := (fd_registration dev1)
                    \<lparr>rg_zero_plane := \<lparr>zp_dcmos_emitter_dist = rd32 z 0, zp_dcmos_rcmos_dist = 0x4019999A,
                       zp_reference_distance = rd32 z 2, zp_reference_pixel_size = rd32 z 3\<rparr>\<rparr>\<rparr>))))"

section \<open>Modes and buffers\<close>

definition freenect_set_video_mode ::
  "('u, 'x) cam_env_scheme \<Rightarrow> video_format frame_mode \<Rightarrow> 'u freenect_device \<Rightarrow> (int \<times> 'u freenect_device) option" where
  "freenect_set_video_mode env mode dev =
     (if ps_running (fd_video dev) then Some (-1, dev)
      else if find_reserved (fm_reserved mode) supported_video_modes = None then Some (-1, dev)
      else
        (let res = RESERVED_TO_RESOLUTION (fm_reserved mode);
             fmt = video_of (RESERVED_TO_FORMAT (fm_reserved mode));
             dev1 = dev\<lparr>fd_video_format := fmt, fd_video_resolution := res\<rparr>
         in map_option (\<lambda>(r, dev2). (0, dev2)) (freenect_fetch_reg_info env dev1)))"

definition freenect_set_depth_mode ::
  "depth_format frame_mode \<Rightarrow> 'u freenect_device \<Rightarrow> int \<times> 'u freenect_device" where
  "freenect_set_depth_mode mode dev =
     (if ps_running (fd_depth dev) then (-1, dev)
      else if find_reserved (fm_reserved mode) supported_depth_modes = None then (-1, dev)
      else (0, dev\<lparr>fd_depth_format := depth_of (RESERVED_TO_FORMAT (fm_reserved mode)),
                   fd_depth_resolution := RESERVED_TO_RESOLUTION (fm_reserved mode)\<rparr>))"

definition freenect_set_depth_buffer :: "ptr \<Rightarrow> 'u freenect_device \<Rightarrow> int \<times> 'u freenect_device" where
  "freenect_set_depth_buffer buf dev =
     (let (r, s) = stream_setbuf (fd_depth dev) buf in (r, dev\<lparr>fd_depth := s\<rparr>))"

definition freenect_set_video_buffer :: "ptr \<Rightarrow> 'u freenect_device \<Rightarrow> int \<times> 'u freenect_device" where
  "freenect_set_video_buffer buf dev =
     (let (r, s) = stream_setbuf (fd_video dev) buf in (r, dev\<lparr>fd_video := s\<rparr>))"

section \<open>Starting the streams\<close>

definition depth_bytes :: "('u, 'x) cam_env_scheme \<Rightarrow> 'u freenect_device \<Rightarrow> depth_format \<Rightarrow> int" where
  "depth_bytes env dev fmt = fm_bytes (freenect_find_depth_mode (env_depth_retval env) (fd_depth_resolution dev) fmt)"

definition video_bytes :: "('u, 'x) cam_env_scheme \<Rightarrow> 'u freenect_device \<Rightarrow> video_format \<Rightarrow> int" where
  "video_bytes env dev fmt = fm_bytes (freenect_find_video_mode (env_video_retval env) (fd_video_resolution dev) fmt)"

text \<open>The first \<open>switch\<close> of \<open>freenect_start_depth\<close>: \<open>Some None\<close> is its error return.\<close>

definition start_depth_stream ::
  "('u, 'x) cam_env_scheme \<Rightarrow> 'u cam_state \<Rightarrow> 'u cam_state option option" where
  "start_depth_stream env st =
     (let (dev, h) = st; fmt = fd_depth_format dev;
          init = (\<lambda>dev rlen plen. let (s, h') = stream_init h (fd_depth dev) rlen plen
                                  in Some (Some (dev\<lparr>fd_depth := s\<rparr>, h')))
      in case fmt of
           DEPTH_REGISTERED \<Rightarrow>
             (case freenect_init_registration (env_fp env) (fd_registration dev) of None \<Rightarrow> None
              | Some reg \<Rightarrow> init (dev\<lparr>fd_registration := reg\<rparr>)
                  (depth_bytes env dev DEPTH_11BIT_PACKED) (depth_bytes env dev DEPTH_11BIT))
         | DEPTH_MM \<Rightarrow>
             (case freenect_init_registration (env_fp env) (fd_registration dev) of None \<Rightarrow> None
              | Some reg \<Rightarrow> init (dev\<lparr>fd_registration := reg\<rparr>)
                  (depth_bytes env dev DEPTH_11BIT_PACKED) (depth_bytes env dev DEPTH_11BIT))
         | DEPTH_11BIT \<Rightarrow> init dev (depth_bytes env dev DEPTH_11BIT_PACKED) (depth_bytes env dev DEPTH_11BIT)
         | DEPTH_10BIT \<Rightarrow> init dev (depth_bytes env dev DEPTH_10BIT_PACKED) (depth_bytes env dev DEPTH_10BIT)
         | DEPTH_11BIT_PACKED \<Rightarrow> init dev 0 (depth_bytes env dev fmt)
         | DEPTH_10BIT_PACKED \<Rightarrow> init dev 0 (depth_bytes env dev fmt)
         | DEPTH_DUMMY \<Rightarrow> Some None)"

text \<open>The register writes that make the camera send depth frames.\<close>

definition depth_start_regs :: "depth_format \<Rightarrow> (u16 \<times> u16) list" where
  "depth_start_regs fmt =
     [(0x105, 0x00), (0x06, 0x00)] @
     (case fmt of
        DEPTH_11BIT \<Rightarrow> [(0x12, 0x03)] | DEPTH_11BIT_PACKED \<Rightarrow> [(0x12, 0x03)]
      | DEPTH_REGISTERED \<Rightarrow> [(0x12, 0x03)] | DEPTH_MM \<Rightarrow> [(0x12, 0x03)]
      | DEPTH_10BIT \<Rightarrow> [(0x12, 0x02)] | DEPTH_10BIT_PACKED \<Rightarrow> [(0x12, 0x02)]
      | DEPTH_DUMMY \<Rightarrow> []) @
     [(0x13, 0x01), (0x14, 0x1e), (0x06, 0x02), (0x17, 0x00)]"

definition freenect_start_depth ::
  "('u, 'x) cam_env_scheme \<Rightarrow> 'u cam_state \<Rightarrow> (int \<times> 'u cam_state) option" where
  "freenect_start_depth env st =
     (let (dev, h) = st
      in if ps_running (fd_depth dev) then Some (-1, st)
         else
           (let dev1 = dev\<lparr>fd_depth := (fd_depth dev)
                  \<lparr>ps_pkt_size := DEPTH_PKTDSIZE, ps_flag := 0x70, ps_variable_length := False\<rparr>\<rparr>
            in case start_depth_stream env (dev1, h) of None \<Rightarrow> None
               | Some None \<Rightarrow> Some (-1, (dev1, h))
               | Some (Some (dev2, h2)) \<Rightarrow>
                   (let packet_size = fnusb_get_max_iso_packet_size (env_max_iso env) DEPTH_PKTBUF;
                        (res, istrm) = fnusb_start_iso (env_alloc env) (env_submit env)
                          NUM_XFERS PKTS_PER_XFER packet_size (fd_depth_isoc dev2);
                        dev3 = dev2\<lparr>fd_depth_isoc := istrm\<rparr>
                    in if res < 0 then Some (res, (dev3, h2))
                       else
                         (case write_registers env (depth_start_regs (fd_depth_format dev3)) dev3 of None \<Rightarrow> None
                          | Some dev4 \<Rightarrow>
                              Some (0, (dev4\<lparr>fd_depth := (fd_depth dev4)\<lparr>ps_running := True\<rparr>\<rparr>, h2))))))"

text \<open>The first \<open>switch\<close> of \<open>freenect_start_video\<close>: mode, resolution and frame rate register
  with their values and the flip register; \<open>None\<close> is an unsupported combination.\<close>

definition video_regs :: "video_format \<Rightarrow> resolution \<Rightarrow> ((u16 \<times> u16) list \<times> u16) option" where
  "video_regs fmt res =
     (let medium = res = RESOLUTION_MEDIUM; high = res = RESOLUTION_HIGH
      in if fmt = VIDEO_RGB \<or> fmt = VIDEO_BAYER then
           (if high then Some ([(0x0c, 0x00), (0x0d, 0x02), (0x0e, 0x0f)], 0x47)
            else if medium then Some ([(0x0c, 0x00), (0x0d, 0x01), (0x0e, 0x1e)], 0x47)
            else None)
         else if fmt = VIDEO_IR_8BIT \<or> fmt = VIDEO_IR_10BIT \<or> fmt = VIDEO_IR_10BIT_PACKED then
           (if high then Some ([(0x19, 0x00), (0x1a, 0x02), (0x1b, 0x0f)], 0x48)
            else if medium then Some ([(0x19, 0x00), (0x1a, 0x01), (0x1b, 0x1e)], 0x48)
            else None)
         else if fmt = VIDEO_YUV_RGB \<or> fmt = VIDEO_YUV_RAW then
           (if medium then Some ([(0x0c, 0x05), (0x0d, 0x01), (0x0e, 0x0f)], 0x47) else None)
         else None)"

text \<open>The workaround for high-resolution infrared: start and stop the depth camera.\<close>

definition is_ir_high :: "video_format \<Rightarrow> resolution \<Rightarrow> bool" where
  "is_ir_high fmt res \<longleftrightarrow>
     (fmt = VIDEO_IR_8BIT \<or> fmt = VIDEO_IR_10BIT \<or> fmt = VIDEO_IR_10BIT_PACKED) \<and> res = RESOLUTION_HIGH"

definition ir_high_regs :: "(u16 \<times> u16) list" where
  "ir_high_regs = [(0x13, 0x01), (0x14, 0x1e), (0x06, 0x02), (0x06, 0x00)]"

definition start_video_stream :: "('u, 'x) cam_env_scheme \<Rightarrow> 'u cam_state \<Rightarrow> 'u cam_state" where
  "start_video_stream env st =
     (let (dev, h) = st; plen = fm_bytes (freenect_get_current_video_mode env dev);
          init = (\<lambda>rlen. let (s, h') = stream_init h (fd_video dev) rlen plen in (dev\<lparr>fd_video := s\<rparr>, h'))
      in case fd_video_format dev of
           VIDEO_RGB \<Rightarrow> init (video_bytes env dev VIDEO_BAYER)
         | VIDEO_BAYER \<Rightarrow> init 0
         | VIDEO_IR_8BIT \<Rightarrow> init (video_bytes env dev VIDEO_IR_10BIT_PACKED)
         | VIDEO_IR_10BIT \<Rightarrow> init (video_bytes env dev VIDEO_IR_10BIT_PACKED)
         | VIDEO_IR_10BIT_PACKED \<Rightarrow> init 0
         | VIDEO_YUV_RGB \<Rightarrow> init (video_bytes env dev VIDEO_YUV_RAW)
         | VIDEO_YUV_RAW \<Rightarrow> init 0
         | VIDEO_DUMMY \<Rightarrow> st)"

definition video_start_regs :: "video_format \<Rightarrow> (u16 \<times> u16) list" where
  "video_start_regs fmt =
     (if fmt = VIDEO_RGB \<or> fmt = VIDEO_BAYER \<or> fmt = VIDEO_YUV_RGB \<or> fmt = VIDEO_YUV_RAW then [(0x05, 0x01)]
      else if fmt = VIDEO_IR_8BIT \<or> fmt = VIDEO_IR_10BIT \<or> fmt = VIDEO_IR_10BIT_PACKED
      then [(0x105, 0x00), (0x05, 0x03)]
      else [])"

definition freenect_start_video ::
  "('u, 'x) cam_env_scheme \<Rightarrow> 'u cam_state \<Rightarrow> (int \<times> 'u cam_state) option" where
  "freenect_start_video env st =
     (let (dev, h) = st; fmt = fd_video_format dev; res = fd_video_resolution dev
      in if ps_running (fd_video dev) then Some (-1, st)
         else
           (let dev1 = dev\<lparr>fd_video := (fd_video dev)
                  \<lparr>ps_pkt_size := VIDEO_PKTDSIZE, ps_flag := 0x80, ps_variable_length := False\<rparr>\<rparr>
            in if is_ir_high fmt res \<and> ps_running (fd_depth dev1) then Some (-1, (dev1, h))
               else
                 (case video_regs fmt res of
                    None \<Rightarrow> Some (-1, (dev1, h))
                  | Some (regs, hflip_reg) \<Rightarrow>
                      (case write_registers env (if is_ir_high fmt res then ir_high_regs else []) dev1 of
                         None \<Rightarrow> None
                       | Some dev2 \<Rightarrow>
                           (let (dev3, h3) = start_video_stream env (dev2, h);
                                packet_size = fnusb_get_max_iso_packet_size (env_max_iso env) VIDEO_PKTBUF;
                                (r, istrm) = fnusb_start_iso (env_alloc env) (env_submit env)
                                  NUM_XFERS PKTS_PER_XFER packet_size (fd_video_isoc dev3);
                                dev4 = dev3\<lparr>fd_video_isoc := istrm\<rparr>
                            in if r < 0 then Some (r, (dev4, h3))
                               else
                                 (case write_registers env
                                     (regs @ video_start_regs fmt @ [(hflip_reg, 0x00)]) dev4 of
                                    None \<Rightarrow> None
                                  | Some dev5 \<Rightarrow>
                                      Some (0, (dev5\<lparr>fd_video := (fd_video dev5)\<lparr>ps_running := True\<rparr>\<rparr>, h3))))))))"

section \<open>Stopping, initialisation and teardown\<close>

definition freenect_stop_depth ::
  "('u, 'x) cam_env_scheme \<Rightarrow> 'u cam_state \<Rightarrow> (int \<times> 'u cam_state) option" where
  "freenect_stop_depth env st =
     (let (dev, h) = st
      in if \<not> ps_running (fd_depth dev) then Some (-1, st)
         else
           (case write_registers env [(0x06, 0x00)]
                   (dev\<lparr>fd_depth := (fd_depth dev)\<lparr>ps_running := False\<rparr>\<rparr>) of None \<Rightarrow> None
            | Some dev1 \<Rightarrow>
                (case fnusb_stop_iso no_client (env_completions env) (fd_depth_isoc dev1) of None \<Rightarrow> None
                 | Some (res, istrm) \<Rightarrow>
                     (let dev2 = dev1\<lparr>fd_depth_isoc := istrm\<rparr>
                      in if res < 0 then Some (res, (dev2, h))
                         else
                           (case stream_freebufs h (fd_depth dev2) of None \<Rightarrow> None
                            | Some (s, h') \<Rightarrow>
                                Some (0, (dev2\<lparr>fd_registration := freenect_destroy_registration (fd_registration dev2),
                                               fd_depth := s\<rparr>, h')))))))"

definition freenect_stop_video ::
  "('u, 'x) cam_env_scheme \<Rightarrow> 'u cam_state \<Rightarrow> (int \<times> 'u cam_state) option" where
  "freenect_stop_video env st =
     (let (dev, h) = st
      in if \<not> ps_running (fd_video dev) then Some (-1, st)
         else
           (case write_registers env [(0x05, 0x00)]
                   (dev\<lparr>fd_video := (fd_video dev)\<lparr>ps_running := False\<rparr>\<rparr>) of None \<Rightarrow> None
            | Some dev1 \<Rightarrow>
                (case fnusb_stop_iso no_client (env_completions env) (fd_video_isoc dev1) of None \<Rightarrow> None
                 | Some (res, istrm) \<Rightarrow>
                     (let dev2 = dev1\<lparr>fd_video_isoc := istrm\<rparr>
                      in if res < 0 then Some (res, (dev2, h))
                         else
                           (case stream_freebufs h (fd_video dev2) of None \<Rightarrow> None
                            | Some (s, h') \<Rightarrow> Some (0, (dev2\<lparr>fd_video := s\<rparr>, h')))))))"

definition freenect_camera_init ::
  "('u, 'x) cam_env_scheme \<Rightarrow> 'u freenect_device \<Rightarrow> (int \<times> 'u freenect_device) option" where
  "freenect_camera_init env dev =
     (case freenect_fetch_reg_pad_info env dev of None \<Rightarrow> None
      | Some (res, dev1) \<Rightarrow>
          if res < 0 then Some (res, dev1)
          else
            (case freenect_fetch_zero_plane_info env dev1 of None \<Rightarrow> None
             | Some (res, dev2) \<Rightarrow>
                 if res < 0 then Some (res, dev2)
                 else
                   (case freenect_set_video_mode env
                       (freenect_find_video_mode (env_video_retval env) RESOLUTION_MEDIUM VIDEO_RGB) dev2 of None \<Rightarrow> None
                    | Some (_, dev3) \<Rightarrow>
                        (case freenect_set_depth_mode
                            (freenect_find_depth_mode (env_depth_retval env) RESOLUTION_MEDIUM DEPTH_11BIT) dev3 of
                           (_, dev4) \<Rightarrow>
                             (case freenect_fetch_reg_const_shift env dev4 of None \<Rightarrow> None
                              | Some (res, dev5) \<Rightarrow> if res < 0 then Some (res, dev5) else Some (0, dev5))))))"

definition freenect_camera_teardown ::
  "('u, 'x) cam_env_scheme \<Rightarrow> 'u cam_state \<Rightarrow> (int \<times> 'u cam_state) option" where
  "freenect_camera_teardown env st =
     (let (dev, h) = st
      in if ps_running (fd_depth dev) then freenect_stop_depth env st
         else if ps_running (fd_video dev) then freenect_stop_video env st
         else Some (0, (dev\<lparr>fd_registration := freenect_destroy_registration (fd_registration dev)\<rparr>, h)))"

end
