(* ===== verification/CameraProofs.thy ===== *)
theory CameraProofs
  imports Cameras
begin

text \<open>
  Correctness of the camera operations: the packet handlers never leave the stream's buffers,
  a depth session releases what it allocated, the mode operations agree with the tables, the
  calibration commands store what the camera sends, and the corner cases found on the way.
\<close>

section \<open>Buffers\<close>

definition block_at_least :: "heap \<Rightarrow> ptr \<Rightarrow> nat \<Rightarrow> bool" where
  "block_at_least h p n \<longleftrightarrow> (\<exists>m. block_size h p = Some m \<and> n \<le> m)"

lemma block_at_leastD: "block_at_least h p n \<Longrightarrow> \<exists>b. blocks h p = Some b \<and> n \<le> length b"
  by (auto simp: block_at_least_def block_size_def)

lemma block_at_least_cong: "block_size h' = block_size h \<Longrightarrow> block_at_least h' p n = block_at_least h p n"
  by (simp add: block_at_least_def)

lemma mem_write_fits:
  "block_at_least h p n \<Longrightarrow> length xs \<le> n \<Longrightarrow> \<exists>h'. mem_write p 0 xs h = Some h' \<and> block_size h' = block_size h"
  unfolding block_at_least_def
  using mem_write_ok [of h p _ 0 xs] mem_write_block_size [of p 0 xs h] by fastforce

lemma mem_write_dom: "mem_write p off xs h = Some h' \<Longrightarrow> dom (blocks h') = dom (blocks h)"
  by (auto simp: mem_write_def store_def split: option.splits if_splits)

lemma length_u16s_bytes [simp]: "length (u16s_bytes xs) = 2 * length xs"
  by (induction xs) (simp_all add: u16s_bytes_def)

lemma length_bytes_u16s [simp]: "length (bytes_u16s b) = length b div 2"
  by (induction b rule: bytes_u16s.induct) auto

lemma bytes_u16s_u16s [simp]: "bytes_u16s (u16s_bytes xs) = xs"
  by (induction xs) (simp_all add: u16s_bytes_def bytes16_def wire_simps)

text \<open>A chunk callback that keeps the size of the raw buffer.\<close>

definition chunk_ok :: "chunk_cb option \<Rightarrow> bool" where
  "chunk_ok cb \<longleftrightarrow> (\<forall>f buf x i k. cb = Some f \<longrightarrow> length (f buf x i k) = length buf)"

lemma stream_process_sizes:
  assumes "stream_ok h s" "chunk_ok cb"
  shows "\<exists>r s' h'. stream_process h s pkt cb = Some (r, s', h') \<and> stream_ok h' s'
    \<and> block_size h' = block_size h \<and> stream_conf s' = stream_conf s"
proof -
  obtain r s' h' where p: "stream_process h s pkt cb = Some (r, s', h')" "stream_ok h' s'" "block_size h' = block_size h"
    using stream_process_ok [OF assms(1)] assms(2) unfolding chunk_ok_def by metis
  with stream_process_conf [OF p(1)] show ?thesis by blast
qed

lemma stream_init_blocks:
  assumes "heap_wf h" "0 \<le> rlen" "0 < plen"
    and "ps_usr_buf s \<noteq> NULL \<Longrightarrow> \<exists>n. block_size h (ps_usr_buf s) = Some n \<and> plen \<le> int n"
    and "stream_init h s rlen plen = (s', h')"
  shows "block_at_least h' (ps_raw_buf s') (nat (if rlen = 0 then plen else rlen))"
    and "block_at_least h' (ps_proc_buf s') (nat plen)"
proof -
  let ?s = "s\<lparr>ps_valid_frames := 0, ps_synced := False\<rparr>"
  obtain s1 where b: "stream_init_bufs h ?s rlen plen = (s1, h')" and s': "s' = stream_init_pkts s1"
    using assms(5) by (auto simp: stream_init_def split: prod.splits)
  have usr: "ps_usr_buf ?s \<noteq> NULL \<Longrightarrow> \<exists>n. block_size h (ps_usr_buf ?s) = Some n \<and> plen \<le> int n"
    using assms(4) by simp
  note B = stream_init_bufs_blocks(2,3) [OF assms(1-3) usr b]
  have "ps_raw_buf s' = ps_raw_buf s1" "ps_proc_buf s' = ps_proc_buf s1"
    by (simp_all add: s' stream_init_pkts_def Let_def)
  moreover have "ps_frame_size s1 = (if rlen = 0 then plen else rlen)"
    using stream_init_bufs_fields [OF b] by simp
  ultimately show "block_at_least h' (ps_raw_buf s') (nat (if rlen = 0 then plen else rlen))"
    "block_at_least h' (ps_proc_buf s') (nat plen)"
    using B by (auto simp: block_at_least_def)
qed

section \<open>The depth handler\<close>

text \<open>Sizes of the raw and of the processed buffer each depth format needs.\<close>

fun depth_needs :: "depth_format \<Rightarrow> nat \<times> nat" where
  "depth_needs DEPTH_11BIT = (422400, 614400)"
| "depth_needs DEPTH_REGISTERED = (422400, 614400)"
| "depth_needs DEPTH_MM = (422400, 614400)"
| "depth_needs DEPTH_10BIT = (384000, 614400)"
| "depth_needs _ = (0, 0)"

text \<open>The tables each depth format needs: all three to register, the depths alone for millimetres.\<close>

definition depth_tables_ok :: "depth_format \<Rightarrow> registration \<Rightarrow> bool" where
  "depth_tables_ok fmt reg \<longleftrightarrow>
     (fmt = DEPTH_REGISTERED \<longrightarrow> reg_ready reg \<and> rp_start_lines (rg_pad reg) = 0)
     \<and> (fmt = DEPTH_MM \<longrightarrow> (\<exists>tab. rg_raw_to_mm reg = Some tab \<and> length tab = 2048))"

definition depth_inv :: "'u cam_state \<Rightarrow> bool" where
  "depth_inv st \<longleftrightarrow>
     (let (dev, h) = st; s = fd_depth dev; fmt = fd_depth_format dev
      in stream_ok h s \<and> chunk_ok (fd_depth_chunk_cb dev)
         \<and> block_at_least h (ps_raw_buf s) (fst (depth_needs fmt))
         \<and> block_at_least h (ps_proc_buf s) (snd (depth_needs fmt))
         \<and> depth_tables_ok fmt (fd_registration dev))"

lemma depth_convert_ok:
  assumes "depth_inv (dev, h)"
  shows "\<exists>h'. depth_convert dev h = Some h' \<and> block_size h' = block_size h"
proof -
  let ?raw = "ps_raw_buf (fd_depth dev)" and ?proc = "ps_proc_buf (fd_depth dev)"
  let ?reg = "fd_registration dev"
  have bufs: "block_at_least h ?raw (fst (depth_needs (fd_depth_format dev)))"
    "block_at_least h ?proc (snd (depth_needs (fd_depth_format dev)))"
    using assms by (simp_all add: depth_inv_def Let_def)
  obtain b p where b: "blocks h ?raw = Some b" "fst (depth_needs (fd_depth_format dev)) \<le> length b"
    and p: "blocks h ?proc = Some p" "snd (depth_needs (fd_depth_format dev)) \<le> length p"
    using bufs by (meson block_at_leastD)
  have own: "block_at_least h ?proc (length p)"
    using p(1) by (simp add: block_at_least_def block_size_def)
  have put: "\<exists>h'. mem_write ?proc 0 (u16s_bytes xs) h = Some h' \<and> block_size h' = block_size h"
    if "2 * length xs \<le> length p" for xs
    using mem_write_fits [OF own, of "u16s_bytes xs"] that by simp
  show ?thesis
  proof (cases "fd_depth_format dev")
    case DEPTH_11BIT
    then have "11 * (640 * 480) \<le> 8 * length b" "2 * (640 * 480) \<le> length p" using b p by simp_all
    with convert_packed11_ok [of "640 * 480" b] obtain out where
      "convert_packed11_to_16bit b (640 * 480) = Some out" "length out = 640 * 480" by auto
    then show ?thesis using DEPTH_11BIT b p put [of out] by (simp add: depth_convert_def Let_def)
  next
    case DEPTH_10BIT
    then have "(0 + 640 * 480) * 10 \<le> 8 * length b" "2 * (640 * 480) \<le> length p" using b p by simp_all
    with unpack16_loop_ok [OF fill_inv_start, where n = "640 * 480" and vw = 10 and orig = b] obtain out where
      "convert_packed_to_16bit b 10 (640 * 480) = Some out" "length out = 640 * 480"
      by (auto simp: convert_packed_to_16bit_def)
    then show ?thesis using DEPTH_10BIT b p put [of out] by (simp add: depth_convert_def Let_def)
  next
    case DEPTH_REGISTERED
    then have r: "reg_ready ?reg" "rp_start_lines (rg_pad ?reg) = 0" "422400 \<le> length b"
      "depth_pixels \<le> length (bytes_u16s p)"
      using assms b p by (simp_all add: depth_inv_def depth_tables_ok_def Let_def depth_pixels_eq)
    then obtain out where "freenect_apply_registration ?reg b (bytes_u16s p) = Some out"
      "length out = length (bytes_u16s p)" using apply_registration_ok by blast
    then show ?thesis using DEPTH_REGISTERED b p put [of out] by (simp add: depth_convert_def Let_def)
  next
    case DEPTH_MM
    then have r: "422400 \<le> length b" "depth_pixels \<le> length (bytes_u16s p)"
      using b p by (simp_all add: depth_pixels_eq)
    obtain tab where "rg_raw_to_mm ?reg = Some tab" "length tab = 2048"
      using assms DEPTH_MM by (auto simp: depth_inv_def depth_tables_ok_def Let_def)
    then obtain out where "freenect_apply_depth_to_mm ?reg b (bytes_u16s p) = Some out"
      "length out = length (bytes_u16s p)" using apply_depth_to_mm_ok r by blast
    then show ?thesis using DEPTH_MM b p put [of out] by (simp add: depth_convert_def Let_def)
  qed (simp_all add: depth_convert_def Let_def)
qed

lemma depth_inv_frame:
  assumes "depth_inv (dev, h)" "block_size h' = block_size h"
  shows "depth_inv (dev\<lparr>fd_frames := fs\<rparr>, h')" "depth_inv (dev, h')"
  using assms by (simp_all add: depth_inv_def Let_def stream_ok_def block_at_least_def)

lemma depth_inv_stream:
  assumes "depth_inv (dev, h)" "stream_ok h' s" "block_size h' = block_size h"
    "stream_conf s = stream_conf (fd_depth dev)"
  shows "depth_inv (dev\<lparr>fd_depth := s\<rparr>, h')"
  using assms stream_conf_simps [OF assms(4)]
  by (simp add: depth_inv_def Let_def block_at_least_def)

lemma depth_process_ok:
  assumes "depth_inv st"
  shows "\<exists>st'. depth_process pkt st = Some st' \<and> depth_inv st'"
proof -
  obtain dev h where st: "st = (dev, h)" by (cases st)
  have ok: "stream_ok h (fd_depth dev)" "chunk_ok (fd_depth_chunk_cb dev)"
    using assms by (simp_all add: st depth_inv_def Let_def)
  obtain r s h1 where p: "stream_process h (fd_depth dev) pkt (fd_depth_chunk_cb dev) = Some (r, s, h1)"
    "stream_ok h1 s" "block_size h1 = block_size h" "stream_conf s = stream_conf (fd_depth dev)"
    using stream_process_sizes [OF ok] by blast
  have inv1: "depth_inv (dev\<lparr>fd_depth := s\<rparr>, h1)"
    using depth_inv_stream [OF assms [unfolded st] p(2-4)] .
  obtain h2 where h2: "depth_convert (dev\<lparr>fd_depth := s\<rparr>) h1 = Some h2" "block_size h2 = block_size h1"
    using depth_convert_ok [OF inv1] by blast
  show ?thesis
    using depth_inv_frame [OF inv1 h2(2)] depth_inv_frame [OF inv1 refl] assms
    by (simp add: depth_process_def st p(1) h2(1) Let_def)
qed

interpretation depth_sink: packet_sink depth_process depth_inv
  by unfold_locales (rule depth_process_ok)

section \<open>The video handler\<close>

text \<open>Sizes of the raw and of the processed buffer each video format needs, for a frame of
  \<open>w\<close> by \<open>hh\<close> pixels.\<close>

fun video_needs :: "video_format \<Rightarrow> nat \<Rightarrow> nat \<Rightarrow> nat \<times> nat" where
  "video_needs VIDEO_RGB w hh = (w * hh, 3 * w * hh)"
| "video_needs VIDEO_IR_10BIT w hh = (w * hh * 10 div 8, 2 * (w * hh))"
| "video_needs VIDEO_IR_8BIT w hh = (w * hh * 10 div 8, w * hh)"
| "video_needs VIDEO_YUV_RGB w hh = (2 * w * hh, 3 * w * hh)"
| "video_needs _ w hh = (0, 0)"

definition video_dims_ok :: "nat \<Rightarrow> nat \<Rightarrow> bool" where
  "video_dims_ok w hh \<longleftrightarrow> 2 \<le> w \<and> 3 \<le> hh \<and> even w \<and> 8 dvd w * hh * 10"

definition video_inv :: "('u, 'x) cam_env_scheme \<Rightarrow> 'u cam_state \<Rightarrow> bool" where
  "video_inv env st \<longleftrightarrow>
     (let (dev, h) = st; s = fd_video dev; fmt = fd_video_format dev;
          mode = freenect_get_current_video_mode env dev;
          w = nat (fm_width mode); hh = nat (fm_height mode)
      in stream_ok h s \<and> chunk_ok (fd_video_chunk_cb dev) \<and> video_dims_ok w hh
         \<and> block_at_least h (ps_raw_buf s) (fst (video_needs fmt w hh))
         \<and> block_at_least h (ps_proc_buf s) (snd (video_needs fmt w hh)))"

lemma bayer_frame_ok:
  assumes "video_dims_ok w hh" "w * hh \<le> length b"
  shows "\<exists>out. convert_bayer_to_rgb b w hh = Some out \<and> length out = 3 * w * hh"
proof -
  have row: "length (concat (map (\<lambda>x. bayer_pixel b w hh x y) [0..<w])) = 3 * w" for y
  proof -
    have "length (bayer_pixel b w hh x y) = 3" for x by (simp add: bayer_pixel_def)
    then show ?thesis by (simp add: length_concat comp_def sum_list_triv)
  qed
  have "convert_bayer_to_rgb b w hh
      = Some (concat (map (bayer_row b w hh) [0..<hh]))"
    using bayer_lines_ok [of w hh b 0 hh w 0] assms by (simp add: convert_bayer_to_rgb_def video_dims_ok_def)
  then show ?thesis using row
    by (simp add: length_concat comp_def bayer_row_def sum_list_triv)
qed

lemma video_convert_ok:
  assumes "video_inv env (dev, h)"
  shows "\<exists>h'. video_convert env dev h = Some h' \<and> block_size h' = block_size h"
proof -
  let ?raw = "ps_raw_buf (fd_video dev)" and ?proc = "ps_proc_buf (fd_video dev)"
  define mode where "mode = freenect_get_current_video_mode env dev"
  define w hh where "w = nat (fm_width mode)" and "hh = nat (fm_height mode)"
  have dims: "video_dims_ok w hh"
    and bufs: "block_at_least h ?raw (fst (video_needs (fd_video_format dev) w hh))"
      "block_at_least h ?proc (snd (video_needs (fd_video_format dev) w hh))"
    using assms by (simp_all add: video_inv_def Let_def w_def hh_def mode_def)
  obtain b p where b: "blocks h ?raw = Some b" "fst (video_needs (fd_video_format dev) w hh) \<le> length b"
    and p: "blocks h ?proc = Some p" "snd (video_needs (fd_video_format dev) w hh) \<le> length p"
    using bufs by (meson block_at_leastD)
  have own: "block_at_least h ?proc (length p)"
    using p(1) by (simp add: block_at_least_def block_size_def)
  note put = mem_write_fits [OF own]
  have conv: "video_convert env dev h =
     (case fd_video_format dev of
           VIDEO_RGB \<Rightarrow> Option.bind (convert_bayer_to_rgb b w hh) (\<lambda>xs. mem_write ?proc 0 xs h)
         | VIDEO_IR_10BIT \<Rightarrow> Option.bind (convert_packed_to_16bit b 10 (w * hh))
               (\<lambda>xs. mem_write ?proc 0 (u16s_bytes xs) h)
         | VIDEO_IR_8BIT \<Rightarrow> Option.bind (convert_packed_to_8bit b 10 (w * hh)) (\<lambda>xs. mem_write ?proc 0 xs h)
         | VIDEO_YUV_RGB \<Rightarrow> Option.bind (convert_uyvy_to_rgb b w hh p) (\<lambda>xs. mem_write ?proc 0 xs h)
         | _ \<Rightarrow> Some h)"
    using b(1) p(1)
    by (cases "fd_video_format dev") (simp_all add: video_convert_def Let_def w_def hh_def mode_def)
  have packed: "w * hh * 10 \<le> 8 * length b" if "w * hh * 10 div 8 \<le> length b"
    using that dims by (auto simp: video_dims_ok_def elim!: dvdE)
  show ?thesis
  proof (cases "fd_video_format dev")
    case VIDEO_RGB
    then obtain out where "convert_bayer_to_rgb b w hh = Some out" "length out = 3 * w * hh"
      using bayer_frame_ok [OF dims, of b] b(2) by auto
    then show ?thesis using VIDEO_RGB conv p put [of out] by simp
  next
    case VIDEO_IR_10BIT
    then have "(0 + w * hh) * 10 \<le> 8 * length b" using packed b(2) by simp
    with unpack16_loop_ok [OF fill_inv_start, where n = "w * hh" and vw = 10 and orig = b] obtain out where
      "convert_packed_to_16bit b 10 (w * hh) = Some out" "length out = w * hh"
      by (auto simp: convert_packed_to_16bit_def)
    then show ?thesis using VIDEO_IR_10BIT conv p put [of "u16s_bytes out"] by simp
  next
    case VIDEO_IR_8BIT
    then have "(0 + w * hh) * 10 \<le> 8 * length b" using packed b(2) by simp
    with unpack8_loop_ok [OF fill_inv_start, where n = "w * hh" and vw = 10 and orig = b] obtain out where
      "convert_packed_to_8bit b 10 (w * hh) = Some out" "length out = w * hh"
      by (auto simp: convert_packed_to_8bit_def)
    then show ?thesis using VIDEO_IR_8BIT conv p put [of out] by simp
  next
    case VIDEO_YUV_RGB
    then obtain out where "convert_uyvy_to_rgb b w hh p = Some out" "length out = length p"
      using uyvy_frame_ok [of w hh b p] b(2) p(2) dims by (auto simp: video_dims_ok_def uyvy_done_def)
    then show ?thesis using VIDEO_YUV_RGB conv put [of out] by simp
  qed (simp_all add: conv)
qed

lemma video_inv_frame:
  assumes "video_inv env (dev, h)" "block_size h' = block_size h"
  shows "video_inv env (dev\<lparr>fd_frames := fs\<rparr>, h')" "video_inv env (dev, h')"
  using assms by (simp_all add: video_inv_def Let_def stream_ok_def block_at_least_def
      freenect_get_current_video_mode_def)

lemma video_inv_stream:
  assumes "video_inv env (dev, h)" "stream_ok h' s" "block_size h' = block_size h"
    "stream_conf s = stream_conf (fd_video dev)"
  shows "video_inv env (dev\<lparr>fd_video := s\<rparr>, h')"
  using assms stream_conf_simps [OF assms(4)]
  by (simp add: video_inv_def Let_def block_at_least_def freenect_get_current_video_mode_def)

lemma video_process_ok:
  assumes "video_inv env st"
  shows "\<exists>st'. video_process env pkt st = Some st' \<and> video_inv env st'"
proof -
  obtain dev h where st: "st = (dev, h)" by (cases st)
  have ok: "stream_ok h (fd_video dev)" "chunk_ok (fd_video_chunk_cb dev)"
    using assms by (simp_all add: st video_inv_def Let_def)
  obtain r s h1 where p: "stream_process h (fd_video dev) pkt (fd_video_chunk_cb dev) = Some (r, s, h1)"
    "stream_ok h1 s" "block_size h1 = block_size h" "stream_conf s = stream_conf (fd_video dev)"
    using stream_process_sizes [OF ok] by blast
  have inv1: "video_inv env (dev\<lparr>fd_video := s\<rparr>, h1)"
    using video_inv_stream [OF assms [unfolded st] p(2-4)] .
  obtain h2 where h2: "video_convert env (dev\<lparr>fd_video := s\<rparr>) h1 = Some h2" "block_size h2 = block_size h1"
    using video_convert_ok [OF inv1] by blast
  show ?thesis
    using video_inv_frame [OF inv1 h2(2)] video_inv_frame [OF inv1 refl] assms
    by (simp add: video_process_def st p(1) h2(1) Let_def)
qed

interpretation video_sink: packet_sink "video_process env" "video_inv env" for env
  by unfold_locales (rule video_process_ok)

section \<open>Starting\<close>

text \<open>The device fields a register write leaves alone: all but the link to the device.\<close>

lemma write_registers_bus: "write_registers ops rvs d = register_bus.write_all (write_register ops) rvs d"
  by (induction rvs arbitrary: d) (auto split: option.splits)

lemma write_registers_fields:
  fixes d :: "'u freenect_device"
  assumes "write_registers ops rvs d = Some d'"
  shows "fd_depth d' = fd_depth d" "fd_video d' = fd_video d" "fd_depth_format d' = fd_depth_format d"
    "fd_video_format d' = fd_video_format d" "fd_video_resolution d' = fd_video_resolution d"
    "fd_depth_resolution d' = fd_depth_resolution d" "fd_registration d' = fd_registration d"
    "fd_depth_chunk_cb d' = fd_depth_chunk_cb d" "fd_video_chunk_cb d' = fd_video_chunk_cb d"
    "fd_depth_isoc d' = fd_depth_isoc d" "fd_video_isoc d' = fd_video_isoc d" "fd_frames d' = fd_frames d"
proof -
  have "link_frame d' = link_frame d"
    using reg_bus.write_all_frame assms unfolding write_registers_bus .
  then have m: "cam_link.more d' = cam_link.more d" by (simp add: link_frame_def)
  show "fd_depth d' = fd_depth d" "fd_video d' = fd_video d" "fd_depth_format d' = fd_depth_format d"
    "fd_video_format d' = fd_video_format d" "fd_video_resolution d' = fd_video_resolution d"
    "fd_depth_resolution d' = fd_depth_resolution d" "fd_registration d' = fd_registration d"
    "fd_depth_chunk_cb d' = fd_depth_chunk_cb d" "fd_video_chunk_cb d' = fd_video_chunk_cb d"
    "fd_depth_isoc d' = fd_depth_isoc d" "fd_video_isoc d' = fd_video_isoc d" "fd_frames d' = fd_frames d"
    using m by (cases d; cases d'; simp)+
qed

lemma depth_bytes_medium:
  assumes "fd_depth_resolution dev = RESOLUTION_MEDIUM"
  shows "depth_bytes env dev DEPTH_11BIT = 614400" "depth_bytes env dev DEPTH_10BIT = 614400"
    "depth_bytes env dev DEPTH_11BIT_PACKED = 422400" "depth_bytes env dev DEPTH_10BIT_PACKED = 384000"
  using assms by (simp_all add: depth_bytes_def freenect_find_depth_mode_def mode_tables)

text \<open>
  What the client must have set up before it starts the depth stream: the resolution, and if it
  has a buffer of its own, one for a frame of 16 bit pixels.  The registered format also needs a
  camera without padding lines that is calibrated like a Kinect.
\<close>

definition depth_client_ok :: "('u, 'x) cam_env_scheme \<Rightarrow> 'u cam_state \<Rightarrow> bool" where
  "depth_client_ok env st \<longleftrightarrow>
     (let (dev, h) = st; s = fd_depth dev
      in heap_wf h \<and> chunk_ok (fd_depth_chunk_cb dev) \<and> fd_depth_resolution dev = RESOLUTION_MEDIUM
         \<and> (ps_usr_buf s \<noteq> NULL \<longrightarrow> block_at_least h (ps_usr_buf s) 614400)
         \<and> (fd_depth_format dev = DEPTH_REGISTERED \<longrightarrow> rp_start_lines (rg_pad (fd_registration dev)) = 0
              \<and> ieee754 (env_fp env) \<and> kinect_calibration (fd_registration dev)
              \<and> no_tiny_depths (env_fp env) (fd_registration dev)))"

definition started :: "'u freenect_device \<Rightarrow> heap \<Rightarrow> int \<Rightarrow> int \<Rightarrow> 'u freenect_device \<Rightarrow> heap \<Rightarrow> bool" where
  "started dev h rlen plen dev' h' \<longleftrightarrow> stream_init h (fd_depth dev) rlen plen = (fd_depth dev', h')
     \<and> fd_depth_format dev' = fd_depth_format dev \<and> fd_depth_chunk_cb dev' = fd_depth_chunk_cb dev
     \<and> fd_depth_isoc dev' = fd_depth_isoc dev \<and> fd_video dev' = fd_video dev
     \<and> (if fd_depth_format dev \<in> {DEPTH_REGISTERED, DEPTH_MM}
        then depth_tables_ok (fd_depth_format dev) (fd_registration dev')
        else fd_registration dev' = fd_registration dev)"

lemma init_registration_raw_to_mm:
  assumes "freenect_init_registration fp reg = Some reg'"
  shows "\<exists>tab. rg_raw_to_mm reg' = Some tab \<and> length tab = 2048"
  using assms by (auto simp: freenect_init_registration_def complete_tables_def DEPTH_MAX_RAW_VALUE_def split: option.splits)

fun depth_lens :: "depth_format \<Rightarrow> int \<times> int" where
  "depth_lens DEPTH_10BIT = (384000, 614400)"
| "depth_lens DEPTH_11BIT_PACKED = (0, 422400)"
| "depth_lens DEPTH_10BIT_PACKED = (0, 384000)"
| "depth_lens _ = (422400, 614400)"

lemma start_depth_stream_started:
  assumes "start_depth_stream env (dev, h) = Some (Some (dev', h'))" "depth_client_ok env (dev, h)"
  shows "started dev h (fst (depth_lens (fd_depth_format dev))) (snd (depth_lens (fd_depth_format dev))) dev' h'"
proof -
  have res: "fd_depth_resolution dev = RESOLUTION_MEDIUM" using assms(2) by (simp add: depth_client_ok_def Let_def)
  note sizes = depth_bytes_medium [OF res, of env]
  have reg: "depth_tables_ok (fd_depth_format dev) reg'"
    if "freenect_init_registration (env_fp env) (fd_registration dev) = Some reg'" for reg'
    using init_registration_raw_to_mm [OF that] init_registration_ready [OF that] assms(2)
    by (auto simp: depth_tables_ok_def depth_client_ok_def Let_def)
  show ?thesis
  proof (cases "fd_depth_format dev")
    case DEPTH_REGISTERED
    then obtain reg' where "freenect_init_registration (env_fp env) (fd_registration dev) = Some reg'"
      using assms(1) by (auto simp: start_depth_stream_def Let_def split: option.splits)
    then show ?thesis using DEPTH_REGISTERED assms(1) reg [of reg'] sizes
      by (auto simp: start_depth_stream_def started_def Let_def split: prod.splits)
  next
    case DEPTH_MM
    then obtain reg' where "freenect_init_registration (env_fp env) (fd_registration dev) = Some reg'"
      using assms(1) by (auto simp: start_depth_stream_def Let_def split: option.splits)
    then show ?thesis using DEPTH_MM assms(1) reg [of reg'] sizes
      by (auto simp: start_depth_stream_def started_def Let_def split: prod.splits)
  qed (use assms(1) sizes in \<open>auto simp: start_depth_stream_def started_def Let_def split: prod.splits\<close>)
qed

lemma started_inv:
  assumes "started dev h (fst (depth_lens (fd_depth_format dev))) (snd (depth_lens (fd_depth_format dev))) dev' h'"
    and "depth_client_ok env (dev, h)" "0 < ps_pkt_size (fd_depth dev)"
  shows "depth_inv (dev', h') \<and> buffers_inv (dom (blocks h)) h' (fd_depth dev')"
proof -
  let ?r = "fst (depth_lens (fd_depth_format dev))" and ?p = "snd (depth_lens (fd_depth_format dev))"
  have wf: "heap_wf h" and cb: "chunk_ok (fd_depth_chunk_cb dev)"
    and usr: "ps_usr_buf (fd_depth dev) \<noteq> NULL \<longrightarrow> block_at_least h (ps_usr_buf (fd_depth dev)) 614400"
    using assms(2) by (simp_all add: depth_client_ok_def Let_def)
  have lens: "0 \<le> ?r" "0 < ?p" "?p \<le> 614400" by (cases "fd_depth_format dev"; simp)+
  have usr': "ps_usr_buf (fd_depth dev) \<noteq> NULL \<Longrightarrow> \<exists>n. block_size h (ps_usr_buf (fd_depth dev)) = Some n \<and> ?p \<le> int n"
    using usr lens(3) by (force simp: block_at_least_def)
  have init: "stream_init h (fd_depth dev) ?r ?p = (fd_depth dev', h')" using assms(1) by (simp add: started_def)
  have ok: "stream_ok h' (fd_depth dev')"
    using stream_init_ok [OF wf assms(3) lens(1,2) usr' init] .
  have inv: "buffers_inv (dom (blocks h)) h' (fd_depth dev')"
    using stream_init_inv [OF wf lens(1,2) usr' init] .
  note blocks = stream_init_blocks [OF wf lens(1,2) usr' init]
  have fmt: "fd_depth_format dev' = fd_depth_format dev" "fd_depth_chunk_cb dev' = fd_depth_chunk_cb dev"
    using assms(1) by (simp_all add: started_def)
  have "block_at_least h' (ps_raw_buf (fd_depth dev')) (fst (depth_needs (fd_depth_format dev)))"
    "block_at_least h' (ps_proc_buf (fd_depth dev')) (snd (depth_needs (fd_depth_format dev)))"
    using blocks by (cases "fd_depth_format dev"; auto simp: block_at_least_def)+
  moreover have "depth_tables_ok (fd_depth_format dev) (fd_registration dev')"
    using assms(1) by (auto simp: started_def depth_tables_ok_def)
  ultimately show ?thesis using ok inv fmt cb by (simp add: depth_inv_def Let_def)
qed

text \<open>A successful start, taken apart.\<close>

lemma freenect_start_depth_cases:
  assumes "freenect_start_depth env (dev, h) = Some (0, (dev', h'))"
  obtains dev1 dev2 res istrm dev4 where "\<not> ps_running (fd_depth dev)"
    "dev1 = dev\<lparr>fd_depth := (fd_depth dev)\<lparr>ps_pkt_size := DEPTH_PKTDSIZE, ps_flag := 0x70, ps_variable_length := False\<rparr>\<rparr>"
    "start_depth_stream env (dev1, h) = Some (Some (dev2, h'))"
    "fnusb_start_iso (env_alloc env) (env_submit env) NUM_XFERS PKTS_PER_XFER
       (fnusb_get_max_iso_packet_size (env_max_iso env) DEPTH_PKTBUF) (fd_depth_isoc dev2) = (res, istrm)"
    "write_registers env (depth_start_regs (fd_depth_format dev2)) (dev2\<lparr>fd_depth_isoc := istrm\<rparr>) = Some dev4"
    "dev' = dev4\<lparr>fd_depth := (fd_depth dev4)\<lparr>ps_running := True\<rparr>\<rparr>"
  using assms
  by (simp add: freenect_start_depth_def Let_def split: if_splits option.splits prod.splits)

lemma depth_inv_running:
  "depth_inv (dev\<lparr>fd_depth := (fd_depth dev)\<lparr>ps_running := b\<rparr>\<rparr>, h) = depth_inv (dev, h)"
  by (simp add: depth_inv_def Let_def stream_ok_def stream_geom_def)

lemma buffers_inv_running [simp]: "buffers_inv D h (s\<lparr>ps_running := b\<rparr>) = buffers_inv D h s"
  by (simp add: buffers_inv_def owned_def)

text \<open>What a running depth stream keeps: its buffers are its own and its transfers accounted for.\<close>

definition depth_session :: "ptr set \<Rightarrow> unit iso_state \<Rightarrow> 'u cam_state \<Rightarrow> bool" where
  "depth_session D istrm st \<longleftrightarrow> depth_inv st \<and> buffers_inv D (snd st) (fd_depth (fst st))
     \<and> ps_running (fd_depth (fst st)) \<and> fd_depth_isoc (fst st) = istrm"

lemma start_depth_session:
  assumes "freenect_start_depth env (dev, h) = Some (0, (dev', h'))" "depth_client_ok env (dev, h)"
  obtains istrm where "depth_session (dom (blocks h)) istrm (dev', h')"
    "fnusb_start_iso (env_alloc env) (env_submit env) NUM_XFERS PKTS_PER_XFER
       (fnusb_get_max_iso_packet_size (env_max_iso env) DEPTH_PKTBUF) (fd_depth_isoc dev) = (0, istrm)"
proof -
  from assms(1) obtain dev1 dev2 res istrm dev4 where
    d1: "dev1 = dev\<lparr>fd_depth := (fd_depth dev)\<lparr>ps_pkt_size := DEPTH_PKTDSIZE, ps_flag := 0x70, ps_variable_length := False\<rparr>\<rparr>"
    and d2: "start_depth_stream env (dev1, h) = Some (Some (dev2, h'))"
    and iso: "fnusb_start_iso (env_alloc env) (env_submit env) NUM_XFERS PKTS_PER_XFER
       (fnusb_get_max_iso_packet_size (env_max_iso env) DEPTH_PKTBUF) (fd_depth_isoc dev2) = (res, istrm)"
    and wr: "write_registers env (depth_start_regs (fd_depth_format dev2)) (dev2\<lparr>fd_depth_isoc := istrm\<rparr>) = Some dev4"
    and d': "dev' = dev4\<lparr>fd_depth := (fd_depth dev4)\<lparr>ps_running := True\<rparr>\<rparr>"
    by (rule freenect_start_depth_cases)
  have c1: "depth_client_ok env (dev1, h)" using assms(2) by (simp add: d1 depth_client_ok_def Let_def)
  have pos: "0 < ps_pkt_size (fd_depth dev1)" by (simp add: d1 DEPTH_PKTDSIZE_def)
  note st = start_depth_stream_started [OF d2 c1]
  have inv: "depth_inv (dev2, h')" "buffers_inv (dom (blocks h)) h' (fd_depth dev2)"
    using started_inv [OF st c1 pos] by simp_all
  have isoc: "fd_depth_isoc dev2 = fd_depth_isoc dev" using st by (simp add: started_def d1)
  note f = write_registers_fields [OF wr]
  have "depth_inv (dev4, h')" using inv(1) by (simp add: depth_inv_def Let_def f)
  then have "depth_inv (dev', h')" unfolding d' by (simp only: depth_inv_running)
  moreover have "buffers_inv (dom (blocks h)) h' (fd_depth dev')"
    using inv(2) by (simp add: d' f buffers_inv_running)
  moreover have "res = 0" using iso by (simp add: fnusb_start_iso_def)
  ultimately show ?thesis
    using that [of istrm] iso isoc by (simp add: depth_session_def d' f)
qed

lemma stream_process_keeps:
  "stream_process h s pkt cb = Some (r, s', h') \<Longrightarrow> stream_conf s' = stream_conf s \<and> dom (blocks h') = dom (blocks h)"
  by (simp add: stream_process_conf stream_process_dom)

lemma depth_process_keeps:
  assumes "depth_process pkt (dev, h) = Some (dev', h')"
  shows "stream_conf (fd_depth dev') = stream_conf (fd_depth dev)" "dom (blocks h') = dom (blocks h)"
    "fd_depth_isoc dev' = fd_depth_isoc dev"
proof -
  have conv: "dom (blocks h2) = dom (blocks h1)" if "depth_convert d h1 = Some h2" for d :: "'a freenect_device" and h1 h2
    using that by (cases "fd_depth_format d") (auto simp: depth_convert_def Let_def bind_Some_iff dest!: mem_write_dom)
  show "stream_conf (fd_depth dev') = stream_conf (fd_depth dev)" "dom (blocks h') = dom (blocks h)"
    "fd_depth_isoc dev' = fd_depth_isoc dev"
    using assms conv
    by (auto simp: depth_process_def Let_def dest!: stream_process_keeps
        split: if_splits option.splits prod.splits)
qed

lemma depth_session_process:
  assumes "depth_session D istrm st"
  shows "\<exists>st'. depth_process pkt st = Some st' \<and> depth_session D istrm st'"
proof -
  obtain dev h where st: "st = (dev, h)" by (cases st)
  obtain dev' h' where p: "depth_process pkt (dev, h) = Some (dev', h')" "depth_inv (dev', h')"
    using depth_process_ok [of st pkt] assms by (auto simp: st depth_session_def)
  note k = depth_process_keeps [OF p(1)]
  have "buffers_inv D h' (fd_depth dev')"
    using buffers_inv_conf [OF k(1,2)] assms by (simp add: st depth_session_def)
  then show ?thesis
    using p k(3) stream_conf_simps(1) [OF k(1)] assms by (simp add: st depth_session_def)
qed

interpretation depth_session: packet_sink depth_process "depth_session D istrm" for D istrm
  by unfold_locales (rule depth_session_process)

section \<open>Stopping\<close>

text \<open>The stop returns: its one register write does, and libusb completes the transfers in flight.\<close>

definition depth_stop_ready :: "('u, 'x) cam_env_scheme \<Rightarrow> 'u freenect_device \<Rightarrow> bool" where
  "depth_stop_ready env dev \<longleftrightarrow>
     (let istrm = fd_depth_isoc dev
      in write_registers env [(0x06, 0x00)] (dev\<lparr>fd_depth := (fd_depth dev)\<lparr>ps_running := False\<rparr>\<rparr>) \<noteq> None
         \<and> None \<notin> set (is_xfers (st_strm istrm)) \<and> distinct (map fst (env_completions env))
         \<and> set (map fst (env_completions env)) = st_inflight istrm)"

lemma stop_iso_all:
  assumes "iso_inv st" "None \<notin> set (is_xfers (st_strm st))" "distinct (map fst es)" "set (map fst es) = st_inflight st"
  shows "\<exists>st'. fnusb_stop_iso cb es st = Some (0, st') \<and> st_inflight st' = {}"
proof -
  let ?st = "st\<lparr>st_strm := (st_strm st)\<lparr>is_dead := True\<rparr>\<rparr>"
  have "iso_inv ?st" using assms(1) by (simp add: iso_inv_def)
  from stop_wait_dead [OF this _ assms(3), of cb] assms(4) obtain st' where
    "stop_wait cb es ?st = Some (st', [])" "st_inflight st' = {}" by auto
  then show ?thesis using assms(2) by (simp add: fnusb_stop_iso_def)
qed

lemma stop_depth_session:
  assumes "depth_session D istrm (dev, h)" "iso_inv istrm" "depth_stop_ready env dev"
  shows "\<exists>dev' h'. freenect_stop_depth env (dev, h) = Some (0, (dev', h')) \<and> dom (blocks h') = D
    \<and> \<not> ps_running (fd_depth dev') \<and> st_inflight (fd_depth_isoc dev') = {}"
proof -
  let ?dev0 = "dev\<lparr>fd_depth := (fd_depth dev)\<lparr>ps_running := False\<rparr>\<rparr>"
  have s: "buffers_inv D h (fd_depth dev)" "ps_running (fd_depth dev)" "fd_depth_isoc dev = istrm"
    using assms(1) by (simp_all add: depth_session_def)
  have r: "None \<notin> set (is_xfers (st_strm istrm))" "distinct (map fst (env_completions env))"
    "set (map fst (env_completions env)) = st_inflight istrm"
    using assms(3) by (simp_all add: depth_stop_ready_def Let_def s(3))
  obtain dev1 where dev1: "write_registers env [(0x06, 0x00)] ?dev0 = Some dev1"
    using assms(3) unfolding depth_stop_ready_def Let_def by blast
  note f = write_registers_fields [OF dev1]
  obtain st' where st': "fnusb_stop_iso no_client (env_completions env) istrm = Some (0, st')" "st_inflight st' = {}"
    using stop_iso_all [OF assms(2) r] by blast
  have "buffers_inv D h (fd_depth dev1)" using s(1) by (simp add: f)
  then obtain s' h' where fb: "stream_freebufs h (fd_depth dev1) = Some (s', h')" "dom (blocks h') = D"
    using stream_freebufs_inv by blast
  then have "\<not> ps_running s'" by (auto simp: stream_freebufs_def f split: option.splits if_splits)
  then show ?thesis
    using s(2) dev1 st' fb by (simp add: freenect_stop_depth_def Let_def f(10) s(3))
qed

section \<open>Properties of the depth stream\<close>

text \<open>C4: The packets of a device cannot crash the depth handler.  After a successful
  \<open>freenect_start_depth\<close> at medium resolution in any of the six depth formats, into a buffer of
  the library or a client buffer of at least 614400 bytes, whatever packets of whatever length
  and contents arrive, every access \<open>depth_process\<close> makes to the raw buffer, the frame buffer and
  the registration tables stays inside them.  For \<open>FREENECT_DEPTH_REGISTERED\<close>, and only there,
  the camera must have no padding lines and the calibration of a Kinect
  (\<open>kinect_calibration\<close>), in IEEE 754 arithmetic whose undefined conversions give no depth from
  1 to 129 mm; \<open>FREENECT_DEPTH_MM\<close> and the other formats need none of this.\<close>
theorem depth_handler_never_faults:
  assumes "depth_client_ok env (dev, h)" "freenect_start_depth env (dev, h) = Some (0, st1)"
  shows "\<exists>st2. run_packets depth_process pkts st1 = Some st2"
proof -
  obtain dev1 h1 where st1: "st1 = (dev1, h1)" by (cases st1)
  obtain istrm where "depth_session (dom (blocks h)) istrm st1"
    using start_depth_session assms unfolding st1 by blast
  then show ?thesis using depth_session.run_ok by blast
qed

text \<open>A depth session releases what it allocated.  Start, any packets, then a stop for which
  libusb completes every transfer in flight: the stop returns 0, no transfer is left in flight,
  and the live blocks of the heap are again exactly those before the start.\<close>
lemma depth_session_releases:
  assumes "depth_client_ok env (dev, h)" "freenect_start_depth env (dev, h) = Some (0, st1)"
    and "st_inflight (fd_depth_isoc dev) = {}" "run_packets depth_process pkts st1 = Some (dev2, h2)"
    and "depth_stop_ready env dev2"
  shows "\<exists>dev3 h3. freenect_stop_depth env (dev2, h2) = Some (0, (dev3, h3))
    \<and> dom (blocks h3) = dom (blocks h) \<and> st_inflight (fd_depth_isoc dev3) = {}"
proof -
  obtain dev1 h1 where st1: "st1 = (dev1, h1)" by (cases st1)
  obtain istrm where s: "depth_session (dom (blocks h)) istrm st1"
    and iso: "fnusb_start_iso (env_alloc env) (env_submit env) NUM_XFERS PKTS_PER_XFER
       (fnusb_get_max_iso_packet_size (env_max_iso env) DEPTH_PKTBUF) (fd_depth_isoc dev) = (0, istrm)"
    using start_depth_session assms(1,2) unfolding st1 by blast
  have "iso_inv istrm" using fnusb_start_iso_inv [OF iso assms(3)] by (simp add: NUM_XFERS_def)
  moreover have "depth_session (dom (blocks h)) istrm (dev2, h2)"
    using depth_session.run_ok [OF s, of pkts] assms(4) by auto
  ultimately show ?thesis using stop_depth_session assms(5) by blast
qed

section \<open>The video stream\<close>

text \<open>The format of the raw frames behind each video format, \<open>None\<close>: the frames themselves.\<close>

fun raw_format :: "video_format \<Rightarrow> video_format option" where
  "raw_format VIDEO_RGB = Some VIDEO_BAYER"
| "raw_format VIDEO_IR_8BIT = Some VIDEO_IR_10BIT_PACKED"
| "raw_format VIDEO_IR_10BIT = Some VIDEO_IR_10BIT_PACKED"
| "raw_format VIDEO_YUV_RGB = Some VIDEO_YUV_RAW"
| "raw_format _ = None"

definition video_rlen :: "('u, 'x) cam_env_scheme \<Rightarrow> 'u freenect_device \<Rightarrow> int" where
  "video_rlen env dev = (case raw_format (fd_video_format dev) of None \<Rightarrow> 0 | Some f \<Rightarrow> video_bytes env dev f)"

text \<open>Bytes, width and height of the modes the lookup finds.\<close>

definition frame_dims :: "'f frame_mode \<Rightarrow> int \<times> int \<times> int" where
  "frame_dims m = (fm_bytes m, fm_width m, fm_height m)"

lemma video_dims:
  "frame_dims (freenect_find_video_mode rv RESOLUTION_HIGH VIDEO_RGB) = (3932160, 1280, 1024)"
  "frame_dims (freenect_find_video_mode rv RESOLUTION_MEDIUM VIDEO_RGB) = (921600, 640, 480)"
  "frame_dims (freenect_find_video_mode rv RESOLUTION_HIGH VIDEO_BAYER) = (1310720, 1280, 1024)"
  "frame_dims (freenect_find_video_mode rv RESOLUTION_MEDIUM VIDEO_BAYER) = (307200, 640, 480)"
  "frame_dims (freenect_find_video_mode rv RESOLUTION_HIGH VIDEO_IR_8BIT) = (1310720, 1280, 1024)"
  "frame_dims (freenect_find_video_mode rv RESOLUTION_MEDIUM VIDEO_IR_8BIT) = (312320, 640, 488)"
  "frame_dims (freenect_find_video_mode rv RESOLUTION_HIGH VIDEO_IR_10BIT) = (2621440, 1280, 1024)"
  "frame_dims (freenect_find_video_mode rv RESOLUTION_MEDIUM VIDEO_IR_10BIT) = (624640, 640, 488)"
  "frame_dims (freenect_find_video_mode rv RESOLUTION_HIGH VIDEO_IR_10BIT_PACKED) = (1638400, 1280, 1024)"
  "frame_dims (freenect_find_video_mode rv RESOLUTION_MEDIUM VIDEO_IR_10BIT_PACKED) = (390400, 640, 488)"
  "frame_dims (freenect_find_video_mode rv RESOLUTION_MEDIUM VIDEO_YUV_RGB) = (921600, 640, 480)"
  "frame_dims (freenect_find_video_mode rv RESOLUTION_MEDIUM VIDEO_YUV_RAW) = (614400, 640, 480)"
  by (simp_all add: frame_dims_def freenect_find_video_mode_def mode_tables)

text \<open>Each accepted combination of format and resolution has frames its converter can handle.\<close>

lemma video_regs_accepted:
  assumes "video_regs fmt res \<noteq> None"
  shows "res = RESOLUTION_MEDIUM \<and> fmt \<noteq> VIDEO_DUMMY
    \<or> res = RESOLUTION_HIGH \<and> fmt \<in> {VIDEO_RGB, VIDEO_BAYER, VIDEO_IR_8BIT, VIDEO_IR_10BIT, VIDEO_IR_10BIT_PACKED}"
  using assms by (cases fmt) (auto simp: video_regs_def Let_def split: if_splits)

lemma video_modes_fit:
  assumes "video_regs (fd_video_format dev) (fd_video_resolution dev) \<noteq> None"
    and m: "m = freenect_get_current_video_mode env dev"
  shows "video_dims_ok (nat (fm_width m)) (nat (fm_height m)) \<and> 0 < fm_bytes m \<and> 0 \<le> video_rlen env dev
    \<and> fst (video_needs (fd_video_format dev) (nat (fm_width m)) (nat (fm_height m)))
       \<le> nat (if video_rlen env dev = 0 then fm_bytes m else video_rlen env dev)
    \<and> snd (video_needs (fd_video_format dev) (nat (fm_width m)) (nat (fm_height m))) \<le> nat (fm_bytes m)"
proof -
  obtain b w hh where d: "frame_dims m = (b, w, hh)" by (cases "frame_dims m") auto
  have e: "fm_bytes m = b" "fm_width m = w" "fm_height m = hh" using d by (simp_all add: frame_dims_def)
  have d': "frame_dims (freenect_find_video_mode (env_video_retval env) (fd_video_resolution dev) (fd_video_format dev)) = (b, w, hh)"
    using d by (simp add: m freenect_get_current_video_mode_def)
  have raw: "video_rlen env dev = (case raw_format (fd_video_format dev) of None \<Rightarrow> 0
      | Some f \<Rightarrow> fst (frame_dims (freenect_find_video_mode (env_video_retval env) (fd_video_resolution dev) f)))"
    by (simp add: video_rlen_def video_bytes_def frame_dims_def split: option.split)
  from video_regs_accepted [OF assms(1)] show ?thesis
    unfolding e raw using d'
    by (cases "fd_video_format dev") (auto simp: video_dims video_dims_ok_def)
qed

definition video_client_ok :: "('u, 'x) cam_env_scheme \<Rightarrow> 'u cam_state \<Rightarrow> bool" where
  "video_client_ok env st \<longleftrightarrow>
     (let (dev, h) = st; s = fd_video dev
      in heap_wf h \<and> chunk_ok (fd_video_chunk_cb dev)
         \<and> (ps_usr_buf s \<noteq> NULL \<longrightarrow>
              block_at_least h (ps_usr_buf s) (nat (fm_bytes (freenect_get_current_video_mode env dev)))))"

lemma start_video_stream_init:
  assumes "start_video_stream env (dev, h) = (dev', h')" "fd_video_format dev \<noteq> VIDEO_DUMMY"
  shows "stream_init h (fd_video dev) (video_rlen env dev) (fm_bytes (freenect_get_current_video_mode env dev))
      = (fd_video dev', h')" "dev' = dev\<lparr>fd_video := fd_video dev'\<rparr>"
  using assms by (cases "fd_video_format dev";
      auto simp: start_video_stream_def Let_def video_rlen_def split: prod.splits)+

lemma start_video_stream_ok:
  assumes "start_video_stream env (dev, h) = (dev', h')" "video_client_ok env (dev, h)"
    and "video_regs (fd_video_format dev) (fd_video_resolution dev) \<noteq> None" "0 < ps_pkt_size (fd_video dev)"
  shows "video_inv env (dev', h') \<and> buffers_inv (dom (blocks h)) h' (fd_video dev')"
proof -
  define m where "m = freenect_get_current_video_mode env dev"
  have "fd_video_format dev \<noteq> VIDEO_DUMMY" using assms(3) by (auto simp: video_regs_def)
  note init = start_video_stream_init [OF assms(1) this, folded m_def]
  note fit = video_modes_fit [OF assms(3) m_def, THEN conjunct1]
    video_modes_fit [OF assms(3) m_def, THEN conjunct2, THEN conjunct1]
    video_modes_fit [OF assms(3) m_def, THEN conjunct2, THEN conjunct2, THEN conjunct1]
    video_modes_fit [OF assms(3) m_def, THEN conjunct2, THEN conjunct2, THEN conjunct2, THEN conjunct1]
    video_modes_fit [OF assms(3) m_def, THEN conjunct2, THEN conjunct2, THEN conjunct2, THEN conjunct2]
  have wf: "heap_wf h" and cb: "chunk_ok (fd_video_chunk_cb dev)"
    and usr: "ps_usr_buf (fd_video dev) \<noteq> NULL \<Longrightarrow> \<exists>n. block_size h (ps_usr_buf (fd_video dev)) = Some n \<and> fm_bytes m \<le> int n"
    using assms(2) by (auto simp: video_client_ok_def Let_def block_at_least_def m_def)
  have fields: "fd_video_format dev' = fd_video_format dev" "fd_video_resolution dev' = fd_video_resolution dev"
    "fd_video_chunk_cb dev' = fd_video_chunk_cb dev"
    by (subst init(2), simp)+
  have mode: "freenect_get_current_video_mode env dev' = m"
    by (simp add: m_def freenect_get_current_video_mode_def fields)
  note blocks = stream_init_blocks [OF wf fit(3,2) usr init(1)]
  have "block_at_least h' (ps_raw_buf (fd_video dev')) (fst (video_needs (fd_video_format dev) (nat (fm_width m)) (nat (fm_height m))))"
    "block_at_least h' (ps_proc_buf (fd_video dev')) (snd (video_needs (fd_video_format dev) (nat (fm_width m)) (nat (fm_height m))))"
    using blocks fit(4,5) unfolding block_at_least_def by (meson order_trans)+
  then have "video_inv env (dev', h')"
    using fit(1) cb stream_init_ok [OF wf assms(4) fit(3,2) usr init(1)]
    by (simp add: video_inv_def Let_def mode fields)
  then show ?thesis using stream_init_inv [OF wf fit(3,2) usr init(1)] by simp
qed

lemma freenect_start_video_cases:
  assumes "freenect_start_video env (dev, h) = Some (0, (dev', h'))"
  obtains dev1 regs dev2 dev3 res istrm rvs dev5 where
    "dev1 = dev\<lparr>fd_video := (fd_video dev)\<lparr>ps_pkt_size := VIDEO_PKTDSIZE, ps_flag := 0x80, ps_variable_length := False\<rparr>\<rparr>"
    "video_regs (fd_video_format dev) (fd_video_resolution dev) = Some regs"
    "write_registers env (if is_ir_high (fd_video_format dev) (fd_video_resolution dev) then ir_high_regs else []) dev1 = Some dev2"
    "start_video_stream env (dev2, h) = (dev3, h')"
    "fnusb_start_iso (env_alloc env) (env_submit env) NUM_XFERS PKTS_PER_XFER
       (fnusb_get_max_iso_packet_size (env_max_iso env) VIDEO_PKTBUF) (fd_video_isoc dev3) = (res, istrm)"
    "write_registers env rvs (dev3\<lparr>fd_video_isoc := istrm\<rparr>) = Some dev5"
    "dev' = dev5\<lparr>fd_video := (fd_video dev5)\<lparr>ps_running := True\<rparr>\<rparr>"
  using assms
  by (simp add: freenect_start_video_def Let_def split: if_splits option.splits prod.splits)

lemma video_inv_running:
  "video_inv env (dev\<lparr>fd_video := (fd_video dev)\<lparr>ps_running := b\<rparr>\<rparr>, h) = video_inv env (dev, h)"
  by (simp add: video_inv_def Let_def stream_ok_def stream_geom_def freenect_get_current_video_mode_def)

lemma start_video_inv:
  assumes "freenect_start_video env (dev, h) = Some (0, (dev', h'))" "video_client_ok env (dev, h)"
  shows "video_inv env (dev', h') \<and> buffers_inv (dom (blocks h)) h' (fd_video dev')"
proof -
  from assms(1) obtain dev1 regs dev2 dev3 res istrm rvs dev5 where
    d1: "dev1 = dev\<lparr>fd_video := (fd_video dev)\<lparr>ps_pkt_size := VIDEO_PKTDSIZE, ps_flag := 0x80, ps_variable_length := False\<rparr>\<rparr>"
    and regs: "video_regs (fd_video_format dev) (fd_video_resolution dev) = Some regs"
    and wr: "write_registers env (if is_ir_high (fd_video_format dev) (fd_video_resolution dev) then ir_high_regs else []) dev1 = Some dev2"
    and st: "start_video_stream env (dev2, h) = (dev3, h')"
    and wr5: "write_registers env rvs (dev3\<lparr>fd_video_isoc := istrm\<rparr>) = Some dev5"
    and d': "dev' = dev5\<lparr>fd_video := (fd_video dev5)\<lparr>ps_running := True\<rparr>\<rparr>"
    by (rule freenect_start_video_cases)
  note f2 = write_registers_fields [OF wr]
  have c2: "video_client_ok env (dev2, h)"
    using assms(2) by (simp add: video_client_ok_def Let_def freenect_get_current_video_mode_def f2 d1)
  have r2: "video_regs (fd_video_format dev2) (fd_video_resolution dev2) \<noteq> None" using regs by (simp add: f2 d1)
  have "0 < ps_pkt_size (fd_video dev2)" by (simp add: f2 d1 VIDEO_PKTDSIZE_def)
  note ok = start_video_stream_ok [OF st c2 r2 this]
  note f5 = write_registers_fields [OF wr5]
  have "video_inv env (dev5, h')"
    using conjunct1 [OF ok] by (simp add: video_inv_def Let_def freenect_get_current_video_mode_def f5)
  then have "video_inv env (dev', h')" unfolding d' by (simp only: video_inv_running)
  then show ?thesis using conjunct2 [OF ok] by (simp add: d' f5)
qed

text \<open>C6: No device can crash the video handler.  After a successful \<open>freenect_start_video\<close> in
  any format and resolution it accepts (RGB by demosaicing or by YUV conversion, raw, infrared at 8
  or 10 bits), whatever packets arrive, the converters \<open>video_process\<close> runs on each complete
  frame read and write only inside the raw and the frame buffer.\<close>
theorem video_handler_never_faults:
  assumes "video_client_ok env (dev, h)" "freenect_start_video env (dev, h) = Some (0, st1)"
  shows "\<exists>st2. run_packets (video_process env) pkts st1 = Some st2"
proof -
  obtain dev1 h1 where st1: "st1 = (dev1, h1)" by (cases st1)
  have "video_inv env st1" using start_video_inv assms unfolding st1 by blast
  then show ?thesis using video_sink.run_ok by blast
qed

section \<open>Modes\<close>

text \<open>\<open>freenect_start_video\<close> has register values for exactly the supported modes: its switch
  accepts a format and resolution if and only if the table of video modes lists the pair.\<close>
lemma video_start_accepts_supported:
  "video_regs fmt res \<noteq> None \<longleftrightarrow> (\<exists>m \<in> set supported_video_modes. fm_format m = fmt \<and> fm_resolution m = res)"
  by (cases fmt; cases res; simp add: video_regs_def supported_video_modes_def frame_mode_row_def)

lemma send_cmd_fields:
  fixes d :: "'u freenect_device"
  assumes "send_cmd ops cmd p n d = Some (r, w, d')"
  shows "cam_link.more d' = cam_link.more d"
  using send_cmd_frame [OF assms] by (simp add: link_frame_def)

lemma fetch_reg_info_modes:
  assumes "freenect_fetch_reg_info env dev = Some (r, dev')"
  shows "fd_video_format dev' = fd_video_format dev" "fd_video_resolution dev' = fd_video_resolution dev"
proof -
  obtain res reply dev1 where s: "send_cmd env 0x16 (param_cmd env 0x40 dev) 118 dev = Some (res, reply, dev1)"
    and d': "dev' = dev1 \<or> (\<exists>reg. dev' = dev1\<lparr>fd_registration := reg\<rparr>)"
    using assms by (simp add: freenect_fetch_reg_info_def split: option.splits if_splits prod.splits) blast+
  have "fd_video_format dev1 = fd_video_format dev" "fd_video_resolution dev1 = fd_video_resolution dev"
    using send_cmd_fields [OF s] by (cases dev1; cases dev; simp)+
  then show "fd_video_format dev' = fd_video_format dev" "fd_video_resolution dev' = fd_video_resolution dev"
    using d' by auto
qed

text \<open>A mode that was set is the current mode.  For every supported video mode, setting it on
  a device whose video stream is stopped returns 0 and makes it the mode
  \<open>freenect_get_current_video_mode\<close> returns, whether or not the camera answers the command for the
  registration data; on a running stream it is refused and nothing changes.\<close>
lemma set_video_mode_then_get:
  assumes "m \<in> set supported_video_modes" "freenect_set_video_mode env m dev = Some (r, dev')"
  shows "if ps_running (fd_video dev) then r = -1 \<and> dev' = dev
    else r = 0 \<and> freenect_get_current_video_mode env dev' = m"
proof (cases "ps_running (fd_video dev)")
  case False
  have found: "find_reserved (fm_reserved m) supported_video_modes = Some m"
    using find_reserved_distinct [OF video_modes_distinct assms(1)] .
  define dev1 where "dev1 = dev\<lparr>fd_video_format := video_of (RESERVED_TO_FORMAT (fm_reserved m)),
    fd_video_resolution := RESERVED_TO_RESOLUTION (fm_reserved m)\<rparr>"
  obtain r' where f: "freenect_fetch_reg_info env dev1 = Some (r', dev')" and r: "r = 0"
    using assms(2) False found by (auto simp: freenect_set_video_mode_def Let_def dev1_def)
  have "freenect_get_current_video_mode env dev'
      = freenect_find_video_mode (env_video_retval env) (RESERVED_TO_RESOLUTION (fm_reserved m))
          (video_of (RESERVED_TO_FORMAT (fm_reserved m)))"
    unfolding freenect_get_current_video_mode_def fetch_reg_info_modes [OF f] by (simp add: dev1_def)
  also have "\<dots> = m" by (simp only: find_video_lookup video.set_then_get [OF assms(1)] option.case)
  finally show ?thesis using False r by simp
qed (use assms in \<open>simp add: freenect_set_video_mode_def\<close>)

section \<open>Calibration\<close>

lemma param_cmd_length [simp]: "length (param_cmd env p dev) = 10"
  by (simp add: param_cmd_def Let_def)

lemma fetch_reg_pad_info_answered:
  fixes dev :: "'u freenect_device"
  assumes "answers env 0x16 (cam_tag dev) (param_cmd env 0x41 dev) (usb_state dev) rep u'" "length rep = 8"
  shows "freenect_fetch_reg_pad_info env dev = Some (0, dev\<lparr>usb_state := u', cam_tag := cam_tag dev + 1,
    fd_registration := (fd_registration dev)\<lparr>rg_pad := \<lparr>rp_start_lines = le16 (rep ! 2) (rep ! 3),
      rp_end_lines = le16 (rep ! 4) (rep ! 5), rp_cropping_lines = le16 (rep ! 6) (rep ! 7)\<rparr>\<rparr>\<rparr>)"
  using send_cmd_answers [OF assms(1), of 8] assms(2) by (simp add: freenect_fetch_reg_pad_info_def)

lemma fetch_reg_info_answered:
  fixes dev :: "'u freenect_device"
  assumes "answers env 0x16 (cam_tag dev) (param_cmd env 0x40 dev) (usb_state dev) rep u'" "length rep = 118"
  shows "freenect_fetch_reg_info env dev = Some (0, dev\<lparr>usb_state := u', cam_tag := cam_tag dev + 1,
    fd_registration := (fd_registration dev)\<lparr>rg_info := read_reg_info (drop 2 rep)\<rparr>\<rparr>)"
  using send_cmd_answers [OF assms(1), of 118] assms(2) by (simp add: freenect_fetch_reg_info_def)

lemma fetch_reg_const_shift_answered:
  fixes dev :: "'u freenect_device"
  assumes "answers env 0x16 (cam_tag dev) (param_cmd env 0 dev) (usb_state dev) rep u'" "length rep = 4"
  shows "freenect_fetch_reg_const_shift env dev = Some (0, dev\<lparr>usb_state := u', cam_tag := cam_tag dev + 1,
    fd_registration := (fd_registration dev)\<lparr>rg_const_shift := le16 (rep ! 2) (rep ! 3)\<rparr>\<rparr>)"
  using send_cmd_answers [OF assms(1), of 4] assms(2) by (simp add: freenect_fetch_reg_const_shift_def)

lemma fetch_zero_plane_info_answered:
  fixes dev :: "'u freenect_device"
  assumes "answers env 0x04 (cam_tag dev) (replicate 10 0) (usb_state dev) rep u'"
    and "length rep = fd_zero_plane_res dev" "110 \<le> length rep"
  shows "freenect_fetch_zero_plane_info env dev = Some (0, dev\<lparr>usb_state := u', cam_tag := cam_tag dev + 1,
    fd_registration := (fd_registration dev)\<lparr>rg_zero_plane := \<lparr>zp_dcmos_emitter_dist = rd32 (take 16 (drop 94 rep)) 0,
      zp_dcmos_rcmos_dist = 0x4019999A, zp_reference_distance = rd32 (take 16 (drop 94 rep)) 2,
      zp_reference_pixel_size = rd32 (take 16 (drop 94 rep)) 3\<rparr>\<rparr>\<rparr>)"
  using send_cmd_answers [OF assms(1), of "fd_zero_plane_res dev"] assms(2,3)
  by (simp add: freenect_fetch_zero_plane_info_def get_bytes_def)

text \<open>The parameter command in the mode \<open>freenect_camera_init\<close> selects: medium RGB, 30 frames a second.\<close>

definition medium_cmd :: "u16 \<Rightarrow> bytes" where
  "medium_cmd param = bytes16 param @ bytes16 0 @ bytes16 1 @ bytes16 30 @ bytes16 0"

definition medium_rgb :: "video_format frame_mode" where "medium_rgb = supported_video_modes ! 1"
definition medium_11bit :: "depth_format frame_mode" where "medium_11bit = supported_depth_modes ! 0"

lemma initial_modes:
  "freenect_find_video_mode rv RESOLUTION_MEDIUM VIDEO_RGB = medium_rgb"
  "freenect_find_depth_mode rv' RESOLUTION_MEDIUM DEPTH_11BIT = medium_11bit"
  by (simp_all add: freenect_find_video_mode_def freenect_find_depth_mode_def medium_rgb_def medium_11bit_def mode_tables)

lemma initial_modes_supported: "medium_rgb \<in> set supported_video_modes" "medium_11bit \<in> set supported_depth_modes"
  by (simp_all add: medium_rgb_def medium_11bit_def supported_video_modes_def supported_depth_modes_def)

lemma initial_modes_fields:
  "fm_resolution medium_rgb = RESOLUTION_MEDIUM" "fm_format medium_rgb = VIDEO_RGB" "fm_framerate medium_rgb = 30"
  "fm_resolution medium_11bit = RESOLUTION_MEDIUM" "fm_format medium_11bit = DEPTH_11BIT"
  by (simp_all add: medium_rgb_def medium_11bit_def supported_video_modes_def supported_depth_modes_def frame_mode_row_def)

lemma param_cmd_medium:
  "fd_video_resolution dev = RESOLUTION_MEDIUM \<Longrightarrow> fd_video_format dev = VIDEO_RGB \<Longrightarrow>
     param_cmd env p dev = medium_cmd p"
  by (simp add: param_cmd_def medium_cmd_def freenect_get_current_video_mode_def initial_modes initial_modes_fields Let_def)

lemma set_initial_video_mode:
  assumes "\<not> ps_running (fd_video dev)"
  shows "freenect_set_video_mode env medium_rgb dev
    = map_option (\<lambda>(r, dev2). (0, dev2)) (freenect_fetch_reg_info env
        (dev\<lparr>fd_video_format := VIDEO_RGB, fd_video_resolution := RESOLUTION_MEDIUM\<rparr>))"
  using assms find_reserved_distinct [OF video_modes_distinct initial_modes_supported(1)]
    video.decode_res [OF initial_modes_supported(1)] video.decode_fmt [OF initial_modes_supported(1)]
  by (simp add: freenect_set_video_mode_def initial_modes_fields Let_def)

lemma set_initial_depth_mode:
  assumes "\<not> ps_running (fd_depth dev)"
  shows "freenect_set_depth_mode medium_11bit dev
    = (0, dev\<lparr>fd_depth_format := DEPTH_11BIT, fd_depth_resolution := RESOLUTION_MEDIUM\<rparr>)"
  using assms find_reserved_distinct [OF depth_modes_distinct initial_modes_supported(2)]
    depth.decode_res [OF initial_modes_supported(2)] depth.decode_fmt [OF initial_modes_supported(2)]
  by (simp add: freenect_set_depth_mode_def initial_modes_fields)

lemma camera_init_answered:
  fixes dev :: "'u freenect_device"
  assumes "answers env 0x16 (cam_tag dev) (param_cmd env 0x41 dev) (usb_state dev) pad u1" "length pad = 8"
    and "answers env 0x04 (cam_tag dev + 1) (replicate 10 0) u1 zp u2"
    and "length zp = fd_zero_plane_res dev" "110 \<le> length zp"
    and "answers env 0x16 (cam_tag dev + 2) (medium_cmd 0x40) u2 info u3" "length info = 118"
    and "answers env 0x16 (cam_tag dev + 3) (medium_cmd 0) u3 shift u4" "length shift = 4"
    and "\<not> ps_running (fd_video dev)" "\<not> ps_running (fd_depth dev)"
  shows "freenect_camera_init env dev = Some (0, dev\<lparr>usb_state := u4, cam_tag := cam_tag dev + 4,
    fd_video_format := VIDEO_RGB, fd_video_resolution := RESOLUTION_MEDIUM,
    fd_depth_format := DEPTH_11BIT, fd_depth_resolution := RESOLUTION_MEDIUM,
    fd_registration := (fd_registration dev)
      \<lparr>rg_pad := \<lparr>rp_start_lines = le16 (pad ! 2) (pad ! 3), rp_end_lines = le16 (pad ! 4) (pad ! 5),
         rp_cropping_lines = le16 (pad ! 6) (pad ! 7)\<rparr>,
       rg_zero_plane := \<lparr>zp_dcmos_emitter_dist = rd32 (take 16 (drop 94 zp)) 0, zp_dcmos_rcmos_dist = 0x4019999A,
         zp_reference_distance = rd32 (take 16 (drop 94 zp)) 2, zp_reference_pixel_size = rd32 (take 16 (drop 94 zp)) 3\<rparr>,
       rg_info := read_reg_info (drop 2 info), rg_const_shift := le16 (shift ! 2) (shift ! 3)\<rparr>\<rparr>)"
proof -
  note p1 = fetch_reg_pad_info_answered [OF assms(1,2)]
  define dev1 where "dev1 = dev\<lparr>usb_state := u1, cam_tag := cam_tag dev + 1,
    fd_registration := (fd_registration dev)\<lparr>rg_pad := \<lparr>rp_start_lines = le16 (pad ! 2) (pad ! 3),
      rp_end_lines = le16 (pad ! 4) (pad ! 5), rp_cropping_lines = le16 (pad ! 6) (pad ! 7)\<rparr>\<rparr>\<rparr>"
  have p2: "freenect_fetch_zero_plane_info env dev1 = Some (0, dev1\<lparr>usb_state := u2, cam_tag := cam_tag dev1 + 1,
    fd_registration := (fd_registration dev1)\<lparr>rg_zero_plane := \<lparr>zp_dcmos_emitter_dist = rd32 (take 16 (drop 94 zp)) 0,
      zp_dcmos_rcmos_dist = 0x4019999A, zp_reference_distance = rd32 (take 16 (drop 94 zp)) 2,
      zp_reference_pixel_size = rd32 (take 16 (drop 94 zp)) 3\<rparr>\<rparr>\<rparr>)" (is "_ = Some (0, ?dev2)")
    by (rule fetch_zero_plane_info_answered) (use assms(3-5) in \<open>simp_all add: dev1_def\<close>)
  define dev2 where "dev2 = ?dev2\<lparr>fd_video_format := VIDEO_RGB, fd_video_resolution := RESOLUTION_MEDIUM\<rparr>"
  have p3: "freenect_fetch_reg_info env dev2 = Some (0, dev2\<lparr>usb_state := u3, cam_tag := cam_tag dev2 + 1,
    fd_registration := (fd_registration dev2)\<lparr>rg_info := read_reg_info (drop 2 info)\<rparr>\<rparr>)" (is "_ = Some (0, ?dev3)")
    by (rule fetch_reg_info_answered) (use assms(6,7) in \<open>simp_all add: dev2_def dev1_def param_cmd_medium add.commute\<close>)
  have v: "freenect_set_video_mode env medium_rgb ?dev2
      = Some (0, ?dev3)"
    using assms(10) p3 by (subst set_initial_video_mode) (simp_all add: dev1_def dev2_def)
  define dev4 where "dev4 = ?dev3\<lparr>fd_depth_format := DEPTH_11BIT, fd_depth_resolution := RESOLUTION_MEDIUM\<rparr>"
  have d: "freenect_set_depth_mode medium_11bit ?dev3
      = (0, dev4)"
    using assms(11) by (subst set_initial_depth_mode) (simp_all add: dev4_def dev2_def dev1_def)
  have p5: "freenect_fetch_reg_const_shift env dev4 = Some (0, dev4\<lparr>usb_state := u4, cam_tag := cam_tag dev4 + 1,
    fd_registration := (fd_registration dev4)\<lparr>rg_const_shift := le16 (shift ! 2) (shift ! 3)\<rparr>\<rparr>)"
    by (rule fetch_reg_const_shift_answered) (use assms(8,9) in \<open>simp_all add: dev4_def dev2_def dev1_def param_cmd_medium add.commute\<close>)
  show ?thesis
    using p1 p2 v d p5 unfolding freenect_camera_init_def initial_modes
    by (simp add: dev1_def [symmetric]) (simp add: dev4_def dev2_def dev1_def)
qed

text \<open>Initialisation reads the calibration.  When the camera answers the four commands of
  \<open>freenect_camera_init\<close> in turn with replies of the announced lengths, it returns 0 on a device
  in medium RGB and 11 bit depth mode whose registration record holds exactly the padding,
  zero plane (its second distance replaced by 2.4), registration and constant shift data of the replies,
  and the command tag has advanced by four.\<close>
lemma camera_init_reads_calibration:
  fixes dev :: "'u freenect_device"
  assumes "answers env 0x16 (cam_tag dev) (param_cmd env 0x41 dev) (usb_state dev) pad u1" "length pad = 8"
    and "answers env 0x04 (cam_tag dev + 1) (replicate 10 0) u1 zp u2"
    and "length zp = fd_zero_plane_res dev" "110 \<le> length zp"
    and "answers env 0x16 (cam_tag dev + 2) (medium_cmd 0x40) u2 info u3" "length info = 118"
    and "answers env 0x16 (cam_tag dev + 3) (medium_cmd 0) u3 shift u4" "length shift = 4"
    and "\<not> ps_running (fd_video dev)" "\<not> ps_running (fd_depth dev)"
  shows "freenect_camera_init env dev = Some (0, dev\<lparr>usb_state := u4, cam_tag := cam_tag dev + 4,
    fd_video_format := VIDEO_RGB, fd_video_resolution := RESOLUTION_MEDIUM,
    fd_depth_format := DEPTH_11BIT, fd_depth_resolution := RESOLUTION_MEDIUM,
    fd_registration := (fd_registration dev)
      \<lparr>rg_pad := \<lparr>rp_start_lines = le16 (pad ! 2) (pad ! 3), rp_end_lines = le16 (pad ! 4) (pad ! 5),
         rp_cropping_lines = le16 (pad ! 6) (pad ! 7)\<rparr>,
       rg_zero_plane := \<lparr>zp_dcmos_emitter_dist = rd32 (take 16 (drop 94 zp)) 0, zp_dcmos_rcmos_dist = 0x4019999A,
         zp_reference_distance = rd32 (take 16 (drop 94 zp)) 2, zp_reference_pixel_size = rd32 (take 16 (drop 94 zp)) 3\<rparr>,
       rg_info := read_reg_info (drop 2 info), rg_const_shift := le16 (shift ! 2) (shift ! 3)\<rparr>\<rparr>)"
  by (rule camera_init_answered [OF assms])

section \<open>Corner cases\<close>

text \<open>The first command of \<open>freenect_camera_init\<close> sends memory nobody set.  On a device whose
  video mode was not set yet (resolution 0, as the zeroed record of \<open>freenect_open_device\<close> has it)
  \<open>freenect_get_current_video_mode\<close> finds no mode and returns a local struct of which only the
  valid flag was assigned; the command for the padding data carries its resolution and frame rate.\<close>
lemma first_command_uninitialised:
  assumes "fd_video_resolution dev = RESOLUTION_LOW"
  shows "\<not> fm_is_valid (freenect_get_current_video_mode env dev)
    \<and> param_cmd env p dev = bytes16 p @ bytes16 0
        @ bytes16 (ucast (res_code (fm_resolution (env_video_retval env))))
        @ bytes16 (word_of_int (fm_framerate (env_video_retval env))) @ bytes16 0"
proof -
  have "\<forall>m \<in> set supported_video_modes. fm_resolution m \<noteq> RESOLUTION_LOW"
    by (simp add: supported_video_modes_def frame_mode_row_def)
  then have "\<forall>m \<in> set supported_video_modes. fm_reserved m \<noteq> MAKE_RESERVED (res_code RESOLUTION_LOW) (video_code fmt)" for fmt
    by (cases fmt) (simp_all add: mode_tables)
  then have "find_reserved (MAKE_RESERVED (res_code RESOLUTION_LOW) (video_code (fd_video_format dev))) supported_video_modes = None"
    by (simp only: find_reserved_None)
  then have "freenect_get_current_video_mode env dev = (env_video_retval env)\<lparr>fm_is_valid := False\<rparr>"
    by (simp only: freenect_get_current_video_mode_def freenect_find_video_mode_def assms option.case)
  then show ?thesis by (simp add: param_cmd_def Let_def)
qed

text \<open>Teardown with both streams running stops only the depth stream: the video stream keeps
  running, with its buffers and with every transfer it has in flight.\<close>
lemma teardown_leaves_video_running:
  assumes "ps_running (fd_depth dev)" "ps_running (fd_video dev)"
    and "freenect_camera_teardown env (dev, h) = Some (r, (dev', h'))"
  shows "ps_running (fd_video dev') \<and> fd_video dev' = fd_video dev \<and> fd_video_isoc dev' = fd_video_isoc dev"
proof -
  have s: "freenect_stop_depth env (dev, h) = Some (r, (dev', h'))"
    using assms(1,3) by (simp add: freenect_camera_teardown_def)
  obtain dev1 where w: "write_registers env [(0x06, 0x00)] (dev\<lparr>fd_depth := (fd_depth dev)\<lparr>ps_running := False\<rparr>\<rparr>) = Some dev1"
    and d': "fd_video dev' = fd_video dev1" "fd_video_isoc dev' = fd_video_isoc dev1"
    using s assms(1) by (auto simp: freenect_stop_depth_def Let_def split: option.splits if_splits prod.splits)
  show ?thesis using assms(2) by (simp add: d' write_registers_fields [OF w])
qed

section \<open>Witnesses\<close>

text \<open>A device on the simulated camera, with six transfers whose completions libusb delivers.\<close>

definition sample_env :: "sim_cam cam_env" where
  "sample_env = \<lparr>ctl_out = ctl_out sim_ops, ctl_in = ctl_in sim_ops, env_alloc = (\<lambda>_. True), env_submit = (\<lambda>_. 0),
     env_max_iso = 0, env_completions = map (\<lambda>i. (i, TRANSFER_CANCELLED)) [0..<6], env_fp = sample_fp,
     env_video_retval = supported_video_modes ! 4, env_depth_retval = supported_depth_modes ! 4\<rparr>"

definition idle_iso :: "unit iso_state" where
  "idle_iso = \<lparr>st_strm = \<lparr>is_xfers = [], is_num_xfers = 0, is_pkts = 0, is_len = 0, is_dead = False,
     is_dead_xfers = 0\<rparr>, st_device_dead = False, st_inflight = {}, st_client = ()\<rparr>"

definition sample_dev :: "sim_cam freenect_device" where
  "sample_dev = \<lparr>usb_state = usb_state sim_start, cam_tag = 0, cam_pid = PID_K4W_CAMERA,
     fd_depth_cb = True, fd_video_cb = True, fd_depth_chunk_cb = None, fd_video_chunk_cb = None,
     fd_video_format = VIDEO_RGB, fd_depth_format = DEPTH_11BIT, fd_video_resolution = RESOLUTION_MEDIUM,
     fd_depth_resolution = RESOLUTION_MEDIUM, fd_depth = sample_stream, fd_video = sample_stream,
     fd_registration = sample_reg, fd_zero_plane_res = 322, fd_depth_isoc = idle_iso, fd_video_isoc = idle_iso,
     fd_frames = []\<rparr>"

lemma answers_same_ops:
  assumes "ctl_in ops' = ctl_in ops" "ctl_out ops' = ctl_out ops" "answers ops cmd tag p u rep u'"
  shows "answers ops' cmd tag p u rep u'"
proof -
  have r: "becomes_ready ops v xs v' \<Longrightarrow> becomes_ready ops' v xs v'" for v xs v'
    by (induction rule: becomes_ready.induct) (auto simp: assms(1) intro: becomes_ready.intros)
  show ?thesis using assms(3) by (auto simp: answers_def assms(2) intro: r)
qed

lemma sample_answers:
  assumes "sim_serve cmd p c = (rep, c')" "even (length p)" "length p \<le> 0x3f8" "even (length rep)" "length rep < 0x1f8"
  shows "answers sample_env cmd tag p c rep (c'\<lparr>sim_wait := 0, sim_reply := reply_packet cmd tag rep\<rparr>)"
  by (rule answers_same_ops [OF _ _ sim_answers [OF assms]]) (simp_all add: sample_env_def)

lemma sample_writes: "\<exists>d'. write_registers sample_env rvs (d :: sim_cam freenect_device) = Some d'"
proof (induction rvs arbitrary: d)
  case (Cons rv rvs)
  obtain c' where "sim_serve 0x03 (bytes16 (fst rv) @ bytes16 (snd rv)) (usb_state d) = (bytes16 0, c')"
    by (simp add: sim_serve_def Let_def)
  from write_register_answers [OF sample_answers [OF this]] Cons.IH show ?case by fastforce
qed simp

text \<open>The same device asked for registered depth.\<close>

definition sample_reg_dev :: "sim_cam freenect_device" where
  "sample_reg_dev = sample_dev\<lparr>fd_depth_format := DEPTH_REGISTERED\<rparr>"

lemma sample_start_registered:
  obtains dev' h' where "freenect_start_depth sample_env (sample_reg_dev, sample_heap) = Some (0, (dev', h'))"
proof -
  let ?dev1 = "sample_reg_dev\<lparr>fd_depth := (fd_depth sample_reg_dev)\<lparr>ps_pkt_size := DEPTH_PKTDSIZE, ps_flag := 0x70, ps_variable_length := False\<rparr>\<rparr>"
  obtain reg where r: "freenect_init_registration sample_fp sample_reg = Some reg" using sample_init by blast
  have d: "fd_depth_format ?dev1 = DEPTH_REGISTERED" "fd_registration ?dev1 = sample_reg" "env_fp sample_env = sample_fp"
    by (simp_all add: sample_reg_dev_def sample_dev_def sample_env_def)
  have "\<exists>dev2 h2. start_depth_stream sample_env (?dev1, sample_heap) = Some (Some (dev2, h2))"
    unfolding start_depth_stream_def Let_def prod.case d depth_format.case r option.case
    by (simp split: prod.split)
  then obtain dev2 h2 where s: "start_depth_stream sample_env (?dev1, sample_heap) = Some (Some (dev2, h2))" by blast
  obtain istrm where i: "fnusb_start_iso (env_alloc sample_env) (env_submit sample_env) NUM_XFERS PKTS_PER_XFER
       (fnusb_get_max_iso_packet_size (env_max_iso sample_env) DEPTH_PKTBUF) (fd_depth_isoc dev2) = (0, istrm)"
    by (simp add: fnusb_start_iso_def)
  obtain dev4 where "write_registers sample_env (depth_start_regs (fd_depth_format dev2)) (dev2\<lparr>fd_depth_isoc := istrm\<rparr>) = Some dev4"
    using sample_writes by blast
  moreover have "\<not> ps_running (fd_depth sample_reg_dev)" by (simp add: sample_reg_dev_def sample_dev_def sample_stream_def)
  ultimately show ?thesis using s i that by (simp add: freenect_start_depth_def)
qed

lemma sample_start_depth:
  obtains dev' h' where "freenect_start_depth sample_env (sample_dev, sample_heap) = Some (0, (dev', h'))"
proof -
  let ?dev1 = "sample_dev\<lparr>fd_depth := (fd_depth sample_dev)\<lparr>ps_pkt_size := DEPTH_PKTDSIZE, ps_flag := 0x70, ps_variable_length := False\<rparr>\<rparr>"
  have "fd_depth_format ?dev1 = DEPTH_11BIT" by (simp add: sample_dev_def)
  then obtain dev2 h2 where s: "start_depth_stream sample_env (?dev1, sample_heap) = Some (Some (dev2, h2))"
    by (cases "stream_init sample_heap (fd_depth ?dev1) (depth_bytes sample_env ?dev1 DEPTH_11BIT_PACKED)
        (depth_bytes sample_env ?dev1 DEPTH_11BIT)") (simp add: start_depth_stream_def)
  obtain istrm where i: "fnusb_start_iso (env_alloc sample_env) (env_submit sample_env) NUM_XFERS PKTS_PER_XFER
       (fnusb_get_max_iso_packet_size (env_max_iso sample_env) DEPTH_PKTBUF) (fd_depth_isoc dev2) = (0, istrm)"
    by (simp add: fnusb_start_iso_def)
  obtain dev4 where "write_registers sample_env (depth_start_regs (fd_depth_format dev2)) (dev2\<lparr>fd_depth_isoc := istrm\<rparr>) = Some dev4"
    using sample_writes by blast
  moreover have "\<not> ps_running (fd_depth sample_dev)" by (simp add: sample_dev_def sample_stream_def)
  ultimately show ?thesis using s i that by (simp add: freenect_start_depth_def)
qed

lemma sample_depth_client: "depth_client_ok sample_env (sample_dev, sample_heap)"
  by (simp add: depth_client_ok_def sample_dev_def sample_heap_wf chunk_ok_def sample_stream_def)

lemma sample_reg_depth_client: "depth_client_ok sample_env (sample_reg_dev, sample_heap)"
  using sample_calibration sample_fp_ok
  by (simp add: depth_client_ok_def sample_reg_dev_def sample_dev_def sample_heap_wf chunk_ok_def sample_stream_def
      sample_env_def) (simp add: sample_reg_def)

text \<open>What a camera and a host may deliver: too short, without magic, a start of frame, garbage.\<close>

definition sample_packets :: "bytes list" where
  "sample_packets = [[], [0x52], replicate 12 0, [0x52, 0x42, 0, 0x71, 0, 7, 0, 0, 1, 0, 0, 0, 42], replicate 1920 0x52]"

theorem depth_handler_never_faults_witness:
  "\<exists>st1 st2. freenect_start_depth sample_env (sample_reg_dev, sample_heap) = Some (0, st1)
     \<and> run_packets depth_process sample_packets st1 = Some st2"
proof -
  obtain dev' h' where s: "freenect_start_depth sample_env (sample_reg_dev, sample_heap) = Some (0, (dev', h'))"
    by (rule sample_start_registered)
  with depth_handler_never_faults [OF sample_reg_depth_client s, of sample_packets] show ?thesis by blast
qed

lemma depth_session_releases_example:
  "\<exists>st1 st2 dev3 h3. freenect_start_depth sample_env (sample_dev, sample_heap) = Some (0, st1)
     \<and> run_packets depth_process sample_packets st1 = Some st2
     \<and> freenect_stop_depth sample_env st2 = Some (0, (dev3, h3)) \<and> dom (blocks h3) = dom (blocks sample_heap)"
proof -
  obtain dev' h' where s: "freenect_start_depth sample_env (sample_dev, sample_heap) = Some (0, (dev', h'))"
    by (rule sample_start_depth)
  obtain istrm where d: "depth_session (dom (blocks sample_heap)) istrm (dev', h')"
    and i: "fnusb_start_iso (env_alloc sample_env) (env_submit sample_env) NUM_XFERS PKTS_PER_XFER
       (fnusb_get_max_iso_packet_size (env_max_iso sample_env) DEPTH_PKTBUF) (fd_depth_isoc sample_dev) = (0, istrm)"
    using start_depth_session [OF s sample_depth_client] by blast
  obtain dev2 h2 where p: "run_packets depth_process sample_packets (dev', h') = Some (dev2, h2)"
    and d2: "depth_session (dom (blocks sample_heap)) istrm (dev2, h2)"
    using depth_session.run_ok [OF d, of sample_packets] by fastforce
  have idle: "st_inflight (fd_depth_isoc sample_dev) = {}" by (simp add: sample_dev_def idle_iso_def)
  note x = fnusb_start_iso_inv [OF i idle]
  have "st_inflight istrm = {i. i < 6}" "is_xfers (st_strm istrm) = map Some [0..<6]"
    using x by (simp_all add: sample_env_def NUM_XFERS_def)
  moreover have "fd_depth_isoc dev2 = istrm" using d2 by (simp add: depth_session_def)
  moreover have "write_registers sample_env [(0x06, 0x00)] (dev2\<lparr>fd_depth := (fd_depth dev2)\<lparr>ps_running := False\<rparr>\<rparr>) \<noteq> None"
    using sample_writes by blast
  ultimately have "depth_stop_ready sample_env dev2"
    by (simp add: depth_stop_ready_def sample_env_def comp_def atLeast0LessThan lessThan_def)
  from depth_session_releases [OF sample_depth_client s idle p this] s p show ?thesis by blast
qed

lemma sample_start_video:
  obtains dev' h' where "freenect_start_video sample_env (sample_dev, h) = Some (0, (dev', h'))"
proof -
  let ?dev1 = "sample_dev\<lparr>fd_video := (fd_video sample_dev)\<lparr>ps_pkt_size := VIDEO_PKTDSIZE, ps_flag := 0x80, ps_variable_length := False\<rparr>\<rparr>"
  have f: "fd_video_format sample_dev = VIDEO_RGB" "fd_video_resolution sample_dev = RESOLUTION_MEDIUM"
    "\<not> ps_running (fd_video sample_dev)" by (simp_all add: sample_dev_def sample_stream_def)
  obtain dev3 h3 where s: "start_video_stream sample_env (?dev1, h) = (dev3, h3)" by fastforce
  obtain r istrm where i: "fnusb_start_iso (env_alloc sample_env) (env_submit sample_env) NUM_XFERS PKTS_PER_XFER
       (fnusb_get_max_iso_packet_size (env_max_iso sample_env) VIDEO_PKTBUF) (fd_video_isoc dev3) = (r, istrm)" "r = 0"
    by (simp add: fnusb_start_iso_def)
  obtain dev5 where "write_registers sample_env ([(0x0c, 0x00), (0x0d, 0x01), (0x0e, 0x1e)] @ video_start_regs VIDEO_RGB @ [(0x47, 0x00)])
      (dev3\<lparr>fd_video_isoc := istrm\<rparr>) = Some dev5"
    using sample_writes by blast
  then show ?thesis using s i that f by (simp add: freenect_start_video_def video_regs_def is_ir_high_def)
qed

lemma sample_video_client: "video_client_ok sample_env (sample_dev, sample_heap)"
  by (simp add: video_client_ok_def sample_dev_def sample_heap_wf chunk_ok_def sample_stream_def)

theorem video_handler_never_faults_witness:
  "\<exists>st1 st2. freenect_start_video sample_env (sample_dev, sample_heap) = Some (0, st1)
     \<and> run_packets (video_process sample_env) sample_packets st1 = Some st2"
proof -
  obtain dev' h' where s: "freenect_start_video sample_env (sample_dev, sample_heap) = Some (0, (dev', h'))"
    by (rule sample_start_video)
  with video_handler_never_faults [OF sample_video_client s, of sample_packets] show ?thesis by blast
qed

lemma video_start_accepts_supported_example:
  "video_regs VIDEO_YUV_RGB RESOLUTION_HIGH = None"
proof -
  have "\<not> (\<exists>m \<in> set supported_video_modes. fm_format m = VIDEO_YUV_RGB \<and> fm_resolution m = RESOLUTION_HIGH)"
    by (simp add: supported_video_modes_def frame_mode_row_def)
  then show ?thesis using video_start_accepts_supported [of VIDEO_YUV_RGB RESOLUTION_HIGH] by blast
qed

lemma sim_serve_sizes:
  "sim_serve 0x16 p c = (replicate (if le16 (p ! 0) (p ! 1) = 0x40 then 118 else if le16 (p ! 0) (p ! 1) = 0x41 then 8 else 4) 0, c)"
  "sim_serve 0x04 p c = (replicate 322 0, c)"
  by (simp_all add: sim_serve_def Let_def)

lemma set_video_mode_then_get_example:
  "\<exists>dev'. freenect_set_video_mode sample_env (supported_video_modes ! 4) sample_dev = Some (0, dev')
     \<and> freenect_get_current_video_mode sample_env dev' = supported_video_modes ! 4"
proof -
  let ?m = "supported_video_modes ! 4"
  have m: "?m \<in> set supported_video_modes" by (simp add: supported_video_modes_def)
  have stopped: "\<not> ps_running (fd_video sample_dev)" by (simp add: sample_dev_def sample_stream_def)
  have "\<exists>r dev'. freenect_set_video_mode sample_env ?m sample_dev = Some (r, dev')"
  proof -
    define dev1 where "dev1 = sample_dev\<lparr>fd_video_format := video_of (RESERVED_TO_FORMAT (fm_reserved ?m)),
      fd_video_resolution := RESERVED_TO_RESOLUTION (fm_reserved ?m)\<rparr>"
    have a0: "param_cmd sample_env 0x40 dev1 ! 0 = 0x40" "param_cmd sample_env 0x40 dev1 ! 1 = 0"
      by (simp_all add: param_cmd_def bytes16_def Let_def nth_append)
    then have "le16 (param_cmd sample_env 0x40 dev1 ! 0) (param_cmd sample_env 0x40 dev1 ! 1) = 0x40"
      by (simp only: a0) (simp add: le16_def)
    then have "sim_serve 0x16 (param_cmd sample_env 0x40 dev1) (usb_state dev1) = (replicate 118 0, usb_state dev1)"
      by (simp only: sim_serve_sizes) simp
    from fetch_reg_info_answered [OF sample_answers [OF this]] show ?thesis
      using stopped find_reserved_distinct [OF video_modes_distinct m]
      by (simp add: freenect_set_video_mode_def dev1_def)
  qed
  then obtain r dev' where "freenect_set_video_mode sample_env ?m sample_dev = Some (r, dev')" by blast
  with set_video_mode_then_get [OF m this] stopped show ?thesis by auto
qed

lemma first_command_uninitialised_example:
  "param_cmd sample_env 0x41 (sample_dev\<lparr>fd_video_resolution := RESOLUTION_LOW\<rparr>)
     = [0x41, 0, 0, 0, 2, 0, 10, 0, 0, 0]"
proof -
  have "fd_video_resolution (sample_dev\<lparr>fd_video_resolution := RESOLUTION_LOW\<rparr>) = RESOLUTION_LOW" by simp
  from conjunct2 [OF first_command_uninitialised [OF this, of sample_env "0x41"]] show ?thesis
    by (simp add: sample_env_def supported_video_modes_def frame_mode_row_def bytes16_def)
qed

definition both_running :: "sim_cam freenect_device" where
  "both_running = sample_dev\<lparr>fd_depth := sample_stream\<lparr>ps_running := True\<rparr>,
     fd_video := sample_stream\<lparr>ps_running := True\<rparr>\<rparr>"

lemma teardown_leaves_video_running_example:
  "\<exists>dev' h'. freenect_camera_teardown sample_env (both_running, sample_heap) = Some (0, (dev', h'))
     \<and> ps_running (fd_video dev')"
proof -
  have run: "ps_running (fd_depth both_running)" "ps_running (fd_video both_running)" by (simp_all add: both_running_def)
  obtain dev1 where w: "write_registers sample_env [(0x06, 0x00)]
      (both_running\<lparr>fd_depth := (fd_depth both_running)\<lparr>ps_running := False\<rparr>\<rparr>) = Some dev1"
    using sample_writes by blast
  note f = write_registers_fields [OF w]
  have d1: "fd_depth_isoc dev1 = idle_iso" "\<not> ps_split_bufs (fd_depth dev1)" "ps_lib_buf (fd_depth dev1) = NULL"
    by (simp_all add: f both_running_def sample_dev_def sample_stream_def)
  obtain istrm where i: "fnusb_stop_iso no_client (env_completions sample_env) idle_iso = Some (0, istrm)"
    by (simp add: sample_env_def fnusb_stop_iso_def idle_iso_def upt_conv_Cons)
  have "\<exists>dev' h'. freenect_camera_teardown sample_env (both_running, sample_heap) = Some (0, (dev', h'))"
    using run w i d1 by (simp add: freenect_camera_teardown_def freenect_stop_depth_def stream_freebufs_def)
  then obtain dev' h' where t: "freenect_camera_teardown sample_env (both_running, sample_heap) = Some (0, (dev', h'))"
    by blast
  with teardown_leaves_video_running [OF run t] show ?thesis by blast
qed

lemma camera_init_reads_calibration_example:
  "\<exists>dev'. freenect_camera_init sample_env sample_dev = Some (0, dev') \<and> cam_tag dev' = 4
     \<and> fd_depth_format dev' = DEPTH_11BIT"
proof -
  have p: "param_cmd sample_env 0x41 sample_dev = medium_cmd 0x41"
    by (rule param_cmd_medium) (simp_all add: sample_dev_def)
  have "sim_serve 0x16 (medium_cmd 0x41) c = (replicate 8 0, c)"
    "sim_serve 0x16 (medium_cmd 0x40) c = (replicate 118 0, c)"
    "sim_serve 0x16 (medium_cmd 0) c = (replicate 4 0, c)" for c
    by (simp_all add: sim_serve_sizes medium_cmd_def bytes16_def le16_def)
  note serve = this sim_serve_sizes(2)
  obtain u1 where a1: "answers sample_env 0x16 (cam_tag sample_dev) (param_cmd sample_env 0x41 sample_dev) (usb_state sample_dev) (replicate 8 0) u1"
    using sample_answers [OF serve(1)] unfolding p by (fastforce simp: medium_cmd_def)
  obtain u2 where a2: "answers sample_env 0x04 (cam_tag sample_dev + 1) (replicate 10 0) u1 (replicate 322 0) u2"
    using sample_answers [OF serve(4), of "replicate 10 0"] by fastforce
  obtain u3 where a3: "answers sample_env 0x16 (cam_tag sample_dev + 2) (medium_cmd 0x40) u2 (replicate 118 0) u3"
    using sample_answers [OF serve(2)] by (fastforce simp: medium_cmd_def)
  obtain u4 where a4: "answers sample_env 0x16 (cam_tag sample_dev + 3) (medium_cmd 0) u3 (replicate 4 0) u4"
    using sample_answers [OF serve(3)] by (fastforce simp: medium_cmd_def)
  have "length (replicate 322 0 :: bytes) = fd_zero_plane_res sample_dev" "110 \<le> length (replicate 322 0 :: bytes)"
    "\<not> ps_running (fd_video sample_dev)" "\<not> ps_running (fd_depth sample_dev)" "cam_tag sample_dev = 0"
    by (simp_all add: sample_dev_def sample_stream_def)
  from camera_init_reads_calibration [OF a1 _ a2 this(1,2) a3 _ a4 _ this(3,4)] this(5) show ?thesis by simp
qed

end
