(* ===== verification/Audio.thy ===== *)
theory Audio
  imports CMemory IsoStream
begin

text \<open>
  The microphone array, \<open>libfreenect/audio.c\<close>: the packets sent to the device
  (\<open>prepare_iso_out_data\<close>), the packets received from it (\<open>iso_in_callback\<close>), and start and stop
  of the two isochronous streams.  The buffers are blocks of the C heap; a store outside a block,
  or outside the array \<open>last_seen_window\<close>, is \<open>None\<close>.  The client's output callback is not
  called by this version of the code; the input callback is the list of windows delivered.
\<close>

section \<open>State\<close>

record audio_stream =
  au_running :: bool
  au_out_ring :: ptr
  ring_reader_idx :: int
  ring_writer_idx :: int
  out_window :: u16
  out_seq :: u8
  out_counter_within_window :: u8
  out_weird_timestamp :: u16
  out_window_parity :: u8
  in_window :: u16
  last_seen_window :: "u16 list"
  in_counter :: u8
  mic_buffer :: "ptr list"
  cancelled_buffer :: ptr
  in_unknown :: ptr

text \<open>One call of the input callback: the window and the contents of the five buffers then.\<close>

record audio_window =
  aw_window :: u16
  aw_mics :: "bytes option list"
  aw_cancelled :: "bytes option"

record audio_dev =
  ad_stream :: audio_stream
  ad_in_cb :: bool
  ad_out_cb :: bool
  ad_heap :: heap
  ad_windows :: "audio_window list"

section \<open>Output\<close>

definition weird_nibble :: "u16 \<Rightarrow> u8 \<Rightarrow> u8" where
  "weird_nibble ts k = ucast (push_bit 4 ((drop_bit (4 * unat k) (ucast ts :: u32)) AND 0x000f) OR 0x05)"

definition out_flag :: "audio_stream \<Rightarrow> u8" where
  "out_flag s =
     (let k = out_counter_within_window s; ts = out_weird_timestamp s
      in if out_window_parity s = 0 then
           (if k < 4 then weird_nibble ts k
            else if k < 8 then
              ucast (push_bit 4 ((drop_bit (4 * (unat k - 4)) (ucast ts + 23 :: u32)) AND 0x000f) OR 0x05)
            else 0x01)
         else (if k < 4 then weird_nibble ts k else 0x01))"

text \<open>The switch over the sequence number falls through from \<open>0x80\<close> to the window change.\<close>

definition out_advance :: "audio_stream \<Rightarrow> audio_stream" where
  "out_advance s =
     (let s1 = s\<lparr>out_seq := out_seq s + 1, out_counter_within_window := out_counter_within_window s + 1,
                 out_weird_timestamp := out_weird_timestamp s + (if out_window_parity s = 1 then 6 else 5)\<rparr>;
          s2 = (if out_seq s1 = 0x80 then s1\<lparr>out_seq := 0\<rparr> else s1);
          s3 = (if out_seq s1 = 0x80 \<or> out_seq s1 = 0x2b \<or> out_seq s1 = 0x56
                then s2\<lparr>out_counter_within_window := 0, out_window := out_window s2 + 1,
                        out_window_parity := out_window_parity s2 + 1\<rparr>
                else s2)
      in if out_window_parity s3 = 3 then s3\<lparr>out_window_parity := 0\<rparr> else s3)"

definition prepare_iso_out_data :: "audio_dev \<Rightarrow> bytes \<Rightarrow> (bytes \<times> audio_dev) option" where
  "prepare_iso_out_data d buffer =
     (let s = ad_stream d
      in case (if ad_out_cb d then Some buffer else put_bytes 0 (replicate 76 0) buffer) of None \<Rightarrow> None
         | Some b \<Rightarrow>
             (case put_bytes 0 (bytes16 (out_window s) @ [out_seq s, out_flag s]) b of None \<Rightarrow> None
              | Some b' \<Rightarrow> Some (b', d\<lparr>ad_stream := out_advance s\<rparr>)))"

definition iso_out_callback :: "audio_dev \<Rightarrow> bytes \<Rightarrow> (bytes \<times> audio_dev) option" where
  "iso_out_callback d pkt = prepare_iso_out_data d pkt"

section \<open>Input\<close>

record audio_in_block =
  ab_magic :: u32
  ab_channel :: u16
  ab_len :: u16
  ab_window :: u16
  ab_samples :: bytes

definition read_audio_block :: "bytes \<Rightarrow> audio_in_block" where
  "read_audio_block pkt =
     \<lparr>ab_magic = le32 (pkt ! 0) (pkt ! 1) (pkt ! 2) (pkt ! 3), ab_channel = le16 (pkt ! 4) (pkt ! 5),
      ab_len = le16 (pkt ! 6) (pkt ! 7), ab_window = le16 (pkt ! 8) (pkt ! 9), ab_samples = drop 12 pkt\<rparr>"

text \<open>The packet belongs to another window: the collected one goes to the client.\<close>

definition change_window :: "audio_dev \<Rightarrow> u16 \<Rightarrow> audio_dev" where
  "change_window d w =
     (let s = ad_stream d
      in if w \<noteq> in_window s
         then d\<lparr>ad_stream := s\<lparr>in_window := w\<rparr>,
                ad_windows := (if ad_in_cb d
                  then ad_windows d @ [\<lparr>aw_window = in_window s, aw_mics = map (blocks (ad_heap d)) (mic_buffer s),
                                        aw_cancelled = blocks (ad_heap d) (cancelled_buffer s)\<rparr>]
                  else ad_windows d)\<rparr>
         else d)"

text \<open>Channel 1 is the cancelled sound; the channels 2 to 9 are the two halves of the four
  microphone buffers of 256 samples of 4 bytes.\<close>

definition store_samples :: "audio_dev \<Rightarrow> nat \<Rightarrow> bytes \<Rightarrow> heap option" where
  "store_samples d channel samples =
     (let s = ad_stream d; h = ad_heap d
      in if channel = 1 then mem_write (cancelled_buffer s) 0 (take 512 samples) h
         else if 2 \<le> channel \<and> channel \<le> 9 then
           (if odd channel then mem_write (mic_buffer s ! ((channel - 2) div 2)) 512 (take 512 samples) h
            else mem_write (mic_buffer s ! ((channel - 2) div 2)) 0 (take 512 samples) h)
         else Some h)"

definition iso_in_callback :: "bytes \<Rightarrow> audio_dev \<Rightarrow> audio_dev option" where
  "iso_in_callback pkt d =
     (if length pkt = 524 then
        (let block = read_audio_block pkt
         in if ab_magic block \<noteq> 0x80000080 then Some d
            else
              (let d1 = change_window d (ab_window block); channel = unat (ab_channel block)
               in case store_samples d1 channel (ab_samples block) of None \<Rightarrow> None
                  | Some h \<Rightarrow>
                      (if channel = 0 \<or> length (last_seen_window (ad_stream d1)) < channel then None
                       else Some (d1\<lparr>ad_heap := h, ad_stream := (ad_stream d1)
                         \<lparr>last_seen_window := (last_seen_window (ad_stream d1))[channel - 1 := ab_window block]\<rparr>\<rparr>))))
      else Some d)"

section \<open>Starting and stopping\<close>

definition calloc_bytes :: "nat \<Rightarrow> heap \<Rightarrow> (ptr \<times> heap)" where
  "calloc_bytes n h = (let (p, h1) = malloc n h in (p, store p (replicate n 0) h1))"

definition audio_buffers :: "heap \<Rightarrow> audio_stream \<Rightarrow> audio_stream \<times> heap" where
  "audio_buffers h s =
     (let (ring, h1) = calloc_bytes (256 * 12) h; (can, h2) = calloc_bytes 512 h1;
          (m0, h3) = calloc_bytes 1024 h2; (m1, h4) = calloc_bytes 1024 h3;
          (m2, h5) = calloc_bytes 1024 h4; (m3, h6) = calloc_bytes 1024 h5;
          (unk, h7) = malloc 48 h6
      in (s\<lparr>au_out_ring := ring, cancelled_buffer := can, mic_buffer := [m0, m1, m2, m3], in_unknown := unk\<rparr>, h7))"

definition audio_reset :: "audio_stream \<Rightarrow> audio_stream" where
  "audio_reset s = s\<lparr>ring_reader_idx := 0, ring_writer_idx := 0, out_window := 0, out_seq := 0,
     out_counter_within_window := 0, out_weird_timestamp := 0, out_window_parity := 0, in_window := 0,
     in_counter := 0, last_seen_window := replicate 10 0\<rparr>"

text \<open>\<open>start_in\<close> and \<open>start_out\<close> are the results of the two calls of \<open>fnusb_start_iso\<close>.\<close>

definition freenect_start_audio :: "int \<Rightarrow> int \<Rightarrow> audio_dev \<Rightarrow> int \<times> audio_dev" where
  "freenect_start_audio start_in start_out d =
     (if au_running (ad_stream d) then (-1, d)
      else
        (let (s, h) = audio_buffers (ad_heap d) (ad_stream d);
             d1 = d\<lparr>ad_stream := audio_reset s, ad_heap := h\<rparr>
         in if start_in < 0 then (start_in, d1)
            else if start_out < 0 then (start_out, d1)
            else (0, d1\<lparr>ad_stream := (ad_stream d1)\<lparr>au_running := True\<rparr>\<rparr>)))"

primrec free_all :: "ptr list \<Rightarrow> heap \<Rightarrow> heap option" where
  "free_all [] h = Some h"
| "free_all (p # ps) h = (case (if p \<noteq> NULL then free p h else Some h) of None \<Rightarrow> None | Some h' \<Rightarrow> free_all ps h')"

definition freenect_stop_audio :: "int \<Rightarrow> int \<Rightarrow> audio_dev \<Rightarrow> (int \<times> audio_dev) option" where
  "freenect_stop_audio stop_in stop_out d =
     (if \<not> au_running (ad_stream d) then Some (-1, d)
      else
        (let s = ad_stream d; d1 = d\<lparr>ad_stream := s\<lparr>au_running := False\<rparr>\<rparr>
         in if stop_in < 0 then Some (stop_in, d1)
            else if stop_out < 0 then Some (stop_out, d1)
            else
              (case free_all ([au_out_ring s, cancelled_buffer s, in_unknown s] @ mic_buffer s) (ad_heap d1) of None \<Rightarrow> None
               | Some h \<Rightarrow> Some (0, d1\<lparr>ad_heap := h, ad_stream := (ad_stream d1)
                   \<lparr>mic_buffer := map (\<lambda>_. NULL) (mic_buffer s), au_out_ring := NULL, cancelled_buffer := NULL,
                    in_unknown := NULL\<rparr>\<rparr>))))"

definition freenect_set_audio_in_callback :: "bool \<Rightarrow> audio_dev \<Rightarrow> audio_dev" where
  "freenect_set_audio_in_callback cb d = d\<lparr>ad_in_cb := cb\<rparr>"

definition freenect_set_audio_out_callback :: "bool \<Rightarrow> audio_dev \<Rightarrow> audio_dev" where
  "freenect_set_audio_out_callback cb d = d\<lparr>ad_out_cb := cb\<rparr>"

section \<open>The schedule of the output packets\<close>


lemma of_nat_u8_eq: "k < 256 \<Longrightarrow> l < 256 \<Longrightarrow> (of_nat k :: u8) = of_nat l \<longleftrightarrow> k = l"
  by (simp add: word_of_nat_eq_iff take_bit_nat_eq_self)

text \<open>Packet \<open>m\<close> of a cycle of 128 is in part 0, 1 or 2, windows of 43, 43 and 42 packets.\<close>

definition cycle_part :: "nat \<Rightarrow> nat" where
  "cycle_part m = (if m < 43 then 0 else if m < 86 then 1 else 2)"

definition sched_ok :: "nat \<Rightarrow> audio_stream \<Rightarrow> bool" where
  "sched_ok n s \<longleftrightarrow>
     (let m = n mod 128 in out_seq s = of_nat m \<and> out_counter_within_window s = of_nat (m - 43 * cycle_part m)
        \<and> out_window s = of_nat (3 * (n div 128) + cycle_part m) \<and> out_window_parity s = of_nat (cycle_part m))"

text \<open>One advance, by the sequence number it starts from.\<close>

lemma out_advance_seq:
  assumes "out_seq s = of_nat m" "m < 128"
  shows "out_advance s =
    (let s1 = s\<lparr>out_seq := of_nat (Suc m mod 128), out_counter_within_window := out_counter_within_window s + 1,
                out_weird_timestamp := out_weird_timestamp s + (if out_window_parity s = 1 then 6 else 5)\<rparr>;
         s3 = (if Suc m = 128 \<or> Suc m = 43 \<or> Suc m = 86
               then s1\<lparr>out_counter_within_window := 0, out_window := out_window s + 1,
                       out_window_parity := out_window_parity s + 1\<rparr> else s1)
     in if out_window_parity s3 = 3 then s3\<lparr>out_window_parity := 0\<rparr> else s3)"
proof -
  have e: "(of_nat (Suc m) = (0x80 :: u8)) = (Suc m = 128)" "(of_nat (Suc m) = (0x2b :: u8)) = (Suc m = 43)"
    "(of_nat (Suc m) = (0x56 :: u8)) = (Suc m = 86)"
    using of_nat_u8_eq [of "Suc m" 128] of_nat_u8_eq [of "Suc m" 43] of_nat_u8_eq [of "Suc m" 86] assms(2) by simp_all
  have seq: "out_seq s + 1 = of_nat (Suc m)" using assms(1) by (simp add: add.commute)
  show ?thesis
    unfolding out_advance_def Let_def seq
    using e assms(2) by (cases "Suc m = 128") (simp_all add: seq del: of_nat_Suc)
qed

lemma sched_step:
  assumes "sched_ok n s"
  shows "sched_ok (Suc n) (out_advance s)"
proof -
  define m where "m = n mod 128"
  have m: "m < 128" by (simp add: m_def)
  have s: "out_seq s = of_nat m" "out_counter_within_window s = of_nat (m - 43 * cycle_part m)"
    "out_window s = of_nat (3 * (n div 128) + cycle_part m)" "out_window_parity s = of_nat (cycle_part m)"
    using assms by (simp_all add: sched_ok_def m_def Let_def)
  note adv = out_advance_seq [OF s(1) m]
  consider "m = 127" | "m = 42" | "m = 85" | "m \<noteq> 127" "m \<noteq> 42" "m \<noteq> 85" by blast
  then show ?thesis
  proof cases
    case 1
    then have "Suc n mod 128 = 0" "Suc n div 128 = Suc (n div 128)" by (simp_all add: m_def mod_Suc div_Suc)
    then show ?thesis unfolding sched_ok_def adv using s 1 by (simp add: Let_def cycle_part_def algebra_simps)
  next
    case 2
    then have "Suc n mod 128 = 43" "Suc n div 128 = n div 128" by (simp_all add: m_def mod_Suc div_Suc)
    then show ?thesis unfolding sched_ok_def adv using s 2 by (simp add: Let_def cycle_part_def algebra_simps)
  next
    case 3
    then have "Suc n mod 128 = 86" "Suc n div 128 = n div 128" by (simp_all add: m_def mod_Suc div_Suc)
    then show ?thesis unfolding sched_ok_def adv using s 3 by (simp add: Let_def cycle_part_def algebra_simps)
  next
    case 4
    then have d: "Suc n mod 128 = Suc m" "Suc n div 128 = n div 128" "Suc m mod 128 = Suc m"
      using m by (auto simp: m_def mod_Suc div_Suc)
    have part: "cycle_part (Suc m) = cycle_part m" "Suc m - 43 * cycle_part m = Suc (m - 43 * cycle_part m)"
      "cycle_part m < 3" using 4 m by (auto simp: cycle_part_def)
    have "(of_nat (cycle_part m) :: u8) \<noteq> 3"
      using of_nat_u8_eq [of "cycle_part m" 3] part(3) by simp
    then show ?thesis unfolding sched_ok_def adv using s 4 m
      by (simp add: Let_def d part)
  qed
qed

lemma sched_reset: "sched_ok 0 (audio_reset s)"
  by (simp add: sched_ok_def audio_reset_def cycle_part_def)

lemma sched_iterate: "sched_ok n ((out_advance ^^ n) (audio_reset s))"
  by (induction n) (auto intro: sched_reset sched_step)

section \<open>The buffers\<close>

text \<open>Sizes of the blocks a started stream has.\<close>

definition audio_inv :: "audio_dev \<Rightarrow> bool" where
  "audio_inv d \<longleftrightarrow>
     (let s = ad_stream d; h = ad_heap d
      in length (last_seen_window s) = 10 \<and> length (mic_buffer s) = 4
         \<and> (\<forall>i < 4. block_size h (mic_buffer s ! i) = Some 1024) \<and> block_size h (cancelled_buffer s) = Some 512)"

lemma write_fits:
  "block_size h p = Some n \<Longrightarrow> off + length xs \<le> n \<Longrightarrow>
     \<exists>h'. mem_write p off xs h = Some h' \<and> block_size h' = block_size h"
  using mem_write_ok [of h p n off xs] mem_write_block_size [of p off xs h] by fastforce

lemma store_samples_ok:
  assumes "audio_inv d"
  shows "\<exists>h. store_samples d channel samples = Some h \<and> block_size h = block_size (ad_heap d)"
proof -
  have m: "block_size (ad_heap d) (mic_buffer (ad_stream d) ! i) = Some 1024" if "i < 4" for i
    using assms that by (simp add: audio_inv_def Let_def)
  have c: "block_size (ad_heap d) (cancelled_buffer (ad_stream d)) = Some 512"
    using assms by (simp add: audio_inv_def Let_def)
  show ?thesis
  proof (cases "2 \<le> channel \<and> channel \<le> 9")
    case True
    then have "(channel - 2) div 2 < 4" by auto
    from m [OF this] True show ?thesis
      using write_fits [of "ad_heap d" "mic_buffer (ad_stream d) ! ((channel - 2) div 2)" 1024]
      by (auto simp: store_samples_def Let_def)
  next
    case False
    then show ?thesis using write_fits [OF c, of 0 "take 512 samples"] by (auto simp: store_samples_def Let_def)
  qed
qed

lemma change_window_simps [simp]:
  "ad_heap (change_window d w) = ad_heap d" "last_seen_window (ad_stream (change_window d w)) = last_seen_window (ad_stream d)"
  "mic_buffer (ad_stream (change_window d w)) = mic_buffer (ad_stream d)"
  "cancelled_buffer (ad_stream (change_window d w)) = cancelled_buffer (ad_stream d)"
  "audio_inv (change_window d w) = audio_inv d"
  by (simp_all add: change_window_def audio_inv_def Let_def)

text \<open>A data packet: the length of one, and the magic number.\<close>

definition audio_data_packet :: "bytes \<Rightarrow> bool" where
  "audio_data_packet pkt \<longleftrightarrow> length pkt = 524 \<and> ab_magic (read_audio_block pkt) = 0x80000080"

lemma iso_in_callback_inv:
  assumes "audio_inv d" "iso_in_callback pkt d = Some d'"
  shows "audio_inv d'"
proof (cases "audio_data_packet pkt")
  case True
  let ?w = "ab_window (read_audio_block pkt)"
  obtain h where h: "store_samples (change_window d ?w) (unat (ab_channel (read_audio_block pkt))) (ab_samples (read_audio_block pkt)) = Some h"
    "block_size h = block_size (ad_heap d)"
    using store_samples_ok [of "change_window d ?w"] assms(1) by fastforce
  then show ?thesis using assms True
    by (auto simp: iso_in_callback_def audio_data_packet_def audio_inv_def Let_def split: if_splits)
qed (use assms in \<open>auto simp: iso_in_callback_def audio_data_packet_def Let_def split: if_splits\<close>)

lemma calloc_bytes_size:
  "calloc_bytes n h = (p, h') \<Longrightarrow> block_size h' q = (if q = p then Some n else block_size h q)"
  by (auto simp: calloc_bytes_def malloc_def store_def block_size_def)

lemma calloc_bytes_wf:
  "heap_wf h \<Longrightarrow> calloc_bytes n h = (p, h') \<Longrightarrow> heap_wf h' \<and> p = next_ptr h \<and> next_ptr h' = Suc p \<and> p \<noteq> NULL"
  by (auto simp: calloc_bytes_def malloc_def store_def heap_wf_def)

lemma calloc_bytes_dom: "calloc_bytes n h = (p, h') \<Longrightarrow> dom (blocks h') = insert p (dom (blocks h))"
  by (auto simp: calloc_bytes_def malloc_def store_def)

lemma free_all_dom:
  "distinct ps \<Longrightarrow> NULL \<notin> set ps \<Longrightarrow> set ps \<subseteq> dom (blocks h) \<Longrightarrow>
     \<exists>h'. free_all ps h = Some h' \<and> dom (blocks h') = dom (blocks h) - set ps"
proof (induction ps arbitrary: h)
  case (Cons p ps)
  then obtain h1 where h1: "free p h = Some h1" using free_ok [of p h] by auto
  have d: "dom (blocks h1) = dom (blocks h) - {p}" using free_dom [OF h1] Cons.prems(2) by auto
  have "p \<notin> set ps" using Cons.prems(1) by simp
  then have "set ps \<subseteq> dom (blocks h1)" using Cons.prems(3) unfolding d by auto
  with Cons.IH [of h1] Cons.prems(1,2) obtain h' where "free_all ps h1 = Some h'"
    "dom (blocks h') = dom (blocks h1) - set ps" by auto
  then show ?case using h1 d Cons.prems(2) by auto
qed simp

text \<open>The seven blocks of a stream, in the order of their allocation.\<close>

definition audio_ptrs :: "audio_stream \<Rightarrow> ptr list" where
  "audio_ptrs s = [au_out_ring s, cancelled_buffer s, in_unknown s] @ mic_buffer s"

lemma audio_buffers_alloc:
  assumes "heap_wf h" "audio_buffers h s = (s', h')"
  shows "length (mic_buffer s') = 4" "\<forall>i < 4. block_size h' (mic_buffer s' ! i) = Some 1024"
    "block_size h' (cancelled_buffer s') = Some 512"
    "distinct (audio_ptrs s')" "NULL \<notin> set (audio_ptrs s')" "set (audio_ptrs s') \<inter> dom (blocks h) = {}"
    "dom (blocks h') = dom (blocks h) \<union> set (audio_ptrs s')" "au_running s' = au_running s"
proof -
  obtain ring h1 can h2 m0 h3 m1 h4 m2 h5 m3 h6 unk where
    a: "calloc_bytes (256 * 12) h = (ring, h1)" "calloc_bytes 512 h1 = (can, h2)" "calloc_bytes 1024 h2 = (m0, h3)"
      "calloc_bytes 1024 h3 = (m1, h4)" "calloc_bytes 1024 h4 = (m2, h5)" "calloc_bytes 1024 h5 = (m3, h6)"
    and u: "malloc 48 h6 = (unk, h')"
    and s': "s' = s\<lparr>au_out_ring := ring, cancelled_buffer := can, mic_buffer := [m0, m1, m2, m3], in_unknown := unk\<rparr>"
    using assms(2) by (auto simp: audio_buffers_def split: prod.splits)
  note w1 = calloc_bytes_wf [OF assms(1) a(1)]
  note w2 = calloc_bytes_wf [OF conjunct1 [OF w1] a(2)]
  note w3 = calloc_bytes_wf [OF conjunct1 [OF w2] a(3)]
  note w4 = calloc_bytes_wf [OF conjunct1 [OF w3] a(4)]
  note w5 = calloc_bytes_wf [OF conjunct1 [OF w4] a(5)]
  note w6 = calloc_bytes_wf [OF conjunct1 [OF w5] a(6)]
  have unk: "unk = next_ptr h6" "dom (blocks h') = insert unk (dom (blocks h6))"
    using u malloc_dom [OF u] by (auto simp: malloc_def)
  have ptrs: "can = Suc ring" "m0 = Suc can" "m1 = Suc m0" "m2 = Suc m1" "m3 = Suc m2" "unk = Suc m3"
    "ring = next_ptr h" "ring \<noteq> 0"
    using w1 w2 w3 w4 w5 w6 unk(1) by (elim conjE, simp)+
  note size = calloc_bytes_size [OF a(1)] calloc_bytes_size [OF a(2)] calloc_bytes_size [OF a(3)]
    calloc_bytes_size [OF a(4)] calloc_bytes_size [OF a(5)] calloc_bytes_size [OF a(6)] malloc_block_size [OF u]
  show "length (mic_buffer s') = 4" "au_running s' = au_running s" by (simp_all add: s')
  show "\<forall>i < 4. block_size h' (mic_buffer s' ! i) = Some 1024"
    by (simp add: s' size ptrs(1-6) All_less_Suc2 numeral_eq_Suc)
  show "block_size h' (cancelled_buffer s') = Some 512" by (simp add: s' size ptrs(1-6))
  show "distinct (audio_ptrs s')" "NULL \<notin> set (audio_ptrs s')"
    using ptrs(8) by (simp_all add: s' audio_ptrs_def ptrs(1-6))
  have fresh: "blocks h p = None" if "ring \<le> p" for p
    using assms(1) that ptrs(7) by (simp add: heap_wf_def)
  have "set (audio_ptrs s') = {ring, can, unk, m0, m1, m2, m3}" by (auto simp: s' audio_ptrs_def)
  moreover have "\<forall>p \<in> {ring, can, unk, m0, m1, m2, m3}. ring \<le> p" by (simp add: ptrs(1-6))
  ultimately show "set (audio_ptrs s') \<inter> dom (blocks h) = {}" using fresh by auto
  note doms = unk(2) calloc_bytes_dom [OF a(6)] calloc_bytes_dom [OF a(5)] calloc_bytes_dom [OF a(4)]
    calloc_bytes_dom [OF a(3)] calloc_bytes_dom [OF a(2)] calloc_bytes_dom [OF a(1)]
  have "dom (blocks h') = insert unk (insert m3 (insert m2 (insert m1 (insert m0 (insert can (insert ring (dom (blocks h))))))))"
    by (simp only: doms)
  then show "dom (blocks h') = dom (blocks h) \<union> set (audio_ptrs s')"
    using \<open>set (audio_ptrs s') = _\<close> by auto
qed

lemma start_audio_inv:
  assumes "heap_wf (ad_heap d)" "freenect_start_audio a b d = (0, d')"
  shows "audio_inv d' \<and> distinct (audio_ptrs (ad_stream d')) \<and> NULL \<notin> set (audio_ptrs (ad_stream d'))
    \<and> dom (blocks (ad_heap d')) = dom (blocks (ad_heap d)) \<union> set (audio_ptrs (ad_stream d'))
    \<and> set (audio_ptrs (ad_stream d')) \<inter> dom (blocks (ad_heap d)) = {} \<and> au_running (ad_stream d')"
proof -
  obtain s h where b: "audio_buffers (ad_heap d) (ad_stream d) = (s, h)" by fastforce
  have d': "d' = d\<lparr>ad_stream := (audio_reset s)\<lparr>au_running := True\<rparr>, ad_heap := h\<rparr>"
    using assms(2) b by (auto simp: freenect_start_audio_def Let_def split: if_splits)
  have p: "audio_ptrs (ad_stream d') = audio_ptrs s" by (simp add: d' audio_ptrs_def audio_reset_def)
  show ?thesis unfolding p
    using audio_buffers_alloc [OF assms(1) b] by (simp add: d' audio_inv_def audio_reset_def)
qed

text \<open>\<open>n\<close> packets sent: the device asks for each in a buffer of 76 bytes.\<close>

primrec out_run :: "nat \<Rightarrow> audio_dev \<Rightarrow> audio_dev option" where
  "out_run 0 d = Some d"
| "out_run (Suc n) d =
     (case out_run n d of None \<Rightarrow> None
      | Some d1 \<Rightarrow> map_option snd (iso_out_callback d1 (replicate 76 0)))"

lemma iso_out_ok:
  assumes "76 \<le> length buf"
  shows "\<exists>pkt. iso_out_callback d buf = Some (pkt, d\<lparr>ad_stream := out_advance (ad_stream d)\<rparr>)
    \<and> length pkt = length buf
    \<and> take 4 pkt = bytes16 (out_window (ad_stream d)) @ [out_seq (ad_stream d), out_flag (ad_stream d)]"
  using assms by (auto simp: iso_out_callback_def prepare_iso_out_data_def put_bytes_def Let_def)

lemma out_run_stream:
  "out_run n d = Some (d\<lparr>ad_stream := (out_advance ^^ n) (ad_stream d)\<rparr>)"
proof (induction n)
  case (Suc n)
  obtain pkt where "iso_out_callback (d\<lparr>ad_stream := (out_advance ^^ n) (ad_stream d)\<rparr>) (replicate 76 0)
      = Some (pkt, d\<lparr>ad_stream := (out_advance ^^ Suc n) (ad_stream d)\<rparr>)"
    using iso_out_ok [of "replicate 76 0" "d\<lparr>ad_stream := (out_advance ^^ n) (ad_stream d)\<rparr>"] by auto
  then show ?case using Suc.IH by simp
qed simp

lemma store_samples_dom: "store_samples d c xs = Some h \<Longrightarrow> dom (blocks h) = dom (blocks (ad_heap d))"
  by (auto simp: store_samples_def mem_write_def store_def Let_def split: if_splits option.splits)

lemma audio_ptrs_frame [simp]:
  "audio_ptrs (ad_stream (change_window d w)) = audio_ptrs (ad_stream d)"
  "au_running (ad_stream (change_window d w)) = au_running (ad_stream d)"
  "audio_ptrs (s\<lparr>last_seen_window := l\<rparr>) = audio_ptrs s"
  by (simp_all add: audio_ptrs_def change_window_def Let_def)

lemma iso_in_callback_frame:
  assumes "iso_in_callback pkt d = Some d'"
  shows "dom (blocks (ad_heap d')) = dom (blocks (ad_heap d)) \<and> audio_ptrs (ad_stream d') = audio_ptrs (ad_stream d)
    \<and> au_running (ad_stream d') = au_running (ad_stream d)"
proof -
  let ?w = "ab_window (read_audio_block pkt)" and ?d1 = "change_window d (ab_window (read_audio_block pkt))"
  show ?thesis
  proof (cases "audio_data_packet pkt")
    case True
    then obtain h where h: "store_samples ?d1 (unat (ab_channel (read_audio_block pkt))) (ab_samples (read_audio_block pkt)) = Some h"
      using assms by (cases "store_samples ?d1 (unat (ab_channel (read_audio_block pkt))) (ab_samples (read_audio_block pkt))")
        (simp_all add: iso_in_callback_def audio_data_packet_def)
    with assms True have "d' = ?d1\<lparr>ad_heap := h, ad_stream := (ad_stream ?d1)\<lparr>last_seen_window :=
        (last_seen_window (ad_stream ?d1))[unat (ab_channel (read_audio_block pkt)) - 1 := ?w]\<rparr>\<rparr>"
      by (simp add: iso_in_callback_def audio_data_packet_def Let_def split: if_splits)
    then show ?thesis using store_samples_dom [OF h] by simp
  next
    case False
    then have "d' = d" using assms by (simp add: iso_in_callback_def audio_data_packet_def split: if_splits)
    then show ?thesis by simp
  qed
qed

lemma run_packets_inv:
  assumes "run_packets iso_in_callback pkts d = Some d'" "audio_inv d"
  shows "audio_inv d' \<and> dom (blocks (ad_heap d')) = dom (blocks (ad_heap d))
    \<and> audio_ptrs (ad_stream d') = audio_ptrs (ad_stream d) \<and> au_running (ad_stream d') = au_running (ad_stream d)"
  using assms
proof (induction pkts arbitrary: d)
  case (Cons pkt pkts)
  obtain d1 where p: "iso_in_callback pkt d = Some d1" and r: "run_packets iso_in_callback pkts d1 = Some d'"
    using Cons.prems(1) by (auto split: option.splits)
  have inv: "audio_inv d1" using iso_in_callback_inv [OF Cons.prems(2) p] .
  show ?case using Cons.IH [OF r inv] iso_in_callback_frame [OF p] by simp
qed simp

text \<open>A packet without data, or with a channel of an array element, is handled.\<close>

lemma iso_in_total:
  assumes "audio_inv d"
    and "audio_data_packet pkt \<Longrightarrow> 1 \<le> unat (ab_channel (read_audio_block pkt)) \<and> unat (ab_channel (read_audio_block pkt)) \<le> 10"
  shows "iso_in_callback pkt d \<noteq> None"
proof (cases "audio_data_packet pkt")
  case True
  let ?w = "ab_window (read_audio_block pkt)"
  obtain h where "store_samples (change_window d ?w) (unat (ab_channel (read_audio_block pkt))) (ab_samples (read_audio_block pkt)) = Some h"
    using store_samples_ok [of "change_window d ?w"] assms(1) by fastforce
  then show ?thesis using assms True
    by (auto simp: iso_in_callback_def audio_data_packet_def audio_inv_def Let_def not_le)
qed (auto simp: iso_in_callback_def audio_data_packet_def Let_def)

section \<open>Properties\<close>

text \<open>When an audio packet corrupts memory.  On a started stream the handler of the received
  packets stays inside its buffers for every packet except one kind: a data packet whose channel is
  0 or more than 10, for which \<open>last_seen_window[channel - 1]\<close> is written outside the array although
  the switch before it has reported the channel as invalid.\<close>
lemma audio_packet_faults_iff:
  assumes "audio_inv d"
  shows "iso_in_callback pkt d = None \<longleftrightarrow>
    audio_data_packet pkt \<and> \<not> (1 \<le> unat (ab_channel (read_audio_block pkt)) \<and> unat (ab_channel (read_audio_block pkt)) \<le> 10)"
proof
  assume "iso_in_callback pkt d = None"
  then show "audio_data_packet pkt \<and> \<not> (1 \<le> unat (ab_channel (read_audio_block pkt)) \<and> unat (ab_channel (read_audio_block pkt)) \<le> 10)"
    using iso_in_total [OF assms, of pkt] by blast
qed (use assms in \<open>auto simp: iso_in_callback_def audio_data_packet_def audio_inv_def Let_def not_le split: option.split\<close>)

definition idle_audio :: audio_dev where
  "idle_audio = \<lparr>ad_stream = \<lparr>au_running = False, au_out_ring = NULL, ring_reader_idx = 0, ring_writer_idx = 0,
     out_window = 9, out_seq = 9, out_counter_within_window = 9, out_weird_timestamp = 9, out_window_parity = 9,
     in_window = 9, last_seen_window = [], in_counter = 9, mic_buffer = [], cancelled_buffer = NULL, in_unknown = NULL\<rparr>,
     ad_in_cb = True, ad_out_cb = False, ad_heap = \<lparr>blocks = (\<lambda>_. None), next_ptr = 1, junk = (\<lambda>_ _. 0)\<rparr>, ad_windows = []\<rparr>"

lemma idle_heap: "heap_wf (ad_heap idle_audio)"
  by (simp add: idle_audio_def heap_wf_def)

lemma idle_starts: obtains d where "freenect_start_audio 0 0 idle_audio = (0, d)"
  by (cases "audio_buffers (ad_heap idle_audio) (ad_stream idle_audio)")
    (simp add: freenect_start_audio_def idle_audio_def)

definition sample_block :: "u16 \<Rightarrow> bytes" where
  "sample_block channel = bytes32 0x80000080 @ bytes16 channel @ bytes16 524 @ bytes16 7 @ bytes16 0 @ replicate 512 1"

lemma sample_block_fields:
  "audio_data_packet (sample_block c)" "ab_channel (read_audio_block (sample_block c)) = c"
  by (simp_all add: audio_data_packet_def read_audio_block_def sample_block_def bytes32_def bytes16_def wire_simps
      le32_def)

lemma audio_packet_faults_iff_example:
  "\<exists>d. freenect_start_audio 0 0 idle_audio = (0, d) \<and> iso_in_callback (sample_block 0) d = None
     \<and> iso_in_callback (sample_block 10) d \<noteq> None"
proof -
  obtain d where s: "freenect_start_audio 0 0 idle_audio = (0, d)" by (rule idle_starts)
  have inv: "audio_inv d" using start_audio_inv [OF idle_heap s] by simp
  show ?thesis using s audio_packet_faults_iff [OF inv, of "sample_block 0"]
      audio_packet_faults_iff [OF inv, of "sample_block 10"]
    by (simp add: sample_block_fields)
qed

text \<open>The order of the output packets.  After a start, whatever the client set up, packet \<open>n\<close> is built
  without leaving its buffer and carries the sequence number \<open>n mod 128\<close> and the window number that
  counts three windows of 43, 43 and 42 packets in every 128, both reduced to their widths.\<close>
lemma audio_out_schedule:
  assumes "freenect_start_audio a b d = (0, d1)" "76 \<le> length buf"
  shows "\<exists>d2 pkt d3. out_run n d1 = Some d2 \<and> iso_out_callback d2 buf = Some (pkt, d3) \<and> length pkt = length buf
    \<and> take 3 pkt = bytes16 (of_nat (3 * (n div 128) + cycle_part (n mod 128))) @ [of_nat (n mod 128)]"
proof -
  obtain s h where b: "audio_buffers (ad_heap d) (ad_stream d) = (s, h)" by fastforce
  then have s: "d1 = d\<lparr>ad_stream := (audio_reset s)\<lparr>au_running := True\<rparr>, ad_heap := h\<rparr>"
    using assms(1) by (auto simp: freenect_start_audio_def Let_def split: if_splits)
  have "audio_reset s\<lparr>au_running := True\<rparr> = audio_reset (s\<lparr>au_running := True\<rparr>)" by (simp add: audio_reset_def)
  then have stream: "sched_ok n ((out_advance ^^ n) (ad_stream d1))" using sched_iterate by (simp add: s)
  let ?d2 = "d1\<lparr>ad_stream := (out_advance ^^ n) (ad_stream d1)\<rparr>"
  obtain pkt where p: "iso_out_callback ?d2 buf = Some (pkt, ?d2\<lparr>ad_stream := out_advance (ad_stream ?d2)\<rparr>)"
    "length pkt = length buf"
    "take 4 pkt = bytes16 (out_window (ad_stream ?d2)) @ [out_seq (ad_stream ?d2), out_flag (ad_stream ?d2)]"
    using iso_out_ok [OF assms(2), of ?d2] by blast
  have "take 3 pkt = take 3 (take 4 pkt)" by simp
  also have "\<dots> = bytes16 (out_window (ad_stream ?d2)) @ [out_seq (ad_stream ?d2)]" by (subst p(3)) simp
  finally show ?thesis using out_run_stream [of n d1] p(1,2) stream by (simp add: sched_ok_def Let_def)
qed

lemma audio_out_schedule_example:
  "\<exists>d1 d2 pkt d3. freenect_start_audio 0 0 idle_audio = (0, d1) \<and> out_run 43 d1 = Some d2
     \<and> iso_out_callback d2 (replicate 76 255) = Some (pkt, d3) \<and> take 3 pkt = [1, 0, 43]"
proof -
  obtain d1 where s: "freenect_start_audio 0 0 idle_audio = (0, d1)" by (rule idle_starts)
  show ?thesis using s audio_out_schedule [OF s, of "replicate 76 255" 43]
    by (auto simp: cycle_part_def bytes16_def)
qed

text \<open>An audio session releases what it allocated.  Start, any packets the handler survives, stop
  with both streams stopped: the stop returns 0, frees every block once and leaves the heap with
  exactly the blocks it had before.\<close>
lemma audio_session_releases:
  assumes "heap_wf (ad_heap d)" "freenect_start_audio a b d = (0, d1)"
    and "run_packets iso_in_callback pkts d1 = Some d2" "0 \<le> ra" "0 \<le> rb"
  shows "\<exists>d3. freenect_stop_audio ra rb d2 = Some (0, d3) \<and> dom (blocks (ad_heap d3)) = dom (blocks (ad_heap d))"
proof -
  note s = start_audio_inv [OF assms(1,2)]
  have r: "dom (blocks (ad_heap d2)) = dom (blocks (ad_heap d1))" "audio_ptrs (ad_stream d2) = audio_ptrs (ad_stream d1)"
    "au_running (ad_stream d2)"
    using run_packets_inv [OF assms(3)] s by auto
  obtain h where "free_all (audio_ptrs (ad_stream d2)) (ad_heap d2) = Some h"
    "dom (blocks h) = dom (blocks (ad_heap d2)) - set (audio_ptrs (ad_stream d2))"
    using free_all_dom [of "audio_ptrs (ad_stream d2)" "ad_heap d2"] s r by auto
  then show ?thesis using s r assms(4,5) by (auto simp: freenect_stop_audio_def audio_ptrs_def Let_def)
qed

lemma audio_session_releases_example:
  "\<exists>d1 d2 d3. freenect_start_audio 0 0 idle_audio = (0, d1)
     \<and> run_packets iso_in_callback [sample_block 4, [1, 2], sample_block 1] d1 = Some d2
     \<and> freenect_stop_audio 0 0 d2 = Some (0, d3) \<and> dom (blocks (ad_heap d3)) = {}"
proof -
  obtain d1 where s: "freenect_start_audio 0 0 idle_audio = (0, d1)" by (rule idle_starts)
  have ok: "\<exists>e'. iso_in_callback p e = Some e' \<and> audio_inv e'"
    if "p \<in> {sample_block 4, [1, 2], sample_block 1}" "audio_inv e" for p e
  proof -
    have "iso_in_callback p e \<noteq> None"
      using iso_in_total [OF that(2), of p] that(1) by (auto simp: sample_block_fields audio_data_packet_def)
    then show ?thesis using iso_in_callback_inv [OF that(2)] by blast
  qed
  have "audio_inv d1" using start_audio_inv [OF idle_heap s] by simp
  then obtain e1 where e1: "iso_in_callback (sample_block 4) d1 = Some e1" "audio_inv e1" using ok by blast
  then obtain e2 where e2: "iso_in_callback [1, 2] e1 = Some e2" "audio_inv e2" using ok by blast
  then obtain d2 where e3: "iso_in_callback (sample_block 1) e2 = Some d2" using ok by blast
  have r: "run_packets iso_in_callback [sample_block 4, [1, 2], sample_block 1] d1 = Some d2"
    by (simp add: e1(1) e2(1) e3)
  have "dom (blocks (ad_heap idle_audio)) = {}" by (simp add: idle_audio_def)
  with audio_session_releases [OF idle_heap s r] s r show ?thesis by auto
qed

end
