(* ===== verification/FreenectCore.thy ===== *)
theory FreenectCore
  imports UsbDevicesProofs CameraProofs Audio
begin

text \<open>
  Contexts and devices: \<open>libfreenect/core.c\<close>, and the context part of \<open>usb_libusb10.c\<close>.

  A context holds the USB world of \<open>UsbDevices\<close> (with the host, the open handles and the enabled
  subdevices), the linked list of its open devices, from \<open>first\<close> on, and the heap with the stream
  buffers.  A device is its address, its three subdevices, its camera state and its audio state.
  The operations of \<open>UsbDevices\<close> run on the world with the subdevices of the device at hand, those
  of \<open>Cameras\<close> on the camera state with the host of the world.

  \<open>None\<close> is a fault of an inner operation, or a use of a device that was closed.  The ghost flag
  \<open>cx_freed_busy\<close> records that a device was freed while it had transfers in flight or ran audio.
\<close>

section \<open>State\<close>

record fnusb_ctx =
  fc_ctx :: "nat option"
  fc_should_free_ctx :: bool

record 'u kinect =
  kd_ptr :: nat
  kd_user :: nat
  kd_sub :: subdevices
  kd_cam :: "'u freenect_device"
  kd_audio :: audio_dev
  kd_audio_dead :: bool

record 'u freenect_context =
  cx_usb :: fnusb_ctx
  cx_log_level :: int
  cx_log_cb :: "nat option"
  cx_world :: "'u usb_world"
  cx_devs :: "'u kinect list"
  cx_next_dev :: nat
  cx_heap :: heap
  cx_freed_busy :: bool

text \<open>A device after \<open>memset\<close>: formats and resolutions with number 0, no buffers, no callbacks.\<close>

definition zero_stream :: packet_stream where
  "zero_stream = \<lparr>ps_running = False, ps_flag = 0, ps_synced = False, ps_seq = 0, ps_got_pkts = 0, ps_pkt_num = 0,
     ps_pkts_per_frame = 0, ps_pkt_size = 0, ps_frame_size = 0, ps_last_pkt_size = 0, ps_valid_pkts = 0,
     ps_lost_pkts = 0, ps_valid_frames = 0, ps_variable_length = False, ps_last_timestamp = 0, ps_timestamp = 0,
     ps_split_bufs = False, ps_lib_buf = NULL, ps_usr_buf = NULL, ps_raw_buf = NULL, ps_proc_buf = NULL\<rparr>"

definition zero_registration :: registration where
  "zero_registration = \<lparr>rg_info = zero_info,
     rg_pad = \<lparr>rp_start_lines = 0, rp_end_lines = 0, rp_cropping_lines = 0\<rparr>,
     rg_zero_plane = \<lparr>zp_dcmos_emitter_dist = 0, zp_dcmos_rcmos_dist = 0, zp_reference_distance = 0,
       zp_reference_pixel_size = 0\<rparr>,
     rg_const_shift = 0, rg_raw_to_mm = None, rg_depth_to_rgb = None, rg_table = None\<rparr>"

definition zero_iso :: "unit iso_state" where
  "zero_iso = \<lparr>st_strm = \<lparr>is_xfers = [], is_num_xfers = 0, is_pkts = 0, is_len = 0, is_dead = False,
     is_dead_xfers = 0\<rparr>, st_device_dead = False, st_inflight = {}, st_client = ()\<rparr>"

definition zero_camera :: "'u \<Rightarrow> 'u freenect_device" where
  "zero_camera u = \<lparr>usb_state = u, cam_tag = 0, cam_pid = 0, fd_depth_cb = False, fd_video_cb = False,
     fd_depth_chunk_cb = None, fd_video_chunk_cb = None, fd_video_format = VIDEO_RGB, fd_depth_format = DEPTH_11BIT,
     fd_video_resolution = RESOLUTION_LOW, fd_depth_resolution = RESOLUTION_LOW, fd_depth = zero_stream,
     fd_video = zero_stream, fd_registration = zero_registration, fd_zero_plane_res = 0,
     fd_depth_isoc = zero_iso, fd_video_isoc = zero_iso, fd_frames = []\<rparr>"

definition zero_audio :: "heap \<Rightarrow> audio_dev" where
  "zero_audio h = \<lparr>ad_stream = \<lparr>au_running = False, au_out_ring = NULL, ring_reader_idx = 0, ring_writer_idx = 0,
     out_window = 0, out_seq = 0, out_counter_within_window = 0, out_weird_timestamp = 0, out_window_parity = 0,
     in_window = 0, last_seen_window = replicate 10 0, in_counter = 0, mic_buffer = replicate 4 NULL,
     cancelled_buffer = NULL, in_unknown = NULL\<rparr>,
     ad_in_cb = False, ad_out_cb = False, ad_heap = h, ad_windows = []\<rparr>"

definition zero_subdevices :: subdevices where
  "zero_subdevices = \<lparr>sd_cam = None, sd_cam_pid = 0, sd_motor = None, sd_audio = None, sd_audio_pid = 0,
     sd_motor_control_with_audio = False, sd_motor_control_enabled = False, sd_audio_tag = 0\<rparr>"

definition zero_kinect :: "nat \<Rightarrow> subdevices \<Rightarrow> 'u freenect_context \<Rightarrow> 'u kinect" where
  "zero_kinect p sd c = \<lparr>kd_ptr = p, kd_user = 0, kd_sub = sd, kd_cam = zero_camera (uw_host (cx_world c)),
     kd_audio = zero_audio (cx_heap c), kd_audio_dead = False\<rparr>"

section \<open>Devices of a context\<close>

definition find_dev :: "nat \<Rightarrow> 'u kinect list \<Rightarrow> 'u kinect option" where
  "find_dev p devs = find (\<lambda>d. kd_ptr d = p) devs"

definition upd_dev :: "nat \<Rightarrow> ('u kinect \<Rightarrow> 'u kinect) \<Rightarrow> 'u freenect_context \<Rightarrow> 'u freenect_context" where
  "upd_dev p f c = c\<lparr>cx_devs := map (\<lambda>d. if kd_ptr d = p then f d else d) (cx_devs c)\<rparr>"

text \<open>The camera of a device shares the host and the zero plane resolution of its context.\<close>

definition camera_of :: "'u freenect_context \<Rightarrow> 'u kinect \<Rightarrow> 'u freenect_device" where
  "camera_of c d = (kd_cam d)\<lparr>usb_state := uw_host (cx_world c), cam_pid := sd_cam_pid (kd_sub d),
     fd_zero_plane_res := uw_zero_plane_res (cx_world c)\<rparr>"

definition put_camera :: "nat \<Rightarrow> 'u freenect_device \<Rightarrow> 'u freenect_context \<Rightarrow> 'u freenect_context" where
  "put_camera p cam c = (upd_dev p (\<lambda>d. d\<lparr>kd_cam := cam\<rparr>) c)\<lparr>cx_world := (cx_world c)\<lparr>uw_host := usb_state cam\<rparr>\<rparr>"

text \<open>A camera operation on a device.\<close>

definition on_camera ::
  "('u cam_state \<Rightarrow> (int \<times> 'u cam_state) option) \<Rightarrow> 'u kinect \<Rightarrow> 'u freenect_context \<Rightarrow> (int \<times> 'u freenect_context) option" where
  "on_camera f d c =
     (case f (camera_of c d, cx_heap c) of None \<Rightarrow> None
      | Some (res, cam, h) \<Rightarrow> Some (res, (put_camera (kd_ptr d) cam c)\<lparr>cx_heap := h\<rparr>))"

definition on_audio ::
  "(audio_dev \<Rightarrow> (int \<times> audio_dev) option) \<Rightarrow> 'u kinect \<Rightarrow> 'u freenect_context \<Rightarrow> (int \<times> 'u freenect_context) option" where
  "on_audio f d c =
     (case f ((kd_audio d)\<lparr>ad_heap := cx_heap c\<rparr>) of None \<Rightarrow> None
      | Some (res, a) \<Rightarrow> Some (res, (upd_dev (kd_ptr d) (\<lambda>d. d\<lparr>kd_audio := a\<rparr>) c)\<lparr>cx_heap := ad_heap a\<rparr>))"

section \<open>Contexts\<close>

text \<open>\<open>libusb_init\<close> is an argument: its result and the context it makes.\<close>

definition fnusb_init :: "int \<times> nat \<Rightarrow> nat option \<Rightarrow> int \<times> fnusb_ctx" where
  "fnusb_init init usb_ctx =
     (case usb_ctx of
        None \<Rightarrow> if fst init \<ge> 0 then (0, \<lparr>fc_ctx = Some (snd init), fc_should_free_ctx = True\<rparr>)
                else (fst init, \<lparr>fc_ctx = None, fc_should_free_ctx = False\<rparr>)
      | Some u \<Rightarrow> (0, \<lparr>fc_ctx = Some u, fc_should_free_ctx = False\<rparr>))"

definition fnusb_shutdown :: "fnusb_ctx \<Rightarrow> int \<times> fnusb_ctx" where
  "fnusb_shutdown fc = (0, if fc_should_free_ctx fc then fc\<lparr>fc_ctx := None\<rparr> else fc)"

definition LL_WARNING :: int where "LL_WARNING = 2"

definition fresh_context :: "fnusb_ctx \<Rightarrow> 'u \<Rightarrow> heap \<Rightarrow> 'u freenect_context" where
  "fresh_context fc u h = \<lparr>cx_usb = fc, cx_log_level = LL_WARNING, cx_log_cb = None,
     cx_world = \<lparr>uw_host = u, uw_next = 0, uw_open = {}, uw_bad_handle = False, uw_undefined = False,
       uw_enabled = FREENECT_DEVICE_MOTOR OR FREENECT_DEVICE_CAMERA OR FREENECT_DEVICE_AUDIO, uw_zero_plane_res = 0,
       uw_fw_nui = None, uw_fw_k4w = None, uw_tag_seq = 0, uw_tag_next_ack = 0, uw_dev = zero_subdevices\<rparr>,
     cx_devs = [], cx_next_dev = 1, cx_heap = h, cx_freed_busy = False\<rparr>"

definition freenect_init :: "bool \<Rightarrow> int \<times> nat \<Rightarrow> nat option \<Rightarrow> 'u \<Rightarrow> heap \<Rightarrow> int \<times> 'u freenect_context option" where
  "freenect_init alloc init usb_ctx u h =
     (if \<not> alloc then (-1, None)
      else (let (res, fc) = fnusb_init init usb_ctx
            in (res, if res < 0 then None else Some (fresh_context fc u h))))"

definition freenect_num_devices :: "('u, 'x) usb_host_scheme \<Rightarrow> 'u freenect_context \<Rightarrow> int \<times> 'u freenect_context" where
  "freenect_num_devices ops c =
     (let (n, w) = run_state (fnusb_num_devices ops) (cx_world c) in (n, c\<lparr>cx_world := w\<rparr>))"

definition freenect_list_device_attributes ::
  "('u, 'x) usb_host_scheme \<Rightarrow> 'u freenect_context \<Rightarrow> string list option \<times> 'u freenect_context" where
  "freenect_list_device_attributes ops c =
     (let (xs, w) = run_state (fnusb_list_device_attributes ops) (cx_world c) in (xs, c\<lparr>cx_world := w\<rparr>))"

definition freenect_supported_subdevices :: u32 where
  "freenect_supported_subdevices = FREENECT_DEVICE_MOTOR OR FREENECT_DEVICE_CAMERA OR FREENECT_DEVICE_AUDIO"

definition freenect_select_subdevices :: "u32 \<Rightarrow> 'u freenect_context \<Rightarrow> 'u freenect_context" where
  "freenect_select_subdevices subdevs c = c\<lparr>cx_world := (cx_world c)
     \<lparr>uw_enabled := subdevs AND (FREENECT_DEVICE_MOTOR OR FREENECT_DEVICE_CAMERA OR FREENECT_DEVICE_AUDIO)\<rparr>\<rparr>"

definition freenect_enabled_subdevices :: "'u freenect_context \<Rightarrow> u32" where
  "freenect_enabled_subdevices c = uw_enabled (cx_world c)"

section \<open>Opening and closing devices\<close>

text \<open>The result, the device pointer stored through \<open>dev\<close> (if any) and the new context.\<close>

definition freenect_open_device ::
  "('u, 'x) usb_host_scheme \<Rightarrow> ('u, 'y) cam_env_scheme \<Rightarrow> bool \<Rightarrow> int \<Rightarrow> 'u freenect_context
    \<Rightarrow> (int \<times> nat option \<times> 'u freenect_context) option" where
  "freenect_open_device ops env alloc index c =
     (if \<not> alloc then Some (-1, None, c)
      else
        (let (res, w) = run_state (fnusb_open_subdevices ops index) ((cx_world c)\<lparr>uw_dev := zero_subdevices\<rparr>);
             c1 = c\<lparr>cx_world := w\<rparr>
         in if res < 0 then Some (res, None, c1)
            else
              (let p = cx_next_dev c1; d = zero_kinect p (uw_dev w) c1;
                   c2 = c1\<lparr>cx_devs := cx_devs c1 @ [d], cx_next_dev := p + 1\<rparr>
               in if sd_cam (kd_sub d) = None then Some (0, Some p, c2)
                  else
                    (case freenect_camera_init env (camera_of c2 d) of None \<Rightarrow> None
                     | Some (r, cam) \<Rightarrow> Some (if r < 0 then -1 else 0, Some p, put_camera p cam c2)))))"

fun serial_index :: "string \<Rightarrow> string list \<Rightarrow> int \<Rightarrow> int option" where
  "serial_index serial [] index = None"
| "serial_index serial (x # xs) index = (if x = serial then Some index else serial_index serial xs (index + 1))"

definition freenect_open_device_by_camera_serial ::
  "('u, 'x) usb_host_scheme \<Rightarrow> ('u, 'y) cam_env_scheme \<Rightarrow> bool \<Rightarrow> string \<Rightarrow> 'u freenect_context
    \<Rightarrow> (int \<times> nat option \<times> 'u freenect_context) option" where
  "freenect_open_device_by_camera_serial ops env alloc serial c =
     (let (attrlist, c1) = freenect_list_device_attributes ops c
      in case attrlist of None \<Rightarrow> Some (-1, None, c1)
         | Some xs \<Rightarrow>
             (case serial_index serial xs 0 of None \<Rightarrow> Some (-1, None, c1)
              | Some index \<Rightarrow> freenect_open_device ops env alloc index c1))"

definition busy :: "'u kinect \<Rightarrow> bool" where
  "busy d \<longleftrightarrow> st_inflight (fd_depth_isoc (kd_cam d)) \<noteq> {} \<or> st_inflight (fd_video_isoc (kd_cam d)) \<noteq> {}
     \<or> au_running (ad_stream (kd_audio d))"

definition freenect_close_device ::
  "('u, 'x) usb_host_scheme \<Rightarrow> ('u, 'y) cam_env_scheme \<Rightarrow> nat \<Rightarrow> 'u freenect_context \<Rightarrow> (int \<times> 'u freenect_context) option" where
  "freenect_close_device ops env p c =
     (case find_dev p (cx_devs c) of None \<Rightarrow> None
      | Some d \<Rightarrow>
          (case (if sd_cam (kd_sub d) \<noteq> None then on_camera (freenect_camera_teardown env) d c else Some (0, c)) of
             None \<Rightarrow> None
           | Some (_, c1) \<Rightarrow>
               (let (res, w) = run_state (fnusb_close_subdevices ops) ((cx_world c1)\<lparr>uw_dev := kd_sub d\<rparr>);
                    c2 = c1\<lparr>cx_world := w\<rparr>
                in if res < 0 then Some (res, c2)
                   else Some (0, c2\<lparr>cx_devs := filter (\<lambda>x. kd_ptr x \<noteq> p) (cx_devs c2),
                        cx_freed_busy := cx_freed_busy c2 \<or> (\<exists>x \<in> set (cx_devs c2). kd_ptr x = p \<and> busy x)\<rparr>))))"

text \<open>Closes the first device until there is none; \<open>free(ctx)\<close> ends the life of the result.\<close>

partial_function (option) close_all ::
  "('u, 'x) usb_host_scheme \<Rightarrow> ('u, 'y) cam_env_scheme \<Rightarrow> 'u freenect_context \<Rightarrow> 'u freenect_context option" where
  "close_all ops env c =
     (case cx_devs c of [] \<Rightarrow> Some c
      | d # ds \<Rightarrow> Option.bind (freenect_close_device ops env (kd_ptr d) c) (\<lambda>r. close_all ops env (snd r)))"

definition freenect_shutdown ::
  "('u, 'x) usb_host_scheme \<Rightarrow> ('u, 'y) cam_env_scheme \<Rightarrow> 'u freenect_context \<Rightarrow> (int \<times> 'u freenect_context) option" where
  "freenect_shutdown ops env c =
     map_option (\<lambda>c'. (0, c'\<lparr>cx_usb := snd (fnusb_shutdown (cx_usb c'))\<rparr>)) (close_all ops env c)"

section \<open>Events\<close>

definition device_dead :: "'u kinect \<Rightarrow> bool" where
  "device_dead d \<longleftrightarrow> st_device_dead (fd_depth_isoc (kd_cam d)) \<or> st_device_dead (fd_video_isoc (kd_cam d))"

text \<open>One device of the loop after the events: the streams of a dead device are stopped.\<close>

definition stop_dead ::
  "('u, 'y) cam_env_scheme \<Rightarrow> int \<times> int \<Rightarrow> nat \<Rightarrow> int \<times> 'u freenect_context \<Rightarrow> (int \<times> 'u freenect_context) option" where
  "stop_dead env audio_stop p rc =
     (let (res, c) = rc
      in case find_dev p (cx_devs c) of None \<Rightarrow> None
         | Some d \<Rightarrow>
             (case (if device_dead d
                    then (case on_camera (freenect_stop_video env) d c of None \<Rightarrow> None
                          | Some (_, c1) \<Rightarrow>
                              (case find_dev p (cx_devs c1) of None \<Rightarrow> None
                               | Some d1 \<Rightarrow> map_option (\<lambda>(_, c2). (-1, c2)) (on_camera (freenect_stop_depth env) d1 c1)))
                    else Some (res, c)) of
                None \<Rightarrow> None
              | Some (res, c2) \<Rightarrow>
                  (if kd_audio_dead d
                   then map_option (\<lambda>(_, c3). (-1, c3))
                          (on_audio (freenect_stop_audio (fst audio_stop) (snd audio_stop)) d c2)
                   else Some (res, c2))))"

primrec stop_all_dead ::
  "('u, 'y) cam_env_scheme \<Rightarrow> int \<times> int \<Rightarrow> nat list \<Rightarrow> int \<times> 'u freenect_context \<Rightarrow> (int \<times> 'u freenect_context) option" where
  "stop_all_dead env audio_stop [] rc = Some rc"
| "stop_all_dead env audio_stop (p # ps) rc =
     Option.bind (stop_dead env audio_stop p rc) (stop_all_dead env audio_stop ps)"

text \<open>\<open>libusb_handle_events_timeout\<close>, which runs the transfer callbacks, is the argument \<open>events\<close>.\<close>

definition freenect_process_events_timeout ::
  "('u, 'y) cam_env_scheme \<Rightarrow> int \<times> int \<Rightarrow> ('t \<Rightarrow> 'u freenect_context \<Rightarrow> int \<times> 'u freenect_context) \<Rightarrow> 't \<Rightarrow> 'u freenect_context
    \<Rightarrow> (int \<times> 'u freenect_context) option" where
  "freenect_process_events_timeout env audio_stop events timeout c =
     (let rc = events timeout c in stop_all_dead env audio_stop (map kd_ptr (cx_devs (snd rc))) rc)"

definition freenect_process_events ::
  "('u, 'y) cam_env_scheme \<Rightarrow> int \<times> int \<Rightarrow> (int \<times> int \<Rightarrow> 'u freenect_context \<Rightarrow> int \<times> 'u freenect_context) \<Rightarrow> 'u freenect_context
    \<Rightarrow> (int \<times> 'u freenect_context) option" where
  "freenect_process_events env audio_stop events c = freenect_process_events_timeout env audio_stop events (60, 0) c"

section \<open>Fields\<close>

definition freenect_set_user :: "nat \<Rightarrow> nat \<Rightarrow> 'u freenect_context \<Rightarrow> 'u freenect_context" where
  "freenect_set_user p user c = upd_dev p (\<lambda>d. d\<lparr>kd_user := user\<rparr>) c"

definition freenect_get_user :: "nat \<Rightarrow> 'u freenect_context \<Rightarrow> nat option" where
  "freenect_get_user p c = map_option kd_user (find_dev p (cx_devs c))"

definition freenect_set_log_level :: "int \<Rightarrow> 'u freenect_context \<Rightarrow> 'u freenect_context" where
  "freenect_set_log_level level c = c\<lparr>cx_log_level := level\<rparr>"

definition freenect_set_log_callback :: "nat option \<Rightarrow> 'u freenect_context \<Rightarrow> 'u freenect_context" where
  "freenect_set_log_callback cb c = c\<lparr>cx_log_cb := cb\<rparr>"

definition freenect_set_fw_address_nui :: "bytes option \<Rightarrow> 'u freenect_context \<Rightarrow> 'u freenect_context" where
  "freenect_set_fw_address_nui fw c = c\<lparr>cx_world := (cx_world c)\<lparr>uw_fw_nui := fw\<rparr>\<rparr>"

definition freenect_set_fw_address_k4w :: "bytes option \<Rightarrow> 'u freenect_context \<Rightarrow> 'u freenect_context" where
  "freenect_set_fw_address_k4w fw c = c\<lparr>cx_world := (cx_world c)\<lparr>uw_fw_k4w := fw\<rparr>\<rparr>"

end
