(* ===== verification/FreenectCoreProofs.thy ===== *)
theory FreenectCoreProofs
  imports FreenectCore
begin

text \<open>
  The devices of a context own disjoint sets of open handles: the invariant of \<open>FreenectCore\<close>, the
  refinement of a registry of devices, and the end of \<open>freenect_shutdown\<close>.
\<close>

section \<open>The invariant\<close>

definition slots_of :: "subdevices \<Rightarrow> slots" where
  "slots_of sd = (sd_cam sd, sd_motor sd, sd_audio sd)"

definition devs_of :: "'u freenect_context \<Rightarrow> (nat \<times> slots) list" where
  "devs_of c = map (\<lambda>d. (kd_ptr d, slots_of (kd_sub d))) (cx_devs c)"

definition all_handles :: "(nat \<times> slots) list \<Rightarrow> nat list" where
  "all_handles ds = concat (map (slot_handles \<circ> snd) ds)"

text \<open>Devices at different old addresses with different open handles.\<close>

definition reg_ok :: "(nat \<times> slots) list \<Rightarrow> nat \<Rightarrow> 'u usb_world \<Rightarrow> bool" where
  "reg_ok ds next w \<longleftrightarrow> world_ok w \<and> distinct (all_handles ds) \<and> set (all_handles ds) \<subseteq> uw_open w
     \<and> distinct (map fst ds) \<and> (\<forall>p \<in> set (map fst ds). p < next)"

definition core_inv :: "'u freenect_context \<Rightarrow> bool" where
  "core_inv c \<longleftrightarrow> reg_ok (devs_of c) (cx_next_dev c) (cx_world c)"

lemma all_handles_simps [simp]:
  "all_handles [] = []" "all_handles (d # ds) = slot_handles (snd d) @ all_handles ds"
  "all_handles (ds @ es) = all_handles ds @ all_handles es"
  by (simp_all add: all_handles_def)

lemma all_handles_mem: "(p, D) \<in> set ds \<Longrightarrow> set (slot_handles D) \<subseteq> set (all_handles ds)"
  by (force simp: all_handles_def)

lemma reg_ok_host: "reg_ok ds n (w\<lparr>uw_host := u\<rparr>) = reg_ok ds n w"
  by (simp add: reg_ok_def world_ok_def)

text \<open>What a camera or audio operation on a device leaves alone.\<close>

lemma upd_dev_shape:
  assumes "\<And>d. kd_ptr (f d) = kd_ptr d \<and> kd_sub (f d) = kd_sub d"
  shows "devs_of (upd_dev p f c) = devs_of c"
  using assms by (simp add: upd_dev_def devs_of_def)

lemma on_camera_shape:
  assumes "on_camera f d c = Some (r, c')"
  shows "devs_of c' = devs_of c \<and> cx_next_dev c' = cx_next_dev c \<and> (\<exists>u. cx_world c' = (cx_world c)\<lparr>uw_host := u\<rparr>)"
proof -
  obtain cam h where c': "c' = (put_camera (kd_ptr d) cam c)\<lparr>cx_heap := h\<rparr>"
    using assms by (auto simp: on_camera_def split: option.splits)
  have "devs_of c' = devs_of (upd_dev (kd_ptr d) (\<lambda>d. d\<lparr>kd_cam := cam\<rparr>) c)"
    by (simp add: c' put_camera_def devs_of_def)
  then have "devs_of c' = devs_of c" by (simp add: upd_dev_shape)
  moreover have "cx_next_dev c' = cx_next_dev c" "cx_world c' = (cx_world c)\<lparr>uw_host := usb_state cam\<rparr>"
    by (simp_all add: c' put_camera_def upd_dev_def)
  ultimately show ?thesis by blast
qed

section \<open>Opening\<close>

lemma opened_slots: "slots_ok lk B w \<Longrightarrow> handles lk B (slot_handles (slots_of (uw_dev w))) w"
  using hs_handles [OF slots_now] by (simp add: slots_of_def)

lemma handles_world: "handles lk B X w \<Longrightarrow> world_ok w"
  by (simp add: handles_def world_ok_def)

lemma reg_ok_extend:
  assumes "reg_ok ds n w" and "handles lk (uw_open w) (slot_handles D) w'"
  shows "reg_ok (ds @ [(n, D)]) (n + 1) w'"
  using assms handles_world [OF assms(2)] by (auto simp: reg_ok_def handles_def)

lemma reg_ok_mono:
  assumes "reg_ok ds n w" and "handles lk (uw_open w) [] w'"
  shows "reg_ok ds n w'"
  using assms handles_world [OF assms(2)] by (auto simp: reg_ok_def handles_def)

section \<open>The registry\<close>

text \<open>The abstract view of a context: the handles of each open device.\<close>

definition registry :: "'u freenect_context \<Rightarrow> nat \<Rightarrow> nat set option" where
  "registry c = map_of (map (\<lambda>(p, D). (p, set (slot_handles D))) (devs_of c))"

lemma registry_dom: "dom (registry c) = fst ` set (devs_of c)"
  by (force simp: registry_def dom_map_of_conv_image_fst)

text \<open>The specification of the two operations on a registry with the set of open handles.\<close>

definition spec_open :: "(nat \<Rightarrow> nat set option) \<times> nat set \<Rightarrow> nat option \<Rightarrow> (nat \<Rightarrow> nat set option) \<times> nat set \<Rightarrow> bool" where
  "spec_open S p S' \<longleftrightarrow>
     (case p of None \<Rightarrow> fst S' = fst S \<and> snd S \<subseteq> snd S'
      | Some q \<Rightarrow> fst S q = None \<and> (\<exists>H. H \<inter> snd S = {} \<and> snd S \<union> H \<subseteq> snd S' \<and> fst S' = (fst S)(q \<mapsto> H)))"

definition spec_close :: "(nat \<Rightarrow> nat set option) \<times> nat set \<Rightarrow> nat \<Rightarrow> (nat \<Rightarrow> nat set option) \<times> nat set" where
  "spec_close S p = ((fst S)(p := None), case fst S p of None \<Rightarrow> snd S | Some H \<Rightarrow> snd S - H)"

definition abs_context :: "'u freenect_context \<Rightarrow> (nat \<Rightarrow> nat set option) \<times> nat set" where
  "abs_context c = (registry c, uw_open (cx_world c))"

lemma registry_cong: "devs_of c' = devs_of c \<Longrightarrow> registry c' = registry c"
  by (simp add: registry_def)

lemma registry_extend:
  assumes "devs_of c' = devs_of c @ [(n, D)]" and "n \<notin> fst ` set (devs_of c)"
  shows "registry c' = (registry c)(n \<mapsto> set (slot_handles D))" and "registry c n = None"
proof -
  show none: "registry c n = None" using assms(2) registry_dom [of c] by blast
  show "registry c' = (registry c)(n \<mapsto> set (slot_handles D))"
    unfolding registry_def assms(1) map_append map_of_append
    using none by (auto simp: registry_def map_add_def fun_eq_iff split: option.split)
qed

lemma open_device_effect:
  assumes "core_inv c" and "freenect_open_device ops env alloc index c = Some (res, p, c')"
  shows "core_inv c' \<and>
    (case p of None \<Rightarrow> devs_of c' = devs_of c \<and> uw_open (cx_world c) \<subseteq> uw_open (cx_world c')
     | Some q \<Rightarrow> q = cx_next_dev c \<and> q \<notin> fst ` set (devs_of c) \<and> (\<exists>D. devs_of c' = devs_of c @ [(q, D)]
         \<and> set (slot_handles D) \<inter> uw_open (cx_world c) = {}
         \<and> uw_open (cx_world c) \<union> set (slot_handles D) \<subseteq> uw_open (cx_world c')))"
proof (cases alloc)
  case True
  let ?w0 = "(cx_world c)\<lparr>uw_dev := zero_subdevices\<rparr>"
  obtain r w where run: "run_state (fnusb_open_subdevices ops index) ?w0 = (r, w)" by fastforce
  have reg: "reg_ok (devs_of c) (cx_next_dev c) ?w0" using assms(1) by (simp add: core_inv_def reg_ok_def world_ok_def)
  then have "world_ok ?w0" by (simp add: reg_ok_def)
  then have op: "opened True (uw_open ?w0) r w" by (rule open_subdevices_opened [OF _ run]) simp
  show ?thesis
  proof (cases "r < 0")
    case True
    then have "handles True (uw_open ?w0) [] w" using op by (auto simp: opened_def)
    then have h: "reg_ok (devs_of c) (cx_next_dev c) w" "uw_open (cx_world c) \<subseteq> uw_open w"
      using reg_ok_mono [OF reg] by (auto simp: handles_def)
    have "c' = c\<lparr>cx_world := w\<rparr>" "p = None" using assms(2) \<open>alloc\<close> run True by (simp_all add: freenect_open_device_def)
    then show ?thesis
      using h by (simp add: core_inv_def devs_of_def)
  next
    case False
    then have hh: "handles True (uw_open ?w0) (slot_handles (slots_of (uw_dev w))) w"
      using op opened_slots by (auto simp: opened_def)
    define n where "n = cx_next_dev c"
    define c2 where "c2 = c\<lparr>cx_world := w, cx_devs := cx_devs c @ [zero_kinect n (uw_dev w) (c\<lparr>cx_world := w\<rparr>)], cx_next_dev := n + 1\<rparr>"
    have c2: "devs_of c2 = devs_of c @ [(n, slots_of (uw_dev w))]" "cx_next_dev c2 = n + 1" "cx_world c2 = w"
      by (simp_all add: c2_def devs_of_def zero_kinect_def)
    have shape: "devs_of c' = devs_of c2 \<and> cx_next_dev c' = cx_next_dev c2 \<and> (\<exists>u. cx_world c' = (cx_world c2)\<lparr>uw_host := u\<rparr>) \<and> p = Some n"
    proof (cases "sd_cam (uw_dev w)")
      case None
      then have "c' = c2" "p = Some n"
        using assms(2) \<open>alloc\<close> run False by (simp_all add: freenect_open_device_def c2_def n_def zero_kinect_def Let_def)
      then show ?thesis by (auto intro: exI [of _ "uw_host (cx_world c2)"])
    next
      case (Some x)
      then obtain cam where "c' = put_camera n cam c2" "p = Some n"
        using assms(2) \<open>alloc\<close> run False
        by (auto simp: freenect_open_device_def c2_def n_def zero_kinect_def Let_def split: option.splits)
      then show ?thesis
        using upd_dev_shape [of "\<lambda>d. d\<lparr>kd_cam := cam\<rparr>" n c2]
        by (simp add: put_camera_def devs_of_def upd_dev_def) blast
    qed
    have "reg_ok (devs_of c2) (cx_next_dev c2) w" using reg_ok_extend [OF reg [folded n_def] hh] by (simp add: c2 n_def)
    moreover obtain u where u: "cx_world c' = w\<lparr>uw_host := u\<rparr>" using shape by (auto simp: c2)
    ultimately have "core_inv c'" using shape by (simp add: core_inv_def reg_ok_host)
    moreover have "n \<notin> fst ` set (devs_of c)" using reg by (auto simp: reg_ok_def n_def)
    ultimately show ?thesis using hh shape u by (auto simp: handles_def c2(1) n_def)
  qed
qed (use assms in \<open>simp add: freenect_open_device_def\<close>)

text \<open>C11: \<open>freenect_open_device\<close> refines the opening of a registry, for every host: a device that is
  returned is new and owns handles that were not open, one that is not leaves the registry as it
  was; the handles of the devices stay disjoint and open.\<close>

theorem open_device_refines:
  assumes "core_inv c" and "freenect_open_device ops env alloc index c = Some (res, p, c')"
  shows "core_inv c' \<and> spec_open (abs_context c) p (abs_context c')"
proof (cases p)
  case None
  then show ?thesis
    using open_device_effect [OF assms] registry_cong [of c' c] by (simp add: spec_open_def abs_context_def)
next
  case (Some q)
  then obtain D where D: "core_inv c'" "q \<notin> fst ` set (devs_of c)" "devs_of c' = devs_of c @ [(q, D)]"
    "set (slot_handles D) \<inter> uw_open (cx_world c) = {}" "uw_open (cx_world c) \<union> set (slot_handles D) \<subseteq> uw_open (cx_world c')"
    using open_device_effect [OF assms] by (simp only: option.case) blast
  from registry_extend [OF D(3,2)] show ?thesis
    using D Some by (auto simp: spec_open_def abs_context_def)
qed

section \<open>Closing\<close>

lemma find_dev_None: "find_dev p ds = None \<longleftrightarrow> p \<notin> kd_ptr ` set ds"
  by (auto simp: find_dev_def find_None_iff)

lemma find_dev_Some: "find_dev p ds = Some d \<Longrightarrow> d \<in> set ds \<and> kd_ptr d = p"
  by (auto simp: find_dev_def find_Some_iff)

lemma reg_ok_split:
  assumes "reg_ok ds n w" and "(p, D) \<in> set ds"
  shows "distinct (slot_handles D)" and "set (slot_handles D) \<subseteq> uw_open w"
    and "set (all_handles (filter (\<lambda>x. fst x \<noteq> p) ds)) = set (all_handles ds) - set (slot_handles D)"
    and "distinct (all_handles (filter (\<lambda>x. fst x \<noteq> p) ds))"
proof -
  obtain xs ys where ds: "ds = xs @ (p, D) # ys" using split_list assms(2) by metis
  have "p \<notin> set (map fst xs)" "p \<notin> set (map fst ys)" using assms(1) by (auto simp: reg_ok_def ds)
  then have "filter (\<lambda>x. fst x \<noteq> p) xs = xs" "filter (\<lambda>x. fst x \<noteq> p) ys = ys"
    by (force intro: filter_True)+
  then have f: "filter (\<lambda>x. fst x \<noteq> p) ds = xs @ ys" by (simp add: ds)
  have d: "distinct (all_handles xs @ slot_handles D @ all_handles ys)" using assms(1) by (simp add: reg_ok_def ds)
  show "distinct (slot_handles D)" using d by simp
  show "set (slot_handles D) \<subseteq> uw_open w" using assms(1) by (simp add: reg_ok_def ds)
  show "distinct (all_handles (filter (\<lambda>x. fst x \<noteq> p) ds))" using d by (auto simp: f)
  show "set (all_handles (filter (\<lambda>x. fst x \<noteq> p) ds)) = set (all_handles ds) - set (slot_handles D)"
    unfolding f using d by (auto simp: ds)
qed

lemma close_world:
  assumes "reg_ok ds n w" and "(p, slots_of sd) \<in> set ds"
    and "run_state (fnusb_close_subdevices ops) (w\<lparr>uw_dev := sd\<rparr>) = (res, w')"
  shows "res = 0 \<and> uw_open w' = uw_open w - set (slot_handles (slots_of sd)) \<and> reg_ok (filter (\<lambda>x. fst x \<noteq> p) ds) n w'"
proof -
  let ?D = "slots_of sd" and ?B = "uw_open w - set (slot_handles (slots_of sd))"
  note sp = reg_ok_split [OF assms(1,2)]
  have "hs False ?B ?D [] (w\<lparr>uw_dev := sd\<rparr>)"
    using assms(1) sp(1,2) by (auto simp: hs_def slots_of_def reg_ok_def world_ok_def)
  then have pre: "slots_ok False ?B (w\<lparr>uw_dev := sd\<rparr>)" unfolding slots_ok_def by blast
  have post: "res = 0" "handles False ?B [] w'"
    using tripleD [OF close_subdevices_rule pre assms(3)] by simp_all
  then have "uw_open w' = ?B" by (simp add: handles_def)
  moreover have "reg_ok (filter (\<lambda>x. fst x \<noteq> p) ds) n w'"
    using assms(1) sp(3,4) handles_world [OF post(2)] calculation
    by (auto simp: reg_ok_def distinct_map_filter)
  ultimately show ?thesis using post(1) by simp
qed

lemma teardown_shape:
  assumes "(if b then on_camera f d c else Some (0, c)) = Some (r, c1)"
  shows "devs_of c1 = devs_of c \<and> cx_next_dev c1 = cx_next_dev c \<and> (\<exists>u. cx_world c1 = (cx_world c)\<lparr>uw_host := u\<rparr>)"
proof (cases b)
  case True
  then show ?thesis using on_camera_shape assms by fastforce
next
  case False
  then have "c1 = c" using assms by simp
  then show ?thesis by (auto intro: exI [of _ "uw_host (cx_world c)"])
qed

lemma devs_of_filter: "devs_of (c\<lparr>cx_devs := filter (\<lambda>x. kd_ptr x \<noteq> p) ds, cx_freed_busy := b\<rparr>)
    = filter (\<lambda>x. fst x \<noteq> p) (map (\<lambda>d. (kd_ptr d, slots_of (kd_sub d))) ds)"
  by (simp add: devs_of_def filter_map comp_def)

lemma close_device_effect:
  assumes "core_inv c" and "freenect_close_device ops env p c = Some (res, c')" and "find_dev p (cx_devs c) = Some d"
  shows "res = 0 \<and> core_inv c' \<and> devs_of c' = filter (\<lambda>x. fst x \<noteq> p) (devs_of c)
     \<and> uw_open (cx_world c') = uw_open (cx_world c) - set (slot_handles (slots_of (kd_sub d)))"
proof -
  obtain r c1 where t: "(if sd_cam (kd_sub d) \<noteq> None then on_camera (freenect_camera_teardown env) d c else Some (0, c)) = Some (r, c1)"
    using assms(2,3) by (auto simp: freenect_close_device_def split: option.splits if_splits)
  note shape = teardown_shape [OF t]
  then obtain u where u: "cx_world c1 = (cx_world c)\<lparr>uw_host := u\<rparr>" by blast
  obtain k w where run: "run_state (fnusb_close_subdevices ops) ((cx_world c1)\<lparr>uw_dev := kd_sub d\<rparr>) = (k, w)" by fastforce
  have mem: "(p, slots_of (kd_sub d)) \<in> set (devs_of c1)"
    using find_dev_Some [OF assms(3)] shape by (force simp: devs_of_def)
  have reg: "reg_ok (devs_of c1) (cx_next_dev c1) (cx_world c1)"
    using assms(1) shape u by (simp add: core_inv_def reg_ok_host)
  note cl = close_world [OF reg mem run]
  then have c': "res = 0" "c' = (c1\<lparr>cx_world := w\<rparr>)\<lparr>cx_devs := filter (\<lambda>x. kd_ptr x \<noteq> p) (cx_devs c1),
      cx_freed_busy := cx_freed_busy c1 \<or> (\<exists>x \<in> set (cx_devs c1). kd_ptr x = p \<and> busy x)\<rparr>"
    using assms(2,3) t run by (simp_all add: freenect_close_device_def)
  have "devs_of c' = filter (\<lambda>x. fst x \<noteq> p) (devs_of c1)"
    unfolding c'(2) devs_of_filter by (simp add: devs_of_def)
  moreover have "cx_world c' = w" "cx_next_dev c' = cx_next_dev c1" by (simp_all add: c'(2))
  ultimately show ?thesis using cl c'(1) shape u by (simp add: core_inv_def)
qed

lemma map_of_filter_key: "map_of (filter (\<lambda>x. fst x \<noteq> p) xs) = (map_of xs)(p := None)"
  by (induction xs) (auto simp: fun_eq_iff)

lemma registry_filter: "devs_of c' = filter (\<lambda>x. fst x \<noteq> p) (devs_of c) \<Longrightarrow> registry c' = (registry c)(p := None)"
  unfolding registry_def by (simp add: map_of_filter_key [symmetric] filter_map comp_def split_def)

lemma registry_find:
  assumes "core_inv c" and "find_dev p (cx_devs c) = Some d"
  shows "registry c p = Some (set (slot_handles (slots_of (kd_sub d))))"
proof -
  have "(p, set (slot_handles (slots_of (kd_sub d)))) \<in> set (map (\<lambda>(p, D). (p, set (slot_handles D))) (devs_of c))"
    using find_dev_Some [OF assms(2)] by (force simp: devs_of_def)
  moreover have "distinct (map fst (map (\<lambda>(p, D). (p, set (slot_handles D))) (devs_of c)))"
    using assms(1) by (simp add: core_inv_def reg_ok_def comp_def split_def)
  ultimately show ?thesis unfolding registry_def by simp
qed

text \<open>C14: \<open>freenect_close_device\<close> refines the closing of a registry: it returns 0, removes exactly the device
  and closes exactly its handles; the other devices keep theirs.\<close>

theorem close_device_refines:
  assumes "core_inv c" and "freenect_close_device ops env p c = Some (res, c')"
  shows "res = 0 \<and> core_inv c' \<and> abs_context c' = spec_close (abs_context c) p"
proof -
  obtain d where d: "find_dev p (cx_devs c) = Some d"
    using assms(2) by (auto simp: freenect_close_device_def split: option.splits)
  note e = close_device_effect [OF assms d]
  then have "registry c' = (registry c)(p := None)" using registry_filter by blast
  then show ?thesis using e registry_find [OF assms(1) d] by (simp add: spec_close_def abs_context_def)
qed

section \<open>Shutdown\<close>

definition idle :: "'u kinect \<Rightarrow> bool" where
  "idle d \<longleftrightarrow> \<not> ps_running (fd_depth (kd_cam d)) \<and> \<not> ps_running (fd_video (kd_cam d))"

lemma close_idle:
  assumes "core_inv c" and "cx_devs c = d # ds" and "idle d"
  obtains c' where "freenect_close_device ops env (kd_ptr d) c = Some (0, c')" and "cx_devs c' = ds"
    and "uw_open (cx_world c') = uw_open (cx_world c) - set (slot_handles (slots_of (kd_sub d)))"
    and "core_inv c'" and "cx_freed_busy c' = (cx_freed_busy c \<or> busy d)"
proof -
  have fd: "find_dev (kd_ptr d) (cx_devs c) = Some d" by (simp add: find_dev_def assms(2))
  have others: "kd_ptr x \<noteq> kd_ptr d" if "x \<in> set ds" for x
  proof -
    have "kd_ptr d \<notin> kd_ptr ` set ds" using assms(1) by (simp add: core_inv_def reg_ok_def devs_of_def assms(2))
    then show ?thesis using that by (metis image_eqI)
  qed
  obtain c1 where c1: "(if sd_cam (kd_sub d) \<noteq> None then on_camera (freenect_camera_teardown env) d c else Some (0, c)) = Some (0, c1)"
    and cs: "\<exists>d1. cx_devs c1 = d1 # ds \<and> kd_ptr d1 = kd_ptr d \<and> busy d1 = busy d" "cx_freed_busy c1 = cx_freed_busy c"
  proof (cases "sd_cam (kd_sub d) = None")
    case True
    then show thesis using that [of c] assms(2) by simp
  next
    case False
    have same: "map (\<lambda>x. if kd_ptr x = kd_ptr d then f x else x) ds = ds" for f
      using others by (simp add: map_idI)
    have "freenect_camera_teardown env (camera_of c d, cx_heap c)
        = Some (0, ((camera_of c d)\<lparr>fd_registration := freenect_destroy_registration (fd_registration (camera_of c d))\<rparr>, cx_heap c))"
      using assms(3) by (simp add: freenect_camera_teardown_def idle_def camera_of_def)
    then show thesis
      using False by (intro that, simp add: on_camera_def)
        (simp_all add: put_camera_def upd_dev_def assms(2) same busy_def camera_of_def)
  qed
  obtain w where run: "run_state (fnusb_close_subdevices ops) ((cx_world c1)\<lparr>uw_dev := kd_sub d\<rparr>) = (0, w)"
  proof -
    obtain k w where run: "run_state (fnusb_close_subdevices ops) ((cx_world c1)\<lparr>uw_dev := kd_sub d\<rparr>) = (k, w)" by fastforce
    then have "k = 0" by (simp add: fnusb_close_subdevices_def split: prod.splits)
    with run that show thesis by simp
  qed
  define c' where "c' = (c1\<lparr>cx_world := w\<rparr>)\<lparr>cx_devs := filter (\<lambda>x. kd_ptr x \<noteq> kd_ptr d) (cx_devs c1),
      cx_freed_busy := cx_freed_busy c1 \<or> (\<exists>x \<in> set (cx_devs c1). kd_ptr x = kd_ptr d \<and> busy x)\<rparr>"
  have r: "freenect_close_device ops env (kd_ptr d) c = Some (0, c')"
    unfolding freenect_close_device_def fd option.case c1 prod.case by (simp add: run c'_def)
  have "filter (\<lambda>x. kd_ptr x \<noteq> kd_ptr d) ds = ds" using others by (simp add: filter_id_conv)
  then have "cx_devs c' = ds" using cs(1) by (auto simp: c'_def)
  moreover have "cx_freed_busy c' = (cx_freed_busy c \<or> busy d)" using cs others by (auto simp: c'_def)
  ultimately show thesis
    using that r close_device_effect [OF assms(1) r fd] by blast
qed

text \<open>C15: \<open>freenect_shutdown\<close> ends when no device streams: every device is closed, in the order of the list,
  with all its handles and no other, and no closed handle is used on the way.\<close>

theorem shutdown_terminates:
  assumes "core_inv c" and "\<forall>d \<in> set (cx_devs c). idle d"
  shows "\<exists>c'. freenect_shutdown ops env c = Some (0, c') \<and> cx_devs c' = [] \<and> \<not> uw_bad_handle (cx_world c')
     \<and> uw_open (cx_world c') = uw_open (cx_world c) - set (all_handles (devs_of c))"
proof -
  have "\<exists>c'. close_all ops env c = Some c' \<and> cx_devs c' = [] \<and> core_inv c'
     \<and> uw_open (cx_world c') = uw_open (cx_world c) - set (all_handles (devs_of c))" if "cx_devs c = ds" for ds
    using assms that
  proof (induction ds arbitrary: c)
    case Nil
    then show ?case by (simp add: close_all.simps devs_of_def)
  next
    case (Cons d ds)
    obtain c1 where c1: "freenect_close_device ops env (kd_ptr d) c = Some (0, c1)" "cx_devs c1 = ds" "core_inv c1"
      and o: "uw_open (cx_world c1) = uw_open (cx_world c) - set (slot_handles (slots_of (kd_sub d)))"
      using close_idle [OF Cons.prems(1,3)] Cons.prems(2,3) by (metis list.set_intros(1))
    have "close_all ops env c = close_all ops env c1" using c1(1) Cons.prems(3) by (subst close_all.simps) simp
    moreover have "\<forall>d \<in> set (cx_devs c1). idle d" using Cons.prems(2,3) c1(2) by simp
    ultimately obtain c' where "close_all ops env c = Some c'" "cx_devs c' = []" "core_inv c'"
      "uw_open (cx_world c') = uw_open (cx_world c1) - set (all_handles (devs_of c1))"
      using Cons.IH [OF c1(3) _ c1(2)] by auto
    moreover have "devs_of c = (kd_ptr d, slots_of (kd_sub d)) # devs_of c1" using Cons.prems(3) c1(2) by (simp add: devs_of_def)
    ultimately show ?case using o by auto
  qed
  then obtain c' where "close_all ops env c = Some c'" "cx_devs c' = []" "core_inv c'"
    "uw_open (cx_world c') = uw_open (cx_world c) - set (all_handles (devs_of c))" by blast
  then show ?thesis by (simp add: freenect_shutdown_def core_inv_def reg_ok_def world_ok_def)
qed

section \<open>Enumeration\<close>

text \<open>A host on which every device opens and every string descriptor can be read.\<close>

definition readable :: "('u, 'x) usb_host_scheme \<Rightarrow> bool" where
  "readable ops \<longleftrightarrow> (\<forall>i u. fst (host_request ops (Open_Device i) u) = 0) \<and> (\<forall>h i u. 0 \<le> fst (fst (host_string ops h i u)))"

lemma triple_any: "triple P m (\<lambda>_ _. True)"
  by (simp add: triple_def)

lemma readable_rules:
  assumes "readable ops"
  shows "triple P (libusb_open ops i) (\<lambda>x _. snd x \<noteq> None)" and "triple P (get_string ops a j) (\<lambda>x _. 0 \<le> fst x)"
  using assms by (simp_all add: triple_def libusb_open_def request_def get_string_def touch_def modify_def readable_def split_beta)

lemma triple_const: "(b \<Longrightarrow> triple (\<lambda>_. True) m Q) \<Longrightarrow> triple (\<lambda>_. b) m Q"
  by (simp add: triple_def)

lemma triple_keep: "triple (\<lambda>_. b) m (\<lambda>_ _. b)"
  by (simp add: triple_def)

lemma list_serials_le: "triple (\<lambda>_. True) (list_serials ops devs ds) (\<lambda>xs _. int (length xs) \<le> count_cameras (map snd ds))"
proof (induction ds)
  case (Cons p ds)
  obtain i d where p: "p = (i, d)" by fastforce
  have skip: "triple (\<lambda>_. True) (list_serials ops devs ds) (\<lambda>xs _. int (length xs) \<le> count_cameras (map snd (p # ds)))"
    by (rule triple_post [OF Cons.IH]) (simp add: p)
  show ?case
    unfolding p list_serials.simps
    apply (rule triple_if, rule skip [unfolded p])
    apply (rule triple_bind [OF triple_any])
    apply (simp only: prod.case_eq_if option.case_eq_if)
    apply (rule triple_if, rule skip [unfolded p])
    apply (rule triple_bind [OF triple_any], simp only: prod.case_eq_if)
    apply (rule triple_bind [OF triple_any])
    apply (rule triple_if, rule skip [unfolded p])
    apply (rule triple_bind [OF triple_any])
    apply (rule triple_bind [OF Cons.IH])
    apply (rule triple_return, simp)
    done
qed (simp add: triple_return)

lemma list_serials_eq:
  assumes "readable ops" and "\<forall>d \<in> snd ` set ds. is_kinect_camera d \<longrightarrow> ud_serial_index d \<noteq> 0"
  shows "triple (\<lambda>_. True) (list_serials ops devs ds) (\<lambda>xs _. int (length xs) = count_cameras (map snd ds))"
  using assms(2)
proof (induction ds)
  case (Cons p ds)
  obtain i d where p: "p = (i, d)" by fastforce
  have IH: "triple (\<lambda>_. True) (list_serials ops devs ds) (\<lambda>xs _. int (length xs) = count_cameras (map snd ds))"
    by (rule Cons.IH) (use Cons.prems in simp)
  show ?case
    unfolding p list_serials.simps
    apply (rule triple_if)
     apply (rule triple_post [OF IH])
    using Cons.prems apply (auto simp: p)[1]
    apply (rule triple_bind [OF readable_rules(1) [OF assms(1)]])
    apply (simp only: prod.case_eq_if option.case_eq_if)
    apply (rule triple_const)
    apply (rule triple_if, simp)
    apply (rule triple_bind [OF readable_rules(2) [OF assms(1)]], simp only: prod.case_eq_if)
    apply (rule triple_bind [OF triple_keep triple_const])
    apply (rule triple_if, simp)
    apply (rule triple_bind [OF triple_any])
    apply (rule triple_bind [OF IH])
    apply (rule triple_return, simp)
    done
qed (simp add: triple_return)

lemma attributes_run:
  assumes "triple (\<lambda>_. True) (list_serials ops ds (enumerate 0 ds)) (\<lambda>xs _. Q xs)"
    and "host_devices ops (uw_host (cx_world c)) = (Some ds, u)"
    and "freenect_list_device_attributes ops c = (xs, c')"
  shows "\<exists>ys. xs = Some ys \<and> Q ys"
proof -
  obtain ys w where r: "run_state (list_serials ops ds (enumerate 0 ds)) ((cx_world c)\<lparr>uw_host := u\<rparr>) = (ys, w)" by fastforce
  have "xs = Some ys"
    using assms(2,3) r by (simp add: freenect_list_device_attributes_def fnusb_list_device_attributes_def get_device_list_def)
  then show ?thesis using tripleD [OF assms(1) _ r] by simp
qed

lemma num_devices_run:
  "host_devices ops (uw_host (cx_world c)) = (Some ds, u) \<Longrightarrow> fst (freenect_num_devices ops c) = count_cameras ds"
  by (simp add: freenect_num_devices_def fnusb_num_devices_def get_device_list_def split_beta)

text \<open>There are never more attributes than cameras counted.\<close>

lemma attributes_le_count:
  assumes "host_devices ops (uw_host (cx_world c)) = (Some ds, u)" and "freenect_list_device_attributes ops c = (xs, c')"
  shows "\<exists>ys. xs = Some ys \<and> int (length ys) \<le> fst (freenect_num_devices ops c)"
  using attributes_run [OF _ assms] list_serials_le [of ops ds "enumerate 0 ds"]
  by (simp add: num_devices_run [OF assms(1)])

text \<open>When every camera has a serial number that can be read, the attribute list has one entry for
  each camera \<open>freenect_num_devices\<close> counts, so that its positions are the device indices.\<close>

lemma attributes_match_count:
  assumes "readable ops" and "host_devices ops (uw_host (cx_world c)) = (Some ds, u)"
    and "\<forall>d \<in> set ds. is_kinect_camera d \<longrightarrow> ud_serial_index d \<noteq> 0"
    and "freenect_list_device_attributes ops c = (xs, c')"
  shows "\<exists>ys. xs = Some ys \<and> int (length ys) = fst (freenect_num_devices ops c)"
proof -
  have "snd ` set (enumerate 0 ds) = set ds" using set_map [of snd "enumerate 0 ds"] by simp
  then have "triple (\<lambda>_. True) (list_serials ops ds (enumerate 0 ds)) (\<lambda>ys _. int (length ys) = count_cameras ds)"
    using list_serials_eq [OF assms(1), of "enumerate 0 ds" ds] assms(3) by simp
  then show ?thesis using attributes_run [OF _ assms(2,4)] by (simp add: num_devices_run [OF assms(2)])
qed

section \<open>Corner cases\<close>

text \<open>A camera that opens but does not answer leaves the device open and in the list, with result -1.\<close>

lemma failed_init_keeps_device:
  assumes "run_state (fnusb_open_subdevices ops index) ((cx_world c)\<lparr>uw_dev := zero_subdevices\<rparr>) = (0, w)"
    and "sd_cam (uw_dev w) = Some x"
    and "\<And>d. \<exists>cam. freenect_camera_init env d = Some (-1, cam)"
  shows "\<exists>c'. freenect_open_device ops env True index c = Some (-1, Some (cx_next_dev c), c')
     \<and> cx_next_dev c \<in> kd_ptr ` set (cx_devs c')"
proof -
  define d where "d = zero_kinect (cx_next_dev c) (uw_dev w) (c\<lparr>cx_world := w\<rparr>)"
  define c2 where "c2 = c\<lparr>cx_world := w, cx_devs := cx_devs c @ [d], cx_next_dev := cx_next_dev c + 1\<rparr>"
  obtain cam where cam: "freenect_camera_init env (camera_of c2 d) = Some (-1, cam)" using assms(3) by blast
  have "freenect_open_device ops env True index c = Some (-1, Some (cx_next_dev c), put_camera (cx_next_dev c) cam c2)"
    using assms(1,2) cam by (simp add: freenect_open_device_def Let_def c2_def d_def zero_kinect_def)
  moreover have "cx_next_dev c \<in> kd_ptr ` set (cx_devs (put_camera (cx_next_dev c) cam c2))"
    by (simp add: put_camera_def upd_dev_def c2_def d_def zero_kinect_def image_iff)
  ultimately show ?thesis by blast
qed

text \<open>Closing a device whose two streams run frees the device record while its video transfers are
  in flight: \<open>freenect_camera_teardown\<close> stops only the depth stream.\<close>

lemma close_frees_streaming_device:
  assumes "find_dev p (cx_devs c) = Some d" and "sd_cam (kd_sub d) \<noteq> None"
    and "ps_running (fd_depth (kd_cam d))" and "ps_running (fd_video (kd_cam d))"
    and "st_inflight (fd_video_isoc (kd_cam d)) \<noteq> {}"
    and "freenect_close_device ops env p c = Some (res, c')"
  shows "cx_freed_busy c'"
proof -
  obtain r cam h where t: "freenect_camera_teardown env (camera_of c d, cx_heap c) = Some (r, (cam, h))"
    using assms(1,2,6) by (auto simp: freenect_close_device_def on_camera_def split: option.splits)
  have "ps_running (fd_depth (camera_of c d))" "ps_running (fd_video (camera_of c d))"
    using assms(3,4) by (simp_all add: camera_of_def)
  then have v: "st_inflight (fd_video_isoc cam) \<noteq> {}"
    using teardown_leaves_video_running [OF _ _ t] assms(5) by (simp add: camera_of_def)
  define c1 where "c1 = (put_camera p cam c)\<lparr>cx_heap := h\<rparr>"
  have d: "d \<in> set (cx_devs c)" "kd_ptr d = p" using find_dev_Some [OF assms(1)] by simp_all
  then have "d\<lparr>kd_cam := cam\<rparr> \<in> set (cx_devs c1)" by (force simp: c1_def put_camera_def upd_dev_def image_iff)
  moreover have "busy (d\<lparr>kd_cam := cam\<rparr>)" using v by (simp add: busy_def)
  ultimately have b: "\<exists>x \<in> set (cx_devs c1). kd_ptr x = p \<and> busy x"
    by (intro bexI [of _ "d\<lparr>kd_cam := cam\<rparr>"]) (simp_all add: d(2))
  obtain w where run: "run_state (fnusb_close_subdevices ops) ((cx_world c1)\<lparr>uw_dev := kd_sub d\<rparr>) = (0, w)"
    using that by (simp add: fnusb_close_subdevices_def split_beta)
  have "on_camera (freenect_camera_teardown env) d c = Some (r, c1)" by (simp add: on_camera_def t c1_def d(2))
  then show ?thesis using assms(1,2,6) run b by (auto simp: freenect_close_device_def)
qed

section \<open>Witnesses\<close>

text \<open>A context that asks for motor and audio, and the same after opening a Kinect of the first kind.\<close>

definition silent_env :: "unit cam_env" where
  "silent_env = \<lparr>ctl_out = (\<lambda>_ _ _ _ xs u. (-1, u)), ctl_in = (\<lambda>_ _ _ _ _ u. (Inl (-1), u)), env_alloc = (\<lambda>_. True),
     env_submit = (\<lambda>_. 0), env_max_iso = 0, env_completions = [], env_fp = sample_fp,
     env_video_retval = supported_video_modes ! 4, env_depth_retval = supported_depth_modes ! 4\<rparr>"

definition sample_context :: "unit freenect_context" where
  "sample_context = freenect_select_subdevices 5
     (fresh_context \<lparr>fc_ctx = Some 1, fc_should_free_ctx = True\<rparr> () sample_heap)"

abbreviation kinect_host :: "unit usb_host" where
  "kinect_host \<equiv> steady_host kinect_1414 2 (1, ''B'')"

definition opened_context :: "unit freenect_context" where
  "opened_context = (let w = (cx_world sample_context)\<lparr>uw_next := 2, uw_open := {0, 1}, uw_dev := zero_subdevices
       \<lparr>sd_motor := Some 0, sd_audio := Some 1, sd_audio_pid := 0x02ad\<rparr>\<rparr>;
     c = sample_context\<lparr>cx_world := w\<rparr>
   in c\<lparr>cx_devs := [zero_kinect 1 (uw_dev w) c], cx_next_dev := 2\<rparr>)"

lemma sample_inv: "core_inv sample_context"
  by (simp add: core_inv_def sample_context_def freenect_select_subdevices_def fresh_context_def devs_of_def reg_ok_def world_ok_def)

lemma sample_open: "freenect_open_device kinect_host silent_env True 0 sample_context = Some (0, Some 1, opened_context)"
  by (simp add: freenect_open_device_def sample_context_def freenect_select_subdevices_def fresh_context_def
      usb_opens usb_runs usb_ids steady_host_def kinect_1414_def plain_device_def zero_subdevices_def opened_context_def
      insert_commute Let_def zero_kinect_def)

theorem open_device_refines_witness:
  "core_inv opened_context \<and> dom (registry opened_context) = {1}"
proof -
  from open_device_refines [OF sample_inv sample_open] have "core_inv opened_context" by blast
  moreover have "dom (registry opened_context) = {1}"
    by (simp add: registry_dom devs_of_def opened_context_def zero_kinect_def)
  ultimately show ?thesis by blast
qed

lemma opened_idle: "\<forall>d \<in> set (cx_devs opened_context). idle d"
  by (simp add: opened_context_def zero_kinect_def idle_def zero_camera_def zero_stream_def)

lemma opened_inv: "core_inv opened_context"
  by (simp add: core_inv_def opened_context_def sample_context_def freenect_select_subdevices_def fresh_context_def
      devs_of_def reg_ok_def world_ok_def zero_kinect_def slots_of_def slot_handles_def zero_subdevices_def)

theorem close_device_refines_witness:
  "\<exists>c'. freenect_close_device kinect_host silent_env 1 opened_context = Some (0, c') \<and> registry c' 1 = None"
proof -
  obtain c' where c': "freenect_close_device kinect_host silent_env 1 opened_context = Some (0, c')"
    using close_idle [OF opened_inv, of "hd (cx_devs opened_context)" "[]" kinect_host silent_env] opened_idle
    by (simp add: opened_context_def zero_kinect_def) blast
  from close_device_refines [OF opened_inv c'] have "registry c' 1 = None" by (simp add: spec_close_def abs_context_def)
  with c' show ?thesis by blast
qed

theorem shutdown_terminates_witness:
  "\<exists>c'. freenect_shutdown kinect_host silent_env opened_context = Some (0, c') \<and> uw_open (cx_world c') = {}"
proof -
  have "uw_open (cx_world opened_context) - set (all_handles (devs_of opened_context)) = {}"
    by (simp add: opened_context_def devs_of_def zero_kinect_def slots_of_def slot_handles_def zero_subdevices_def)
  with shutdown_terminates [OF opened_inv opened_idle, of kinect_host silent_env] show ?thesis by auto
qed

lemma attributes_match_count_example:
  "fst (freenect_list_device_attributes kinect_host sample_context) = Some [''B''] \<and> fst (freenect_num_devices kinect_host sample_context) = 1"
proof -
  have r: "readable kinect_host" by (simp add: readable_def steady_host_def)
  have h: "host_devices kinect_host (uw_host (cx_world sample_context)) = (Some kinect_1414, ())" by (simp add: steady_host_def)
  have s: "\<forall>d \<in> set kinect_1414. is_kinect_camera d \<longrightarrow> ud_serial_index d \<noteq> 0" by (simp add: kinect_1414_def plain_device_def)
  have l: "fst (freenect_list_device_attributes kinect_host sample_context) = Some [''B'']"
    by (simp add: freenect_list_device_attributes_def fnusb_list_device_attributes_def usb_runs usb_ids steady_host_def
        kinect_1414_def plain_device_def is_kinect_camera_def camera_serial_def K4W_1473_SERIAL_def split_beta)
  then obtain c' where "freenect_list_device_attributes kinect_host sample_context = (Some [''B''], c')"
    by (metis fst_conv surj_pair)
  from attributes_match_count [OF r h s this] l show ?thesis by simp
qed

text \<open>Two cameras, the first without a serial number: the serial of the second opens index 0, the first.\<close>

lemma serial_opens_other_camera:
  assumes "fst (freenect_list_device_attributes ops c) = Some [''B'']" and "fst (freenect_num_devices ops c) = 2"
  shows "freenect_open_device_by_camera_serial ops env alloc ''B'' c
     = freenect_open_device ops env alloc 0 (snd (freenect_list_device_attributes ops c))"
  using assms(1) by (simp add: freenect_open_device_by_camera_serial_def split_beta)

lemma serial_opens_other_camera_example:
  "let ops = steady_host [(plain_device 0x45e 0x02ae)\<lparr>ud_serial_index := 0\<rparr>, plain_device 0x45e 0x02ae] 2 (1, ''B'')
   in fst (freenect_list_device_attributes ops sample_context) = Some [''B''] \<and> fst (freenect_num_devices ops sample_context) = 2"
  by (simp add: freenect_list_device_attributes_def fnusb_list_device_attributes_def usb_runs usb_ids steady_host_def
      plain_device_def is_kinect_camera_def camera_serial_def K4W_1473_SERIAL_def split_beta freenect_num_devices_def
      fnusb_num_devices_def)

text \<open>A device with both streams running on the simulated camera.\<close>

definition sim_host :: "sim_cam usb_host" where
  "sim_host = \<lparr>ctl_out = ctl_out sim_ops, ctl_in = ctl_in sim_ops, bulk_out = (\<lambda>_ xs _ u. ((0, length xs), u)),
     bulk_in = (\<lambda>_ _ _ u. ((0, []), u)), host_request = (\<lambda>rq u. (0, u)), host_string = (\<lambda>_ _ u. ((0, []), u)),
     host_devices = (\<lambda>u. (None, u)), host_files = \<lparr>fe_getenv = (\<lambda>_. None), fe_file = (\<lambda>_. None), fe_errno = 2\<rparr>\<rparr>"

definition streaming_kinect :: "sim_cam kinect" where
  "streaming_kinect = \<lparr>kd_ptr = 1, kd_user = 1, kd_sub = zero_subdevices\<lparr>sd_cam := Some 0\<rparr>,
     kd_cam = both_running\<lparr>fd_video_isoc := idle_iso\<lparr>st_inflight := {0}\<rparr>\<rparr>,
     kd_audio = zero_audio sample_heap, kd_audio_dead = False\<rparr>"

definition streaming_context :: "sim_cam freenect_context" where
  "streaming_context =
     (let c = fresh_context \<lparr>fc_ctx = Some 1, fc_should_free_ctx = True\<rparr> (usb_state sim_start) sample_heap
      in c\<lparr>cx_devs := [streaming_kinect], cx_next_dev := 2, cx_world := (cx_world c)\<lparr>uw_next := 1, uw_open := {0}\<rparr>\<rparr>)"

lemma close_streaming_context:
  "\<exists>c'. freenect_close_device sim_host sample_env 1 streaming_context = Some (0, c') \<and> cx_freed_busy c'"
proof -
  let ?d = streaming_kinect and ?c = streaming_context
  let ?cam = "camera_of ?c ?d"
  have f: "find_dev 1 (cx_devs ?c) = Some ?d" by (simp add: find_dev_def streaming_context_def streaming_kinect_def Let_def)
  have run: "ps_running (fd_depth (kd_cam ?d))" "ps_running (fd_video (kd_cam ?d))" "sd_cam (kd_sub ?d) \<noteq> None"
    "st_inflight (fd_video_isoc (kd_cam ?d)) \<noteq> {}" by (simp_all add: streaming_kinect_def both_running_def)
  obtain dev1 where w: "write_registers sample_env [(0x06, 0x00)]
      (?cam\<lparr>fd_depth := (fd_depth ?cam)\<lparr>ps_running := False\<rparr>\<rparr>) = Some dev1"
    using sample_writes by blast
  note wf = write_registers_fields [OF w]
  have d1: "fd_depth_isoc dev1 = idle_iso" "\<not> ps_split_bufs (fd_depth dev1)" "ps_lib_buf (fd_depth dev1) = NULL"
    by (simp_all add: wf camera_of_def streaming_kinect_def both_running_def sample_dev_def sample_stream_def)
  obtain istrm where i: "fnusb_stop_iso no_client (env_completions sample_env) idle_iso = Some (0, istrm)"
    by (simp add: sample_env_def fnusb_stop_iso_def idle_iso_def upt_conv_Cons)
  have "ps_running (fd_depth ?cam)" using run(1) by (simp add: camera_of_def)
  then obtain dev2 h2 where t: "freenect_camera_teardown sample_env (?cam, cx_heap ?c) = Some (0, (dev2, h2))"
    using w i d1 by (simp add: freenect_camera_teardown_def freenect_stop_depth_def stream_freebufs_def)
  define c1 where "c1 = (put_camera (kd_ptr ?d) dev2 ?c)\<lparr>cx_heap := h2\<rparr>"
  have "on_camera (freenect_camera_teardown sample_env) ?d ?c = Some (0, c1)" by (simp add: on_camera_def t c1_def)
  moreover obtain v where "run_state (fnusb_close_subdevices sim_host) ((cx_world c1)\<lparr>uw_dev := kd_sub ?d\<rparr>) = (0, v)"
    using that by (simp add: fnusb_close_subdevices_def split_beta)
  ultimately have "\<exists>c'. freenect_close_device sim_host sample_env 1 ?c = Some (0, c')"
    using run(3) unfolding freenect_close_device_def f option.case by simp
  then obtain c' where c': "freenect_close_device sim_host sample_env 1 ?c = Some (0, c')" by blast
  with close_frees_streaming_device [OF f run(3,1,2,4) c'] show ?thesis by blast
qed

end
