(* ===== verification/Wrapper.thy ===== *)
theory Wrapper
  imports FreenectCoreProofs
begin

text \<open>
  The C++ wrapper \<open>libfreenect.hpp\<close>: device objects, which open and close a device and start, stop
  and configure its streams, and the driver object with the map of its devices and the event thread.

  A runtime error that is thrown is a value \<open>Inl e\<close> beside the state it leaves.  The heap of C++
  objects is \<open>ap_objs\<close>; the user pointer of a device is its object.  \<open>None\<close> is a fault: an object
  or a device that is not live, a join of a thread that was never created, or a fault of the library.
\<close>

section \<open>Objects\<close>

datatype runtime_error =
    Cannot_Open_Device | Cannot_Start_RGB | Cannot_Stop_RGB | Cannot_Start_Depth | Cannot_Stop_Depth
  | Cannot_Set_Video_Format | Cannot_Set_Depth_Format | Cannot_Initialize | Cannot_Initialize_Thread | Cannot_Process_Events

record dev_obj =
  ob_dev :: nat
  ob_video_format :: video_format
  ob_depth_format :: depth_format

record 'u app =
  ap_ctx :: "'u freenect_context"
  ap_stop :: bool
  ap_thread :: bool
  ap_devices :: "(int \<times> nat) list"
  ap_objs :: "nat \<Rightarrow> dev_obj option"
  ap_next :: nat

text \<open>A camera operation on an open device, by its address.\<close>

definition dev_camera ::
  "('u cam_state \<Rightarrow> (int \<times> 'u cam_state) option) \<Rightarrow> nat \<Rightarrow> 'u freenect_context \<Rightarrow> (int \<times> 'u freenect_context) option" where
  "dev_camera f p c = (case find_dev p (cx_devs c) of None \<Rightarrow> None | Some d \<Rightarrow> on_camera f d c)"

definition set_video :: "('u, 'y) cam_env_scheme \<Rightarrow> video_format \<Rightarrow> 'u cam_state \<Rightarrow> (int \<times> 'u cam_state) option" where
  "set_video env fmt st =
     map_option (\<lambda>(r, dev). (r, (dev, snd st)))
       (freenect_set_video_mode env (freenect_find_video_mode (env_video_retval env) RESOLUTION_MEDIUM fmt) (fst st))"

definition set_depth :: "('u, 'y) cam_env_scheme \<Rightarrow> depth_format \<Rightarrow> 'u cam_state \<Rightarrow> (int \<times> 'u cam_state) option" where
  "set_depth env fmt st =
     (let (r, dev) = freenect_set_depth_mode (freenect_find_depth_mode (env_depth_retval env) RESOLUTION_MEDIUM fmt) (fst st)
      in Some (r, (dev, snd st)))"

definition freenect_set_depth_callback :: "bool \<Rightarrow> 'u cam_state \<Rightarrow> (int \<times> 'u cam_state) option" where
  "freenect_set_depth_callback cb st = Some (0, ((fst st)\<lparr>fd_depth_cb := cb\<rparr>, snd st))"

definition freenect_set_video_callback :: "bool \<Rightarrow> 'u cam_state \<Rightarrow> (int \<times> 'u cam_state) option" where
  "freenect_set_video_callback cb st = Some (0, ((fst st)\<lparr>fd_video_cb := cb\<rparr>, snd st))"

text \<open>Calls whose results are ignored, one after the other.\<close>

primrec ignore_results ::
  "('u cam_state \<Rightarrow> (int \<times> 'u cam_state) option) list \<Rightarrow> nat \<Rightarrow> 'u freenect_context \<Rightarrow> 'u freenect_context option" where
  "ignore_results [] p c = Some c"
| "ignore_results (f # fs) p c = Option.bind (dev_camera f p c) (\<lambda>r. ignore_results fs p (snd r))"

section \<open>Device objects\<close>

text \<open>The constructor, for an object at the address \<open>ob\<close>; its formats are the dummy formats.\<close>

definition FreenectDevice_new ::
  "('u, 'x) usb_host_scheme \<Rightarrow> ('u, 'y) cam_env_scheme \<Rightarrow> bool \<Rightarrow> nat \<Rightarrow> int \<Rightarrow> 'u freenect_context
    \<Rightarrow> ((runtime_error + dev_obj) \<times> 'u freenect_context) option" where
  "FreenectDevice_new ops env alloc ob index c =
     (case freenect_open_device ops env alloc index c of
        None \<Rightarrow> None
      | Some (res, p, c1) \<Rightarrow>
          (if res < 0 then Some (Inl Cannot_Open_Device, c1)
           else (case p of None \<Rightarrow> None
                 | Some q \<Rightarrow>
                     map_option (\<lambda>c2. (Inr \<lparr>ob_dev = q, ob_video_format = VIDEO_DUMMY, ob_depth_format = DEPTH_DUMMY\<rparr>, c2))
                       (ignore_results [set_video env VIDEO_RGB, set_depth env DEPTH_MM,
                          freenect_set_depth_callback True, freenect_set_video_callback True]
                          q (freenect_set_user q ob c1)))))"

text \<open>\<open>delete\<close>, with the destructor.\<close>

definition delete_object ::
  "('u, 'x) usb_host_scheme \<Rightarrow> ('u, 'y) cam_env_scheme \<Rightarrow> nat \<Rightarrow> 'u app \<Rightarrow> 'u app option" where
  "delete_object ops env ob a =
     (case ap_objs a ob of
        None \<Rightarrow> None
      | Some x \<Rightarrow> map_option (\<lambda>(_, c). a\<lparr>ap_ctx := c, ap_objs := (ap_objs a)(ob := None)\<rparr>)
                   (freenect_close_device ops env (ob_dev x) (ap_ctx a)))"

text \<open>A method that throws when the library call fails.\<close>

definition checked ::
  "('u cam_state \<Rightarrow> (int \<times> 'u cam_state) option) \<Rightarrow> runtime_error \<Rightarrow> nat \<Rightarrow> 'u app \<Rightarrow> ((runtime_error + unit) \<times> 'u app) option" where
  "checked f e ob a =
     (case ap_objs a ob of None \<Rightarrow> None
      | Some x \<Rightarrow> map_option (\<lambda>(r, c). (if r < 0 then Inl e else Inr (), a\<lparr>ap_ctx := c\<rparr>)) (dev_camera f (ob_dev x) (ap_ctx a)))"

definition startVideo :: "('u, 'y) cam_env_scheme \<Rightarrow> nat \<Rightarrow> 'u app \<Rightarrow> ((runtime_error + unit) \<times> 'u app) option" where
  "startVideo env = checked (freenect_start_video env) Cannot_Start_RGB"

definition stopVideo :: "('u, 'y) cam_env_scheme \<Rightarrow> nat \<Rightarrow> 'u app \<Rightarrow> ((runtime_error + unit) \<times> 'u app) option" where
  "stopVideo env = checked (freenect_stop_video env) Cannot_Stop_RGB"

definition startDepth :: "('u, 'y) cam_env_scheme \<Rightarrow> nat \<Rightarrow> 'u app \<Rightarrow> ((runtime_error + unit) \<times> 'u app) option" where
  "startDepth env = checked (freenect_start_depth env) Cannot_Start_Depth"

definition stopDepth :: "('u, 'y) cam_env_scheme \<Rightarrow> nat \<Rightarrow> 'u app \<Rightarrow> ((runtime_error + unit) \<times> 'u app) option" where
  "stopDepth env = checked (freenect_stop_depth env) Cannot_Stop_Depth"

text \<open>A change of format: stop, set the mode, start; only a mode that is refused throws.\<close>

definition setVideoFormat ::
  "('u, 'y) cam_env_scheme \<Rightarrow> video_format \<Rightarrow> nat \<Rightarrow> 'u app \<Rightarrow> ((runtime_error + unit) \<times> 'u app) option" where
  "setVideoFormat env fmt ob a =
     (case ap_objs a ob of
        None \<Rightarrow> None
      | Some x \<Rightarrow>
          (if fmt = ob_video_format x then Some (Inr (), a)
           else
             (case dev_camera (freenect_stop_video env) (ob_dev x) (ap_ctx a) of
                None \<Rightarrow> None
              | Some (_, c1) \<Rightarrow>
                  (case dev_camera (set_video env fmt) (ob_dev x) c1 of
                     None \<Rightarrow> None
                   | Some (r, c2) \<Rightarrow>
                       (if r < 0 then Some (Inl Cannot_Set_Video_Format, a\<lparr>ap_ctx := c2\<rparr>)
                        else map_option (\<lambda>(_, c3). (Inr (), a\<lparr>ap_ctx := c3,
                               ap_objs := (ap_objs a)(ob \<mapsto> x\<lparr>ob_video_format := fmt\<rparr>)\<rparr>))
                             (dev_camera (freenect_start_video env) (ob_dev x) c2))))))"

definition setDepthFormat ::
  "('u, 'y) cam_env_scheme \<Rightarrow> depth_format \<Rightarrow> nat \<Rightarrow> 'u app \<Rightarrow> ((runtime_error + unit) \<times> 'u app) option" where
  "setDepthFormat env fmt ob a =
     (case ap_objs a ob of
        None \<Rightarrow> None
      | Some x \<Rightarrow>
          (if fmt = ob_depth_format x then Some (Inr (), a)
           else
             (case dev_camera (freenect_stop_depth env) (ob_dev x) (ap_ctx a) of
                None \<Rightarrow> None
              | Some (_, c1) \<Rightarrow>
                  (case dev_camera (set_depth env fmt) (ob_dev x) c1 of
                     None \<Rightarrow> None
                   | Some (r, c2) \<Rightarrow>
                       (if r < 0 then Some (Inl Cannot_Set_Depth_Format, a\<lparr>ap_ctx := c2\<rparr>)
                        else map_option (\<lambda>(_, c3). (Inr (), a\<lparr>ap_ctx := c3,
                               ap_objs := (ap_objs a)(ob \<mapsto> x\<lparr>ob_depth_format := fmt\<rparr>)\<rparr>))
                             (dev_camera (freenect_start_depth env) (ob_dev x) c2))))))"

definition getVideoFormat :: "nat \<Rightarrow> 'u app \<Rightarrow> video_format option" where
  "getVideoFormat ob a = map_option ob_video_format (ap_objs a ob)"

definition getDepthFormat :: "nat \<Rightarrow> 'u app \<Rightarrow> depth_format option" where
  "getDepthFormat ob a = map_option ob_depth_format (ap_objs a ob)"

text \<open>The buffer sizes by format.\<close>

fun getVideoBufferSize :: "video_format \<Rightarrow> int" where
  "getVideoBufferSize VIDEO_RGB = 480 * 640 * 3"
| "getVideoBufferSize VIDEO_BAYER = 480 * 640"
| "getVideoBufferSize VIDEO_IR_8BIT = 488 * 640"
| "getVideoBufferSize VIDEO_IR_10BIT = 488 * 640 * 2"
| "getVideoBufferSize VIDEO_IR_10BIT_PACKED = 390400"
| "getVideoBufferSize VIDEO_YUV_RGB = 480 * 640 * 3"
| "getVideoBufferSize VIDEO_YUV_RAW = 480 * 640 * 2"
| "getVideoBufferSize VIDEO_DUMMY = 0"

fun getDepthBufferSize :: "depth_format \<Rightarrow> int" where
  "getDepthBufferSize DEPTH_11BIT = 480 * 640 * 2"
| "getDepthBufferSize DEPTH_10BIT = 480 * 640 * 2"
| "getDepthBufferSize DEPTH_11BIT_PACKED = 422400"
| "getDepthBufferSize DEPTH_10BIT_PACKED = 384000"
| "getDepthBufferSize _ = 0"

text \<open>The static callbacks find the object through the user pointer.\<close>

definition callback_object :: "nat \<Rightarrow> 'u app \<Rightarrow> dev_obj option" where
  "callback_object p a = Option.bind (freenect_get_user p (ap_ctx a)) (ap_objs a)"

section \<open>The driver object\<close>

definition Freenect_new ::
  "bool \<Rightarrow> int \<times> nat \<Rightarrow> 'u \<Rightarrow> heap \<Rightarrow> runtime_error + 'u app" where
  "Freenect_new alloc init u h =
     (case freenect_init alloc init None u h of
        (res, Some c) \<Rightarrow>
          (if res < 0 then Inl Cannot_Initialize
           else Inr \<lparr>ap_ctx = freenect_select_subdevices FREENECT_DEVICE_CAMERA (freenect_set_log_level 5 c),
                  ap_stop = False, ap_thread = False, ap_devices = [], ap_objs = (\<lambda>_. None), ap_next = 1\<rparr>)
      | (res, None) \<Rightarrow> Inl Cannot_Initialize)"

definition start :: "int \<Rightarrow> 'u app \<Rightarrow> (runtime_error + unit) \<times> 'u app" where
  "start created a = (if created \<noteq> 0 then (Inl Cannot_Initialize_Thread, a) else (Inr (), a\<lparr>ap_thread := True\<rparr>))"

text \<open>\<open>std::map::insert\<close>: in the order of the keys, and nothing when the key is there.\<close>

fun map_insert :: "int \<Rightarrow> nat \<Rightarrow> (int \<times> nat) list \<Rightarrow> (int \<times> nat) list" where
  "map_insert k v [] = [(k, v)]"
| "map_insert k v (e # es) =
     (if k < fst e then (k, v) # e # es else if k = fst e then e # es else e # map_insert k v es)"

definition createDevice ::
  "('u, 'x) usb_host_scheme \<Rightarrow> ('u, 'y) cam_env_scheme \<Rightarrow> bool \<Rightarrow> int \<Rightarrow> 'u app \<Rightarrow> ((runtime_error + nat) \<times> 'u app) option" where
  "createDevice ops env alloc index a =
     Option.bind (case map_of (ap_devices a) index of None \<Rightarrow> Some a | Some ob \<Rightarrow> delete_object ops env ob a)
       (\<lambda>a1. let ob = ap_next a1 in
          case FreenectDevice_new ops env alloc ob index (ap_ctx a1) of
            None \<Rightarrow> None
          | Some (Inl e, c) \<Rightarrow> Some (Inl e, a1\<lparr>ap_ctx := c\<rparr>)
          | Some (Inr x, c) \<Rightarrow> Some (Inr ob, a1\<lparr>ap_ctx := c, ap_objs := (ap_objs a1)(ob \<mapsto> x), ap_next := ob + 1,
                                 ap_devices := map_insert index ob (ap_devices a1)\<rparr>))"

definition deleteDevice ::
  "('u, 'x) usb_host_scheme \<Rightarrow> ('u, 'y) cam_env_scheme \<Rightarrow> int \<Rightarrow> 'u app \<Rightarrow> 'u app option" where
  "deleteDevice ops env index a =
     (case map_of (ap_devices a) index of None \<Rightarrow> Some a
      | Some ob \<Rightarrow> map_option (\<lambda>a1. a1\<lparr>ap_devices := filter (\<lambda>e. fst e \<noteq> index) (ap_devices a1)\<rparr>)
                     (delete_object ops env ob a))"

definition deviceCount :: "('u, 'x) usb_host_scheme \<Rightarrow> 'u app \<Rightarrow> int \<times> 'u app" where
  "deviceCount ops a = (let (n, c) = freenect_num_devices ops (ap_ctx a) in (n, a\<lparr>ap_ctx := c\<rparr>))"

text \<open>The loop of the event thread: for each round what it reads of \<open>m_stop\<close> and how the events go.
  \<open>Inr True\<close>: it has returned; \<open>Inr False\<close>: it still runs after these rounds.\<close>

fun event_loop ::
  "('u, 'y) cam_env_scheme \<Rightarrow> int \<times> int \<Rightarrow> (bool \<times> (int \<times> int \<Rightarrow> 'u freenect_context \<Rightarrow> int \<times> 'u freenect_context)) list
    \<Rightarrow> 'u freenect_context \<Rightarrow> ((runtime_error + bool) \<times> 'u freenect_context) option" where
  "event_loop env audio_stop [] c = Some (Inr False, c)"
| "event_loop env audio_stop ((stop, events) # rounds) c =
     (if stop then Some (Inr True, c)
      else (case freenect_process_events env audio_stop events c of None \<Rightarrow> None
            | Some (r, c') \<Rightarrow> if r < 0 then Some (Inl Cannot_Process_Events, c')
                             else event_loop env audio_stop rounds c'))"

primrec delete_all ::
  "('u, 'x) usb_host_scheme \<Rightarrow> ('u, 'y) cam_env_scheme \<Rightarrow> (int \<times> nat) list \<Rightarrow> 'u app \<Rightarrow> 'u app option" where
  "delete_all ops env [] a = Some a"
| "delete_all ops env (e # es) a = Option.bind (delete_object ops env (snd e) a) (delete_all ops env es)"

text \<open>The destructor, after the event thread has ended.\<close>

definition Freenect_delete ::
  "('u, 'x) usb_host_scheme \<Rightarrow> ('u, 'y) cam_env_scheme \<Rightarrow> 'u app \<Rightarrow> 'u freenect_context option" where
  "Freenect_delete ops env a =
     (if \<not> ap_thread a then None
      else Option.bind (delete_all ops env (ap_devices a) (a\<lparr>ap_stop := True\<rparr>))
             (\<lambda>a1. map_option snd (freenect_shutdown ops env (ap_ctx a1))))"

end
