(* ===== verification/WrapperProofs.thy ===== *)
theory WrapperProofs
  imports Wrapper
begin

text \<open>
  The objects of the wrapper: an invariant of all reachable driver objects, by which the callbacks
  of the library reach a live object; the entry of the map that goes stale when a device is created
  twice; changes of format; and the destructor.
\<close>

section \<open>Devices and their objects\<close>

definition users_of :: "'u freenect_context \<Rightarrow> (nat \<times> nat) list" where
  "users_of c = map (\<lambda>d. (kd_ptr d, kd_user d)) (cx_devs c)"

lemma fst_users: "map fst (users_of c) = map fst (devs_of c)"
  by (simp add: users_of_def devs_of_def)

text \<open>What an operation on a device keeps of a context.\<close>

definition same_devs :: "'u freenect_context \<Rightarrow> 'u freenect_context \<Rightarrow> bool" where
  "same_devs c c' \<longleftrightarrow> devs_of c' = devs_of c \<and> users_of c' = users_of c \<and> (core_inv c \<longrightarrow> core_inv c')"

lemma same_devs_refl [simp]: "same_devs c c"
  by (simp add: same_devs_def)

lemma same_devs_trans: "same_devs c c' \<Longrightarrow> same_devs c' c'' \<Longrightarrow> same_devs c c''"
  by (simp add: same_devs_def)

lemma on_camera_same: "on_camera f d c = Some (r, c') \<Longrightarrow> same_devs c c'"
proof -
  assume a: "on_camera f d c = Some (r, c')"
  then obtain cam h where c': "c' = (put_camera (kd_ptr d) cam c)\<lparr>cx_heap := h\<rparr>"
    by (auto simp: on_camera_def split: option.splits)
  have "users_of c' = users_of c" by (auto simp: c' put_camera_def upd_dev_def users_of_def)
  then show ?thesis using on_camera_shape [OF a] by (auto simp: same_devs_def core_inv_def reg_ok_host)
qed

lemma dev_camera_same: "dev_camera f p c = Some (r, c') \<Longrightarrow> same_devs c c'"
  by (auto simp: dev_camera_def split: option.splits intro: on_camera_same)

lemma ignore_results_same: "ignore_results fs p c = Some c' \<Longrightarrow> same_devs c c'"
proof (induction fs arbitrary: c)
  case (Cons f fs)
  then obtain r c1 where "dev_camera f p c = Some (r, c1)" "ignore_results fs p c1 = Some c'"
    by (auto simp: bind_eq_Some_conv)
  then show ?case using dev_camera_same Cons.IH same_devs_trans by blast
qed simp

lemma set_user_devs:
  "devs_of (freenect_set_user p u c) = devs_of c"
  "users_of (freenect_set_user p u c) = map (\<lambda>(q, v). (q, if q = p then u else v)) (users_of c)"
  "core_inv (freenect_set_user p u c) = core_inv c"
proof -
  show "devs_of (freenect_set_user p u c) = devs_of c" unfolding freenect_set_user_def by (rule upd_dev_shape) simp
  then show "core_inv (freenect_set_user p u c) = core_inv c"
    by (simp add: core_inv_def freenect_set_user_def upd_dev_def)
qed (auto simp: freenect_set_user_def upd_dev_def users_of_def)

lemma put_camera_users: "users_of (put_camera p cam c) = users_of c"
  by (auto simp: put_camera_def upd_dev_def users_of_def)

lemma open_users:
  assumes "core_inv c" and "freenect_open_device ops env alloc index c = Some (res, p, c')"
  shows "core_inv c' \<and> users_of c' = users_of c @ (case p of None \<Rightarrow> [] | Some q \<Rightarrow> [(q, 0)])
     \<and> (\<forall>q. p = Some q \<longrightarrow> q \<notin> fst ` set (users_of c)) \<and> (0 \<le> res \<longrightarrow> p \<noteq> None)"
proof -
  have users: "users_of c' = users_of c @ (case p of None \<Rightarrow> [] | Some q \<Rightarrow> [(q, 0)]) \<and> (0 \<le> res \<longrightarrow> p \<noteq> None)"
  proof (cases alloc)
    case True
    obtain r w where run: "run_state (fnusb_open_subdevices ops index) ((cx_world c)\<lparr>uw_dev := zero_subdevices\<rparr>) = (r, w)"
      by fastforce
    define n where "n = cx_next_dev c"
    define c2 where "c2 = c\<lparr>cx_world := w, cx_devs := cx_devs c @ [zero_kinect n (uw_dev w) (c\<lparr>cx_world := w\<rparr>)], cx_next_dev := n + 1\<rparr>"
    have c2: "users_of c2 = users_of c @ [(n, 0)]" by (simp add: c2_def users_of_def zero_kinect_def)
    consider "r < 0" | "\<not> r < 0" "sd_cam (uw_dev w) = None" | x where "\<not> r < 0" "sd_cam (uw_dev w) = Some x" by blast
    then show ?thesis
    proof cases
      case 1
      then have "c' = c\<lparr>cx_world := w\<rparr>" "p = None" "res = r" using assms(2) \<open>alloc\<close> run by (simp_all add: freenect_open_device_def)
      then show ?thesis using 1 by (simp add: users_of_def)
    next
      case 2
      then have "c' = c2" "p = Some n" "res = 0"
        using assms(2) \<open>alloc\<close> run by (simp_all add: freenect_open_device_def c2_def n_def zero_kinect_def Let_def)
      then show ?thesis by (simp add: c2)
    next
      case 3
      then obtain cam where "c' = put_camera n cam c2" "p = Some n"
        using assms(2) \<open>alloc\<close> run
        by (auto simp: freenect_open_device_def c2_def n_def zero_kinect_def Let_def split: option.splits)
      then show ?thesis by (simp add: c2 put_camera_users)
    qed
  qed (use assms in \<open>simp add: freenect_open_device_def\<close>)
  have "q \<notin> fst ` set (users_of c)" if "p = Some q" for q
  proof -
    have "q \<notin> fst ` set (devs_of c)" using open_device_effect [OF assms] unfolding that option.case by blast
    then show ?thesis using fst_users [of c] by (metis list.set_map)
  qed
  then show ?thesis using users open_device_effect [OF assms] by blast
qed

lemma close_users:
  assumes "core_inv c" and "freenect_close_device ops env p c = Some (res, c')"
  shows "core_inv c' \<and> users_of c' = filter (\<lambda>x. fst x \<noteq> p) (users_of c)"
proof -
  obtain d where d: "find_dev p (cx_devs c) = Some d"
    using assms(2) by (auto simp: freenect_close_device_def split: option.splits)
  obtain r c1 where t: "(if sd_cam (kd_sub d) \<noteq> None then on_camera (freenect_camera_teardown env) d c else Some (0, c)) = Some (r, c1)"
    using assms(2) d by (auto simp: freenect_close_device_def split: option.splits if_splits)
  then have c1: "users_of c1 = users_of c"
    using on_camera_same unfolding same_devs_def by (metis option.inject prod.inject)
  obtain k w where run: "run_state (fnusb_close_subdevices ops) ((cx_world c1)\<lparr>uw_dev := kd_sub d\<rparr>) = (k, w)" by fastforce
  have e: "res = 0" "core_inv c'" using close_device_effect [OF assms d] by blast+
  have "\<not> k < 0"
  proof
    assume "k < 0"
    then have "res = k" using assms(2) t run d by (simp add: freenect_close_device_def)
    then show False using e \<open>k < 0\<close> by simp
  qed
  then have "cx_devs c' = filter (\<lambda>x. kd_ptr x \<noteq> p) (cx_devs c1)"
    using assms(2) t run d by (auto simp: freenect_close_device_def)
  then have "users_of c' = filter (\<lambda>x. fst x \<noteq> p) (users_of c1)" by (simp add: users_of_def filter_map comp_def)
  then show ?thesis using e c1 by simp
qed

section \<open>The invariant\<close>

definition app_inv :: "'u app \<Rightarrow> bool" where
  "app_inv a \<longleftrightarrow> core_inv (ap_ctx a) \<and> sorted (map fst (ap_devices a)) \<and> distinct (map fst (ap_devices a))
     \<and> distinct (map snd (ap_devices a)) \<and> (\<forall>e \<in> set (ap_devices a). ap_objs a (snd e) \<noteq> None)
     \<and> (\<forall>ob x. ap_objs a ob = Some x \<longrightarrow> ob < ap_next a \<and> (ob_dev x, ob) \<in> set (users_of (ap_ctx a)))"

lemma app_inv_ctx: "app_inv a \<Longrightarrow> same_devs (ap_ctx a) c \<Longrightarrow> app_inv (a\<lparr>ap_ctx := c\<rparr>)"
  by (simp add: app_inv_def same_devs_def)

lemma user_unique:
  fixes c :: "'a freenect_context"
  assumes "core_inv c" and "(p, u) \<in> set (users_of c)"
  shows "freenect_get_user p c = Some u" and "(p, v) \<in> set (users_of c) \<Longrightarrow> v = u"
proof -
  have d: "distinct (map fst (users_of c))" using assms(1) by (simp add: fst_users core_inv_def reg_ok_def)
  have "map_of (map (\<lambda>d. (kd_ptr d, kd_user d)) ds) p = map_option kd_user (find (\<lambda>d. kd_ptr d = p) ds)" for ds :: "'a kinect list"
    by (induction ds) auto
  then have "map_of (users_of c) p = freenect_get_user p c"
    by (simp add: freenect_get_user_def find_dev_def users_of_def)
  then show "freenect_get_user p c = Some u" using d assms(2) by (metis map_of_is_SomeI)
  show "(p, v) \<in> set (users_of c) \<Longrightarrow> v = u" using d assms(2) by (metis map_of_is_SomeI option.inject)
qed

lemma delete_object_inv:
  assumes "app_inv a" and "delete_object ops env ob a = Some a'"
  shows "app_inv (a'\<lparr>ap_devices := filter (\<lambda>e. snd e \<noteq> ob) (ap_devices a)\<rparr>)"
    and "ap_devices a' = ap_devices a" "ap_objs a' = (ap_objs a)(ob := None)" "ap_next a' = ap_next a" "core_inv (ap_ctx a')"
proof -
  obtain x r c where x: "ap_objs a ob = Some x" and cl: "freenect_close_device ops env (ob_dev x) (ap_ctx a) = Some (r, c)"
    and a': "a' = a\<lparr>ap_ctx := c, ap_objs := (ap_objs a)(ob := None)\<rparr>"
    using assms(2) by (auto simp: delete_object_def split: option.splits)
  have inv: "core_inv (ap_ctx a)" using assms(1) by (simp add: app_inv_def)
  note u = close_users [OF inv cl]
  show "ap_devices a' = ap_devices a" "ap_objs a' = (ap_objs a)(ob := None)" "ap_next a' = ap_next a" "core_inv (ap_ctx a')"
    using u by (simp_all add: a')
  have "ob_dev y \<noteq> ob_dev x" if "ap_objs a ob' = Some y" "ob' \<noteq> ob" for ob' y
  proof
    assume e: "ob_dev y = ob_dev x"
    have "(ob_dev x, ob') \<in> set (users_of (ap_ctx a))" "(ob_dev x, ob) \<in> set (users_of (ap_ctx a))"
      using assms(1) that(1) x e unfolding app_inv_def by metis+
    then show False using user_unique(2) [OF inv] that(2) by blast
  qed
  then show "app_inv (a'\<lparr>ap_devices := filter (\<lambda>e. snd e \<noteq> ob) (ap_devices a)\<rparr>)"
    using assms(1) u by (simp add: app_inv_def a' distinct_map_filter sorted_filter)
qed


lemma new_object_effect:
  assumes "core_inv c" and "FreenectDevice_new ops env alloc ob index c = Some (r, c')"
  shows "core_inv c' \<and> (case r of Inl e \<Rightarrow> set (users_of c) \<subseteq> set (users_of c')
     | Inr x \<Rightarrow> ob_dev x \<notin> fst ` set (users_of c) \<and> users_of c' = users_of c @ [(ob_dev x, ob)]
         \<and> ob_video_format x = VIDEO_DUMMY \<and> ob_depth_format x = DEPTH_DUMMY)"
proof -
  obtain res p c1 where op: "freenect_open_device ops env alloc index c = Some (res, p, c1)"
    using assms(2) by (auto simp: FreenectDevice_new_def split: option.splits)
  note u = open_users [OF assms(1) op]
  show ?thesis
  proof (cases "res < 0")
    case True
    then have "r = Inl Cannot_Open_Device" "c' = c1" using assms(2) op by (simp_all add: FreenectDevice_new_def)
    then show ?thesis using u by simp
  next
    case False
    then obtain q where q: "p = Some q" using u by auto
    define c2 where "c2 = freenect_set_user q ob c1"
    have r: "r = Inr \<lparr>ob_dev = q, ob_video_format = VIDEO_DUMMY, ob_depth_format = DEPTH_DUMMY\<rparr>"
      and ig: "ignore_results [set_video env VIDEO_RGB, set_depth env DEPTH_MM,
                 freenect_set_depth_callback True, freenect_set_video_callback True] q c2 = Some c'"
      using assms(2) op False q by (auto simp: FreenectDevice_new_def c2_def simp del: ignore_results.simps)
    have n: "q \<notin> fst ` set (users_of c)" and u1: "users_of c1 = users_of c @ [(q, 0)]" "core_inv c1" using u q by simp_all
    have "map (\<lambda>(p', v). (p', if p' = q then ob else v)) (users_of c) = users_of c"
      using n by (intro map_idI) force
    then have "users_of c2 = users_of c @ [(q, ob)]" "core_inv c2"
      using u1 by (simp_all add: c2_def set_user_devs)
    then show ?thesis using ignore_results_same [OF ig] n by (simp add: same_devs_def r)
  qed
qed

lemma map_insert_present: "sorted (map fst es) \<Longrightarrow> distinct (map fst es) \<Longrightarrow> k \<in> fst ` set es \<Longrightarrow> map_insert k v es = es"
  by (induction es) (auto simp: less_le)

lemma map_insert_new:
  assumes "k \<notin> fst ` set es"
  shows "set (map_insert k v es) = insert (k, v) (set es)"
    and "sorted (map fst es) \<Longrightarrow> sorted (map fst (map_insert k v es))"
    and "distinct (map fst es) \<Longrightarrow> distinct (map fst (map_insert k v es))"
    and "v \<notin> snd ` set es \<Longrightarrow> distinct (map snd es) \<Longrightarrow> distinct (map snd (map_insert k v es))"
proof -
  have st: "set (map_insert k v fs) = insert (k, v) (set fs)" if "k \<notin> fst ` set fs" for fs
    using that by (induction fs) auto
  then show "set (map_insert k v es) = insert (k, v) (set es)" using assms .
  show "sorted (map fst es) \<Longrightarrow> sorted (map fst (map_insert k v es))"
    using assms by (induction es) (auto simp: st)
  show "distinct (map fst es) \<Longrightarrow> distinct (map fst (map_insert k v es))"
    using assms by (induction es) (auto simp: st)
  show "v \<notin> snd ` set es \<Longrightarrow> distinct (map snd es) \<Longrightarrow> distinct (map snd (map_insert k v es))"
    using assms by (induction es) (auto simp: st)
qed

lemma create_fresh_inv:
  assumes "app_inv a" and "map_of (ap_devices a) index = None" and "createDevice ops env alloc index a = Some (r, a')"
  shows "app_inv a'"
proof -
  obtain r' c where new: "FreenectDevice_new ops env alloc (ap_next a) index (ap_ctx a) = Some (r', c)"
    using assms(2,3) by (auto simp: createDevice_def Let_def split: option.splits)
  have inv: "core_inv (ap_ctx a)" using assms(1) by (simp add: app_inv_def)
  note e = new_object_effect [OF inv new]
  show ?thesis
  proof (cases r')
    case (Inl err)
    then have "a' = a\<lparr>ap_ctx := c\<rparr>" using assms(2,3) new by (simp add: createDevice_def)
    then show ?thesis using assms(1) e Inl by (auto simp: app_inv_def)
  next
    case (Inr x)
    then have a': "a' = a\<lparr>ap_ctx := c, ap_objs := (ap_objs a)(ap_next a \<mapsto> x), ap_next := ap_next a + 1,
        ap_devices := map_insert index (ap_next a) (ap_devices a)\<rparr>"
      using assms(2,3) new by (simp add: createDevice_def Let_def)
    have i: "index \<notin> fst ` set (ap_devices a)" using assms(2) by (simp add: map_of_eq_None_iff)
    have v: "ap_next a \<notin> snd ` set (ap_devices a)"
    proof
      assume "ap_next a \<in> snd ` set (ap_devices a)"
      then obtain x where "ap_objs a (ap_next a) = Some x" using assms(1) by (force simp: app_inv_def)
      then show False using assms(1) unfolding app_inv_def by (metis less_irrefl)
    qed
    note mi = map_insert_new [OF i]
    show ?thesis using assms(1) e Inr mi(2-4) v
      by (auto simp: app_inv_def a' mi(1) less_Suc_eq)
  qed
qed

lemma delete_device_inv:
  assumes "app_inv a" and "deleteDevice ops env index a = Some a'"
  shows "app_inv a'"
proof (cases "map_of (ap_devices a) index")
  case (Some ob)
  then obtain a1 where d: "delete_object ops env ob a = Some a1"
    and a': "a' = a1\<lparr>ap_devices := filter (\<lambda>e. fst e \<noteq> index) (ap_devices a1)\<rparr>"
    using assms(2) by (auto simp: deleteDevice_def)
  note e = delete_object_inv [OF assms(1) d]
  have "fst e \<noteq> index \<longleftrightarrow> snd e \<noteq> ob" if "e \<in> set (ap_devices a)" for e
    using assms(1) Some that map_of_SomeD [OF Some] by (metis app_inv_def eq_key_imp_eq_value inj_on_def distinct_map prod.exhaust_sel prod.inject)
  then have "filter (\<lambda>e. fst e \<noteq> index) (ap_devices a) = filter (\<lambda>e. snd e \<noteq> ob) (ap_devices a)"
    by (rule filter_cong [OF refl])
  then show ?thesis using e by (simp add: a')
qed (use assms in \<open>simp add: deleteDevice_def\<close>)


section \<open>Reachable driver objects\<close>

text \<open>The operations of the application on a driver object, none of which creates a device again, and
  the events, which only change the state of the streams.\<close>

inductive app_reach ::
  "('u, 'x) usb_host_scheme \<Rightarrow> ('u, 'y) cam_env_scheme \<Rightarrow> 'u app \<Rightarrow> bool" for ops env where
  New: "Freenect_new alloc init u h = Inr a \<Longrightarrow> app_reach ops env a"
| Create: "app_reach ops env a \<Longrightarrow> map_of (ap_devices a) index = None \<Longrightarrow>
     createDevice ops env alloc index a = Some (r, a') \<Longrightarrow> app_reach ops env a'"
| Delete: "app_reach ops env a \<Longrightarrow> deleteDevice ops env index a = Some a' \<Longrightarrow> app_reach ops env a'"
| Video_Format: "app_reach ops env a \<Longrightarrow> setVideoFormat env vfmt ob a = Some (e, a') \<Longrightarrow> app_reach ops env a'"
| Depth_Format: "app_reach ops env a \<Longrightarrow> setDepthFormat env dfmt ob a = Some (e, a') \<Longrightarrow> app_reach ops env a'"
| Stream: "app_reach ops env a \<Longrightarrow> checked f err ob a = Some (e, a') \<Longrightarrow> app_reach ops env a'"
| Events: "app_reach ops env a \<Longrightarrow> same_devs (ap_ctx a) c \<Longrightarrow> app_reach ops env (a\<lparr>ap_ctx := c\<rparr>)"
| Started: "app_reach ops env a \<Longrightarrow> app_reach ops env (snd (start created a))"

lemma app_inv_obj:
  assumes "app_inv a" "ap_objs a ob = Some x" "ob_dev y = ob_dev x" "same_devs (ap_ctx a) c"
  shows "app_inv (a\<lparr>ap_ctx := c, ap_objs := (ap_objs a)(ob \<mapsto> y)\<rparr>)"
  using assms by (auto simp: app_inv_def same_devs_def)

lemma setVideoFormatE:
  assumes "setVideoFormat env fmt ob a = Some (e, a')"
  obtains (Same) x where "ap_objs a ob = Some x" "fmt = ob_video_format x" "e = Inr ()" "a' = a"
  | (Refused) x r1 c1 r c2 where "ap_objs a ob = Some x" "fmt \<noteq> ob_video_format x"
      "dev_camera (freenect_stop_video env) (ob_dev x) (ap_ctx a) = Some (r1, c1)"
      "dev_camera (set_video env fmt) (ob_dev x) c1 = Some (r, c2)" "r < 0"
      "e = Inl Cannot_Set_Video_Format" "a' = a\<lparr>ap_ctx := c2\<rparr>"
  | (Changed) x r1 c1 r c2 r3 c3 where "ap_objs a ob = Some x" "fmt \<noteq> ob_video_format x"
      "dev_camera (freenect_stop_video env) (ob_dev x) (ap_ctx a) = Some (r1, c1)"
      "dev_camera (set_video env fmt) (ob_dev x) c1 = Some (r, c2)" "\<not> r < 0"
      "dev_camera (freenect_start_video env) (ob_dev x) c2 = Some (r3, c3)"
      "e = Inr ()" "a' = a\<lparr>ap_ctx := c3, ap_objs := (ap_objs a)(ob \<mapsto> x\<lparr>ob_video_format := fmt\<rparr>)\<rparr>"
proof -
  obtain x where x: "ap_objs a ob = Some x" using assms by (auto simp: setVideoFormat_def split: option.splits)
  show thesis
  proof (cases "fmt = ob_video_format x")
    case True
    then show thesis using assms x Same [OF x True] by (simp add: setVideoFormat_def)
  next
    case False
    have "dev_camera (freenect_stop_video env) (ob_dev x) (ap_ctx a) \<noteq> None"
      using assms x False by (intro notI) (simp add: setVideoFormat_def)
    then obtain r1 c1 where s: "dev_camera (freenect_stop_video env) (ob_dev x) (ap_ctx a) = Some (r1, c1)" by fast
    have "dev_camera (set_video env fmt) (ob_dev x) c1 \<noteq> None"
      using assms x False s by (intro notI) (simp add: setVideoFormat_def)
    then obtain r c2 where m: "dev_camera (set_video env fmt) (ob_dev x) c1 = Some (r, c2)" by fast
    show thesis
    proof (cases "r < 0")
      case True
      then show thesis using assms x False s m Refused [OF x False s m True] by (simp add: setVideoFormat_def)
    next
      case r: False
      have "dev_camera (freenect_start_video env) (ob_dev x) c2 \<noteq> None"
        using assms x False s m r by (intro notI) (simp add: setVideoFormat_def)
      then obtain r3 c3 where st: "dev_camera (freenect_start_video env) (ob_dev x) c2 = Some (r3, c3)" by fast
      show thesis using assms x False s m r st Changed [OF x False s m r st] by (simp add: setVideoFormat_def)
    qed
  qed
qed

lemma setDepthFormatE:
  assumes "setDepthFormat env fmt ob a = Some (e, a')"
  obtains (Same) x where "ap_objs a ob = Some x" "fmt = ob_depth_format x" "e = Inr ()" "a' = a"
  | (Refused) x r1 c1 r c2 where "ap_objs a ob = Some x" "fmt \<noteq> ob_depth_format x"
      "dev_camera (freenect_stop_depth env) (ob_dev x) (ap_ctx a) = Some (r1, c1)"
      "dev_camera (set_depth env fmt) (ob_dev x) c1 = Some (r, c2)" "r < 0"
      "e = Inl Cannot_Set_Depth_Format" "a' = a\<lparr>ap_ctx := c2\<rparr>"
  | (Changed) x r1 c1 r c2 r3 c3 where "ap_objs a ob = Some x" "fmt \<noteq> ob_depth_format x"
      "dev_camera (freenect_stop_depth env) (ob_dev x) (ap_ctx a) = Some (r1, c1)"
      "dev_camera (set_depth env fmt) (ob_dev x) c1 = Some (r, c2)" "\<not> r < 0"
      "dev_camera (freenect_start_depth env) (ob_dev x) c2 = Some (r3, c3)"
      "e = Inr ()" "a' = a\<lparr>ap_ctx := c3, ap_objs := (ap_objs a)(ob \<mapsto> x\<lparr>ob_depth_format := fmt\<rparr>)\<rparr>"
proof -
  obtain x where x: "ap_objs a ob = Some x" using assms by (auto simp: setDepthFormat_def split: option.splits)
  show thesis
  proof (cases "fmt = ob_depth_format x")
    case True
    then show thesis using assms x Same [OF x True] by (simp add: setDepthFormat_def)
  next
    case False
    have "dev_camera (freenect_stop_depth env) (ob_dev x) (ap_ctx a) \<noteq> None"
      using assms x False by (intro notI) (simp add: setDepthFormat_def)
    then obtain r1 c1 where s: "dev_camera (freenect_stop_depth env) (ob_dev x) (ap_ctx a) = Some (r1, c1)" by fast
    have "dev_camera (set_depth env fmt) (ob_dev x) c1 \<noteq> None"
      using assms x False s by (intro notI) (simp add: setDepthFormat_def)
    then obtain r c2 where m: "dev_camera (set_depth env fmt) (ob_dev x) c1 = Some (r, c2)" by fast
    show thesis
    proof (cases "r < 0")
      case True
      then show thesis using assms x False s m Refused [OF x False s m True] by (simp add: setDepthFormat_def)
    next
      case r: False
      have "dev_camera (freenect_start_depth env) (ob_dev x) c2 \<noteq> None"
        using assms x False s m r by (intro notI) (simp add: setDepthFormat_def)
      then obtain r3 c3 where st: "dev_camera (freenect_start_depth env) (ob_dev x) c2 = Some (r3, c3)" by fast
      show thesis using assms x False s m r st Changed [OF x False s m r st] by (simp add: setDepthFormat_def)
    qed
  qed
qed

lemma format_change_inv:
  assumes "app_inv a"
  shows "setVideoFormat env vfmt ob a = Some (e, a') \<Longrightarrow> app_inv a'"
    and "setDepthFormat env dfmt ob a = Some (e, a') \<Longrightarrow> app_inv a'"
proof -
  assume "setVideoFormat env vfmt ob a = Some (e, a')"
  then show "app_inv a'"
  proof (cases rule: setVideoFormatE)
    case (Refused x r1 c1 r c2)
    then have "same_devs (ap_ctx a) c2" using dev_camera_same same_devs_trans by blast
    then show ?thesis using assms Refused app_inv_ctx by blast
  next
    case (Changed x r1 c1 r c2 r3 c3)
    then have "same_devs (ap_ctx a) c3" using dev_camera_same same_devs_trans by blast
    then show ?thesis unfolding Changed using assms Changed(1) by (intro app_inv_obj) simp_all
  qed (use assms in simp)
next
  assume "setDepthFormat env dfmt ob a = Some (e, a')"
  then show "app_inv a'"
  proof (cases rule: setDepthFormatE)
    case (Refused x r1 c1 r c2)
    then have "same_devs (ap_ctx a) c2" using dev_camera_same same_devs_trans by blast
    then show ?thesis using assms Refused app_inv_ctx by blast
  next
    case (Changed x r1 c1 r c2 r3 c3)
    then have "same_devs (ap_ctx a) c3" using dev_camera_same same_devs_trans by blast
    then show ?thesis unfolding Changed using assms Changed(1) by (intro app_inv_obj) simp_all
  qed (use assms in simp)
qed

lemma new_app_inv: "Freenect_new alloc init u h = Inr a \<Longrightarrow> app_inv a"
proof -
  assume "Freenect_new alloc init u h = Inr a"
  then obtain fc where "ap_ctx a = freenect_select_subdevices FREENECT_DEVICE_CAMERA (freenect_set_log_level 5 (fresh_context fc u h))"
    "ap_devices a = []" "ap_objs a = (\<lambda>_. None)"
    by (auto simp: Freenect_new_def freenect_init_def Let_def split: prod.splits if_splits)
  then show ?thesis
    by (simp add: app_inv_def core_inv_def freenect_select_subdevices_def freenect_set_log_level_def fresh_context_def
        devs_of_def reg_ok_def world_ok_def)
qed

lemma reach_app_inv: "app_reach ops env a \<Longrightarrow> app_inv a"
proof (induction rule: app_reach.induct)
  case (Stream a f err ob e a')
  obtain x where x: "ap_objs a ob = Some x" using Stream(2) by (auto simp: checked_def split: option.splits)
  then obtain rc where rc: "dev_camera f (ob_dev x) (ap_ctx a) = Some rc" "a' = a\<lparr>ap_ctx := snd rc\<rparr>"
    using Stream(2) by (auto simp: checked_def)
  then have "same_devs (ap_ctx a) (snd rc)" using dev_camera_same [of f _ _ "fst rc" "snd rc"] by simp
  then show ?case unfolding rc(2) by (rule app_inv_ctx [OF Stream.IH])
next
  case (Started a created)
  then show ?case by (simp add: start_def app_inv_def)
qed (erule new_app_inv | erule (2) create_fresh_inv | erule (1) delete_device_inv format_change_inv app_inv_ctx)+

text \<open>C13: As long as no device is created twice, in every reachable driver object every entry of the device map
  is a live object, no two entries share one, every live object has its own open device in the context, and
  the static callbacks of the library, which read the user pointer, reach exactly that object.\<close>

theorem callbacks_reach_their_object:
  assumes "app_reach ops env a"
  shows "core_inv (ap_ctx a) \<and> distinct (map snd (ap_devices a))
     \<and> (\<forall>(i, ob) \<in> set (ap_devices a). ap_objs a ob \<noteq> None)
     \<and> (\<forall>ob x. ap_objs a ob = Some x \<longrightarrow> callback_object (ob_dev x) a = Some x)"
proof -
  have inv: "app_inv a" by (rule reach_app_inv [OF assms])
  have "callback_object (ob_dev x) a = Some x" if "ap_objs a ob = Some x" for ob x
  proof -
    have "(ob_dev x, ob) \<in> set (users_of (ap_ctx a))" "core_inv (ap_ctx a)" using inv that by (simp_all add: app_inv_def)
    then have "freenect_get_user (ob_dev x) (ap_ctx a) = Some ob" using user_unique(1) by blast
    then show ?thesis using that by (simp add: callback_object_def)
  qed
  then show ?thesis using inv by (auto simp: app_inv_def)
qed

section \<open>Creating a device again\<close>

text \<open>Creating a device whose index is in the map deletes the old object and returns a new one, but the map
  keeps the pointer to the deleted object (\<open>insert\<close> does not replace): the new object is in no
  entry, and deleting the device by its index deletes the old object a second time.\<close>

lemma create_again_leaves_dangling_entry:
  assumes inv: "app_inv a" and "map_of (ap_devices a) index = Some ob"
    and "createDevice ops env alloc index a = Some (Inr ob', a')"
  shows "map_of (ap_devices a') index = Some ob \<and> ap_objs a' ob = None \<and> ap_objs a' ob' \<noteq> None
     \<and> ob' \<notin> snd ` set (ap_devices a') \<and> deleteDevice ops env index a' = None"
proof -
  obtain a1 where d: "delete_object ops env ob a = Some a1"
    using assms(2,3) by (auto simp: createDevice_def bind_eq_Some_conv)
  note e = delete_object_inv [OF inv d]
  obtain x c where "FreenectDevice_new ops env alloc (ap_next a1) index (ap_ctx a1) = Some (Inr x, c)" and o: "ob' = ap_next a1"
    and a': "a' = a1\<lparr>ap_ctx := c, ap_objs := (ap_objs a1)(ob' \<mapsto> x), ap_next := ob' + 1,
        ap_devices := map_insert index ob' (ap_devices a1)\<rparr>"
    using assms(2,3) d by (auto simp: createDevice_def Let_def split: option.splits sum.splits)
  have live: "ob'' < ap_next a" if "ob'' \<in> snd ` set (ap_devices a)" for ob''
    using inv that unfolding app_inv_def by force
  have "(index, ob) \<in> set (ap_devices a)" using map_of_SomeD [OF assms(2)] .
  then have m: "ap_devices a' = ap_devices a" and n: "ob \<noteq> ob'"
    using inv map_insert_present [of "ap_devices a" index ob'] live [of ob] by (force simp: app_inv_def a' e o)+
  have "ap_objs a' ob = None" using n by (simp add: a' e)
  then show ?thesis
    using m assms(2) live by (auto simp: a' o e deleteDevice_def delete_object_def)
qed


section \<open>Changes of format\<close>

lemma find_upd: "find (\<lambda>d. kd_ptr d = p) (map (\<lambda>d. if kd_ptr d = p then f d else d) ds)
    = map_option f (find (\<lambda>d. kd_ptr d = p) ds)" if "\<And>d. kd_ptr (f d) = kd_ptr d"
  using that by (induction ds) auto

text \<open>The device after a camera operation: its camera is the one the operation leaves.\<close>

lemma dev_cameraE:
  assumes "dev_camera f p c = Some (r, c')"
  obtains d cam h where "find_dev p (cx_devs c) = Some d" "f (camera_of c d, cx_heap c) = Some (r, (cam, h))"
    "find_dev p (cx_devs c') = Some (d\<lparr>kd_cam := cam\<rparr>)"
proof -
  obtain d where d: "find_dev p (cx_devs c) = Some d" and on: "on_camera f d c = Some (r, c')"
    using assms by (auto simp: dev_camera_def split: option.splits)
  obtain cam h where cam: "f (camera_of c d, cx_heap c) = Some (r, (cam, h))" "c' = (put_camera (kd_ptr d) cam c)\<lparr>cx_heap := h\<rparr>"
    using on by (auto simp: on_camera_def split: option.splits)
  have "kd_ptr d = p" using find_dev_Some [OF d] by simp
  then have "cx_devs c' = map (\<lambda>e. if kd_ptr e = p then e\<lparr>kd_cam := cam\<rparr> else e) (cx_devs c)"
    by (simp add: cam(2) put_camera_def upd_dev_def)
  then have "find_dev p (cx_devs c') = Some (d\<lparr>kd_cam := cam\<rparr>)" using d by (simp add: find_dev_def find_upd)
  then show thesis using d cam(1) that by blast
qed

lemma camera_of_fields:
  "fd_video (camera_of c d) = fd_video (kd_cam d)" "fd_video_format (camera_of c d) = fd_video_format (kd_cam d)"
  "fd_video_resolution (camera_of c d) = fd_video_resolution (kd_cam d)"
  by (simp_all add: camera_of_def)

lemma stop_video_stopped:
  assumes "freenect_stop_video env (dev, h) = Some (r, (dev', h'))"
  shows "\<not> ps_running (fd_video dev')"
proof (cases "ps_running (fd_video dev)")
  case True
  obtain dev1 where w: "write_registers env [(0x05, 0x00)] (dev\<lparr>fd_video := (fd_video dev)\<lparr>ps_running := False\<rparr>\<rparr>) = Some dev1"
    using assms True by (auto simp: freenect_stop_video_def split: option.splits)
  have f: "\<not> ps_running (fd_video dev1)" by (simp add: write_registers_fields [OF w])
  obtain res istrm where i: "fnusb_stop_iso no_client (env_completions env) (fd_video_isoc dev1) = Some (res, istrm)"
    using assms True w by (auto simp: freenect_stop_video_def split: option.splits)
  show ?thesis
  proof (cases "res < 0")
    case False
    obtain s h2 where "stream_freebufs h (fd_video dev1) = Some (s, h2)" and dev': "dev' = (dev1\<lparr>fd_video_isoc := istrm\<rparr>)\<lparr>fd_video := s\<rparr>"
      using assms True w i False by (auto simp: freenect_stop_video_def split: option.splits)
    then have "ps_running s = ps_running (fd_video dev1)" by (auto simp: stream_freebufs_def split: option.splits)
    then show ?thesis using f by (simp add: dev')
  qed (use assms True w i f in \<open>auto simp: freenect_stop_video_def simp del: write_registers.simps\<close>)
qed (use assms in \<open>simp add: freenect_stop_video_def\<close>)

lemma start_video_modes:
  assumes "freenect_start_video env (dev, h) = Some (r, (dev', h'))"
  shows "fd_video_format dev' = fd_video_format dev \<and> fd_video_resolution dev' = fd_video_resolution dev"
proof (cases "r = 0")
  case True
  obtain dev1 dev2 dev3 istrm rvs dev5 fl where
    "dev1 = dev\<lparr>fd_video := (fd_video dev)\<lparr>ps_pkt_size := VIDEO_PKTDSIZE, ps_flag := 0x80, ps_variable_length := False\<rparr>\<rparr>"
    and w1: "write_registers env fl dev1 = Some dev2" and s: "start_video_stream env (dev2, h) = (dev3, h')"
    and w2: "write_registers env rvs (dev3\<lparr>fd_video_isoc := istrm\<rparr>) = Some dev5"
    and "dev' = dev5\<lparr>fd_video := (fd_video dev5)\<lparr>ps_running := True\<rparr>\<rparr>"
    using assms unfolding True by (rule freenect_start_video_cases) blast
  moreover have "fd_video_format dev3 = fd_video_format dev2 \<and> fd_video_resolution dev3 = fd_video_resolution dev2"
    using s by (cases "fd_video_format dev2") (auto simp: start_video_stream_def Let_def split: prod.splits)
  ultimately show ?thesis by (simp add: write_registers_fields [OF w1] write_registers_fields [OF w2])
next
  case False
  then show ?thesis
    using assms by (auto simp: freenect_start_video_def fnusb_start_iso_def Let_def split: if_splits option.splits prod.splits)
qed

lemma set_video_cases:
  assumes "set_video env fmt (dev, h) = Some (r, (dev', h'))" and "\<not> ps_running (fd_video dev)"
  shows "(r < 0 \<longrightarrow> dev' = dev) \<and>
    (m \<in> set supported_video_modes \<longrightarrow> fm_resolution m = RESOLUTION_MEDIUM \<longrightarrow> fm_format m = fmt \<longrightarrow>
       0 \<le> r \<and> freenect_get_current_video_mode env dev' = m)"
proof -
  let ?m = "freenect_find_video_mode (env_video_retval env) RESOLUTION_MEDIUM fmt"
  have s: "freenect_set_video_mode env ?m dev = Some (r, dev')" using assms(1) by (auto simp: set_video_def)
  have "dev' = dev" if "r < 0"
    using s assms(2) that by (auto simp: freenect_set_video_mode_def split: if_splits)
  moreover have "0 \<le> r \<and> freenect_get_current_video_mode env dev' = m"
    if m: "m \<in> set supported_video_modes" "fm_resolution m = RESOLUTION_MEDIUM" "fm_format m = fmt"
  proof -
    have "?m = m" using video.lookup_own [OF m(1)] m(2,3) by (simp add: find_video_lookup)
    then have "freenect_set_video_mode env m dev = Some (r, dev')" using s by simp
    from set_video_mode_then_get [OF m(1) this] show ?thesis using assms(2) by simp
  qed
  ultimately show ?thesis by blast
qed

lemma setVideoFormat_steps:
  assumes "dev_camera (freenect_stop_video env) p c = Some (r1, c1)" and "dev_camera (set_video env fmt) p c1 = Some (r, c2)"
  obtains d2 where "find_dev p (cx_devs c2) = Some d2" "r < 0 \<Longrightarrow> \<not> ps_running (fd_video (kd_cam d2))"
    "\<And>m. m \<in> set supported_video_modes \<Longrightarrow> fm_resolution m = RESOLUTION_MEDIUM \<Longrightarrow> fm_format m = fmt \<Longrightarrow>
       0 \<le> r \<and> freenect_get_current_video_mode env (kd_cam d2) = m"
proof -
  obtain d cam h where d: "freenect_stop_video env (camera_of c d, cx_heap c) = Some (r1, (cam, h))"
    "find_dev p (cx_devs c1) = Some (d\<lparr>kd_cam := cam\<rparr>)" using assms(1) by (rule dev_cameraE)
  have stopped: "\<not> ps_running (fd_video (camera_of c1 (d\<lparr>kd_cam := cam\<rparr>)))"
    using stop_video_stopped [OF d(1)] by (simp add: camera_of_fields)
  obtain d1 cam1 h1 where d1: "find_dev p (cx_devs c1) = Some d1" "set_video env fmt (camera_of c1 d1, cx_heap c1) = Some (r, (cam1, h1))"
    "find_dev p (cx_devs c2) = Some (d1\<lparr>kd_cam := cam1\<rparr>)" using assms(2) by (rule dev_cameraE)
  then have "d1 = d\<lparr>kd_cam := cam\<rparr>" using d(2) by simp
  note k = set_video_cases [OF d1(2), folded this, OF stopped [folded this]]
  show thesis
  proof (rule that [OF d1(3)])
    assume "r < 0"
    then show "\<not> ps_running (fd_video (kd_cam (d1\<lparr>kd_cam := cam1\<rparr>)))" using k stopped \<open>d1 = _\<close> by simp
  qed (use k in simp)
qed


text \<open>A format that was set is the format of the object and the mode of the driver.  When
  \<open>setVideoFormat\<close> returns for a format other than the current one that has a mode of medium resolution,
  \<open>getVideoFormat\<close> and \<open>freenect_get_current_video_mode\<close> of the device are that format and mode,
  whether or not the stream ran before and whether or not it could be started again.\<close>

lemma video_format_set_then_get:
  assumes "setVideoFormat env fmt ob a = Some (Inr (), a')" and "ap_objs a ob = Some x" and "fmt \<noteq> ob_video_format x"
    and "m \<in> set supported_video_modes" "fm_resolution m = RESOLUTION_MEDIUM" "fm_format m = fmt"
  shows "getVideoFormat ob a' = Some fmt \<and>
    (\<exists>d. find_dev (ob_dev x) (cx_devs (ap_ctx a')) = Some d \<and> freenect_get_current_video_mode env (kd_cam d) = m)"
  using assms(1)
proof (cases rule: setVideoFormatE)
  case (Changed y r1 c1 r c2 r3 c3)
  then have y: "y = x" using assms(2) by simp
  obtain d2 where d2: "find_dev (ob_dev x) (cx_devs c2) = Some d2" "freenect_get_current_video_mode env (kd_cam d2) = m"
    using setVideoFormat_steps [OF Changed(3,4)] assms(4-6) unfolding y by metis
  obtain d3 cam h where d3: "find_dev (ob_dev x) (cx_devs c2) = Some d3"
    "freenect_start_video env (camera_of c2 d3, cx_heap c2) = Some (r3, (cam, h))"
    "find_dev (ob_dev x) (cx_devs c3) = Some (d3\<lparr>kd_cam := cam\<rparr>)" using Changed(6) unfolding y by (rule dev_cameraE)
  have "freenect_get_current_video_mode env cam = m"
    using start_video_modes [OF d3(2)] d2 d3(1) by (simp add: freenect_get_current_video_mode_def camera_of_fields)
  then show ?thesis using d3(3) by (simp add: Changed getVideoFormat_def)
qed (use assms in auto)

text \<open>A format change that throws leaves the stream stopped, and the object does not know: its format is
  still the old one, so that setting the old format again does nothing and returns normally.\<close>

lemma refused_format_stops_stream:
  assumes "setVideoFormat env fmt ob a = Some (Inl e, a')" and "ap_objs a ob = Some x"
  shows "(\<exists>d. find_dev (ob_dev x) (cx_devs (ap_ctx a')) = Some d \<and> \<not> ps_running (fd_video (kd_cam d)))
    \<and> getVideoFormat ob a' = getVideoFormat ob a
    \<and> setVideoFormat env (ob_video_format x) ob a' = Some (Inr (), a')"
  using assms(1)
proof (cases rule: setVideoFormatE)
  case (Refused y r1 c1 r c2)
  then have y: "y = x" using assms(2) by simp
  obtain d2 where "find_dev (ob_dev x) (cx_devs c2) = Some d2" "\<not> ps_running (fd_video (kd_cam d2))"
    using setVideoFormat_steps [OF Refused(3,4)] Refused(5) unfolding y by metis
  then show ?thesis using assms(2) by (simp add: Refused getVideoFormat_def setVideoFormat_def)
qed (use assms in auto)

section \<open>The destructor\<close>

lemma closed_context_shutdown:
  "cx_devs c = [] \<Longrightarrow> freenect_shutdown ops env c = Some (0, c\<lparr>cx_usb := snd (fnusb_shutdown (cx_usb c))\<rparr>)"
  by (simp add: freenect_shutdown_def close_all.simps)

text \<open>Destroying the driver object while both streams of its device run, as the application does, releases
  the device record while libusb still has video transfers in flight that point into it.\<close>

lemma destructor_frees_streaming_device:
  assumes inv: "app_inv a" and "ap_devices a = [(i, ob)]" and "ap_objs a ob = Some x"
    and "cx_devs (ap_ctx a) = [d]" and "sd_cam (kd_sub d) \<noteq> None"
    and "ps_running (fd_depth (kd_cam d))" and "ps_running (fd_video (kd_cam d))"
    and "st_inflight (fd_video_isoc (kd_cam d)) \<noteq> {}" and "Freenect_delete ops env a = Some c"
  shows "cx_devs c = [] \<and> cx_freed_busy c"
proof -
  have "ob_dev x = kd_ptr d" using inv assms(3,4) unfolding app_inv_def users_of_def by fastforce
  then have f: "find_dev (ob_dev x) (cx_devs (ap_ctx a)) = Some d" by (simp add: assms(4) find_dev_def)
  obtain r c1 where cl: "freenect_close_device ops env (ob_dev x) (ap_ctx a) = Some (r, c1)"
    and sh: "map_option snd (freenect_shutdown ops env c1) = Some c"
    using assms(2,3,9) by (auto simp: Freenect_delete_def delete_object_def bind_eq_Some_conv split: if_splits)
  have busy: "cx_freed_busy c1" by (rule close_frees_streaming_device [OF f assms(5-8) cl])
  have "users_of c1 = []" using close_users [OF _ cl] inv \<open>ob_dev x = kd_ptr d\<close> by (simp add: app_inv_def users_of_def assms(4))
  then have "cx_devs c1 = []" by (simp add: users_of_def)
  then have "c = c1\<lparr>cx_usb := snd (fnusb_shutdown (cx_usb c1))\<rparr>"
    using closed_context_shutdown [OF \<open>cx_devs c1 = []\<close>, of ops env] sh by simp
  then show ?thesis using busy \<open>cx_devs c1 = []\<close> by simp
qed


section \<open>Concrete instances\<close>

text \<open>The simulated camera on a host with one Kinect.\<close>

definition camera_host :: "sim_cam usb_host" where
  "camera_host = sim_host\<lparr>host_devices := \<lambda>u. (Some kinect_1414, u)\<rparr>"

lemma sample_param_answers:
  assumes "n = (if k = 0x40 then 118 else if k = 0x41 then 8 else 4)" "k \<in> {0, 0x40, 0x41}"
  shows "\<exists>u'. answers sample_env 0x16 tag (param_cmd sample_env k dev) u (replicate n 0) u'"
proof -
  have "param_cmd sample_env k dev ! 0 = ucast k" "param_cmd sample_env k dev ! 1 = 0"
    using assms(2) by (auto simp: param_cmd_def bytes16_def Let_def nth_append)
  then have "le16 (param_cmd sample_env k dev ! 0) (param_cmd sample_env k dev ! 1) = k"
    using assms(2) by (auto simp: le16_def)
  then have "sim_serve 0x16 (param_cmd sample_env k dev) u = (replicate n 0, u)"
    using assms(1) by (simp add: sim_serve_sizes)
  from sample_answers [OF this] assms show ?thesis by fastforce
qed


lemma sample_camera_init:
  fixes dev :: "sim_cam freenect_device"
  assumes "fd_zero_plane_res dev = 322" "\<not> ps_running (fd_video dev)" "\<not> ps_running (fd_depth dev)"
  shows "\<exists>dev'. freenect_camera_init sample_env dev = Some (0, dev') \<and> fd_video dev' = fd_video dev"
proof -
  have serve: "sim_serve 0x16 (medium_cmd 0x40) c = (replicate 118 0, c)" "sim_serve 0x16 (medium_cmd 0) c = (replicate 4 0, c)"
    "sim_serve 0x04 (replicate 10 0) c = (replicate 322 0, c)" for c
    by (simp_all add: sim_serve_sizes medium_cmd_def bytes16_def le16_def)
  obtain u1 where a1: "answers sample_env 0x16 (cam_tag dev) (param_cmd sample_env 0x41 dev) (usb_state dev) (replicate 8 0) u1"
    using sample_param_answers [of 8 "0x41" "cam_tag dev" dev "usb_state dev"] by auto
  obtain u2 where a2: "answers sample_env 0x04 (cam_tag dev + 1) (replicate 10 0) u1 (replicate 322 0) u2"
    using sample_answers [OF serve(3)] by fastforce
  obtain u3 where a3: "answers sample_env 0x16 (cam_tag dev + 2) (medium_cmd 0x40) u2 (replicate 118 0) u3"
    using sample_answers [OF serve(1)] by (fastforce simp: medium_cmd_def)
  obtain u4 where a4: "answers sample_env 0x16 (cam_tag dev + 3) (medium_cmd 0) u3 (replicate 4 0) u4"
    using sample_answers [OF serve(2)] by (fastforce simp: medium_cmd_def)
  have z: "length (replicate 322 0 :: bytes) = fd_zero_plane_res dev" "110 \<le> length (replicate 322 0 :: bytes)"
    using assms(1) by simp_all
  show ?thesis using camera_init_answered [OF a1 _ a2 z a3 _ a4 _ assms(2,3)] by simp
qed

lemma sample_set_video: "\<exists>r. set_video sample_env fmt st = Some r"
proof -
  have f: "freenect_fetch_reg_info sample_env dev \<noteq> None" for dev :: "sim_cam freenect_device"
    using sample_param_answers [of 118 "0x40" "cam_tag dev" dev "usb_state dev"] fetch_reg_info_answered [of sample_env dev] by fastforce
  then have "\<forall>dev :: sim_cam freenect_device. \<exists>p. freenect_fetch_reg_info sample_env dev = Some p" by blast
  from choice [OF this] obtain g where "\<forall>dev :: sim_cam freenect_device. freenect_fetch_reg_info sample_env dev = Some (g dev)" ..
  then show ?thesis by (simp add: set_video_def freenect_set_video_mode_def Let_def)
qed

definition empty_app :: "sim_cam app" where
  "empty_app = (case Freenect_new True (0, 1) (usb_state sim_start) sample_heap of Inr a \<Rightarrow> a)"

lemma empty_app: "Freenect_new True (0, 1) (usb_state sim_start) sample_heap = Inr empty_app"
  by (simp add: empty_app_def Freenect_new_def freenect_init_def fnusb_init_def)

lemma dev_camera_ok:
  assumes "find_dev p (cx_devs c) = Some d" "\<And>st. \<exists>r. f st = Some r"
  obtains r c' d' where "dev_camera f p c = Some (r, c')" "find_dev p (cx_devs c') = Some d'"
proof -
  obtain r where "f (camera_of c d, cx_heap c) = Some r" using assms(2) by blast
  then obtain r' c' where "dev_camera f p c = Some (r', c')" using assms(1) by (cases r) (auto simp: dev_camera_def on_camera_def)
  then show thesis using that dev_cameraE by metis
qed

lemma ignore_results_ok:
  assumes "find_dev p (cx_devs c) = Some d" "\<forall>f \<in> set fs. \<forall>st. \<exists>r. f st = Some r"
  shows "\<exists>c'. ignore_results fs p c = Some c'"
  using assms
proof (induction fs arbitrary: c d)
  case (Cons f fs)
  obtain r c' d' where "dev_camera f p c = Some (r, c')" "find_dev p (cx_devs c') = Some d'"
    using dev_camera_ok [OF Cons.prems(1), of f] Cons.prems(2) by auto
  then show ?case using Cons.IH [of c' d'] Cons.prems(2) by auto
qed simp

lemma sample_create: "\<exists>a'. createDevice camera_host sample_env True 0 empty_app = Some (Inr 1, a') \<and> ap_objs a' 1 \<noteq> None"
proof -
  define c where "c = ap_ctx empty_app"
  have dev: "ap_devices empty_app = []" "ap_next empty_app = 1"
    by (simp_all add: empty_app_def Freenect_new_def freenect_init_def fnusb_init_def)
  obtain w where w: "run_state (fnusb_open_subdevices camera_host 0) ((cx_world c)\<lparr>uw_dev := zero_subdevices\<rparr>) = (0, w)"
    and cam: "sd_cam (uw_dev w) \<noteq> None" "uw_zero_plane_res w = 322"
    by (simp add: c_def empty_app_def Freenect_new_def freenect_init_def fnusb_init_def fresh_context_def
        freenect_select_subdevices_def freenect_set_log_level_def camera_host_def sim_host_def
        usb_opens usb_runs usb_ids kinect_1414_def plain_device_def zero_subdevices_def insert_commute Let_def)
  define c2 where "c2 = c\<lparr>cx_world := w, cx_devs := cx_devs c @ [zero_kinect (cx_next_dev c) (uw_dev w) (c\<lparr>cx_world := w\<rparr>)],
    cx_next_dev := cx_next_dev c + 1\<rparr>"
  obtain cam' where ci: "freenect_camera_init sample_env (camera_of c2 (zero_kinect (cx_next_dev c) (uw_dev w) (c\<lparr>cx_world := w\<rparr>))) = Some (0, cam')"
    using sample_camera_init [of "camera_of c2 (zero_kinect (cx_next_dev c) (uw_dev w) (c\<lparr>cx_world := w\<rparr>))"] cam(2)
    by (auto simp: camera_of_def c2_def zero_kinect_def zero_camera_def zero_stream_def)
  define c3 where "c3 = put_camera (cx_next_dev c) cam' c2"
  have op: "freenect_open_device camera_host sample_env True 0 c = Some (0, Some (cx_next_dev c), c3)"
    using w ci cam(1) unfolding freenect_open_device_def c3_def c2_def
    by (cases "sd_cam (uw_dev w)") (simp_all add: zero_kinect_def Let_def)
  define c4 where "c4 = freenect_set_user (cx_next_dev c) 1 c3"
  have "cx_next_dev c \<in> kd_ptr ` set (cx_devs c4)"
    by (force simp: c4_def c3_def c2_def freenect_set_user_def put_camera_def upd_dev_def zero_kinect_def)
  then obtain d where "find_dev (cx_next_dev c) (cx_devs c4) = Some d" using find_dev_None by blast
  moreover have "\<forall>f \<in> set [set_video sample_env VIDEO_RGB, set_depth sample_env DEPTH_MM,
      freenect_set_depth_callback True, freenect_set_video_callback True]. \<forall>st. \<exists>r. f st = Some r"
    using sample_set_video by (simp add: set_depth_def freenect_set_depth_callback_def freenect_set_video_callback_def split_beta)
  ultimately obtain c5 where "ignore_results [set_video sample_env VIDEO_RGB, set_depth sample_env DEPTH_MM,
      freenect_set_depth_callback True, freenect_set_video_callback True] (cx_next_dev c) c4 = Some c5"
    using ignore_results_ok by blast
  then show ?thesis
    using op by (simp add: createDevice_def dev FreenectDevice_new_def c_def [symmetric] c4_def Let_def del: ignore_results.simps)
qed

theorem callbacks_reach_their_object_witness:
  "\<exists>a x. app_reach camera_host sample_env a \<and> ap_objs a 1 = Some x \<and> callback_object (ob_dev x) a = Some x"
proof -
  obtain a x where a: "createDevice camera_host sample_env True 0 empty_app = Some (Inr 1, a)" and x: "ap_objs a 1 = Some x"
    using sample_create by blast
  have "ap_devices empty_app = []" by (simp add: empty_app_def Freenect_new_def freenect_init_def fnusb_init_def)
  then have r: "app_reach camera_host sample_env a"
    using app_reach.Create [OF app_reach.New [OF empty_app] _ a] by simp
  show ?thesis using callbacks_reach_their_object [OF r] r x by blast
qed


text \<open>The same driver object when both streams run.\<close>

definition streaming_app :: "sim_cam app" where
  "streaming_app = \<lparr>ap_ctx = streaming_context, ap_stop = False, ap_thread = True, ap_devices = [(0, 1)],
     ap_objs = [1 \<mapsto> \<lparr>ob_dev = 1, ob_video_format = VIDEO_RGB, ob_depth_format = DEPTH_MM\<rparr>], ap_next = 2\<rparr>"

lemma streaming_app_inv: "app_inv streaming_app"
  by (simp add: app_inv_def streaming_app_def core_inv_def streaming_context_def fresh_context_def devs_of_def users_of_def
      reg_ok_def world_ok_def streaming_kinect_def slots_of_def slot_handles_def zero_subdevices_def Let_def)

lemma destructor_frees_streaming_device_example:
  "\<exists>c. Freenect_delete sim_host sample_env streaming_app = Some c \<and> cx_freed_busy c"
proof -
  obtain c1 where c1: "freenect_close_device sim_host sample_env 1 streaming_context = Some (0, c1)"
    using close_streaming_context by blast
  have "users_of c1 = []"
    using close_users [OF _ c1] streaming_app_inv
    by (simp add: app_inv_def streaming_app_def users_of_def streaming_context_def streaming_kinect_def Let_def)
  then have "cx_devs c1 = []" by (simp add: users_of_def)
  then obtain c where "freenect_shutdown sim_host sample_env c1 = Some (0, c)" using closed_context_shutdown by blast
  then have c: "Freenect_delete sim_host sample_env streaming_app = Some c"
    using c1 by (simp add: Freenect_delete_def streaming_app_def delete_object_def)
  have "cx_devs (ap_ctx streaming_app) = [streaming_kinect]" "ap_devices streaming_app = [(0, 1)]"
    "ap_objs streaming_app 1 = Some \<lparr>ob_dev = 1, ob_video_format = VIDEO_RGB, ob_depth_format = DEPTH_MM\<rparr>"
    by (simp_all add: streaming_app_def streaming_context_def Let_def)
  moreover have "sd_cam (kd_sub streaming_kinect) \<noteq> None" "ps_running (fd_depth (kd_cam streaming_kinect))"
    "ps_running (fd_video (kd_cam streaming_kinect))" "st_inflight (fd_video_isoc (kd_cam streaming_kinect)) \<noteq> {}"
    by (simp_all add: streaming_kinect_def both_running_def)
  ultimately show ?thesis using destructor_frees_streaming_device [OF streaming_app_inv] c by blast
qed

text \<open>A driver object whose device does not stream, on hosts with and without the requested mode.\<close>

definition still_app :: "sim_cam app" where
  "still_app = streaming_app\<lparr>ap_ctx := streaming_context\<lparr>cx_devs := [streaming_kinect\<lparr>kd_cam := sample_dev\<rparr>]\<rparr>\<rparr>"

lemma still_device: "find_dev 1 (cx_devs (ap_ctx still_app)) = Some (streaming_kinect\<lparr>kd_cam := sample_dev\<rparr>)"
  by (simp add: still_app_def find_dev_def streaming_kinect_def)

lemma sample_start_total: "\<exists>r. freenect_start_video sample_env st = Some r"
proof -
  have "\<forall>rd. \<exists>d'. write_registers sample_env (fst rd) (snd rd :: sim_cam freenect_device) = Some d'" using sample_writes by blast
  from choice [OF this] obtain W where W: "write_registers sample_env rvs d = Some (W (rvs, d))" for rvs and d :: "sim_cam freenect_device"
    by auto
  show ?thesis by (simp add: freenect_start_video_def Let_def W split_beta split: option.split)
qed

lemma sample_stop_still: "\<not> ps_running (fd_video (fst st)) \<Longrightarrow> freenect_stop_video env st = Some (-1, st)"
  by (simp add: freenect_stop_video_def split_beta)

lemma video_format_set_then_get_example:
  "\<exists>a'. setVideoFormat sample_env VIDEO_BAYER 1 still_app = Some (Inr (), a') \<and> getVideoFormat 1 a' = Some VIDEO_BAYER"
proof -
  let ?x = "\<lparr>ob_dev = 1, ob_video_format = VIDEO_RGB, ob_depth_format = DEPTH_MM\<rparr>" and ?m = "supported_video_modes ! 3"
  have m: "?m \<in> set supported_video_modes" "fm_resolution ?m = RESOLUTION_MEDIUM" "fm_format ?m = VIDEO_BAYER"
    by (simp_all add: supported_video_modes_def frame_mode_row_def)
  have x: "ap_objs still_app 1 = Some ?x" by (simp add: still_app_def streaming_app_def)
  have "\<not> ps_running (fd_video (camera_of (ap_ctx still_app) (streaming_kinect\<lparr>kd_cam := sample_dev\<rparr>)))"
    by (simp add: camera_of_def sample_dev_def sample_stream_def)
  then obtain c1 where s: "dev_camera (freenect_stop_video sample_env) 1 (ap_ctx still_app) = Some (-1, c1)"
    using still_device by (simp add: dev_camera_def on_camera_def sample_stop_still)
  then obtain d1 where "find_dev 1 (cx_devs c1) = Some d1" by (rule dev_cameraE)
  then obtain r c2 d2 where v: "dev_camera (set_video sample_env VIDEO_BAYER) 1 c1 = Some (r, c2)" "find_dev 1 (cx_devs c2) = Some d2"
    by (rule dev_camera_ok [OF _ sample_set_video])
  have "0 \<le> r" by (rule setVideoFormat_steps [OF s v(1)]) (use m in blast)
  obtain r3 c3 where "dev_camera (freenect_start_video sample_env) 1 c2 = Some (r3, c3)"
    by (rule dev_camera_ok [OF v(2) sample_start_total])
  then have "\<exists>a'. setVideoFormat sample_env VIDEO_BAYER 1 still_app = Some (Inr (), a')"
    using x s v \<open>0 \<le> r\<close> by (simp add: setVideoFormat_def)
  then show ?thesis using video_format_set_then_get [OF _ x _ m] by auto
qed

lemma refused_format_stops_stream_example:
  "\<exists>(env :: sim_cam cam_env) a'. setVideoFormat env VIDEO_DUMMY 1 still_app = Some (Inl Cannot_Set_Video_Format, a') \<and>
     setVideoFormat env VIDEO_RGB 1 a' = Some (Inr (), a')"
proof -
  let ?x = "\<lparr>ob_dev = 1, ob_video_format = VIDEO_RGB, ob_depth_format = DEPTH_MM\<rparr>"
  let ?env = "sample_env\<lparr>env_video_retval := (supported_video_modes ! 4)\<lparr>fm_reserved := 0xffffffff\<rparr>\<rparr>"
  have x: "ap_objs still_app 1 = Some ?x" by (simp add: still_app_def streaming_app_def)
  have still: "\<not> ps_running (fd_video (camera_of (ap_ctx still_app) (streaming_kinect\<lparr>kd_cam := sample_dev\<rparr>)))"
    by (simp add: camera_of_def sample_dev_def sample_stream_def)
  then obtain c1 where s: "dev_camera (freenect_stop_video ?env) 1 (ap_ctx still_app) = Some (-1, c1)"
    using still_device by (simp add: dev_camera_def on_camera_def sample_stop_still)
  obtain d cam h where d1: "freenect_stop_video ?env (camera_of (ap_ctx still_app) d, cx_heap (ap_ctx still_app)) = Some (-1, (cam, h))"
    "find_dev 1 (cx_devs c1) = Some (d\<lparr>kd_cam := cam\<rparr>)" using s by (rule dev_cameraE)
  have stop: "\<not> ps_running (fd_video cam)" by (rule stop_video_stopped [OF d1(1)])
  have "find_reserved 0xffffffff supported_video_modes = None" "find_reserved (MAKE_RESERVED (res_code RESOLUTION_MEDIUM) (video_code VIDEO_DUMMY)) supported_video_modes = None"
    by (simp_all add: mode_tables)
  then have "set_video ?env VIDEO_DUMMY st = Some (-1, st)" for st :: "sim_cam cam_state"
    by (simp add: set_video_def freenect_set_video_mode_def freenect_find_video_mode_def)
  then obtain c2 where "dev_camera (set_video ?env VIDEO_DUMMY) 1 c1 = Some (-1, c2)"
    using d1(2) by (simp add: dev_camera_def on_camera_def)
  then obtain a' where a': "setVideoFormat ?env VIDEO_DUMMY 1 still_app = Some (Inl Cannot_Set_Video_Format, a')"
    using x s by (simp add: setVideoFormat_def)
  have "setVideoFormat ?env VIDEO_RGB 1 a' = Some (Inr (), a')" using refused_format_stops_stream [OF a' x] by simp
  with a' show ?thesis by blast
qed

text \<open>A driver object with a device that has motor and audio only; its index is created again.\<close>

definition again_app :: "unit app" where
  "again_app = \<lparr>ap_ctx = freenect_set_user 1 1 opened_context, ap_stop = False, ap_thread = True, ap_devices = [(0, 1)],
     ap_objs = [1 \<mapsto> \<lparr>ob_dev = 1, ob_video_format = VIDEO_RGB, ob_depth_format = DEPTH_MM\<rparr>], ap_next = 2\<rparr>"

lemmas again_defs = freenect_set_user_def upd_dev_def opened_context_def sample_context_def freenect_select_subdevices_def
  fresh_context_def usb_opens usb_runs usb_ids steady_host_def kinect_1414_def plain_device_def zero_subdevices_def
  insert_commute Let_def zero_kinect_def find_dev_def

lemma again_inv: "app_inv again_app"
  using opened_inv by (simp add: app_inv_def again_app_def set_user_devs) (simp add: users_of_def again_defs)

lemma again_close:
  "\<exists>c1. freenect_close_device kinect_host silent_env 1 (ap_ctx again_app) = Some (0, c1)
     \<and> (\<exists>c2. freenect_open_device kinect_host silent_env True 0 c1 = Some (0, Some 2, c2) \<and> 2 \<in> kd_ptr ` set (cx_devs c2))"
  by (simp add: freenect_close_device_def freenect_open_device_def again_app_def fnusb_close_subdevices_def again_defs
      split: option.split)

lemma silent_set_video: "\<exists>r. set_video silent_env fmt st = Some r"
proof -
  have "send_cmd silent_env cmd p n d = Some (-1, [], d)" for cmd p n and d :: "unit freenect_device"
    by (simp add: send_cmd_def silent_env_def fnusb_control_out_def Let_def)
  then show ?thesis
    by (simp add: set_video_def freenect_set_video_mode_def freenect_fetch_reg_info_def Let_def)
qed

lemma create_again_leaves_dangling_entry_example:
  "\<exists>a'. createDevice kinect_host silent_env True 0 again_app = Some (Inr 2, a') \<and> deleteDevice kinect_host silent_env 0 a' = None"
proof -
  obtain c1 c2 where c1: "freenect_close_device kinect_host silent_env 1 (ap_ctx again_app) = Some (0, c1)"
    and c2: "freenect_open_device kinect_host silent_env True 0 c1 = Some (0, Some 2, c2)" "2 \<in> kd_ptr ` set (cx_devs c2)"
    using again_close by blast
  have "kd_ptr ` set (cx_devs c) = fst ` set (devs_of c)" for c :: "unit freenect_context"
    by (simp add: devs_of_def image_image)
  then have "2 \<in> kd_ptr ` set (cx_devs (freenect_set_user 2 2 c2))" using c2(2) by (simp add: set_user_devs)
  then obtain d where "find_dev 2 (cx_devs (freenect_set_user 2 2 c2)) = Some d" using find_dev_None by blast
  moreover have "\<forall>f \<in> set [set_video silent_env VIDEO_RGB, set_depth silent_env DEPTH_MM,
      freenect_set_depth_callback True, freenect_set_video_callback True]. \<forall>st. \<exists>r. f st = Some r"
    using silent_set_video by (simp add: set_depth_def freenect_set_depth_callback_def freenect_set_video_callback_def split_beta)
  ultimately obtain c3 where "ignore_results [set_video silent_env VIDEO_RGB, set_depth silent_env DEPTH_MM,
      freenect_set_depth_callback True, freenect_set_video_callback True] 2 (freenect_set_user 2 2 c2) = Some c3"
    using ignore_results_ok by blast
  then obtain a' where a': "createDevice kinect_host silent_env True 0 again_app = Some (Inr 2, a')"
    using c1 c2(1) by (simp add: createDevice_def delete_object_def FreenectDevice_new_def again_app_def Let_def
        del: ignore_results.simps)
  have "map_of (ap_devices again_app) 0 = Some 1" by (simp add: again_app_def)
  from create_again_leaves_dangling_entry [OF again_inv this a'] a' show ?thesis by blast
qed

end
