(* ===== verification/Detector.thy ===== *)
theory Detector
  imports Registration Complex_Main
begin

text \<open>
  The touch detector of the application, \<open>stouchDetector.cpp\<close>: the filter that picks the squares of
  the projected calibration picture, the calibration state machine, and the detection of touches
  against the trained background.

  OpenCV is an argument (\<open>cv_ops\<close>): the approximated contours of a picture, areas, convexity,
  the contours of a mask, mean points, and the pointwise arithmetic of matrices, which are lists in
  row order.  The calls into Java are the list \<open>dt_calls\<close>.  \<open>None\<close> is a failed assertion or an
  access outside a vector.  Doubles are real numbers; logging and drawing have no state.
\<close>

section \<open>State\<close>

datatype calibration_state =
    UNSTABLE | ROI_STABLE_TRANSITION_DELAY | ROI_STABLE | BACKGROUND_TRAINING | COMPLETED

type_synonym point = "int \<times> int"

record rect =
  rc_x :: int
  rc_y :: int
  rc_width :: int
  rc_height :: int

datatype jni_call = Virtual_ROI_Updated int int int int | Send_Event int int

record detector =
  dt_state :: calibration_state
  dt_frm_count :: int
  dt_roi_calibration :: "point list"
  dt_roi :: rect
  dt_background :: "int list"
  dt_trained :: "int list"
  dt_touch :: bool
  dt_depth_front :: "u16 list"
  dt_rgb_front :: bytes
  dt_ref_rgb :: bytes
  dt_calls :: "jni_call list"

record cv_ops =
  cv_polygons :: "bytes \<Rightarrow> point list list list"
  cv_area :: "point list \<Rightarrow> real"
  cv_convex :: "point list \<Rightarrow> bool"
  cv_contours :: "rect \<Rightarrow> bool list \<Rightarrow> point list list"
  cv_mean :: "point list \<Rightarrow> real \<times> real"
  cv_add :: "int \<Rightarrow> int \<Rightarrow> int"
  cv_sub :: "int \<Rightarrow> int \<Rightarrow> int"
  cv_divide :: "int \<Rightarrow> int \<Rightarrow> int"

definition FREENECT_FRAME_W :: int where "FREENECT_FRAME_W = 640"
definition FREENECT_FRAME_H :: int where "FREENECT_FRAME_H = 480"
definition FREENECT_IR_FRAME_W :: int where "FREENECT_IR_FRAME_W = 640"
definition FREENECT_IR_FRAME_H :: int where "FREENECT_IR_FRAME_H = 488"

definition BackgroundTrainFrameMax :: int where "BackgroundTrainFrameMax = 1"
definition TouchDepthMin :: int where "TouchDepthMin = 2"
definition TouchDepthMax :: int where "TouchDepthMax = 15"
definition ContourAreaThreshold :: real where "ContourAreaThreshold = 50"
definition ThreasholdOfStabilityDistance :: int where "ThreasholdOfStabilityDistance = 15"
definition CalibrationUnstableFramesCount :: int where "CalibrationUnstableFramesCount = 1"
definition CalibrationStableFramesCount :: int where "CalibrationStableFramesCount = 1"

section \<open>Squares\<close>

text \<open>The cosine of the angle at \<open>pt0\<close>.\<close>

definition angle :: "point \<Rightarrow> point \<Rightarrow> point \<Rightarrow> real" where
  "angle pt1 pt2 pt0 =
     (let dx1 = of_int (fst pt1 - fst pt0); dy1 = of_int (snd pt1 - snd pt0);
          dx2 = of_int (fst pt2 - fst pt0); dy2 = of_int (snd pt2 - snd pt0)
      in (dx1 * dx2 + dy1 * dy2) / sqrt ((dx1 * dx1 + dy1 * dy1) * (dx2 * dx2 + dy2 * dy2) + 1 / 10 ^ 10))"

definition max_cosine :: "point list \<Rightarrow> real" where
  "max_cosine approx = fold (\<lambda>j m. max m \<bar>angle (approx ! (j mod 4)) (approx ! (j - 2)) (approx ! (j - 1))\<bar>) [2..<5] 0"

definition is_square :: "cv_ops \<Rightarrow> point list \<Rightarrow> bool" where
  "is_square cv approx \<longleftrightarrow> length approx = 4 \<and> \<bar>cv_area cv approx\<bar> > 1000 \<and> cv_convex cv approx
     \<and> max_cosine approx < 3 / 10"

text \<open>The polygons of all threshold levels that pass the filter, in the order found.\<close>

definition findSquares :: "cv_ops \<Rightarrow> bytes \<Rightarrow> point list list" where
  "findSquares cv picture = filter (is_square cv) (concat (cv_polygons cv picture))"

text \<open>\<open>(int)cv::norm\<close> of a difference, and the largest one of two point lists of equal length.\<close>

definition point_distance :: "point \<Rightarrow> point \<Rightarrow> int" where
  "point_distance a b = \<lfloor>sqrt (of_int ((fst a - fst b)\<^sup>2 + (snd a - snd b)\<^sup>2))\<rfloor>"

definition getDistance :: "point list \<Rightarrow> point list \<Rightarrow> int option" where
  "getDistance v1 v2 =
     (if length v1 \<noteq> length v2 then None
      else Some (fold (\<lambda>(a, b) maxDist. if maxDist < point_distance a b then point_distance a b else maxDist)
                  (zip v1 v2) 0))"

fun find_biggest :: "cv_ops \<Rightarrow> point list list \<Rightarrow> nat \<Rightarrow> nat \<Rightarrow> real \<Rightarrow> nat" where
  "find_biggest cv [] i best area = best"
| "find_biggest cv (r # rs) i best area =
     (if cv_area cv r > area then find_biggest cv rs (i + 1) i (cv_area cv r)
      else find_biggest cv rs (i + 1) best area)"

definition biggest_rect :: "cv_ops \<Rightarrow> point list list \<Rightarrow> point list" where
  "biggest_rect cv rects = rects ! find_biggest cv rects 0 0 0"

text \<open>\<open>cv::Rect\<close> of two corners.\<close>

definition rect_of :: "point \<Rightarrow> point \<Rightarrow> rect" where
  "rect_of a b = \<lparr>rc_x = min (fst a) (fst b), rc_y = min (snd a) (snd b),
     rc_width = max (fst a) (fst b) - min (fst a) (fst b), rc_height = max (snd a) (snd b) - min (snd a) (snd b)\<rparr>"

section \<open>Calibration\<close>

text \<open>Back to the unstable state when the rectangle moved, except while the background is trained.\<close>

definition check_stability :: "point list \<Rightarrow> detector \<Rightarrow> detector option" where
  "check_stability r d =
     (if dt_state d = BACKGROUND_TRAINING then Some d
      else (case getDistance (dt_roi_calibration d) r of None \<Rightarrow> None
            | Some far \<Rightarrow> Some (if far > ThreasholdOfStabilityDistance
                                then d\<lparr>dt_state := UNSTABLE, dt_frm_count := 0\<rparr> else d)))"

definition update_roi :: "detector \<Rightarrow> detector option" where
  "update_roi d =
     (if length (dt_roi_calibration d) < 3 then None
      else (let topLeft = dt_roi_calibration d ! 0; bottomRight = dt_roi_calibration d ! 2;
                roi = rect_of topLeft (fst bottomRight + 1, snd bottomRight + 1)
            in Some (d\<lparr>dt_roi := roi, dt_calls := dt_calls d @
                 [Virtual_ROI_Updated (fst topLeft) (snd topLeft) (rc_width roi) (rc_height roi)]\<rparr>)))"

definition advance_state :: "detector \<Rightarrow> detector option" where
  "advance_state d =
     (if dt_state d = UNSTABLE \<and> dt_frm_count d > CalibrationUnstableFramesCount
      then Some (d\<lparr>dt_frm_count := 0, dt_state := ROI_STABLE_TRANSITION_DELAY\<rparr>)
      else if dt_state d = ROI_STABLE_TRANSITION_DELAY \<and> dt_frm_count d > CalibrationStableFramesCount
      then update_roi (d\<lparr>dt_state := ROI_STABLE, dt_frm_count := 0\<rparr>)
      else if dt_state d = ROI_STABLE then Some (d\<lparr>dt_state := BACKGROUND_TRAINING, dt_frm_count := 0\<rparr>)
      else Some d)"

definition track_rect :: "cv_ops \<Rightarrow> point list list \<Rightarrow> detector \<Rightarrow> detector option" where
  "track_rect cv rects d =
     (if rects = [] then Some d
      else (let d1 = d\<lparr>dt_frm_count := dt_frm_count d + 1\<rparr>; r = biggest_rect cv rects
            in Option.bind (check_stability r d1) (\<lambda>d2. advance_state (d2\<lparr>dt_roi_calibration := r\<rparr>))))"

text \<open>The depth picture is the front buffer read as signed 16 bit numbers.\<close>

definition frame_cells :: nat where "frame_cells = nat (FREENECT_IR_FRAME_H * FREENECT_FRAME_W)"

definition depth_mat :: "u16 list \<Rightarrow> int list option" where
  "depth_mat buf = (if length buf < frame_cells then None else Some (map sint (take frame_cells buf)))"

definition train_background :: "cv_ops \<Rightarrow> detector \<Rightarrow> detector option" where
  "train_background cv d =
     (if dt_state d \<noteq> BACKGROUND_TRAINING then Some d
      else if dt_frm_count d < BackgroundTrainFrameMax
      then map_option (\<lambda>depth. d\<lparr>dt_background := map2 (cv_add cv) (dt_background d) depth\<rparr>) (depth_mat (dt_depth_front d))
      else Some (d\<lparr>dt_trained := map (\<lambda>x. cv_divide cv x (dt_frm_count d)) (dt_background d),
                  dt_state := COMPLETED, dt_frm_count := 0\<rparr>))"

definition calibrate :: "cv_ops \<Rightarrow> point list list \<Rightarrow> detector \<Rightarrow> detector option" where
  "calibrate cv rects d =
     (if dt_state d = COMPLETED then Some d else Option.bind (track_rect cv rects d) (train_background cv))"

text \<open>A new background matrix has the contents the allocator left, the argument \<open>fresh\<close>.\<close>

definition startCalibration :: "int list \<Rightarrow> bool \<Rightarrow> detector \<Rightarrow> detector" where
  "startCalibration fresh start d =
     (if start \<and> dt_state d = COMPLETED
      then d\<lparr>dt_state := UNSTABLE, dt_frm_count := 0, dt_roi_calibration := replicate 4 (0, 0),
             dt_background := fresh, dt_touch := False\<rparr>
      else if \<not> start \<and> dt_state d \<noteq> COMPLETED then d\<lparr>dt_state := COMPLETED\<rparr>
      else d)"

definition startTouch :: "int list \<Rightarrow> bool \<Rightarrow> detector \<Rightarrow> detector" where
  "startTouch fresh start d = (if start then startCalibration fresh False d else d)\<lparr>dt_touch := start\<rparr>"

section \<open>Touch\<close>

definition touch_mask :: "cv_ops \<Rightarrow> int list \<Rightarrow> int list \<Rightarrow> bool list" where
  "touch_mask cv trained depth =
     map2 (\<lambda>t d. cv_sub cv t d > TouchDepthMin \<and> cv_sub cv t d < TouchDepthMax) trained depth"

text \<open>The conversion of a double to \<open>int\<close>.\<close>

definition trunc_int :: "real \<Rightarrow> int" where
  "trunc_int x = (if x < 0 then - \<lfloor>- x\<rfloor> else \<lfloor>x\<rfloor>)"

definition touch_points :: "cv_ops \<Rightarrow> rect \<Rightarrow> bool list \<Rightarrow> point list" where
  "touch_points cv roi bits =
     map (\<lambda>c. (trunc_int (fst (cv_mean cv c)), trunc_int (snd (cv_mean cv c))))
         (filter (\<lambda>c. cv_area cv c > ContourAreaThreshold) (cv_contours cv roi bits))"

definition processTouch :: "cv_ops \<Rightarrow> detector \<Rightarrow> detector option" where
  "processTouch cv d =
     (case depth_mat (dt_depth_front d) of None \<Rightarrow> None
      | Some depth \<Rightarrow> Some (d\<lparr>dt_calls := dt_calls d @
          map (\<lambda>p. Send_Event (fst p) (snd p)) (touch_points cv (dt_roi d) (touch_mask cv (dt_trained d) depth))\<rparr>))"

section \<open>Frames\<close>

text \<open>One frame of the processing thread.\<close>

definition processFrame :: "cv_ops \<Rightarrow> registration \<Rightarrow> detector \<Rightarrow> detector option" where
  "processFrame cv reg d =
     (if dt_touch d then processTouch cv d
      else
        (case freenect_map_rgb_to_depth reg (dt_depth_front d) (dt_rgb_front d) (dt_ref_rgb d) of None \<Rightarrow> None
         | Some picture \<Rightarrow> calibrate cv (findSquares cv picture) (d\<lparr>dt_ref_rgb := picture\<rparr>)))"

text \<open>The four channels of a pixel for Java: the alpha channel comes first.\<close>

definition argb_pixel :: "u8 \<times> u8 \<times> u8 \<Rightarrow> bytes" where
  "argb_pixel p = (case p of (r, g, b) \<Rightarrow>
     (let rgba = [r, g, b, 255] in map (\<lambda>j. rgba ! the (map_of [(1, 0), (2, 1), (3, 2), (0, 3)] j)) [0..<4::nat]))"

section \<open>Stability\<close>

text \<open>The distance test without a square root.\<close>

lemma point_distance_gt:
  assumes "0 \<le> t"
  shows "t < point_distance a b \<longleftrightarrow> (t + 1)\<^sup>2 \<le> (fst a - fst b)\<^sup>2 + (snd a - snd b)\<^sup>2"
proof -
  let ?n = "(fst a - fst b)\<^sup>2 + (snd a - snd b)\<^sup>2"
  have "t < point_distance a b \<longleftrightarrow> of_int (t + 1) \<le> sqrt (of_int ?n)"
    unfolding point_distance_def using le_floor_iff [of "t + 1" "sqrt (of_int ?n)"] by linarith
  also have "\<dots> \<longleftrightarrow> (of_int (t + 1))\<^sup>2 \<le> (of_int ?n :: real)"
  proof -
    have "0 \<le> real_of_int (t + 1)" using assms by simp
    then have "sqrt ((of_int (t + 1))\<^sup>2) = real_of_int (t + 1)" by simp
    then show ?thesis using real_sqrt_le_iff [of "(of_int (t + 1))\<^sup>2" "of_int ?n"] by simp
  qed
  also have "\<dots> \<longleftrightarrow> (t + 1)\<^sup>2 \<le> ?n" unfolding of_int_power [symmetric] by (rule of_int_le_iff)
  finally show ?thesis .
qed

text \<open>Rectangles within the threshold: no corner moved by 16 pixels.\<close>

lemma fold_max_gt:
  "t < fold (\<lambda>(a, b) m. if m < point_distance a b then point_distance a b else m) ps m
     \<longleftrightarrow> t < m \<or> (\<exists>(a, b) \<in> set ps. t < point_distance a b)"
  by (induction ps arbitrary: m) (auto split: if_splits)

lemma getDistance_gt:
  assumes "length v1 = length v2"
  obtains k where "getDistance v1 v2 = Some k"
    and "k > ThreasholdOfStabilityDistance \<longleftrightarrow>
      (\<exists>(a, b) \<in> set (zip v1 v2). 256 \<le> (fst a - fst b)\<^sup>2 + (snd a - snd b)\<^sup>2)"
proof -
  let ?k = "fold (\<lambda>(a, b) m. if m < point_distance a b then point_distance a b else m) (zip v1 v2) 0"
  have "?k > 15 \<longleftrightarrow> (\<exists>(a, b) \<in> set (zip v1 v2). 256 \<le> (fst a - fst b)\<^sup>2 + (snd a - snd b)\<^sup>2)"
    unfolding fold_max_gt using point_distance_gt [of 15] by (auto simp: split_beta)
  then show thesis using that assms by (simp add: getDistance_def ThreasholdOfStabilityDistance_def)
qed

section \<open>Reachable states\<close>

text \<open>A point of the picture, and a region of interest inside it.\<close>

definition in_frame :: "point \<Rightarrow> bool" where
  "in_frame p \<longleftrightarrow> 0 \<le> fst p \<and> fst p < FREENECT_FRAME_W \<and> 0 \<le> snd p \<and> snd p < FREENECT_FRAME_H"

definition roi_ok :: "rect \<Rightarrow> bool" where
  "roi_ok r \<longleftrightarrow> 0 \<le> rc_x r \<and> 0 \<le> rc_y r \<and> 0 \<le> rc_width r \<and> 0 \<le> rc_height r
     \<and> rc_x r + rc_width r \<le> FREENECT_FRAME_W \<and> rc_y r + rc_height r \<le> FREENECT_FRAME_H"

text \<open>What OpenCV documents: contours consist of points of the picture.\<close>

definition cv_in_frame :: "cv_ops \<Rightarrow> bool" where
  "cv_in_frame cv \<longleftrightarrow> (\<forall>picture. \<forall>r \<in> set (concat (cv_polygons cv picture)). \<forall>p \<in> set r. in_frame p)"

definition detector_inv :: "detector \<Rightarrow> bool" where
  "detector_inv d \<longleftrightarrow> roi_ok (dt_roi d) \<and>
     (dt_state d \<noteq> COMPLETED \<longrightarrow> length (dt_roi_calibration d) = 4 \<and> (\<forall>p \<in> set (dt_roi_calibration d). in_frame p)
        \<and> dt_frm_count d \<in> {0, 1} \<and> (dt_state d \<in> {ROI_STABLE, BACKGROUND_TRAINING} \<longrightarrow> dt_frm_count d = 0))"

text \<open>The steps of the detector: a frame with new buffers, and the two commands from Java.\<close>

inductive det_reach :: "cv_ops \<Rightarrow> registration \<Rightarrow> detector \<Rightarrow> bool" for cv reg where
  Constructed: "dt_state d = COMPLETED \<Longrightarrow> dt_roi d = rect_of (0, 0) (FREENECT_FRAME_W, FREENECT_FRAME_H) \<Longrightarrow> det_reach cv reg d"
| Frame: "det_reach cv reg d \<Longrightarrow> processFrame cv reg (d\<lparr>dt_depth_front := dp, dt_rgb_front := rgb\<rparr>) = Some d' \<Longrightarrow> det_reach cv reg d'"
| Start_Calibration: "det_reach cv reg d \<Longrightarrow> det_reach cv reg (startCalibration fresh start d)"
| Start_Touch: "det_reach cv reg d \<Longrightarrow> det_reach cv reg (startTouch fresh start d)"

lemma find_biggest_bound: "best < n \<Longrightarrow> i + length rs = n \<Longrightarrow> find_biggest cv rs i best area < n"
  by (induction rs arbitrary: i best area) auto

lemma biggest_rect_mem: "rects \<noteq> [] \<Longrightarrow> biggest_rect cv rects \<in> set rects"
  unfolding biggest_rect_def using find_biggest_bound [of 0 "length rects" 0 rects cv 0] by simp

definition square_ok :: "point list \<Rightarrow> bool" where
  "square_ok r \<longleftrightarrow> length r = 4 \<and> (\<forall>p \<in> set r. in_frame p)"

lemma findSquares_ok: "cv_in_frame cv \<Longrightarrow> r \<in> set (findSquares cv picture) \<Longrightarrow> square_ok r"
  by (auto simp: findSquares_def is_square_def square_ok_def cv_in_frame_def)

lemma rect_of_roi: "in_frame a \<Longrightarrow> in_frame b \<Longrightarrow> roi_ok (rect_of a (fst b + 1, snd b + 1))"
  by (auto simp: in_frame_def roi_ok_def rect_of_def)

lemma check_stability_total:
  assumes "length r = length (dt_roi_calibration d)"
  obtains d' where "check_stability r d = Some d'" and "d' = d \<or> d' = d\<lparr>dt_state := UNSTABLE, dt_frm_count := 0\<rparr>"
proof -
  obtain k where "getDistance (dt_roi_calibration d) r = Some k"
    by (rule getDistance_gt [of "dt_roi_calibration d" r]) (simp add: assms)
  then have "check_stability r d = Some (if dt_state d = BACKGROUND_TRAINING \<or> \<not> k > ThreasholdOfStabilityDistance
      then d else d\<lparr>dt_state := UNSTABLE, dt_frm_count := 0\<rparr>)" by (simp add: check_stability_def)
  then show thesis by (rule that) simp
qed

lemma update_roi_total:
  assumes "square_ok (dt_roi_calibration d)"
  obtains calls roi where "update_roi d = Some (d\<lparr>dt_roi := roi, dt_calls := calls\<rparr>)" and "roi_ok roi"
proof -
  have "in_frame (dt_roi_calibration d ! 0)" "in_frame (dt_roi_calibration d ! 2)"
    using assms by (auto simp: square_ok_def)
  from rect_of_roi [OF this] show thesis using that assms by (simp add: update_roi_def square_ok_def Let_def)
qed

text \<open>A step of the calibration succeeds, and ends in a state of the invariant.\<close>

lemma advance_state_inv:
  assumes "roi_ok (dt_roi d)" and "square_ok (dt_roi_calibration d)" and "dt_state d \<noteq> COMPLETED"
    and "dt_frm_count d \<in> {0, 1, 2}" and "dt_frm_count d = 2 \<longrightarrow> dt_state d \<in> {UNSTABLE, ROI_STABLE_TRANSITION_DELAY}"
  obtains d' where "advance_state d = Some d'" and "roi_ok (dt_roi d')" and "square_ok (dt_roi_calibration d')"
    and "dt_state d' \<noteq> COMPLETED" and "dt_frm_count d' \<in> {0, 1}"
    and "dt_state d' = ROI_STABLE \<longrightarrow> dt_frm_count d' = 0"
    and "dt_state d' = BACKGROUND_TRAINING \<longrightarrow> dt_frm_count d' = 0 \<or> (dt_state d = BACKGROUND_TRAINING \<and> dt_frm_count d' = 1)"
    and "dt_depth_front d' = dt_depth_front d"
proof (cases "dt_state d")
  case ROI_STABLE_TRANSITION_DELAY
  show thesis
  proof (cases "dt_frm_count d = 2")
    case True
    obtain calls roi where "update_roi (d\<lparr>dt_state := ROI_STABLE, dt_frm_count := 0\<rparr>)
        = Some (d\<lparr>dt_state := ROI_STABLE, dt_frm_count := 0, dt_roi := roi, dt_calls := calls\<rparr>)" "roi_ok roi"
      by (rule update_roi_total [of "d\<lparr>dt_state := ROI_STABLE, dt_frm_count := 0\<rparr>"]) (use assms in simp_all)
    then show thesis
      using that assms ROI_STABLE_TRANSITION_DELAY True by (simp add: advance_state_def CalibrationStableFramesCount_def)
  next
    case False
    then show thesis
      using assms ROI_STABLE_TRANSITION_DELAY
      by (intro that [of d]) (auto simp: advance_state_def CalibrationStableFramesCount_def)
  qed
next
  case UNSTABLE
  show thesis
  proof (cases "dt_frm_count d = 2")
    case True
    then show thesis
      using assms UNSTABLE
      by (intro that [of "d\<lparr>dt_frm_count := 0, dt_state := ROI_STABLE_TRANSITION_DELAY\<rparr>"])
         (auto simp: advance_state_def CalibrationUnstableFramesCount_def)
  next
    case False
    then show thesis
      using assms UNSTABLE by (intro that [of d]) (auto simp: advance_state_def CalibrationUnstableFramesCount_def)
  qed
qed (use that assms in \<open>simp_all add: advance_state_def\<close>)

text \<open>The states between two frames, in calibration or not.\<close>

lemma calibrate_inv:
  assumes "detector_inv d" and "\<forall>r \<in> set rects. square_ok r"
  shows "frame_cells \<le> length (dt_depth_front d) \<Longrightarrow> calibrate cv rects d \<noteq> None"
    and "calibrate cv rects d = Some d' \<Longrightarrow> detector_inv d'"
proof -
  have "(frame_cells \<le> length (dt_depth_front d) \<longrightarrow> calibrate cv rects d \<noteq> None)
     \<and> (\<forall>d'. calibrate cv rects d = Some d' \<longrightarrow> detector_inv d')"
  proof (cases "dt_state d = COMPLETED")
    case True
    then show ?thesis using assms(1) by (simp add: calibrate_def)
  next
    case active: False
    obtain e where e: "track_rect cv rects d = Some e" "roi_ok (dt_roi e)" "square_ok (dt_roi_calibration e)"
      "dt_state e \<noteq> COMPLETED" "dt_frm_count e \<in> {0, 1}" "dt_state e = ROI_STABLE \<longrightarrow> dt_frm_count e = 0"
      "dt_depth_front e = dt_depth_front d"
    proof (cases "rects = []")
      case True
      then show thesis
        using assms(1) active by (intro that [of d]) (auto simp: track_rect_def detector_inv_def square_ok_def)
    next
      case False
      let ?r = "biggest_rect cv rects" and ?d1 = "d\<lparr>dt_frm_count := dt_frm_count d + 1\<rparr>"
      have r: "square_ok ?r" using biggest_rect_mem [OF False] assms(2) by blast
      obtain d2 where d2: "check_stability ?r ?d1 = Some d2" "d2 = ?d1 \<or> d2 = ?d1\<lparr>dt_state := UNSTABLE, dt_frm_count := 0\<rparr>"
        by (rule check_stability_total [of ?r ?d1])
           (use r assms(1) active in \<open>simp_all add: square_ok_def detector_inv_def\<close>)
      let ?d3 = "d2\<lparr>dt_roi_calibration := ?r\<rparr>"
      have pre: "roi_ok (dt_roi ?d3)" "square_ok (dt_roi_calibration ?d3)" "dt_state ?d3 \<noteq> COMPLETED"
        "dt_frm_count ?d3 \<in> {0, 1, 2}" "dt_frm_count ?d3 = 2 \<longrightarrow> dt_state ?d3 \<in> {UNSTABLE, ROI_STABLE_TRANSITION_DELAY}"
        "dt_depth_front ?d3 = dt_depth_front d"
        using assms(1) active r d2(2) by (auto simp: detector_inv_def intro: calibration_state.exhaust [of "dt_state d"])
      obtain e where "advance_state ?d3 = Some e" "roi_ok (dt_roi e)" "square_ok (dt_roi_calibration e)"
        "dt_state e \<noteq> COMPLETED" "dt_frm_count e \<in> {0, 1}" "dt_state e = ROI_STABLE \<longrightarrow> dt_frm_count e = 0"
        "dt_depth_front e = dt_depth_front ?d3"
        by (rule advance_state_inv [OF pre(1-5)]) blast
      then show thesis
        using False d2(1) pre(6) by (intro that [of e]) (simp_all add: track_rect_def Let_def)
    qed
    show ?thesis
    proof (cases "dt_state e = BACKGROUND_TRAINING")
      case True
      then show ?thesis
        using e active by (auto simp: calibrate_def train_background_def depth_mat_def detector_inv_def
            square_ok_def BackgroundTrainFrameMax_def)
    next
      case False
      then show ?thesis
        using e active by (auto simp: calibrate_def train_background_def detector_inv_def square_ok_def)
    qed
  qed
  then show "frame_cells \<le> length (dt_depth_front d) \<Longrightarrow> calibrate cv rects d \<noteq> None"
    and "calibrate cv rects d = Some d' \<Longrightarrow> detector_inv d'" by blast+
qed

lemma reach_inv:
  assumes "det_reach cv reg d" and "cv_in_frame cv"
  shows "detector_inv d"
  using assms(1)
proof induction
  case (Constructed d)
  then show ?case by (simp add: detector_inv_def roi_ok_def rect_of_def FREENECT_FRAME_W_def FREENECT_FRAME_H_def)
next
  case (Frame d rgb dp d')
  let ?d = "d\<lparr>dt_depth_front := dp, dt_rgb_front := rgb\<rparr>"
  show ?case
  proof (cases "dt_touch d")
    case True
    then show ?thesis using Frame by (auto simp: processFrame_def processTouch_def detector_inv_def split: option.splits)
  next
    case False
    then obtain picture where c: "calibrate cv (findSquares cv picture) (?d\<lparr>dt_ref_rgb := picture\<rparr>) = Some d'"
      using Frame(2) by (auto simp: processFrame_def split: option.splits)
    have "detector_inv (?d\<lparr>dt_ref_rgb := picture\<rparr>)" using Frame.IH by (simp add: detector_inv_def)
    then show ?thesis using calibrate_inv(2) [OF _ _ c] findSquares_ok [OF assms(2)] by blast
  qed
next
  case (Start_Calibration d fresh start)
  then show ?case
    by (auto simp: startCalibration_def detector_inv_def in_frame_def FREENECT_FRAME_W_def FREENECT_FRAME_H_def)
next
  case (Start_Touch d fresh start)
  then show ?case by (auto simp: startTouch_def startCalibration_def detector_inv_def)
qed

text \<open>C37: In every reachable state of the detector the region of interest lies in the picture, the rectangle
  followed by a calibration has four corners in the picture, and the frame counter never exceeds 1
  between two frames: the assertion of \<open>getDistance\<close> cannot fail, no corner that does not exist is
  read, and the background is divided by the number 1.\<close>

theorem detector_reach_inv:
  assumes "det_reach cv reg d" and "cv_in_frame cv" and "frame_cells \<le> length (dt_depth_front d)"
  shows "detector_inv d \<and> calibrate cv (findSquares cv picture) d \<noteq> None"
proof -
  have "detector_inv d" by (rule reach_inv [OF assms(1,2)])
  then show ?thesis using calibrate_inv(1) [OF _ _ assms(3)] findSquares_ok [OF assms(2)] by blast
qed

section \<open>Calibration completes\<close>

text \<open>Frames, each with the squares found and the depth picture.\<close>

primrec calib_frames :: "cv_ops \<Rightarrow> (point list list \<times> u16 list) list \<Rightarrow> detector \<Rightarrow> detector option" where
  "calib_frames cv [] d = Some d"
| "calib_frames cv (f # fs) d =
     Option.bind (calibrate cv (fst f) (d\<lparr>dt_depth_front := snd f\<rparr>)) (calib_frames cv fs)"

text \<open>Frames in which the largest rectangle is near the one before, \<open>r\<close> at first.\<close>

fun steady :: "cv_ops \<Rightarrow> point list \<Rightarrow> (point list list \<times> u16 list) list \<Rightarrow> bool" where
  "steady cv r [] = True"
| "steady cv r (f # fs) =
     (fst f \<noteq> [] \<and> length (biggest_rect cv (fst f)) = 4 \<and> frame_cells \<le> length (snd f)
      \<and> (case getDistance r (biggest_rect cv (fst f)) of None \<Rightarrow> False | Some k \<Rightarrow> k \<le> ThreasholdOfStabilityDistance)
      \<and> steady cv (biggest_rect cv (fst f)) fs)"

definition at_state :: "detector \<Rightarrow> calibration_state \<Rightarrow> int \<Rightarrow> point list \<Rightarrow> bool" where
  "at_state d s n r \<longleftrightarrow> dt_state d = s \<and> dt_frm_count d = n \<and> dt_roi_calibration d = r"

lemma frames_done: "dt_state d = COMPLETED \<Longrightarrow>
    \<exists>d'. calib_frames cv fs d = Some d' \<and> dt_state d' = COMPLETED \<and> dt_trained d' = dt_trained d \<and> dt_roi d' = dt_roi d"
proof (induction fs arbitrary: d)
  case (Cons f fs)
  then show ?case using Cons.IH [of "d\<lparr>dt_depth_front := snd f\<rparr>"] by (simp add: calibrate_def)
qed simp

text \<open>One steady frame in each state.\<close>

lemma steady_track:
  assumes "steady cv r (f # fs)" and "at_state d s n r" and "s \<noteq> COMPLETED"
  shows "track_rect cv (fst f) (d\<lparr>dt_depth_front := snd f\<rparr>)
     = advance_state (d\<lparr>dt_depth_front := snd f, dt_frm_count := n + 1, dt_roi_calibration := biggest_rect cv (fst f)\<rparr>)"
  using assms by (auto simp: track_rect_def check_stability_def at_state_def Let_def split: option.splits)

lemmas calib_counts = CalibrationUnstableFramesCount_def CalibrationStableFramesCount_def BackgroundTrainFrameMax_def

lemma steady_calibrate:
  assumes "steady cv r (f # fs)" and "at_state d s n r" and "s \<noteq> COMPLETED"
    and "advance_state (d\<lparr>dt_depth_front := snd f, dt_frm_count := n + 1, dt_roi_calibration := biggest_rect cv (fst f)\<rparr>) = Some e"
  shows "calib_frames cv (f # fs) d = Option.bind (train_background cv e) (calib_frames cv fs)"
proof -
  have "calibrate cv (fst f) (d\<lparr>dt_depth_front := snd f\<rparr>) = train_background cv e"
    using assms(2,3) steady_track [OF assms(1-3)] assms(4) by (simp add: calibrate_def at_state_def)
  then show ?thesis by simp
qed

definition roi_of :: "point list \<Rightarrow> rect" where
  "roi_of r = rect_of (r ! 0) (fst (r ! 2) + 1, snd (r ! 2) + 1)"

lemma steady_next:
  assumes "steady cv r (f # fs)" and "at_state d s n r" and "s \<noteq> COMPLETED"
    and "advance_state (d\<lparr>dt_depth_front := snd f, dt_frm_count := n + 1, dt_roi_calibration := biggest_rect cv (fst f)\<rparr>) = Some e"
    and "at_state e s' n' (biggest_rect cv (fst f))" and "s' \<noteq> BACKGROUND_TRAINING" and "dt_background e = dt_background d"
  shows "\<exists>e'. calib_frames cv (f # fs) d = calib_frames cv fs e' \<and> at_state e' s' n' (biggest_rect cv (fst f))
     \<and> dt_background e' = dt_background d \<and> dt_roi e' = dt_roi e"
  using steady_calibrate [OF assms(1-4)] assms(5-7)
  by (intro exI [of _ e]) (simp add: train_background_def at_state_def)

lemma steady_unstable:
  assumes "steady cv r (f # fs)"
  shows "at_state d UNSTABLE 0 r \<Longrightarrow> \<exists>e. calib_frames cv (f # fs) d = calib_frames cv fs e
      \<and> at_state e UNSTABLE 1 (biggest_rect cv (fst f)) \<and> dt_background e = dt_background d"
    and "at_state d UNSTABLE 1 r \<Longrightarrow> \<exists>e. calib_frames cv (f # fs) d = calib_frames cv fs e
      \<and> at_state e ROI_STABLE_TRANSITION_DELAY 0 (biggest_rect cv (fst f)) \<and> dt_background e = dt_background d"
    and "at_state d ROI_STABLE_TRANSITION_DELAY 0 r \<Longrightarrow> \<exists>e. calib_frames cv (f # fs) d = calib_frames cv fs e
      \<and> at_state e ROI_STABLE_TRANSITION_DELAY 1 (biggest_rect cv (fst f)) \<and> dt_background e = dt_background d"
    and "at_state d ROI_STABLE_TRANSITION_DELAY 1 r \<Longrightarrow> \<exists>e. calib_frames cv (f # fs) d = calib_frames cv fs e
      \<and> at_state e ROI_STABLE 0 (biggest_rect cv (fst f)) \<and> dt_background e = dt_background d
      \<and> dt_roi e = roi_of (biggest_rect cv (fst f))"
proof -
  let ?e = "\<lambda>n. d\<lparr>dt_depth_front := snd f, dt_frm_count := n, dt_roi_calibration := biggest_rect cv (fst f)\<rparr>"
  assume "at_state d UNSTABLE 0 r"
  from steady_next [OF assms this, of "?e 1"] this show "\<exists>e. calib_frames cv (f # fs) d = calib_frames cv fs e
      \<and> at_state e UNSTABLE 1 (biggest_rect cv (fst f)) \<and> dt_background e = dt_background d"
    by (auto simp: advance_state_def calib_counts at_state_def)
next
  let ?e = "d\<lparr>dt_depth_front := snd f, dt_frm_count := 2, dt_roi_calibration := biggest_rect cv (fst f),
    dt_frm_count := 0, dt_state := ROI_STABLE_TRANSITION_DELAY\<rparr>"
  assume "at_state d UNSTABLE 1 r"
  from steady_next [OF assms this, of ?e] this show "\<exists>e. calib_frames cv (f # fs) d = calib_frames cv fs e
      \<and> at_state e ROI_STABLE_TRANSITION_DELAY 0 (biggest_rect cv (fst f)) \<and> dt_background e = dt_background d"
    by (auto simp: advance_state_def calib_counts at_state_def)
next
  let ?e = "d\<lparr>dt_depth_front := snd f, dt_frm_count := 1, dt_roi_calibration := biggest_rect cv (fst f)\<rparr>"
  assume "at_state d ROI_STABLE_TRANSITION_DELAY 0 r"
  from steady_next [OF assms this, of ?e] this show "\<exists>e. calib_frames cv (f # fs) d = calib_frames cv fs e
      \<and> at_state e ROI_STABLE_TRANSITION_DELAY 1 (biggest_rect cv (fst f)) \<and> dt_background e = dt_background d"
    by (auto simp: advance_state_def calib_counts at_state_def)
next
  assume a: "at_state d ROI_STABLE_TRANSITION_DELAY 1 r"
  have "length (biggest_rect cv (fst f)) = 4" using assms by simp
  then obtain e where "advance_state (d\<lparr>dt_depth_front := snd f, dt_frm_count := 1 + 1,
      dt_roi_calibration := biggest_rect cv (fst f)\<rparr>) = Some e"
    "at_state e ROI_STABLE 0 (biggest_rect cv (fst f))" "dt_background e = dt_background d"
    "dt_roi e = roi_of (biggest_rect cv (fst f))"
    using a by (simp add: advance_state_def update_roi_def calib_counts at_state_def roi_of_def Let_def)
  from steady_next [OF assms a _ this(1,2) _ this(3)] this(4) show "\<exists>e. calib_frames cv (f # fs) d = calib_frames cv fs e
      \<and> at_state e ROI_STABLE 0 (biggest_rect cv (fst f)) \<and> dt_background e = dt_background d
      \<and> dt_roi e = roi_of (biggest_rect cv (fst f))"
    by simp
qed

text \<open>The frame that accumulates, and the frame that ends the training.\<close>

lemma steady_train:
  assumes "steady cv r (f # fs)" and "at_state d ROI_STABLE 0 r"
  shows "\<exists>e depth. calib_frames cv (f # fs) d = calib_frames cv fs e \<and> at_state e BACKGROUND_TRAINING 0 (biggest_rect cv (fst f))
     \<and> depth_mat (snd f) = Some depth \<and> dt_background e = map2 (cv_add cv) (dt_background d) depth \<and> dt_roi e = dt_roi d"
proof -
  let ?e = "d\<lparr>dt_depth_front := snd f, dt_frm_count := 0 + 1, dt_roi_calibration := biggest_rect cv (fst f),
    dt_state := BACKGROUND_TRAINING, dt_frm_count := 0\<rparr>"
  have a: "advance_state (d\<lparr>dt_depth_front := snd f, dt_frm_count := 0 + 1, dt_roi_calibration := biggest_rect cv (fst f)\<rparr>) = Some ?e"
    using assms(2) by (simp add: advance_state_def at_state_def)
  have "frame_cells \<le> length (snd f)" using assms(1) by simp
  then obtain depth where d: "depth_mat (snd f) = Some depth" by (simp add: depth_mat_def)
  have "train_background cv ?e = Some (?e\<lparr>dt_background := map2 (cv_add cv) (dt_background d) depth\<rparr>)"
    by (simp add: train_background_def d calib_counts)
  then show ?thesis
    using steady_calibrate [OF assms _ a] d
    by (intro exI [of _ "?e\<lparr>dt_background := map2 (cv_add cv) (dt_background d) depth\<rparr>"] exI [of _ depth])
       (simp add: at_state_def)
qed

text \<open>Training needs no steady rectangle: any frame with one ends it.\<close>

lemma train_ends:
  assumes "fst f \<noteq> []" and "dt_state d = BACKGROUND_TRAINING" and "dt_frm_count d = 0"
  shows "\<exists>e. calib_frames cv (f # fs) d = calib_frames cv fs e \<and> dt_state e = COMPLETED \<and> dt_roi e = dt_roi d
     \<and> dt_trained e = map (\<lambda>x. cv_divide cv x 1) (dt_background d)"
  using assms
  by (intro exI [of _ "d\<lparr>dt_depth_front := snd f, dt_roi_calibration := biggest_rect cv (fst f),
        dt_trained := map (\<lambda>x. cv_divide cv x 1) (dt_background d), dt_state := COMPLETED, dt_frm_count := 0\<rparr>"])
     (simp add: calibrate_def track_rect_def check_stability_def advance_state_def train_background_def calib_counts Let_def)

definition trained_with :: "cv_ops \<Rightarrow> int list \<Rightarrow> int list \<Rightarrow> detector \<Rightarrow> bool" where
  "trained_with cv fresh depth d \<longleftrightarrow> dt_state d = COMPLETED
     \<and> dt_trained d = map (\<lambda>x. cv_divide cv x 1) (map2 (cv_add cv) fresh depth)"

lemma six_frames:
  assumes "steady cv r [f1, f2, f3, f4, f5, f6]" and "at_state d UNSTABLE 0 r"
  shows "\<exists>e depth. calib_frames cv (f1 # f2 # f3 # f4 # f5 # f6 # gs) d = calib_frames cv gs e
     \<and> depth_mat (snd f5) = Some depth \<and> trained_with cv (dt_background d) depth e
     \<and> dt_roi e = roi_of (biggest_rect cv (fst f4))"
proof -
  let ?r = "\<lambda>f. biggest_rect cv (fst f)"
  have s: "steady cv r (f1 # [])" "steady cv (?r f1) (f2 # [])" "steady cv (?r f2) (f3 # [])"
    "steady cv (?r f3) (f4 # [])" "steady cv (?r f4) (f5 # [])" "fst f6 \<noteq> []"
    using assms(1) by simp_all
  have one: "steady cv q (f # hs)" if "steady cv q [f]" "steady cv (?r f) hs" for q f hs using that by simp
  have t6: "steady cv (?r f5) [f6]" using assms(1) by simp
  have run: "calib_frames cv (f # hs) d = calib_frames cv hs e" if "calib_frames cv [f] d = Some e" for f hs d e
    using that by (auto simp: bind_eq_Some_conv)
  obtain e1 where e1: "calib_frames cv [f1] d = Some e1" "at_state e1 UNSTABLE 1 (?r f1)" "dt_background e1 = dt_background d"
    using steady_unstable(1) [OF s(1) assms(2)] by auto
  obtain e2 where e2: "calib_frames cv [f2] e1 = Some e2" "at_state e2 ROI_STABLE_TRANSITION_DELAY 0 (?r f2)"
    "dt_background e2 = dt_background d" using steady_unstable(2) [OF s(2) e1(2)] e1(3) by auto
  obtain e3 where e3: "calib_frames cv [f3] e2 = Some e3" "at_state e3 ROI_STABLE_TRANSITION_DELAY 1 (?r f3)"
    "dt_background e3 = dt_background d" using steady_unstable(3) [OF s(3) e2(2)] e2(3) by auto
  obtain e4 where e4: "calib_frames cv [f4] e3 = Some e4" "at_state e4 ROI_STABLE 0 (?r f4)"
    "dt_background e4 = dt_background d" "dt_roi e4 = roi_of (?r f4)" using steady_unstable(4) [OF s(4) e3(2)] e3(3) by auto
  obtain e5 depth where e5: "calib_frames cv [f5] e4 = Some e5" "at_state e5 BACKGROUND_TRAINING 0 (?r f5)"
    "depth_mat (snd f5) = Some depth" "dt_background e5 = map2 (cv_add cv) (dt_background d) depth" "dt_roi e5 = roi_of (?r f4)"
    using steady_train [OF s(5) e4(2)] e4(3,4) by auto
  obtain e6 where e6: "calib_frames cv [f6] e5 = Some e6" "dt_state e6 = COMPLETED"
    "dt_trained e6 = map (\<lambda>x. cv_divide cv x 1) (dt_background e5)" "dt_roi e6 = dt_roi e5"
    using train_ends [OF s(6), of e5 cv "[]"] e5(2) by (auto simp: at_state_def)
  have "calib_frames cv (f1 # f2 # f3 # f4 # f5 # f6 # gs) d = calib_frames cv gs e6"
    by (simp only: run [OF e1(1)] run [OF e2(1)] run [OF e3(1)] run [OF e4(1)] run [OF e5(1)] run [OF e6(1)])
  moreover have "trained_with cv (dt_background d) depth e6" using e6 e5(4) by (simp add: trained_with_def)
  moreover have "dt_roi e6 = roi_of (?r f4)" using e5(5) e6(4) by simp
  ultimately show ?thesis using e5(3) by blast
qed

text \<open>C38: Seven frames whose largest squares stay within 15 pixels from one frame to the next complete a calibration
  that was started: the detector's region of interest is then that of the square of one of the frames,
  and its background is, cell by cell, what the allocated and never initialised matrix \<open>fresh\<close> held, plus the depth picture of
  exactly one of the frames (by \<open>cv_add\<close>), divided by the number of frames trained with, 1 (by \<open>cv_divide\<close>).\<close>

theorem stable_calibration_completes:
  assumes "dt_state d = COMPLETED" and "fst f0 \<noteq> []" and "length (biggest_rect cv (fst f0)) = 4"
    and "frame_cells \<le> length (snd f0)" and "steady cv (biggest_rect cv (fst f0)) fs" and "length fs = 6"
  shows "\<exists>d' f depth. calib_frames cv (f0 # fs) (startCalibration fresh True d) = Some d' \<and> f \<in> set (f0 # fs)
     \<and> depth_mat (snd f) = Some depth \<and> trained_with cv fresh depth d'
     \<and> (\<exists>g \<in> set (f0 # fs). dt_roi d' = roi_of (biggest_rect cv (fst g)))"
proof -
  obtain f1 f2 f3 f4 f5 f6 where fs: "fs = [f1, f2, f3, f4, f5, f6]"
    using assms(6) by (auto simp: length_Suc_conv numeral_eq_Suc)
  let ?d = "startCalibration fresh True d" and ?r = "biggest_rect cv (fst f0)"
  have d: "at_state ?d UNSTABLE 0 (replicate 4 (0, 0))" "dt_background ?d = fresh"
    using assms(1) by (simp_all add: startCalibration_def at_state_def)
  obtain k where k: "getDistance (replicate 4 (0, 0)) ?r = Some k"
    by (rule getDistance_gt [of "replicate 4 (0, 0)" ?r]) (use assms(3) in simp_all)
  show ?thesis
  proof (cases "k > ThreasholdOfStabilityDistance")
    case True
    define e where "e = ?d\<lparr>dt_depth_front := snd f0, dt_frm_count := 0, dt_roi_calibration := ?r\<rparr>"
    have e: "at_state e UNSTABLE 0 ?r" "dt_background e = fresh" using d by (simp_all add: e_def at_state_def)
    have "calibrate cv (fst f0) (?d\<lparr>dt_depth_front := snd f0\<rparr>) = Some e"
      using True k d(1) assms(2) by (simp add: calibrate_def track_rect_def check_stability_def at_state_def
          advance_state_def train_background_def calib_counts e_def Let_def)
    then have "calib_frames cv (f0 # fs) ?d = calib_frames cv fs e" by simp
    moreover obtain e' depth where "calib_frames cv fs e = Some e'" "depth_mat (snd f5) = Some depth" "trained_with cv fresh depth e'"
      "dt_roi e' = roi_of (biggest_rect cv (fst f4))"
      using six_frames [of cv ?r f1 f2 f3 f4 f5 f6 e "[]"] assms(5) e by (auto simp: fs)
    moreover have "f5 \<in> set (f0 # fs)" "f4 \<in> set (f0 # fs)" by (simp_all add: fs)
    ultimately show ?thesis by metis
  next
    case False
    then have "steady cv (replicate 4 (0, 0)) (f0 # fs)" using assms(2-5) k by simp
    then have "steady cv (replicate 4 (0, 0)) [f0, f1, f2, f3, f4, f5]" by (simp add: fs)
    from six_frames [OF this d(1), of "[f6]"] d(2) obtain e depth where e: "calib_frames cv (f0 # fs) ?d = calib_frames cv [f6] e"
      "depth_mat (snd f4) = Some depth" "trained_with cv fresh depth e" "dt_roi e = roi_of (biggest_rect cv (fst f3))"
      by (auto simp: fs)
    moreover obtain e' where "calib_frames cv [f6] e = Some e'" "dt_state e' = COMPLETED" "dt_trained e' = dt_trained e"
      "dt_roi e' = dt_roi e" using frames_done [of e cv "[f6]"] e(3) by (auto simp: trained_with_def)
    moreover have "f4 \<in> set (f0 # fs)" "f3 \<in> set (f0 # fs)" by (simp_all add: fs)
    moreover have "trained_with cv fresh depth e'" using e(3) calculation(6,7) by (simp add: trained_with_def)
    moreover have "dt_roi e' = roi_of (biggest_rect cv (fst f3))" using e(4) calculation(8) by simp
    ultimately show ?thesis by metis
  qed
qed

section \<open>Training without a rectangle\<close>

text \<open>OpenCV on values within 32 bits: sums are exact, division by 1 changes nothing.\<close>

definition cv_exact :: "cv_ops \<Rightarrow> bool" where
  "cv_exact cv \<longleftrightarrow> (\<forall>x y. \<bar>x\<bar> + \<bar>y\<bar> < 2 ^ 31 \<longrightarrow> cv_add cv x y = x + y \<and> cv_sub cv x y = x - y)
     \<and> (\<forall>x. cv_divide cv x 1 = x)"

lemma depth_mat_bounds: "depth_mat buf = Some m \<Longrightarrow> length m = frame_cells \<and> (\<forall>x \<in> set m. \<bar>x\<bar> \<le> 2 ^ 15)"
proof -
  have "\<bar>sint x\<bar> \<le> 2 ^ 15" for x :: u16
    using sint_range_size [of x] by (simp add: word_size abs_le_iff)
  then show "depth_mat buf = Some m \<Longrightarrow> ?thesis" by (auto simp: depth_mat_def split: if_splits)
qed

primrec sum_depths :: "u16 list list \<Rightarrow> nat \<Rightarrow> int" where
  "sum_depths [] i = 0"
| "sum_depths (b # bs) i = sint (b ! i) + sum_depths bs i"

lemma frame_without_square:
  assumes "dt_state d = BACKGROUND_TRAINING" "dt_frm_count d = 0" "depth_mat dp = Some m"
  shows "calibrate cv [] (d\<lparr>dt_depth_front := dp\<rparr>) = Some (d\<lparr>dt_depth_front := dp, dt_background := map2 (cv_add cv) (dt_background d) m\<rparr>)"
  using assms by (simp add: calibrate_def track_rect_def train_background_def calib_counts)

text \<open>While the background is trained, frames without a square are accumulated but not counted: after any
  number of them the next frame with a square ends the calibration with their sum, and what the
  uninitialised matrix held, as the background, not their mean.\<close>

lemma training_accumulates_uncounted:
  assumes "cv_exact cv" and "dt_state d = BACKGROUND_TRAINING" and "dt_frm_count d = 0"
    and "length (dt_background d) = frame_cells" and "\<forall>b \<in> set bufs. frame_cells \<le> length b"
    and "\<forall>x \<in> set (dt_background d). \<bar>x\<bar> + 2 ^ 15 * int (length bufs) < 2 ^ 31" and "fst f \<noteq> []"
  shows "\<exists>e. calib_frames cv (map (Pair []) bufs @ [f]) d = Some e \<and> dt_state e = COMPLETED
     \<and> (\<forall>i < frame_cells. dt_trained e ! i = dt_background d ! i + sum_depths bufs i)"
  using assms(2-6)
proof (induction bufs arbitrary: d)
  case Nil
  obtain e where "calib_frames cv [f] d = Some e" "dt_state e = COMPLETED"
    "dt_trained e = map (\<lambda>x. cv_divide cv x 1) (dt_background d)"
    using train_ends [OF assms(7) Nil(1,2), of cv "[]"] by auto
  then show ?case using assms(1) Nil(3) by (simp add: cv_exact_def)
next
  case (Cons b bufs)
  then obtain m where m: "depth_mat b = Some m" by (simp add: depth_mat_def)
  define d' where "d' = d\<lparr>dt_depth_front := b, dt_background := map2 (cv_add cv) (dt_background d) m\<rparr>"
  have len: "length m = frame_cells" "\<forall>x \<in> set m. \<bar>x\<bar> \<le> 2 ^ 15" using depth_mat_bounds [OF m] by simp_all
  have add: "cv_add cv x y = x + y" "\<bar>x + y\<bar> + 2 ^ 15 * int (length bufs) < 2 ^ 31"
    if "x \<in> set (dt_background d)" "y \<in> set m" for x y
  proof -
    have "\<bar>x\<bar> + 2 ^ 15 * (1 + int (length bufs)) < 2 ^ 31" "\<bar>y\<bar> \<le> 2 ^ 15" using that Cons.prems(5) len(2) by simp_all
    then have "\<bar>x\<bar> + \<bar>y\<bar> < 2 ^ 31" "\<bar>x\<bar> + \<bar>y\<bar> + 2 ^ 15 * int (length bufs) < 2 ^ 31" by (simp_all add: distrib_left)
    then show "cv_add cv x y = x + y" "\<bar>x + y\<bar> + 2 ^ 15 * int (length bufs) < 2 ^ 31"
      using assms(1) abs_triangle_ineq [of x y] by (simp_all add: cv_exact_def)
  qed
  have bg: "map2 (cv_add cv) (dt_background d) m = map2 (+) (dt_background d) m"
  proof (rule map_cong [OF refl])
    fix p assume "p \<in> set (zip (dt_background d) m)"
    then have "fst p \<in> set (dt_background d)" "snd p \<in> set m"
      using set_zip_leftD [of "fst p" "snd p"] set_zip_rightD [of "fst p" "snd p"] by simp_all
    then show "(case p of (x, y) \<Rightarrow> cv_add cv x y) = (case p of (x, y) \<Rightarrow> x + y)" by (simp add: add(1) split_beta)
  qed
  have "\<exists>e. calib_frames cv (map (Pair []) bufs @ [f]) d' = Some e \<and> dt_state e = COMPLETED
     \<and> (\<forall>i < frame_cells. dt_trained e ! i = dt_background d' ! i + sum_depths bufs i)"
  proof (rule Cons.IH)
    show "\<forall>x \<in> set (dt_background d'). \<bar>x\<bar> + 2 ^ 15 * int (length bufs) < 2 ^ 31"
    proof
      fix z assume "z \<in> set (dt_background d')"
      then obtain p where p: "p \<in> set (zip (dt_background d) m)" "z = fst p + snd p" by (auto simp: d'_def bg)
      then have "fst p \<in> set (dt_background d)" "snd p \<in> set m"
        using set_zip_leftD [of "fst p" "snd p"] set_zip_rightD [of "fst p" "snd p"] by simp_all
      then show "\<bar>z\<bar> + 2 ^ 15 * int (length bufs) < 2 ^ 31" unfolding p(2) by (rule add(2))
    qed
  qed (use Cons.prems len(1) in \<open>simp_all add: d'_def\<close>)
  moreover have "dt_background d' ! i = dt_background d ! i + sint (b ! i)" if "i < frame_cells" for i
    using that m Cons.prems(3,4) by (auto simp: d'_def bg depth_mat_def split: if_splits)
  ultimately show ?case
    using frame_without_square [OF Cons.prems(1,2) m, of cv] by (auto simp: d'_def)
qed

section \<open>Witnesses\<close>

text \<open>An OpenCV that always finds the same square, and a detector at rest.\<close>

definition sample_square :: "point list" where
  "sample_square = [(100, 100), (140, 100), (140, 140), (100, 140)]"

definition sample_cv :: cv_ops where
  "sample_cv = \<lparr>cv_polygons = (\<lambda>_. [[sample_square]]), cv_area = (\<lambda>_. 1600), cv_convex = (\<lambda>_. True),
     cv_contours = (\<lambda>_ _. []), cv_mean = (\<lambda>_. (0, 0)), cv_add = (+), cv_sub = (-), cv_divide = (div)\<rparr>"

definition sample_detector :: detector where
  "sample_detector = \<lparr>dt_state = COMPLETED, dt_frm_count = 0, dt_roi_calibration = [],
     dt_roi = rect_of (0, 0) (FREENECT_FRAME_W, FREENECT_FRAME_H), dt_background = [], dt_trained = [], dt_touch = False,
     dt_depth_front = replicate frame_cells 800, dt_rgb_front = [], dt_ref_rgb = [], dt_calls = []\<rparr>"

lemma sample_cv_facts: "cv_in_frame sample_cv" "cv_exact sample_cv"
  by (simp_all add: cv_in_frame_def sample_cv_def sample_square_def in_frame_def FREENECT_FRAME_W_def
      FREENECT_FRAME_H_def cv_exact_def)

theorem detector_reach_inv_witness:
  "detector_inv (startCalibration [] True sample_detector)"
proof -
  have r: "det_reach sample_cv sample_reg (startCalibration [] True sample_detector)" for sample_reg
    by (rule det_reach.Start_Calibration, rule det_reach.Constructed) (simp_all add: sample_detector_def)
  have "frame_cells \<le> length (dt_depth_front (startCalibration [] True sample_detector))"
    by (simp add: startCalibration_def sample_detector_def)
  from detector_reach_inv [OF r sample_cv_facts(1) this] show ?thesis by blast
qed

definition sample_frame :: "point list list \<times> u16 list" where
  "sample_frame = ([sample_square], replicate frame_cells 800)"

lemma sample_biggest: "biggest_rect sample_cv (fst sample_frame) = sample_square"
  by (simp add: biggest_rect_def sample_frame_def sample_cv_def)

lemma sample_steady: "steady sample_cv sample_square (replicate n sample_frame)"
proof (induction n)
  case (Suc n)
  have "getDistance sample_square sample_square = Some 0"
    by (simp add: getDistance_def sample_square_def point_distance_def)
  then show ?case
    using Suc by (simp add: sample_biggest ThreasholdOfStabilityDistance_def)
      (simp add: sample_frame_def sample_square_def)
qed simp

theorem stable_calibration_completes_witness:
  "\<exists>d'. calib_frames sample_cv (replicate 7 sample_frame) (startCalibration [] True sample_detector) = Some d'
     \<and> dt_state d' = COMPLETED"
proof -
  have r: "replicate 7 sample_frame = sample_frame # replicate 6 sample_frame" by (simp add: numeral_eq_Suc)
  have c: "dt_state sample_detector = COMPLETED" by (simp add: sample_detector_def)
  have f: "fst sample_frame \<noteq> []" "length (biggest_rect sample_cv (fst sample_frame)) = 4" "frame_cells \<le> length (snd sample_frame)"
    unfolding sample_biggest by (simp_all add: sample_frame_def sample_square_def)
  have s: "steady sample_cv (biggest_rect sample_cv (fst sample_frame)) (replicate 6 sample_frame)"
    unfolding sample_biggest by (rule sample_steady)
  from stable_calibration_completes [OF c f s, of "[]"] show ?thesis unfolding r by (auto simp: trained_with_def)
qed

lemma training_accumulates_uncounted_example:
  "\<exists>e. calib_frames sample_cv [([], replicate frame_cells 800), ([], replicate frame_cells 800), sample_frame]
       (sample_detector\<lparr>dt_state := BACKGROUND_TRAINING, dt_background := replicate frame_cells 0\<rparr>) = Some e
     \<and> dt_trained e ! 0 = 1600"
proof -
  let ?d = "sample_detector\<lparr>dt_state := BACKGROUND_TRAINING, dt_background := replicate frame_cells 0\<rparr>"
  let ?b = "replicate frame_cells (800 :: u16)"
  have "fst sample_frame \<noteq> []" by (simp add: sample_frame_def)
  moreover have "0 < frame_cells" by (simp add: frame_cells_def FREENECT_IR_FRAME_H_def FREENECT_FRAME_W_def)
  moreover have "sint (800 :: u16) = 800" by simp
  ultimately show ?thesis
    using training_accumulates_uncounted [OF sample_cv_facts(2), of ?d "[?b, ?b]" sample_frame]
    by (auto simp: sample_detector_def)
qed

end
