(* ===== verification/FrameHandoff.thy ===== *)
theory FrameHandoff
  imports CameraProofs
begin

text \<open>
  How frames get from libfreenect to the processing thread: the callbacks of \<open>stouchFreenect.h\<close>, the
  three buffers of \<open>stouchDetector.cpp\<close> with the two sides of the exchange (\<open>processDepth\<close>,
  \<open>processVideo\<close> and \<open>copyBuffers\<close>), the loop of the thread and its end, and the frame rate.

  A \<open>std::vector\<close> is its storage, a block of the heap, and its size in bytes; depth and video work
  alike, with their own buffers, and each buffer is set in the packet stream of \<open>PacketStream\<close>.
  Each step runs under \<open>backBufMutex\<close>, so an interleaving of the threads is a sequence of steps.
  \<open>None\<close> is an access outside a block, or a second release.
\<close>

section \<open>Buffers\<close>

record vec =
  v_data :: ptr
  v_size :: nat

text \<open>One kind of frame: the stream that fills the buffer, the three vectors and the counter.\<close>

record frame_side =
  fs_stream :: packet_stream
  fs_back :: vec
  fs_mid :: vec
  fs_front :: vec
  fs_got :: int

type_synonym side_state = "frame_side \<times> heap"

definition FREENECT_FRAME_PIX :: nat where "FREENECT_FRAME_PIX = 480 * 640"
definition FREENECT_VIDEO_RGB_SIZE :: nat where "FREENECT_VIDEO_RGB_SIZE = FREENECT_FRAME_PIX * 3"
definition FREENECT_DEPTH_11BIT_SIZE :: nat where "FREENECT_DEPTH_11BIT_SIZE = FREENECT_FRAME_PIX * 2"

text \<open>Elements of the vectors, and the bytes they take.\<close>

definition VideoBufferSizeRGB :: nat where "VideoBufferSizeRGB = FREENECT_VIDEO_RGB_SIZE"
definition DepthBufferSize :: nat where "DepthBufferSize = FREENECT_DEPTH_11BIT_SIZE"
definition depth_vec_bytes :: nat where "depth_vec_bytes = 2 * DepthBufferSize"
definition video_vec_bytes :: nat where "video_vec_bytes = VideoBufferSizeRGB"

text \<open>The constructor reserves storage for the three vectors.\<close>

definition reserve_side :: "nat \<Rightarrow> packet_stream \<Rightarrow> heap \<Rightarrow> side_state" where
  "reserve_side n s h =
     (let (a, h1) = malloc n h; (b, h2) = malloc n h1; (c, h3) = malloc n h2
      in (\<lparr>fs_stream = s, fs_back = \<lparr>v_data = a, v_size = 0\<rparr>, fs_mid = \<lparr>v_data = b, v_size = 0\<rparr>,
           fs_front = \<lparr>v_data = c, v_size = 0\<rparr>, fs_got = 0\<rparr>, h3))"

text \<open>\<open>processDepth\<close> and \<open>processVideo\<close>: swap, hand the back buffer to the driver, keep a copy.\<close>

definition process_frame_data :: "bytes \<Rightarrow> side_state \<Rightarrow> side_state option" where
  "process_frame_data data st =
     (let (d, h) = st; back = fs_mid d; mid = fs_back d;
          (res, s) = stream_setbuf (fs_stream d) (v_data back);
          (p, h1) = malloc (length data) h; h2 = store p data h1
      in map_option (\<lambda>h3. (d\<lparr>fs_stream := s, fs_back := back, fs_mid := \<lparr>v_data = p, v_size = length data\<rparr>,
                             fs_got := fs_got d + 1\<rparr>, h3))
           (free (v_data mid) h2))"

text \<open>The callbacks: a vector of fixed size is made of the buffer, its copy goes to the detector.\<close>

definition frame_callback :: "nat \<Rightarrow> side_state \<Rightarrow> side_state option" where
  "frame_callback n st =
     (case mem_read (ps_proc_buf (fs_stream (fst st))) 0 n (snd st) of None \<Rightarrow> None
      | Some data \<Rightarrow> process_frame_data data st)"

definition DepthCallback :: "side_state \<Rightarrow> side_state option" where
  "DepthCallback = frame_callback depth_vec_bytes"

definition VideoCallback :: "side_state \<Rightarrow> side_state option" where
  "VideoCallback = frame_callback video_vec_bytes"

text \<open>One side of \<open>copyBuffers\<close>, which returns the counter.\<close>

definition copy_side :: "frame_side \<Rightarrow> int \<times> frame_side" where
  "copy_side d = (fs_got d, if fs_got d \<noteq> 0 then d\<lparr>fs_front := fs_mid d, fs_mid := fs_front d, fs_got := 0\<rparr> else d)"

definition copyBuffers :: "frame_side \<times> frame_side \<Rightarrow> (int \<times> int) \<times> frame_side \<times> frame_side" where
  "copyBuffers ds = (let (gotDepth, d) = copy_side (fst ds); (gotVideo, v) = copy_side (snd ds)
                     in ((gotDepth, gotVideo), (d, v)))"

section \<open>Frame rate\<close>

record frame_rate =
  fr_frames :: int
  fr_fps :: int
  fr_last :: "int \<times> int"

text \<open>\<open>timersub\<close> on seconds and microseconds.\<close>

definition timersub :: "int \<times> int \<Rightarrow> int \<times> int \<Rightarrow> int \<times> int" where
  "timersub a b = (if snd a - snd b < 0 then (fst a - fst b - 1, snd a - snd b + 1000000)
                   else (fst a - fst b, snd a - snd b))"

definition measureTime :: "int \<times> int \<Rightarrow> int \<times> int \<Rightarrow> int \<Rightarrow> int \<Rightarrow> frame_rate \<Rightarrow> frame_rate" where
  "measureTime now later gotDepth gotVideo m =
     (let m1 = m\<lparr>fr_frames := fr_frames m + (gotDepth + gotVideo)\<rparr>
      in if fst (timersub now (fr_last m)) > 0
         then m1\<lparr>fr_fps := fr_frames m1, fr_frames := 0, fr_last := later\<rparr> else m1)"

section \<open>The processing thread\<close>

datatype thread_pc = Loop_Top | Waiting | Processing | Finished

record thread =
  th_pc :: thread_pc
  th_die :: bool
  th_got_depth :: bool
  th_got_video :: bool

text \<open>The steps of \<open>processData\<close>; the condition variable is signalled by the frames only.\<close>

inductive thread_step :: "thread \<Rightarrow> thread \<Rightarrow> bool" where
  Leave: "th_pc t = Loop_Top \<Longrightarrow> th_die t \<Longrightarrow> thread_step t (t\<lparr>th_pc := Finished\<rparr>)"
| Enter: "th_pc t = Loop_Top \<Longrightarrow> \<not> th_die t \<Longrightarrow> thread_step t (t\<lparr>th_pc := Waiting\<rparr>)"
| Take: "th_pc t = Waiting \<Longrightarrow> th_got_depth t \<Longrightarrow> th_got_video t \<Longrightarrow>
     thread_step t (t\<lparr>th_pc := Processing, th_got_depth := False, th_got_video := False\<rparr>)"
| Process: "th_pc t = Processing \<Longrightarrow> thread_step t (t\<lparr>th_pc := Loop_Top\<rparr>)"

text \<open>\<open>cleanupEnv\<close> deletes the driver and then the detector, whose destructor sets the flag and joins.\<close>

definition request_stop :: "thread \<Rightarrow> thread" where
  "request_stop t = t\<lparr>th_die := True\<rparr>"

inductive_cases thread_stepE: "thread_step t t'"

section \<open>Exchange of buffers\<close>

text \<open>Three different blocks of the client, and the driver never has the middle or front one.\<close>

definition side_inv :: "nat \<Rightarrow> side_state \<Rightarrow> bool" where
  "side_inv n st \<longleftrightarrow>
     (let (d, h) = st; B = v_data (fs_back d); M = v_data (fs_mid d); F = v_data (fs_front d);
          P = ps_proc_buf (fs_stream d)
      in heap_wf h \<and> ps_running (fs_stream d) \<and> distinct [B, M, F] \<and> block_at_least h B n \<and> block_at_least h M n
         \<and> block_at_least h F n \<and> block_at_least h P n \<and> P \<noteq> M \<and> P \<noteq> F \<and> 0 \<le> fs_got d)"

text \<open>The driver writes a frame; a callback; the exchange by the thread.\<close>

inductive side_step :: "nat \<Rightarrow> side_state \<Rightarrow> side_state \<Rightarrow> bool" for n where
  Driver_Write: "blocks h (ps_proc_buf (fs_stream d)) = Some b \<Longrightarrow> length b' = length b \<Longrightarrow>
     side_step n (d, h) (d, store (ps_proc_buf (fs_stream d)) b' h)"
| Callback: "frame_callback n st = Some st' \<Longrightarrow> side_step n st st'"
| Copy: "copy_side d = (got, d') \<Longrightarrow> side_step n (d, h) (d', h)"

lemma block_at_least_live: "block_at_least h p n \<Longrightarrow> heap_wf h \<Longrightarrow> p < next_ptr h \<and> p \<noteq> NULL \<and> blocks h p \<noteq> None"
proof -
  assume a: "block_at_least h p n" "heap_wf h"
  then have "blocks h p \<noteq> None" by (auto simp: block_at_least_def block_size_def)
  moreover from this have "p < next_ptr h" "p \<noteq> NULL" using a(2) unfolding heap_wf_def by (metis not_le)+
  ultimately show ?thesis by blast
qed

lemma process_frame_data_ok:
  assumes "side_inv n (d, h)" and "n \<le> length data"
  shows "\<exists>d' h'. process_frame_data data (d, h) = Some (d', h') \<and> side_inv n (d', h')
     \<and> fs_front d' = fs_front d \<and> blocks h' (v_data (fs_mid d')) = Some data \<and> 0 < fs_got d'
     \<and> (\<forall>q. q \<noteq> v_data (fs_mid d') \<longrightarrow> q \<noteq> v_data (fs_back d) \<longrightarrow> blocks h' q = blocks h q)"
proof -
  let ?B = "v_data (fs_back d)" and ?M = "v_data (fs_mid d)" and ?F = "v_data (fs_front d)"
  have inv: "heap_wf h" "ps_running (fs_stream d)" "distinct [?B, ?M, ?F]" "block_at_least h ?B n" "block_at_least h ?M n"
    "block_at_least h ?F n" "0 \<le> fs_got d" using assms(1) by (simp_all add: side_inv_def Let_def)
  note live = block_at_least_live [OF inv(4,1)] block_at_least_live [OF inv(5,1)] block_at_least_live [OF inv(6,1)]
  obtain p h1 where m: "malloc (length data) h = (p, h1)" by fastforce
  then have p: "p = next_ptr h" "p \<noteq> NULL" "p \<noteq> ?B" "p \<noteq> ?M" "p \<noteq> ?F" using live inv(1) by (auto simp: malloc_def heap_wf_def)
  define h2 where "h2 = store p data h1"
  have b2: "blocks h2 q = (if q = p then Some data else blocks h q)" for q
    using malloc_other [OF m, of q] by (simp add: h2_def store_def)
  obtain h3 where f: "free ?B h2 = Some h3" using free_ok [of ?B h2] live(1) b2 [of ?B] p(3) by (auto simp: domIff)
  have b3: "blocks h3 q = (if q = ?B then None else blocks h2 q)" for q
    using free_other [OF f, of q] free_removes [OF f] live(1) by simp
  have "blocks h1 p \<noteq> None" using m by (auto simp: malloc_def)
  then have "heap_wf h2" unfolding h2_def by (rule store_wf [OF malloc_wf [OF inv(1) m]])
  then have wf: "heap_wf h3" by (rule free_wf [OF _ f])
  obtain res s where s: "stream_setbuf (fs_stream d) ?M = (res, s)" by fastforce
  then have sp: "ps_running s" "ps_proc_buf s = ?M" using inv(2) live(2) by (auto simp: stream_setbuf_def Let_def split: if_splits)
  let ?d = "d\<lparr>fs_stream := s, fs_back := fs_mid d, fs_mid := \<lparr>v_data = p, v_size = length data\<rparr>, fs_got := fs_got d + 1\<rparr>"
  have keep: "block_at_least h3 q n" if "block_at_least h q n" "q \<noteq> p" "q \<noteq> ?B" for q
    using that by (simp add: block_at_least_def block_size_def b3 b2)
  have "block_at_least h3 p n" using p(3) assms(2) by (simp add: block_at_least_def block_size_def b3 b2)
  then have "side_inv n (?d, h3)"
    using wf sp inv(3,7) p keep [OF inv(5)] keep [OF inv(6)] by (simp add: side_inv_def Let_def)
  moreover have "process_frame_data data (d, h) = Some (?d, h3)"
    by (simp add: process_frame_data_def s m f h2_def [symmetric])
  moreover have "blocks h3 p = Some data" using p(3) by (simp add: b3 b2)
  ultimately show ?thesis using inv(7) by (intro exI [of _ ?d] exI [of _ h3]) (simp add: b3 b2)
qed


lemma frame_callback_ok:
  assumes "side_inv n (d, h)"
  shows "\<exists>data d' h'. mem_read (ps_proc_buf (fs_stream d)) 0 n h = Some data \<and> length data = n
     \<and> frame_callback n (d, h) = Some (d', h') \<and> side_inv n (d', h')
     \<and> fs_front d' = fs_front d \<and> blocks h' (v_data (fs_mid d')) = Some data \<and> 0 < fs_got d'
     \<and> (\<forall>q. q \<noteq> v_data (fs_mid d') \<longrightarrow> q \<noteq> v_data (fs_back d) \<longrightarrow> blocks h' q = blocks h q)"
proof -
  have "block_at_least h (ps_proc_buf (fs_stream d)) n" using assms by (simp add: side_inv_def Let_def)
  then obtain k where "block_size h (ps_proc_buf (fs_stream d)) = Some k" "n \<le> k"
    by (auto simp: block_at_least_def)
  then obtain data where d: "mem_read (ps_proc_buf (fs_stream d)) 0 n h = Some data" "length data = n"
    using mem_read_ok [of h _ k 0 n] by auto
  obtain d' h' where e: "process_frame_data data (d, h) = Some (d', h')" "side_inv n (d', h')" "fs_front d' = fs_front d"
      "blocks h' (v_data (fs_mid d')) = Some data" "0 < fs_got d'"
      "\<forall>q. q \<noteq> v_data (fs_mid d') \<longrightarrow> q \<noteq> v_data (fs_back d) \<longrightarrow> blocks h' q = blocks h q"
    using process_frame_data_ok [OF assms, of data] d(2) by blast
  show ?thesis using d e by (intro exI [of _ data] exI [of _ d'] exI [of _ h']) (simp add: frame_callback_def)
qed

text \<open>A step keeps the invariant, and the bytes of a front buffer that it does not exchange.\<close>

lemma side_step_keeps:
  assumes "side_step n st st'" and "side_inv n st"
  shows "side_inv n st' \<and> (fs_front (fst st') = fs_front (fst st) \<longrightarrow>
     blocks (snd st') (v_data (fs_front (fst st))) = blocks (snd st) (v_data (fs_front (fst st))))"
  using assms
proof cases
  case (Driver_Write h d b b')
  then have "side_inv n (d, store (ps_proc_buf (fs_stream d)) b' h)"
    using assms(2) store_wf [of h "ps_proc_buf (fs_stream d)" b']
    by (simp add: side_inv_def Let_def block_at_least_def store_block_size block_size_def store_def)
  moreover have "v_data (fs_front d) \<noteq> ps_proc_buf (fs_stream d)"
    using assms(2) unfolding Driver_Write by (simp add: side_inv_def Let_def)
  ultimately show ?thesis by (simp add: Driver_Write store_other)
next
  case Callback
  obtain d h where st: "st = (d, h)" by fastforce
  obtain data d' h' where e: "frame_callback n (d, h) = Some (d', h')" "side_inv n (d', h')" "fs_front d' = fs_front d"
      "\<forall>q. q \<noteq> v_data (fs_mid d') \<longrightarrow> q \<noteq> v_data (fs_back d) \<longrightarrow> blocks h' q = blocks h q"
    using frame_callback_ok [OF assms(2) [unfolded st]] by blast
  have "v_data (fs_front d') \<noteq> v_data (fs_mid d')" "v_data (fs_front d) \<noteq> v_data (fs_back d)"
    using e(2) assms(2) by (auto simp: st side_inv_def Let_def)
  moreover have "st' = (d', h')" using Callback e(1) by (simp add: st)
  ultimately show ?thesis using e by (simp add: st)
next
  case (Copy d got d' h)
  then have "side_inv n (d', h)" using assms(2)
    by (cases "fs_got d = 0") (auto simp: copy_side_def side_inv_def Let_def)
  then show ?thesis by (simp add: Copy)
qed

text \<open>The detector reserves its vectors before the stream is started.  The stream's own buffer is
  then a new block of the length of a frame.\<close>

lemma reserve_side_blocks:
  assumes "heap_wf h" "reserve_side n s h = (d, h')"
  shows "heap_wf h'" "fs_got d = 0" "distinct [v_data (fs_back d), v_data (fs_mid d), v_data (fs_front d)]"
    "q \<in> {v_data (fs_back d), v_data (fs_mid d), v_data (fs_front d)} \<Longrightarrow> block_size h' q = Some n"
proof -
  obtain a h1 where a: "malloc n h = (a, h1)" by fastforce
  obtain b h2 where b: "malloc n h1 = (b, h2)" by fastforce
  obtain c h3 where c: "malloc n h2 = (c, h3)" by fastforce
  have d: "d = \<lparr>fs_stream = s, fs_back = \<lparr>v_data = a, v_size = 0\<rparr>, fs_mid = \<lparr>v_data = b, v_size = 0\<rparr>,
      fs_front = \<lparr>v_data = c, v_size = 0\<rparr>, fs_got = 0\<rparr>" "h' = h3"
    using assms(2) by (simp_all add: reserve_side_def a b c)
  show "heap_wf h'" using malloc_wf [OF assms(1) a] malloc_wf [OF _ b] malloc_wf [OF _ c] d(2) by blast
  have "a = next_ptr h" "b = Suc a" "c = Suc b" using a b c by (auto simp: malloc_def)
  then show "fs_got d = 0" "distinct [v_data (fs_back d), v_data (fs_mid d), v_data (fs_front d)]" by (simp_all add: d)
  show "q \<in> {v_data (fs_back d), v_data (fs_mid d), v_data (fs_front d)} \<Longrightarrow> block_size h' q = Some n"
    using malloc_block_size [OF a, of q] malloc_block_size [OF b, of q] malloc_block_size [OF c, of q] by (auto simp: d)
qed

lemma stream_init_lib_buffer:
  assumes "stream_init h s rlen plen = (s', h')" "ps_usr_buf s = NULL" "heap_wf h"
  shows "block_size h' (ps_proc_buf s') = Some (nat plen)" "ps_proc_buf s' = next_ptr h" "heap_wf h'"
    "q < next_ptr h \<Longrightarrow> blocks h' q = blocks h q"
proof -
  obtain p h1 where m: "malloc (nat plen) h = (p, h1)" by fastforce
  obtain r h2 where m2: "malloc (nat rlen) h1 = (r, h2)" by fastforce
  have p: "block_size h1 p = Some (nat plen)" "p = next_ptr h" using malloc_block_size [OF m] m by (auto simp: malloc_def)
  then have "block_size h2 p = Some (nat plen)"
    using malloc_block_size [OF m2, of p] malloc_fresh [OF malloc_wf [OF assms(3) m] m2] by (auto simp: block_size_def)
  moreover have e: "ps_proc_buf s' = p \<and> h' = (if rlen = 0 then h1 else h2)"
    using assms(1,2) by (auto simp add: stream_init_def stream_init_bufs_def stream_init_pkts_def m m2 Let_def split: if_splits)
  ultimately show "block_size h' (ps_proc_buf s') = Some (nat plen)" "ps_proc_buf s' = next_ptr h" using p by simp_all
  show "heap_wf h'" using e malloc_wf [OF assms(3) m] malloc_wf [OF _ m2] by auto
  have "r = Suc (next_ptr h)" using m m2 by (auto simp: malloc_def)
  then show "q < next_ptr h \<Longrightarrow> blocks h' q = blocks h q"
    using e malloc_other [OF m, of q] malloc_other [OF m2, of q] p(2) by auto
qed

lemma started_side_inv:
  assumes "heap_wf h" "reserve_side n s0 h = (d, h0)" "stream_init h0 s rlen plen = (s', h1)" "ps_usr_buf s = NULL"
    "n \<le> nat plen" "ps_running s1" "ps_proc_buf s1 = ps_proc_buf s'"
  shows "side_inv n (d\<lparr>fs_stream := s1\<rparr>, h1)"
proof -
  note res = reserve_side_blocks [OF assms(1,2)]
  note new = stream_init_lib_buffer [OF assms(3,4) res(1)]
  let ?V = "{v_data (fs_back d), v_data (fs_mid d), v_data (fs_front d)}"
  have old: "q < next_ptr h0 \<and> block_at_least h1 q n" if "q \<in> ?V" for q
  proof -
    have q: "block_size h0 q = Some n" using res(4) [OF that] .
    then have lt: "q < next_ptr h0" using block_at_least_live [of h0 q n] res(1) by (simp add: block_at_least_def)
    with new(4) [OF lt] q show ?thesis by (auto simp: block_at_least_def block_size_def)
  qed
  have "next_ptr h0 \<notin> ?V" using old by blast
  then show ?thesis using res(2,3) new(1-3) old assms(5-7) by (auto simp: side_inv_def Let_def block_at_least_def)
qed

lemma side_reach_inv: "(side_step n)\<^sup>*\<^sup>* st st' \<Longrightarrow> side_inv n st \<Longrightarrow> side_inv n st'"
  by (induction rule: rtranclp_induct) (use side_step_keeps in blast)+

lemma start_video_side_inv:
  assumes "freenect_start_video env (dev, h0) = Some (0, (dev', h1))" "heap_wf h"
    "reserve_side video_vec_bytes (fd_video dev) h = (d, h0)" "ps_usr_buf (fd_video dev) = NULL"
    "fd_video_format dev = VIDEO_RGB" "fd_video_resolution dev = RESOLUTION_MEDIUM"
  shows "side_inv video_vec_bytes (d\<lparr>fs_stream := fd_video dev'\<rparr>, h1)"
proof -
  from assms(1) obtain dev1 regs dev2 dev3 res istrm rvs dev5 where
    d1: "dev1 = dev\<lparr>fd_video := (fd_video dev)\<lparr>ps_pkt_size := VIDEO_PKTDSIZE, ps_flag := 0x80, ps_variable_length := False\<rparr>\<rparr>"
    and wr: "write_registers env (if is_ir_high (fd_video_format dev) (fd_video_resolution dev) then ir_high_regs else []) dev1 = Some dev2"
    and st: "start_video_stream env (dev2, h0) = (dev3, h1)"
    and wr5: "write_registers env rvs (dev3\<lparr>fd_video_isoc := istrm\<rparr>) = Some dev5"
    and d': "dev' = dev5\<lparr>fd_video := (fd_video dev5)\<lparr>ps_running := True\<rparr>\<rparr>"
    by (rule freenect_start_video_cases)
  note f2 = write_registers_fields [OF wr]
  have fmt: "fd_video_format dev2 = VIDEO_RGB" "fd_video_resolution dev2 = RESOLUTION_MEDIUM" "ps_usr_buf (fd_video dev2) = NULL"
    using assms(4-6) by (simp_all add: f2 d1)
  have "frame_dims (freenect_get_current_video_mode env dev2) = (921600, 640, 480)"
    by (simp add: freenect_get_current_video_mode_def fmt video_dims)
  then have "fm_bytes (freenect_get_current_video_mode env dev2) = 921600" by (simp add: frame_dims_def)
  note init = start_video_stream_init(1) [OF st, unfolded fmt(1) this]
  show ?thesis
    by (rule started_side_inv [OF assms(2,3) init fmt(3)])
      (simp_all add: d' write_registers_fields [OF wr5] video_vec_bytes_def VideoBufferSizeRGB_def FREENECT_VIDEO_RGB_SIZE_def
        FREENECT_FRAME_PIX_def)
qed

text \<open>In any such state the callback reads the driver's frame and succeeds, an exchange after it
  puts that frame in front, and no step changes the front buffer the thread reads unless it
  exchanges it.\<close>

lemma exchange_safe:
  assumes "side_inv n (d, h)"
  shows "\<exists>data d1 h1. mem_read (ps_proc_buf (fs_stream d)) 0 n h = Some data
     \<and> frame_callback n (d, h) = Some (d1, h1)
     \<and> blocks h1 (v_data (fs_front (snd (copy_side d1)))) = Some data
     \<and> (\<forall>d2 h2. side_step n (d, h) (d2, h2) \<and> fs_front d2 = fs_front d \<longrightarrow>
          blocks h2 (v_data (fs_front d)) = blocks h (v_data (fs_front d)))"
proof -
  obtain data d1 h1 where e: "mem_read (ps_proc_buf (fs_stream d)) 0 n h = Some data"
      "frame_callback n (d, h) = Some (d1, h1)" "blocks h1 (v_data (fs_mid d1)) = Some data" "0 < fs_got d1"
    using frame_callback_ok [OF assms] by blast
  have "blocks h2 (v_data (fs_front d)) = blocks h (v_data (fs_front d))"
    if "side_step n (d, h) (d2, h2) \<and> fs_front d2 = fs_front d" for d2 h2
    using side_step_keeps [OF conjunct1 [OF that] assms] conjunct2 [OF that] by simp
  moreover have "fs_front (snd (copy_side d1)) = fs_mid d1" using e(4) by (simp add: copy_side_def)
  ultimately show ?thesis using e(1-3) by (intro exI [of _ data] exI [of _ d1] exI [of _ h1]) simp
qed

text \<open>C33: The handoff of video frames.  The detector reserves its three vectors, then the stream is
  started by \<open>freenect_start_video\<close> as the application does it: RGB at medium resolution,
  without a buffer of the client.  Whatever the order of frame writes, callbacks and buffer
  exchanges from then on: the next \<open>VideoCallback\<close> reads the driver's frame inside its buffer and succeeds,
  an exchange after it puts exactly the frame that was read in front, and no step changes
  the bytes of the front buffer the processing thread reads unless it exchanges that buffer.\<close>

theorem handoff_is_safe:
  assumes "video_client_ok env (dev, h)" "ps_usr_buf (fd_video dev) = NULL"
    "fd_video_format dev = VIDEO_RGB" "fd_video_resolution dev = RESOLUTION_MEDIUM"
    and "reserve_side video_vec_bytes (fd_video dev) h = (v0, h0)"
    and "freenect_start_video env (dev, h0) = Some (0, (dev', h1))"
    and "(side_step video_vec_bytes)\<^sup>*\<^sup>* (v0\<lparr>fs_stream := fd_video dev'\<rparr>, h1) (v, h')"
  shows "\<exists>data v1 h2. mem_read (ps_proc_buf (fs_stream v)) 0 video_vec_bytes h' = Some data
     \<and> VideoCallback (v, h') = Some (v1, h2)
     \<and> blocks h2 (v_data (fs_front (snd (copy_side v1)))) = Some data
     \<and> (\<forall>v3 h3. side_step video_vec_bytes (v, h') (v3, h3) \<and> fs_front v3 = fs_front v \<longrightarrow>
          blocks h3 (v_data (fs_front v)) = blocks h' (v_data (fs_front v)))"
proof -
  have wf: "heap_wf h" using assms(1) by (simp add: video_client_ok_def Let_def)
  have "side_inv video_vec_bytes (v0\<lparr>fs_stream := fd_video dev'\<rparr>, h1)"
    by (rule start_video_side_inv [OF assms(6) wf assms(5,2-4)])
  from exchange_safe [OF side_reach_inv [OF assms(7) this]] show ?thesis unfolding VideoCallback_def .
qed

section \<open>End of the thread\<close>

text \<open>After the detector asks for it (with the driver gone, so no frame comes) the processing thread
  can end if and only if it is not in the wait for a depth and a video frame with one of them missing.\<close>

lemma thread_ends_iff_frames_there:
  "(\<exists>t'. thread_step\<^sup>*\<^sup>* (request_stop t) t' \<and> th_pc t' = Finished) \<longleftrightarrow>
     \<not> (th_pc t = Waiting \<and> \<not> (th_got_depth t \<and> th_got_video t))"
proof
  assume "\<exists>t'. thread_step\<^sup>*\<^sup>* (request_stop t) t' \<and> th_pc t' = Finished"
  then obtain t' where t': "thread_step\<^sup>*\<^sup>* (request_stop t) t'" "th_pc t' = Finished" by blast
  show "\<not> (th_pc t = Waiting \<and> \<not> (th_got_depth t \<and> th_got_video t))"
  proof
    assume "th_pc t = Waiting \<and> \<not> (th_got_depth t \<and> th_got_video t)"
    then have "\<not> thread_step (request_stop t) u" for u by (auto simp: request_stop_def elim: thread_stepE)
    then have "t' = request_stop t" using t'(1) by (metis converse_rtranclpE)
    then show False using t'(2) \<open>th_pc t = Waiting \<and> _\<close> by (simp add: request_stop_def)
  qed
next
  assume ok: "\<not> (th_pc t = Waiting \<and> \<not> (th_got_depth t \<and> th_got_video t))"
  have top: "thread_step\<^sup>*\<^sup>* u (u\<lparr>th_pc := Finished\<rparr>)" if "th_die u" "th_pc u = Loop_Top" for u
    by (rule r_into_rtranclp, rule Leave) (use that in simp_all)
  have process: "\<exists>u'. thread_step\<^sup>*\<^sup>* u u' \<and> th_pc u' = Finished" if "th_die u" "th_pc u = Processing" for u
  proof -
    have "thread_step\<^sup>*\<^sup>* u ((u\<lparr>th_pc := Loop_Top\<rparr>)\<lparr>th_pc := Finished\<rparr>)"
      by (rule converse_rtranclp_into_rtranclp [OF Process [OF that(2)] top]) (simp_all add: that(1))
    then show ?thesis by (intro exI [of _ "(u\<lparr>th_pc := Loop_Top\<rparr>)\<lparr>th_pc := Finished\<rparr>"]) simp
  qed
  show "\<exists>t'. thread_step\<^sup>*\<^sup>* (request_stop t) t' \<and> th_pc t' = Finished"
  proof (cases "th_pc t")
    case Loop_Top
    then show ?thesis using top [of "request_stop t"] by (intro exI, intro conjI) (auto simp: request_stop_def)
  next
    case Waiting
    let ?u = "(request_stop t)\<lparr>th_pc := Processing, th_got_depth := False, th_got_video := False\<rparr>"
    have "thread_step (request_stop t) ?u" by (rule Take) (use Waiting ok in \<open>simp_all add: request_stop_def\<close>)
    moreover obtain u' where "thread_step\<^sup>*\<^sup>* ?u u'" "th_pc u' = Finished"
      using process [of ?u] by (auto simp: request_stop_def)
    ultimately show ?thesis by (meson converse_rtranclp_into_rtranclp)
  next
    case Processing
    then show ?thesis using process [of "request_stop t"] by (simp add: request_stop_def)
  next
    case Finished
    then show ?thesis by (intro exI [of _ "request_stop t"]) (simp add: request_stop_def)
  qed
qed


section \<open>The first frames\<close>

text \<open>The depth buffer is counted twice.  A stream that has started without a client buffer (as the
  application starts it) hands out the library's buffer of at most 614400 bytes, from which the callback
  constructs a vector of \<open>DepthBufferSize\<close> elements of two bytes: the first depth callback reads past the
  end of the buffer, whatever the frame.\<close>

lemma first_depth_callback_overreads:
  assumes "freenect_start_depth env (dev, h) = Some (0, (dev', h'))" "depth_client_ok env (dev, h)"
    and "ps_usr_buf (fd_depth dev) = NULL"
    and "fs_stream d = fd_depth dev'" "block_size h1 (ps_proc_buf (fd_depth dev')) = block_size h' (ps_proc_buf (fd_depth dev'))"
  shows "DepthCallback (d, h1) = None"
proof -
  obtain dev1 dev2 res istrm dev4 where
    d1: "dev1 = dev\<lparr>fd_depth := (fd_depth dev)\<lparr>ps_pkt_size := DEPTH_PKTDSIZE, ps_flag := 0x70, ps_variable_length := False\<rparr>\<rparr>"
    and d2: "start_depth_stream env (dev1, h) = Some (Some (dev2, h'))"
    and wr: "write_registers env (depth_start_regs (fd_depth_format dev2)) (dev2\<lparr>fd_depth_isoc := istrm\<rparr>) = Some dev4"
    and d': "dev' = dev4\<lparr>fd_depth := (fd_depth dev4)\<lparr>ps_running := True\<rparr>\<rparr>"
    using assms(1) by (rule freenect_start_depth_cases)
  have c1: "depth_client_ok env (dev1, h)" using assms(2) by (simp add: d1 depth_client_ok_def Let_def)
  have wf: "heap_wf h" using assms(2) by (simp add: depth_client_ok_def Let_def)
  have "block_size h' (ps_proc_buf (fd_depth dev2)) = Some (nat (snd (depth_lens (fd_depth_format dev1))))"
  proof (rule stream_init_lib_buffer(1) [OF _ _ wf])
    show "stream_init h (fd_depth dev1) (fst (depth_lens (fd_depth_format dev1))) (snd (depth_lens (fd_depth_format dev1))) =
        (fd_depth dev2, h')"
      using start_depth_stream_started [OF d2 c1] unfolding started_def by blast
    show "ps_usr_buf (fd_depth dev1) = NULL" using assms(3) by (simp add: d1)
  qed
  moreover have "ps_proc_buf (fd_depth dev') = ps_proc_buf (fd_depth dev2)"
    by (simp add: d' write_registers_fields [OF wr])
  moreover have "nat (snd (depth_lens f)) \<le> 614400" for f by (cases f) simp_all
  ultimately obtain b where "blocks h1 (ps_proc_buf (fs_stream d)) = Some b" "length b \<le> 614400"
    using assms(4,5) by (auto simp: block_size_def)
  then show ?thesis
    by (simp add: DepthCallback_def frame_callback_def mem_read_def get_bytes_def depth_vec_bytes_def DepthBufferSize_def
        FREENECT_DEPTH_11BIT_SIZE_def FREENECT_FRAME_PIX_def)
qed


section \<open>Concrete instances\<close>

definition flat_frame :: bytes where
  "flat_frame = replicate video_vec_bytes 7"

theorem handoff_is_safe_witness:
  "\<exists>v0 h0 dev' h1 h' v1 h2. reserve_side video_vec_bytes (fd_video sample_dev) sample_heap = (v0, h0)
     \<and> freenect_start_video sample_env (sample_dev, h0) = Some (0, (dev', h1))
     \<and> side_step video_vec_bytes (v0\<lparr>fs_stream := fd_video dev'\<rparr>, h1) (v0\<lparr>fs_stream := fd_video dev'\<rparr>, h')
     \<and> VideoCallback (v0\<lparr>fs_stream := fd_video dev'\<rparr>, h') = Some (v1, h2)
     \<and> blocks h2 (v_data (fs_front (snd (copy_side v1)))) = Some flat_frame"
proof -
  have dev: "ps_usr_buf (fd_video sample_dev) = NULL" "fd_video_format sample_dev = VIDEO_RGB"
    "fd_video_resolution sample_dev = RESOLUTION_MEDIUM" by (simp_all add: sample_dev_def sample_stream_def)
  obtain v0 h0 where r: "reserve_side video_vec_bytes (fd_video sample_dev) sample_heap = (v0, h0)" by fastforce
  obtain dev' h1 where s: "freenect_start_video sample_env (sample_dev, h0) = Some (0, (dev', h1))" by (rule sample_start_video)
  let ?v = "v0\<lparr>fs_stream := fd_video dev'\<rparr>" and ?P = "ps_proc_buf (fd_video dev')"
  have "side_inv video_vec_bytes (?v, h1)" by (rule start_video_side_inv [OF s sample_heap_wf r dev])
  then obtain b where b: "blocks h1 ?P = Some b" "video_vec_bytes \<le> length b"
    by (auto simp: side_inv_def Let_def block_at_least_def block_size_def)
  let ?b = "flat_frame @ drop video_vec_bytes b" and ?h = "store ?P (flat_frame @ drop video_vec_bytes b) h1"
  have len: "length flat_frame = video_vec_bytes" by (simp add: flat_frame_def)
  have step: "side_step video_vec_bytes (?v, h1) (?v, ?h)"
    using Driver_Write [of h1 ?v b ?b video_vec_bytes] b len by simp
  have "mem_read ?P 0 video_vec_bytes ?h = Some flat_frame" by (simp add: mem_read_def get_bytes_def len)
  then obtain v1 h2 where "VideoCallback (?v, ?h) = Some (v1, h2)"
      "blocks h2 (v_data (fs_front (snd (copy_side v1)))) = Some flat_frame"
    using handoff_is_safe [OF sample_video_client dev r s r_into_rtranclp [where r = "side_step video_vec_bytes", OF step]]
    by auto
  with r s step show ?thesis by blast
qed

lemma first_depth_callback_overreads_example:
  "\<exists>dev' h'. freenect_start_depth sample_env (sample_dev, sample_heap) = Some (0, (dev', h')) \<and>
     (\<forall>b m f. DepthCallback (\<lparr>fs_stream = fd_depth dev', fs_back = b, fs_mid = m, fs_front = f, fs_got = 0\<rparr>, h') = None)"
proof -
  obtain dev' h' where s: "freenect_start_depth sample_env (sample_dev, sample_heap) = Some (0, (dev', h'))"
    by (rule sample_start_depth)
  have u: "ps_usr_buf (fd_depth sample_dev) = NULL" by (simp add: sample_dev_def sample_stream_def)
  have "DepthCallback (\<lparr>fs_stream = fd_depth dev', fs_back = b, fs_mid = m, fs_front = f, fs_got = 0\<rparr>, h') = None" for b m f
    by (rule first_depth_callback_overreads [OF s sample_depth_client u]) simp_all
  with s show ?thesis by blast
qed

lemma thread_ends_iff_frames_there_example:
  "\<not> (\<exists>t'. thread_step\<^sup>*\<^sup>* (request_stop \<lparr>th_pc = Waiting, th_die = False, th_got_depth = True, th_got_video = False\<rparr>) t'
     \<and> th_pc t' = Finished)"
  by (subst thread_ends_iff_frames_there) simp

end
