(* ===== verification/UsbDesc.thy ===== *)
theory UsbDesc
  imports Prelude
begin

text \<open>
  The descriptor parser of libusb (\<open>libusb/descriptor.c\<close>): a raw configuration, as the kernel
  or the device delivered it, becomes a tree of configuration, interfaces, alternate settings
  and endpoints.  A buffer is the list of the bytes the allocation still holds from the pointer
  on, the C variable \<open>size\<close> stays an \<open>int\<close> beside it, and a read past the list is a fault
  (\<open>None\<close>).  The blocks the parser allocates are numbered; a second \<open>free\<close> of one is a fault.
  The structures carry the block numbers of their arrays beside the arrays' contents.
\<close>

section \<open>Constants\<close>

abbreviation DESC_HEADER_LENGTH :: int where "DESC_HEADER_LENGTH \<equiv> 2"
abbreviation DEVICE_DESC_LENGTH :: nat where "DEVICE_DESC_LENGTH \<equiv> 18"
abbreviation INTERFACE_DESC_LENGTH :: int where "INTERFACE_DESC_LENGTH \<equiv> 9"
abbreviation ENDPOINT_DESC_LENGTH :: u8 where "ENDPOINT_DESC_LENGTH \<equiv> 7"
abbreviation ENDPOINT_AUDIO_DESC_LENGTH :: u8 where "ENDPOINT_AUDIO_DESC_LENGTH \<equiv> 9"

abbreviation DT_DEVICE :: u8 where "DT_DEVICE \<equiv> 0x01"
abbreviation DT_CONFIG :: u8 where "DT_CONFIG \<equiv> 0x02"
abbreviation DT_STRING :: u8 where "DT_STRING \<equiv> 0x03"
abbreviation DT_INTERFACE :: u8 where "DT_INTERFACE \<equiv> 0x04"
abbreviation DT_ENDPOINT :: u8 where "DT_ENDPOINT \<equiv> 0x05"
abbreviation DT_BOS :: u8 where "DT_BOS \<equiv> 0x0f"
abbreviation DT_DEVICE_CAPABILITY :: u8 where "DT_DEVICE_CAPABILITY \<equiv> 0x10"
abbreviation DT_SS_ENDPOINT_COMPANION :: u8 where "DT_SS_ENDPOINT_COMPANION \<equiv> 0x30"

abbreviation DT_CONFIG_SIZE :: int where "DT_CONFIG_SIZE \<equiv> 9"
abbreviation DT_INTERFACE_SIZE :: int where "DT_INTERFACE_SIZE \<equiv> 9"
abbreviation DT_BOS_SIZE :: int where "DT_BOS_SIZE \<equiv> 5"
abbreviation DT_DEVICE_CAPABILITY_SIZE :: int where "DT_DEVICE_CAPABILITY_SIZE \<equiv> 3"
abbreviation DT_SS_ENDPOINT_COMPANION_SIZE :: u8 where "DT_SS_ENDPOINT_COMPANION_SIZE \<equiv> 6"

abbreviation USB_MAXENDPOINTS :: u8 where "USB_MAXENDPOINTS \<equiv> 32"
abbreviation USB_MAXINTERFACES :: u8 where "USB_MAXINTERFACES \<equiv> 32"

abbreviation ERROR_IO :: int where "ERROR_IO \<equiv> -1"
abbreviation ERROR_INVALID_PARAM :: int where "ERROR_INVALID_PARAM \<equiv> -2"
abbreviation ERROR_NOT_FOUND :: int where "ERROR_NOT_FOUND \<equiv> -5"
abbreviation ERROR_NO_MEM :: int where "ERROR_NO_MEM \<equiv> -11"

section \<open>Blocks\<close>

text \<open>The blocks in use, the number of requests made so far, and which requests are denied:
  of \<open>malloc\<close>, \<open>calloc\<close> or \<open>realloc(NULL, n)\<close> (\<open>denied\<close>), and of \<open>realloc\<close> of a live block
  (\<open>realloc_denied\<close>).  Block 0 is NULL; a block is named by the request that returned it.\<close>

record desc_heap =
  in_use :: "nat set"
  requests :: nat
  denied :: "nat \<Rightarrow> bool"
  realloc_denied :: "nat \<Rightarrow> bool"

definition request_block :: "bool \<Rightarrow> desc_heap \<Rightarrow> nat \<times> desc_heap" where
  "request_block no h = (let n = Suc (requests h) in
     if no then (0, h\<lparr>requests := n\<rparr>)
     else (n, h\<lparr>requests := n, in_use := insert n (in_use h)\<rparr>))"

definition new_block :: "desc_heap \<Rightarrow> nat \<times> desc_heap" where
  "new_block h = request_block (denied h (Suc (requests h))) h"

definition free_block :: "nat \<Rightarrow> desc_heap \<Rightarrow> desc_heap option" where
  "free_block p h =
     (if p = 0 then Some h
      else if p \<in> in_use h then Some (h\<lparr>in_use := in_use h - {p}\<rparr>) else None)"

definition usbi_reallocf :: "nat \<Rightarrow> desc_heap \<Rightarrow> (nat \<times> desc_heap) option" where
  "usbi_reallocf p h =
     (let no = (if p = 0 then denied else realloc_denied) h (Suc (requests h));
          (n, h1) = request_block no h in
     do { h2 \<leftarrow> free_block p h1; Some (n, h2) })"

section \<open>Fields\<close>

text \<open>\<open>usbi_parse_descriptor\<close> walks a format string.  \<open>memcpy\<close> of a field in host order and the
  explicit little-endian read agree on the little-endian processors the application runs on.\<close>

datatype field = FB u8 | FW u16 | FD u32 | FU bytes

fun usbi_parse_descriptor :: "string \<Rightarrow> bytes \<Rightarrow> field list option" where
  "usbi_parse_descriptor [] sp = Some []"
| "usbi_parse_descriptor (c # cp) sp =
     (if c = CHR ''b'' then
        (case sp of b # r \<Rightarrow> map_option ((#) (FB b)) (usbi_parse_descriptor cp r) | _ \<Rightarrow> None)
      else if c = CHR ''w'' then
        (case sp of b0 # b1 # r \<Rightarrow> map_option ((#) (FW (le16 b0 b1))) (usbi_parse_descriptor cp r)
         | _ \<Rightarrow> None)
      else if c = CHR ''d'' then
        (case sp of b0 # b1 # b2 # b3 # r \<Rightarrow>
           map_option ((#) (FD (le32 b0 b1 b2 b3))) (usbi_parse_descriptor cp r) | _ \<Rightarrow> None)
      else if c = CHR ''u'' then
        do { u \<leftarrow> get_bytes 0 16 sp; map_option ((#) (FU u)) (usbi_parse_descriptor cp (drop 16 sp)) }
      else usbi_parse_descriptor cp sp)"

definition parse_header :: "bytes \<Rightarrow> (u8 \<times> u8) option" where
  "parse_header buf = do {
     fs \<leftarrow> usbi_parse_descriptor ''bb'' buf;
     case fs of [FB l, FB t] \<Rightarrow> Some (l, t) | _ \<Rightarrow> None }"

section \<open>Structures\<close>

record usb_endpoint =
  ep_bLength :: u8
  ep_bDescriptorType :: u8
  bEndpointAddress :: u8
  ep_bmAttributes :: u8
  wMaxPacketSize :: u16
  bInterval :: u8
  bRefresh :: u8
  bSynchAddress :: u8
  ep_extra :: nat
  ep_extra_data :: bytes
  ep_extra_length :: int

definition zero_endpoint :: usb_endpoint where
  "zero_endpoint = \<lparr>ep_bLength = 0, ep_bDescriptorType = 0, bEndpointAddress = 0,
     ep_bmAttributes = 0, wMaxPacketSize = 0, bInterval = 0, bRefresh = 0, bSynchAddress = 0,
     ep_extra = 0, ep_extra_data = [], ep_extra_length = 0\<rparr>"

record usb_altsetting =
  if_bLength :: u8
  if_bDescriptorType :: u8
  bInterfaceNumber :: u8
  bAlternateSetting :: u8
  bNumEndpoints :: u8
  bInterfaceClass :: u8
  bInterfaceSubClass :: u8
  bInterfaceProtocol :: u8
  iInterface :: u8
  if_endpoint :: nat
  if_endpoints :: "usb_endpoint list"
  if_extra :: nat
  if_extra_data :: bytes
  if_extra_length :: int

text \<open>\<open>altsettings\<close> holds the entries \<open>num_altsetting\<close> counts; an entry that is being read and
  not counted yet is not part of it.\<close>

record usb_interface =
  altsetting :: nat
  altsettings :: "usb_altsetting list"

definition zero_interface :: usb_interface where
  "zero_interface = \<lparr>altsetting = 0, altsettings = []\<rparr>"

record usb_config =
  cf_bLength :: u8
  cf_bDescriptorType :: u8
  wTotalLength :: u16
  bNumInterfaces :: u8
  bConfigurationValue :: u8
  iConfiguration :: u8
  cf_bmAttributes :: u8
  MaxPower :: u8
  cf_interface :: nat
  cf_interfaces :: "usb_interface list"
  cf_extra :: nat
  cf_extra_data :: bytes
  cf_extra_length :: int

section \<open>Class and vendor specific descriptors\<close>

text \<open>The loop that skips foreign descriptors occurs once per level.  It ends at a standard
  descriptor or too few bytes, at a length below two, or at a length beyond the data; \<open>n\<close> is
  the number of bytes it passed.\<close>

datatype skip_end = Skip_done | Skip_invalid | Skip_short

definition proper_descriptor :: "u8 \<Rightarrow> bool" where
  "proper_descriptor t \<longleftrightarrow>
     t = DT_ENDPOINT \<or> t = DT_INTERFACE \<or> t = DT_CONFIG \<or> t = DT_DEVICE"

function skip_extra :: "bytes \<Rightarrow> int \<Rightarrow> (skip_end \<times> nat) option" where
  "skip_extra buf sz =
     (if sz < DESC_HEADER_LENGTH then Some (Skip_done, 0)
      else case parse_header buf of None \<Rightarrow> None
      | Some (len, t) \<Rightarrow>
          if uint len < DESC_HEADER_LENGTH then Some (Skip_invalid, 0)
          else if sz < uint len then Some (Skip_short, 0)
          else if proper_descriptor t then Some (Skip_done, 0)
          else case skip_extra (drop (unat len) buf) (sz - uint len) of None \<Rightarrow> None
               | Some (e, n) \<Rightarrow> Some (e, unat len + n))"
  by auto
termination by (relation "measure (\<lambda>(buf, sz). nat sz)") auto

declare skip_extra.simps [simp del]

section \<open>Endpoints\<close>

definition read_endpoint :: "u8 \<Rightarrow> bytes \<Rightarrow> usb_endpoint \<Rightarrow> usb_endpoint option" where
  "read_endpoint len buf e =
     (if ENDPOINT_AUDIO_DESC_LENGTH \<le> len then
        do { fs \<leftarrow> usbi_parse_descriptor ''bbbbwbbb'' buf;
             case fs of [FB l, FB t, FB a, FB m, FW p, FB i, FB r, FB s] \<Rightarrow>
               Some (e\<lparr>ep_bLength := l, ep_bDescriptorType := t, bEndpointAddress := a,
                       ep_bmAttributes := m, wMaxPacketSize := p, bInterval := i,
                       bRefresh := r, bSynchAddress := s\<rparr>) | _ \<Rightarrow> None }
      else
        do { fs \<leftarrow> usbi_parse_descriptor ''bbbbwb'' buf;
             case fs of [FB l, FB t, FB a, FB m, FW p, FB i] \<Rightarrow>
               Some (e\<lparr>ep_bLength := l, ep_bDescriptorType := t, bEndpointAddress := a,
                       ep_bmAttributes := m, wMaxPacketSize := p, bInterval := i\<rparr>) | _ \<Rightarrow> None })"

definition parse_endpoint ::
  "usb_endpoint \<Rightarrow> bytes \<Rightarrow> int \<Rightarrow> desc_heap \<Rightarrow> (int \<times> usb_endpoint \<times> desc_heap) option" where
  "parse_endpoint e buf sz h =
     (if sz < DESC_HEADER_LENGTH then Some (ERROR_IO, e, h)
      else do {
        (len, t) \<leftarrow> parse_header buf;
        if t \<noteq> DT_ENDPOINT then Some (0, e, h)
        else if sz < uint len then Some (0, e, h)
        else if len < ENDPOINT_DESC_LENGTH then Some (ERROR_IO, e, h)
        else do {
          e1 \<leftarrow> read_endpoint len buf e;
          let first = drop (unat len) buf;
          (stop, n) \<leftarrow> skip_extra first (sz - uint len);
          let parsed = uint len + int n;
          case stop of
            Skip_invalid \<Rightarrow> Some (ERROR_IO, e1, h)
          | Skip_short \<Rightarrow> Some (parsed, e1, h)
          | Skip_done \<Rightarrow>
              if n = 0 then Some (parsed, e1\<lparr>ep_extra := 0, ep_extra_length := 0\<rparr>, h)
              else let (p, h1) = new_block h in
                if p = 0 then Some (ERROR_NO_MEM, e1\<lparr>ep_extra := 0, ep_extra_length := 0\<rparr>, h1)
                else do {
                  bs \<leftarrow> get_bytes 0 n first;
                  Some (parsed, e1\<lparr>ep_extra := p, ep_extra_data := bs, ep_extra_length := int n\<rparr>, h1)
                } } })"

text \<open>The endpoints of one alternate setting: a negative result is an error, 0 leaves the loop
  (the code then lowers \<open>bNumEndpoints\<close> to the index), otherwise the result is the number of
  bytes used.\<close>

datatype endpoints_end = Ep_error int | Ep_stop nat | Ep_all

primrec parse_endpoints ::
  "nat \<Rightarrow> nat \<Rightarrow> bytes \<Rightarrow> int \<Rightarrow> usb_endpoint list \<Rightarrow> desc_heap
     \<Rightarrow> (endpoints_end \<times> nat \<times> usb_endpoint list \<times> desc_heap) option" where
  "parse_endpoints 0 i buf sz eps h = Some (Ep_all, 0, eps, h)"
| "parse_endpoints (Suc k) i buf sz eps h = do {
     e \<leftarrow> get_at i eps;
     (r, e1, h1) \<leftarrow> parse_endpoint e buf sz h;
     let eps1 = eps[i := e1];
     if r < 0 then Some (Ep_error r, 0, eps1, h1)
     else if r = 0 then Some (Ep_stop i, 0, eps1, h1)
     else do {
       (stop, n, eps2, h2) \<leftarrow> parse_endpoints k (Suc i) (drop (nat r) buf) (sz - r) eps1 h1;
       Some (stop, nat r + n, eps2, h2) } }"

section \<open>Clearing\<close>

definition clear_endpoint :: "usb_endpoint \<Rightarrow> desc_heap \<Rightarrow> desc_heap option" where
  "clear_endpoint e h = (if ep_extra e \<noteq> 0 then free_block (ep_extra e) h else Some h)"

primrec clear_endpoints :: "nat \<Rightarrow> nat \<Rightarrow> usb_endpoint list \<Rightarrow> desc_heap \<Rightarrow> desc_heap option" where
  "clear_endpoints 0 j eps h = Some h"
| "clear_endpoints (Suc k) j eps h = do {
     e \<leftarrow> get_at j eps;
     h1 \<leftarrow> clear_endpoint e h;
     clear_endpoints k (Suc j) eps h1 }"

definition clear_altsetting :: "usb_altsetting \<Rightarrow> desc_heap \<Rightarrow> desc_heap option" where
  "clear_altsetting a h = do {
     h1 \<leftarrow> (if if_extra a \<noteq> 0 then free_block (if_extra a) h else Some h);
     if if_endpoint a \<noteq> 0 then do {
       h2 \<leftarrow> clear_endpoints (unat (bNumEndpoints a)) 0 (if_endpoints a) h1;
       free_block (if_endpoint a) h2 }
     else Some h1 }"

primrec clear_altsettings :: "usb_altsetting list \<Rightarrow> desc_heap \<Rightarrow> desc_heap option" where
  "clear_altsettings [] h = Some h"
| "clear_altsettings (a # as) h = do { h1 \<leftarrow> clear_altsetting a h; clear_altsettings as h1 }"

definition clear_interface ::
  "usb_interface \<Rightarrow> desc_heap \<Rightarrow> (usb_interface \<times> desc_heap) option" where
  "clear_interface ui h =
     (if altsetting ui \<noteq> 0 then do {
        h1 \<leftarrow> clear_altsettings (altsettings ui) h;
        h2 \<leftarrow> free_block (altsetting ui) h1;
        Some (ui\<lparr>altsetting := 0\<rparr>, h2) }
      else Some (ui, h))"

primrec clear_interfaces :: "nat \<Rightarrow> nat \<Rightarrow> usb_interface list \<Rightarrow> desc_heap \<Rightarrow> desc_heap option" where
  "clear_interfaces 0 i uis h = Some h"
| "clear_interfaces (Suc k) i uis h = do {
     ui \<leftarrow> get_at i uis;
     (ui', h1) \<leftarrow> clear_interface ui h;
     clear_interfaces k (Suc i) uis h1 }"

definition clear_configuration :: "usb_config \<Rightarrow> desc_heap \<Rightarrow> desc_heap option" where
  "clear_configuration c h = do {
     h1 \<leftarrow> (if cf_interface c \<noteq> 0 then do {
              h1 \<leftarrow> clear_interfaces (unat (bNumInterfaces c)) 0 (cf_interfaces c) h;
              free_block (cf_interface c) h1 }
            else Some h);
     if cf_extra c \<noteq> 0 then free_block (cf_extra c) h1 else Some h1 }"

section \<open>Interfaces\<close>

definition read_altsetting :: "bytes \<Rightarrow> usb_altsetting option" where
  "read_altsetting buf = do {
     fs \<leftarrow> usbi_parse_descriptor ''bbbbbbbbb'' buf;
     case fs of [FB l, FB t, FB n, FB a, FB e, FB c, FB s, FB p, FB i] \<Rightarrow>
       Some \<lparr>if_bLength = l, if_bDescriptorType = t, bInterfaceNumber = n,
             bAlternateSetting = a, bNumEndpoints = e, bInterfaceClass = c,
             bInterfaceSubClass = s, bInterfaceProtocol = p, iInterface = i,
             if_endpoint = 0, if_endpoints = [], if_extra = 0, if_extra_data = [],
             if_extra_length = 0\<rparr> | _ \<Rightarrow> None }"

text \<open>One round of the loop of \<open>parse_interface\<close> after the checks of the interface descriptor:
  foreign descriptors, then the endpoints.  The alternate setting \<open>a\<close> is counted already.  The
  result says how many bytes were used, and whether the loop goes on to look for another
  alternate setting.\<close>

datatype alt_end = Alt_error int | Alt_return | Alt_next

definition parse_alt_body ::
  "usb_altsetting \<Rightarrow> bytes \<Rightarrow> int \<Rightarrow> desc_heap \<Rightarrow> (alt_end \<times> nat \<times> usb_altsetting \<times> desc_heap) option" where
  "parse_alt_body a buf sz h = do {
     (stop, n) \<leftarrow> skip_extra buf sz;
     case stop of
       Skip_invalid \<Rightarrow> Some (Alt_error ERROR_IO, n, a, h)
     | Skip_short \<Rightarrow> Some (Alt_return, n, a, h)
     | Skip_done \<Rightarrow> do {
         (ok, a1, h1) \<leftarrow>
           (if n = 0 then Some (True, a, h)
            else let (p, h1) = new_block h in
              if p = 0 then Some (False, a\<lparr>if_extra := 0\<rparr>, h1)
              else do { bs \<leftarrow> get_bytes 0 n buf;
                        Some (True, a\<lparr>if_extra := p, if_extra_data := bs, if_extra_length := int n\<rparr>, h1) });
         if \<not> ok then Some (Alt_error ERROR_NO_MEM, n, a1, h1)
         else if bNumEndpoints a1 = 0 then Some (Alt_next, n, a1, h1)
         else let (p, h2) = new_block h1 in
           if p = 0 then Some (Alt_error ERROR_NO_MEM, n, a1\<lparr>if_endpoint := 0\<rparr>, h2)
           else do {
             let cnt = unat (bNumEndpoints a1);
             (estop, k, eps, h3) \<leftarrow>
               parse_endpoints cnt 0 (drop n buf) (sz - int n) (replicate cnt zero_endpoint) h2;
             let a2 = a1\<lparr>if_endpoint := p, if_endpoints := eps\<rparr>;
             case estop of
               Ep_error r \<Rightarrow> Some (Alt_error r, n + k, a2, h3)
             | Ep_stop i \<Rightarrow> Some (Alt_next, n + k, a2\<lparr>bNumEndpoints := of_nat i\<rparr>, h3)
             | Ep_all \<Rightarrow> Some (Alt_next, n + k, a2, h3) } } }"

text \<open>\<open>ifp = (struct libusb_interface_descriptor *) buffer\<close>: the second and third byte of what
  follows, read only when a whole interface descriptor is left.\<close>

definition is_alternate :: "bytes \<Rightarrow> int \<Rightarrow> int \<Rightarrow> bool option" where
  "is_alternate buf sz ifnum =
     (if sz < DT_INTERFACE_SIZE then Some False
      else do { t \<leftarrow> get_at 1 buf;
                if t \<noteq> DT_INTERFACE then Some False
                else do { n \<leftarrow> get_at 2 buf; Some (uint n = ifnum) } })"

function parse_altsettings ::
  "usb_interface \<Rightarrow> int \<Rightarrow> bytes \<Rightarrow> int \<Rightarrow> int \<Rightarrow> desc_heap
     \<Rightarrow> (int \<times> usb_interface \<times> desc_heap) option" where
  "parse_altsettings ui ifnum buf sz parsed h =
     (if sz < INTERFACE_DESC_LENGTH then Some (parsed, ui, h)
      else do {
        (p, h1) \<leftarrow> usbi_reallocf (altsetting ui) h;
        if p = 0 then do {
          (ui', h2) \<leftarrow> clear_interface ui h1;
          Some (ERROR_NO_MEM, ui', h2) }
        else do {
          let ui1 = ui\<lparr>altsetting := p\<rparr>;
          a \<leftarrow> read_altsetting buf;
          if if_bDescriptorType a \<noteq> DT_INTERFACE then Some (parsed, ui1, h1)
          else if uint (if_bLength a) < INTERFACE_DESC_LENGTH then do {
            (ui', h2) \<leftarrow> clear_interface ui1 h1;
            Some (ERROR_IO, ui', h2) }
          else if sz < uint (if_bLength a) then Some (parsed, ui1, h1)
          else if USB_MAXENDPOINTS < bNumEndpoints a then do {
            (ui', h2) \<leftarrow> clear_interface ui1 h1;
            Some (ERROR_IO, ui', h2) }
          else do {
            let ifnum1 = (if ifnum = -1 then uint (bInterfaceNumber a) else ifnum);
            let buf1 = drop (unat (if_bLength a)) buf;
            let parsed1 = parsed + uint (if_bLength a);
            let sz1 = sz - uint (if_bLength a);
            (stop, n, a1, h2) \<leftarrow> parse_alt_body a buf1 sz1 h1;
            let ui2 = ui1\<lparr>altsettings := altsettings ui1 @ [a1]\<rparr>;
            case stop of
              Alt_error r \<Rightarrow> do {
                (ui', h3) \<leftarrow> clear_interface ui2 h2;
                Some (r, ui', h3) }
            | Alt_return \<Rightarrow> Some (parsed1 + int n, ui2, h2)
            | Alt_next \<Rightarrow> do {
                again \<leftarrow> is_alternate (drop n buf1) (sz1 - int n) ifnum1;
                if again then
                  parse_altsettings ui2 ifnum1 (drop n buf1) (sz1 - int n) (parsed1 + int n) h2
                else Some (parsed1 + int n, ui2, h2) } } } })"
  by auto
termination
  by (relation "measure (\<lambda>(ui, ifnum, buf, sz, parsed, h). nat sz)") auto

declare parse_altsettings.simps [simp del]

definition parse_interface ::
  "usb_interface \<Rightarrow> bytes \<Rightarrow> int \<Rightarrow> desc_heap \<Rightarrow> (int \<times> usb_interface \<times> desc_heap) option" where
  "parse_interface ui buf sz h = parse_altsettings (ui\<lparr>altsettings := []\<rparr>) (-1) buf sz 0 h"

section \<open>Configurations\<close>

definition read_config :: "bytes \<Rightarrow> usb_config option" where
  "read_config buf = do {
     fs \<leftarrow> usbi_parse_descriptor ''bbwbbbbb'' buf;
     case fs of [FB l, FB t, FW w, FB n, FB v, FB i, FB a, FB p] \<Rightarrow>
       Some \<lparr>cf_bLength = l, cf_bDescriptorType = t, wTotalLength = w, bNumInterfaces = n,
             bConfigurationValue = v, iConfiguration = i, cf_bmAttributes = a, MaxPower = p,
             cf_interface = 0, cf_interfaces = [], cf_extra = 0, cf_extra_data = [],
             cf_extra_length = 0\<rparr> | _ \<Rightarrow> None }"

text \<open>The loop over the interfaces from \<open>i\<close> on.\<close>

primrec parse_interfaces ::
  "nat \<Rightarrow> nat \<Rightarrow> usb_config \<Rightarrow> bytes \<Rightarrow> int \<Rightarrow> desc_heap \<Rightarrow> (int \<times> usb_config \<times> desc_heap) option" where
  "parse_interfaces 0 i c buf sz h = Some (sz, c, h)"
| "parse_interfaces (Suc k) i c buf sz h = do {
     (stop, n) \<leftarrow> skip_extra buf sz;
     case stop of
       Skip_invalid \<Rightarrow> do { h1 \<leftarrow> clear_configuration c h; Some (ERROR_IO, c, h1) }
     | Skip_short \<Rightarrow> Some (sz - int n, c\<lparr>bNumInterfaces := of_nat i\<rparr>, h)
     | Skip_done \<Rightarrow> do {
         (ok, c1, h1) \<leftarrow>
           (if n = 0 \<or> cf_extra_length c \<noteq> 0 then Some (True, c, h)
            else let (p, h1) = new_block h in
              if p = 0 then Some (False, c\<lparr>cf_extra := 0\<rparr>, h1)
              else do { bs \<leftarrow> get_bytes 0 n buf;
                        Some (True, c\<lparr>cf_extra := p, cf_extra_data := bs, cf_extra_length := int n\<rparr>, h1) });
         if \<not> ok then do { h2 \<leftarrow> clear_configuration c1 h1; Some (ERROR_NO_MEM, c1, h2) }
         else do {
           ui \<leftarrow> get_at i (cf_interfaces c1);
           let buf1 = drop n buf;
           let sz1 = sz - int n;
           (r, ui1, h2) \<leftarrow> parse_interface ui buf1 sz1 h1;
           let c2 = c1\<lparr>cf_interfaces := (cf_interfaces c1)[i := ui1]\<rparr>;
           if r < 0 then do { h3 \<leftarrow> clear_configuration c2 h2; Some (r, c2, h3) }
           else if r = 0 then Some (sz1, c2\<lparr>bNumInterfaces := of_nat i\<rparr>, h2)
           else parse_interfaces k (Suc i) c2 (drop (nat r) buf1) (sz1 - r) h2 } } }"

definition parse_configuration ::
  "bytes \<Rightarrow> int \<Rightarrow> desc_heap \<Rightarrow> (int \<times> usb_config option \<times> desc_heap) option" where
  "parse_configuration buf sz h =
     (if sz < DT_CONFIG_SIZE then Some (ERROR_IO, None, h)
      else do {
        c \<leftarrow> read_config buf;
        if cf_bDescriptorType c \<noteq> DT_CONFIG then Some (ERROR_IO, None, h)
        else if uint (cf_bLength c) < DT_CONFIG_SIZE then Some (ERROR_IO, None, h)
        else if sz < uint (cf_bLength c) then Some (ERROR_IO, None, h)
        else if USB_MAXINTERFACES < bNumInterfaces c then Some (ERROR_IO, None, h)
        else let (p, h1) = new_block h; cnt = unat (bNumInterfaces c) in
          if p = 0 then Some (ERROR_NO_MEM, None, h1)
          else do {
            (r, c1, h2) \<leftarrow> parse_interfaces cnt 0
              (c\<lparr>cf_interface := p, cf_interfaces := replicate cnt zero_interface\<rparr>)
              (drop (unat (cf_bLength c)) buf) (sz - uint (cf_bLength c)) h1;
            Some (r, Some c1, h2) } })"

text \<open>The structure itself is one more block; the result pairs it with its contents.\<close>

definition raw_desc_to_config ::
  "bytes \<Rightarrow> int \<Rightarrow> desc_heap \<Rightarrow> (int \<times> (nat \<times> usb_config) option \<times> desc_heap) option" where
  "raw_desc_to_config buf sz h =
     (let (q, h1) = new_block h in
      if q = 0 then Some (ERROR_NO_MEM, None, h1)
      else do {
        (r, c, h2) \<leftarrow> parse_configuration buf sz h1;
        if r < 0 then do { h3 \<leftarrow> free_block q h2; Some (r, None, h3) }
        else do { c1 \<leftarrow> c; Some (0, Some (q, c1), h2) } })"

definition libusb_free_config_descriptor ::
  "(nat \<times> usb_config) option \<Rightarrow> desc_heap \<Rightarrow> desc_heap option" where
  "libusb_free_config_descriptor c h =
     (case c of None \<Rightarrow> Some h
      | Some (q, cfg) \<Rightarrow> do { h1 \<leftarrow> clear_configuration cfg h; free_block q h1 })"

section \<open>Endpoint companions\<close>

record ss_companion =
  sc_bLength :: u8
  sc_bDescriptorType :: u8
  bMaxBurst :: u8
  sc_bmAttributes :: u8
  wBytesPerInterval :: u16

text \<open>The search runs over \<open>extra\<close>; the result is the code, the structure with its block, and
  the heap.\<close>

function find_companion ::
  "bytes \<Rightarrow> int \<Rightarrow> desc_heap \<Rightarrow> (int \<times> (nat \<times> ss_companion) option \<times> desc_heap) option" where
  "find_companion buf sz h =
     (if sz < DESC_HEADER_LENGTH then Some (ERROR_NOT_FOUND, None, h)
      else do {
        (len, t) \<leftarrow> parse_header buf;
        if uint len < 2 \<or> sz < uint len then Some (ERROR_IO, None, h)
        else if t \<noteq> DT_SS_ENDPOINT_COMPANION then
          find_companion (drop (unat len) buf) (sz - uint len) h
        else if len < DT_SS_ENDPOINT_COMPANION_SIZE then Some (ERROR_IO, None, h)
        else let (p, h1) = new_block h in
          if p = 0 then Some (ERROR_NO_MEM, None, h1)
          else do {
            fs \<leftarrow> usbi_parse_descriptor ''bbbbw'' buf;
            case fs of [FB l, FB t, FB m, FB a, FW w] \<Rightarrow>
              Some (0, Some (p, \<lparr>sc_bLength = l, sc_bDescriptorType = t, bMaxBurst = m,
                                 sc_bmAttributes = a, wBytesPerInterval = w\<rparr>), h1) | _ \<Rightarrow> None } })"
  by auto
termination by (relation "measure (\<lambda>(buf, sz, h). nat sz)") auto

declare find_companion.simps [simp del]

definition libusb_get_ss_endpoint_companion_descriptor ::
  "usb_endpoint \<Rightarrow> desc_heap \<Rightarrow> (int \<times> (nat \<times> ss_companion) option \<times> desc_heap) option" where
  "libusb_get_ss_endpoint_companion_descriptor e h =
     find_companion (ep_extra_data e) (ep_extra_length e) h"

text \<open>The structures of this file that are one block are released by \<open>free\<close>.\<close>

definition libusb_free_ss_endpoint_companion_descriptor :: "nat \<Rightarrow> desc_heap \<Rightarrow> desc_heap option" where
  "libusb_free_ss_endpoint_companion_descriptor p h = free_block p h"

section \<open>The binary object store\<close>

text \<open>A capability is a block with the raw bytes of its descriptor; an entry the parser has not
  filled is NULL (the array comes from \<open>calloc\<close>).\<close>

record bos_descriptor =
  bo_bLength :: u8
  bo_bDescriptorType :: u8
  bo_wTotalLength :: u16
  bNumDeviceCaps :: u8
  dev_capability :: "(nat \<times> bytes) list"

definition read_bos :: "bytes \<Rightarrow> bos_descriptor option" where
  "read_bos buf = do {
     fs \<leftarrow> usbi_parse_descriptor ''bbwb'' buf;
     case fs of [FB l, FB t, FW w, FB n] \<Rightarrow>
       Some \<lparr>bo_bLength = l, bo_bDescriptorType = t, bo_wTotalLength = w, bNumDeviceCaps = n,
             dev_capability = replicate (unat n) (0, [])\<rparr> | _ \<Rightarrow> None }"

primrec free_capabilities :: "nat \<Rightarrow> nat \<Rightarrow> (nat \<times> bytes) list \<Rightarrow> desc_heap \<Rightarrow> desc_heap option" where
  "free_capabilities 0 i cs h = Some h"
| "free_capabilities (Suc k) i cs h = do {
     c \<leftarrow> get_at i cs;
     h1 \<leftarrow> free_block (fst c) h;
     free_capabilities k (Suc i) cs h1 }"

definition libusb_free_bos_descriptor ::
  "(nat \<times> bos_descriptor) option \<Rightarrow> desc_heap \<Rightarrow> desc_heap option" where
  "libusb_free_bos_descriptor b h =
     (case b of None \<Rightarrow> Some h
      | Some (q, bos) \<Rightarrow> do {
          h1 \<leftarrow> free_capabilities (unat (bNumDeviceCaps bos)) 0 (dev_capability bos) h;
          free_block q h1 })"

datatype bos_end = Bos_error int | Bos_break nat

text \<open>The loop over the capabilities; \<open>Bos_break i\<close> carries the final index.\<close>

primrec parse_capabilities ::
  "nat \<Rightarrow> nat \<Rightarrow> bos_descriptor \<Rightarrow> bytes \<Rightarrow> int \<Rightarrow> desc_heap \<Rightarrow> (bos_end \<times> bos_descriptor \<times> desc_heap) option" where
  "parse_capabilities 0 i b buf sz h = Some (Bos_break i, b, h)"
| "parse_capabilities (Suc k) i b buf sz h =
     (if sz < DT_DEVICE_CAPABILITY_SIZE then Some (Bos_break i, b, h)
      else do {
        fs \<leftarrow> usbi_parse_descriptor ''bbb'' buf;
        (len, t) \<leftarrow> (case fs of [FB l, FB t, FB c] \<Rightarrow> Some (l, t) | _ \<Rightarrow> None);
        if t \<noteq> DT_DEVICE_CAPABILITY then Some (Bos_break i, b, h)
        else if uint len < DT_DEVICE_CAPABILITY_SIZE then Some (Bos_error ERROR_IO, b, h)
        else if sz < uint len then Some (Bos_break i, b, h)
        else let (p, h1) = new_block h in
          if p = 0 then Some (Bos_error ERROR_NO_MEM, b, h1)
          else do {
            bs \<leftarrow> get_bytes 0 (unat len) buf;
            parse_capabilities k (Suc i)
              (b\<lparr>dev_capability := (dev_capability b)[i := (p, bs)]\<rparr>)
              (drop (unat len) buf) (sz - uint len) h1 } })"

definition parse_bos ::
  "bytes \<Rightarrow> int \<Rightarrow> desc_heap \<Rightarrow> (int \<times> (nat \<times> bos_descriptor) option \<times> desc_heap) option" where
  "parse_bos buf sz h =
     (if sz < DT_BOS_SIZE then Some (ERROR_IO, None, h)
      else do {
        b \<leftarrow> read_bos buf;
        if bo_bDescriptorType b \<noteq> DT_BOS then Some (ERROR_IO, None, h)
        else if uint (bo_bLength b) < DT_BOS_SIZE then Some (ERROR_IO, None, h)
        else if sz < uint (bo_bLength b) then Some (ERROR_IO, None, h)
        else let (q, h1) = new_block h in
          if q = 0 then Some (ERROR_NO_MEM, None, h1)
          else do {
            (stop, b1, h2) \<leftarrow> parse_capabilities (unat (bNumDeviceCaps b)) 0 b
              (drop (unat (bo_bLength b)) buf) (sz - uint (bo_bLength b)) h1;
            case stop of
              Bos_error r \<Rightarrow> do { h3 \<leftarrow> libusb_free_bos_descriptor (Some (q, b1)) h2; Some (r, None, h3) }
            | Bos_break i \<Rightarrow> Some (0, Some (q, b1\<lparr>bNumDeviceCaps := of_nat i\<rparr>), h2) } })"

text \<open>A control request answers with a code and, from the start of the buffer, the bytes it
  delivered; \<open>libusb_control_transfer\<close> is an argument.\<close>

type_synonym 'u control = "u8 \<Rightarrow> u8 \<Rightarrow> u16 \<Rightarrow> u16 \<Rightarrow> nat \<Rightarrow> 'u \<Rightarrow> (int \<times> bytes) \<times> 'u"

abbreviation ENDPOINT_IN :: u8 where "ENDPOINT_IN \<equiv> 0x80"
abbreviation REQUEST_GET_DESCRIPTOR :: u8 where "REQUEST_GET_DESCRIPTOR \<equiv> 0x06"

definition libusb_get_descriptor ::
  "'u control \<Rightarrow> u8 \<Rightarrow> u8 \<Rightarrow> nat \<Rightarrow> 'u \<Rightarrow> (int \<times> bytes) \<times> 'u" where
  "libusb_get_descriptor ctl ty idx len =
     ctl ENDPOINT_IN REQUEST_GET_DESCRIPTOR (push_bit 8 (ucast ty) OR ucast idx) 0 len"

definition libusb_get_string_descriptor ::
  "'u control \<Rightarrow> u8 \<Rightarrow> u16 \<Rightarrow> nat \<Rightarrow> 'u \<Rightarrow> (int \<times> bytes) \<times> 'u" where
  "libusb_get_string_descriptor ctl idx langid len =
     ctl ENDPOINT_IN REQUEST_GET_DESCRIPTOR (push_bit 8 (ucast DT_STRING) OR ucast idx) langid len"

text \<open>The bytes that arrived overwrite the front of the buffer.\<close>

definition overlay :: "bytes \<Rightarrow> bytes \<Rightarrow> bytes option" where
  "overlay bs buf = put_bytes 0 bs buf"

definition libusb_get_bos_descriptor ::
  "'u control \<Rightarrow> desc_heap \<Rightarrow> 'u
     \<Rightarrow> (int \<times> (nat \<times> bos_descriptor) option \<times> desc_heap \<times> 'u) option" where
  "libusb_get_bos_descriptor ctl h u = do {
     let ((r, bs), u1) = libusb_get_descriptor ctl DT_BOS 0 5 u;
     header \<leftarrow> overlay bs (replicate 5 0);
     if r < 0 then Some (r, None, h, u1)
     else if r < DT_BOS_SIZE then Some (ERROR_IO, None, h, u1)
     else do {
       b \<leftarrow> read_bos header;
       let len = unat (bo_wTotalLength b);
       let (p, h1) = new_block h;
       if p = 0 then Some (ERROR_NO_MEM, None, h1, u1)
       else do {
         let ((r2, bs2), u2) = libusb_get_descriptor ctl DT_BOS 0 len u1;
         data \<leftarrow> overlay bs2 (replicate len 0);
         (r3, bos, h2) \<leftarrow>
           (if 0 \<le> r2 then parse_bos data r2 h1 else Some (r2, None, h1));
         h3 \<leftarrow> free_block p h2;
         Some (r3, bos, h3, u2) } } }"

section \<open>Capabilities\<close>

record usb_2_0_extension =
  ue_bLength :: u8
  ue_bDescriptorType :: u8
  ue_bDevCapabilityType :: u8
  ue_bmAttributes :: u32

record ss_usb_device_capability =
  su_bLength :: u8
  su_bDescriptorType :: u8
  su_bDevCapabilityType :: u8
  su_bmAttributes :: u8
  wSpeedSupported :: u16
  bFunctionalitySupport :: u8
  bU1DevExitLat :: u8
  bU2DevExitLat :: u16

record container_id =
  ci_bLength :: u8
  ci_bDescriptorType :: u8
  ci_bDevCapabilityType :: u8
  bReserved :: u8
  ContainerID :: bytes

text \<open>The checks the three functions share: the type and the length the capability states.\<close>

definition capability_ok :: "bytes \<Rightarrow> u8 \<Rightarrow> u8 \<Rightarrow> int option" where
  "capability_ok cap ty len = do {
     t \<leftarrow> get_at 2 cap;
     if t \<noteq> ty then Some ERROR_INVALID_PARAM
     else do { l \<leftarrow> get_at 0 cap; if l < len then Some ERROR_IO else Some 0 } }"

definition libusb_get_usb_2_0_extension_descriptor ::
  "bytes \<Rightarrow> desc_heap \<Rightarrow> (int \<times> (nat \<times> usb_2_0_extension) option \<times> desc_heap) option" where
  "libusb_get_usb_2_0_extension_descriptor cap h = do {
     r \<leftarrow> capability_ok cap 2 7;
     if r \<noteq> 0 then Some (r, None, h)
     else let (p, h1) = new_block h in
       if p = 0 then Some (ERROR_NO_MEM, None, h1)
       else do {
         fs \<leftarrow> usbi_parse_descriptor ''bbbd'' cap;
         case fs of [FB l, FB t, FB c, FD a] \<Rightarrow>
           Some (0, Some (p, \<lparr>ue_bLength = l, ue_bDescriptorType = t, ue_bDevCapabilityType = c,
                              ue_bmAttributes = a\<rparr>), h1) | _ \<Rightarrow> None } }"

definition libusb_get_ss_usb_device_capability_descriptor ::
  "bytes \<Rightarrow> desc_heap \<Rightarrow> (int \<times> (nat \<times> ss_usb_device_capability) option \<times> desc_heap) option" where
  "libusb_get_ss_usb_device_capability_descriptor cap h = do {
     r \<leftarrow> capability_ok cap 3 10;
     if r \<noteq> 0 then Some (r, None, h)
     else let (p, h1) = new_block h in
       if p = 0 then Some (ERROR_NO_MEM, None, h1)
       else do {
         fs \<leftarrow> usbi_parse_descriptor ''bbbbwbbw'' cap;
         case fs of [FB l, FB t, FB c, FB a, FW s, FB f, FB x, FW y] \<Rightarrow>
           Some (0, Some (p, \<lparr>su_bLength = l, su_bDescriptorType = t, su_bDevCapabilityType = c,
                              su_bmAttributes = a, wSpeedSupported = s, bFunctionalitySupport = f,
                              bU1DevExitLat = x, bU2DevExitLat = y\<rparr>), h1) | _ \<Rightarrow> None } }"

definition libusb_get_container_id_descriptor ::
  "bytes \<Rightarrow> desc_heap \<Rightarrow> (int \<times> (nat \<times> container_id) option \<times> desc_heap) option" where
  "libusb_get_container_id_descriptor cap h = do {
     r \<leftarrow> capability_ok cap 4 20;
     if r \<noteq> 0 then Some (r, None, h)
     else let (p, h1) = new_block h in
       if p = 0 then Some (ERROR_NO_MEM, None, h1)
       else do {
         fs \<leftarrow> usbi_parse_descriptor ''bbbbu'' cap;
         case fs of [FB l, FB t, FB c, FB r, FU u] \<Rightarrow>
           Some (0, Some (p, \<lparr>ci_bLength = l, ci_bDescriptorType = t, ci_bDevCapabilityType = c,
                              bReserved = r, ContainerID = u\<rparr>), h1) | _ \<Rightarrow> None } }"

definition libusb_free_usb_2_0_extension_descriptor :: "nat \<Rightarrow> desc_heap \<Rightarrow> desc_heap option" where
  "libusb_free_usb_2_0_extension_descriptor p h = free_block p h"

definition libusb_free_ss_usb_device_capability_descriptor :: "nat \<Rightarrow> desc_heap \<Rightarrow> desc_heap option" where
  "libusb_free_ss_usb_device_capability_descriptor p h = free_block p h"

definition libusb_free_container_id_descriptor :: "nat \<Rightarrow> desc_heap \<Rightarrow> desc_heap option" where
  "libusb_free_container_id_descriptor p h = free_block p h"

section \<open>String descriptors\<close>

text \<open>The loop that copies every second byte of \<open>tbuf\<close>; \<open>cap\<close> is the argument \<open>length\<close>.\<close>

function ascii_loop :: "bytes \<Rightarrow> int \<Rightarrow> nat \<Rightarrow> nat \<Rightarrow> bytes \<Rightarrow> (nat \<times> bytes) option" where
  "ascii_loop tbuf cap si di data = do {
     l \<leftarrow> get_at 0 tbuf;
     if \<not> si < unat l then Some (di, data)
     else if cap - 1 \<le> int di then Some (di, data)
     else do {
       c \<leftarrow> get_at si tbuf;
       odd \<leftarrow> (if c AND 0x80 \<noteq> 0 then Some True
              else do { c1 \<leftarrow> get_at (si + 1) tbuf; Some (c1 \<noteq> 0) });
       data1 \<leftarrow> put_bytes di [if odd then 0x3F else c] data;
       ascii_loop tbuf cap (si + 2) (di + 1) data1 } }"
  by auto
termination
  by (relation "measure (\<lambda>(tbuf, cap, si, di, data). length tbuf - si)")
     (auto simp: get_at_def split: if_splits)

declare ascii_loop.simps [simp del]

text \<open>\<open>tbuf0\<close> are the unknown contents of the local array, \<open>data\<close> is the caller's buffer.\<close>

definition libusb_get_string_descriptor_ascii ::
  "'u control \<Rightarrow> u8 \<Rightarrow> bytes \<Rightarrow> bytes \<Rightarrow> int \<Rightarrow> 'u \<Rightarrow> (int \<times> bytes \<times> 'u) option" where
  "libusb_get_string_descriptor_ascii ctl desc_index tbuf0 data cap u =
     (if desc_index = 0 then Some (ERROR_INVALID_PARAM, data, u)
      else do {
        let ((r, bs), u1) = libusb_get_string_descriptor ctl 0 0 255 u;
        tbuf1 \<leftarrow> overlay bs tbuf0;
        if r < 0 then Some (r, data, u1)
        else if r < 4 then Some (ERROR_IO, data, u1)
        else do {
          b2 \<leftarrow> get_at 2 tbuf1;
          b3 \<leftarrow> get_at 3 tbuf1;
          let ((r2, bs2), u2) = libusb_get_string_descriptor ctl desc_index (le16 b2 b3) 255 u1;
          tbuf2 \<leftarrow> overlay bs2 tbuf1;
          if r2 < 0 then Some (r2, data, u2)
          else do {
            t \<leftarrow> get_at 1 tbuf2;
            if t \<noteq> DT_STRING then Some (ERROR_IO, data, u2)
            else do {
              l \<leftarrow> get_at 0 tbuf2;
              if r2 < uint l then Some (ERROR_IO, data, u2)
              else do {
                (di, data1) \<leftarrow> ascii_loop tbuf2 cap 2 0 data;
                data2 \<leftarrow> put_bytes di [0] data1;
                Some (int di, data2, u2) } } } } })"

end
