(* ===== verification/UsbDescProofs.thy ===== *)
theory UsbDescProofs
  imports UsbDesc "HOL-Library.Multiset"
begin

text \<open>
  What the descriptor parser promises: it never reads past the data it was given, frees on every
  error exactly what it allocated, and what it returns can be released block by block.  The
  blocks a structure owned are listed in the order in which the \<open>clear_*\<close> functions free them.
\<close>

section \<open>Fields are read inside the data\<close>

named_theorems desc_simps \<open>evaluation of field reads\<close>

lemma buf2: "2 \<le> length buf \<Longrightarrow> \<exists>a b r. buf = a # b # r"
  by (cases buf; cases "tl buf") auto

lemma parse_header_Cons [desc_simps]: "parse_header (a # b # r) = Some (a, b)"
  by (simp add: parse_header_def)

lemma parse_header_ok: "2 \<le> length buf \<Longrightarrow> \<exists>a b r. buf = a # b # r \<and> parse_header buf = Some (a, b)"
  using buf2 [of buf] by (auto simp: desc_simps)

lemma nonempty_Cons: "0 < length buf \<Longrightarrow> \<exists>a r. buf = a # r"
  by (cases buf) auto

lemma buf_Suc: "Suc n \<le> length buf \<Longrightarrow> \<exists>a r. buf = a # r \<and> n \<le> length r"
  by (cases buf) auto

lemma buf6: "6 \<le> length buf \<Longrightarrow> \<exists>a b c d e f r. buf = a # b # c # d # e # f # r"
  by (auto simp: numeral_eq_Suc dest!: buf_Suc)

lemma buf7: "7 \<le> length buf \<Longrightarrow> \<exists>a b c d e f g r. buf = a # b # c # d # e # f # g # r"
  by (auto simp: numeral_eq_Suc dest!: buf_Suc)

lemma buf9: "9 \<le> length buf \<Longrightarrow> \<exists>a b c d e f g i j r. buf = a # b # c # d # e # f # g # i # j # r"
  by (auto simp: numeral_eq_Suc dest!: buf_Suc)

lemma read_altsetting_Cons [desc_simps]:
  "read_altsetting (a # b # c # d # e # f # g # i # j # r) =
     Some \<lparr>if_bLength = a, if_bDescriptorType = b, bInterfaceNumber = c, bAlternateSetting = d,
       bNumEndpoints = e, bInterfaceClass = f, bInterfaceSubClass = g, bInterfaceProtocol = i,
       iInterface = j, if_endpoint = 0, if_endpoints = [], if_extra = 0, if_extra_data = [],
       if_extra_length = 0\<rparr>"
  by (simp add: read_altsetting_def)

lemma read_config_Cons [desc_simps]:
  "read_config (a # b # c # d # e # f # g # i # j # r) =
     Some \<lparr>cf_bLength = a, cf_bDescriptorType = b, wTotalLength = le16 c d, bNumInterfaces = e,
       bConfigurationValue = f, iConfiguration = g, cf_bmAttributes = i, MaxPower = j,
       cf_interface = 0, cf_interfaces = [], cf_extra = 0, cf_extra_data = [], cf_extra_length = 0\<rparr>"
  by (simp add: read_config_def)

lemma read_endpoint_ok:
  assumes "uint len \<le> int (length buf)" "\<not> len < ENDPOINT_DESC_LENGTH"
  shows "\<exists>e'. read_endpoint len buf e = Some e' \<and> ep_extra e' = ep_extra e"
proof (cases "ENDPOINT_AUDIO_DESC_LENGTH \<le> len")
  case True
  have "9 \<le> uint len" using True by (simp add: word_le_def)
  then have "9 \<le> length buf" using assms(1) by simp
  then show ?thesis using True buf9 [of buf] by (auto simp: read_endpoint_def)
next
  case False
  have "7 \<le> uint len" using assms(2) by (simp add: word_less_def)
  then have "7 \<le> length buf" using assms(1) by simp
  then show ?thesis using False buf7 [of buf] by (auto simp: read_endpoint_def)
qed

lemma rest_of_data:
  "sz \<le> int (length buf) \<Longrightarrow> sz - uint (a :: u8) \<le> int (length (drop (unat a) buf))"
proof -
  assume "sz \<le> int (length buf)"
  moreover have "int (length buf) - int (unat a) \<le> int (length buf - unat a)" by linarith
  ultimately show ?thesis by simp
qed

lemma rest_of_data_nat:
  "sz \<le> int (length buf) \<Longrightarrow> sz - int n \<le> int (length (drop n buf))"
  by simp

text \<open>The skipping loop stays inside the data.\<close>

lemma skip_extra_ok:
  "sz \<le> int (length buf) \<Longrightarrow>
     \<exists>e n. skip_extra buf sz = Some (e, n) \<and> n \<le> length buf \<and> (0 \<le> sz \<longrightarrow> int n \<le> sz)
       \<and> (sz < 0 \<longrightarrow> n = 0)"
proof (induction buf sz rule: skip_extra.induct)
  case (1 buf sz)
  show ?case
  proof (cases "sz < 2")
    case True
    then show ?thesis by (auto simp: skip_extra.simps [of buf sz])
  next
    case False
    then have "2 \<le> length buf" using 1(2) by simp
    then obtain a b r where h: "buf = a # b # r" "parse_header buf = Some (a, b)"
      using parse_header_ok by blast
    show ?thesis
    proof (cases "uint a < 2 \<or> sz < uint a \<or> proper_descriptor b")
      case True
      then show ?thesis using False h(2) by (auto simp: skip_extra.simps [of buf sz])
    next
      case ok: False
      have le: "sz - uint a \<le> int (length (drop (unat a) buf))"
        by (rule rest_of_data [OF 1(2)])
      obtain e n where en: "skip_extra (drop (unat a) buf) (sz - uint a) = Some (e, n)"
        "n \<le> length (drop (unat a) buf)" "int n \<le> sz - uint a"
        using 1(1) [OF False h(2) refl _ _ _ le] ok by auto
      have "skip_extra buf sz = Some (e, unat a + n)"
        using False h(2) ok en(1) by (simp add: skip_extra.simps [of buf sz])
      moreover have "int (unat a + n) \<le> sz" using en(3) ok by simp
      moreover have "unat a + n \<le> length buf" using \<open>int (unat a + n) \<le> sz\<close> 1(2) by linarith
      ultimately show ?thesis using False by auto
    qed
  qed
qed

section \<open>Blocks\<close>

text \<open>Live blocks are those handed out; growing a live array never fails.  \<open>malloc\<close> may.\<close>

definition blocks_ok :: "desc_heap \<Rightarrow> bool" where
  "blocks_ok h \<longleftrightarrow> 0 \<notin> in_use h \<and> (\<forall>p \<in> in_use h. p \<le> requests h) \<and> (\<forall>n. \<not> realloc_denied h n)"

text \<open>Nothing fails.\<close>

definition heap_ok :: "desc_heap \<Rightarrow> bool" where
  "heap_ok h \<longleftrightarrow> blocks_ok h \<and> (\<forall>n. \<not> denied h n)"

text \<open>\<open>h\<close> is \<open>h0\<close> with the blocks \<open>bs\<close> allocated on top.\<close>

definition owns_blocks :: "desc_heap \<Rightarrow> nat list \<Rightarrow> desc_heap \<Rightarrow> bool" where
  "owns_blocks h0 bs h \<longleftrightarrow> blocks_ok h \<and> denied h = denied h0 \<and> distinct bs \<and> set bs \<inter> in_use h0 = {}
     \<and> in_use h = in_use h0 \<union> set bs \<and> 0 \<notin> set bs"

definition ptr_blocks :: "nat \<Rightarrow> nat list" where
  "ptr_blocks p = (if p = 0 then [] else [p])"

lemma ptr_blocks_simps [simp]: "ptr_blocks 0 = []" "p \<noteq> 0 \<Longrightarrow> ptr_blocks p = [p]"
  by (simp_all add: ptr_blocks_def)

lemma owned_nil: "blocks_ok h \<Longrightarrow> owns_blocks h [] h"
  by (simp add: owns_blocks_def)

lemma owned_perm: "mset bs = mset bs' \<Longrightarrow> owns_blocks h0 bs h \<longleftrightarrow> owns_blocks h0 bs' h"
  unfolding owns_blocks_def by (metis distinct_count_atmost_1 set_mset_mset)

lemma owned_permI: "owns_blocks h0 bs h \<Longrightarrow> mset bs = mset bs' \<Longrightarrow> owns_blocks h0 bs' h"
  using owned_perm by blast

lemma request_block_owned:
  assumes "owns_blocks h0 bs h"
  shows "\<exists>p h'. request_block no h = (p, h') \<and> (p = 0 \<longleftrightarrow> no) \<and> owns_blocks h0 (ptr_blocks p @ bs) h'"
proof -
  have "\<forall>p \<in> in_use h. p \<le> requests h" using assms by (simp add: owns_blocks_def blocks_ok_def)
  then have "Suc (requests h) \<notin> in_use h" by fastforce
  then show ?thesis using assms by (auto simp: request_block_def owns_blocks_def blocks_ok_def le_SucI)
qed

text \<open>An allocation, granted or denied.\<close>

lemma new_block_cases:
  assumes "owns_blocks h0 bs h"
  obtains (granted) p h' where "new_block h = (p, h')" "p \<noteq> 0" "owns_blocks h0 (p # bs) h'"
  | (refused) h' where "new_block h = (0, h')" "owns_blocks h0 bs h'" "denied h0 (Suc (requests h))"
proof -
  obtain p h' where p: "new_block h = (p, h')" "p = 0 \<longleftrightarrow> denied h (Suc (requests h))" "owns_blocks h0 (ptr_blocks p @ bs) h'"
    using request_block_owned [OF assms] unfolding new_block_def by blast
  have "denied h = denied h0" using assms by (simp add: owns_blocks_def)
  with p granted refused show ?thesis by (cases "p = 0") auto
qed

lemma free_block_owned: "owns_blocks h0 (p # bs) h \<Longrightarrow> \<exists>h'. free_block p h = Some h' \<and> owns_blocks h0 bs h'"
  by (auto simp: owns_blocks_def free_block_def blocks_ok_def)

lemma free_ptr_owned:
  "owns_blocks h0 (ptr_blocks p @ bs) h \<Longrightarrow> \<exists>h'. free_block p h = Some h' \<and> owns_blocks h0 bs h'"
  using free_block_owned [of h0 p bs h] by (cases "p = 0") (auto simp: free_block_def)

lemma free_block_0 [simp]: "free_block 0 h = Some h"
  by (simp add: free_block_def)

lemma reallocf_owned:
  assumes "owns_blocks h0 (ptr_blocks p @ bs) h"
  shows "\<exists>q h'. usbi_reallocf p h = Some (q, h') \<and> owns_blocks h0 (ptr_blocks q @ bs) h'
    \<and> (q = 0 \<longrightarrow> p = 0 \<and> denied h0 (Suc (requests h)))"
proof -
  let ?no = "(if p = 0 then denied else realloc_denied) h (Suc (requests h))"
  have h: "denied h = denied h0" "\<not> realloc_denied h (Suc (requests h))"
    using assms by (simp_all add: owns_blocks_def blocks_ok_def)
  have no: "?no \<longrightarrow> p = 0 \<and> denied h0 (Suc (requests h))" using h by (cases "p = 0") simp_all
  obtain q h1 where q: "request_block ?no h = (q, h1)" "q = 0 \<longleftrightarrow> ?no" "owns_blocks h0 (ptr_blocks q @ ptr_blocks p @ bs) h1"
    using request_block_owned [OF assms] by blast
  have "owns_blocks h0 (ptr_blocks p @ ptr_blocks q @ bs) h1" by (rule owned_permI [OF q(3)]) simp
  then obtain h2 where "free_block p h1 = Some h2" "owns_blocks h0 (ptr_blocks q @ bs) h2" using free_ptr_owned by blast
  moreover from this q(1) have "usbi_reallocf p h = Some (q, h2)" by (simp add: usbi_reallocf_def Let_def)
  ultimately show ?thesis using q(2) no by blast
qed

section \<open>What the structures own\<close>

definition endpoint_blocks :: "usb_endpoint \<Rightarrow> nat list" where
  "endpoint_blocks e = ptr_blocks (ep_extra e)"

definition altsetting_blocks :: "usb_altsetting \<Rightarrow> nat list" where
  "altsetting_blocks a = ptr_blocks (if_extra a) @
     (if if_endpoint a = 0 then []
      else concat (map endpoint_blocks (take (unat (bNumEndpoints a)) (if_endpoints a))) @ [if_endpoint a])"

definition altsetting_wf :: "usb_altsetting \<Rightarrow> bool" where
  "altsetting_wf a \<longleftrightarrow> (if_endpoint a \<noteq> 0 \<longrightarrow> unat (bNumEndpoints a) \<le> length (if_endpoints a))"

definition interface_blocks :: "usb_interface \<Rightarrow> nat list" where
  "interface_blocks ui =
     (if altsetting ui = 0 then []
      else concat (map altsetting_blocks (altsettings ui)) @ [altsetting ui])"

definition interface_wf :: "usb_interface \<Rightarrow> bool" where
  "interface_wf ui \<longleftrightarrow> (\<forall>a \<in> set (altsettings ui). altsetting_wf a)
     \<and> (altsetting ui = 0 \<longrightarrow> altsettings ui = [])"

text \<open>Clearing an interface looks at its entries only when it has an array of them.\<close>

definition clearable :: "usb_interface \<Rightarrow> bool" where
  "clearable ui \<longleftrightarrow> (altsetting ui \<noteq> 0 \<longrightarrow> (\<forall>a \<in> set (altsettings ui). altsetting_wf a))"

lemma wf_clearable: "interface_wf ui \<Longrightarrow> clearable ui"
  by (simp add: interface_wf_def clearable_def)

definition config_blocks :: "usb_config \<Rightarrow> nat list" where
  "config_blocks c =
     (if cf_interface c = 0 then []
      else concat (map interface_blocks (take (unat (bNumInterfaces c)) (cf_interfaces c))) @ [cf_interface c])
     @ ptr_blocks (cf_extra c)"

definition config_wf :: "usb_config \<Rightarrow> bool" where
  "config_wf c \<longleftrightarrow> unat (bNumInterfaces c) \<le> length (cf_interfaces c)
     \<and> (\<forall>ui \<in> set (cf_interfaces c). clearable ui)"

lemma clear_endpoint_owned:
  "owns_blocks h0 (endpoint_blocks e @ bs) h \<Longrightarrow> \<exists>h'. clear_endpoint e h = Some h' \<and> owns_blocks h0 bs h'"
  using free_ptr_owned [of h0 "ep_extra e" bs h]
  by (auto simp: endpoint_blocks_def clear_endpoint_def)

lemma clear_endpoints_owned:
  "j + k \<le> length eps \<Longrightarrow> owns_blocks h0 (concat (map endpoint_blocks (take k (drop j eps))) @ bs) h \<Longrightarrow>
     \<exists>h'. clear_endpoints k j eps h = Some h' \<and> owns_blocks h0 bs h'"
proof (induction k arbitrary: j h)
  case 0
  then show ?case by simp
next
  case (Suc k)
  have j: "j < length eps" using Suc.prems(1) by simp
  then have "take (Suc k) (drop j eps) = eps ! j # take k (drop (Suc j) eps)"
    by (simp add: Cons_nth_drop_Suc [symmetric])
  then obtain h1 where h1: "clear_endpoint (eps ! j) h = Some h1"
    "owns_blocks h0 (concat (map endpoint_blocks (take k (drop (Suc j) eps))) @ bs) h1"
    using Suc.prems(2) clear_endpoint_owned by fastforce
  show ?case using Suc.IH [OF _ h1(2)] Suc.prems(1) h1(1) j by (simp add: mem_simps)
qed

lemma clear_altsetting_owned:
  assumes "altsetting_wf a" "owns_blocks h0 (altsetting_blocks a @ bs) h"
  shows "\<exists>h'. clear_altsetting a h = Some h' \<and> owns_blocks h0 bs h'"
proof -
  define more where "more = (if if_endpoint a = 0 then []
      else concat (map endpoint_blocks (take (unat (bNumEndpoints a)) (if_endpoints a))) @ [if_endpoint a]) @ bs"
  have "owns_blocks h0 (ptr_blocks (if_extra a) @ more) h"
    using assms(2) by (simp add: altsetting_blocks_def more_def)
  then obtain h1 where h1: "free_block (if_extra a) h = Some h1" "owns_blocks h0 more h1"
    using free_ptr_owned by blast
  have first: "(if if_extra a \<noteq> 0 then free_block (if_extra a) h else Some h) = Some h1"
    using h1(1) by auto
  show ?thesis
  proof (cases "if_endpoint a = 0")
    case True
    then show ?thesis using first h1(2) by (simp add: clear_altsetting_def more_def)
  next
    case False
    have "owns_blocks h0 (concat (map endpoint_blocks (take (unat (bNumEndpoints a)) (drop 0 (if_endpoints a))))
        @ [if_endpoint a] @ bs) h1" using h1(2) False by (simp add: more_def)
    then obtain h2 where h2: "clear_endpoints (unat (bNumEndpoints a)) 0 (if_endpoints a) h1 = Some h2"
      "owns_blocks h0 ([if_endpoint a] @ bs) h2"
      using clear_endpoints_owned [of 0] assms(1) False by (fastforce simp: altsetting_wf_def)
    obtain h3 where "free_block (if_endpoint a) h2 = Some h3" "owns_blocks h0 bs h3"
      using free_block_owned h2(2) by fastforce
    then show ?thesis using first False h2(1) by (simp add: clear_altsetting_def)
  qed
qed

lemma clear_altsettings_owned:
  "\<forall>a \<in> set as. altsetting_wf a \<Longrightarrow> owns_blocks h0 (concat (map altsetting_blocks as) @ bs) h \<Longrightarrow>
     \<exists>h'. clear_altsettings as h = Some h' \<and> owns_blocks h0 bs h'"
proof (induction as arbitrary: h)
  case Nil
  then show ?case by simp
next
  case (Cons a as)
  obtain h1 where "clear_altsetting a h = Some h1" "owns_blocks h0 (concat (map altsetting_blocks as) @ bs) h1"
    using clear_altsetting_owned [of a] Cons.prems by fastforce
  then show ?case using Cons.IH Cons.prems(1) by simp
qed

lemma clear_interface_owned:
  assumes "clearable ui" "owns_blocks h0 (interface_blocks ui @ bs) h"
  shows "\<exists>ui' h'. clear_interface ui h = Some (ui', h') \<and> owns_blocks h0 bs h'
    \<and> altsetting ui' = 0 \<and> altsettings ui' = altsettings ui"
proof (cases "altsetting ui = 0")
  case True
  then show ?thesis using assms(2) by (simp add: clear_interface_def interface_blocks_def)
next
  case False
  obtain h1 where h1: "clear_altsettings (altsettings ui) h = Some h1" "owns_blocks h0 ([altsetting ui] @ bs) h1"
    using clear_altsettings_owned [of "altsettings ui" h0 "[altsetting ui] @ bs" h] assms False
    by (auto simp: clearable_def interface_blocks_def)
  obtain h2 where "free_block (altsetting ui) h1 = Some h2" "owns_blocks h0 bs h2"
    using free_block_owned h1(2) by fastforce
  then show ?thesis using False h1(1) by (simp add: clear_interface_def)
qed

lemma clear_interfaces_owned:
  "i + k \<le> length uis \<Longrightarrow> \<forall>ui \<in> set uis. clearable ui \<Longrightarrow>
     owns_blocks h0 (concat (map interface_blocks (take k (drop i uis))) @ bs) h \<Longrightarrow>
     \<exists>h'. clear_interfaces k i uis h = Some h' \<and> owns_blocks h0 bs h'"
proof (induction k arbitrary: i h)
  case 0
  then show ?case by simp
next
  case (Suc k)
  have i: "i < length uis" using Suc.prems(1) by simp
  then have "take (Suc k) (drop i uis) = uis ! i # take k (drop (Suc i) uis)"
    by (simp add: Cons_nth_drop_Suc [symmetric])
  then obtain ui' h1 where h1: "clear_interface (uis ! i) h = Some (ui', h1)"
    "owns_blocks h0 (concat (map interface_blocks (take k (drop (Suc i) uis))) @ bs) h1"
    using Suc.prems(2,3) clear_interface_owned [of "uis ! i"] i by fastforce
  show ?case using Suc.IH [OF _ Suc.prems(2) h1(2)] Suc.prems(1) h1(1) i by (simp add: mem_simps)
qed

lemma clear_configuration_owned:
  assumes "config_wf c" "owns_blocks h0 (config_blocks c @ bs) h"
  shows "\<exists>h'. clear_configuration c h = Some h' \<and> owns_blocks h0 bs h'"
proof -
  have step: "\<exists>h1. (if cf_interface c \<noteq> 0 then do {
              h1 \<leftarrow> clear_interfaces (unat (bNumInterfaces c)) 0 (cf_interfaces c) h;
              free_block (cf_interface c) h1 } else Some h) = Some h1
      \<and> owns_blocks h0 (ptr_blocks (cf_extra c) @ bs) h1"
  proof (cases "cf_interface c = 0")
    case True
    then show ?thesis using assms(2) by (simp add: config_blocks_def)
  next
    case False
    have "owns_blocks h0 (concat (map interface_blocks (take (unat (bNumInterfaces c)) (drop 0 (cf_interfaces c))))
        @ [cf_interface c] @ ptr_blocks (cf_extra c) @ bs) h"
      using assms(2) False by (simp add: config_blocks_def)
    then obtain h1 where h1: "clear_interfaces (unat (bNumInterfaces c)) 0 (cf_interfaces c) h = Some h1"
      "owns_blocks h0 ([cf_interface c] @ ptr_blocks (cf_extra c) @ bs) h1"
      using clear_interfaces_owned [of 0] assms(1) by (fastforce simp: config_wf_def)
    obtain h2 where "free_block (cf_interface c) h1 = Some h2" "owns_blocks h0 (ptr_blocks (cf_extra c) @ bs) h2"
      using free_block_owned h1(2) by fastforce
    then show ?thesis using False h1(1) by simp
  qed
  then obtain h1 where h1: "(if cf_interface c \<noteq> 0 then do {
              h1 \<leftarrow> clear_interfaces (unat (bNumInterfaces c)) 0 (cf_interfaces c) h;
              free_block (cf_interface c) h1 } else Some h) = Some h1"
      "owns_blocks h0 (ptr_blocks (cf_extra c) @ bs) h1" by blast
  obtain h2 where "free_block (cf_extra c) h1 = Some h2" "owns_blocks h0 bs h2"
    using free_ptr_owned [OF h1(2)] by blast
  then show ?thesis unfolding clear_configuration_def h1(1) by auto
qed

section \<open>Parsing keeps the account\<close>

lemma get_bytes_ok: "n \<le> length buf \<Longrightarrow> get_bytes 0 n buf = Some (take n buf)"
  by (simp add: get_bytes_def)

lemma parse_endpoint_owned:
  assumes "sz \<le> int (length buf)" "ep_extra e = 0" "owns_blocks h0 bs h"
  shows "\<exists>r e' h'. parse_endpoint e buf sz h = Some (r, e', h') \<and> (0 < r \<longrightarrow> r \<le> sz)
    \<and> (r \<le> 0 \<longrightarrow> ep_extra e' = 0) \<and> owns_blocks h0 (endpoint_blocks e' @ bs) h'"
proof (cases "sz < 2")
  case True
  then show ?thesis using assms by (simp add: parse_endpoint_def endpoint_blocks_def)
next
  case False
  then obtain a b r where h: "buf = a # b # r" "parse_header buf = Some (a, b)"
    using parse_header_ok [of buf] assms(1) by auto
  show ?thesis
  proof (cases "b \<noteq> DT_ENDPOINT \<or> sz < uint a \<or> a < ENDPOINT_DESC_LENGTH")
    case True
    then show ?thesis using False h(2) assms(2,3)
      by (auto simp: parse_endpoint_def endpoint_blocks_def)
  next
    case ok: False
    have len: "uint a \<le> int (length buf)" using ok assms(1) by linarith
    have apos: "7 \<le> uint a" using ok by (simp add: word_less_def)
    obtain e1 where e1: "read_endpoint a buf e = Some e1" "ep_extra e1 = 0"
      using read_endpoint_ok [OF len, of e] ok assms(2) by auto
    let ?first = "drop (unat a) buf"
    have sz1: "sz - uint a \<le> int (length ?first)" by (rule rest_of_data [OF assms(1)])
    obtain stop n where sk: "skip_extra ?first (sz - uint a) = Some (stop, n)"
      "n \<le> length ?first" "int n \<le> sz - uint a" using skip_extra_ok [OF sz1] ok by auto
    show ?thesis
    proof (cases rule: new_block_cases [OF assms(3)])
      case (1 p h1)
      then show ?thesis using False h(2) ok e1 sk apos assms(3) get_bytes_ok [OF sk(2)]
        by (cases stop) (auto simp: parse_endpoint_def Let_def endpoint_blocks_def)
    next
      case (2 h1)
      then show ?thesis using False h(2) ok e1 sk apos assms(3) get_bytes_ok [OF sk(2)]
        by (cases stop) (auto simp: parse_endpoint_def Let_def endpoint_blocks_def)
    qed
  qed
qed

lemma concat_update:
  "i < length xs \<Longrightarrow> f (xs ! i) = [] \<Longrightarrow>
     mset (concat (map f (xs[i := y]))) = mset (concat (map f xs)) + mset (f y)"
proof (induction xs arbitrary: i)
  case (Cons x xs)
  then show ?case by (cases i) (auto simp: ac_simps)
qed simp

lemma parse_endpoints_owned:
  "i + k = length eps \<Longrightarrow> sz \<le> int (length buf) \<Longrightarrow> \<forall>j. i \<le> j \<longrightarrow> j < length eps \<longrightarrow> ep_extra (eps ! j) = 0 \<Longrightarrow>
   owns_blocks h0 (concat (map endpoint_blocks eps) @ bs) h \<Longrightarrow>
     \<exists>stop n eps' h'. parse_endpoints k i buf sz eps h = Some (stop, n, eps', h')
       \<and> length eps' = length eps \<and> (0 < n \<longrightarrow> int n \<le> sz)
       \<and> owns_blocks h0 (concat (map endpoint_blocks eps') @ bs) h'
       \<and> (\<forall>r. stop = Ep_error r \<longrightarrow> r < 0)
       \<and> (\<forall>m. stop = Ep_stop m \<longrightarrow> m < length eps \<and> concat (map endpoint_blocks (drop m eps')) = [])"
proof (induction k arbitrary: i buf sz eps h)
  case 0
  then show ?case by simp
next
  case (Suc k)
  have i: "i < length eps" "ep_extra (eps ! i) = 0" using Suc.prems(1,3) by auto
  obtain r e' h1 where e': "parse_endpoint (eps ! i) buf sz h = Some (r, e', h1)"
    "0 < r \<longrightarrow> r \<le> sz" "r \<le> 0 \<longrightarrow> ep_extra e' = 0"
    "owns_blocks h0 (endpoint_blocks e' @ concat (map endpoint_blocks eps) @ bs) h1"
    using parse_endpoint_owned [OF Suc.prems(2) i(2) Suc.prems(4)] by blast
  let ?eps = "eps[i := e']"
  have own1: "owns_blocks h0 (concat (map endpoint_blocks ?eps) @ bs) h1"
    by (rule owned_permI [OF e'(4)])
      (use concat_update [OF i(1), of endpoint_blocks e'] i(2) in \<open>simp add: endpoint_blocks_def ac_simps\<close>)
  show ?case
  proof (cases "r \<le> 0")
    case True
    have "endpoint_blocks x = []" if "x \<in> set (drop i ?eps)" for x
    proof -
      obtain j where "j < length eps - i" "x = ?eps ! (i + j)" using \<open>x \<in> _\<close> by (auto simp: in_set_conv_nth)
      then show ?thesis using Suc.prems(3) e'(3) True i(1)
        by (cases "j = 0") (auto simp: endpoint_blocks_def)
    qed
    then have "concat (map endpoint_blocks (drop i ?eps)) = []" by simp
    then show ?thesis using True e'(1) own1 i(1) by (cases "r = 0") (auto simp: mem_simps Let_def)
  next
    case False
    have sz1: "sz - r \<le> int (length (drop (nat r) buf))" using Suc.prems(2) False by (simp add: of_nat_diff)
    obtain stop n eps' h' where rec: "parse_endpoints k (Suc i) (drop (nat r) buf) (sz - r) ?eps h1
          = Some (stop, n, eps', h')" "length eps' = length eps" "0 < n \<longrightarrow> int n \<le> sz - r"
        "owns_blocks h0 (concat (map endpoint_blocks eps') @ bs) h'" "\<forall>r. stop = Ep_error r \<longrightarrow> r < 0"
        "\<forall>m. stop = Ep_stop m \<longrightarrow> m < length eps \<and> concat (map endpoint_blocks (drop m eps')) = []"
      using Suc.IH [where i = "Suc i", OF _ sz1 _ own1] Suc.prems(1,3) by fastforce
    have "int (nat r + n) \<le> sz" using False e'(2) rec(3) by (cases "n = 0") auto
    then show ?thesis using False e'(1) rec i(1) by (auto simp: mem_simps Let_def)
  qed
qed

lemma parse_alt_body_owned:
  assumes "sz \<le> int (length buf)" "0 \<le> sz" "owns_blocks h0 bs h" "if_extra a = 0" "if_endpoint a = 0"
  shows "\<exists>stop n a' h'. parse_alt_body a buf sz h = Some (stop, n, a', h')
    \<and> int n \<le> sz \<and> altsetting_wf a' \<and> owns_blocks h0 (altsetting_blocks a' @ bs) h'
    \<and> (\<forall>r. stop = Alt_error r \<longrightarrow> r < 0)"
proof -
  obtain stop n where sk: "skip_extra buf sz = Some (stop, n)" "n \<le> length buf" "int n \<le> sz"
    using skip_extra_ok [OF assms(1)] assms(2) by auto
  show ?thesis
  proof (cases "stop = Skip_done")
    case False
    then show ?thesis using sk assms(3-5)
      by (cases stop) (auto simp: parse_alt_body_def altsetting_wf_def altsetting_blocks_def)
  next
    case True
    let ?alloc = "if n = 0 then Some (True, a, h)
            else let (p, h1) = new_block h in
              if p = 0 then Some (False, a\<lparr>if_extra := 0\<rparr>, h1)
              else do { bs \<leftarrow> get_bytes 0 n buf;
                        Some (True, a\<lparr>if_extra := p, if_extra_data := bs, if_extra_length := int n\<rparr>, h1) }"
    have "\<exists>ok a1 h1. ?alloc = Some (ok, a1, h1) \<and> owns_blocks h0 (ptr_blocks (if_extra a1) @ bs) h1
          \<and> if_endpoint a1 = 0 \<and> bNumEndpoints a1 = bNumEndpoints a"
    proof (cases rule: new_block_cases [OF assms(3)])
      case (1 p h1)
      then show ?thesis using get_bytes_ok [OF sk(2)] assms(3-5) by (auto simp: Let_def)
    next
      case (2 h1)
      then show ?thesis using assms(3-5) by (auto simp: Let_def)
    qed
    then obtain ok a1 h1 where a1: "?alloc = Some (ok, a1, h1)" "owns_blocks h0 (ptr_blocks (if_extra a1) @ bs) h1"
          "if_endpoint a1 = 0" "bNumEndpoints a1 = bNumEndpoints a" by blast
    consider (bad) "\<not> ok" | (none) "ok" "bNumEndpoints a1 = 0"
      | (refused) h2 where "ok" "bNumEndpoints a1 \<noteq> 0" "new_block h1 = (0, h2)" "owns_blocks h0 (ptr_blocks (if_extra a1) @ bs) h2"
      | (granted) p h2 where "ok" "bNumEndpoints a1 \<noteq> 0" "new_block h1 = (p, h2)" "p \<noteq> 0"
          "owns_blocks h0 (p # ptr_blocks (if_extra a1) @ bs) h2"
      using new_block_cases [OF a1(2)] by metis
    then show ?thesis
    proof cases
      case bad
      then show ?thesis using \<open>stop = Skip_done\<close> sk a1
        by (simp add: parse_alt_body_def altsetting_wf_def altsetting_blocks_def)
    next
      case none
      then show ?thesis using \<open>stop = Skip_done\<close> sk a1
        by (simp add: parse_alt_body_def altsetting_wf_def altsetting_blocks_def)
    next
      case refused
      then show ?thesis using \<open>stop = Skip_done\<close> sk a1
        by (simp add: parse_alt_body_def altsetting_wf_def altsetting_blocks_def)
    next
      case granted
      note p = granted(3-5)
      let ?cnt = "unat (bNumEndpoints a1)"
      have sz1: "sz - int n \<le> int (length (drop n buf))" by (rule rest_of_data_nat [OF assms(1)])
      have z: "concat (map endpoint_blocks (replicate ?cnt zero_endpoint)) = []"
        by (simp add: endpoint_blocks_def zero_endpoint_def)
      obtain estop k eps h3 where e: "parse_endpoints ?cnt 0 (drop n buf) (sz - int n)
            (replicate ?cnt zero_endpoint) h2 = Some (estop, k, eps, h3)"
          "length eps = ?cnt" "0 < k \<longrightarrow> int k \<le> sz - int n"
          "owns_blocks h0 (concat (map endpoint_blocks eps) @ p # ptr_blocks (if_extra a1) @ bs) h3"
          "\<forall>r. estop = Ep_error r \<longrightarrow> r < 0"
          "\<forall>m. estop = Ep_stop m \<longrightarrow> m < ?cnt \<and> concat (map endpoint_blocks (drop m eps)) = []"
        using parse_endpoints_owned [OF _ sz1, of 0 ?cnt "replicate ?cnt zero_endpoint" h0
            "p # ptr_blocks (if_extra a1) @ bs" h2] p(3) z by (fastforce simp: zero_endpoint_def)
      have own: "owns_blocks h0 (ptr_blocks (if_extra a1) @ concat (map endpoint_blocks eps) @ [p] @ bs) h3"
        by (rule owned_permI [OF e(4)]) simp
      have nk: "int (n + k) \<le> sz" using sk(3) e(3) by (cases "k = 0") auto
      have whole: "take ?cnt eps = eps" using e(2) by simp
      have part: "concat (map endpoint_blocks (take m eps)) = concat (map endpoint_blocks eps)"
        and small: "unat (of_nat m :: u8) = m" if "estop = Ep_stop m" for m
      proof -
        have "concat (map endpoint_blocks eps)
            = concat (map endpoint_blocks (take m eps)) @ concat (map endpoint_blocks (drop m eps))"
          by (metis append_take_drop_id concat_append map_append)
        then show "concat (map endpoint_blocks (take m eps)) = concat (map endpoint_blocks eps)"
          using e(6) that by simp
        have "m < ?cnt" using e(6) that by simp
        also have "?cnt < 256" using unsigned_less [of "bNumEndpoints a1", where 'a = nat] by simp
        finally have "m < 256" .
        then show "unat (of_nat m :: u8) = m" by (simp add: unat_of_nat)
      qed
      show ?thesis
        using \<open>stop = Skip_done\<close> sk(1) a1(1) granted(1,2) p(1,2) e(1,2,5,6) nk own whole part small
        by (cases estop)
          (auto simp: parse_alt_body_def Let_def altsetting_wf_def altsetting_blocks_def)
    qed
  qed
qed

lemma is_alternate_ok: "sz \<le> int (length buf) \<Longrightarrow> \<exists>x. is_alternate buf sz ifnum = Some x"
  by (auto simp: is_alternate_def get_at_def)

lemma interface_blocks_snoc:
  "altsetting ui \<noteq> 0 \<Longrightarrow>
     mset (interface_blocks (ui\<lparr>altsettings := altsettings ui @ [a]\<rparr>))
       = mset (altsetting_blocks a) + mset (interface_blocks ui)"
  by (simp add: interface_blocks_def)

lemma read_altsetting_ok:
  "9 \<le> length buf \<Longrightarrow> \<exists>a. read_altsetting buf = Some a \<and> if_extra a = 0 \<and> if_endpoint a = 0"
  using buf9 [of buf] by (auto simp: desc_simps)

lemma parse_altsettings_owned:
  assumes "sz \<le> int (length buf)" "0 \<le> parsed" "interface_wf ui"
    "owns_blocks h0 (interface_blocks ui @ bs) h"
  shows "\<exists>r ui' h'. parse_altsettings ui ifnum buf sz parsed h = Some (r, ui', h')
    \<and> (0 \<le> sz \<longrightarrow> r \<le> parsed + sz) \<and> (r < 0 \<longrightarrow> altsetting ui' = 0)
    \<and> (0 \<le> r \<longrightarrow> interface_wf ui') \<and> owns_blocks h0 (interface_blocks ui' @ bs) h'
    \<and> (r = 0 \<longrightarrow> parsed = 0 \<and> altsettings ui' = altsettings ui) \<and> (sz < 0 \<longrightarrow> r = parsed)"
  using assms
proof (induction "nat sz" arbitrary: ui ifnum buf sz parsed h rule: less_induct)
  case less
  note simps = parse_altsettings.simps [of ui ifnum buf sz parsed h]
  show ?case
  proof (cases "sz < 9")
    case True
    then show ?thesis using less.prems(2-4) by (simp add: simps)
  next
    case False
    have ublocks: "interface_blocks ui
        = concat (map altsetting_blocks (altsettings ui)) @ ptr_blocks (altsetting ui)"
      using less.prems(3) by (auto simp: interface_blocks_def interface_wf_def)
    have "owns_blocks h0 (ptr_blocks (altsetting ui) @ concat (map altsetting_blocks (altsettings ui)) @ bs) h"
      by (rule owned_permI [OF less.prems(4)]) (simp add: ublocks)
    then obtain p h1 where p0: "usbi_reallocf (altsetting ui) h = Some (p, h1)" "p = 0 \<longrightarrow> altsetting ui = 0"
      "owns_blocks h0 (ptr_blocks p @ concat (map altsetting_blocks (altsettings ui)) @ bs) h1"
      using reallocf_owned by blast
    show ?thesis
    proof (cases "p = 0")
      case True
      then have "altsetting ui = 0" "altsettings ui = []" using p0(2) less.prems(3) by (auto simp: interface_wf_def)
      then show ?thesis using True False p0(1,3) less.prems(2)
        by (simp add: simps clear_interface_def interface_blocks_def)
    next
      case pos: False
      then have p: "usbi_reallocf (altsetting ui) h = Some (p, h1)" "p \<noteq> 0"
        "owns_blocks h0 (p # concat (map altsetting_blocks (altsettings ui)) @ bs) h1" using p0 by auto
    define ui1 where "ui1 = ui\<lparr>altsetting := p\<rparr>"
    have ui1: "altsetting ui1 \<noteq> 0" "altsettings ui1 = altsettings ui" "interface_wf ui1"
      using p(2) less.prems(3) by (auto simp: ui1_def interface_wf_def)
    have own1: "owns_blocks h0 (interface_blocks ui1 @ bs) h1"
      by (rule owned_permI [OF p(3)]) (use p(2) in \<open>simp add: ui1_def interface_blocks_def\<close>)
    obtain a where a: "read_altsetting buf = Some a" "if_extra a = 0" "if_endpoint a = 0"
      using read_altsetting_ok [of buf] False less.prems(1) by auto
    obtain ui0 h0' where clr: "clear_interface ui1 h1 = Some (ui0, h0')" "owns_blocks h0 bs h0'" "altsetting ui0 = 0"
      using clear_interface_owned [OF wf_clearable [OF ui1(3)] own1] by blast
    have clr0: "interface_blocks ui0 = []" using clr(3) by (simp add: interface_blocks_def)
    consider (type) "if_bDescriptorType a \<noteq> DT_INTERFACE"
      | (bad) "if_bDescriptorType a = DT_INTERFACE" "uint (if_bLength a) < 9"
      | (short) "if_bDescriptorType a = DT_INTERFACE" "\<not> uint (if_bLength a) < 9" "sz < uint (if_bLength a)"
      | (many) "if_bDescriptorType a = DT_INTERFACE" "\<not> uint (if_bLength a) < 9"
          "\<not> sz < uint (if_bLength a)" "USB_MAXENDPOINTS < bNumEndpoints a"
      | (go) "if_bDescriptorType a = DT_INTERFACE" "\<not> uint (if_bLength a) < 9"
          "\<not> sz < uint (if_bLength a)" "\<not> USB_MAXENDPOINTS < bNumEndpoints a" by blast
    then show ?thesis
    proof cases
      case type
      then show ?thesis using False p(1,2) a(1) ui1 own1 less.prems(2)
        by (simp add: simps flip: ui1_def)
    next
      case bad
      then show ?thesis using False p(1,2) a(1) clr clr0 less.prems(2) by (simp add: simps flip: ui1_def)
    next
      case short
      then show ?thesis using False p(1,2) a(1) ui1 own1 less.prems(2) by (simp add: simps flip: ui1_def)
    next
      case many
      then show ?thesis using False p(1,2) a(1) clr clr0 less.prems(2) by (simp add: simps flip: ui1_def)
    next
      case go
      define buf1 where "buf1 = drop (unat (if_bLength a)) buf"
      define sz1 where "sz1 = sz - uint (if_bLength a)"
      define ifnum1 where "ifnum1 = (if ifnum = -1 then uint (bInterfaceNumber a) else ifnum)"
      have sz1: "sz1 \<le> int (length buf1)" "0 \<le> sz1"
        unfolding sz1_def buf1_def using rest_of_data [OF less.prems(1)] go(3) by auto
      obtain stop n a1 h2 where body: "parse_alt_body a buf1 sz1 h1 = Some (stop, n, a1, h2)"
        "int n \<le> sz1" "altsetting_wf a1"
        "owns_blocks h0 (altsetting_blocks a1 @ interface_blocks ui1 @ bs) h2"
        "\<forall>r. stop = Alt_error r \<longrightarrow> r < 0"
        using parse_alt_body_owned [OF sz1 own1 a(2,3)] by blast
      define ui2 where "ui2 = ui1\<lparr>altsettings := altsettings ui1 @ [a1]\<rparr>"
      have wf2: "interface_wf ui2" using ui1 body(3) by (auto simp: ui2_def interface_wf_def)
      have own2: "owns_blocks h0 (interface_blocks ui2 @ bs) h2"
        by (rule owned_permI [OF body(4)]) (simp add: ui2_def interface_blocks_snoc [OF ui1(1)])
      obtain ui3 h3 where clr2: "clear_interface ui2 h2 = Some (ui3, h3)" "owns_blocks h0 bs h3" "altsetting ui3 = 0"
        using clear_interface_owned [OF wf_clearable [OF wf2] own2] by blast
      have clr3: "interface_blocks ui3 = []" using clr2(3) by (simp add: interface_blocks_def)
      have sz2: "sz1 - int n \<le> int (length (drop n buf1))" by (rule rest_of_data_nat [OF sz1(1)])
      obtain again where again: "is_alternate (drop n buf1) (sz1 - int n) ifnum1 = Some again"
        using is_alternate_ok [OF sz2] by blast
      have run: "parse_altsettings ui ifnum buf sz parsed h =
        (case stop of
           Alt_error r \<Rightarrow> Some (r, ui3, h3)
         | Alt_return \<Rightarrow> Some (parsed + uint (if_bLength a) + int n, ui2, h2)
         | Alt_next \<Rightarrow>
             (if again then parse_altsettings ui2 ifnum1 (drop n buf1) (sz1 - int n)
                (parsed + uint (if_bLength a) + int n) h2
              else Some (parsed + uint (if_bLength a) + int n, ui2, h2)))"
        using False p(1,2) a(1) go body(1) clr2(1) again
        by (simp add: simps Let_def flip: ui1_def buf1_def sz1_def ifnum1_def ui2_def
              split: alt_end.split)
      have bound: "parsed + uint (if_bLength a) + int n \<le> parsed + sz" "0 < parsed + uint (if_bLength a) + int n"
        using body(2) go(2) less.prems(2) by (auto simp: sz1_def)
      show ?thesis
      proof (cases "stop = Alt_next \<and> again")
        case False
        then show ?thesis unfolding run using bound clr2 clr3 wf2 own2 body(5) \<open>\<not> sz < 9\<close> less.prems(2)
          by (cases stop) force+
      next
        case True
        have lt: "nat (sz1 - int n) < nat sz" using go(2) sz1(2) by (simp add: sz1_def)
        have nn: "0 \<le> parsed + uint (if_bLength a) + int n" using bound(2) by linarith
        obtain r ui' h' where rec: "parse_altsettings ui2 ifnum1 (drop n buf1) (sz1 - int n)
              (parsed + uint (if_bLength a) + int n) h2 = Some (r, ui', h')"
            "0 \<le> sz1 - int n \<longrightarrow> r \<le> parsed + uint (if_bLength a) + int n + (sz1 - int n)"
            "r < 0 \<longrightarrow> altsetting ui' = 0" "0 \<le> r \<longrightarrow> interface_wf ui'"
            "owns_blocks h0 (interface_blocks ui' @ bs) h'"
            "r = 0 \<longrightarrow> parsed + uint (if_bLength a) + int n = 0 \<and> altsettings ui' = altsettings ui2"
          using less.hyps [OF lt sz2 nn wf2 own2] by blast
        have "r \<le> parsed + sz" using rec(2) body(2) by (simp add: sz1_def)
        then show ?thesis unfolding run using True rec bound(2) \<open>\<not> sz < 9\<close> by auto
      qed
    qed
    qed
  qed
qed

text \<open>The state of \<open>parse_configuration\<close> before interface \<open>i\<close>: the entries from \<open>i\<close> on are as
  \<open>memset\<close> left them.\<close>

definition config_at :: "nat \<Rightarrow> usb_config \<Rightarrow> bool" where
  "config_at i c \<longleftrightarrow> cf_interface c \<noteq> 0 \<and> unat (bNumInterfaces c) = length (cf_interfaces c)
     \<and> (\<forall>ui \<in> set (cf_interfaces c). clearable ui)
     \<and> (\<forall>j. i \<le> j \<longrightarrow> j < length (cf_interfaces c) \<longrightarrow> cf_interfaces c ! j = zero_interface)
     \<and> (cf_extra_length c = 0 \<longrightarrow> cf_extra c = 0)"

lemma config_at_wf: "config_at i c \<Longrightarrow> config_wf c"
  by (simp add: config_at_def config_wf_def)

lemma config_at_blocks:
  "config_at i c \<Longrightarrow> config_blocks c =
     concat (map interface_blocks (cf_interfaces c)) @ cf_interface c # ptr_blocks (cf_extra c)"
  by (simp add: config_at_def config_blocks_def)

lemma zero_interface_blocks [simp]: "interface_blocks zero_interface = []"
  by (simp add: zero_interface_def interface_blocks_def)

lemma zero_interface_wf [simp]: "interface_wf zero_interface"
  by (simp add: zero_interface_def interface_wf_def)

lemma parse_interface_owned:
  assumes "sz \<le> int (length buf)" "0 \<le> sz" "owns_blocks h0 bs h"
  shows "\<exists>r ui' h'. parse_interface zero_interface buf sz h = Some (r, ui', h') \<and> r \<le> sz
    \<and> clearable ui' \<and> owns_blocks h0 (interface_blocks ui' @ bs) h' \<and> (r = 0 \<longrightarrow> altsettings ui' = [])"
proof -
  have z: "interface_blocks (zero_interface\<lparr>altsettings := []\<rparr>) = []"
    "interface_wf (zero_interface\<lparr>altsettings := []\<rparr>)"
    by (simp_all add: zero_interface_def interface_blocks_def interface_wf_def)
  obtain r ui' h' where "parse_altsettings (zero_interface\<lparr>altsettings := []\<rparr>) (- 1) buf sz 0 h = Some (r, ui', h')"
    "0 \<le> sz \<longrightarrow> r \<le> 0 + sz" "r < 0 \<longrightarrow> altsetting ui' = 0" "0 \<le> r \<longrightarrow> interface_wf ui'"
    "owns_blocks h0 (interface_blocks ui' @ bs) h'" "r = 0 \<longrightarrow> (0 :: int) = 0 \<and> altsettings ui' = []"
    using parse_altsettings_owned [OF assms(1) order.refl z(2), of h0 bs h "-1"] assms(3) z(1) by fastforce
  then show ?thesis using assms(2) wf_clearable [of ui']
    by (cases "r < 0") (auto simp: parse_interface_def clearable_def)
qed

lemma length_one: "length (ptr_blocks p) \<le> 1"
  by (simp add: ptr_blocks_def)

lemma concat_map_upd:
  "i < length xs \<Longrightarrow> concat (map f (drop (Suc i) (xs[i := y]))) = [] \<Longrightarrow>
     concat (map f (xs[i := y])) = concat (map f (take i xs)) @ f y"
  by (simp add: upd_conv_take_nth_drop)

text \<open>\<open>parse_configuration\<close> gives up an interface whose array is allocated but empty when the
  descriptor it expects is not an interface descriptor.  Lowering \<open>bNumInterfaces\<close> then loses
  the array: \<open>lost\<close> is that one block.\<close>

lemma parse_interfaces_owned:
  assumes "i + k = length (cf_interfaces c)" "config_at i c" "sz \<le> int (length buf)" "0 \<le> sz"
    "owns_blocks h0 (config_blocks c @ bs) h"
  shows "\<exists>r c' h'. parse_interfaces k i c buf sz h = Some (r, c', h') \<and> r \<le> sz
    \<and> (r < 0 \<longrightarrow> owns_blocks h0 bs h')
    \<and> (0 \<le> r \<longrightarrow> config_wf c' \<and> (\<exists>lost. length lost \<le> 1 \<and> owns_blocks h0 (config_blocks c' @ lost @ bs) h'
         \<and> (bNumInterfaces c' = bNumInterfaces c \<longrightarrow> lost = [])))"
  using assms
proof (induction k arbitrary: i c buf sz h)
  case 0
  then show ?case using config_at_wf by fastforce
next
  case (Suc k)
  obtain stop n where sk: "skip_extra buf sz = Some (stop, n)" "n \<le> length buf" "int n \<le> sz"
    using skip_extra_ok [OF Suc.prems(3)] Suc.prems(4) by auto
  have small: "unat (of_nat i :: u8) = i"
  proof -
    have "i < length (cf_interfaces c)" using Suc.prems(1) by simp
    also have "\<dots> = unat (bNumInterfaces c)" using Suc.prems(2) by (simp add: config_at_def)
    also have "\<dots> < 256" using unsigned_less [of "bNumInterfaces c", where 'a = nat] by simp
    finally show ?thesis by (simp add: unat_of_nat)
  qed
  have lower: "config_blocks (d\<lparr>bNumInterfaces := of_nat i\<rparr>) =
      concat (map interface_blocks (take i (cf_interfaces d))) @ cf_interface d # ptr_blocks (cf_extra d)"
    if "cf_interface d \<noteq> 0" for d
    using that small by (simp add: config_blocks_def)
  show ?case
  proof (cases stop)
    case Skip_invalid
    obtain h' where "clear_configuration c h = Some h'" "owns_blocks h0 bs h'"
      using clear_configuration_owned [OF config_at_wf [OF Suc.prems(2)] Suc.prems(5)] by blast
    then show ?thesis using Skip_invalid sk(1) Suc.prems(4) by simp
  next
    case Skip_short
    have "cf_interfaces c = take i (cf_interfaces c) @ drop i (cf_interfaces c)" by simp
    moreover have "concat (map interface_blocks (drop i (cf_interfaces c))) = []"
      using Suc.prems(2) by (auto simp: config_at_def in_set_conv_nth)
    ultimately have "concat (map interface_blocks (cf_interfaces c))
        = concat (map interface_blocks (take i (cf_interfaces c)))"
      by (metis append.right_neutral concat_append map_append)
    then have "config_blocks (c\<lparr>bNumInterfaces := of_nat i\<rparr>) = config_blocks c"
      using lower config_at_blocks [OF Suc.prems(2)] Suc.prems(2) by (simp add: config_at_def)
    then have "owns_blocks h0 (config_blocks (c\<lparr>bNumInterfaces := of_nat i\<rparr>) @ [] @ bs) h" using Suc.prems(5) by simp
    moreover have "config_wf (c\<lparr>bNumInterfaces := of_nat i\<rparr>)"
      using config_at_wf [OF Suc.prems(2)] Suc.prems(1) small by (simp add: config_wf_def)
    moreover have "parse_interfaces (Suc k) i c buf sz h = Some (sz - int n, c\<lparr>bNumInterfaces := of_nat i\<rparr>, h)"
      using Skip_short sk(1) by simp
    ultimately show ?thesis using sk(3) by (auto intro!: exI [of _ "[]"])
  next
    case Skip_done
    let ?alloc = "if n = 0 \<or> cf_extra_length c \<noteq> 0 then Some (True, c, h)
            else let (p, h1) = new_block h in
              if p = 0 then Some (False, c\<lparr>cf_extra := 0\<rparr>, h1)
              else do { bs \<leftarrow> get_bytes 0 n buf;
                        Some (True, c\<lparr>cf_extra := p, cf_extra_data := bs, cf_extra_length := int n\<rparr>, h1) }"
    have "\<exists>ok c1 h1. ?alloc = Some (ok, c1, h1) \<and> config_at i c1 \<and> cf_interfaces c1 = cf_interfaces c
        \<and> bNumInterfaces c1 = bNumInterfaces c \<and> owns_blocks h0 (config_blocks c1 @ bs) h1"
    proof (cases "n = 0 \<or> cf_extra_length c \<noteq> 0")
      case True
      then show ?thesis using Suc.prems(2,5) by auto
    next
      case False
      show ?thesis
      proof (cases rule: new_block_cases [OF Suc.prems(5)])
      case (2 h1)
      have "config_at i (c\<lparr>cf_extra := 0\<rparr>)" "config_blocks (c\<lparr>cf_extra := 0\<rparr>) = config_blocks c"
        using Suc.prems(2) False by (simp_all add: config_at_def config_blocks_def)
      then show ?thesis using False 2(1,2) by (auto intro!: exI [of _ False])
      next
      case p: (1 p h1)
      let ?c1 = "c\<lparr>cf_extra := p, cf_extra_data := take n buf, cf_extra_length := int n\<rparr>"
      have at: "config_at i ?c1" using Suc.prems(2) False by (simp add: config_at_def)
      have "owns_blocks h0 (config_blocks ?c1 @ bs) h1"
        by (rule owned_permI [OF p(3)])
          (use Suc.prems(2) False p(2) in \<open>simp add: config_at_blocks [OF at] config_at_blocks [OF Suc.prems(2)] config_at_def\<close>)
      then show ?thesis using False p(1,2) get_bytes_ok [OF sk(2)] at by (auto intro!: exI [of _ True])
      qed
    qed
    then obtain ok c1 h1 where c1: "?alloc = Some (ok, c1, h1)" "config_at i c1"
      "cf_interfaces c1 = cf_interfaces c" "bNumInterfaces c1 = bNumInterfaces c"
      "owns_blocks h0 (config_blocks c1 @ bs) h1" by blast
    show ?thesis
    proof (cases ok)
      case False
      obtain h2 where "clear_configuration c1 h1 = Some h2" "owns_blocks h0 bs h2"
        using clear_configuration_owned [OF config_at_wf [OF c1(2)] c1(5)] by blast
      then show ?thesis using False Skip_done sk(1) c1(1) Suc.prems(4) by simp
    next
      case granted: True
    have ui: "get_at i (cf_interfaces c1) = Some zero_interface"
      using Suc.prems(1) c1(2,3) by (auto simp: config_at_def get_at_def)
    let ?buf1 = "drop n buf" let ?sz1 = "sz - int n"
    have sz1: "?sz1 \<le> int (length ?buf1)" "0 \<le> ?sz1" using rest_of_data_nat [OF Suc.prems(3)] sk(3) by auto
    obtain r ui1 h2 where pi: "parse_interface zero_interface ?buf1 ?sz1 h1 = Some (r, ui1, h2)" "r \<le> ?sz1"
      "clearable ui1" "owns_blocks h0 (interface_blocks ui1 @ config_blocks c1 @ bs) h2" "r = 0 \<longrightarrow> altsettings ui1 = []"
      using parse_interface_owned [OF sz1 c1(5)] by blast
    let ?c2 = "c1\<lparr>cf_interfaces := (cf_interfaces c1)[i := ui1]\<rparr>"
    have i1: "i < length (cf_interfaces c1)" using Suc.prems(1) c1(3) by simp
    have at2: "config_at (Suc i) ?c2"
      using c1(2) i1 pi(3) set_update_subset_insert [of "cf_interfaces c1" i ui1]
      by (auto simp: config_at_def)
    have own2: "owns_blocks h0 (config_blocks ?c2 @ bs) h2"
      by (rule owned_permI [OF pi(4)])
        (use ui i1 concat_update [OF i1, of interface_blocks ui1] in
          \<open>simp add: config_at_blocks [OF at2] config_at_blocks [OF c1(2)] get_at_def ac_simps\<close>)
    have run: "parse_interfaces (Suc k) i c buf sz h =
        (if r < 0 then do { h3 \<leftarrow> clear_configuration ?c2 h2; Some (r, ?c2, h3) }
         else if r = 0 then Some (?sz1, ?c2\<lparr>bNumInterfaces := of_nat i\<rparr>, h2)
         else parse_interfaces k (Suc i) ?c2 (drop (nat r) ?buf1) (?sz1 - r) h2)"
      using Skip_done sk(1) c1(1) granted ui pi(1) by (simp add: Let_def)
    consider "r < 0" | "r = 0" | "0 < r" by linarith
    then show ?thesis
    proof cases
      case 1
      obtain h3 where "clear_configuration ?c2 h2 = Some h3" "owns_blocks h0 bs h3"
        using clear_configuration_owned [OF config_at_wf [OF at2] own2] by blast
      then show ?thesis using run 1 Suc.prems(4) by simp
    next
      case 2
      let ?c3 = "?c2\<lparr>bNumInterfaces := of_nat i\<rparr>"
      have "concat (map interface_blocks (drop (Suc i) (cf_interfaces ?c2))) = []"
        using at2 by (auto simp: config_at_def in_set_conv_nth)
      then have split: "concat (map interface_blocks (cf_interfaces ?c2))
          = concat (map interface_blocks (take i (cf_interfaces ?c2))) @ interface_blocks ui1"
        using concat_map_upd [OF i1, of interface_blocks ui1] by simp
      have lost: "interface_blocks ui1 = ptr_blocks (altsetting ui1)"
        using pi(5) 2 by (auto simp: interface_blocks_def)
      have "owns_blocks h0 (config_blocks ?c3 @ interface_blocks ui1 @ bs) h2"
        by (rule owned_permI [OF own2])
          (use at2 split in \<open>simp add: config_at_blocks [OF at2] lower config_at_def\<close>)
      moreover have "config_wf ?c3" using config_at_wf [OF at2] i1 small by (simp add: config_wf_def)
      moreover have "bNumInterfaces ?c3 \<noteq> bNumInterfaces c"
      proof
        assume "bNumInterfaces ?c3 = bNumInterfaces c"
        then have "unat (bNumInterfaces c) = i" using small by simp
        then show False using Suc.prems(1,2) by (simp add: config_at_def)
      qed
      ultimately show ?thesis using run 2 lost length_one sz1(2) by (auto intro!: exI [of _ "interface_blocks ui1"])
    next
      case 3
      have sz2: "?sz1 - r \<le> int (length (drop (nat r) ?buf1))" using sz1(1) 3 by (simp add: of_nat_diff)
      have len2: "Suc i + k = length (cf_interfaces ?c2)" using Suc.prems(1) c1(3) by simp
      have nn: "0 \<le> ?sz1 - r" using pi(2) by simp
      obtain r' c' h' where rec: "parse_interfaces k (Suc i) ?c2 (drop (nat r) ?buf1) (?sz1 - r) h2 = Some (r', c', h')"
          "r' \<le> ?sz1 - r" "r' < 0 \<longrightarrow> owns_blocks h0 bs h'"
          "0 \<le> r' \<longrightarrow> config_wf c' \<and> (\<exists>lost. length lost \<le> 1 \<and> owns_blocks h0 (config_blocks c' @ lost @ bs) h'
             \<and> (bNumInterfaces c' = bNumInterfaces ?c2 \<longrightarrow> lost = []))"
        using Suc.IH [OF len2 at2 sz2 nn own2] by blast
      have "r' \<le> sz" using rec(2) 3 by simp
      moreover have "bNumInterfaces ?c2 = bNumInterfaces c" using c1(4) by simp
      ultimately show ?thesis using run 3 rec(1,3,4) by (simp only: not_less_iff_gr_or_eq) auto
    qed
    qed
  qed
qed

lemma read_config_ok:
  "9 \<le> length buf \<Longrightarrow> \<exists>c. read_config buf = Some c \<and> cf_extra c = 0 \<and> cf_extra_length c = 0"
  using buf9 [of buf] by (auto simp: desc_simps)

lemma parse_configuration_owned:
  assumes "sz \<le> int (length buf)" "owns_blocks h0 bs h"
  shows "\<exists>r c h'. parse_configuration buf sz h = Some (r, c, h') \<and> (r < 0 \<longrightarrow> owns_blocks h0 bs h')
    \<and> (0 \<le> r \<longrightarrow> (\<exists>c' c0 lost. c = Some c' \<and> read_config buf = Some c0 \<and> config_wf c'
         \<and> length lost \<le> 1 \<and> owns_blocks h0 (config_blocks c' @ lost @ bs) h'
         \<and> (bNumInterfaces c' = bNumInterfaces c0 \<longrightarrow> lost = [])))"
proof (cases "sz < 9")
  case True
  then show ?thesis using assms(2) by (simp add: parse_configuration_def)
next
  case False
  obtain c0 where c0: "read_config buf = Some c0" "cf_extra c0 = 0" "cf_extra_length c0 = 0"
    using read_config_ok [of buf] False assms(1) by auto
  show ?thesis
  proof (cases "cf_bDescriptorType c0 \<noteq> DT_CONFIG \<or> uint (cf_bLength c0) < 9 \<or> sz < uint (cf_bLength c0)
      \<or> USB_MAXINTERFACES < bNumInterfaces c0")
    case True
    then show ?thesis using False c0(1) assms(2) by (auto simp: parse_configuration_def)
  next
    case ok: False
    show ?thesis
    proof (cases rule: new_block_cases [OF assms(2)])
    case (2 h1)
    then show ?thesis using False ok c0(1) by (simp add: parse_configuration_def Let_def)
    next
    case p: (1 p h1)
    let ?cnt = "unat (bNumInterfaces c0)"
    let ?c1 = "c0\<lparr>cf_interface := p, cf_interfaces := replicate ?cnt zero_interface\<rparr>"
    have at: "config_at 0 ?c1" using p(2) c0(2) by (simp add: config_at_def wf_clearable)
    have own: "owns_blocks h0 (config_blocks ?c1 @ bs) h1"
      using p(3) c0(2) by (simp add: config_at_blocks [OF at])
    have sz1: "sz - uint (cf_bLength c0) \<le> int (length (drop (unat (cf_bLength c0)) buf))"
      by (rule rest_of_data [OF assms(1)])
    obtain r c' h' where pi: "parse_interfaces ?cnt 0 ?c1 (drop (unat (cf_bLength c0)) buf)
          (sz - uint (cf_bLength c0)) h1 = Some (r, c', h')" "r < 0 \<longrightarrow> owns_blocks h0 bs h'"
        "0 \<le> r \<longrightarrow> config_wf c' \<and> (\<exists>lost. length lost \<le> 1 \<and> owns_blocks h0 (config_blocks c' @ lost @ bs) h'
         \<and> (bNumInterfaces c' = bNumInterfaces ?c1 \<longrightarrow> lost = []))"
      using parse_interfaces_owned [OF _ at sz1 _ own] ok by auto
    have "parse_configuration buf sz h = Some (r, Some c', h')"
      using False ok c0(1) p(1,2) pi(1) by (simp add: parse_configuration_def Let_def)
    then show ?thesis using pi(2,3) c0(1) by auto
    qed
  qed
qed

lemma config_parse_released:
  fixes buf :: bytes
  assumes "blocks_ok h" "sz \<le> int (length buf)"
  shows "\<exists>r c h'. raw_desc_to_config buf sz h = Some (r, c, h')
    \<and> (r < 0 \<longrightarrow> c = None \<and> in_use h' = in_use h)
    \<and> (0 \<le> r \<longrightarrow> r = 0 \<and> (\<exists>q cfg c0 h'' lost. c = Some (q, cfg) \<and> read_config buf = Some c0
         \<and> libusb_free_config_descriptor c h' = Some h'' \<and> in_use h'' = in_use h \<union> set lost
         \<and> length lost \<le> 1 \<and> (bNumInterfaces cfg = bNumInterfaces c0 \<longrightarrow> lost = [])))"
proof (cases rule: new_block_cases [OF owned_nil [OF assms(1)]])
  case (2 h1)
  then show ?thesis by (simp add: raw_desc_to_config_def owns_blocks_def)
next
  case q: (1 q h1)
  obtain r c h2 where pc: "parse_configuration buf sz h1 = Some (r, c, h2)" "r < 0 \<longrightarrow> owns_blocks h [q] h2"
    "0 \<le> r \<longrightarrow> (\<exists>c' c0 lost. c = Some c' \<and> read_config buf = Some c0 \<and> config_wf c'
         \<and> length lost \<le> 1 \<and> owns_blocks h (config_blocks c' @ lost @ [q]) h2
         \<and> (bNumInterfaces c' = bNumInterfaces c0 \<longrightarrow> lost = []))"
    using parse_configuration_owned [OF assms(2) q(3)] by blast
  show ?thesis
  proof (cases "r < 0")
    case True
    obtain h3 where "free_block q h2 = Some h3" "owns_blocks h [] h3"
      using free_block_owned pc(2) True by blast
    then show ?thesis using True q(1,2) pc(1) by (simp add: raw_desc_to_config_def owns_blocks_def)
  next
    case False
    obtain c' c0 lost where c': "c = Some c'" "read_config buf = Some c0" "config_wf c'" "length lost \<le> 1"
      "owns_blocks h (config_blocks c' @ lost @ [q]) h2" "bNumInterfaces c' = bNumInterfaces c0 \<longrightarrow> lost = []"
      using pc(3) False by auto
    obtain h3 where h3: "clear_configuration c' h2 = Some h3" "owns_blocks h (lost @ [q]) h3"
      using clear_configuration_owned [OF c'(3), of h "lost @ [q]"] c'(5) by auto
    have "owns_blocks h (q # lost) h3" by (rule owned_permI [OF h3(2)]) simp
    then obtain h4 where h4: "free_block q h3 = Some h4" "owns_blocks h lost h4" using free_block_owned by blast
    have "raw_desc_to_config buf sz h = Some (0, Some (q, c'), h2)"
      using False q(1,2) pc(1) c'(1) by (simp add: raw_desc_to_config_def)
    moreover have "libusb_free_config_descriptor (Some (q, c')) h2 = Some h4"
      using h3(1) h4(1) by (simp add: libusb_free_config_descriptor_def)
    moreover have "in_use h4 = in_use h \<union> set lost" using h4(2) by (simp add: owns_blocks_def)
    ultimately show ?thesis using c'(2,4,6) by auto
  qed
qed

text \<open>C5: Parsing raw configuration data, whatever bytes it holds and whichever calls of \<open>malloc\<close>
  and \<open>calloc\<close> fail, stays inside the data and frees nothing twice, provided \<open>realloc\<close> does not
  fail to grow the array of alternate settings of an interface (then the code does free it
  twice).  An error, an allocation failure among them, leaves the heap as it was.  On success
  \<open>libusb_free_config_descriptor\<close> releases everything the parser allocated, except for at most
  one block, which is lost only when fewer interfaces were parsed than the descriptor announced.\<close>

theorem config_parse_safe:
  fixes buf :: bytes
  assumes "blocks_ok h" "sz \<le> int (length buf)"
  shows "\<exists>r c h'. raw_desc_to_config buf sz h = Some (r, c, h')
    \<and> (r < 0 \<longrightarrow> c = None \<and> in_use h' = in_use h)
    \<and> (0 \<le> r \<longrightarrow> r = 0 \<and> (\<exists>q cfg c0 h'' lost. c = Some (q, cfg) \<and> read_config buf = Some c0
         \<and> libusb_free_config_descriptor c h' = Some h'' \<and> in_use h'' = in_use h \<union> set lost
         \<and> length lost \<le> 1 \<and> (bNumInterfaces cfg = bNumInterfaces c0 \<longrightarrow> lost = [])))"
  using assms by (rule config_parse_released)

text \<open>A heap with nothing in it, and one on which the third request fails.\<close>

definition fresh_heap :: desc_heap where
  "fresh_heap = \<lparr>in_use = {}, requests = 0, denied = (\<lambda>n. False), realloc_denied = (\<lambda>n. False)\<rparr>"

definition tight_heap :: desc_heap where
  "tight_heap = fresh_heap\<lparr>denied := (\<lambda>n. n = 3)\<rparr>"

lemma fresh_heap_ok: "heap_ok fresh_heap"
  by (simp add: fresh_heap_def heap_ok_def blocks_ok_def)

lemma tight_heap_ok: "blocks_ok tight_heap"
  by (simp add: tight_heap_def fresh_heap_def blocks_ok_def)

text \<open>The motor of the camera: one interface without endpoints.\<close>

definition motor_config :: bytes where
  "motor_config = [9, 2, 18, 0, 1, 1, 0, 0xC0, 50,  9, 4, 0, 0, 0, 0xFF, 0, 0, 0]"

theorem config_parse_safe_witness:
  "(\<exists>r c h'. raw_desc_to_config motor_config 18 tight_heap = Some (r, c, h')
    \<and> (r < 0 \<longrightarrow> c = None \<and> in_use h' = in_use tight_heap)
    \<and> (0 \<le> r \<longrightarrow> r = 0 \<and> (\<exists>q cfg c0 h'' lost. c = Some (q, cfg) \<and> read_config motor_config = Some c0
         \<and> libusb_free_config_descriptor c h' = Some h'' \<and> in_use h'' = in_use tight_heap \<union> set lost
         \<and> length lost \<le> 1 \<and> (bNumInterfaces cfg = bNumInterfaces c0 \<longrightarrow> lost = []))))"
  by (rule config_parse_safe) (simp_all add: tight_heap_ok motor_config_def)

section \<open>When nothing fails\<close>

definition owns :: "desc_heap \<Rightarrow> nat list \<Rightarrow> desc_heap \<Rightarrow> bool" where
  "owns h0 bs h \<longleftrightarrow> owns_blocks h0 bs h \<and> (\<forall>n. \<not> denied h0 n)"

lemma owns_nil: "heap_ok h \<Longrightarrow> owns h [] h"
  by (simp add: owns_def heap_ok_def owned_nil)

lemma owns_permI: "owns h0 bs h \<Longrightarrow> mset bs = mset bs' \<Longrightarrow> owns h0 bs' h"
  unfolding owns_def using owned_permI by blast

lemma owns_ok: "owns h0 bs h \<Longrightarrow> heap_ok h"
  by (simp add: owns_def owns_blocks_def heap_ok_def)

lemma owns_owned: "owns h0 bs h \<Longrightarrow> owns h0 bs' h' \<longleftrightarrow> owns_blocks h0 bs' h'"
  by (simp add: owns_def)

lemma owns_in_use: "owns h0 bs h \<Longrightarrow> in_use h = in_use h0 \<union> set bs"
  by (simp add: owns_def owns_blocks_def)

lemma new_block_owns:
  assumes "owns h0 bs h"
  shows "\<exists>p h'. new_block h = (p, h') \<and> p \<noteq> 0 \<and> owns h0 (p # bs) h'"
proof -
  have o: "owns_blocks h0 bs h" "\<And>n. \<not> denied h0 n" using assms by (auto simp: owns_def)
  show ?thesis using o by (cases rule: new_block_cases [OF o(1)]) (auto simp: owns_def)
qed

lemma reallocf_owns:
  "owns h0 (ptr_blocks p @ bs) h \<Longrightarrow> \<exists>q h'. usbi_reallocf p h = Some (q, h') \<and> q \<noteq> 0 \<and> owns h0 (q # bs) h'"
  using reallocf_owned [of h0 p bs h] unfolding owns_def by (metis append_Cons append_Nil ptr_blocks_simps(2))

lemma free_block_owns: "owns h0 (p # bs) h \<Longrightarrow> \<exists>h'. free_block p h = Some h' \<and> owns h0 bs h'"
  unfolding owns_def using free_block_owned by blast

lemma free_ptr_owns:
  "owns h0 (ptr_blocks p @ bs) h \<Longrightarrow> \<exists>h'. free_block p h = Some h' \<and> owns h0 bs h'"
  unfolding owns_def using free_ptr_owned by blast

lemma clear_configuration_owns:
  "config_wf c \<Longrightarrow> owns h0 (config_blocks c @ bs) h \<Longrightarrow> \<exists>h'. clear_configuration c h = Some h' \<and> owns h0 bs h'"
  unfolding owns_def using clear_configuration_owned by blast

lemma parse_alt_body_owns:
  assumes "sz \<le> int (length buf)" "0 \<le> sz" "owns h0 bs h" "if_extra a = 0" "if_endpoint a = 0"
  shows "\<exists>stop n a' h'. parse_alt_body a buf sz h = Some (stop, n, a', h')
    \<and> int n \<le> sz \<and> altsetting_wf a' \<and> owns h0 (altsetting_blocks a' @ bs) h'
    \<and> (\<forall>r. stop = Alt_error r \<longrightarrow> r < 0)"
  unfolding owns_owned [OF assms(3)]
  by (rule parse_alt_body_owned [OF assms(1,2) _ assms(4,5)]) (use assms(3) in \<open>simp add: owns_def\<close>)

lemma parse_interface_owns:
  assumes "sz \<le> int (length buf)" "0 \<le> sz" "owns h0 bs h"
  shows "\<exists>r ui' h'. parse_interface zero_interface buf sz h = Some (r, ui', h') \<and> r \<le> sz
    \<and> clearable ui' \<and> owns h0 (interface_blocks ui' @ bs) h' \<and> (r = 0 \<longrightarrow> altsettings ui' = [])"
  unfolding owns_owned [OF assms(3)]
  by (rule parse_interface_owned [OF assms(1,2)]) (use assms(3) in \<open>simp add: owns_def\<close>)

lemma parse_configuration_owns:
  assumes "sz \<le> int (length buf)" "owns h0 bs h"
  shows "\<exists>r c h'. parse_configuration buf sz h = Some (r, c, h') \<and> (r < 0 \<longrightarrow> owns h0 bs h')
    \<and> (0 \<le> r \<longrightarrow> (\<exists>c' c0 lost. c = Some c' \<and> read_config buf = Some c0 \<and> config_wf c'
         \<and> length lost \<le> 1 \<and> owns h0 (config_blocks c' @ lost @ bs) h'
         \<and> (bNumInterfaces c' = bNumInterfaces c0 \<longrightarrow> lost = [])))"
  unfolding owns_owned [OF assms(2)]
  by (rule parse_configuration_owned [OF assms(1)]) (use assms(2) in \<open>simp add: owns_def\<close>)

section \<open>Two faults\<close>

text \<open>A descriptor that runs past the data after an interface descriptor ends the interface with
  success, before the array of endpoints exists: the setting keeps the number of endpoints it
  announced, and its pointer to them is NULL.\<close>

lemma truncated_interface_keeps_count:
  fixes n :: u8
  assumes "heap_ok h" "0 < e" "e \<le> USB_MAXENDPOINTS" "2 \<le> uint l" "length rest + 2 < unat l"
  shows "\<exists>ui h' a. parse_interface zero_interface ([9, 4, n, alt, e, c, s, p, i] @ l # t # rest)
      (int (length rest) + 11) h = Some (9, ui, h')
    \<and> altsettings ui = [a] \<and> bNumEndpoints a = e \<and> if_endpoint a = 0"
proof -
  obtain q h1 where q: "usbi_reallocf 0 h = Some (q, h1)" "q \<noteq> 0"
    using reallocf_owns [of h 0 "[]" h] owns_nil [OF assms(1)] by auto
  have "int (length rest + 2) < int (unat l)" using assms(5) by (simp only: of_nat_less_iff)
  then have "int (length rest) + 2 < uint l" by simp
  then have sk: "skip_extra (l # t # rest) (2 + int (length rest)) = Some (Skip_short, 0)"
    using assms(4) by (simp add: skip_extra.simps [of "l # t # rest"] desc_simps)
  have e: "\<not> USB_MAXENDPOINTS < e" using assms(3) by simp
  show ?thesis
    using q sk e assms(2)
    by (simp add: parse_interface_def parse_altsettings.simps [of _ _ "9 # 4 # n # alt # e # c # s # p # i # l # t # rest"]
        zero_interface_def desc_simps parse_alt_body_def Let_def)
qed

lemma truncated_interface_keeps_count_example:
  "\<exists>ui h' a. parse_interface zero_interface ([9, 4, 0, 0, 2, 0xFF, 0, 0, 0] @ 9 # 0x24 # [1])
      (int (length [1 :: u8]) + 11) fresh_heap = Some (9, ui, h')
    \<and> altsettings ui = [a] \<and> bNumEndpoints a = 2 \<and> if_endpoint a = 0"
  by (rule truncated_interface_keeps_count) (simp_all add: fresh_heap_ok)

text \<open>When \<open>realloc\<close> fails for the second alternate setting, \<open>usbi_reallocf\<close> has freed the array
  already and \<open>clear_interface\<close> frees it again.\<close>

lemma failed_realloc_frees_twice:
  assumes "altsetting ui \<noteq> 0" "altsetting ui \<in> in_use h" "realloc_denied h (Suc (requests h))"
    "\<forall>a \<in> set (altsettings ui). if_extra a = 0 \<and> if_endpoint a = 0" "9 \<le> sz"
  shows "parse_altsettings ui ifnum buf sz parsed h = None"
proof -
  have clr: "clear_altsettings as h' = Some h'"
    if "\<forall>a \<in> set as. if_extra a = 0 \<and> if_endpoint a = 0" for as h'
    using that by (induction as) (auto simp: clear_altsetting_def)
  let ?h1 = "h\<lparr>requests := Suc (requests h), in_use := in_use h - {altsetting ui}\<rparr>"
  have "usbi_reallocf (altsetting ui) h = Some (0, ?h1)"
    using assms(1-3) by (simp add: usbi_reallocf_def request_block_def free_block_def Let_def)
  moreover have "clear_interface ui ?h1 = None"
    using assms(1) clr [OF assms(4)] by (simp add: clear_interface_def free_block_def)
  ultimately show ?thesis using assms(5) by (simp add: parse_altsettings.simps [of ui])
qed

end
