(* ===== verification/UsbDescStrings.thy ===== *)
theory UsbDescStrings
  imports UsbDescProofs
begin

text \<open>
  String descriptors and the binary object store: the same promises as for configurations, and the
  one length of a string descriptor for which the code reads past its local array.
\<close>

section \<open>String descriptors\<close>

text \<open>The character the loop stores for a pair of bytes.\<close>

definition ascii_of :: "u8 \<Rightarrow> u8 \<Rightarrow> u8" where
  "ascii_of c c1 = (if c AND 0x80 \<noteq> 0 \<or> c1 \<noteq> 0 then 0x3F else c)"

text \<open>How many characters a descriptor of \<open>l\<close> bytes gives when \<open>cap\<close> bytes are available.\<close>

definition ascii_count :: "nat \<Rightarrow> int \<Rightarrow> nat" where
  "ascii_count l cap = min ((l - 1) div 2) (nat (cap - 1))"

lemma get_at_eq: "get_at i xs = (if i < length xs then Some (xs ! i) else None)"
  by (simp add: get_at_def)

lemma ascii_loop_step:
  assumes "si < unat (tbuf ! 0)" "unat (tbuf ! 0) < length tbuf" "int di < cap - 1" "di < length data"
  shows "ascii_loop tbuf cap si di data
    = ascii_loop tbuf cap (si + 2) (di + 1) (data[di := ascii_of (tbuf ! si) (tbuf ! (si + 1))])"
proof -
  have "put_bytes di [c] data = Some (data[di := c])" for c
    using assms(4) by (simp add: put_bytes_def upd_conv_take_nth_drop)
  moreover have "tbuf \<noteq> []" using assms(2) by auto
  ultimately show ?thesis using assms
    by (simp add: ascii_loop.simps [of tbuf cap si] get_at_eq ascii_of_def)
qed

lemma ascii_loop_end:
  assumes "\<not> si < unat (tbuf ! 0) \<or> cap - 1 \<le> int di" "0 < length tbuf"
  shows "ascii_loop tbuf cap si di data = Some (di, data)"
  using assms by (auto simp: ascii_loop.simps [of tbuf cap si] get_at_eq)

lemma ascii_loop_decodes:
  assumes "unat (tbuf ! 0) < length tbuf" "cap \<le> int (length data)"
  shows "k \<le> ascii_count (unat (tbuf ! 0)) cap \<Longrightarrow> ascii_loop tbuf cap 2 0 data
    = ascii_loop tbuf cap (2 + 2 * k) k
        (map (\<lambda>j. ascii_of (tbuf ! (2 + 2 * j)) (tbuf ! (3 + 2 * j))) [0..<k] @ drop k data)"
proof (induction k)
  case (Suc k)
  let ?f = "\<lambda>j. ascii_of (tbuf ! (2 + 2 * j)) (tbuf ! (3 + 2 * j))"
  have k: "2 + 2 * k < unat (tbuf ! 0)" "int k < cap - 1" "k < length data"
    using Suc.prems assms(2) by (auto simp: ascii_count_def)
  have "(map ?f [0..<k] @ drop k data)[k := ?f k] = map ?f [0..<Suc k] @ drop (Suc k) data"
    using k(3) by (simp add: list_update_append Cons_nth_drop_Suc [symmetric])
  then show ?case
    using Suc ascii_loop_step [OF k(1) assms(1) k(2), of "map ?f [0..<k] @ drop k data"] k(3)
    by (simp add: ascii_count_def eval_nat_numeral)
qed simp

text \<open>What the device answers to the two requests: at least four bytes of languages, and a string
  descriptor.  The answer to a request for 255 bytes has at most so many, and its length byte does
  not exceed the number received.\<close>

definition string_answers :: "'u control \<Rightarrow> u8 \<Rightarrow> 'u \<Rightarrow> bytes \<Rightarrow> bytes \<Rightarrow> 'u \<Rightarrow> bool" where
  "string_answers ctl idx u langs desc u' \<longleftrightarrow>
     (\<exists>u1. libusb_get_string_descriptor ctl 0 0 255 u = ((int (length langs), langs), u1)
       \<and> libusb_get_string_descriptor ctl idx (le16 (langs ! 2) (langs ! 3)) 255 u1
           = ((int (length desc), desc), u'))
     \<and> 4 \<le> length langs \<and> length langs \<le> 255 \<and> 2 \<le> length desc \<and> length desc \<le> 255
     \<and> desc ! 1 = DT_STRING \<and> unat (desc ! 0) \<le> length desc"

lemma string_ascii_run:
  assumes "string_answers ctl idx u langs desc u'" "idx \<noteq> 0" "length tbuf0 = 255"
  shows "\<exists>tbuf. length tbuf = 255 \<and> take (length desc) tbuf = desc
    \<and> libusb_get_string_descriptor_ascii ctl idx tbuf0 data cap u =
        do { (di, data1) \<leftarrow> ascii_loop tbuf cap 2 0 data;
             data2 \<leftarrow> put_bytes di [0] data1;
             Some (int di, data2, u') }"
proof -
  obtain u1 where a: "libusb_get_string_descriptor ctl 0 0 255 u = ((int (length langs), langs), u1)"
    "libusb_get_string_descriptor ctl idx (le16 (langs ! 2) (langs ! 3)) 255 u1 = ((int (length desc), desc), u')"
    "4 \<le> length langs" "length langs \<le> 255" "2 \<le> length desc" "length desc \<le> 255"
    "desc ! 1 = DT_STRING" "unat (desc ! 0) \<le> length desc"
    using assms(1) by (auto simp: string_answers_def)
  obtain t1 where t1: "overlay langs tbuf0 = Some t1" "length t1 = 255" "take (length langs) t1 = langs"
    using a(4) assms(3) by (simp add: overlay_def put_bytes_def)
  obtain t2 where t2: "overlay desc t1 = Some t2" "length t2 = 255" "take (length desc) t2 = desc"
    using a(6) t1(2) by (simp add: overlay_def put_bytes_def)
  have n1: "t1 ! i = langs ! i" if "i < 4" for i
    using arg_cong [OF t1(3), of "\<lambda>x. x ! i"] that a(3) by simp
  have n2: "t2 ! i = desc ! i" if "i < 2" for i
    using arg_cong [OF t2(3), of "\<lambda>x. x ! i"] that a(5) by simp
  have "int (unat (desc ! 0)) \<le> int (length desc)" using a(8) by (simp only: of_nat_le_iff)
  then have "uint (desc ! 0) \<le> int (length desc)" by simp
  then have "libusb_get_string_descriptor_ascii ctl idx tbuf0 data cap u =
        do { (di, data1) \<leftarrow> ascii_loop t2 cap 2 0 data;
             data2 \<leftarrow> put_bytes di [0] data1;
             Some (int di, data2, u') }"
    unfolding libusb_get_string_descriptor_ascii_def
    using assms(2) a t1 t2(1,2) n1 n2 by (simp add: get_at_eq)
  then show ?thesis using t2(2,3) by blast
qed

lemma ascii_loop_result:
  assumes "unat (tbuf ! 0) < length tbuf" "cap \<le> int (length data)" "n = ascii_count (unat (tbuf ! 0)) cap"
  shows "ascii_loop tbuf cap 2 0 data
    = Some (n, map (\<lambda>j. ascii_of (tbuf ! (2 + 2 * j)) (tbuf ! (3 + 2 * j))) [0..<n] @ drop n data)"
proof -
  have "\<not> 2 + 2 * n < unat (tbuf ! 0) \<or> cap - 1 \<le> int n"
    unfolding assms(3) ascii_count_def by linarith
  then show ?thesis
    using ascii_loop_decodes [OF assms(1,2), of n] ascii_loop_end [of "2 + 2 * n" tbuf cap n] assms(1,3) by fastforce
qed

text \<open>C34: A string descriptor of even length is decoded without a stray access: the caller gets one
  character per pair of bytes, \<open>?\<close> for those outside ASCII, as many as fit, and the terminating
  zero; the rest of the caller's buffer is left alone.\<close>

theorem string_descriptor_decoded:
  fixes ctl :: "'u control"
  assumes "string_answers ctl idx u langs desc u'" "idx \<noteq> 0" "length tbuf0 = 255"
    "even (unat (desc ! 0))" "1 \<le> cap" "cap \<le> int (length data)" "n = ascii_count (unat (desc ! 0)) cap"
  shows "libusb_get_string_descriptor_ascii ctl idx tbuf0 data cap u
    = Some (int n, map (\<lambda>j. ascii_of (desc ! (2 + 2 * j)) (desc ! (3 + 2 * j))) [0..<n] @ 0 # drop (Suc n) data, u')"
proof -
  have d: "2 \<le> length desc" "length desc \<le> 255" "unat (desc ! 0) \<le> length desc"
    using assms(1) by (auto simp: string_answers_def)
  obtain tbuf where t: "length tbuf = 255" "take (length desc) tbuf = desc"
    "libusb_get_string_descriptor_ascii ctl idx tbuf0 data cap u =
        do { (di, data1) \<leftarrow> ascii_loop tbuf cap 2 0 data;
             data2 \<leftarrow> put_bytes di [0] data1;
             Some (int di, data2, u') }"
    using string_ascii_run [OF assms(1-3)] by blast
  have nth: "tbuf ! i = desc ! i" if "i < length desc" for i
    using arg_cong [OF t(2), of "\<lambda>x. x ! i"] that by simp
  have t0: "tbuf ! 0 = desc ! 0" by (rule nth) (use d(1) in linarith)
  have l: "unat (tbuf ! 0) < length tbuf"
  proof -
    have "unat (desc ! 0) \<noteq> 255" using assms(4) by (metis even_numeral odd_numeral)
    then show ?thesis using t0 d(2,3) t(1) by simp
  qed
  have n: "n = ascii_count (unat (tbuf ! 0)) cap" using assms(7) t0 by simp
  have nlt: "n < length data" using assms(5-7) by (auto simp: ascii_count_def)
  have loop: "ascii_loop tbuf cap 2 0 data
    = Some (n, map (\<lambda>j. ascii_of (tbuf ! (2 + 2 * j)) (tbuf ! (3 + 2 * j))) [0..<n] @ drop n data)"
    by (rule ascii_loop_result [OF l assms(6) n])
  have "map (\<lambda>j. ascii_of (tbuf ! (2 + 2 * j)) (tbuf ! (3 + 2 * j))) [0..<n]
      = map (\<lambda>j. ascii_of (desc ! (2 + 2 * j)) (desc ! (3 + 2 * j))) [0..<n]"
  proof (rule map_cong [OF refl])
    fix j assume "j \<in> set [0..<n]"
    then have "j < (unat (desc ! 0) - 1) div 2" using assms(7) by (simp add: ascii_count_def)
    moreover obtain m where "unat (desc ! 0) = 2 * m" using assms(4) by (elim evenE)
    ultimately have "3 + 2 * j < length desc" using d(3) by presburger
    then show "ascii_of (tbuf ! (2 + 2 * j)) (tbuf ! (3 + 2 * j)) = ascii_of (desc ! (2 + 2 * j)) (desc ! (3 + 2 * j))"
      by (simp add: nth)
  qed
  moreover have "put_bytes n [0] (xs @ drop n data) = Some (xs @ 0 # drop (Suc n) data)" if "length xs = n" for xs
    using that nlt by (simp add: put_bytes_def)
  ultimately show ?thesis using t(3) loop by simp
qed

text \<open>A device that answers with a descriptor of 255 bytes, the most the code asks for, makes it
  read the second byte of the last pair behind its local array, unless the first byte of the pair
  is not ASCII or the caller wants fewer than 128 bytes.\<close>

lemma string_descriptor_overread:
  fixes ctl :: "'u control"
  assumes "string_answers ctl idx u langs desc u'" "idx \<noteq> 0" "length tbuf0 = 255"
    "desc ! 0 = 255" "desc ! 254 AND 0x80 = 0" "128 \<le> cap" "cap \<le> int (length data)"
  shows "libusb_get_string_descriptor_ascii ctl idx tbuf0 data cap u = None"
proof -
  have d: "length desc = 255" using assms(1,4) by (auto simp: string_answers_def)
  obtain tbuf where t: "length tbuf = 255" "take (length desc) tbuf = desc"
    "libusb_get_string_descriptor_ascii ctl idx tbuf0 data cap u =
        do { (di, data1) \<leftarrow> ascii_loop tbuf cap 2 0 data;
             data2 \<leftarrow> put_bytes di [0] data1;
             Some (int di, data2, u') }"
    using string_ascii_run [OF assms(1-3)] by blast
  have tb: "tbuf = desc" using t(1,2) d by simp
  have "ascii_loop tbuf cap (2 + 2 * k) k xs = None" if "k \<le> 126" "length xs = length data" for k xs
    using that
  proof (induction "126 - k" arbitrary: k xs)
    case 0
    then have "k = 126" by simp
    then show ?case using d assms(4-6) unfolding tb
      by (simp add: ascii_loop.simps [of desc cap 254] get_at_eq)
  next
    case (Suc m)
    have put: "put_bytes k [c] xs = Some (xs[k := c])" for c
      using Suc.hyps(2) Suc.prems(2) assms(6,7) by (simp add: put_bytes_def upd_conv_take_nth_drop)
    have rec: "ascii_loop desc cap (2 + 2 * k + 2) (k + 1) (xs[k := c]) = None" for c
      using Suc.hyps(1) [of "Suc k" "xs[k := c]"] Suc.hyps(2) Suc.prems(2) tb by simp
    show ?case unfolding tb ascii_loop.simps [of desc cap "2 + 2 * k"]
      using Suc.hyps(2) d assms(4,6) put rec by (auto simp: get_at_eq simp del: add_2_eq_Suc add_2_eq_Suc')
  qed
  from this [of 0 data] show ?thesis using t(3) by simp
qed


text \<open>A device whose serial number is \<open>A9\<close> and a letter outside ASCII, and one whose name fills the
  descriptor.\<close>

definition serial_device :: "unit control" where
  "serial_device ty req v i len u =
     (if v = 0x0300 then (4, [4, 3, 9, 4]) else (8, [8, 3, 0x41, 0, 0x39, 0, 0xE9, 0]), u)"

definition long_name_device :: "unit control" where
  "long_name_device ty req v i len u =
     (if v = 0x0300 then (4, [4, 3, 9, 4]) else (255, [255, 3] @ replicate 253 0x41), u)"

theorem string_descriptor_decoded_witness:
  "libusb_get_string_descriptor_ascii serial_device 3 (replicate 255 7) [1, 1, 1, 1, 1] 5 ()
     = Some (3, [0x41, 0x39, 0x3F, 0, 1], ())"
proof -
  have a: "string_answers serial_device 3 () [4, 3, 9, 4] [8, 3, 0x41, 0, 0x39, 0, 0xE9, 0] ()"
    by (simp add: string_answers_def libusb_get_string_descriptor_def serial_device_def)
  have "libusb_get_string_descriptor_ascii serial_device 3 (replicate 255 7) [1, 1, 1, 1, 1] 5 ()
      = Some (int 3, map (\<lambda>j. ascii_of ([8, 3, 0x41, 0, 0x39, 0, 0xE9, 0] ! (2 + 2 * j))
          ([8, 3, 0x41, 0, 0x39, 0, 0xE9, 0] ! (3 + 2 * j))) [0..<3] @ 0 # drop (Suc 3) [1, 1, 1, 1, 1], ())"
    by (rule string_descriptor_decoded [OF a]) (simp_all add: ascii_count_def)
  then show ?thesis by (simp add: ascii_of_def upt_rec)
qed

lemma string_descriptor_overread_example:
  "libusb_get_string_descriptor_ascii long_name_device 2 (replicate 255 7) (replicate 256 0) 256 () = None"
proof (rule string_descriptor_overread)
  show "string_answers long_name_device 2 () [4, 3, 9, 4] ([255, 3] @ replicate 253 0x41) ()"
    by (simp add: string_answers_def libusb_get_string_descriptor_def long_name_device_def)
qed (simp_all add: nth_append)

section \<open>The binary object store\<close>

definition capability_blocks :: "(nat \<times> bytes) list \<Rightarrow> nat list" where
  "capability_blocks cs = concat (map (ptr_blocks \<circ> fst) cs)"

definition whole_capability :: "nat \<times> bytes \<Rightarrow> bool" where
  "whole_capability c \<longleftrightarrow> fst c \<noteq> 0 \<and> 3 \<le> length (snd c) \<and> length (snd c) = unat (hd (snd c))"

lemma free_capabilities_owns:
  "i + k \<le> length cs \<Longrightarrow> owns h0 (capability_blocks (take k (drop i cs)) @ bs) h \<Longrightarrow>
     \<exists>h'. free_capabilities k i cs h = Some h' \<and> owns h0 bs h'"
proof (induction k arbitrary: i h)
  case 0
  then show ?case by (simp add: capability_blocks_def)
next
  case (Suc k)
  have i: "i < length cs" using Suc.prems(1) by simp
  then have "take (Suc k) (drop i cs) = cs ! i # take k (drop (Suc i) cs)"
    by (simp add: Cons_nth_drop_Suc [symmetric])
  then obtain h1 where h1: "free_block (fst (cs ! i)) h = Some h1"
    "owns h0 (capability_blocks (take k (drop (Suc i) cs)) @ bs) h1"
    using Suc.prems(2) free_ptr_owns by (fastforce simp: capability_blocks_def)
  show ?case using Suc.IH [OF _ h1(2)] Suc.prems(1) h1(1) i by (simp add: mem_simps)
qed

lemma capability_update:
  "i < length cs \<Longrightarrow> fst (cs ! i) = 0 \<Longrightarrow>
     mset (capability_blocks (cs[i := c])) = mset (capability_blocks cs) + mset (ptr_blocks (fst c))"
  unfolding capability_blocks_def using concat_update [of i cs "ptr_blocks \<circ> fst" c] by simp

lemma buf3: "3 \<le> length buf \<Longrightarrow> \<exists>a b c r. buf = a # b # c # r"
  by (auto simp: numeral_eq_Suc dest!: buf_Suc)

text \<open>The entries before \<open>i\<close> are whole capabilities, those from \<open>i\<close> on are NULL.\<close>

definition bos_at :: "nat \<Rightarrow> bos_descriptor \<Rightarrow> bool" where
  "bos_at i b \<longleftrightarrow> length (dev_capability b) = unat (bNumDeviceCaps b) \<and> i \<le> length (dev_capability b)
     \<and> (\<forall>j < i. whole_capability (dev_capability b ! j))
     \<and> (\<forall>j. i \<le> j \<longrightarrow> j < length (dev_capability b) \<longrightarrow> fst (dev_capability b ! j) = 0)"

lemma parse_capabilities_owns:
  assumes "i + k = length (dev_capability b)" "bos_at i b" "sz \<le> int (length buf)"
    "owns h0 (capability_blocks (dev_capability b) @ bs) h"
  shows "\<exists>stop b' h'. parse_capabilities k i b buf sz h = Some (stop, b', h')
    \<and> bNumDeviceCaps b' = bNumDeviceCaps b \<and> owns h0 (capability_blocks (dev_capability b') @ bs) h'
    \<and> (\<forall>r. stop = Bos_error r \<longrightarrow> r < 0 \<and> length (dev_capability b') = unat (bNumDeviceCaps b'))
    \<and> (\<forall>m. stop = Bos_break m \<longrightarrow> bos_at m b')"
  using assms
proof (induction k arbitrary: i b buf sz h)
  case 0
  then show ?case by simp
next
  case (Suc k)
  show ?case
  proof (cases "sz < 3")
    case True
    then show ?thesis using Suc.prems(2,4) by simp
  next
    case False
    then have "3 \<le> length buf" using Suc.prems(3) by simp
    then obtain l t c r where buf: "buf = l # t # c # r" using buf3 by blast
    show ?thesis
    proof (cases "t \<noteq> DT_DEVICE_CAPABILITY \<or> uint l < 3 \<or> sz < uint l")
      case True
      then show ?thesis using False buf Suc.prems(2,4) by (auto simp: bos_at_def)
    next
      case ok: False
      obtain p h1 where p: "new_block h = (p, h1)" "p \<noteq> 0" "owns h0 (p # capability_blocks (dev_capability b) @ bs) h1"
        using new_block_owns [OF Suc.prems(4)] by blast
      have "int (unat l) \<le> int (length buf)" "int 3 \<le> int (unat l)" using ok Suc.prems(3) by simp_all
      then have le: "unat l \<le> length buf" "3 \<le> unat l" by (simp_all only: of_nat_le_iff)
      let ?b = "b\<lparr>dev_capability := (dev_capability b)[i := (p, take (unat l) buf)]\<rparr>"
      have i: "i < length (dev_capability b)" "fst (dev_capability b ! i) = 0"
        using Suc.prems(1,2) by (auto simp: bos_at_def)
      have whole: "whole_capability (p, take (unat l) buf)"
        using p(2) le buf by (auto simp: whole_capability_def hd_take)
      have at: "bos_at (Suc i) ?b"
        using Suc.prems(2) i(1) whole by (auto simp: bos_at_def nth_list_update less_Suc_eq)
      have own: "owns h0 (capability_blocks (dev_capability ?b) @ bs) h1"
        by (rule owns_permI [OF p(3)])
          (use capability_update [OF i, of "(p, take (unat l) buf)"] p(2) in simp)
      have sz: "sz - uint l \<le> int (length (drop (unat l) buf))" by (rule rest_of_data [OF Suc.prems(3)])
      have len: "Suc i + k = length (dev_capability ?b)" using Suc.prems(1) by simp
      have get: "get_bytes 0 (unat l) buf = Some (take (unat l) buf)" by (rule get_bytes_ok [OF le(1)])
      have "parse_capabilities (Suc k) i b buf sz h
          = parse_capabilities k (Suc i) ?b (drop (unat l) buf) (sz - uint l) h1"
        using False ok p(1,2) get by (simp add: buf)
      then show ?thesis using Suc.IH [OF len at sz own] by simp
    qed
  qed
qed

lemma read_bos_ok:
  "5 \<le> length buf \<Longrightarrow> \<exists>b. read_bos buf = Some b \<and> dev_capability b = replicate (unat (bNumDeviceCaps b)) (0, [])"
  by (auto simp: numeral_eq_Suc read_bos_def dest!: buf_Suc)

text \<open>Parsing a binary object store stays inside the data and frees nothing twice.  An error
  leaves the heap as it was.  On success every capability it counts is a whole descriptor, and
  \<open>libusb_free_bos_descriptor\<close> releases exactly what was allocated.\<close>

lemma bos_parse_safe:
  fixes buf :: bytes
  assumes "heap_ok h" "sz \<le> int (length buf)"
  shows "\<exists>r b h'. parse_bos buf sz h = Some (r, b, h')
    \<and> (r < 0 \<longrightarrow> b = None \<and> in_use h' = in_use h)
    \<and> (0 \<le> r \<longrightarrow> (\<exists>q bos h''. b = Some (q, bos) \<and> libusb_free_bos_descriptor b h' = Some h''
         \<and> in_use h'' = in_use h
         \<and> (\<forall>j < unat (bNumDeviceCaps bos). whole_capability (dev_capability bos ! j))))"
proof (cases "sz < 5")
  case True
  then show ?thesis by (simp add: parse_bos_def)
next
  case False
  obtain b where b: "read_bos buf = Some b" "dev_capability b = replicate (unat (bNumDeviceCaps b)) (0, [])"
    using read_bos_ok [of buf] False assms(2) by auto
  show ?thesis
  proof (cases "bo_bDescriptorType b \<noteq> DT_BOS \<or> uint (bo_bLength b) < 5 \<or> sz < uint (bo_bLength b)")
    case True
    then show ?thesis using False b(1) by (auto simp: parse_bos_def)
  next
    case ok: False
    obtain q h1 where q: "new_block h = (q, h1)" "q \<noteq> 0" "owns h [q] h1"
      using new_block_owns [OF owns_nil [OF assms(1)]] by blast
    have at: "bos_at 0 b" using b(2) by (simp add: bos_at_def)
    have own: "owns h (capability_blocks (dev_capability b) @ [q]) h1"
      using q(3) b(2) by (simp add: capability_blocks_def)
    have sz: "sz - uint (bo_bLength b) \<le> int (length (drop (unat (bo_bLength b)) buf))"
      by (rule rest_of_data [OF assms(2)])
    have cnt: "0 + unat (bNumDeviceCaps b) = length (dev_capability b)" using b(2) by simp
    obtain stop b' h2 where pc: "parse_capabilities (unat (bNumDeviceCaps b)) 0 b
        (drop (unat (bo_bLength b)) buf) (sz - uint (bo_bLength b)) h1 = Some (stop, b', h2)"
      "bNumDeviceCaps b' = bNumDeviceCaps b" "owns h (capability_blocks (dev_capability b') @ [q]) h2"
      "\<forall>r. stop = Bos_error r \<longrightarrow> r < 0 \<and> length (dev_capability b') = unat (bNumDeviceCaps b')"
      "\<forall>m. stop = Bos_break m \<longrightarrow> bos_at m b'"
      using parse_capabilities_owns [OF cnt at sz own] by blast
    have rel: "\<exists>h3. libusb_free_bos_descriptor (Some (q, c)) h2 = Some h3 \<and> owns h [] h3"
      if "unat (bNumDeviceCaps c) \<le> length (dev_capability c)"
        "owns h (capability_blocks (take (unat (bNumDeviceCaps c)) (drop 0 (dev_capability c))) @ [q]) h2" for c
      using free_capabilities_owns [of 0, OF _ that(2)] that(1) free_block_owns [of h q "[]"]
      by (fastforce simp: libusb_free_bos_descriptor_def)
    show ?thesis
    proof (cases stop)
      case (Bos_error r)
      have r: "r < 0" "length (dev_capability b') = unat (bNumDeviceCaps b')" using pc(4) Bos_error by auto
      obtain h3 where h3: "libusb_free_bos_descriptor (Some (q, b')) h2 = Some h3" "owns h [] h3"
        using rel [of b'] r(2) pc(3) by auto
      have "parse_bos buf sz h = Some (r, None, h3)"
        using False ok b(1) q(1,2) pc(1) Bos_error h3(1) by (simp add: parse_bos_def)
      then show ?thesis using r(1) h3(2) by (simp add: owns_in_use)
    next
      case (Bos_break m)
      have m: "bos_at m b'" using pc(5) Bos_break by simp
      let ?c = "b'\<lparr>bNumDeviceCaps := of_nat m\<rparr>"
      have "m \<le> unat (bNumDeviceCaps b')" using m by (simp add: bos_at_def)
      moreover have "unat (bNumDeviceCaps b') < 256"
        using unsigned_less [of "bNumDeviceCaps b'", where 'a = nat] by simp
      ultimately have small: "unat (of_nat m :: u8) = m" by (simp add: unat_of_nat)
      have "capability_blocks (dev_capability b') = capability_blocks (take m (dev_capability b'))"
      proof -
        have "capability_blocks (dev_capability b')
            = capability_blocks (take m (dev_capability b')) @ capability_blocks (drop m (dev_capability b'))"
          unfolding capability_blocks_def by (simp flip: concat_append map_append)
        moreover have "fst x = 0" if "x \<in> set (drop m (dev_capability b'))" for x
          using m that by (fastforce simp: bos_at_def in_set_conv_nth)
        then have "capability_blocks (drop m (dev_capability b')) = []" by (simp add: capability_blocks_def)
        ultimately show ?thesis by simp
      qed
      then obtain h3 where h3: "libusb_free_bos_descriptor (Some (q, ?c)) h2 = Some h3" "owns h [] h3"
        using rel [of ?c] small m pc(3) by (auto simp: bos_at_def)
      have "parse_bos buf sz h = Some (0, Some (q, ?c), h2)"
        using False ok b(1) q(1,2) pc(1) Bos_break by (simp add: parse_bos_def)
      then show ?thesis using h3 m small by (simp add: owns_in_use bos_at_def)
    qed
  qed
qed

definition usb3_store :: bytes where
  "usb3_store = [5, 15, 22, 0, 2,  7, 16, 2, 2, 0, 0, 0,  10, 16, 3, 0, 14, 0, 1, 10, 32, 0]"

lemma bos_parse_safe_example:
  "\<exists>r b h'. parse_bos usb3_store 22 fresh_heap = Some (r, b, h')
    \<and> (r < 0 \<longrightarrow> b = None \<and> in_use h' = in_use fresh_heap)
    \<and> (0 \<le> r \<longrightarrow> (\<exists>q bos h''. b = Some (q, bos) \<and> libusb_free_bos_descriptor b h' = Some h''
         \<and> in_use h'' = in_use fresh_heap
         \<and> (\<forall>j < unat (bNumDeviceCaps bos). whole_capability (dev_capability bos ! j))))"
  by (rule bos_parse_safe) (simp_all add: fresh_heap_ok usb3_store_def)

text \<open>The queries of a whole capability read inside it.\<close>

lemma whole_capability_Cons:
  "whole_capability (p, cap) \<Longrightarrow> \<exists>l t c r. cap = l # t # c # r \<and> length cap = unat l"
  using buf3 [of cap] by (auto simp: whole_capability_def)

lemma capability_queries_safe:
  assumes "whole_capability (p, cap)"
  shows "libusb_get_usb_2_0_extension_descriptor cap h \<noteq> None"
    and "libusb_get_ss_usb_device_capability_descriptor cap h \<noteq> None"
    and "libusb_get_container_id_descriptor cap h \<noteq> None"
proof -
  obtain l t c r where cap: "cap = l # t # c # r" "length cap = unat l" using whole_capability_Cons [OF assms] by blast
  have long: "n \<le> length cap" if "\<not> l < of_nat n" "n < 256" for n
    using that cap(2) by (simp add: word_less_nat_alt unat_of_nat)
  show "libusb_get_usb_2_0_extension_descriptor cap h \<noteq> None"
    using long [of 7] cap(1)
    by (auto simp: libusb_get_usb_2_0_extension_descriptor_def capability_ok_def get_at_def
        numeral_eq_Suc Let_def split: prod.split dest!: buf_Suc)
  show "libusb_get_ss_usb_device_capability_descriptor cap h \<noteq> None"
    using long [of 10] cap(1)
    by (auto simp: libusb_get_ss_usb_device_capability_descriptor_def capability_ok_def get_at_def
        numeral_eq_Suc Let_def split: prod.split dest!: buf_Suc)
  show "libusb_get_container_id_descriptor cap h \<noteq> None"
    using long [of 20] cap(1)
    by (cases r) (auto simp: libusb_get_container_id_descriptor_def capability_ok_def get_at_def get_bytes_def
        Let_def split: prod.split)
qed

end
