(* ===== verification/UsbDescRoundtrip.thy ===== *)
theory UsbDescRoundtrip
  imports UsbDescProofs
begin

text \<open>
  The inverse of the parser: what a device puts on the wire for a tree of configuration,
  interfaces, alternate settings and endpoints, and the proof that the parser gives the tree
  back.
\<close>

section \<open>Encoding\<close>

text \<open>Foreign descriptors: each states a length of at least two that ends inside the list, and
  none has one of the standard types.\<close>

function foreign :: "bytes \<Rightarrow> bool" where
  "foreign bs =
     (case bs of
        [] \<Rightarrow> True
      | [x] \<Rightarrow> False
      | l # t # r \<Rightarrow>
          if 2 \<le> unat l \<and> unat l \<le> length bs \<and> \<not> proper_descriptor t
          then foreign (drop (unat l) bs) else False)"
  by auto
termination by (relation "measure length") auto

declare foreign.simps [simp del]

definition enc_endpoint :: "usb_endpoint \<Rightarrow> bytes" where
  "enc_endpoint e =
     [ep_bLength e, ep_bDescriptorType e, bEndpointAddress e, ep_bmAttributes e]
     @ bytes16 (wMaxPacketSize e) @ [bInterval e]
     @ (if ep_bLength e = 9 then [bRefresh e, bSynchAddress e] else []) @ ep_extra_data e"

definition endpoint_shape :: "usb_endpoint \<Rightarrow> bool" where
  "endpoint_shape e \<longleftrightarrow> (ep_bLength e = 9 \<or> ep_bLength e = 7 \<and> bRefresh e = 0 \<and> bSynchAddress e = 0)
     \<and> ep_bDescriptorType e = DT_ENDPOINT \<and> foreign (ep_extra_data e)
     \<and> ep_extra_length e = int (length (ep_extra_data e))
     \<and> (ep_extra e \<noteq> 0 \<longleftrightarrow> ep_extra_data e \<noteq> [])"

definition enc_altsetting :: "usb_altsetting \<Rightarrow> bytes" where
  "enc_altsetting a =
     [if_bLength a, if_bDescriptorType a, bInterfaceNumber a, bAlternateSetting a, bNumEndpoints a,
      bInterfaceClass a, bInterfaceSubClass a, bInterfaceProtocol a, iInterface a]
     @ if_extra_data a @ concat (map enc_endpoint (if_endpoints a))"

definition altsetting_shape :: "usb_altsetting \<Rightarrow> bool" where
  "altsetting_shape a \<longleftrightarrow> if_bLength a = 9 \<and> if_bDescriptorType a = DT_INTERFACE
     \<and> length (if_endpoints a) \<le> 32 \<and> bNumEndpoints a = of_nat (length (if_endpoints a))
     \<and> list_all endpoint_shape (if_endpoints a)
     \<and> foreign (if_extra_data a) \<and> if_extra_length a = int (length (if_extra_data a))
     \<and> (if_extra a \<noteq> 0 \<longleftrightarrow> if_extra_data a \<noteq> []) \<and> (if_endpoint a \<noteq> 0 \<longleftrightarrow> if_endpoints a \<noteq> [])"

definition enc_interface :: "usb_interface \<Rightarrow> bytes" where
  "enc_interface ui = concat (map enc_altsetting (altsettings ui))"

text \<open>The alternate settings of an interface carry its number.\<close>

definition interface_number :: "usb_interface \<Rightarrow> u8" where
  "interface_number ui = bInterfaceNumber (hd (altsettings ui))"

definition interface_shape :: "usb_interface \<Rightarrow> bool" where
  "interface_shape ui \<longleftrightarrow> altsettings ui \<noteq> [] \<and> list_all altsetting_shape (altsettings ui)
     \<and> list_all (\<lambda>a. bInterfaceNumber a = interface_number ui) (altsettings ui)
     \<and> altsetting ui \<noteq> 0"

definition enc_config :: "usb_config \<Rightarrow> bytes" where
  "enc_config c =
     [cf_bLength c, cf_bDescriptorType c] @ bytes16 (wTotalLength c)
     @ [bNumInterfaces c, bConfigurationValue c, iConfiguration c, cf_bmAttributes c, MaxPower c]
     @ cf_extra_data c @ concat (map enc_interface (cf_interfaces c))"

fun numbers_change :: "usb_interface list \<Rightarrow> bool" where
  "numbers_change (x # y # zs) \<longleftrightarrow> interface_number x \<noteq> interface_number y \<and> numbers_change (y # zs)"
| "numbers_change _ \<longleftrightarrow> True"

definition config_shape :: "usb_config \<Rightarrow> bool" where
  "config_shape c \<longleftrightarrow> cf_bLength c = 9 \<and> cf_bDescriptorType c = DT_CONFIG
     \<and> length (cf_interfaces c) \<le> 32 \<and> bNumInterfaces c = of_nat (length (cf_interfaces c))
     \<and> list_all interface_shape (cf_interfaces c) \<and> numbers_change (cf_interfaces c)
     \<and> foreign (cf_extra_data c) \<and> cf_extra_length c = int (length (cf_extra_data c))
     \<and> (cf_interfaces c = [] \<longrightarrow> cf_extra_data c = [])
     \<and> cf_interface c \<noteq> 0 \<and> (cf_extra c \<noteq> 0 \<longleftrightarrow> cf_extra_data c \<noteq> [])"

text \<open>The contents of a structure: of the addresses of its arrays it keeps only whether they are
  NULL.\<close>

definition mark :: "nat \<Rightarrow> nat" where
  "mark p = (if p = 0 then 0 else 1)"

lemma mark_simps [simp]: "mark 0 = 0" "p \<noteq> 0 \<Longrightarrow> mark p = Suc 0" "mark p = 0 \<longleftrightarrow> p = 0"
  by (simp_all add: mark_def)

definition plain_endpoint :: "usb_endpoint \<Rightarrow> usb_endpoint" where
  "plain_endpoint e = e\<lparr>ep_extra := mark (ep_extra e)\<rparr>"

definition plain_altsetting :: "usb_altsetting \<Rightarrow> usb_altsetting" where
  "plain_altsetting a = a\<lparr>if_endpoint := mark (if_endpoint a), if_extra := mark (if_extra a),
     if_endpoints := map plain_endpoint (if_endpoints a)\<rparr>"

definition plain_interface :: "usb_interface \<Rightarrow> usb_interface" where
  "plain_interface ui = \<lparr>altsetting = mark (altsetting ui), altsettings = map plain_altsetting (altsettings ui)\<rparr>"

definition plain_config :: "usb_config \<Rightarrow> usb_config" where
  "plain_config c = c\<lparr>cf_interface := mark (cf_interface c), cf_extra := mark (cf_extra c),
     cf_interfaces := map plain_interface (cf_interfaces c)\<rparr>"

section \<open>Where the skipping loops stop\<close>

text \<open>Nothing follows, or a whole descriptor of a standard type.\<close>

definition boundary :: "bytes \<Rightarrow> bool" where
  "boundary rest \<longleftrightarrow> rest = []
     \<or> (\<exists>l t r. rest = l # t # r \<and> 2 \<le> unat l \<and> unat l \<le> length rest \<and> proper_descriptor t)"

lemma boundaryI: "2 \<le> unat l \<Longrightarrow> unat l \<le> Suc (Suc (length r)) \<Longrightarrow> proper_descriptor t \<Longrightarrow> boundary (l # t # r)"
  by (auto simp: boundary_def)

lemma proper_simps [simp]: "proper_descriptor DT_ENDPOINT" "proper_descriptor DT_INTERFACE"
  by (simp_all add: proper_descriptor_def)

lemma uint_ge2: "2 \<le> unat (l :: u8) \<Longrightarrow> 2 \<le> uint l"
proof -
  assume "2 \<le> unat l"
  then have "int 2 \<le> int (unat l)" by (rule zle_int [THEN iffD2])
  then show ?thesis by simp
qed

lemma uint_le: "unat (l :: u8) \<le> n \<Longrightarrow> uint l \<le> int n"
proof -
  assume "unat l \<le> n"
  then have "int (unat l) \<le> int n" by (rule zle_int [THEN iffD2])
  then show ?thesis by simp
qed

lemma skip_boundary: "boundary rest \<Longrightarrow> skip_extra rest (int (length rest)) = Some (Skip_done, 0)"
proof -
  assume "boundary rest"
  then consider "rest = []" | l t r where "rest = l # t # r" "2 \<le> unat l" "unat l \<le> length rest"
      "proper_descriptor t" by (auto simp: boundary_def)
  then show ?thesis
  proof cases
    case 1
    then show ?thesis by (simp add: skip_extra.simps [of "[]"])
  next
    case 2
    then show ?thesis using uint_ge2 [OF 2(2)] uint_le [OF 2(3)]
      by (simp add: skip_extra.simps [of "l # t # r"] desc_simps)
  qed
qed

lemma skip_foreign:
  "foreign bs \<Longrightarrow> boundary rest \<Longrightarrow>
     skip_extra (bs @ rest) (int (length (bs @ rest))) = Some (Skip_done, length bs)"
proof (induction bs rule: foreign.induct)
  case (1 bs)
  consider "bs = []" | x where "bs = [x]" | l t r where "bs = l # t # r"
    by (cases bs; cases "tl bs") auto
  then show ?case
  proof cases
    case 1
    then show ?thesis using skip_boundary [OF \<open>boundary rest\<close>] by simp
  next
    case 2
    then have "\<not> foreign bs" by (simp add: foreign.simps [of "[x]"])
    then show ?thesis using \<open>foreign bs\<close> by simp
  next
    case 3
    have f: "2 \<le> unat l" "unat l \<le> length bs" "\<not> proper_descriptor t" "foreign (drop (unat l) bs)"
      using \<open>foreign bs\<close> 3 by (auto simp: foreign.simps [of "l # t # r"] split: if_splits)
    have rec: "skip_extra (drop (unat l) bs @ rest) (int (length (drop (unat l) bs @ rest)))
        = Some (Skip_done, length (drop (unat l) bs))"
      using "1.IH" 3 f \<open>boundary rest\<close> by auto
    have sz: "int (length (bs @ rest)) - uint l = int (length (drop (unat l) bs @ rest))"
      using f(2) by (simp add: of_nat_diff)
    have hdr: "parse_header (bs @ rest) = Some (l, t)" by (simp add: 3 desc_simps)
    have "\<not> int (length (bs @ rest)) < 2" "\<not> uint l < 2" "\<not> int (length (bs @ rest)) < uint l"
      using uint_ge2 [OF f(1)] uint_le [OF f(2)] 3 by auto
    then have "skip_extra (bs @ rest) (int (length (bs @ rest)))
        = (case skip_extra (drop (unat l) (bs @ rest)) (int (length (bs @ rest)) - uint l) of None \<Rightarrow> None
           | Some (e, n) \<Rightarrow> Some (e, unat l + n))"
      using hdr f(3) by (simp add: skip_extra.simps [of "bs @ rest"])
    also have "drop (unat l) (bs @ rest) = drop (unat l) bs @ rest" using f(2) by simp
    finally show ?thesis unfolding sz rec using f(2) by simp
  qed
qed


section \<open>Endpoints\<close>

lemma new_block_ok:
  "heap_ok h \<Longrightarrow> \<exists>p h'. new_block h = (p, h') \<and> p \<noteq> 0 \<and> heap_ok h'"
  using new_block_owns [OF owns_nil] owns_ok by blast

lemma read_endpoint_enc:
  assumes "endpoint_shape e"
  shows "read_endpoint (ep_bLength e) (enc_endpoint e @ rest) zero_endpoint
    = Some (e\<lparr>ep_extra := 0, ep_extra_data := [], ep_extra_length := 0\<rparr>)"
  using assms
  by (cases e) (auto simp: endpoint_shape_def enc_endpoint_def read_endpoint_def zero_endpoint_def
      bytes16_def wire_simps)

lemma endpoint_len:
  "endpoint_shape e \<Longrightarrow> length (enc_endpoint e) = unat (ep_bLength e) + length (ep_extra_data e)"
  "endpoint_shape e \<Longrightarrow> drop (unat (ep_bLength e)) (enc_endpoint e) = ep_extra_data e"
  by (auto simp: endpoint_shape_def enc_endpoint_def bytes16_def)

lemma enc_endpoint_Cons:
  "\<exists>r. enc_endpoint e = ep_bLength e # ep_bDescriptorType e # r"
  by (simp add: enc_endpoint_def)

lemma endpoint_bLength: "endpoint_shape e \<Longrightarrow> 7 \<le> unat (ep_bLength e) \<and> 7 \<le> uint (ep_bLength e)
    \<and> \<not> ep_bLength e < ENDPOINT_DESC_LENGTH"
  by (auto simp: endpoint_shape_def)

lemma boundary_endpoint: "endpoint_shape e \<Longrightarrow> boundary (enc_endpoint e @ rest)"
proof -
  assume shape: "endpoint_shape e"
  obtain r where r: "enc_endpoint e = ep_bLength e # ep_bDescriptorType e # r" using enc_endpoint_Cons by blast
  have "unat (ep_bLength e) \<le> length (enc_endpoint e)" using endpoint_len(1) [OF shape] by simp
  then show ?thesis using endpoint_bLength [OF shape] shape r
    by (auto simp: endpoint_shape_def intro!: boundaryI)
qed

lemma parse_endpoint_enc:
  assumes "endpoint_shape e" "boundary rest" "heap_ok h"
  shows "\<exists>e' h'. parse_endpoint zero_endpoint (enc_endpoint e @ rest) (int (length (enc_endpoint e @ rest))) h
    = Some (int (length (enc_endpoint e)), e', h') \<and> plain_endpoint e' = plain_endpoint e \<and> heap_ok h'"
proof -
  let ?buf = "enc_endpoint e @ rest" let ?n = "length (ep_extra_data e)"
  obtain r where r: "enc_endpoint e = ep_bLength e # ep_bDescriptorType e # r" using enc_endpoint_Cons by blast
  have hdr: "parse_header ?buf = Some (ep_bLength e, DT_ENDPOINT)"
    using assms(1) by (simp add: r desc_simps endpoint_shape_def)
  have le: "unat (ep_bLength e) \<le> length (enc_endpoint e)" using endpoint_len(1) [OF assms(1)] by simp
  then have le': "uint (ep_bLength e) \<le> int (length ?buf)" by (intro uint_le) simp
  have first: "drop (unat (ep_bLength e)) ?buf = ep_extra_data e @ rest"
    using endpoint_len(2) [OF assms(1)] le by simp
  have sz: "int (length ?buf) - uint (ep_bLength e) = int (length (ep_extra_data e @ rest))"
    using endpoint_len(1) [OF assms(1)] by simp
  have sk: "skip_extra (ep_extra_data e @ rest) (int (length (ep_extra_data e @ rest))) = Some (Skip_done, ?n)"
    by (rule skip_foreign) (use assms(1,2) in \<open>simp_all add: endpoint_shape_def\<close>)
  obtain p h1 where p: "new_block h = (p, h1)" "p \<noteq> 0" "heap_ok h1" using new_block_ok [OF assms(3)] by blast
  have tk: "get_bytes 0 ?n (ep_extra_data e @ rest) = Some (ep_extra_data e)" by (simp add: get_bytes_def)
  have two: "\<not> int (length ?buf) < 2" by (simp add: r)
  have parsed: "uint (ep_bLength e) + int ?n = int (length (enc_endpoint e))"
    using endpoint_len(1) [OF assms(1)] by simp
  let ?e1 = "e\<lparr>ep_extra := 0, ep_extra_data := [], ep_extra_length := 0\<rparr>"
  have run: "parse_endpoint zero_endpoint ?buf (int (length ?buf)) h
    = (if ?n = 0 then Some (int (length (enc_endpoint e)), ?e1, h)
       else Some (int (length (enc_endpoint e)),
         ?e1\<lparr>ep_extra := p, ep_extra_data := ep_extra_data e, ep_extra_length := int ?n\<rparr>, h1))"
    unfolding parse_endpoint_def
    using two hdr le' endpoint_bLength [OF assms(1)] read_endpoint_enc [OF assms(1), of rest] p(1,2)
      first sk tk parsed
    by (auto simp: sz Let_def not_less simp del: length_append)
  show ?thesis
  proof (cases "?n = 0")
    case True
    then have "plain_endpoint ?e1 = plain_endpoint e"
      using assms(1) by (cases e) (simp add: plain_endpoint_def endpoint_shape_def)
    then show ?thesis using run True assms(3) by auto
  next
    case False
    then have "plain_endpoint (?e1\<lparr>ep_extra := p, ep_extra_data := ep_extra_data e, ep_extra_length := int ?n\<rparr>)
        = plain_endpoint e"
      using assms(1) p(2) by (cases e) (simp add: plain_endpoint_def endpoint_shape_def)
    then show ?thesis using run False p(3) by auto
  qed
qed

lemma enc_endpoint_ne [simp]: "enc_endpoint e \<noteq> []"
  by (simp add: enc_endpoint_def)

lemma endpoints_boundary:
  "list_all endpoint_shape es \<Longrightarrow> boundary rest \<Longrightarrow> boundary (concat (map enc_endpoint es) @ rest)"
  by (cases es) (simp_all add: boundary_endpoint)

lemma parse_endpoints_enc:
  assumes "list_all endpoint_shape es" "boundary rest" "heap_ok h" "length pre = i"
  shows "\<exists>es' h'. parse_endpoints (length es) i (concat (map enc_endpoint es) @ rest)
      (int (length (concat (map enc_endpoint es) @ rest))) (pre @ replicate (length es) zero_endpoint) h
    = Some (Ep_all, length (concat (map enc_endpoint es)), pre @ es', h')
    \<and> map plain_endpoint es' = map plain_endpoint es \<and> length es' = length es \<and> heap_ok h'"
  using assms
proof (induction es arbitrary: i h pre)
  case Nil
  then show ?case by simp
next
  case (Cons e es)
  let ?tail = "concat (map enc_endpoint es) @ rest"
  have bt: "boundary ?tail" using endpoints_boundary Cons.prems(1,2) by simp
  have se: "endpoint_shape e" using Cons.prems(1) by simp
  obtain e' h1 where e': "parse_endpoint zero_endpoint (enc_endpoint e @ ?tail)
      (int (length (enc_endpoint e @ ?tail))) h = Some (int (length (enc_endpoint e)), e', h1)"
      "plain_endpoint e' = plain_endpoint e" "heap_ok h1"
    using parse_endpoint_enc [OF se bt Cons.prems(3)] by blast
  obtain es' h' where es': "parse_endpoints (length es) (Suc i) ?tail (int (length ?tail))
      ((pre @ [e']) @ replicate (length es) zero_endpoint) h1
      = Some (Ep_all, length (concat (map enc_endpoint es)), (pre @ [e']) @ es', h')"
      "map plain_endpoint es' = map plain_endpoint es" "length es' = length es" "heap_ok h'"
    using Cons.IH [of h1 "pre @ [e']" "Suc i"] Cons.prems e'(3) by fastforce
  have upd: "(pre @ zero_endpoint # replicate (length es) zero_endpoint)[i := e']
      = (pre @ [e']) @ replicate (length es) zero_endpoint"
    using Cons.prems(4) by (simp add: list_update_append)
  have at: "get_at i (pre @ zero_endpoint # replicate (length es) zero_endpoint) = Some zero_endpoint"
    using Cons.prems(4) by (simp add: get_at_def nth_append)
  have len: "int (length (enc_endpoint e @ ?tail)) - int (length (enc_endpoint e)) = int (length ?tail)" by simp
  have pos: "\<not> int (length (enc_endpoint e)) < 0" "int (length (enc_endpoint e)) \<noteq> 0" by simp_all
  have "parse_endpoints (Suc (length es)) i (enc_endpoint e @ ?tail) (int (length (enc_endpoint e @ ?tail)))
      (pre @ zero_endpoint # replicate (length es) zero_endpoint) h
    = Some (Ep_all, length (enc_endpoint e) + length (concat (map enc_endpoint es)), (pre @ [e']) @ es', h')"
    using at e'(1) upd pos es'(1) len by (simp add: Let_def del: length_append)
  then show ?case using e'(2) es'(2-4) by simp
qed


section \<open>Alternate settings\<close>

definition altsetting_header :: "usb_altsetting \<Rightarrow> usb_altsetting" where
  "altsetting_header a = a\<lparr>if_endpoint := 0, if_endpoints := [], if_extra := 0, if_extra_data := [],
     if_extra_length := 0\<rparr>"

lemma altsetting_count:
  "altsetting_shape a \<Longrightarrow> unat (bNumEndpoints a) = length (if_endpoints a)"
  "altsetting_shape a \<Longrightarrow> bNumEndpoints a = 0 \<longleftrightarrow> if_endpoints a = []"
  "altsetting_shape a \<Longrightarrow> \<not> USB_MAXENDPOINTS < bNumEndpoints a"
proof -
  assume shape: "altsetting_shape a"
  then have le: "length (if_endpoints a) \<le> 32" "bNumEndpoints a = of_nat (length (if_endpoints a))"
    by (simp_all add: altsetting_shape_def)
  then show cnt: "unat (bNumEndpoints a) = length (if_endpoints a)" by (simp add: unat_of_nat)
  then show "bNumEndpoints a = 0 \<longleftrightarrow> if_endpoints a = []" by (metis length_0_conv unat_eq_zero)
  show "\<not> USB_MAXENDPOINTS < bNumEndpoints a" using cnt le(1) by (simp add: word_less_nat_alt)
qed

lemma read_altsetting_enc:
  "read_altsetting (enc_altsetting a @ rest) = Some (altsetting_header a)"
  by (cases a) (simp add: enc_altsetting_def desc_simps altsetting_header_def)

lemma parse_alt_body_enc:
  assumes "altsetting_shape a" "boundary rest" "heap_ok h"
  shows "\<exists>a' h'. parse_alt_body (altsetting_header a)
      (if_extra_data a @ concat (map enc_endpoint (if_endpoints a)) @ rest)
      (int (length (if_extra_data a @ concat (map enc_endpoint (if_endpoints a)) @ rest))) h
    = Some (Alt_next, length (if_extra_data a @ concat (map enc_endpoint (if_endpoints a))), a', h')
    \<and> plain_altsetting a' = plain_altsetting a"
proof -
  let ?eps = "concat (map enc_endpoint (if_endpoints a))" let ?n = "length (if_extra_data a)"
  let ?buf = "if_extra_data a @ ?eps @ rest"
  have shape: "list_all endpoint_shape (if_endpoints a)" "foreign (if_extra_data a)"
    "if_extra_length a = int ?n" using assms(1) by (simp_all add: altsetting_shape_def)
  have sk: "skip_extra ?buf (int (length ?buf)) = Some (Skip_done, ?n)"
    by (rule skip_foreign [OF shape(2) endpoints_boundary [OF shape(1) assms(2)]])
  have tk: "get_bytes 0 ?n ?buf = Some (if_extra_data a)" by (simp add: get_bytes_def)
  let ?alloc = "if ?n = 0 then Some (True, altsetting_header a, h)
            else let (p, h1) = new_block h in
              if p = 0 then Some (False, (altsetting_header a)\<lparr>if_extra := 0\<rparr>, h1)
              else do { bs \<leftarrow> get_bytes 0 ?n ?buf;
                        Some (True, (altsetting_header a)\<lparr>if_extra := p, if_extra_data := bs, if_extra_length := int ?n\<rparr>, h1) }"
  obtain q hq where q: "new_block h = (q, hq)" "q \<noteq> 0" "heap_ok hq" using new_block_ok [OF assms(3)] by blast
  have xs: "if_extra a \<noteq> 0 \<longleftrightarrow> if_extra_data a \<noteq> []" "if_endpoint a \<noteq> 0 \<longleftrightarrow> if_endpoints a \<noteq> []"
    using assms(1) by (simp_all add: altsetting_shape_def)
  have "\<exists>x h1. ?alloc = Some (True, a\<lparr>if_endpoint := 0, if_endpoints := [], if_extra := x\<rparr>, h1) \<and> heap_ok h1
      \<and> mark x = mark (if_extra a)"
  proof (cases "?n = 0")
    case True
    then show ?thesis using assms(3) shape(3) xs(1)
      by (intro exI [of _ 0] exI [of _ h]) (cases a; simp add: altsetting_header_def)
  next
    case False
    then show ?thesis using q tk shape(3) xs(1)
      by (intro exI [of _ q] exI [of _ hq]) (cases a; simp add: altsetting_header_def)
  qed
  then obtain x h1 where alloc: "?alloc = Some (True, a\<lparr>if_endpoint := 0, if_endpoints := [], if_extra := x\<rparr>, h1)"
    "heap_ok h1" "mark x = mark (if_extra a)" by blast
  let ?a1 = "a\<lparr>if_endpoint := 0, if_endpoints := [], if_extra := x\<rparr>"
  show ?thesis
  proof (cases "if_endpoints a = []")
    case True
    then have "parse_alt_body (altsetting_header a) ?buf (int (length ?buf)) h = Some (Alt_next, ?n, ?a1, h1)"
      unfolding parse_alt_body_def using sk alloc(1) altsetting_count(2) [OF assms(1)] by simp
    moreover have "plain_altsetting ?a1 = plain_altsetting a"
      using True xs(2) alloc(3) by (cases a) (simp add: plain_altsetting_def)
    ultimately show ?thesis using True by simp
  next
    case False
    obtain p h2 where p: "new_block h1 = (p, h2)" "p \<noteq> 0" "heap_ok h2" using new_block_ok [OF alloc(2)] by blast
    obtain es' h' where es': "parse_endpoints (length (if_endpoints a)) 0 (?eps @ rest) (int (length (?eps @ rest)))
        ([] @ replicate (length (if_endpoints a)) zero_endpoint) h2 = Some (Ep_all, length ?eps, [] @ es', h')"
        "map plain_endpoint es' = map plain_endpoint (if_endpoints a)"
      using parse_endpoints_enc [OF shape(1) assms(2) p(3), of "[]" 0] by auto
    have sz: "int (length ?buf) - int ?n = int (length (?eps @ rest))" by simp
    have "parse_alt_body (altsetting_header a) ?buf (int (length ?buf)) h
        = Some (Alt_next, ?n + length ?eps, ?a1\<lparr>if_endpoint := p, if_endpoints := es'\<rparr>, h')"
      unfolding parse_alt_body_def
      using sk alloc(1) altsetting_count [OF assms(1)] False p(1,2) es'(1)
      by (simp add: Let_def sz del: length_append)
    moreover have "plain_altsetting (?a1\<lparr>if_endpoint := p, if_endpoints := es'\<rparr>) = plain_altsetting a"
      using False xs(2) alloc(3) p(2) es'(2) by (cases a) (simp add: plain_altsetting_def)
    ultimately show ?thesis by simp
  qed
qed

lemma altsetting_header_simps [simp]:
  "if_bLength (altsetting_header a) = if_bLength a"
  "if_bDescriptorType (altsetting_header a) = if_bDescriptorType a"
  "bInterfaceNumber (altsetting_header a) = bInterfaceNumber a"
  "bNumEndpoints (altsetting_header a) = bNumEndpoints a"
  "if_extra (altsetting_header a) = 0" "if_endpoint (altsetting_header a) = 0"
  by (simp_all add: altsetting_header_def)

lemma boundary_altsetting: "altsetting_shape a \<Longrightarrow> boundary (enc_altsetting a @ rest)"
  by (auto simp: enc_altsetting_def altsetting_shape_def intro!: boundaryI)

lemma altsettings_boundary:
  "list_all altsetting_shape as \<Longrightarrow> boundary rest \<Longrightarrow> boundary (concat (map enc_altsetting as) @ rest)"
  by (cases as) (simp_all add: boundary_altsetting)

lemma is_alternate_enc:
  "altsetting_shape a \<Longrightarrow>
     is_alternate (enc_altsetting a @ rest) (int (length (enc_altsetting a @ rest))) n
       = Some (uint (bInterfaceNumber a) = n)"
  by (simp add: is_alternate_def enc_altsetting_def altsetting_shape_def get_at_def)

lemma parse_altsettings_enc:
  assumes "as \<noteq> []" "list_all altsetting_shape as" "list_all (\<lambda>a. bInterfaceNumber a = num) as"
    "boundary rest" "is_alternate rest (int (length rest)) (uint num) = Some False"
    "ifnum = -1 \<or> ifnum = uint num" "interface_wf ui" "owns h0 (interface_blocks ui @ bs) h"
  shows "\<exists>ui' h'. parse_altsettings ui ifnum (concat (map enc_altsetting as) @ rest)
      (int (length (concat (map enc_altsetting as) @ rest))) parsed h
    = Some (parsed + int (length (concat (map enc_altsetting as))), ui', h')
    \<and> map plain_altsetting (altsettings ui') = map plain_altsetting (altsettings ui @ as) \<and> altsetting ui' \<noteq> 0"
  using assms
proof (induction as arbitrary: ui ifnum parsed h)
  case Nil
  then show ?case by simp
next
  case (Cons a as)
  let ?tail = "concat (map enc_altsetting as) @ rest"
  let ?body = "if_extra_data a @ concat (map enc_endpoint (if_endpoints a))"
  let ?buf = "enc_altsetting a @ ?tail"
  have shape: "altsetting_shape a" using Cons.prems(2) by simp
  have bt: "boundary ?tail" using altsettings_boundary Cons.prems(2,4) by simp
  have ublocks: "interface_blocks ui
      = concat (map altsetting_blocks (altsettings ui)) @ ptr_blocks (altsetting ui)"
    using Cons.prems(7) by (auto simp: interface_blocks_def interface_wf_def)
  have "owns h0 (ptr_blocks (altsetting ui) @ concat (map altsetting_blocks (altsettings ui)) @ bs) h"
    by (rule owns_permI [OF Cons.prems(8)]) (simp add: ublocks)
  then obtain p h1 where p: "usbi_reallocf (altsetting ui) h = Some (p, h1)" "p \<noteq> 0"
    "owns h0 (p # concat (map altsetting_blocks (altsettings ui)) @ bs) h1"
    using reallocf_owns by blast
  let ?ui1 = "ui\<lparr>altsetting := p\<rparr>"
  have own1: "owns h0 (interface_blocks ?ui1 @ bs) h1"
    by (rule owns_permI [OF p(3)]) (use p(2) in \<open>simp add: interface_blocks_def\<close>)
  obtain a' h2 where body: "parse_alt_body (altsetting_header a) (?body @ ?tail) (int (length (?body @ ?tail))) h1
      = Some (Alt_next, length ?body, a', h2)" "plain_altsetting a' = plain_altsetting a"
    using parse_alt_body_enc [OF shape bt owns_ok [OF own1]] by auto
  have body2: "altsetting_wf a'" "owns h0 (altsetting_blocks a' @ interface_blocks ?ui1 @ bs) h2"
    using parse_alt_body_owns [OF order.refl _ own1, of "?body @ ?tail" "altsetting_header a"] body(1) by simp_all
  let ?ui2 = "?ui1\<lparr>altsettings := altsettings ui @ [a']\<rparr>"
  have wf2: "interface_wf ?ui2" using body2(1) Cons.prems(7) p(2) by (auto simp: interface_wf_def)
  have own2: "owns h0 (interface_blocks ?ui2 @ bs) h2"
    by (rule owns_permI [OF body2(2)]) (use p(2) in \<open>simp add: interface_blocks_def\<close>)
  have len9: "if_bLength a = 9" "if_bDescriptorType a = DT_INTERFACE" "bInterfaceNumber a = num"
    using shape Cons.prems(3) by (simp_all add: altsetting_shape_def)
  have enc: "length (enc_altsetting a) = 9 + length ?body" "drop 9 ?buf = ?body @ ?tail"
    by (simp_all add: enc_altsetting_def)
  obtain again where again: "is_alternate ?tail (int (length ?tail)) (uint num) = Some again"
    "again \<longleftrightarrow> as \<noteq> []"
  proof (cases as)
    case Nil
    then show ?thesis using Cons.prems(5) that [of False] by simp
  next
    case (Cons b bs)
    then have "altsetting_shape b" "bInterfaceNumber b = num" using Cons.prems(2,3) by simp_all
    then show ?thesis using is_alternate_enc [of b "concat (map enc_altsetting bs) @ rest" "uint num"] that [of True]
      by (simp add: Cons)
  qed
  have run: "parse_altsettings ui ifnum ?buf (int (length ?buf)) parsed h =
      (if again then parse_altsettings ?ui2 (uint num) ?tail (int (length ?tail)) (parsed + 9 + int (length ?body)) h2
       else Some (parsed + 9 + int (length ?body), ?ui2, h2))"
  proof -
    define tl nb where "tl = ?tail" and "nb = length ?body"
    define buf bt where "buf = enc_altsetting a @ tl" and "bt = ?body @ tl"
    have eqs: "drop 9 buf = bt" "int (length buf) - 9 = int (length bt)" "drop nb bt = tl"
      "int (length bt) - int nb = int (length tl)" "\<not> int (length buf) < 9"
      using enc by (simp_all add: buf_def bt_def tl_def nb_def)
    have num: "uint num \<noteq> -1" using uint_nonnegative [of num] by linarith
    have hd: "read_altsetting buf = Some (altsetting_header a)"
      unfolding buf_def by (rule read_altsetting_enc)
    have "parse_alt_body (altsetting_header a) bt (int (length bt)) h1 = Some (Alt_next, nb, a', h2)"
      unfolding bt_def nb_def tl_def by (rule body(1))
    moreover have "is_alternate tl (int (length tl)) (uint num) = Some again"
      unfolding tl_def by (rule again(1))
    ultimately show ?thesis
      unfolding tl_def [symmetric] nb_def [symmetric]
      unfolding buf_def [symmetric]
      using Cons.prems(6) p(1,2) hd len9 altsetting_count(3) [OF shape] eqs
      by (elim disjE) (simp_all add: parse_altsettings.simps [of ui _ buf] Let_def num)
  qed
  show ?case
  proof (cases "as = []")
    case True
    then show ?thesis using run again(2) body(2) enc(1) p(2) by simp
  next
    case False
    obtain ui' h' where "parse_altsettings ?ui2 (uint num) ?tail (int (length ?tail))
        (parsed + 9 + int (length ?body)) h2
        = Some (parsed + 9 + int (length ?body) + int (length (concat (map enc_altsetting as))), ui', h')"
      "map plain_altsetting (altsettings ui') = map plain_altsetting (altsettings ?ui2 @ as)" "altsetting ui' \<noteq> 0"
      using Cons.IH [OF False _ _ Cons.prems(4,5) _ wf2 own2, of "uint num"] Cons.prems(2,3) by fastforce
    then show ?thesis using run again(2) False body(2) enc(1) by simp
  qed
qed


section \<open>Interfaces and the configuration\<close>

lemma interface_boundary: "interface_shape ui \<Longrightarrow> boundary rest \<Longrightarrow> boundary (enc_interface ui @ rest)"
  unfolding enc_interface_def by (rule altsettings_boundary) (simp_all add: interface_shape_def)

lemma interfaces_boundary:
  "list_all interface_shape uis \<Longrightarrow> boundary (concat (map enc_interface uis))"
proof (induction uis)
  case Nil
  then show ?case by (simp add: boundary_def)
next
  case (Cons ui uis)
  then show ?case by (simp add: interface_boundary)
qed

text \<open>What follows an interface is not an alternate setting of it.\<close>

lemma next_interface:
  assumes "list_all interface_shape (ui # uis)" "numbers_change (ui # uis)"
  shows "is_alternate (concat (map enc_interface uis)) (int (length (concat (map enc_interface uis))))
    (uint (interface_number ui)) = Some False"
proof (cases uis)
  case Nil
  then show ?thesis by (simp add: is_alternate_def)
next
  case (Cons x xs)
  have x: "interface_shape x" "interface_number x \<noteq> interface_number ui" using assms Cons by auto
  obtain a as where a: "altsettings x = a # as" using x(1) by (cases "altsettings x") (auto simp: interface_shape_def)
  have "altsetting_shape a" "bInterfaceNumber a = interface_number x" using x(1) a by (simp_all add: interface_shape_def)
  moreover have "concat (map enc_interface uis)
      = enc_altsetting a @ concat (map enc_altsetting as) @ concat (map enc_interface xs)"
    by (simp add: Cons enc_interface_def a)
  ultimately show ?thesis
    using is_alternate_enc [of a "concat (map enc_altsetting as) @ concat (map enc_interface xs)"
        "uint (interface_number ui)"] x(2) [unfolded word_uint_eq_iff]
    by (simp del: length_append)
qed

lemma enc_interface_len: "interface_shape ui \<Longrightarrow> 0 < length (enc_interface ui)"
  by (cases "altsettings ui") (auto simp: interface_shape_def enc_interface_def enc_altsetting_def)

lemma parse_interface_enc:
  assumes "list_all interface_shape (ui # uis)" "numbers_change (ui # uis)" "owns h0 bs h"
  shows "\<exists>ui' h'. parse_interface zero_interface (concat (map enc_interface (ui # uis)))
      (int (length (concat (map enc_interface (ui # uis))))) h = Some (int (length (enc_interface ui)), ui', h')
    \<and> plain_interface ui' = plain_interface ui"
proof -
  have z: "interface_wf (zero_interface\<lparr>altsettings := []\<rparr>)"
    "owns h0 (interface_blocks (zero_interface\<lparr>altsettings := []\<rparr>) @ bs) h"
    using assms(3) by (simp_all add: zero_interface_def interface_wf_def interface_blocks_def)
  have sh: "altsettings ui \<noteq> []" "list_all altsetting_shape (altsettings ui)"
    "list_all (\<lambda>a. bInterfaceNumber a = interface_number ui) (altsettings ui)" "altsetting ui \<noteq> 0"
    using assms(1) by (simp_all add: interface_shape_def)
  have b: "boundary (concat (map enc_interface uis))" using interfaces_boundary assms(1) by simp
  obtain ui' h' where "parse_altsettings (zero_interface\<lparr>altsettings := []\<rparr>) (-1)
      (concat (map enc_altsetting (altsettings ui)) @ concat (map enc_interface uis))
      (int (length (concat (map enc_altsetting (altsettings ui)) @ concat (map enc_interface uis)))) 0 h
    = Some (0 + int (length (concat (map enc_altsetting (altsettings ui)))), ui', h')"
    "map plain_altsetting (altsettings ui')
      = map plain_altsetting (altsettings (zero_interface\<lparr>altsettings := []\<rparr>) @ altsettings ui)"
    "altsetting ui' \<noteq> 0"
    using parse_altsettings_enc [OF sh(1-3) b next_interface [OF assms(1,2)] disjI1 [OF refl] z, of 0] by blast
  then show ?thesis using sh(4) by (simp add: parse_interface_def enc_interface_def plain_interface_def)
qed

text \<open>The entries \<open>pre\<close> are parsed, those of \<open>uis\<close> remain; \<open>skipped\<close> are the foreign
  descriptors in front of them.\<close>

lemma parse_interfaces_enc:
  assumes "list_all interface_shape uis" "numbers_change uis" "foreign skipped"
    "config_at i c" "i = length pre" "cf_interfaces c = pre @ replicate (length uis) zero_interface"
    "owns h0 (config_blocks c @ bs) h" "uis = [] \<longrightarrow> skipped = []"
    "cf_extra_length c = 0 \<or> skipped = []" "cf_extra_data c = [] \<or> cf_extra_length c \<noteq> 0"
  shows "\<exists>c' h'. parse_interfaces (length uis) i c (skipped @ concat (map enc_interface uis))
      (int (length (skipped @ concat (map enc_interface uis)))) h = Some (0, c', h')
    \<and> plain_config c' = plain_config (c\<lparr>cf_interfaces := pre @ uis,
        cf_extra := if skipped = [] then cf_extra c else 1,
        cf_extra_data := if skipped = [] then cf_extra_data c else skipped,
        cf_extra_length := if skipped = [] then cf_extra_length c else int (length skipped)\<rparr>)"
  using assms
proof (induction uis arbitrary: i c pre skipped h)
  case Nil
  then have same: "c\<lparr>cf_interfaces := pre\<rparr> = c" by (cases c) simp
  then show ?case using Nil by (simp add: same)
next
  case (Cons ui uis)
  let ?all = "concat (map enc_interface (ui # uis))" let ?tail = "concat (map enc_interface uis)"
  let ?buf = "skipped @ ?all" let ?n = "length skipped"
  have sk: "skip_extra ?buf (int (length ?buf)) = Some (Skip_done, ?n)"
    by (rule skip_foreign [OF Cons.prems(3) interfaces_boundary [OF Cons.prems(1)]])
  define d where "d = c\<lparr>cf_extra_data := if skipped = [] then cf_extra_data c else skipped,
        cf_extra_length := if skipped = [] then cf_extra_length c else int ?n\<rparr>"
  let ?alloc = "if ?n = 0 \<or> cf_extra_length c \<noteq> 0 then Some (True, c, h)
            else let (p, h1) = new_block h in
              if p = 0 then Some (False, c\<lparr>cf_extra := 0\<rparr>, h1)
              else do { bs \<leftarrow> get_bytes 0 ?n ?buf;
                        Some (True, c\<lparr>cf_extra := p, cf_extra_data := bs, cf_extra_length := int ?n\<rparr>, h1) }"
  have "\<exists>x h1. ?alloc = Some (True, d\<lparr>cf_extra := x\<rparr>, h1) \<and> config_at i (d\<lparr>cf_extra := x\<rparr>)
      \<and> owns h0 (config_blocks (d\<lparr>cf_extra := x\<rparr>) @ bs) h1
      \<and> mark x = mark (if skipped = [] then cf_extra c else 1)"
  proof (cases "skipped = []")
    case True
    then have "d\<lparr>cf_extra := cf_extra c\<rparr> = c" by (simp add: d_def)
    then show ?thesis using True Cons.prems(4,7) by (intro exI [of _ "cf_extra c"] exI [of _ h]) simp
  next
    case False
    then have zero: "cf_extra_length c = 0" "cf_extra c = 0" using Cons.prems(4,9) by (auto simp: config_at_def)
    obtain p h1 where p: "new_block h = (p, h1)" "p \<noteq> 0" "owns h0 (p # config_blocks c @ bs) h1"
      using new_block_owns [OF Cons.prems(7)] by blast
    have dsimps: "cf_interface d = cf_interface c" "cf_interfaces d = cf_interfaces c" by (simp_all add: d_def)
    let ?c1 = "d\<lparr>cf_extra := p\<rparr>"
    have at: "config_at i ?c1" using Cons.prems(4) False by (simp add: config_at_def d_def)
    have own1: "owns h0 (config_blocks ?c1 @ bs) h1"
      by (rule owns_permI [OF p(3)])
        (use Cons.prems(4) zero p(2) in \<open>simp add: config_at_blocks [OF at] config_at_blocks [OF Cons.prems(4)] dsimps\<close>)
    have "get_bytes 0 ?n ?buf = Some skipped" by (simp add: get_bytes_def)
    then have "?alloc = Some (True, ?c1, h1)" using False zero p(1,2) by (simp add: d_def)
    then show ?thesis using at own1 False p(2) by (intro exI [of _ p] exI [of _ h1]) simp
  qed
  then obtain x h1 where alloc: "?alloc = Some (True, d\<lparr>cf_extra := x\<rparr>, h1)" "config_at i (d\<lparr>cf_extra := x\<rparr>)"
    "owns h0 (config_blocks (d\<lparr>cf_extra := x\<rparr>) @ bs) h1"
    "mark x = mark (if skipped = [] then cf_extra c else 1)" by blast
  let ?c1 = "d\<lparr>cf_extra := x\<rparr>"
  have ifs1: "cf_interfaces ?c1 = pre @ zero_interface # replicate (length uis) zero_interface"
    using Cons.prems(6) by (simp add: d_def)
  obtain ui' h2 where ui': "parse_interface zero_interface ?all (int (length ?all)) h1
      = Some (int (length (enc_interface ui)), ui', h2)" "plain_interface ui' = plain_interface ui"
    using parse_interface_enc [OF Cons.prems(1,2) alloc(3)] by blast
  have more: "clearable ui'" "owns h0 (interface_blocks ui' @ config_blocks ?c1 @ bs) h2"
    using parse_interface_owns [OF order.refl _ alloc(3), of ?all] ui'(1) by simp_all
  let ?c2 = "?c1\<lparr>cf_interfaces := (cf_interfaces ?c1)[i := ui']\<rparr>"
  have i1: "i < length (cf_interfaces ?c1)" using ifs1 Cons.prems(5) by simp
  have zi: "cf_interfaces ?c1 ! i = zero_interface" using ifs1 Cons.prems(5) by simp
  have at2: "config_at (Suc i) ?c2"
    using alloc(2) i1 more(1) set_update_subset_insert [of "cf_interfaces ?c1" i ui']
    by (auto simp: config_at_def)
  have own2: "owns h0 (config_blocks ?c2 @ bs) h2"
    by (rule owns_permI [OF more(2)])
      (unfold config_at_blocks [OF at2] config_at_blocks [OF alloc(2)],
        use zi i1 concat_update [OF i1, of interface_blocks ui'] in \<open>simp add: ac_simps\<close>)
  have pos: "0 < int (length (enc_interface ui))" using enc_interface_len Cons.prems(1) by simp
  have tail: "drop (length (enc_interface ui)) ?all = ?tail"
    "int (length ?all) - int (length (enc_interface ui)) = int (length ?tail)" by simp_all
  have sz: "int (length ?buf) - int ?n = int (length ?all)" by simp
  have run: "parse_interfaces (Suc (length uis)) i c ?buf (int (length ?buf)) h
      = parse_interfaces (length uis) (Suc i) ?c2 ?tail (int (length ?tail)) h2"
    using sk alloc(1) i1 zi ui'(1) pos tail
    by (simp add: Let_def sz get_at_def del: length_append map_append concat_append list.map concat.simps)
  have ifs2: "cf_interfaces ?c2 = (pre @ [ui']) @ replicate (length uis) zero_interface"
    using ifs1 Cons.prems(5) by (simp add: list_update_append)
  have ed: "cf_extra_data ?c2 = [] \<or> cf_extra_length ?c2 \<noteq> 0" using Cons.prems(10) by (simp add: d_def)
  obtain c' h' where c': "parse_interfaces (length uis) (Suc i) ?c2 ([] @ ?tail) (int (length ([] @ ?tail))) h2
      = Some (0, c', h')"
    "plain_config c' = plain_config (?c2\<lparr>cf_interfaces := (pre @ [ui']) @ uis, cf_extra := cf_extra ?c2,
        cf_extra_data := cf_extra_data ?c2,
        cf_extra_length := cf_extra_length ?c2\<rparr>)"
    using Cons.IH [OF _ _ _ at2 _ ifs2 own2, of "[]"] Cons.prems(1,2,5) ed
    by (auto simp: foreign.simps [of "[]"] elim: numbers_change.elims)
  have "plain_config c' = plain_config (c\<lparr>cf_interfaces := pre @ ui # uis,
        cf_extra := if skipped = [] then cf_extra c else 1,
        cf_extra_data := if skipped = [] then cf_extra_data c else skipped,
        cf_extra_length := if skipped = [] then cf_extra_length c else int ?n\<rparr>)"
    using c'(2) ui'(2) alloc(4) by (simp add: plain_config_def d_def)
  then show ?case using run c'(1) by simp
qed


lemma config_count:
  "config_shape c \<Longrightarrow> unat (bNumInterfaces c) = length (cf_interfaces c)"
  "config_shape c \<Longrightarrow> \<not> USB_MAXINTERFACES < bNumInterfaces c"
  by (auto simp: config_shape_def unat_of_nat word_less_nat_alt)

lemma read_config_enc:
  "read_config (enc_config c @ rest) = Some (c\<lparr>cf_interface := 0, cf_interfaces := [], cf_extra := 0,
     cf_extra_data := [], cf_extra_length := 0\<rparr>)"
  by (cases c) (simp add: enc_config_def bytes16_def desc_simps wire_simps)

lemma parse_configuration_enc:
  assumes "config_shape c" "owns h0 bs h"
  shows "\<exists>c' h'. parse_configuration (enc_config c) (int (length (enc_config c))) h = Some (0, Some c', h')
    \<and> plain_config c' = plain_config c"
proof -
  let ?buf = "enc_config c" let ?n = "length (cf_interfaces c)"
  let ?rest = "cf_extra_data c @ concat (map enc_interface (cf_interfaces c))"
  let ?c0 = "c\<lparr>cf_interface := 0, cf_interfaces := [], cf_extra := 0, cf_extra_data := [], cf_extra_length := 0\<rparr>"
  obtain p h1 where p: "new_block h = (p, h1)" "p \<noteq> 0" "owns h0 (p # bs) h1"
    using new_block_owns [OF assms(2)] by blast
  let ?c1 = "?c0\<lparr>cf_interface := p, cf_interfaces := replicate ?n zero_interface\<rparr>"
  have sh: "cf_bLength c = 9" "cf_bDescriptorType c = DT_CONFIG" "list_all interface_shape (cf_interfaces c)"
    "numbers_change (cf_interfaces c)" "foreign (cf_extra_data c)" "cf_interfaces c = [] \<longrightarrow> cf_extra_data c = []"
    "cf_extra_length c = int (length (cf_extra_data c))" "cf_interface c \<noteq> 0"
    "cf_extra c \<noteq> 0 \<longleftrightarrow> cf_extra_data c \<noteq> []" using assms(1) by (simp_all add: config_shape_def)
  have at: "config_at 0 ?c1" using p(2) config_count(1) [OF assms(1)] by (simp add: config_at_def wf_clearable)
  have own: "owns h0 (config_blocks ?c1 @ bs) h1"
    unfolding config_at_blocks [OF at] using p(3) by simp
  obtain c' h' where c': "parse_interfaces ?n 0 ?c1 ?rest (int (length ?rest)) h1 = Some (0, c', h')"
    "plain_config c' = plain_config (?c1\<lparr>cf_interfaces := [] @ cf_interfaces c,
        cf_extra := if cf_extra_data c = [] then cf_extra ?c1 else 1,
        cf_extra_data := if cf_extra_data c = [] then cf_extra_data ?c1 else cf_extra_data c,
        cf_extra_length := if cf_extra_data c = [] then cf_extra_length ?c1 else int (length (cf_extra_data c))\<rparr>)"
    using parse_interfaces_enc [OF sh(3-5) at _ _ own sh(6), of "[]"] by auto
  have "plain_config c' = plain_config c"
    unfolding c'(2) using sh(7-9) p(2) by (cases c) (auto simp: plain_config_def)
  moreover have "parse_configuration ?buf (int (length ?buf)) h = Some (0, Some c', h')"
  proof -
    have "read_config ?buf = Some ?c0" using read_config_enc [of c "[]"] by simp
    moreover have "drop 9 ?buf = ?rest" "int (length ?buf) - 9 = int (length ?rest)" "\<not> int (length ?buf) < 9"
      by (simp_all add: enc_config_def bytes16_def)
    ultimately show ?thesis
      using sh(1,2) config_count [OF assms(1)] p(1,2) c'(1) by (simp add: parse_configuration_def)
  qed
  ultimately show ?thesis by blast
qed

text \<open>C7: Parsing what a device sends for a configuration gives the configuration back: every field
  of every interface, alternate setting and endpoint, and the class and vendor specific descriptors
  between them, as long as \<open>malloc\<close> succeeds.\<close>

theorem config_roundtrip:
  assumes "config_shape c" "heap_ok h"
  shows "\<exists>q c' h'. raw_desc_to_config (enc_config c) (int (length (enc_config c))) h = Some (0, Some (q, c'), h')
    \<and> plain_config c' = plain_config c"
proof -
  obtain q h1 where q: "new_block h = (q, h1)" "q \<noteq> 0" "owns h [q] h1"
    using new_block_owns [OF owns_nil [OF assms(2)]] by blast
  obtain c' h' where "parse_configuration (enc_config c) (int (length (enc_config c))) h1 = Some (0, Some c', h')"
    "plain_config c' = plain_config c" using parse_configuration_enc [OF assms(1) q(3)] by blast
  then show ?thesis using q(1,2) by (simp add: raw_desc_to_config_def)
qed

text \<open>The camera: an interface whose first endpoint carries a vendor specific descriptor.\<close>

definition camera_endpoint :: "u8 \<Rightarrow> u16 \<Rightarrow> bytes \<Rightarrow> usb_endpoint" where
  "camera_endpoint ad w bs = zero_endpoint\<lparr>ep_bLength := 7, ep_bDescriptorType := 5, bEndpointAddress := ad,
     ep_bmAttributes := 1, wMaxPacketSize := w, bInterval := 1, ep_extra := length bs, ep_extra_data := bs,
     ep_extra_length := int (length bs)\<rparr>"

definition camera_config :: usb_config where
  "camera_config = \<lparr>cf_bLength = 9, cf_bDescriptorType = 2, wTotalLength = 37, bNumInterfaces = 1,
     bConfigurationValue = 1, iConfiguration = 0, cf_bmAttributes = 0xC0, MaxPower = 8,
     cf_interface = 1, cf_interfaces = [\<lparr>altsetting = 1, altsettings = [
       \<lparr>if_bLength = 9, if_bDescriptorType = 4, bInterfaceNumber = 0, bAlternateSetting = 0,
        bNumEndpoints = 2, bInterfaceClass = 0xFF, bInterfaceSubClass = 0xFF, bInterfaceProtocol = 0xFF,
        iInterface = 0, if_endpoint = 1,
        if_endpoints = [camera_endpoint 0x81 0x0BC0 [3, 0x30, 1], camera_endpoint 0x82 0x0BC0 []],
        if_extra = 1, if_extra_data = [2, 0x24], if_extra_length = 2\<rparr>]\<rparr>],
     cf_extra = 0, cf_extra_data = [], cf_extra_length = 0\<rparr>"

lemma camera_config_shape: "config_shape camera_config"
  by (simp add: camera_config_def config_shape_def interface_shape_def altsetting_shape_def
      endpoint_shape_def camera_endpoint_def zero_endpoint_def interface_number_def foreign.simps proper_descriptor_def)

theorem config_roundtrip_witness:
  "length (enc_config camera_config) = 37 \<and>
   (\<exists>q c' h'. raw_desc_to_config (enc_config camera_config) (int (length (enc_config camera_config))) fresh_heap
      = Some (0, Some (q, c'), h') \<and> plain_config c' = plain_config camera_config)"
proof
  show "length (enc_config camera_config) = 37" by code_simp
  show "\<exists>q c' h'. raw_desc_to_config (enc_config camera_config) (int (length (enc_config camera_config))) fresh_heap
      = Some (0, Some (q, c'), h') \<and> plain_config c' = plain_config camera_config"
    by (rule config_roundtrip [OF camera_config_shape fresh_heap_ok])
qed

end
