(* ===== verification/UsbfsDesc.thy ===== *)
theory UsbfsDesc
  imports UsbDescRoundtrip
begin

text \<open>
  Where the raw descriptors come from: the Linux backend (\<open>libusb/os/linux_usbfs.c\<close>) keeps one
  copy of the device's descriptor file and finds a configuration in it; \<open>descriptor.c\<close> and
  \<open>core.c\<close> ask for the active one and search it for endpoints.

  A search may run forever on a descriptor of length 0.  Its value is an option of an option:
  \<open>None\<close> when it does not return, \<open>Some None\<close> when it reads outside the copy.
\<close>

type_synonym 'a run = "'a option option"

abbreviation fault :: "'a run" where "fault \<equiv> Some None"
abbreviation ret :: "'a \<Rightarrow> 'a run" where "ret x \<equiv> Some (Some x)"

definition and_then :: "'a run \<Rightarrow> ('a \<Rightarrow> 'b run) \<Rightarrow> 'b run" where
  "and_then m f = (case m of None \<Rightarrow> None | Some None \<Rightarrow> fault | Some (Some x) \<Rightarrow> f x)"

definition guarded :: "'a option \<Rightarrow> 'a run" where
  "guarded m = Some m"

lemma and_then_simps [simp]:
  "and_then None f = None" "and_then fault f = fault" "and_then (ret x) f = f x"
  "guarded (Some x) = ret x" "guarded None = fault"
  by (simp_all add: and_then_def guarded_def)

section \<open>The cached descriptor file\<close>

text \<open>\<open>sysfs_config\<close> is what \<open>sysfs_get_active_config\<close> reads: the result of opening the
  attribute, the result of \<open>read\<close> and the bytes it stored.\<close>

record linux_device =
  descriptors :: bytes
  active_config :: int
  num_configurations :: u8
  sysfs_open :: int
  sysfs_read :: "int \<times> bytes"

record usbfs_mode =
  sysfs_can_relate_devices :: bool
  sysfs_has_descriptors :: bool

definition op_get_device_descriptor :: "linux_device \<Rightarrow> bytes option" where
  "op_get_device_descriptor dev = get_bytes 0 DEVICE_DESC_LENGTH (descriptors dev)"

text \<open>\<open>strtol\<close> in base 10 on a NUL-terminated string: the value and the number of characters used.\<close>

fun digits :: "bytes \<Rightarrow> int \<Rightarrow> nat \<Rightarrow> int \<times> nat" where
  "digits [] v k = (v, k)"
| "digits (c # cs) v k =
     (if 0x30 \<le> c \<and> c \<le> 0x39 then digits cs (10 * v + (uint c - 0x30)) (k + 1) else (v, k))"

definition space :: "u8 \<Rightarrow> bool" where
  "space c \<longleftrightarrow> c = 0x20 \<or> 0x09 \<le> c \<and> c \<le> 0x0D"

definition strtol10 :: "bytes \<Rightarrow> int \<times> nat" where
  "strtol10 s =
     (let ws = length (takeWhile space s); t = dropWhile space s;
          (neg, sg) = (case t of c # _ \<Rightarrow> (c = 0x2D, if c = 0x2D \<or> c = 0x2B then 1 else 0) | [] \<Rightarrow> (False, 0));
          (v, k) = digits (drop sg t) 0 0
      in if k = 0 then (0, 0) else (if neg then - v else v, ws + sg + k))"

text \<open>The code and, when it is 0, the value stored in \<open>config\<close>.\<close>

definition sysfs_get_active_config :: "linux_device \<Rightarrow> (int \<times> int) option" where
  "sysfs_get_active_config dev =
     (if sysfs_open dev < 0 then Some (sysfs_open dev, 0)
      else let (r, bs) = sysfs_read dev in
        do {
          tmp \<leftarrow> put_bytes 0 bs (replicate 5 0);
          if r < 0 then Some (ERROR_IO, 0)
          else if r = 0 then Some (0, -1)
          else if tmp ! 4 \<noteq> 0 then Some (ERROR_IO, 0)
          else if tmp ! 0 = 0 then Some (ERROR_IO, 0)
          else let (num, used) = strtol10 (takeWhile (\<lambda>c. c \<noteq> 0) tmp) in
            if used = 0 then Some (ERROR_IO, 0) else Some (0, num) })"

section \<open>Searching a configuration\<close>

partial_function (option) seek_loop :: "u8 \<Rightarrow> bytes \<Rightarrow> nat \<Rightarrow> int \<Rightarrow> int run" where
  "seek_loop ty buf i sz =
     (if sz < 0 then ret ERROR_IO
      else if sz = 0 then ret ERROR_NOT_FOUND
      else if sz < 2 then ret ERROR_IO
      else case parse_header (drop i buf) of None \<Rightarrow> fault
      | Some (len, t) \<Rightarrow>
          if i \<noteq> 0 \<and> t = ty then ret (int i)
          else seek_loop ty buf (i + unat len) (sz - uint len))"

definition seek_to_next_descriptor :: "u8 \<Rightarrow> bytes \<Rightarrow> int \<Rightarrow> int run" where
  "seek_to_next_descriptor ty buf sz = seek_loop ty buf 0 sz"

definition seek_to_next_config :: "usbfs_mode \<Rightarrow> bytes \<Rightarrow> int \<Rightarrow> int run" where
  "seek_to_next_config md buf sz =
     (if sz = 0 then ret ERROR_NOT_FOUND
      else if sz < DT_CONFIG_SIZE then ret ERROR_IO
      else and_then (guarded (read_config buf)) (\<lambda>config.
        if cf_bDescriptorType config \<noteq> DT_CONFIG then ret ERROR_IO
        else if sysfs_has_descriptors md then
          and_then (seek_to_next_descriptor DT_CONFIG buf sz) (\<lambda>next.
            let next = (if next = ERROR_NOT_FOUND then sz else next) in ret next)
        else if uint (wTotalLength config) < DT_CONFIG_SIZE then ret ERROR_IO
        else if sz < uint (wTotalLength config) then ret sz
        else ret (uint (wTotalLength config))))"

text \<open>\<open>op_get_config_descriptor_by_value\<close> returns a pointer into the copy, here the rest of the
  copy from there; byte 5 of a configuration is \<open>bConfigurationValue\<close>.\<close>

partial_function (option) by_value_loop ::
  "usbfs_mode \<Rightarrow> int \<Rightarrow> bytes \<Rightarrow> int \<Rightarrow> (int \<times> bytes) run" where
  "by_value_loop md value desc sz =
     (case seek_to_next_config md desc sz of
        None \<Rightarrow> None
      | Some r \<Rightarrow>
         (case r of
            None \<Rightarrow> fault
          | Some next \<Rightarrow>
              if next < 0 then ret (next, [])
              else (case get_at 5 desc of
                 None \<Rightarrow> fault
               | Some v \<Rightarrow>
                   if uint v = value then ret (next, desc)
                   else by_value_loop md value (drop (nat next) desc) (sz - next))))"

text \<open>The parameter \<open>value\<close> of the C function is a \<open>uint8_t\<close>: a larger number is cut.\<close>

definition op_get_config_descriptor_by_value ::
  "usbfs_mode \<Rightarrow> linux_device \<Rightarrow> u8 \<Rightarrow> (int \<times> bytes) run" where
  "op_get_config_descriptor_by_value md dev value =
     by_value_loop md (uint value) (drop DEVICE_DESC_LENGTH (descriptors dev))
       (int (length (descriptors dev)) - int DEVICE_DESC_LENGTH)"

text \<open>The code or the number of bytes copied, with the bytes.\<close>

definition op_get_active_config_descriptor ::
  "usbfs_mode \<Rightarrow> linux_device \<Rightarrow> nat \<Rightarrow> (int \<times> bytes) run" where
  "op_get_active_config_descriptor md dev len =
     and_then (if sysfs_can_relate_devices md then guarded (sysfs_get_active_config dev)
               else ret (0, active_config dev)) (\<lambda>(r, config).
       if r < 0 then ret (r, [])
       else if config = -1 then ret (ERROR_NOT_FOUND, [])
       else and_then (op_get_config_descriptor_by_value md dev (of_int config)) (\<lambda>(r, desc).
         if r < 0 then ret (r, [])
         else let n = min len (nat r) in
           and_then (guarded (get_bytes 0 n desc)) (\<lambda>bs. ret (int n, bs))))"

partial_function (option) by_index_loop ::
  "usbfs_mode \<Rightarrow> nat \<Rightarrow> nat \<Rightarrow> bytes \<Rightarrow> int \<Rightarrow> (int \<times> bytes) run" where
  "by_index_loop md i idx desc sz =
     (case seek_to_next_config md desc sz of
        None \<Rightarrow> None
      | Some r \<Rightarrow>
         (case r of
            None \<Rightarrow> fault
          | Some r \<Rightarrow>
              if r < 0 then ret (r, [])
              else if i = idx then ret (r, desc)
              else by_index_loop md (i + 1) idx (drop (nat r) desc) (sz - r)))"

definition op_get_config_descriptor ::
  "usbfs_mode \<Rightarrow> linux_device \<Rightarrow> u8 \<Rightarrow> nat \<Rightarrow> (int \<times> bytes) run" where
  "op_get_config_descriptor md dev config_index len =
     and_then (by_index_loop md 0 (unat config_index) (drop DEVICE_DESC_LENGTH (descriptors dev))
         (int (length (descriptors dev)) - int DEVICE_DESC_LENGTH)) (\<lambda>(r, desc).
       if r < 0 then ret (r, [])
       else let n = min len (nat r) in
         and_then (guarded (get_bytes 0 n desc)) (\<lambda>bs. ret (int n, bs)))"

section \<open>Configurations\<close>

text \<open>The two queries of \<open>descriptor.c\<close> differ in the backend function they call twice: once
  for the nine bytes that hold \<open>wTotalLength\<close>, once for the whole.\<close>

type_synonym config_result = "int \<times> (nat \<times> usb_config) option \<times> desc_heap"

definition fetch_config :: "(nat \<Rightarrow> (int \<times> bytes) run) \<Rightarrow> desc_heap \<Rightarrow> config_result run" where
  "fetch_config op h =
     and_then (op 9) (\<lambda>(r, tmp).
       if r < 0 then ret (r, None, h)
       else if r < DT_CONFIG_SIZE then ret (ERROR_IO, None, h)
       else and_then (guarded (usbi_parse_descriptor ''bbw'' tmp)) (\<lambda>fs.
         case fs of [FB l, FB t, FW w] \<Rightarrow>
           let (p, h1) = new_block h in
           if p = 0 then ret (ERROR_NO_MEM, None, h1)
           else and_then (op (unat w)) (\<lambda>(r2, buf).
             and_then (if 0 \<le> r2 then guarded (raw_desc_to_config buf r2 h1) else ret (r2, None, h1))
               (\<lambda>(r3, c, h2). and_then (guarded (free_block p h2)) (\<lambda>h3. ret (r3, c, h3))))
         | _ \<Rightarrow> fault))"

definition libusb_get_active_config_descriptor ::
  "usbfs_mode \<Rightarrow> linux_device \<Rightarrow> desc_heap \<Rightarrow> config_result run" where
  "libusb_get_active_config_descriptor md dev h = fetch_config (op_get_active_config_descriptor md dev) h"

definition libusb_get_config_descriptor ::
  "usbfs_mode \<Rightarrow> linux_device \<Rightarrow> u8 \<Rightarrow> desc_heap \<Rightarrow> config_result run" where
  "libusb_get_config_descriptor md dev config_index h =
     (if num_configurations dev \<le> config_index then ret (ERROR_NOT_FOUND, None, h)
      else fetch_config (op_get_config_descriptor md dev config_index) h)"

text \<open>The backend has \<open>get_config_descriptor_by_value\<close>, so the search by index is not used.\<close>

definition libusb_get_config_descriptor_by_value ::
  "usbfs_mode \<Rightarrow> linux_device \<Rightarrow> u8 \<Rightarrow> desc_heap \<Rightarrow> config_result run" where
  "libusb_get_config_descriptor_by_value md dev v h =
     and_then (op_get_config_descriptor_by_value md dev v) (\<lambda>(r, buf).
       if r < 0 then ret (r, None, h) else guarded (raw_desc_to_config buf r h))"

text \<open>The search by index, for backends without \<open>get_config_descriptor_by_value\<close>: the code and
  the index it stores, -1 when no configuration has the value.\<close>

primrec config_index_loop ::
  "usbfs_mode \<Rightarrow> linux_device \<Rightarrow> u8 \<Rightarrow> nat \<Rightarrow> nat \<Rightarrow> (int \<times> int) run" where
  "config_index_loop md dev v 0 i = ret (0, -1)"
| "config_index_loop md dev v (Suc k) i =
     and_then (op_get_config_descriptor md dev (of_nat i) 6) (\<lambda>(r, tmp).
       if r < 0 then ret (r, -1)
       else and_then (guarded (get_at 5 tmp)) (\<lambda>b.
         if b = v then ret (0, int i) else config_index_loop md dev v k (Suc i)))"

definition usbi_get_config_index_by_value :: "usbfs_mode \<Rightarrow> linux_device \<Rightarrow> u8 \<Rightarrow> (int \<times> int) run" where
  "usbi_get_config_index_by_value md dev v =
     config_index_loop md dev v (unat (num_configurations dev)) 0"

section \<open>A new device\<close>

text \<open>The answers of the kernel while a device is set up: the sysfs attribute \<open>speed\<close>, the file
  descriptor and the reads of the descriptor file (at an offset, up to a number of bytes), the
  descriptor for control requests, and the answer to GET\_CONFIGURATION (the error number, 0 for
  none, and the byte delivered).  \<open>dir_memory\<close> and \<open>memory\<close> say which requests for memory
  succeed: the copy of the directory name, and the buffer for the \<open>n\<close>-th time.\<close>

record kernel_answers =
  dir_memory :: bool
  memory :: "nat \<Rightarrow> bool"
  speed_attr :: int
  desc_fd :: int
  desc_read :: "nat \<Rightarrow> nat \<Rightarrow> int \<times> bytes"
  rw_fd :: int
  get_configuration :: "int \<times> u8"

datatype usb_speed = SPEED_UNKNOWN | SPEED_LOW | SPEED_FULL | SPEED_HIGH | SPEED_SUPER

definition speed_of :: "int \<Rightarrow> usb_speed" where
  "speed_of s = (if s = 1 then SPEED_LOW else if s = 12 then SPEED_FULL else if s = 480 then SPEED_HIGH
     else if s = 5000 then SPEED_SUPER else SPEED_UNKNOWN)"

text \<open>The speed of the device, which starts as unknown.\<close>

definition read_speed :: "bool \<Rightarrow> kernel_answers \<Rightarrow> usb_speed" where
  "read_speed has_sysfs_dir k =
     (if has_sysfs_dir \<and> 0 \<le> speed_attr k then speed_of (speed_attr k) else SPEED_UNKNOWN)"

abbreviation ERROR_NO_DEVICE :: int where "ERROR_NO_DEVICE \<equiv> -4"

definition usbfs_get_active_config :: "int \<times> u8 \<Rightarrow> int" where
  "usbfs_get_active_config answer =
     (let (e, active) = answer in
      if e \<noteq> 0 then (if e = 19 then ERROR_NO_DEVICE else ERROR_IO) else uint active)"

text \<open>The buffer doubles before every read, and the loop goes on while the file fills it.\<close>

partial_function (option) read_loop ::
  "(nat \<Rightarrow> bool) \<Rightarrow> (nat \<Rightarrow> nat \<Rightarrow> int \<times> bytes) \<Rightarrow> nat \<Rightarrow> bytes \<Rightarrow> nat \<Rightarrow> (int \<times> bytes) option" where
  "read_loop mem rd n acc cap =
     (let cap = 2 * cap in
      if \<not> mem n then Some (ERROR_NO_MEM, [])
      else let (r, bs) = rd (length acc) (cap - length acc) in
      if r < 0 then Some (ERROR_IO, acc)
      else let acc = acc @ take (nat r) bs in
        if length acc = cap then read_loop mem rd (Suc n) acc cap else Some (0, acc))"

text \<open>The code, the cached file, the active configuration and the speed.  With sysfs the active
  configuration is read when it is asked for.\<close>

definition initialize_device ::
  "usbfs_mode \<Rightarrow> bool \<Rightarrow> kernel_answers \<Rightarrow> (int \<times> bytes \<times> int \<times> usb_speed) run" where
  "initialize_device md has_sysfs_dir k =
     (let speed = read_speed has_sysfs_dir k in
      if has_sysfs_dir \<and> \<not> dir_memory k then ret (ERROR_NO_MEM, [], 0, SPEED_UNKNOWN)
      else if desc_fd k < 0 then ret (desc_fd k, [], 0, speed)
      else case read_loop (memory k) (desc_read k) 0 [] 512 of None \<Rightarrow> None
      | Some (r, ds) \<Rightarrow>
        if r < 0 then ret (r, ds, 0, speed)
        else if length ds < DEVICE_DESC_LENGTH then ret (ERROR_IO, ds, 0, speed)
        else if sysfs_can_relate_devices md then ret (0, ds, 0, speed)
        else if rw_fd k < 0 then
          (if DEVICE_DESC_LENGTH + 9 \<le> length ds then
             and_then (guarded (read_config (drop DEVICE_DESC_LENGTH ds))) (\<lambda>c.
               ret (0, ds, uint (bConfigurationValue c), speed))
           else ret (0, ds, -1, speed))
        else let r = usbfs_get_active_config (get_configuration k) in
          if 0 < r then ret (0, ds, r, speed)
          else if r = 0 \<or> r = ERROR_IO then ret (0, ds, -1, speed)
          else ret (r, ds, 0, speed))"

text \<open>The device descriptor, field by field.\<close>

record device_descriptor =
  dd_bLength :: u8
  dd_bDescriptorType :: u8
  bcdUSB :: u16
  bDeviceClass :: u8
  bDeviceSubClass :: u8
  bDeviceProtocol :: u8
  bMaxPacketSize0 :: u8
  dd_idVendor :: u16
  dd_idProduct :: u16
  bcdDevice :: u16
  iManufacturer :: u8
  iProduct :: u8
  iSerialNumber :: u8
  bNumConfigurations :: u8

definition usbi_device_cache_descriptor :: "linux_device \<Rightarrow> device_descriptor option" where
  "usbi_device_cache_descriptor dev = do {
     bs \<leftarrow> op_get_device_descriptor dev;
     fs \<leftarrow> usbi_parse_descriptor ''bbwbbbbwwwbbbb'' bs;
     case fs of [FB l, FB t, FW u, FB c, FB s, FB p, FB z, FW v, FW d, FW n, FB m, FB r, FB i, FB k] \<Rightarrow>
       Some \<lparr>dd_bLength = l, dd_bDescriptorType = t, bcdUSB = u, bDeviceClass = c, bDeviceSubClass = s,
             bDeviceProtocol = p, bMaxPacketSize0 = z, dd_idVendor = v, dd_idProduct = d, bcdDevice = n,
             iManufacturer = m, iProduct = r, iSerialNumber = i, bNumConfigurations = k\<rparr> | _ \<Rightarrow> None }"

abbreviation USB_MAXCONFIG :: u8 where "USB_MAXCONFIG \<equiv> 8"

definition usbi_sanitize_device :: "linux_device \<Rightarrow> (int \<times> linux_device) option" where
  "usbi_sanitize_device dev = do {
     d \<leftarrow> usbi_device_cache_descriptor dev;
     if USB_MAXCONFIG < bNumConfigurations d then Some (ERROR_IO, dev)
     else Some (0, dev\<lparr>num_configurations := bNumConfigurations d\<rparr>) }"

section \<open>Endpoints\<close>

text \<open>The three nested loops of \<open>find_endpoint\<close>; the array of endpoints may be NULL.\<close>

primrec find_in_endpoints :: "u8 \<Rightarrow> nat \<Rightarrow> nat \<Rightarrow> usb_altsetting \<Rightarrow> usb_endpoint option option" where
  "find_in_endpoints ad 0 j a = Some None"
| "find_in_endpoints ad (Suc k) j a =
     (if if_endpoint a = 0 then None
      else do {
        e \<leftarrow> get_at j (if_endpoints a);
        if bEndpointAddress e = ad then Some (Some e) else find_in_endpoints ad k (Suc j) a })"

primrec find_in_altsettings :: "u8 \<Rightarrow> usb_altsetting list \<Rightarrow> usb_endpoint option option" where
  "find_in_altsettings ad [] = Some None"
| "find_in_altsettings ad (a # as) = do {
     r \<leftarrow> find_in_endpoints ad (unat (bNumEndpoints a)) 0 a;
     case r of Some e \<Rightarrow> Some (Some e) | None \<Rightarrow> find_in_altsettings ad as }"

primrec find_in_interfaces :: "u8 \<Rightarrow> nat \<Rightarrow> nat \<Rightarrow> usb_interface list \<Rightarrow> usb_endpoint option option" where
  "find_in_interfaces ad 0 i uis = Some None"
| "find_in_interfaces ad (Suc k) i uis = do {
     ui \<leftarrow> get_at i uis;
     r \<leftarrow> find_in_altsettings ad (altsettings ui);
     case r of Some e \<Rightarrow> Some (Some e) | None \<Rightarrow> find_in_interfaces ad k (Suc i) uis }"

definition find_endpoint :: "usb_config \<Rightarrow> u8 \<Rightarrow> usb_endpoint option option" where
  "find_endpoint c ad = find_in_interfaces ad (unat (bNumInterfaces c)) 0 (cf_interfaces c)"

abbreviation ERROR_OTHER :: int where "ERROR_OTHER \<equiv> -99"

definition with_endpoint ::
  "usbfs_mode \<Rightarrow> linux_device \<Rightarrow> u8 \<Rightarrow> (usb_endpoint \<Rightarrow> int) \<Rightarrow> desc_heap \<Rightarrow> (int \<times> desc_heap) run" where
  "with_endpoint md dev ad f h =
     and_then (libusb_get_active_config_descriptor md dev h) (\<lambda>(r, c, h1).
       if r < 0 then ret (ERROR_OTHER, h1)
       else and_then (guarded (do { qc \<leftarrow> c; find_endpoint (snd qc) ad })) (\<lambda>ep.
         let r = (case ep of None \<Rightarrow> ERROR_NOT_FOUND | Some e \<Rightarrow> f e) in
         and_then (guarded (libusb_free_config_descriptor c h1)) (\<lambda>h2. ret (r, h2))))"

definition libusb_get_max_packet_size ::
  "usbfs_mode \<Rightarrow> linux_device \<Rightarrow> u8 \<Rightarrow> desc_heap \<Rightarrow> (int \<times> desc_heap) run" where
  "libusb_get_max_packet_size md dev ad h =
     with_endpoint md dev ad (\<lambda>e. uint (wMaxPacketSize e)) h"

abbreviation TYPE_ISOCHRONOUS :: u8 where "TYPE_ISOCHRONOUS \<equiv> 1"
abbreviation TYPE_INTERRUPT :: u8 where "TYPE_INTERRUPT \<equiv> 3"

definition iso_packet_size :: "usb_endpoint \<Rightarrow> int" where
  "iso_packet_size e =
     (let val = wMaxPacketSize e; ep_type = ep_bmAttributes e AND 3; r = uint (val AND 0x07ff) in
      if ep_type = TYPE_ISOCHRONOUS \<or> ep_type = TYPE_INTERRUPT
      then r * (1 + uint (drop_bit 11 val AND 3)) else r)"

definition libusb_get_max_iso_packet_size ::
  "usbfs_mode \<Rightarrow> linux_device \<Rightarrow> u8 \<Rightarrow> desc_heap \<Rightarrow> (int \<times> desc_heap) run" where
  "libusb_get_max_iso_packet_size md dev ad h = with_endpoint md dev ad iso_packet_size h"

end
