(* ===== verification/UsbfsDescProofs.thy ===== *)
theory UsbfsDescProofs
  imports UsbfsDesc
begin

text \<open>
  The path from the device's descriptor file to the answer the camera code asks for: the search
  stops exactly at the configuration with the active value, the parser gives its contents back,
  and the packet size is that of the first endpoint with the address.
\<close>

declare seek_loop.simps [code] by_value_loop.simps [code] by_index_loop.simps [code]

section \<open>Descriptors between two configurations\<close>

function chain :: "bytes \<Rightarrow> bool" where
  "chain bs =
     (case bs of
        [] \<Rightarrow> True
      | [x] \<Rightarrow> False
      | l # t # r \<Rightarrow>
          if 2 \<le> unat l \<and> unat l \<le> length bs \<and> t \<noteq> DT_CONFIG
          then chain (drop (unat l) bs) else False)"
  by auto
termination by (relation "measure length") auto

declare chain.simps [simp del]

lemma chain_Nil [simp]: "chain []"
  by (simp add: chain.simps [of "[]"])

lemma chain_step:
  "chain (l # t # r) \<longleftrightarrow> 2 \<le> unat l \<and> unat l \<le> length (l # t # r) \<and> t \<noteq> DT_CONFIG
     \<and> chain (drop (unat l) (l # t # r))"
  by (simp add: chain.simps [of "l # t # r"])

lemma chain_ne: "chain bs \<Longrightarrow> bs \<noteq> [] \<Longrightarrow> \<exists>l t r. bs = l # t # r"
  by (cases bs; cases "tl bs") (auto simp: chain.simps)

lemma foreign_chain: "foreign bs \<Longrightarrow> chain bs"
proof (induction bs rule: foreign.induct)
  case (1 bs)
  consider "bs = []" | x where "bs = [x]" | l t r where "bs = l # t # r"
    by (cases bs; cases "tl bs") auto
  then show ?case
  proof cases
    case 1
    then show ?thesis by simp
  next
    case 2
    then have "\<not> foreign bs" by (simp add: foreign.simps [of "[x]"])
    then show ?thesis using \<open>foreign bs\<close> by simp
  next
    case 3
    have f: "2 \<le> unat l" "unat l \<le> length bs" "\<not> proper_descriptor t" "foreign (drop (unat l) bs)"
      using \<open>foreign bs\<close> 3 by (auto simp: foreign.simps [of "l # t # r"] split: if_splits)
    have "t \<noteq> DT_CONFIG" using f(3) by (auto simp: proper_descriptor_def)
    moreover have "chain (drop (unat l) bs)" using "1.IH" 3 f by auto
    ultimately show ?thesis using 3 f(1,2) chain_step by simp
  qed
qed

lemma chain_append: "chain xs \<Longrightarrow> chain ys \<Longrightarrow> chain (xs @ ys)"
proof (induction "length xs" arbitrary: xs rule: less_induct)
  case less
  show ?case
  proof (cases "xs = []")
    case True
    then show ?thesis using less.prems by simp
  next
    case False
    then obtain l t r where xs: "xs = l # t # r" using chain_ne less.prems(1) by blast
    have s: "2 \<le> unat l" "unat l \<le> length xs" "t \<noteq> DT_CONFIG" "chain (drop (unat l) xs)"
      using less.prems(1) unfolding xs chain_step by simp_all
    have "chain (drop (unat l) xs @ ys)" using less.hyps [OF _ s(4) less.prems(2)] s(1,2) by simp
    moreover have "drop (unat l) (xs @ ys) = drop (unat l) xs @ ys" using s(2) by simp
    ultimately show ?thesis using s xs chain_step [of l t "r @ ys"] by simp
  qed
qed

lemma chain_concat: "\<forall>x \<in> set xss. chain x \<Longrightarrow> chain (concat xss)"
  by (induction xss) (simp_all add: chain_append)

lemma chain_endpoint: "endpoint_shape e \<Longrightarrow> chain (enc_endpoint e)"
proof -
  assume shape: "endpoint_shape e"
  obtain r where r: "enc_endpoint e = ep_bLength e # ep_bDescriptorType e # r" using enc_endpoint_Cons by blast
  have "chain (ep_extra_data e)" using shape by (simp add: endpoint_shape_def foreign_chain)
  then show ?thesis
    using endpoint_len [OF shape] endpoint_bLength [OF shape] shape r chain_step
    by (auto simp: endpoint_shape_def)
qed

lemma chain_altsetting: "altsetting_shape a \<Longrightarrow> chain (enc_altsetting a)"
proof -
  assume shape: "altsetting_shape a"
  have "chain (if_extra_data a @ concat (map enc_endpoint (if_endpoints a)))"
    using shape by (intro chain_append foreign_chain chain_concat)
      (auto simp: altsetting_shape_def list_all_iff chain_endpoint)
  then show ?thesis using shape by (simp add: enc_altsetting_def chain_step altsetting_shape_def)
qed

lemma chain_interface: "interface_shape ui \<Longrightarrow> chain (enc_interface ui)"
  unfolding enc_interface_def
  by (rule chain_concat) (auto simp: interface_shape_def list_all_iff chain_altsetting)

lemma chain_config_body:
  "config_shape c \<Longrightarrow> chain (cf_extra_data c @ concat (map enc_interface (cf_interfaces c)))"
  by (intro chain_append foreign_chain chain_concat) (auto simp: config_shape_def list_all_iff chain_interface)

lemma seek_chain:
  assumes "chain bs" "0 < length pre" "rest = [] \<or> (\<exists>l r. rest = l # DT_CONFIG # r)"
  shows "seek_loop DT_CONFIG (pre @ bs @ rest) (length pre) (int (length (bs @ rest)))
    = ret (if rest = [] then ERROR_NOT_FOUND else int (length (pre @ bs)))"
  using assms
proof (induction "length bs" arbitrary: bs pre rule: less_induct)
  case less
  note simps = seek_loop.simps [of DT_CONFIG "pre @ bs @ rest" "length pre"]
  show ?case
  proof (cases "bs = []")
    case True
    then show ?thesis using less.prems
      by (auto simp: seek_loop.simps [of DT_CONFIG _ "length pre"] desc_simps)
  next
    case False
    then obtain l t r where bs: "bs = l # t # r" using chain_ne less.prems(1) by blast
    have s: "2 \<le> unat l" "unat l \<le> length bs" "t \<noteq> DT_CONFIG" "chain (drop (unat l) bs)"
      using less.prems(1) unfolding bs chain_step by simp_all
    have hdr: "parse_header (drop (length pre) (pre @ bs @ rest)) = Some (l, t)" by (simp add: bs desc_simps)
    have sz: "int (length (bs @ rest)) - uint l = int (length (drop (unat l) bs @ rest))"
      using s(2) by (simp add: of_nat_diff)
    have split: "pre @ bs @ rest = (pre @ take (unat l) bs) @ drop (unat l) bs @ rest" by simp
    have len: "length pre + unat l = length (pre @ take (unat l) bs)" using s(2) by simp
    have ge: "2 \<le> int (length (bs @ rest))" by (simp add: bs)
    have "seek_loop DT_CONFIG (pre @ bs @ rest) (length pre) (int (length (bs @ rest)))
        = seek_loop DT_CONFIG (pre @ bs @ rest) (length pre + unat l) (int (length (bs @ rest)) - uint l)"
      using ge hdr s(3) less.prems(2) False by (simp add: simps del: append_assoc length_append)
    also have "\<dots> = seek_loop DT_CONFIG ((pre @ take (unat l) bs) @ drop (unat l) bs @ rest)
        (length (pre @ take (unat l) bs)) (int (length (drop (unat l) bs @ rest)))"
      unfolding sz len split [symmetric] ..
    also have "\<dots> = ret (if rest = [] then ERROR_NOT_FOUND
        else int (length ((pre @ take (unat l) bs) @ drop (unat l) bs)))"
      by (rule less.hyps) (use s less.prems(2,3) in auto)
    finally show ?thesis by simp
  qed
qed

text \<open>What the file holds behind the device descriptor: whole configurations, each with the total
  length it has.\<close>

definition config_file :: "usb_config list \<Rightarrow> bool" where
  "config_file cs \<longleftrightarrow>
     (\<forall>c \<in> set cs. config_shape c \<and> uint (wTotalLength c) = int (length (enc_config c)))"

lemma enc_config_split:
  "enc_config c = [cf_bLength c, cf_bDescriptorType c] @ bytes16 (wTotalLength c)
     @ [bNumInterfaces c, bConfigurationValue c, iConfiguration c, cf_bmAttributes c, MaxPower c]
     @ (cf_extra_data c @ concat (map enc_interface (cf_interfaces c)))"
  by (simp add: enc_config_def)

lemma enc_config_front:
  "config_shape c \<Longrightarrow> \<exists>front. enc_config c = front @ cf_extra_data c @ concat (map enc_interface (cf_interfaces c))
     \<and> length front = 9 \<and> (\<exists>r. front = 9 # DT_CONFIG # r)"
  unfolding enc_config_split by (simp add: config_shape_def bytes16_def)

lemma next_config:
  assumes "config_file (c # cs)"
  shows "seek_to_next_config md (concat (map enc_config (c # cs))) (int (length (concat (map enc_config (c # cs)))))
    = ret (int (length (enc_config c)))"
proof -
  let ?rest = "concat (map enc_config cs)" let ?buf = "enc_config c @ ?rest"
  have c: "config_shape c" "uint (wTotalLength c) = int (length (enc_config c))"
    using assms by (simp_all add: config_file_def)
  obtain front r where front: "enc_config c = front @ cf_extra_data c @ concat (map enc_interface (cf_interfaces c))"
    "length front = 9" "front = 9 # DT_CONFIG # r" using enc_config_front [OF c(1)] by blast
  let ?body = "cf_extra_data c @ concat (map enc_interface (cf_interfaces c))"
  have rest: "?rest = [] \<or> (\<exists>l r. ?rest = l # DT_CONFIG # r)"
  proof (cases cs)
    case (Cons d ds)
    then have "config_shape d" using assms by (simp add: config_file_def)
    then obtain f x where "enc_config d = f @ x" "\<exists>r. f = 9 # DT_CONFIG # r" using enc_config_front by blast
    then show ?thesis using Cons by auto
  qed simp
  have nine: "9 \<le> length (enc_config c)" using front(1,2) by simp
  have "seek_loop DT_CONFIG ?buf 0 (int (length ?buf))
      = seek_loop DT_CONFIG ?buf 9 (int (length ?buf) - 9)"
    using nine by (simp add: seek_loop.simps [of _ _ 0] front(1,3) desc_simps)
  also have "int (length ?buf) - 9 = int (length (?body @ ?rest))" using front(1,2) by simp
  also have "seek_loop DT_CONFIG ?buf 9 (int (length (?body @ ?rest)))
      = ret (if ?rest = [] then ERROR_NOT_FOUND else int (length (front @ ?body)))"
    using seek_chain [OF chain_config_body [OF c(1)] _ rest, of front] front(1,2) by simp
  finally have seek: "seek_loop DT_CONFIG ?buf 0 (int (length ?buf))
      = ret (if ?rest = [] then ERROR_NOT_FOUND else int (length (enc_config c)))"
    using front(1) by simp
  have rd: "read_config ?buf = Some (c\<lparr>cf_interface := 0, cf_interfaces := [], cf_extra := 0,
     cf_extra_data := [], cf_extra_length := 0\<rparr>)" by (rule read_config_enc)
  have type: "cf_bDescriptorType c = DT_CONFIG" using c(1) by (simp add: config_shape_def)
  show ?thesis
    using nine rd seek type c(2)
    by (auto simp: seek_to_next_config_def seek_to_next_descriptor_def)
qed

lemma by_value_found:
  "config_file cs \<Longrightarrow> find (\<lambda>c. bConfigurationValue c = v) cs = Some c \<Longrightarrow>
     \<exists>rest. by_value_loop md (uint v) (concat (map enc_config cs)) (int (length (concat (map enc_config cs))))
       = ret (int (length (enc_config c)), enc_config c @ rest)"
proof (induction cs)
  case Nil
  then show ?case by simp
next
  case (Cons d cs)
  let ?buf = "concat (map enc_config (d # cs))"
  have nx: "seek_to_next_config md ?buf (int (length ?buf)) = ret (int (length (enc_config d)))"
    by (rule next_config [OF Cons.prems(1)])
  have v: "get_at 5 ?buf = Some (bConfigurationValue d)"
    by (simp add: enc_config_def bytes16_def get_at_def)
  have run: "by_value_loop md (uint v) ?buf (int (length ?buf)) =
     (if bConfigurationValue d = v then ret (int (length (enc_config d)), ?buf)
      else by_value_loop md (uint v) (concat (map enc_config cs)) (int (length (concat (map enc_config cs)))))"
    unfolding by_value_loop.simps [of _ _ ?buf] nx v by (simp add: word_uint_eq_iff)
  show ?case
  proof (cases "bConfigurationValue d = v")
    case True
    then show ?thesis using run Cons.prems(2) by auto
  next
    case False
    then show ?thesis using run Cons by (simp add: config_file_def)
  qed
qed


section \<open>The active configuration\<close>

text \<open>The configuration value the backend reads, from sysfs or from its cache.\<close>

definition active_value :: "usbfs_mode \<Rightarrow> linux_device \<Rightarrow> (int \<times> int) option" where
  "active_value md dev =
     (if sysfs_can_relate_devices md then sysfs_get_active_config dev else Some (0, active_config dev))"

lemma op_active_found:
  assumes "active_value md dev = Some (0, uint v)" "config_file cs" "length dd = DEVICE_DESC_LENGTH"
    "descriptors dev = dd @ concat (map enc_config cs)"
    "find (\<lambda>c. bConfigurationValue c = v) cs = Some c"
  shows "op_get_active_config_descriptor md dev n
    = ret (int (min n (length (enc_config c))), take n (enc_config c))"
proof -
  obtain rest where "by_value_loop md (uint v) (concat (map enc_config cs)) (int (length (concat (map enc_config cs))))
      = ret (int (length (enc_config c)), enc_config c @ rest)" using by_value_found [OF assms(2,5)] by blast
  then have found: "op_get_config_descriptor_by_value md dev v = ret (int (length (enc_config c)), enc_config c @ rest)"
    by (simp add: op_get_config_descriptor_by_value_def assms(3,4))
  have get: "get_bytes 0 (min n (length (enc_config c))) (enc_config c @ rest) = Some (take n (enc_config c))"
    by (simp add: get_bytes_def min_def)
  have act: "(if sysfs_can_relate_devices md then guarded (sysfs_get_active_config dev) else ret (0, active_config dev))
      = ret (0, uint v)" using assms(1) by (auto simp: active_value_def guarded_def split: if_splits)
  have pos: "uint v \<noteq> -1" using uint_nonnegative [of v] by linarith
  show ?thesis
    unfolding op_get_active_config_descriptor_def act using found get pos by (simp add: Let_def)
qed

lemma fetch_config_found:
  assumes "\<And>n. op n = ret (int (min n (length (enc_config c))), take n (enc_config c))"
    "config_shape c" "uint (wTotalLength c) = int (length (enc_config c))" "heap_ok h"
  shows "\<exists>q c' h' h''. fetch_config op h = ret (0, Some (q, c'), h') \<and> plain_config c' = plain_config c
    \<and> libusb_free_config_descriptor (Some (q, c')) h' = Some h'' \<and> in_use h'' = in_use h"
proof -
  obtain p h1 where p: "new_block h = (p, h1)" "p \<noteq> 0" "owns h [p] h1"
    using new_block_owns [OF owns_nil [OF assms(4)]] by blast
  obtain q h2 where q: "new_block h1 = (q, h2)" "q \<noteq> 0" "owns h [q, p] h2"
    using new_block_owns [OF p(3)] by blast
  obtain c' h3 where c': "parse_configuration (enc_config c) (int (length (enc_config c))) h2 = Some (0, Some c', h3)"
    "plain_config c' = plain_config c" using parse_configuration_enc [OF assms(2) q(3)] by blast
  have "read_config (enc_config c) = Some (c\<lparr>cf_interface := 0, cf_interfaces := [], cf_extra := 0,
     cf_extra_data := [], cf_extra_length := 0\<rparr>)" using read_config_enc [of c "[]"] by simp
  moreover have "bNumInterfaces c' = bNumInterfaces c"
    using arg_cong [OF c'(2), of bNumInterfaces] by (simp add: plain_config_def)
  ultimately have own: "config_wf c'" "owns h (config_blocks c' @ [q, p]) h3"
    using parse_configuration_owns [OF order.refl q(3), of "enc_config c"] c'(1) by auto
  have "owns h (p # config_blocks c' @ [q]) h3" by (rule owns_permI [OF own(2)]) simp
  then obtain h4 where h4: "free_block p h3 = Some h4" "owns h (config_blocks c' @ [q]) h4"
    using free_block_owns by blast
  obtain h5 where h5: "clear_configuration c' h4 = Some h5" "owns h [q] h5"
    using clear_configuration_owns [OF own(1) h4(2)] by blast
  obtain h6 where h6: "free_block q h5 = Some h6" "owns h [] h6" using free_block_owns [OF h5(2)] by blast
  have raw: "raw_desc_to_config (enc_config c) (int (length (enc_config c))) h1 = Some (0, Some (q, c'), h3)"
    using q(1,2) c'(1) by (simp add: raw_desc_to_config_def)
  have total: "unat (wTotalLength c) = length (enc_config c)"
    using assms(3) by (simp add: unat_eq_nat_uint)
  have nine: "9 \<le> length (enc_config c)" by (simp add: enc_config_def bytes16_def)
  have front: "usbi_parse_descriptor ''bbw'' (take 9 (enc_config c))
      = Some [FB (cf_bLength c), FB (cf_bDescriptorType c), FW (wTotalLength c)]"
    by (simp add: enc_config_def bytes16_def wire_simps)
  have "fetch_config op h = ret (0, Some (q, c'), h4)"
    unfolding fetch_config_def assms(1)
    using nine front p(1,2) total raw h4(1) by (simp add: min_def)
  moreover have "libusb_free_config_descriptor (Some (q, c')) h4 = Some h6"
    using h5(1) h6(1) by (simp add: libusb_free_config_descriptor_def)
  moreover have "in_use h6 = in_use h" using h6(2) by (simp add: owns_in_use)
  ultimately show ?thesis using c'(2) by blast
qed

lemma active_config_run:
  assumes "active_value md dev = Some (0, uint v)" "config_file cs" "length dd = DEVICE_DESC_LENGTH"
    "descriptors dev = dd @ concat (map enc_config cs)"
    "find (\<lambda>c. bConfigurationValue c = v) cs = Some c" "heap_ok h"
  shows "\<exists>q c' h' h''. libusb_get_active_config_descriptor md dev h = ret (0, Some (q, c'), h')
    \<and> plain_config c' = plain_config c
    \<and> libusb_free_config_descriptor (Some (q, c')) h' = Some h'' \<and> in_use h'' = in_use h"
proof -
  have "c \<in> set cs" using assms(5) by (auto simp: find_Some_iff)
  then show ?thesis
    using fetch_config_found [OF op_active_found [OF assms(1-5)] _ _ assms(6)] assms(2)
    by (simp add: libusb_get_active_config_descriptor_def config_file_def)
qed

text \<open>C9: For a device whose descriptor file holds well-formed configurations,
  \<open>libusb_get_active_config_descriptor\<close> returns the contents of the configuration with the active
  value, from sysfs and from usbfs alike, and \<open>libusb_free_config_descriptor\<close> then releases all
  of it.\<close>

theorem active_config_found:
  assumes "active_value md dev = Some (0, uint v)" "config_file cs" "length dd = DEVICE_DESC_LENGTH"
    "descriptors dev = dd @ concat (map enc_config cs)"
    "find (\<lambda>c. bConfigurationValue c = v) cs = Some c" "heap_ok h"
  shows "\<exists>q c' h' h''. libusb_get_active_config_descriptor md dev h = ret (0, Some (q, c'), h')
    \<and> plain_config c' = plain_config c
    \<and> libusb_free_config_descriptor (Some (q, c')) h' = Some h'' \<and> in_use h'' = in_use h"
  using active_config_run [OF assms] .

section \<open>Endpoints\<close>

lemma find_in_endpoints_plain:
  "find_in_endpoints ad k j (plain_altsetting a) = map_option (map_option plain_endpoint) (find_in_endpoints ad k j a)"
  by (induction k arbitrary: j)
    (auto simp: plain_altsetting_def get_at_def plain_endpoint_def bind_eq_None_conv split: if_splits)

lemma find_in_altsettings_plain:
  "find_in_altsettings ad (map plain_altsetting as) = map_option (map_option plain_endpoint) (find_in_altsettings ad as)"
proof (induction as)
  case (Cons a as)
  have [simp]: "bNumEndpoints (plain_altsetting a) = bNumEndpoints a" by (simp add: plain_altsetting_def)
  show ?case using Cons
    by (cases "find_in_endpoints ad (unat (bNumEndpoints a)) 0 a")
      (auto simp: find_in_endpoints_plain split: option.splits)
qed simp

lemma find_in_interfaces_plain:
  "find_in_interfaces ad k i (map plain_interface uis)
     = map_option (map_option plain_endpoint) (find_in_interfaces ad k i uis)"
proof (induction k arbitrary: i)
  case (Suc k)
  show ?case
  proof (cases "i < length uis")
    case True
    have "altsettings (plain_interface (uis ! i)) = map plain_altsetting (altsettings (uis ! i))"
      by (simp add: plain_interface_def)
    then show ?thesis using True Suc
      by (cases "find_in_altsettings ad (altsettings (uis ! i))")
        (auto simp: get_at_def find_in_altsettings_plain split: option.splits)
  qed (simp add: get_at_def)
qed simp

lemma find_endpoint_plain:
  "find_endpoint (plain_config c) ad = map_option (map_option plain_endpoint) (find_endpoint c ad)"
proof -
  have "bNumInterfaces (plain_config c) = bNumInterfaces c"
    "cf_interfaces (plain_config c) = map plain_interface (cf_interfaces c)" by (simp_all add: plain_config_def)
  then show ?thesis by (simp add: find_endpoint_def find_in_interfaces_plain)
qed

lemma iso_packet_size_plain: "iso_packet_size (plain_endpoint e) = iso_packet_size e"
  by (simp add: iso_packet_size_def plain_endpoint_def)

text \<open>For such a device \<open>libusb_get_max_iso_packet_size\<close> is the packet size of the first endpoint
  of the active configuration with the address, or \<open>LIBUSB_ERROR_NOT_FOUND\<close>; no memory stays
  allocated.\<close>

lemma iso_packet_size_of_endpoint:
  assumes "active_value md dev = Some (0, uint v)" "config_file cs" "length dd = DEVICE_DESC_LENGTH"
    "descriptors dev = dd @ concat (map enc_config cs)"
    "find (\<lambda>c. bConfigurationValue c = v) cs = Some c" "heap_ok h" "find_endpoint c ad = Some ep"
  shows "\<exists>h'. libusb_get_max_iso_packet_size md dev ad h
      = ret (case ep of None \<Rightarrow> ERROR_NOT_FOUND | Some e \<Rightarrow> iso_packet_size e, h') \<and> in_use h' = in_use h"
proof -
  obtain q c' h1 h2 where c': "libusb_get_active_config_descriptor md dev h = ret (0, Some (q, c'), h1)"
    "plain_config c' = plain_config c" "libusb_free_config_descriptor (Some (q, c')) h1 = Some h2"
    "in_use h2 = in_use h" using active_config_run [OF assms(1-6)] by blast
  have "map_option (map_option plain_endpoint) (find_endpoint c' ad) = Some (map_option plain_endpoint ep)"
    using find_endpoint_plain [of c' ad] find_endpoint_plain [of c ad] c'(2) assms(7) by simp
  then obtain ep' where ep': "find_endpoint c' ad = Some ep'"
    "map_option plain_endpoint ep' = map_option plain_endpoint ep" by auto
  have "(case ep' of None \<Rightarrow> ERROR_NOT_FOUND | Some e \<Rightarrow> iso_packet_size e)
      = (case ep of None \<Rightarrow> ERROR_NOT_FOUND | Some e \<Rightarrow> iso_packet_size e)"
    using ep'(2) iso_packet_size_plain by (cases ep; cases ep') (auto, metis)
  then show ?thesis
    using c'(1,3,4) ep'(1) by (simp add: libusb_get_max_iso_packet_size_def with_endpoint_def Let_def)
qed


text \<open>The Kinect's camera, cached from sysfs: the attribute holds the characters of 1.\<close>

definition camera_device :: linux_device where
  "camera_device = \<lparr>descriptors = replicate DEVICE_DESC_LENGTH 0 @ enc_config camera_config,
     active_config = 0, num_configurations = 1, sysfs_open = 5, sysfs_read = (2, [0x31, 0x0A])\<rparr>"

definition android_mode :: usbfs_mode where
  "android_mode = \<lparr>sysfs_can_relate_devices = True, sysfs_has_descriptors = True\<rparr>"

lemma camera_device_facts:
  "active_value android_mode camera_device = Some (0, uint (1 :: u8))"
  "config_file [camera_config]"
  "descriptors camera_device = replicate DEVICE_DESC_LENGTH 0 @ concat (map enc_config [camera_config])"
  "find (\<lambda>c. bConfigurationValue c = 1) [camera_config] = Some camera_config"
proof -
  show "active_value android_mode camera_device = Some (0, uint (1 :: u8))" by code_simp
  have "length (enc_config camera_config) = 37" "wTotalLength camera_config = 37" by code_simp+
  then show "config_file [camera_config]" using camera_config_shape by (simp add: config_file_def)
qed (simp_all add: camera_device_def camera_config_def)

theorem active_config_found_witness:
  "\<exists>q c' h' h''. libusb_get_active_config_descriptor android_mode camera_device fresh_heap = ret (0, Some (q, c'), h')
    \<and> plain_config c' = plain_config camera_config
    \<and> libusb_free_config_descriptor (Some (q, c')) h' = Some h'' \<and> in_use h'' = in_use fresh_heap"
  by (rule active_config_found [OF camera_device_facts(1,2) _ camera_device_facts(3,4) fresh_heap_ok]) simp

lemma iso_packet_size_of_endpoint_example:
  "\<exists>h'. libusb_get_max_iso_packet_size android_mode camera_device 0x81 fresh_heap
      = ret (1920, h') \<and> in_use h' = in_use fresh_heap"
proof -
  let ?e = "camera_endpoint 0x81 0x0BC0 [3, 0x30, 1]"
  have found: "find_endpoint camera_config 0x81 = Some (Some ?e)" by code_simp
  have "\<exists>h'. libusb_get_max_iso_packet_size android_mode camera_device 0x81 fresh_heap
      = ret (case Some ?e of None \<Rightarrow> ERROR_NOT_FOUND | Some e \<Rightarrow> iso_packet_size e, h') \<and> in_use h' = in_use fresh_heap"
    by (rule iso_packet_size_of_endpoint [OF camera_device_facts(1,2) _ camera_device_facts(3,4) fresh_heap_ok found]) simp
  moreover have "iso_packet_size ?e = 1920" by code_simp
  ultimately show ?thesis by simp
qed

text \<open>The size never exceeds three transactions more than the eleven bits hold, so a packet fits an
  URB of the backend.\<close>

lemma iso_packet_size_bound: "0 \<le> iso_packet_size e \<and> iso_packet_size e \<le> 8188"
proof -
  have a: "uint (wMaxPacketSize e AND 0x07ff) \<le> 2047"
    by (simp add: uint_and)
  have b: "uint (drop_bit 11 (wMaxPacketSize e) AND 3) \<le> 3"
    by (simp add: uint_and)
  have "uint (wMaxPacketSize e AND 0x07ff) * (1 + uint (drop_bit 11 (wMaxPacketSize e) AND 3)) \<le> 2047 * 4"
    by (rule mult_mono) (use a b uint_nonnegative in auto)
  then show ?thesis using a by (auto simp: iso_packet_size_def Let_def)
qed

section \<open>A descriptor of length zero\<close>

text \<open>\<open>seek_to_next_descriptor\<close> adds the length of each descriptor to its position: at a
  descriptor of length 0 it never returns, whatever follows.\<close>

lemma zero_length_never_returns:
  assumes "drop i buf = 0 # t # r" "i = 0 \<or> t \<noteq> ty" "2 \<le> sz"
  shows "seek_loop ty buf i sz = None"
proof -
  have "\<not> (drop i buf = 0 # t # r \<and> (i = 0 \<or> t \<noteq> ty) \<and> 2 \<le> sz)" if y: "seek_loop ty buf i sz = Some y" for y
  proof (rule seek_loop.raw_induct [where P = "\<lambda>ty buf i sz y.
      \<not> (drop i buf = 0 # t # r \<and> (i = 0 \<or> t \<noteq> ty) \<and> 2 \<le> sz)", OF _ y], rule notI)
    fix f ty buf i sz y
    assume IH: "\<And>ty buf i sz y. f ty buf i sz = Some y \<Longrightarrow>
        \<not> (drop i buf = 0 # t # r \<and> (i = 0 \<or> t \<noteq> ty) \<and> 2 \<le> sz)"
      and step: "(if sz < 0 then ret ERROR_IO else if sz = 0 then ret ERROR_NOT_FOUND
        else if sz < 2 then ret ERROR_IO
        else case parse_header (drop i buf) of None \<Rightarrow> fault
        | Some (len, t) \<Rightarrow> if i \<noteq> 0 \<and> t = ty then ret (int i)
            else f ty buf (i + unat len) (sz - uint len)) = Some y"
      and s: "drop i buf = 0 # t # r \<and> (i = 0 \<or> t \<noteq> ty) \<and> 2 \<le> sz"
    have "f ty buf i sz = Some y" using step s by (auto simp: desc_simps split: if_splits)
    then show False using IH s by blast
  qed
  then show ?thesis using assms by fastforce
qed

lemma zero_length_never_returns_example:
  "seek_loop DT_CONFIG ([9, 2, 9, 0, 0, 1, 0, 0, 0] @ [0, 0x24, 0]) 9 3 = None"
  by (rule zero_length_never_returns [where t = "0x24" and r = "[0]"]) simp_all

section \<open>Endpoints that are announced only\<close>

text \<open>An alternate setting that announces endpoints without an array of them makes
  \<open>find_endpoint\<close> read through NULL.\<close>

lemma announced_endpoints_fault:
  assumes "0 < bNumInterfaces c" "cf_interfaces c = ui # uis" "altsettings ui = a # as"
    "0 < bNumEndpoints a" "if_endpoint a = 0"
  shows "find_endpoint c ad = None"
proof -
  obtain k where k: "unat (bNumInterfaces c) = Suc k"
    using assms(1) by (cases "unat (bNumInterfaces c)") (auto simp: unat_eq_zero)
  obtain j where j: "unat (bNumEndpoints a) = Suc j"
    using assms(4) by (cases "unat (bNumEndpoints a)") (auto simp: unat_eq_zero)
  show ?thesis by (simp add: find_endpoint_def k assms(2,3,5) j get_at_def)
qed

text \<open>One interface, then a descriptor that runs past the data.\<close>

lemma overrun_after_interface:
  fixes n :: u8
  assumes "heap_ok h" "0 < e" "e \<le> USB_MAXENDPOINTS" "2 \<le> uint l" "length rest + 2 < unat l"
  shows "\<exists>q c h'. raw_desc_to_config ([9, 2, w0, w1, 1, v, ic, at, mp] @ [9, 4, n, alt, e, cl, sc, pr, ii] @ l # t # rest)
      (int (length rest) + 20) h = Some (0, Some (q, c), h') \<and> (\<forall>ad. find_endpoint c ad = None)"
proof -
  let ?i = "[9, 4, n, alt, e, cl, sc, pr, ii] @ l # t # rest"
  obtain q h1 where q: "new_block h = (q, h1)" "q \<noteq> 0" "owns h [q] h1"
    using new_block_owns [OF owns_nil [OF assms(1)]] by blast
  obtain p h2 where p: "new_block h1 = (p, h2)" "p \<noteq> 0" "owns h [p, q] h2"
    using new_block_owns [OF q(3)] by blast
  have ok: "heap_ok h2" by (rule owns_ok [OF p(3)])
  obtain ui h3 a where ui: "parse_interface zero_interface ?i (int (length rest) + 11) h2 = Some (9, ui, h3)"
    "altsettings ui = [a]" "bNumEndpoints a = e" "if_endpoint a = 0"
    using truncated_interface_keeps_count [OF ok assms(2-5)] by blast
  have sk: "skip_extra ?i (int (length rest) + 11) = Some (Skip_done, 0)"
    by (simp add: skip_extra.simps [of "9 # r" for r] desc_simps proper_descriptor_def)
  define body where "body = ?i"
  have pi: "parse_interfaces (Suc 0) 0 c0 body (int (length rest) + 11) h2
      = Some (int (length rest) + 2, c0\<lparr>cf_interfaces := [ui]\<rparr>, h3)"
    if "cf_interfaces c0 = [zero_interface]" for c0
    unfolding body_def using ui(1) sk that by (simp add: get_at_def)
  define c0 where "c0 = \<lparr>cf_bLength = 9, cf_bDescriptorType = 2, wTotalLength = le16 w0 w1, bNumInterfaces = 1,
     bConfigurationValue = v, iConfiguration = ic, cf_bmAttributes = at, MaxPower = mp,
     cf_interface = p, cf_interfaces = [zero_interface], cf_extra = 0, cf_extra_data = [], cf_extra_length = 0\<rparr>"
  have rc: "read_config ([9, 2, w0, w1, 1, v, ic, at, mp] @ body) = Some (c0\<lparr>cf_interface := 0, cf_interfaces := []\<rparr>)"
    by (simp add: read_config_def desc_simps c0_def)
  have pc: "parse_configuration ([9, 2, w0, w1, 1, v, ic, at, mp] @ body) (int (length rest) + 20) h1
      = Some (int (length rest) + 2, Some (c0\<lparr>cf_interfaces := [ui]\<rparr>), h3)"
    unfolding parse_configuration_def rc using pi [of c0] p(1,2)
    by (simp add: c0_def Let_def add.commute [of 11 "int (length rest)"] del: parse_interfaces.simps)
  have "find_endpoint (c0\<lparr>cf_interfaces := [ui]\<rparr>) ad = None" for ad
    by (rule announced_endpoints_fault [OF _ _ ui(2)]) (use ui(3,4) assms(2) in \<open>simp_all add: c0_def\<close>)
  then show ?thesis using q pc [unfolded body_def] by (simp add: raw_desc_to_config_def)
qed

text \<open>One interface that announces endpoints, then at most one byte.\<close>

lemma cut_interface_rejected:
  fixes n :: u8
  assumes "heap_ok h" "0 < e" "e \<le> USB_MAXENDPOINTS" "length bs < 2"
  shows "\<exists>ui h'. parse_interface zero_interface ([9, 4, n, alt, e, cl, sc, pr, ii] @ bs) (int (length bs) + 9) h
    = Some (ERROR_IO, ui, h')"
proof -
  define d where "d = [9, 4, n, alt, e, cl, sc, pr, ii] @ bs"
  have sz: "int (length bs) + 9 \<le> int (length d)" "0 \<le> int (length bs) + 9" by (simp_all add: d_def)
  obtain r ui h' where run: "parse_interface zero_interface d (int (length bs) + 9) h = Some (r, ui, h')"
    using parse_interface_owns [OF sz owns_nil [OF assms(1)]] by blast
  obtain q h1 where q: "usbi_reallocf 0 h = Some (q, h1)" "q \<noteq> 0" "owns h [q] h1"
    using reallocf_owns [of h 0 "[]" h] owns_nil [OF assms(1)] by auto
  obtain p h2 where p: "new_block h1 = (p, h2)" "p \<noteq> 0" using new_block_owns [OF q(3)] by blast
  obtain k where k: "unat e = Suc k" using assms(2) by (cases "unat e") (auto simp: unat_eq_zero)
  have sk: "skip_extra bs (int (length bs)) = Some (Skip_done, 0)"
    using assms(4) by (simp add: skip_extra.simps [of bs])
  define a where "a = \<lparr>if_bLength = 9, if_bDescriptorType = 4, bInterfaceNumber = n, bAlternateSetting = alt,
       bNumEndpoints = e, bInterfaceClass = cl, bInterfaceSubClass = sc, bInterfaceProtocol = pr,
       iInterface = ii, if_endpoint = 0, if_endpoints = [], if_extra = 0, if_extra_data = [],
       if_extra_length = 0\<rparr>"
  have rd: "read_altsetting d = Some a" by (simp add: d_def a_def desc_simps)
  have a: "if_bDescriptorType a = 4" "if_bLength a = 9" "bNumEndpoints a = e" "bInterfaceNumber a = n"
    by (simp_all add: a_def)
  have "\<exists>a1 h3. parse_alt_body a bs (int (length bs)) h1 = Some (Alt_error ERROR_IO, 0, a1, h3)"
    using sk p k assms(2,4) a(3)
    by (simp add: parse_alt_body_def Let_def get_at_def parse_endpoint_def word_gt_0)
  then obtain a1 h3 where body: "parse_alt_body a bs (int (length bs)) h1 = Some (Alt_error ERROR_IO, 0, a1, h3)"
    by blast
  have dd: "drop 9 d = bs" by (simp add: d_def)
  have "parse_interface zero_interface d (int (length bs) + 9) h = do {
      (ui', h4) \<leftarrow> clear_interface \<lparr>altsetting = q, altsettings = [a1]\<rparr> h3; Some (ERROR_IO, ui', h4) }"
    using q(1,2) rd a body assms(3) dd
    by (simp add: parse_interface_def parse_altsettings.simps [of _ _ d] zero_interface_def Let_def not_less [symmetric])
  with run have "r = ERROR_IO" by (auto simp: bind_Some_iff)
  with run show ?thesis unfolding d_def by blast
qed

lemma cut_config_rejected:
  fixes n :: u8
  assumes "heap_ok h" "0 < e" "e \<le> USB_MAXENDPOINTS" "length bs < 2"
  shows "\<exists>h'. raw_desc_to_config ([9, 2, w0, w1, 1, v, ic, at, mp] @ [9, 4, n, alt, e, cl, sc, pr, ii] @ bs)
      (int (length bs) + 18) h = Some (ERROR_IO, None, h') \<and> in_use h' = in_use h"
proof -
  define body where "body = [9, 4, n, alt, e, cl, sc, pr, ii] @ bs"
  define d where "d = [9, 2, w0, w1, 1, v, ic, at, mp] @ body"
  have len: "int (length bs) + 18 \<le> int (length d)" by (simp add: d_def body_def)
  have hb: "blocks_ok h" using assms(1) by (simp add: heap_ok_def)
  obtain r c h' where run: "raw_desc_to_config d (int (length bs) + 18) h = Some (r, c, h')"
    "r < 0 \<longrightarrow> c = None \<and> in_use h' = in_use h"
    using config_parse_released [OF hb len] by blast
  obtain q h1 where q: "new_block h = (q, h1)" "q \<noteq> 0" "owns h [q] h1"
    using new_block_owns [OF owns_nil [OF assms(1)]] by blast
  obtain p h2 where p: "new_block h1 = (p, h2)" "p \<noteq> 0" "owns h [p, q] h2"
    using new_block_owns [OF q(3)] by blast
  obtain ui h3 where ui: "parse_interface zero_interface body (int (length bs) + 9) h2 = Some (ERROR_IO, ui, h3)"
    using cut_interface_rejected [OF owns_ok [OF p(3)] assms(2-4)] unfolding body_def by blast
  have sk: "skip_extra body (int (length bs) + 9) = Some (Skip_done, 0)"
    by (simp add: body_def skip_extra.simps [of "9 # r" for r] desc_simps proper_descriptor_def)
  define c0 where "c0 = \<lparr>cf_bLength = 9, cf_bDescriptorType = 2, wTotalLength = le16 w0 w1, bNumInterfaces = 1,
     bConfigurationValue = v, iConfiguration = ic, cf_bmAttributes = at, MaxPower = mp,
     cf_interface = p, cf_interfaces = [zero_interface], cf_extra = 0, cf_extra_data = [], cf_extra_length = 0\<rparr>"
  have rc: "read_config d = Some (c0\<lparr>cf_interface := 0, cf_interfaces := []\<rparr>)"
    by (simp add: read_config_def desc_simps c0_def d_def)
  have dd: "drop 9 d = body" by (simp add: d_def)
  have "parse_interfaces (Suc 0) 0 c0 body (int (length bs) + 9) h2 = do {
      h3 \<leftarrow> clear_configuration (c0\<lparr>cf_interfaces := [ui]\<rparr>) h3; Some (ERROR_IO, c0\<lparr>cf_interfaces := [ui]\<rparr>, h3) }"
    using ui sk by (simp add: get_at_def c0_def Let_def)
  then have "parse_configuration d (int (length bs) + 18) h1 = do {
      h3 \<leftarrow> clear_configuration (c0\<lparr>cf_interfaces := [ui]\<rparr>) h3;
      Some (ERROR_IO, Some (c0\<lparr>cf_interfaces := [ui]\<rparr>), h3) }"
    unfolding parse_configuration_def rc using p(1,2)
    by (simp add: c0_def dd Let_def add.commute [of 9 "int (length bs)"] del: parse_interfaces.simps)
  then have "r = ERROR_IO"
    using run(1) q(1,2) by (auto simp: raw_desc_to_config_def bind_Some_iff split: if_splits)
  with run show ?thesis unfolding d_def body_def by simp
qed

text \<open>C39: What a configuration becomes that is cut off in the descriptor behind its one interface.
  With fewer than two bytes of that descriptor left, the parser rejects it with
  \<open>LIBUSB_ERROR_IO\<close> and releases everything.  With two bytes or more, short of the whole, it
  accepts the configuration, and \<open>find_endpoint\<close> dereferences NULL in the result, whatever
  endpoint it looks for.  The interface announces at least one endpoint, and no allocation
  fails.\<close>

theorem truncated_config_faults:
  fixes n :: u8
  assumes "heap_ok h" "0 < e" "e \<le> USB_MAXENDPOINTS" "2 \<le> length d" "unat (d ! 0) = length d" "k < length d"
    and buf: "buf = [9, 2, w0, w1, 1, v, ic, at, mp] @ [9, 4, n, alt, e, cl, sc, pr, ii] @ take k d"
  shows "if k < 2 then \<exists>h'. raw_desc_to_config buf (int (length buf)) h = Some (ERROR_IO, None, h') \<and> in_use h' = in_use h
    else \<exists>q c h'. raw_desc_to_config buf (int (length buf)) h = Some (0, Some (q, c), h')
      \<and> (\<forall>ad. find_endpoint c ad = None)"
proof (cases "k < 2")
  case True
  then have "length (take k d) < 2" "int (length buf) = int (length (take k d)) + 18" by (simp_all add: buf)
  then show ?thesis
    unfolding buf using True cut_config_rejected [OF assms(1-3), of "take k d" w0 w1 v ic at mp n alt cl sc pr ii]
    by (simp add: ac_simps)
next
  case False
  obtain l t r where d: "d = l # t # r" using buf2 [OF assms(4)] by blast
  define rest where "rest = take (k - 2) r"
  have cut: "take k d = l # t # rest" using False by (cases k; cases "k - 1") (auto simp: d rest_def)
  have "length rest + 2 = k" using assms(6) False by (simp add: d rest_def)
  then have lt: "length rest + 2 < unat l" and len: "int (length buf) = int (length rest) + 20"
    using assms(5,6) by (simp_all add: d buf cut)
  have "2 \<le> unat l" using lt by simp
  then have ul: "2 \<le> uint l" by (metis of_nat_le_iff of_nat_numeral uint_nat)
  show ?thesis
    using False overrun_after_interface [OF assms(1-3) ul lt, of w0 w1 v ic at mp n alt cl sc pr ii t]
    unfolding len unfolding buf cut by simp
qed

definition cut_config :: bytes where
  "cut_config = [9, 2, 21, 0, 1, 1, 0, 0xC0, 8] @ [9, 4, 0, 0, 2, 0xFF, 0, 0, 0] @ take 3 [9, 0x24, 1, 0, 0, 0, 0, 0, 0]"

theorem truncated_config_faults_witness:
  "\<exists>q c h'. raw_desc_to_config cut_config 21 fresh_heap = Some (0, Some (q, c), h')
    \<and> (\<forall>ad. find_endpoint c ad = None)"
  using truncated_config_faults [OF fresh_heap_ok, of 2 "[9, 0x24, 1, 0, 0, 0, 0, 0, 0]" 3 cut_config 21 0 1 0 "0xC0" 8 0 0 "0xFF" 0 0 0]
  by (simp add: cut_config_def)

section \<open>Reading the descriptor file\<close>

text \<open>A regular file \<open>f\<close>: a read at an offset gives the bytes that are there, up to the number
  asked for.\<close>

definition reads_file :: "bytes \<Rightarrow> (nat \<Rightarrow> nat \<Rightarrow> int \<times> bytes) \<Rightarrow> bool" where
  "reads_file f rd \<longleftrightarrow> (\<forall>off n. rd off n = (int (min n (length f - off)), take n (drop off f)))"

lemma read_loop_prefix:
  assumes "reads_file f rd" "\<And>n. mem n" "0 < cap" "c \<le> length f" "c < 2 * cap"
  shows "read_loop mem rd n (take c f) cap = Some (0, f)"
  using assms(3-5)
proof (induction "Suc (length f) - c" arbitrary: cap c n rule: less_induct)
  case less
  have len: "length (take c f) = c" using less.prems(2) by simp
  have rd: "rd c n = (int (min n (length f - c)), take n (drop c f))" for n
    using assms(1) by (simp add: reads_file_def)
  have nx: "take c f @ take (min (2 * cap - c) (length f - c)) (take (2 * cap - c) (drop c f)) = take (2 * cap) f"
    using less.prems(3) take_add [of c "2 * cap - c" f] by (simp add: min_def)
  have run: "read_loop mem rd n (take c f) cap =
      (if length (take (2 * cap) f) = 2 * cap then read_loop mem rd (Suc n) (take (2 * cap) f) (2 * cap)
       else Some (0, take (2 * cap) f))"
    unfolding read_loop.simps [of mem rd n "take c f"] Let_def len rd prod.case nat_int nx
    using assms(2) [of n] by simp
  show ?case
  proof (cases "2 * cap \<le> length f")
    case True
    have "read_loop mem rd (Suc n) (take (2 * cap) f) (2 * cap) = Some (0, f)"
      by (rule less.hyps) (use True less.prems in auto)
    then show ?thesis using run True by simp
  next
    case False
    then show ?thesis using run by simp
  qed
qed

text \<open>The backend caches the whole descriptor file, however long it is: doubling the buffer
  reaches every length, and the loop ends at the first read that does not fill it.  With sysfs
  nothing else is asked of the device.\<close>

lemma descriptor_file_cached:
  assumes "reads_file f (desc_read k)" "dir_memory k" "\<And>n. memory k n" "0 \<le> desc_fd k"
    "DEVICE_DESC_LENGTH \<le> length f" "sysfs_can_relate_devices md"
  shows "initialize_device md dir k = ret (0, f, 0, read_speed dir k)"
  using read_loop_prefix [OF assms(1,3), where cap = 512 and c = 0 and n = 0] assms(2,4-6)
  by (simp add: initialize_device_def Let_def)

lemma descriptor_file_cached_example:
  "initialize_device android_mode True
      \<lparr>dir_memory = True, memory = (\<lambda>n. True), speed_attr = 480, desc_fd = 7,
       desc_read = (\<lambda>off n. (int (min n (55 - off)), take n (drop off
         (replicate 18 0 @ enc_config camera_config)))), rw_fd = -1, get_configuration = (0, 0)\<rparr>
    = ret (0, replicate 18 0 @ enc_config camera_config, 0, SPEED_HIGH)"
proof -
  let ?f = "replicate 18 0 @ enc_config camera_config"
  let ?k = "\<lparr>dir_memory = True, memory = (\<lambda>n. True), speed_attr = 480, desc_fd = 7,
       desc_read = (\<lambda>off n. (int (min n (55 - off)), take n (drop off ?f))), rw_fd = -1,
       get_configuration = (0, 0)\<rparr>"
  have "length (enc_config camera_config) = 37" by code_simp
  then have "reads_file ?f (desc_read ?k)" by (simp add: reads_file_def)
  from descriptor_file_cached [OF this, of android_mode True]
  show ?thesis by (simp add: android_mode_def read_speed_def speed_of_def)
qed

end
