(* ===== verification/UsbUrb.thy ===== *)
theory UsbUrb
  imports UsbDesc
begin

text \<open>
  Transfers on Linux (\<open>libusb/os/linux_usbfs.c\<close>): a transfer is cut into request blocks (URBs),
  the kernel completes them one by one, and the completions are put together again.

  The kernel is an argument: the error number with which it refuses the \<open>i\<close>-th block, 0 when it
  accepts it, and likewise for discarding.  Two fields of a transfer record what the kernel knows:
  \<open>flying\<close> holds the indices of the blocks it has and libusb has not reaped, and \<open>discarding\<close> those
  it was told to discard.  The kernel keeps the addresses of flying blocks, so freeing the blocks
  while one is flying is a fault (\<open>None\<close>).
\<close>

section \<open>Constants\<close>

abbreviation ENOENT :: int where "ENOENT \<equiv> 2"
abbreviation EXDEV :: int where "EXDEV \<equiv> 18"
abbreviation ENODEV :: int where "ENODEV \<equiv> 19"
abbreviation EINVAL :: int where "EINVAL \<equiv> 22"
abbreviation EPIPE :: int where "EPIPE \<equiv> 32"
abbreviation ETIME :: int where "ETIME \<equiv> 62"
abbreviation ENOSR :: int where "ENOSR \<equiv> 63"
abbreviation ECOMM :: int where "ECOMM \<equiv> 70"
abbreviation EPROTO :: int where "EPROTO \<equiv> 71"
abbreviation EOVERFLOW :: int where "EOVERFLOW \<equiv> 75"
abbreviation EILSEQ :: int where "EILSEQ \<equiv> 84"
abbreviation ECONNRESET :: int where "ECONNRESET \<equiv> 104"
abbreviation ESHUTDOWN :: int where "ESHUTDOWN \<equiv> 108"
abbreviation EREMOTEIO :: int where "EREMOTEIO \<equiv> 121"

abbreviation ERR_NO_DEVICE :: int where "ERR_NO_DEVICE \<equiv> -4"
abbreviation ERR_BUSY :: int where "ERR_BUSY \<equiv> -6"
abbreviation ERR_NOT_SUPPORTED :: int where "ERR_NOT_SUPPORTED \<equiv> -12"
abbreviation ERR_OTHER :: int where "ERR_OTHER \<equiv> -99"

abbreviation TYPE_CONTROL :: u8 where "TYPE_CONTROL \<equiv> 0"
abbreviation TYPE_ISO :: u8 where "TYPE_ISO \<equiv> 1"
abbreviation TYPE_BULK :: u8 where "TYPE_BULK \<equiv> 2"
abbreviation TYPE_INTR :: u8 where "TYPE_INTR \<equiv> 3"
abbreviation TYPE_BULK_STREAM :: u8 where "TYPE_BULK_STREAM \<equiv> 4"

abbreviation URB_SHORT_NOT_OK :: u32 where "URB_SHORT_NOT_OK \<equiv> 0x01"
abbreviation URB_ISO_ASAP :: u32 where "URB_ISO_ASAP \<equiv> 0x02"
abbreviation URB_BULK_CONTINUATION :: u32 where "URB_BULK_CONTINUATION \<equiv> 0x04"
abbreviation URB_ZERO_PACKET :: u32 where "URB_ZERO_PACKET \<equiv> 0x40"

abbreviation URB_TYPE_ISO :: u8 where "URB_TYPE_ISO \<equiv> 0"
abbreviation URB_TYPE_INTERRUPT :: u8 where "URB_TYPE_INTERRUPT \<equiv> 1"
abbreviation URB_TYPE_CONTROL :: u8 where "URB_TYPE_CONTROL \<equiv> 2"
abbreviation URB_TYPE_BULK :: u8 where "URB_TYPE_BULK \<equiv> 3"

abbreviation CAP_ZERO_PACKET :: u32 where "CAP_ZERO_PACKET \<equiv> 0x01"
abbreviation CAP_BULK_CONTINUATION :: u32 where "CAP_BULK_CONTINUATION \<equiv> 0x02"
abbreviation CAP_NO_PACKET_SIZE_LIM :: u32 where "CAP_NO_PACKET_SIZE_LIM \<equiv> 0x04"
abbreviation CAP_BULK_SCATTER_GATHER :: u32 where "CAP_BULK_SCATTER_GATHER \<equiv> 0x08"

abbreviation MAX_ISO_BUFFER_LENGTH :: u32 where "MAX_ISO_BUFFER_LENGTH \<equiv> 32768"
abbreviation MAX_BULK_BUFFER_LENGTH :: nat where "MAX_BULK_BUFFER_LENGTH \<equiv> 16384"
abbreviation MAX_CTRL_BUFFER_LENGTH :: int where "MAX_CTRL_BUFFER_LENGTH \<equiv> 4096"
abbreviation CONTROL_SETUP_SIZE :: int where "CONTROL_SETUP_SIZE \<equiv> 8"

abbreviation TRANSFER_SHORT_NOT_OK :: u8 where "TRANSFER_SHORT_NOT_OK \<equiv> 1"
abbreviation TRANSFER_ADD_ZERO_PACKET :: u8 where "TRANSFER_ADD_ZERO_PACKET \<equiv> 8"

section \<open>State\<close>

datatype reap_action = NORMAL | SUBMIT_FAILED | CANCELLED | COMPLETED_EARLY | REAP_ERROR

datatype xfer_status =
  ST_COMPLETED | ST_ERROR | ST_TIMED_OUT | ST_CANCELLED | ST_STALL | ST_NO_DEVICE | ST_OVERFLOW

text \<open>A block points into the transfer's buffer: \<open>urb_offset\<close> is the distance from its start.\<close>

record urb =
  urb_type :: u8
  urb_endpoint :: u8
  urb_flags :: u32
  urb_offset :: nat
  urb_length :: nat
  urb_stream_id :: u32
  urb_packets :: "u32 list"

definition zero_urb :: urb where
  "zero_urb = \<lparr>urb_type = 0, urb_endpoint = 0, urb_flags = 0, urb_offset = 0, urb_length = 0,
     urb_stream_id = 0, urb_packets = []\<rparr>"

record packet_desc =
  pd_length :: u32
  pd_actual :: u32
  pd_status :: xfer_status

text \<open>\<open>struct libusb_transfer\<close>, \<open>struct usbi_transfer\<close> and \<open>struct linux_transfer_priv\<close> are one
  allocation and one record here.  \<open>urbs\<close> is the union of \<open>urbs\<close> and \<open>iso_urbs\<close>.\<close>

record usb_transfer =
  tr_flags :: u8
  tr_endpoint :: u8
  tr_type :: u8
  tr_timeout :: nat
  tr_status :: xfer_status
  tr_actual_length :: nat
  tr_buffer :: bytes
  tr_packets :: "packet_desc list"
  tr_stream_id :: u32
  transferred :: nat
  urbs :: "urb list option"
  reap_act :: reap_action
  num_urbs :: nat
  num_retired :: nat
  reap_status :: xfer_status
  iso_packet_offset :: nat
  flying :: "nat set"
  discarding :: "nat set"

text \<open>\<open>length\<close> of the transfer; the buffer has that many bytes.\<close>

definition tr_length :: "usb_transfer \<Rightarrow> nat" where
  "tr_length t = length (tr_buffer t)"

definition is_out :: "usb_transfer \<Rightarrow> bool" where
  "is_out t \<longleftrightarrow> tr_endpoint t AND 0x80 = 0"

definition free_urbs :: "usb_transfer \<Rightarrow> usb_transfer option" where
  "free_urbs t = (if flying t = {} then Some (t\<lparr>urbs := None\<rparr>) else None)"

text \<open>The kernel refuses a block with an error number.\<close>

definition submit_error :: "int \<Rightarrow> int" where
  "submit_error e = (if e = ENODEV then ERR_NO_DEVICE else ERROR_IO)"

section \<open>Discarding\<close>

text \<open>From the last block to the first; the result is the last one stored.\<close>

primrec discard_loop :: "(nat \<Rightarrow> int) \<Rightarrow> nat \<Rightarrow> nat \<Rightarrow> nat \<Rightarrow> int \<Rightarrow> int" where
  "discard_loop dis first last_plus_one 0 r = r"
| "discard_loop dis first last_plus_one (Suc k) r =
     (let i = first + k; e = dis i;
          r = (if e = 0 then r
               else if e = EINVAL then (if i = last_plus_one - 1 then ERROR_NOT_FOUND else r)
               else if e = ENODEV then ERR_NO_DEVICE
               else ERR_OTHER)
      in discard_loop dis first last_plus_one k r)"

definition discard_urbs :: "(nat \<Rightarrow> int) \<Rightarrow> nat \<Rightarrow> nat \<Rightarrow> usb_transfer \<Rightarrow> int \<times> usb_transfer" where
  "discard_urbs dis first last_plus_one t =
     (discard_loop dis first last_plus_one (last_plus_one - first) 0,
      t\<lparr>discarding := discarding t \<union> {first..<last_plus_one}\<rparr>)"

section \<open>Bulk and interrupt transfers\<close>

text \<open>The size of the pieces, and whether they are chained.\<close>

definition bulk_split :: "u32 \<Rightarrow> nat \<Rightarrow> nat \<times> bool" where
  "bulk_split caps len =
     (if caps AND CAP_BULK_SCATTER_GATHER \<noteq> 0 then (if len \<noteq> 0 then len else 1, False)
      else if caps AND CAP_BULK_CONTINUATION \<noteq> 0 then (MAX_BULK_BUFFER_LENGTH, True)
      else if caps AND CAP_NO_PACKET_SIZE_LIM \<noteq> 0 then (if len \<noteq> 0 then len else 1, False)
      else (MAX_BULK_BUFFER_LENGTH, False))"

definition bulk_count :: "nat \<Rightarrow> nat \<Rightarrow> nat" where
  "bulk_count piece len =
     (if len = 0 then 1 else if 0 < len mod piece then len div piece + 1 else len div piece)"

definition bulk_urb :: "u32 \<Rightarrow> usb_transfer \<Rightarrow> nat \<Rightarrow> urb" where
  "bulk_urb caps t i =
     (let (piece, continuation) = bulk_split caps (tr_length t); n = bulk_count piece (tr_length t);
          partial_last = tr_length t \<noteq> 0 \<and> 0 < tr_length t mod piece;
          short = (if continuation \<and> \<not> is_out t \<and> i < n - 1 then URB_SHORT_NOT_OK else 0);
          cont = (if 0 < i \<and> continuation then URB_BULK_CONTINUATION else 0);
          zero = (if is_out t \<and> i = n - 1 \<and> tr_flags t AND TRANSFER_ADD_ZERO_PACKET \<noteq> 0
                  then URB_ZERO_PACKET else 0)
      in \<lparr>urb_type = (if tr_type t = TYPE_BULK \<or> tr_type t = TYPE_BULK_STREAM then URB_TYPE_BULK
                      else if tr_type t = TYPE_INTR then URB_TYPE_INTERRUPT else 0),
          urb_endpoint = tr_endpoint t,
          urb_flags = short OR cont OR zero,
          urb_offset = i * piece,
          urb_length = (if i = n - 1 \<and> partial_last then tr_length t mod piece
                        else if tr_length t = 0 then 0 else piece),
          urb_stream_id = (if tr_type t = TYPE_BULK_STREAM then tr_stream_id t else 0),
          urb_packets = []\<rparr>)"

text \<open>The loop from block \<open>i\<close> on.  \<open>sub\<close> is the kernel's answer to each submission.\<close>

primrec bulk_submit_loop ::
  "u32 \<Rightarrow> (nat \<Rightarrow> int) \<Rightarrow> (nat \<Rightarrow> int) \<Rightarrow> nat \<Rightarrow> nat \<Rightarrow> usb_transfer \<Rightarrow> (int \<times> usb_transfer) option" where
  "bulk_submit_loop caps sub dis 0 i t = Some (0, t)"
| "bulk_submit_loop caps sub dis (Suc k) i t =
     (let t1 = t\<lparr>urbs := map_option (\<lambda>us. us[i := bulk_urb caps t i]) (urbs t)\<rparr>; e = sub i in
      if e = 0 then bulk_submit_loop caps sub dis k (Suc i) (t1\<lparr>flying := insert i (flying t1)\<rparr>)
      else if i = 0 then do { t2 \<leftarrow> free_urbs t1; Some (submit_error e, t2) }
      else
        let t2 = t1\<lparr>reap_act := if e = EREMOTEIO then COMPLETED_EARLY else SUBMIT_FAILED,
                    num_retired := num_retired t1 + (num_urbs t1 - i)\<rparr>
        in Some (0, if reap_act t2 = COMPLETED_EARLY then t2 else snd (discard_urbs dis 0 i t2)))"

definition submit_bulk_transfer ::
  "u32 \<Rightarrow> bool \<Rightarrow> (nat \<Rightarrow> int) \<Rightarrow> (nat \<Rightarrow> int) \<Rightarrow> usb_transfer \<Rightarrow> (int \<times> usb_transfer) option" where
  "submit_bulk_transfer caps mem sub dis t =
     (if urbs t \<noteq> None then Some (ERR_BUSY, t)
      else if is_out t \<and> tr_flags t AND TRANSFER_ADD_ZERO_PACKET \<noteq> 0 \<and> caps AND CAP_ZERO_PACKET = 0
      then Some (ERR_NOT_SUPPORTED, t)
      else let n = bulk_count (fst (bulk_split caps (tr_length t))) (tr_length t) in
        if \<not> mem then Some (ERROR_NO_MEM, t)
        else bulk_submit_loop caps sub dis n 0
          (t\<lparr>urbs := Some (replicate n zero_urb), num_urbs := n, num_retired := 0,
             reap_act := NORMAL, reap_status := ST_COMPLETED\<rparr>))"

section \<open>Control transfers\<close>

definition submit_control_transfer ::
  "bool \<Rightarrow> (nat \<Rightarrow> int) \<Rightarrow> usb_transfer \<Rightarrow> (int \<times> usb_transfer) option" where
  "submit_control_transfer mem sub t =
     (if urbs t \<noteq> None then Some (ERR_BUSY, t)
      else if MAX_CTRL_BUFFER_LENGTH < int (tr_length t) - CONTROL_SETUP_SIZE then Some (ERROR_INVALID_PARAM, t)
      else if \<not> mem then Some (ERROR_NO_MEM, t)
      else let t1 = t\<lparr>urbs := Some [zero_urb\<lparr>urb_type := URB_TYPE_CONTROL, urb_endpoint := tr_endpoint t,
                 urb_length := tr_length t\<rparr>], num_urbs := 1, reap_act := NORMAL\<rparr>; e = sub 0 in
        if e = 0 then Some (0, t1\<lparr>flying := insert 0 (flying t1)\<rparr>)
        else do { t2 \<leftarrow> free_urbs t1; Some (submit_error e, t2) })"

section \<open>Isochronous transfers\<close>

text \<open>How many blocks the packets need.  The space left is an \<open>unsigned int\<close>.\<close>

primrec iso_count_loop :: "u32 list \<Rightarrow> u32 \<Rightarrow> nat \<Rightarrow> nat" where
  "iso_count_loop [] this n = n"
| "iso_count_loop (p # ps) this n =
     (let space = MAX_ISO_BUFFER_LENGTH - this in
      if space < p then iso_count_loop ps p (n + 1) else iso_count_loop ps (this + p) n)"

definition iso_count :: "u32 list \<Rightarrow> nat" where
  "iso_count ps = iso_count_loop ps 0 1"

text \<open>The packets one block swallows.\<close>

primrec swallow :: "u32 list \<Rightarrow> u32 \<Rightarrow> u32 list" where
  "swallow [] space = []"
| "swallow (p # ps) space = (if p \<le> space then p # swallow ps (space - p) else [])"

definition bytes_of :: "u32 list \<Rightarrow> nat" where
  "bytes_of ps = sum_list (map unat ps)"

text \<open>The first \<open>k\<close> blocks for the packets \<open>ps\<close>, the first of them \<open>off\<close> bytes into the buffer.\<close>

primrec iso_urbs :: "u8 \<Rightarrow> nat \<Rightarrow> u32 list \<Rightarrow> nat \<Rightarrow> urb list" where
  "iso_urbs ep 0 ps off = []"
| "iso_urbs ep (Suc k) ps off =
     (let mine = swallow ps MAX_ISO_BUFFER_LENGTH in
      zero_urb\<lparr>urb_type := URB_TYPE_ISO, urb_endpoint := ep, urb_flags := URB_ISO_ASAP,
               urb_offset := off, urb_packets := mine\<rparr>
      # iso_urbs ep k (drop (length mine) ps) (off + bytes_of mine))"

primrec iso_submit_loop ::
  "(nat \<Rightarrow> int) \<Rightarrow> (nat \<Rightarrow> int) \<Rightarrow> nat \<Rightarrow> nat \<Rightarrow> usb_transfer \<Rightarrow> (int \<times> usb_transfer) option" where
  "iso_submit_loop sub dis 0 i t = Some (0, t)"
| "iso_submit_loop sub dis (Suc k) i t =
     (let e = sub i in
      if e = 0 then iso_submit_loop sub dis k (Suc i) (t\<lparr>flying := insert i (flying t)\<rparr>)
      else if i = 0 then do { t2 \<leftarrow> free_urbs t; Some (submit_error e, t2) }
      else Some (0, snd (discard_urbs dis 0 i (t\<lparr>reap_act := SUBMIT_FAILED, num_retired := num_urbs t - i\<rparr>))))"

text \<open>\<open>mem i\<close>: whether the \<open>i\<close>-th allocation succeeds, the array first.\<close>

definition submit_iso_transfer ::
  "(nat \<Rightarrow> bool) \<Rightarrow> (nat \<Rightarrow> int) \<Rightarrow> (nat \<Rightarrow> int) \<Rightarrow> usb_transfer \<Rightarrow> (int \<times> usb_transfer) option" where
  "submit_iso_transfer mem sub dis t =
     (if urbs t \<noteq> None then Some (ERR_BUSY, t)
      else let ps = map pd_length (tr_packets t); n = iso_count ps in
        if \<not> mem 0 then Some (ERROR_NO_MEM, t)
        else let t1 = t\<lparr>num_urbs := n, num_retired := 0, reap_act := NORMAL, iso_packet_offset := 0\<rparr> in
          if \<not> list_all mem [1..<n + 1] then do { t2 \<leftarrow> free_urbs t1; Some (ERROR_NO_MEM, t2) }
          else iso_submit_loop sub dis n 0 (t1\<lparr>urbs := Some (iso_urbs (tr_endpoint t) n ps 0)\<rparr>))"

section \<open>Dispatch\<close>

definition op_submit_transfer ::
  "u32 \<Rightarrow> (nat \<Rightarrow> bool) \<Rightarrow> (nat \<Rightarrow> int) \<Rightarrow> (nat \<Rightarrow> int) \<Rightarrow> usb_transfer \<Rightarrow> (int \<times> usb_transfer) option" where
  "op_submit_transfer caps mem sub dis t =
     (if tr_type t = TYPE_CONTROL then submit_control_transfer (mem 0) sub t
      else if tr_type t = TYPE_BULK \<or> tr_type t = TYPE_BULK_STREAM then submit_bulk_transfer caps (mem 0) sub dis t
      else if tr_type t = TYPE_INTR then submit_bulk_transfer caps (mem 0) sub dis t
      else if tr_type t = TYPE_ISO then submit_iso_transfer mem sub dis t
      else Some (ERROR_INVALID_PARAM, t))"

definition op_cancel_transfer :: "(nat \<Rightarrow> int) \<Rightarrow> usb_transfer \<Rightarrow> int \<times> usb_transfer" where
  "op_cancel_transfer dis t =
     (if tr_type t \<notin> {TYPE_CONTROL, TYPE_ISO, TYPE_BULK, TYPE_INTR, TYPE_BULK_STREAM} then (ERROR_INVALID_PARAM, t)
      else let t1 = (if (tr_type t = TYPE_BULK \<or> tr_type t = TYPE_BULK_STREAM) \<and> reap_act t = REAP_ERROR then t
                     else t\<lparr>reap_act := CANCELLED\<rparr>) in
        if urbs t1 = None then (ERROR_NOT_FOUND, t1)
        else discard_urbs dis 0 (num_urbs t1) t1)"

definition op_clear_transfer_priv :: "usb_transfer \<Rightarrow> usb_transfer option" where
  "op_clear_transfer_priv t =
     (if urbs t \<noteq> None \<and> tr_type t \<in> {TYPE_CONTROL, TYPE_ISO, TYPE_BULK, TYPE_INTR, TYPE_BULK_STREAM}
      then free_urbs t else Some t)"

section \<open>Completions\<close>

text \<open>What the kernel hands back with a block: the status, and the data of an IN block.  The
  kernel copies the data to the block's buffer when the block is reaped.\<close>

record completion =
  c_status :: int
  c_actual :: nat
  c_data :: bytes
  c_packets :: "(int \<times> u32) list"

text \<open>Where a completion leads: nowhere yet, or to a report.\<close>

datatype reaped = Waiting | Completed xfer_status | Cancelled

definition finish :: "usb_transfer \<Rightarrow> (reaped \<times> usb_transfer) option" where
  "finish t = do { t1 \<leftarrow> free_urbs t;
     Some (if reap_act t1 = CANCELLED then Cancelled else Completed (reap_status t1), t1) }"

text \<open>The end of \<open>handle_bulk_completion\<close> after a failed block.\<close>

definition cancel_remaining ::
  "(nat \<Rightarrow> int) \<Rightarrow> nat \<Rightarrow> usb_transfer \<Rightarrow> (reaped \<times> usb_transfer) option" where
  "cancel_remaining dis idx t =
     (let t1 = (if reap_act t = REAP_ERROR \<and> reap_status t = ST_COMPLETED then t\<lparr>reap_status := ST_ERROR\<rparr> else t) in
      if num_retired t1 = num_urbs t1 then finish t1
      else Some (Waiting, snd (discard_urbs dis (idx + 1) (num_urbs t1) t1)))"

text \<open>Data that arrives after the transfer went wrong is moved to the end of the data so far.\<close>

definition keep_surplus :: "urb \<Rightarrow> completion \<Rightarrow> usb_transfer \<Rightarrow> usb_transfer option" where
  "keep_surplus u c t =
     (if 0 < c_actual c then do {
        buf \<leftarrow> (if urb_offset u \<noteq> transferred t then do {
                  bs \<leftarrow> get_bytes (urb_offset u) (c_actual c) (tr_buffer t);
                  put_bytes (transferred t) bs (tr_buffer t) }
                else Some (tr_buffer t));
        Some (t\<lparr>tr_buffer := buf, transferred := transferred t + c_actual c\<rparr>) }
      else Some t)"

definition bulk_abnormal :: "urb \<Rightarrow> completion \<Rightarrow> usb_transfer \<Rightarrow> (reaped \<times> usb_transfer) option" where
  "bulk_abnormal u c t = do {
     t1 \<leftarrow> keep_surplus u c t;
     if num_retired t1 = num_urbs t1 then
       finish (if reap_act t1 \<noteq> COMPLETED_EARLY \<and> reap_status t1 = ST_COMPLETED
               then t1\<lparr>reap_status := ST_ERROR\<rparr> else t1)
     else Some (Waiting, t1) }"

definition bulk_normal ::
  "(nat \<Rightarrow> int) \<Rightarrow> nat \<Rightarrow> urb \<Rightarrow> completion \<Rightarrow> usb_transfer \<Rightarrow> (reaped \<times> usb_transfer) option" where
  "bulk_normal dis idx u c t =
     (let t1 = t\<lparr>transferred := transferred t + c_actual c\<rparr>; st = c_status c in
      if st = - ENODEV \<or> st = - ESHUTDOWN then
        cancel_remaining dis idx (t1\<lparr>reap_status := ST_NO_DEVICE\<rparr>)
      else if st = - EPIPE then
        cancel_remaining dis idx (if reap_status t1 = ST_COMPLETED then t1\<lparr>reap_status := ST_STALL\<rparr> else t1)
      else if st = - EOVERFLOW then
        finish (if reap_status t1 = ST_COMPLETED then t1\<lparr>reap_status := ST_OVERFLOW\<rparr> else t1)
      else if st = 0 \<or> st = - EREMOTEIO \<or> st = - ENOENT \<or> st = - ECONNRESET then
        (if idx = num_urbs t1 - 1 then finish t1
         else if c_actual c < urb_length u then cancel_remaining dis idx (t1\<lparr>reap_act := COMPLETED_EARLY\<rparr>)
         else Some (Waiting, t1))
      else cancel_remaining dis idx (t1\<lparr>reap_act := REAP_ERROR\<rparr>))"

definition handle_bulk_completion ::
  "(nat \<Rightarrow> int) \<Rightarrow> nat \<Rightarrow> urb \<Rightarrow> completion \<Rightarrow> usb_transfer \<Rightarrow> (reaped \<times> usb_transfer) option" where
  "handle_bulk_completion dis idx u c t =
     (let t = t\<lparr>num_retired := num_retired t + 1\<rparr> in
      if reap_act t \<noteq> NORMAL then bulk_abnormal u c t else bulk_normal dis idx u c t)"

definition packet_status :: "int \<Rightarrow> xfer_status" where
  "packet_status st =
     (if st = 0 \<or> st = - ENOENT \<or> st = - ECONNRESET then ST_COMPLETED
      else if st = - ENODEV \<or> st = - ESHUTDOWN then ST_NO_DEVICE
      else if st = - EPIPE then ST_STALL
      else if st = - EOVERFLOW then ST_OVERFLOW
      else ST_ERROR)"

text \<open>The loop that copies the results of a block's packets to the next descriptors of the
  transfer.\<close>

primrec copy_packets :: "(int \<times> u32) list \<Rightarrow> usb_transfer \<Rightarrow> usb_transfer option" where
  "copy_packets [] t = Some t"
| "copy_packets (r # rs) t =
     (let k = iso_packet_offset t in do {
        d \<leftarrow> get_at k (tr_packets t);
        copy_packets rs (t\<lparr>tr_packets := (tr_packets t)[k := d\<lparr>pd_status := packet_status (fst r), pd_actual := snd r\<rparr>],
                           iso_packet_offset := k + 1\<rparr>) })"

definition handle_iso_completion ::
  "nat \<Rightarrow> completion \<Rightarrow> usb_transfer \<Rightarrow> (reaped \<times> usb_transfer) option" where
  "handle_iso_completion idx c t = do {
     t \<leftarrow> copy_packets (c_packets c) t;
     let t = t\<lparr>num_retired := num_retired t + 1\<rparr>;
     if reap_act t \<noteq> NORMAL then
       (if num_retired t = num_urbs t then do {
          t1 \<leftarrow> free_urbs t;
          Some (if reap_act t1 = CANCELLED then Cancelled else Completed ST_ERROR, t1) }
        else Some (Waiting, t))
     else
       let st = c_status c;
           status = (if st = 0 \<or> st = - ENOENT \<or> st = - ECONNRESET then ST_COMPLETED
                     else if st = - ESHUTDOWN then ST_NO_DEVICE else ST_ERROR) in
       if idx + 1 = num_urbs t then do { t1 \<leftarrow> free_urbs t; Some (Completed status, t1) }
       else Some (Waiting, t) }"

definition handle_control_completion ::
  "completion \<Rightarrow> usb_transfer \<Rightarrow> (reaped \<times> usb_transfer) option" where
  "handle_control_completion c t =
     (let t = t\<lparr>transferred := transferred t + c_actual c\<rparr> in
      if reap_act t = CANCELLED then do { t1 \<leftarrow> free_urbs t; Some (Cancelled, t1) }
      else let st = c_status c;
               status = (if st = 0 then ST_COMPLETED
                         else if st = - ENOENT then ST_CANCELLED
                         else if st = - ENODEV \<or> st = - ESHUTDOWN then ST_NO_DEVICE
                         else if st = - EPIPE then ST_STALL
                         else if st = - EOVERFLOW then ST_OVERFLOW
                         else ST_ERROR) in
        do { t1 \<leftarrow> free_urbs t; Some (Completed status, t1) })"

text \<open>\<open>reap_for_handle\<close>: the kernel returns block \<open>idx\<close>, which it no longer holds then, and has
  filled its part of the buffer (the part after the setup packet for a control request; \<open>c_data\<close>
  is empty when the direction is out).  A block that is not flying, or whose memory is gone, is a
  fault.\<close>

definition reap_urb ::
  "(nat \<Rightarrow> int) \<Rightarrow> nat \<Rightarrow> completion \<Rightarrow> usb_transfer \<Rightarrow> (reaped \<times> usb_transfer) option" where
  "reap_urb dis idx c t =
     (if idx \<notin> flying t then None
      else case urbs t of None \<Rightarrow> None
      | Some us \<Rightarrow> do {
          u \<leftarrow> get_at idx us;
          buf \<leftarrow> (if tr_type t = TYPE_CONTROL then put_bytes 8 (c_data c) (tr_buffer t)
                 else if is_out t then Some (tr_buffer t)
                 else put_bytes (urb_offset u) (c_data c) (tr_buffer t));
          let t1 = t\<lparr>flying := flying t - {idx}, tr_buffer := buf\<rparr>;
          if tr_type t1 = TYPE_ISO then handle_iso_completion idx c t1
          else if tr_type t1 = TYPE_BULK \<or> tr_type t1 = TYPE_BULK_STREAM \<or> tr_type t1 = TYPE_INTR
          then handle_bulk_completion dis idx u c t1
          else if tr_type t1 = TYPE_CONTROL then handle_control_completion c t1
          else Some (Waiting, t1) })"

end
