(* ===== verification/UsbUrbProofs.thy ===== *)
theory UsbUrbProofs
  imports UsbUrb
begin

text \<open>
  Properties of the transfers of \<open>UsbUrb\<close>: the blocks of a bulk transfer tile its buffer, every
  sequence of completions and cancellations ends in exactly one report without touching freed
  memory, data is kept contiguous, and an isochronous transfer returns each result to its packet.
\<close>

section \<open>Cutting a bulk transfer\<close>

lemma bulk_split_pos: "0 < fst (bulk_split caps len)"
  by (simp add: bulk_split_def)

lemma bulk_count_bounds:
  assumes "0 < piece" "0 < len"
  shows "(bulk_count piece len - 1) * piece < len" "len \<le> bulk_count piece len * piece" "0 < bulk_count piece len"
proof -
  have e: "len = len div piece * piece + len mod piece" by simp
  have m: "len mod piece < piece" using assms(1) by simp
  have "(bulk_count piece len - 1) * piece < len \<and> len \<le> bulk_count piece len * piece \<and> 0 < bulk_count piece len"
  proof (cases "0 < len mod piece")
    case True
    then have c: "bulk_count piece len = len div piece + 1" using assms(2) by (simp add: bulk_count_def)
    have "len \<le> len div piece * piece + piece" using e m by linarith
    moreover have "len div piece * piece < len" using e True by linarith
    ultimately show ?thesis by (simp add: c add.commute)
  next
    case False
    then have c: "bulk_count piece len = len div piece" "len = len div piece * piece"
      using assms(2) e by (simp_all add: bulk_count_def)
    have d: "0 < len div piece" using c(2) assms(2) by (metis gr0I mult_0)
    then have "(len div piece - 1) * piece < len div piece * piece" using assms(1) by simp
    then show ?thesis using c d by simp
  qed
  then show "(bulk_count piece len - 1) * piece < len" "len \<le> bulk_count piece len * piece" "0 < bulk_count piece len"
    by simp_all
qed

lemma bulk_count_pos: "0 < piece \<Longrightarrow> 0 < bulk_count piece len"
  using bulk_count_bounds(3) [of piece len] by (cases "len = 0") (auto simp: bulk_count_def)

text \<open>The piece size and the number of blocks of a transfer.\<close>

definition piece_size :: "u32 \<Rightarrow> usb_transfer \<Rightarrow> nat" where
  "piece_size caps t = fst (bulk_split caps (tr_length t))"

definition block_count :: "u32 \<Rightarrow> usb_transfer \<Rightarrow> nat" where
  "block_count caps t = bulk_count (piece_size caps t) (tr_length t)"

lemma bulk_urb_offset: "urb_offset (bulk_urb caps t i) = i * piece_size caps t"
  by (simp add: bulk_urb_def piece_size_def Let_def split: prod.split)

lemma bulk_urb_length:
  "urb_length (bulk_urb caps t i) =
     (if i = block_count caps t - 1 \<and> tr_length t \<noteq> 0 \<and> 0 < tr_length t mod piece_size caps t
      then tr_length t mod piece_size caps t else if tr_length t = 0 then 0 else piece_size caps t)"
  by (simp add: bulk_urb_def piece_size_def block_count_def Let_def split: prod.split)

lemma bulk_urb_length_le: "urb_length (bulk_urb caps t i) \<le> piece_size caps t"
  by (simp add: bulk_urb_length less_imp_le piece_size_def bulk_split_pos)

lemma mod_minus_mult: "i * p \<le> l \<Longrightarrow> (l - i * p) mod p = l mod p" for l :: nat
  using mod_mult_self1 [of "l - i * p" i p] by simp

lemma piece_end:
  assumes "0 < p" "m * p < l" "l \<le> Suc m * p" "i \<le> m"
  shows "i * p + (if i = m \<and> 0 < l mod p then l mod p else p) = min (Suc i * p) l"
proof (cases "i = m")
  case True
  have r: "l mod p = (l - m * p) mod p" using assms(2) by (simp add: mod_minus_mult)
  show ?thesis
  proof (cases "l = Suc m * p")
    case False
    then have "l - m * p < p" using assms(2,3) by simp
    then have "l mod p = l - m * p" using r by simp
    then show ?thesis using True assms(2,3) by simp
  qed (simp add: True)
next
  case False
  then have "Suc i * p \<le> m * p" using assms(4) by (intro mult_le_mono1) simp
  then show ?thesis using False assms(2) by simp
qed

lemma bulk_urb_end:
  assumes "i < block_count caps t"
  shows "i * piece_size caps t + urb_length (bulk_urb caps t i) = min (Suc i * piece_size caps t) (tr_length t)"
proof (cases "tr_length t = 0")
  case True
  then have "i = 0" using assms by (simp add: block_count_def bulk_count_def)
  then show ?thesis using True by (simp add: bulk_urb_length)
next
  case False
  have p: "0 < piece_size caps t" by (simp add: piece_size_def bulk_split_pos)
  obtain m where m: "block_count caps t = Suc m" using assms by (cases "block_count caps t") auto
  have "m * piece_size caps t < tr_length t" "tr_length t \<le> Suc m * piece_size caps t"
    using bulk_count_bounds [OF p, of "tr_length t"] False m by (simp_all add: block_count_def)
  from piece_end [OF p this, of i] show ?thesis using assms False by (auto simp: bulk_urb_length m split: if_splits)
qed

text \<open>Where each block starts, and that a transfer is covered.\<close>

lemma block_start:
  assumes "i < block_count caps t"
  shows "i * piece_size caps t \<le> tr_length t"
proof (cases "tr_length t = 0")
  case True
  then show ?thesis using assms by (simp add: block_count_def bulk_count_def)
next
  case False
  have "i \<le> block_count caps t - 1" using assms by simp
  then have "i * piece_size caps t \<le> (block_count caps t - 1) * piece_size caps t" by (rule mult_le_mono1)
  also have "\<dots> < tr_length t"
    using bulk_count_bounds(1) [of "piece_size caps t" "tr_length t"] False
    by (simp add: block_count_def piece_size_def bulk_split_pos)
  finally show ?thesis by simp
qed

lemma blocks_cover:
  assumes "i \<le> block_count caps t"
  shows "sum_list (map (urb_length \<circ> bulk_urb caps t) [0..<i]) = min (i * piece_size caps t) (tr_length t)"
  using assms
proof (induction i)
  case (Suc i)
  then show ?case using bulk_urb_end [of i caps t] block_start [of i caps t] by (simp add: min_absorb1)
qed simp

text \<open>C24: The blocks of a bulk transfer tile its buffer: each starts where the one before it ends, and
  together they have its length, whatever way of splitting the kernel's capabilities select.\<close>

theorem bulk_blocks_tile:
  "map (urb_offset \<circ> bulk_urb caps t) [0..<block_count caps t]
     = map (\<lambda>i. sum_list (map (urb_length \<circ> bulk_urb caps t) [0..<i])) [0..<block_count caps t]
   \<and> sum_list (map (urb_length \<circ> bulk_urb caps t) [0..<block_count caps t]) = tr_length t"
proof
  show "map (urb_offset \<circ> bulk_urb caps t) [0..<block_count caps t]
     = map (\<lambda>i. sum_list (map (urb_length \<circ> bulk_urb caps t) [0..<i])) [0..<block_count caps t]"
    using blocks_cover [of _ caps t] block_start [of _ caps t]
    by (intro map_cong) (simp_all add: bulk_urb_offset min_absorb1)
  have "tr_length t \<le> block_count caps t * piece_size caps t"
    using bulk_count_bounds(2) [of "piece_size caps t" "tr_length t"]
    by (cases "tr_length t = 0") (simp_all add: block_count_def piece_size_def bulk_split_pos)
  then show "sum_list (map (urb_length \<circ> bulk_urb caps t) [0..<block_count caps t]) = tr_length t"
    using blocks_cover [of "block_count caps t" caps t] by simp
qed

section \<open>Submitting\<close>

text \<open>The blocks depend on the request only, and on the buffer through its length.\<close>

definition same_request :: "usb_transfer \<Rightarrow> usb_transfer \<Rightarrow> bool" where
  "same_request t t' \<longleftrightarrow> length (tr_buffer t) = length (tr_buffer t') \<and> tr_endpoint t = tr_endpoint t'
     \<and> tr_type t = tr_type t' \<and> tr_flags t = tr_flags t' \<and> tr_stream_id t = tr_stream_id t'"

lemma same_request_refl [simp]: "same_request t t"
  by (simp add: same_request_def)

lemma same_request_trans: "same_request t t1 \<Longrightarrow> same_request t1 t2 \<Longrightarrow> same_request t t2"
  by (simp add: same_request_def)

lemma same_request_facts:
  assumes "same_request t t'"
  shows "bulk_urb caps t' = bulk_urb caps t" "piece_size caps t' = piece_size caps t"
    "block_count caps t' = block_count caps t" "is_out t' = is_out t" "tr_length t' = tr_length t" "tr_type t' = tr_type t"
proof -
  have e: "tr_length t' = tr_length t" "is_out t' = is_out t" "tr_endpoint t' = tr_endpoint t"
    "tr_type t' = tr_type t" "tr_flags t' = tr_flags t" "tr_stream_id t' = tr_stream_id t"
    using assms by (simp_all add: same_request_def tr_length_def is_out_def)
  show "bulk_urb caps t' = bulk_urb caps t" by (rule ext) (simp only: bulk_urb_def e)
  show "piece_size caps t' = piece_size caps t" "block_count caps t' = block_count caps t"
    by (simp_all only: piece_size_def block_count_def e)
  show "is_out t' = is_out t" "tr_length t' = tr_length t" "tr_type t' = tr_type t" by (rule e)+
qed

lemma block_count_frame [simp]:
  "block_count caps (t\<lparr>urbs := x\<rparr>) = block_count caps t" "block_count caps (t\<lparr>flying := f\<rparr>) = block_count caps t"
  by (rule same_request_facts(3), simp add: same_request_def)+

text \<open>The blocks the kernel takes before it refuses one.\<close>

definition accepted :: "(nat \<Rightarrow> int) \<Rightarrow> nat \<Rightarrow> nat" where
  "accepted sub n = length (takeWhile (\<lambda>i. sub i = 0) [0..<n])"

text \<open>A transfer of which the kernel took the first \<open>m\<close> blocks and has handed back those in \<open>S\<close>;
  blocks from \<open>m\<close> on were never submitted and count as retired.\<close>

definition bulk_live :: "u32 \<Rightarrow> nat \<Rightarrow> nat set \<Rightarrow> usb_transfer \<Rightarrow> bool" where
  "bulk_live caps m S t \<longleftrightarrow>
     num_urbs t = block_count caps t \<and> S \<subseteq> {0..<m} \<and> m \<le> num_urbs t \<and> flying t = {0..<m} - S
     \<and> num_retired t = num_urbs t - m + card S
     \<and> (\<exists>us. urbs t = Some us \<and> length us = num_urbs t \<and> (\<forall>j < m. us ! j = bulk_urb caps t j))
     \<and> (reap_act t = NORMAL \<longrightarrow> m = num_urbs t)"

lemma bulk_live_frame:
  assumes "bulk_live caps m S t" "same_request t t'" "num_urbs t' = num_urbs t" "flying t' = flying t"
    "num_retired t' = num_retired t" "urbs t' = urbs t" "reap_act t' = NORMAL \<Longrightarrow> reap_act t = NORMAL"
  shows "bulk_live caps m S t'"
  using assms(1,3-7) unfolding bulk_live_def same_request_facts(1,3) [OF assms(2)] by auto

lemma bulk_submit_loop_run:
  assumes "num_urbs t = i + k" "urbs t = Some us" "length us = i + k" "\<forall>j < i. us ! j = bulk_urb caps t j"
    "flying t = {0..<i}" "num_retired t = 0" "reap_act t = NORMAL" "num_urbs t = block_count caps t"
    "a = accepted (\<lambda>j. sub (i + j)) k"
  shows "\<exists>r t'. bulk_submit_loop caps sub dis k i t = Some (r, t')
    \<and> tr_buffer t' = tr_buffer t \<and> transferred t' = transferred t \<and> reap_status t' = reap_status t \<and> same_request t t'
    \<and> (if i + a = 0 \<and> 0 < k then r = submit_error (sub 0) \<and> urbs t' = None \<and> flying t' = {}
       else r = 0 \<and> bulk_live caps (i + a) {} t'
         \<and> reap_act t' = (if a = k then NORMAL else if sub (i + a) = EREMOTEIO then COMPLETED_EARLY else SUBMIT_FAILED)
         \<and> (reap_act t' = SUBMIT_FAILED \<longrightarrow> flying t' \<subseteq> discarding t'))"
  using assms
proof (induction k arbitrary: i t us a)
  case 0
  then show ?case by (simp add: bulk_live_def accepted_def)
next
  case (Suc k)
  let ?us = "us[i := bulk_urb caps t i]"
  let ?t1 = "t\<lparr>urbs := Some ?us\<rparr>"
  show ?case
  proof (cases "sub i = 0")
    case True
    define b where "b = accepted (\<lambda>j. sub (Suc i + j)) k"
    have sh: "[0..<Suc k] = 0 # map Suc [0..<k]" by (simp add: upt_conv_Cons map_Suc_upt del: upt_Suc)
    have a: "a = Suc b" using Suc.prems(9) True
      by (simp add: b_def accepted_def sh takeWhile_map comp_def del: upt_Suc)
    let ?t2 = "?t1\<lparr>flying := insert i (flying t)\<rparr>"
    have sr: "same_request t ?t2" by (simp add: same_request_def)
    have "i < length us" using Suc.prems(3) by simp
    then have us: "\<forall>j < Suc i. ?us ! j = bulk_urb caps ?t2 j"
      using Suc.prems(4) by (auto simp: same_request_facts(1) [OF sr] nth_list_update less_Suc_eq)
    have "\<exists>r t'. bulk_submit_loop caps sub dis k (Suc i) ?t2 = Some (r, t')
      \<and> tr_buffer t' = tr_buffer ?t2 \<and> transferred t' = transferred ?t2 \<and> reap_status t' = reap_status ?t2 \<and> same_request ?t2 t'
      \<and> (if Suc i + b = 0 \<and> 0 < k then r = submit_error (sub 0) \<and> urbs t' = None \<and> flying t' = {}
       else r = 0 \<and> bulk_live caps (Suc i + b) {} t'
         \<and> reap_act t' = (if b = k then NORMAL else if sub (Suc i + b) = EREMOTEIO then COMPLETED_EARLY else SUBMIT_FAILED)
         \<and> (reap_act t' = SUBMIT_FAILED \<longrightarrow> flying t' \<subseteq> discarding t'))"
      by (rule Suc.IH [where us = ?us])
        (use Suc.prems us in \<open>auto simp: b_def same_request_facts(3) [OF sr]\<close>)
    then show ?thesis using True Suc.prems(2) a same_request_trans [OF sr] by auto
  next
    case False
    have a: "a = 0" using Suc.prems(9) False by (simp add: accepted_def upt_conv_Cons del: upt_Suc)
    show ?thesis
    proof (cases "i = 0")
      case True
      then show ?thesis using False Suc.prems a by (simp add: free_urbs_def Let_def same_request_def)
    next
      case i: False
      let ?t2 = "?t1\<lparr>reap_act := if sub i = EREMOTEIO then COMPLETED_EARLY else SUBMIT_FAILED,
          num_retired := num_retired t + (num_urbs t - i)\<rparr>"
      have sr: "same_request t ?t2" "same_request t (?t2\<lparr>discarding := d\<rparr>)" for d by (simp_all add: same_request_def)
      have "\<forall>j<i. ?us ! j = bulk_urb caps t j" using Suc.prems(4) by simp
      then have live: "bulk_live caps i {} ?t2"
        using Suc.prems unfolding bulk_live_def same_request_facts(1,3) [OF sr(1)] by simp
      have "bulk_live caps i {} (?t2\<lparr>discarding := d\<rparr>)" for d
        by (rule bulk_live_frame [OF live]) (simp_all add: same_request_def)
      then show ?thesis using False Suc.prems a i sr live
        by (cases "sub i = EREMOTEIO") (simp_all add: Let_def discard_urbs_def)
    qed
  qed
qed

section \<open>Completions\<close>

text \<open>What the kernel may hand back for a block: no more than the block holds, and all the data of
  an IN block.\<close>

definition completion_fits :: "usb_transfer \<Rightarrow> urb \<Rightarrow> completion \<Rightarrow> bool" where
  "completion_fits t u c \<longleftrightarrow> c_actual c \<le> urb_length u \<and> (\<not> is_out t \<longrightarrow> length (c_data c) = c_actual c)"

lemma finish_ok:
  "flying t = {} \<Longrightarrow>
     finish t = Some (if reap_act t = CANCELLED then Cancelled else Completed (reap_status t), t\<lparr>urbs := None\<rparr>)"
  by (simp add: finish_def free_urbs_def)

text \<open>Which blocks are reaped decides whether any is left.\<close>

lemma all_reaped: "S \<subseteq> {0..<m} \<Longrightarrow> card S = m \<longleftrightarrow> S = {0..<m}"
  using card_subset_eq [of "{0..<m}" S] by auto

lemma bulk_live_retired:
  assumes "bulk_live caps m S t"
  shows "num_retired t = num_urbs t \<longleftrightarrow> S = {0..<m}" "flying t = {} \<longleftrightarrow> S = {0..<m}"
proof -
  have f: "S \<subseteq> {0..<m}" "m \<le> num_urbs t" "num_retired t = num_urbs t - m + card S" "flying t = {0..<m} - S"
    using assms unfolding bulk_live_def by blast+
  have "card S \<le> m" using card_mono [OF _ f(1)] by simp
  then have "num_retired t = num_urbs t \<longleftrightarrow> card S = m" using f(2,3) by linarith
  then show "num_retired t = num_urbs t \<longleftrightarrow> S = {0..<m}" using all_reaped [OF f(1)] by simp
  show "flying t = {} \<longleftrightarrow> S = {0..<m}" using f(1,4) by blast
qed

text \<open>The state after one more block of \<open>t\<close> was reaped with \<open>n\<close> bytes, the blocks \<open>S\<close> in all: either
  it was the last one, and the transfer is reported, or the rest is still with the kernel.\<close>

definition after_reap :: "u32 \<Rightarrow> nat \<Rightarrow> nat set \<Rightarrow> nat \<Rightarrow> usb_transfer \<Rightarrow> reaped \<times> usb_transfer \<Rightarrow> bool" where
  "after_reap caps m S n t rt \<longleftrightarrow> (let (r, t') = rt in
     same_request t t' \<and> transferred t' = transferred t + n
     \<and> (if S \<noteq> {0..<m} then r = Waiting \<and> bulk_live caps m S t'
        else r \<noteq> Waiting \<and> urbs t' = None \<and> flying t' = {}))"

lemma after_reap_from:
  "same_request t t1 \<Longrightarrow> transferred t1 = transferred t \<Longrightarrow> after_reap caps m S n t1 rt \<Longrightarrow> after_reap caps m S n t rt"
  by (cases rt) (auto simp: after_reap_def same_request_def)

lemma finish_after:
  assumes "flying t1 = {}" "same_request t t1" "transferred t1 = transferred t + n" "S = {0..<m}"
  shows "\<exists>rt. finish t1 = Some rt \<and> after_reap caps m S n t rt"
  using assms by (simp add: finish_ok after_reap_def same_request_def)

lemma wait_after:
  assumes "S \<noteq> {0..<m}" "bulk_live caps m S t1" "same_request t t1" "transferred t1 = transferred t + n"
  shows "after_reap caps m S n t (Waiting, t1)"
  using assms by (simp add: after_reap_def)

lemma cancel_remaining_after:
  assumes "bulk_live caps m S t1" "same_request t t1" "transferred t1 = transferred t + n"
  shows "\<exists>rt. cancel_remaining dis i t1 = Some rt \<and> after_reap caps m S n t rt"
proof -
  define t2 where "t2 = (if reap_act t1 = REAP_ERROR \<and> reap_status t1 = ST_COMPLETED then t1\<lparr>reap_status := ST_ERROR\<rparr> else t1)"
  have sr: "same_request t1 t2" "transferred t2 = transferred t1" by (simp_all add: t2_def same_request_def)
  have live: "bulk_live caps m S t2"
    by (rule bulk_live_frame [OF assms(1) sr(1)]) (simp_all add: t2_def split: if_splits)
  show ?thesis
  proof (cases "num_retired t2 = num_urbs t2")
    case True
    then have "S = {0..<m}" "flying t2 = {}" using bulk_live_retired [OF live] by auto
    then have "\<exists>rt. finish t2 = Some rt \<and> after_reap caps m S n t rt"
      using sr assms(2,3) same_request_trans by (intro finish_after) auto
    then show ?thesis using True by (simp add: cancel_remaining_def t2_def [symmetric] Let_def)
  next
    case False
    then have lt: "S \<noteq> {0..<m}" using bulk_live_retired [OF live] by auto
    let ?t3 = "snd (discard_urbs dis (i + 1) (num_urbs t2) t2)"
    have sr3: "same_request t2 ?t3" by (simp add: discard_urbs_def same_request_def)
    have "bulk_live caps m S ?t3"
      by (rule bulk_live_frame [OF live sr3]) (simp_all add: discard_urbs_def)
    moreover have "transferred ?t3 = transferred t + n" using sr assms(3) by (simp add: discard_urbs_def)
    moreover have "same_request t ?t3" using same_request_trans [OF assms(2) same_request_trans [OF sr(1) sr3]] .
    ultimately have "after_reap caps m S n t (Waiting, ?t3)" using lt by (intro wait_after)
    then show ?thesis using False by (simp add: cancel_remaining_def t2_def [symmetric] Let_def)
  qed
qed

lemma keep_surplus_ok:
  assumes "urb_offset u + c_actual c \<le> length (tr_buffer t)" "transferred t + c_actual c \<le> length (tr_buffer t)"
  shows "\<exists>buf. keep_surplus u c t = Some (t\<lparr>tr_buffer := buf, transferred := transferred t + c_actual c\<rparr>)
    \<and> length buf = length (tr_buffer t)"
proof (cases "0 < c_actual c \<and> urb_offset u \<noteq> transferred t")
  case True
  obtain bs where bs: "get_bytes (urb_offset u) (c_actual c) (tr_buffer t) = Some bs" "length bs = c_actual c"
    using assms(1) by (simp add: get_bytes_def)
  have "transferred t + length bs \<le> length (tr_buffer t)" using assms bs(2) by simp
  then obtain buf where buf: "put_bytes (transferred t) bs (tr_buffer t) = Some buf"
    by (simp add: put_bytes_Some)
  have "keep_surplus u c t = Some (t\<lparr>tr_buffer := buf, transferred := transferred t + c_actual c\<rparr>)"
    using True bs buf by (simp add: keep_surplus_def)
  then show ?thesis using length_put_bytes [OF buf] by blast
next
  case False
  then have "keep_surplus u c t = Some (t\<lparr>tr_buffer := tr_buffer t, transferred := transferred t + c_actual c\<rparr>)"
    by (auto simp: keep_surplus_def)
  then show ?thesis by blast
qed

lemma bulk_urb_within:
  assumes "i < block_count caps t"
  shows "urb_offset (bulk_urb caps t i) + urb_length (bulk_urb caps t i) \<le> length (tr_buffer t)"
  using bulk_urb_end [OF assms] by (simp add: bulk_urb_offset tr_length_def)

text \<open>One completion of a bulk transfer, after the kernel has stored the data.  Block \<open>i\<close> is counted
  already.  The last block of a transfer in its normal state ends it, so it must be the last one
  reaped.\<close>

definition block_reaped :: "u32 \<Rightarrow> nat \<Rightarrow> nat set \<Rightarrow> nat \<Rightarrow> completion \<Rightarrow> usb_transfer \<Rightarrow> bool" where
  "block_reaped caps m S i c t \<longleftrightarrow> bulk_live caps m S t \<and> i \<in> S \<and> transferred t + c_actual c \<le> tr_length t
     \<and> c_actual c \<le> urb_length (bulk_urb caps t i) \<and> (c_status c = - EOVERFLOW \<longrightarrow> Suc i = num_urbs t)
     \<and> (m = num_urbs t \<longrightarrow> (Suc i = m \<longleftrightarrow> S = {0..<m}))"

lemma block_reaped_facts:
  assumes "block_reaped caps m S i c t"
  shows "i < m" "m \<le> num_urbs t" "num_urbs t = block_count caps t" "bulk_live caps m S t"
    "reap_act t = NORMAL \<longrightarrow> m = num_urbs t" "Suc i = num_urbs t \<Longrightarrow> S = {0..<m} \<and> flying t = {}"
    "urb_offset (bulk_urb caps t i) + c_actual c \<le> length (tr_buffer t)" "transferred t + c_actual c \<le> length (tr_buffer t)"
proof -
  show live: "bulk_live caps m S t" using assms by (simp add: block_reaped_def)
  show i: "i < m" and m: "m \<le> num_urbs t" and n: "num_urbs t = block_count caps t"
    and "reap_act t = NORMAL \<longrightarrow> m = num_urbs t"
    using assms unfolding block_reaped_def bulk_live_def by auto
  show "S = {0..<m} \<and> flying t = {}" if "Suc i = num_urbs t"
  proof -
    have "m = num_urbs t" using that i m by simp
    then have "S = {0..<m}" using assms that by (simp add: block_reaped_def)
    then show ?thesis using bulk_live_retired(2) [OF live] by simp
  qed
  show "urb_offset (bulk_urb caps t i) + c_actual c \<le> length (tr_buffer t)"
    using bulk_urb_within [of i caps t] i m n assms by (simp add: block_reaped_def)
  show "transferred t + c_actual c \<le> length (tr_buffer t)"
    using assms by (simp add: block_reaped_def tr_length_def)
qed

lemma bulk_abnormal_after:
  assumes "block_reaped caps m S i c t" "reap_act t \<noteq> NORMAL"
  shows "\<exists>rt. bulk_abnormal (bulk_urb caps t i) c t = Some rt \<and> after_reap caps m S (c_actual c) t rt"
proof -
  note f = block_reaped_facts [OF assms(1)]
  obtain buf where t2: "keep_surplus (bulk_urb caps t i) c t = Some (t\<lparr>tr_buffer := buf, transferred := transferred t + c_actual c\<rparr>)"
    "length buf = length (tr_buffer t)" using keep_surplus_ok [OF f(7,8)] by blast
  define t2 where "t2 = t\<lparr>tr_buffer := buf, transferred := transferred t + c_actual c\<rparr>"
  have sr: "same_request t t2" using t2(2) by (simp add: t2_def same_request_def)
  define t3 where "t3 = (if reap_act t2 \<noteq> COMPLETED_EARLY \<and> reap_status t2 = ST_COMPLETED then t2\<lparr>reap_status := ST_ERROR\<rparr> else t2)"
  have sr3: "same_request t t3" using sr by (simp add: t3_def same_request_def)
  have run: "bulk_abnormal (bulk_urb caps t i) c t = (if num_retired t2 = num_urbs t2 then finish t3 else Some (Waiting, t2))"
    using t2(1) by (simp add: bulk_abnormal_def t3_def t2_def)
  have ret: "num_retired t2 = num_urbs t2 \<longleftrightarrow> S = {0..<m}"
    using bulk_live_retired(1) [OF f(4)] by (simp add: t2_def)
  show ?thesis
  proof (cases "S = {0..<m}")
    case True
    have "\<exists>rt. finish t3 = Some rt \<and> after_reap caps m S (c_actual c) t rt"
      by (rule finish_after [OF _ sr3]) (use bulk_live_retired(2) [OF f(4)] True in \<open>simp_all add: t3_def t2_def\<close>)
    then show ?thesis using True ret by (simp add: run)
  next
    case False
    have "bulk_live caps m S t2" by (rule bulk_live_frame [OF f(4) sr]) (simp_all add: t2_def)
    then have "after_reap caps m S (c_actual c) t (Waiting, t2)"
      using False sr by (intro wait_after) (auto simp: t2_def)
    then show ?thesis using False ret by (simp add: run)
  qed
qed

text \<open>Every state \<open>bulk_normal\<close> goes on with differs from \<open>t\<close> in three fields only.\<close>

definition with_outcome :: "usb_transfer \<Rightarrow> nat \<Rightarrow> xfer_status \<Rightarrow> reap_action \<Rightarrow> usb_transfer" where
  "with_outcome t n s a = t\<lparr>transferred := transferred t + n, reap_status := s, reap_act := a\<rparr>"

lemma with_outcome_eqs:
  "t\<lparr>transferred := transferred t + n\<rparr> = with_outcome t n (reap_status t) (reap_act t)"
  "(with_outcome t n s a)\<lparr>reap_status := s'\<rparr> = with_outcome t n s' a"
  "(with_outcome t n s a)\<lparr>reap_act := a'\<rparr> = with_outcome t n s a'"
  "reap_status (with_outcome t n s a) = s" "num_urbs (with_outcome t n s a) = num_urbs t"
  by (cases t; simp add: with_outcome_def)+

lemma with_outcome_facts:
  assumes "block_reaped caps m S i c t" "reap_act t = NORMAL"
  shows "same_request t (with_outcome t n s a)" "bulk_live caps m S (with_outcome t n s a)"
    "transferred (with_outcome t n s a) = transferred t + n" "flying (with_outcome t n s a) = flying t"
proof -
  show sr: "same_request t (with_outcome t n s a)" by (simp add: with_outcome_def same_request_def)
  show "bulk_live caps m S (with_outcome t n s a)"
    by (rule bulk_live_frame [OF _ sr]) (use assms in \<open>simp_all add: block_reaped_def with_outcome_def\<close>)
qed (simp_all add: with_outcome_def)

lemma bulk_normal_after:
  assumes "block_reaped caps m S i c t" "reap_act t = NORMAL"
  shows "\<exists>rt. bulk_normal dis i (bulk_urb caps t i) c t = Some rt \<and> after_reap caps m S (c_actual c) t rt"
proof -
  note f = block_reaped_facts [OF assms(1)] and w = with_outcome_facts [OF assms]
  let ?ot = "with_outcome t (c_actual c)"
  have can: "\<exists>rt. cancel_remaining dis i (?ot s a) = Some rt \<and> after_reap caps m S (c_actual c) t rt" for s a
    by (rule cancel_remaining_after [OF w(2,1,3)])
  have fin: "\<exists>rt. finish (?ot s a) = Some rt \<and> after_reap caps m S (c_actual c) t rt" if "Suc i = num_urbs t" for s a
    by (rule finish_after [OF _ w(1,3)]) (use w(4) f(6) [OF that] in auto)
  have last: "i < m" "m = num_urbs t" "S \<subseteq> {0..<m}" using f(1,5) assms(2) f(4) by (auto simp: bulk_live_def)
  have wait: "\<exists>rt. Some (Waiting, ?ot s a) = Some rt \<and> after_reap caps m S (c_actual c) t rt" if "S \<noteq> {0..<m}" for s a
    using wait_after [OF that w(2,1,3)] by blast
  note d = bulk_normal_def Let_def with_outcome_eqs
  consider "c_status c = - ENODEV \<or> c_status c = - ESHUTDOWN" | "c_status c = - EPIPE" | "c_status c = - EOVERFLOW"
    | "c_status c = 0 \<or> c_status c = - EREMOTEIO \<or> c_status c = - ENOENT \<or> c_status c = - ECONNRESET"
    | "c_status c \<notin> {- ENODEV, - ESHUTDOWN, - EPIPE, - EOVERFLOW, 0, - EREMOTEIO, - ENOENT, - ECONNRESET}"
    by blast
  then show ?thesis
  proof cases
    case 1
    then show ?thesis using can by (auto simp: d)
  next
    case 2
    then show ?thesis using can by (simp add: d)
  next
    case 3
    then have "Suc i = num_urbs t" using assms(1) by (simp add: block_reaped_def)
    then show ?thesis using 3 fin by (simp add: d)
  next
    case 4
    have le: "i = num_urbs t - 1 \<longleftrightarrow> Suc i = num_urbs t" using last by auto
    have "bulk_normal dis i (bulk_urb caps t i) c t =
        (if Suc i = num_urbs t then finish (?ot (reap_status t) (reap_act t))
         else if c_actual c < urb_length (bulk_urb caps t i) then cancel_remaining dis i (?ot (reap_status t) COMPLETED_EARLY)
         else Some (Waiting, ?ot (reap_status t) (reap_act t)))"
      using 4 le by (auto simp: d)
    moreover have "S \<noteq> {0..<m}" if "Suc i \<noteq> num_urbs t"
      using assms(1) that last(2) unfolding block_reaped_def by simp
    ultimately show ?thesis using can fin wait by simp
  next
    case 5
    then show ?thesis using can by (simp add: d)
  qed
qed

definition bulk_type :: "usb_transfer \<Rightarrow> bool" where
  "bulk_type t \<longleftrightarrow> tr_type t \<in> {TYPE_BULK, TYPE_BULK_STREAM, TYPE_INTR}"

lemma handle_bulk_after:
  assumes "block_reaped caps m S i c (t\<lparr>num_retired := num_retired t + 1\<rparr>)"
  shows "\<exists>rt. handle_bulk_completion dis i (bulk_urb caps t i) c t = Some rt \<and> after_reap caps m S (c_actual c) t rt"
proof -
  define t1 where "t1 = t\<lparr>num_retired := num_retired t + 1\<rparr>"
  have sr: "same_request t t1" "transferred t1 = transferred t" by (simp_all add: t1_def same_request_def)
  have "\<exists>rt. handle_bulk_completion dis i (bulk_urb caps t i) c t = Some rt \<and> after_reap caps m S (c_actual c) t1 rt"
    using bulk_normal_after [OF assms, folded t1_def] bulk_abnormal_after [OF assms, folded t1_def]
    unfolding handle_bulk_completion_def Let_def t1_def [symmetric] same_request_facts(1) [OF sr(1)] by (cases "reap_act t1 = NORMAL") auto
  then show ?thesis using after_reap_from [OF sr] by blast
qed

lemma drop_first: "{i..<m} - {i} = {Suc i..<m}" for i m :: nat
  by (rule set_eqI) (simp only: Diff_iff atLeastLessThan_iff singleton_iff, linarith)

text \<open>No set of blocks holds more than the transfer asked for.\<close>

definition room :: "u32 \<Rightarrow> usb_transfer \<Rightarrow> nat set \<Rightarrow> nat" where
  "room caps t S = (\<Sum>j \<in> S. urb_length (bulk_urb caps t j))"

lemma room_le:
  assumes "S \<subseteq> {0..<m}" "m \<le> block_count caps t"
  shows "room caps t S \<le> tr_length t"
proof -
  have "room caps t S \<le> (\<Sum>j \<in> {0..<m}. urb_length (bulk_urb caps t j))"
    unfolding room_def by (rule sum_mono2) (use assms(1) in auto)
  also have "\<dots> = sum_list (map (urb_length \<circ> bulk_urb caps t) [0..<m])"
    by (simp add: interv_sum_list_conv_sum_set_nat)
  finally show ?thesis using blocks_cover [OF assms(2)] by simp
qed

lemma room_insert: "finite S \<Longrightarrow> i \<notin> S \<Longrightarrow> room caps t (insert i S) = room caps t S + urb_length (bulk_urb caps t i)"
  by (simp add: room_def)

lemma room_upto: "room caps t {0..<i} \<le> i * piece_size caps t"
  using sum_bounded_above [of "{0..<i}" "\<lambda>j. urb_length (bulk_urb caps t j)" "piece_size caps t"]
  by (simp add: room_def bulk_urb_length_le)

lemma room_same: "same_request t t' \<Longrightarrow> room caps t' S = room caps t S"
  by (simp add: room_def same_request_facts(1))

lemma reap_bulk_step:
  assumes "bulk_live caps m S t" "i < m" "i \<notin> S" "bulk_type t" "transferred t \<le> room caps t S"
    "completion_fits t (bulk_urb caps t i) c" "c_status c = - EOVERFLOW \<longrightarrow> Suc i = num_urbs t"
    "m = num_urbs t \<longrightarrow> (Suc i = m \<longleftrightarrow> insert i S = {0..<m})"
  shows "\<exists>rt. reap_urb dis i c t = Some rt \<and> after_reap caps m (insert i S) (c_actual c) t rt"
proof -
  let ?u = "bulk_urb caps t i"
  obtain us where us: "urbs t = Some us" "length us = num_urbs t" "us ! i = ?u" "\<forall>j<m. us ! j = bulk_urb caps t j"
    using assms(1,2) by (auto simp: bulk_live_def)
  have norm: "reap_act t = NORMAL \<longrightarrow> m = num_urbs t" using assms(1) unfolding bulk_live_def by blast
  have n: "i < num_urbs t" "num_urbs t = block_count caps t" "flying t = {0..<m} - S" "num_retired t = num_urbs t - m + card S"
    "m \<le> num_urbs t" "S \<subseteq> {0..<m}" using assms(1,2) by (auto simp: bulk_live_def)
  have fin: "finite S" using n(6) finite_subset by blast
  have "i < block_count caps t" using n(1,2) by simp
  then have fits: "urb_offset ?u + c_actual c \<le> length (tr_buffer t)"
    using bulk_urb_within [of i caps t] assms(6) by (simp add: completion_fits_def)
  have sub: "insert i S \<subseteq> {0..<m}" using n(6) assms(2) by simp
  have "transferred t + c_actual c \<le> room caps t (insert i S)"
    using assms(5,6) room_insert [OF fin assms(3), of caps t] by (simp add: completion_fits_def)
  also have "\<dots> \<le> tr_length t" using room_le [OF sub] n(2,5) by simp
  finally have space: "transferred t + c_actual c \<le> tr_length t" .
  obtain buf where buf: "(if is_out t then Some (tr_buffer t) else put_bytes (urb_offset ?u) (c_data c) (tr_buffer t)) = Some buf"
    "length buf = length (tr_buffer t)"
  proof (cases "is_out t")
    case False
    then have "urb_offset ?u + length (c_data c) \<le> length (tr_buffer t)" using fits assms(6) by (simp add: completion_fits_def)
    then obtain b where b: "put_bytes (urb_offset ?u) (c_data c) (tr_buffer t) = Some b" by (simp add: put_bytes_Some)
    then show ?thesis using False length_put_bytes [OF b] that by simp
  qed (use that in simp)
  define t1 where "t1 = t\<lparr>flying := flying t - {i}, tr_buffer := buf\<rparr>"
  define t2 where "t2 = t1\<lparr>num_retired := num_retired t1 + 1\<rparr>"
  have sr: "same_request t t1" "same_request t t2" using buf(2) by (simp_all add: t1_def t2_def same_request_def)
  have run: "reap_urb dis i c t = handle_bulk_completion dis i (bulk_urb caps t1 i) c t1"
  proof -
    have ty: "tr_type t \<noteq> TYPE_CONTROL" "tr_type t \<noteq> TYPE_ISO"
      "tr_type t = TYPE_BULK \<or> tr_type t = TYPE_BULK_STREAM \<or> tr_type t = TYPE_INTR"
      using assms(4) by (auto simp: bulk_type_def)
    have at: "i \<in> flying t" "get_at i us = Some ?u" using n(1,3) us(2,3) assms(2,3) by (auto simp: get_at_def)
    have "reap_urb dis i c t = (if is_out t then Some (tr_buffer t) else put_bytes (urb_offset ?u) (c_data c) (tr_buffer t)) \<bind>
        (\<lambda>buf. handle_bulk_completion dis i ?u c (t\<lparr>flying := flying t - {i}, tr_buffer := buf\<rparr>))"
      using ty by (simp add: reap_urb_def at us(1))
    then show ?thesis unfolding same_request_facts(1) [OF sr(1)] buf(1) unfolding t1_def by simp
  qed
  have keep: "flying t2 = {0..<m} - insert i S" "num_urbs t2 = num_urbs t"
    "num_retired t2 = num_urbs t - m + card (insert i S)" "urbs t2 = Some us" "reap_act t2 = reap_act t"
    "transferred t2 = transferred t"
    using n(3,4) us(1) fin assms(3) by (auto simp: t1_def t2_def)
  have "bulk_live caps m (insert i S) t2"
    unfolding bulk_live_def same_request_facts(1,3) [OF sr(2)] keep
    using n(2,5) us(2,4) norm sub by simp
  then have "block_reaped caps m (insert i S) i c t2"
    using assms(6-8) space unfolding block_reaped_def same_request_facts(1,2,5) [OF sr(2)] keep
    by (simp add: completion_fits_def)
  then have "\<exists>rt. handle_bulk_completion dis i (bulk_urb caps t1 i) c t1 = Some rt \<and> after_reap caps m (insert i S) (c_actual c) t1 rt"
    unfolding t2_def by (rule handle_bulk_after)
  then show ?thesis unfolding run using after_reap_from [OF sr(1)] by (auto simp: t1_def)
qed

section \<open>Whole transfers\<close>

text \<open>What happens to a transfer after its submission: the kernel hands back block \<open>i\<close>, or the
  application cancels.\<close>

datatype urb_event = Reap_block nat completion | Cancel_all

fun kernel_session :: "(nat \<Rightarrow> int) \<Rightarrow> urb_event list \<Rightarrow> usb_transfer \<Rightarrow> (reaped list \<times> usb_transfer) option" where
  "kernel_session dis [] t = Some ([], t)"
| "kernel_session dis (Cancel_all # es) t = kernel_session dis es (snd (op_cancel_transfer dis t))"
| "kernel_session dis (Reap_block i c # es) t = do {
     (r, t1) \<leftarrow> reap_urb dis i c t;
     (rs, t2) \<leftarrow> kernel_session dis es t1;
     Some (r # rs, t2) }"

fun block_reaps :: "urb_event list \<Rightarrow> (nat \<times> completion) list" where
  "block_reaps [] = []"
| "block_reaps (Cancel_all # es) = block_reaps es"
| "block_reaps (Reap_block i c # es) = (i, c) # block_reaps es"

text \<open>The same with the blocks handed back in the order of their submission, from block \<open>i\<close> on.\<close>

datatype usb_event = Reap completion | Cancel

fun in_order :: "nat \<Rightarrow> usb_event list \<Rightarrow> urb_event list" where
  "in_order i [] = []"
| "in_order i (Cancel # es) = Cancel_all # in_order i es"
| "in_order i (Reap c # es) = Reap_block i c # in_order (Suc i) es"

definition session :: "(nat \<Rightarrow> int) \<Rightarrow> nat \<Rightarrow> usb_event list \<Rightarrow> usb_transfer \<Rightarrow> (reaped list \<times> usb_transfer) option" where
  "session dis i es t = kernel_session dis (in_order i es) t"

fun reaps :: "usb_event list \<Rightarrow> completion list" where
  "reaps [] = []"
| "reaps (Cancel # es) = reaps es"
| "reaps (Reap c # es) = c # reaps es"

lemma in_order_reaps: "block_reaps (in_order i es) = enumerate i (reaps es)"
  by (induction i es rule: in_order.induct) simp_all

lemma cancel_keeps:
  "same_request t (snd (op_cancel_transfer dis t))"
  "transferred (snd (op_cancel_transfer dis t)) = transferred t" "urbs (snd (op_cancel_transfer dis t)) = urbs t"
  "flying (snd (op_cancel_transfer dis t)) = flying t" "num_urbs (snd (op_cancel_transfer dis t)) = num_urbs t"
  "num_retired (snd (op_cancel_transfer dis t)) = num_retired t" "tr_buffer (snd (op_cancel_transfer dis t)) = tr_buffer t"
  "reap_act (snd (op_cancel_transfer dis t)) \<in> {reap_act t, CANCELLED}"
  by (simp_all add: op_cancel_transfer_def Let_def discard_urbs_def same_request_def)

text \<open>What the handlers of all transfer types owe to the event loop.  \<open>inv m rs t\<close> holds while the
  blocks and completions \<open>rs\<close> of a transfer with \<open>m\<close> submitted blocks are reaped, \<open>over rs t\<close> after
  its report, and \<open>ok m t rs (i, c)\<close> says that the kernel may hand back block \<open>i\<close> with \<open>c\<close> after
  \<open>rs\<close>.\<close>

locale block_protocol =
  fixes dis :: "nat \<Rightarrow> int"
    and inv :: "nat \<Rightarrow> (nat \<times> completion) list \<Rightarrow> usb_transfer \<Rightarrow> bool"
    and over :: "(nat \<times> completion) list \<Rightarrow> usb_transfer \<Rightarrow> bool"
    and ok :: "nat \<Rightarrow> usb_transfer \<Rightarrow> (nat \<times> completion) list \<Rightarrow> nat \<times> completion \<Rightarrow> bool"
  assumes block_step: "inv m rs t \<Longrightarrow> length rs < m \<Longrightarrow> ok m t rs (i, c) \<Longrightarrow>
      \<exists>r t'. reap_urb dis i c t = Some (r, t')
        \<and> (if Suc (length rs) < m then r = Waiting \<and> inv m (rs @ [(i, c)]) t' \<and> ok m t' = ok m t
           else r \<noteq> Waiting \<and> over (rs @ [(i, c)]) t')"
    and block_cancel_inv: "inv m rs t \<Longrightarrow> inv m rs (snd (op_cancel_transfer dis t))"
    and block_cancel_ok: "inv m rs t \<Longrightarrow> ok m (snd (op_cancel_transfer dis t)) = ok m t"
    and block_cancel_over: "over rs t \<Longrightarrow> over rs (snd (op_cancel_transfer dis t))"
begin

lemma kernel_session_done:
  "block_reaps es = [] \<Longrightarrow> over rs t \<Longrightarrow> \<exists>t'. kernel_session dis es t = Some ([], t') \<and> over rs t'"
proof (induction es arbitrary: t)
  case (Cons e es)
  then obtain "e = Cancel_all" by (cases e) auto
  then show ?case using Cons.IH [of "snd (op_cancel_transfer dis t)"] Cons.prems block_cancel_over by simp
qed simp

lemma kernel_session_run:
  assumes "inv m rs t" "length rs < m" "length rs + length (block_reaps es) = m"
    "\<And>k. k < length (block_reaps es) \<Longrightarrow> ok m t (rs @ take k (block_reaps es)) (block_reaps es ! k)"
  shows "\<exists>r t'. kernel_session dis es t = Some (replicate (m - Suc (length rs)) Waiting @ [r], t')
    \<and> r \<noteq> Waiting \<and> over (rs @ block_reaps es) t'"
  using assms
proof (induction es arbitrary: rs t)
  case Nil
  then show ?case by simp
next
  case (Cons e es)
  show ?case
  proof (cases e)
    case Cancel_all
    have "\<exists>r t'. kernel_session dis es (snd (op_cancel_transfer dis t)) = Some (replicate (m - Suc (length rs)) Waiting @ [r], t')
        \<and> r \<noteq> Waiting \<and> over (rs @ block_reaps es) t'"
      by (rule Cons.IH) (use Cons.prems Cancel_all block_cancel_inv block_cancel_ok [OF Cons.prems(1)] in auto)
    then show ?thesis using Cancel_all by simp
  next
    case (Reap_block i c)
    have "ok m t rs (i, c)" using Cons.prems(4) [of 0] Reap_block by simp
    then obtain r t1 where st: "reap_urb dis i c t = Some (r, t1)"
      "if Suc (length rs) < m then r = Waiting \<and> inv m (rs @ [(i, c)]) t1 \<and> ok m t1 = ok m t else r \<noteq> Waiting \<and> over (rs @ [(i, c)]) t1"
      using block_step [OF Cons.prems(1,2)] by blast
    show ?thesis
    proof (cases "Suc (length rs) < m")
      case True
      have "\<exists>r t'. kernel_session dis es t1 = Some (replicate (m - Suc (length (rs @ [(i, c)]))) Waiting @ [r], t')
          \<and> r \<noteq> Waiting \<and> over ((rs @ [(i, c)]) @ block_reaps es) t'"
      proof (rule Cons.IH)
        show "ok m t1 ((rs @ [(i, c)]) @ take k (block_reaps es)) (block_reaps es ! k)" if "k < length (block_reaps es)" for k
          using Cons.prems(4) [of "Suc k"] that st(2) True Reap_block by simp
      qed (use st(2) True Cons.prems(3) Reap_block in simp_all)
      then obtain r' t' where s: "kernel_session dis es t1 = Some (replicate (m - Suc (Suc (length rs))) Waiting @ [r'], t')"
        "r' \<noteq> Waiting" "over (rs @ (i, c) # block_reaps es) t'" by auto
      have "m - Suc (length rs) = Suc (m - Suc (Suc (length rs)))" using True by simp
      then show ?thesis using s st True Reap_block by simp
    next
      case False
      have "Suc (length rs + length (block_reaps es)) = m" using Cons.prems(3) Reap_block by simp
      then have "length (block_reaps es) = 0" using False by linarith
      then have "block_reaps es = []" by simp
      then show ?thesis using kernel_session_done [of es "rs @ [(i, c)]" t1] st False Cons.prems(2) Reap_block by auto
    qed
  qed
qed

end

text \<open>The contract of a handler that relies on the order of submission: the \<open>k\<close>-th completion is
  that of block \<open>k\<close>.  It is the contract above for the one order of blocks.\<close>

locale reap_protocol =
  fixes dis :: "nat \<Rightarrow> int"
    and inv :: "nat \<Rightarrow> completion list \<Rightarrow> usb_transfer \<Rightarrow> bool"
    and over :: "completion list \<Rightarrow> usb_transfer \<Rightarrow> bool"
    and ok :: "nat \<Rightarrow> usb_transfer \<Rightarrow> nat \<Rightarrow> completion \<Rightarrow> bool"
  assumes step: "inv m cs t \<Longrightarrow> length cs < m \<Longrightarrow> ok m t (length cs) c \<Longrightarrow>
      \<exists>r t'. reap_urb dis (length cs) c t = Some (r, t')
        \<and> (if Suc (length cs) < m then r = Waiting \<and> inv m (cs @ [c]) t' \<and> ok m t' = ok m t
           else r \<noteq> Waiting \<and> over (cs @ [c]) t')"
    and cancel_inv: "inv m cs t \<Longrightarrow> inv m cs (snd (op_cancel_transfer dis t))"
    and cancel_ok: "inv m cs t \<Longrightarrow> ok m (snd (op_cancel_transfer dis t)) = ok m t"
    and cancel_over: "over cs t \<Longrightarrow> over cs (snd (op_cancel_transfer dis t))"
begin

sublocale blocks: block_protocol dis "\<lambda>m rs. inv m (map snd rs)" "\<lambda>rs. over (map snd rs)"
  "\<lambda>m t rs x. fst x = length rs \<and> ok m t (length rs) (snd x)"
proof
  fix m t i c and rs :: "(nat \<times> completion) list"
  assume a: "inv m (map snd rs) t" "length rs < m" "fst (i, c) = length rs \<and> ok m t (length rs) (snd (i, c))"
  then have i: "i = length rs" by simp
  have "\<exists>r t'. reap_urb dis (length (map snd rs)) c t = Some (r, t')
      \<and> (if Suc (length (map snd rs)) < m then r = Waiting \<and> inv m (map snd rs @ [c]) t' \<and> ok m t' = ok m t
         else r \<noteq> Waiting \<and> over (map snd rs @ [c]) t')"
    by (rule step) (use a in simp_all)
  then show "\<exists>r t'. reap_urb dis i c t = Some (r, t')
      \<and> (if Suc (length rs) < m
         then r = Waiting \<and> inv m (map snd (rs @ [(i, c)])) t'
           \<and> (\<lambda>rs x. fst x = length rs \<and> ok m t' (length rs) (snd x)) = (\<lambda>rs x. fst x = length rs \<and> ok m t (length rs) (snd x))
         else r \<noteq> Waiting \<and> over (map snd (rs @ [(i, c)])) t')"
    unfolding i by (auto split: if_splits)
qed (simp_all add: cancel_inv cancel_ok cancel_over)

lemma session_run:
  assumes "inv m cs t" "length cs < m" "length cs + length (reaps es) = m"
    "\<And>k. k < length (reaps es) \<Longrightarrow> ok m t (length cs + k) (reaps es ! k)"
  shows "\<exists>r t'. session dis (length cs) es t = Some (replicate (m - Suc (length cs)) Waiting @ [r], t')
    \<and> r \<noteq> Waiting \<and> over (cs @ reaps es) t'"
proof -
  let ?rs = "enumerate 0 cs" and ?es = "in_order (length cs) es"
  have "\<exists>r t'. kernel_session dis ?es t = Some (replicate (m - Suc (length ?rs)) Waiting @ [r], t')
      \<and> r \<noteq> Waiting \<and> over (map snd (?rs @ block_reaps ?es)) t'"
    by (rule blocks.kernel_session_run)
      (use assms in \<open>simp_all add: in_order_reaps nth_enumerate_eq\<close>)
  then show ?thesis by (simp add: session_def in_order_reaps)
qed

end

text \<open>Bulk transfers keep the protocol in every order of their blocks, except that the last block of
  a transfer submitted as a whole must be the last one handed back.\<close>

definition any_inv :: "u32 \<Rightarrow> nat \<Rightarrow> (nat \<times> completion) list \<Rightarrow> usb_transfer \<Rightarrow> bool" where
  "any_inv caps m rs t \<longleftrightarrow> bulk_live caps m (set (map fst rs)) t \<and> distinct (map fst rs) \<and> bulk_type t
     \<and> transferred t = sum_list (map (c_actual \<circ> snd) rs) \<and> transferred t \<le> room caps t (set (map fst rs))"

definition any_over :: "(nat \<times> completion) list \<Rightarrow> usb_transfer \<Rightarrow> bool" where
  "any_over rs t \<longleftrightarrow> urbs t = None \<and> flying t = {} \<and> transferred t = sum_list (map (c_actual \<circ> snd) rs)"

definition bulk_ok :: "u32 \<Rightarrow> nat \<Rightarrow> usb_transfer \<Rightarrow> nat \<Rightarrow> completion \<Rightarrow> bool" where
  "bulk_ok caps m t i c \<longleftrightarrow> completion_fits t (bulk_urb caps t i) c
     \<and> (c_status c = - EOVERFLOW \<longrightarrow> Suc i = block_count caps t)"

definition any_ok :: "u32 \<Rightarrow> nat \<Rightarrow> usb_transfer \<Rightarrow> (nat \<times> completion) list \<Rightarrow> nat \<times> completion \<Rightarrow> bool" where
  "any_ok caps m t rs x \<longleftrightarrow> fst x < m \<and> fst x \<notin> set (map fst rs) \<and> bulk_ok caps m t (fst x) (snd x)
     \<and> (m = block_count caps t \<longrightarrow> (Suc (fst x) = m \<longleftrightarrow> Suc (length rs) = m))"

lemma bulk_ok_same: "same_request t t' \<Longrightarrow> bulk_ok caps m t' = bulk_ok caps m t"
  by (rule ext)+ (simp only: bulk_ok_def completion_fits_def same_request_facts)

lemma any_ok_same: "same_request t t' \<Longrightarrow> any_ok caps m t' = any_ok caps m t"
  by (rule ext)+ (simp add: any_ok_def bulk_ok_same same_request_facts(3))

lemma bulk_type_same: "same_request t t' \<Longrightarrow> bulk_type t' = bulk_type t"
  by (simp only: bulk_type_def same_request_facts)

lemma any_inv_cancel: "any_inv caps m rs t \<Longrightarrow> any_inv caps m rs (snd (op_cancel_transfer dis t))"
  using bulk_live_frame [of caps m "set (map fst rs)" t, OF _ cancel_keeps(1) [of t dis]] cancel_keeps(2-8) [of dis t]
    bulk_type_same [OF cancel_keeps(1) [of t dis]] room_same [OF cancel_keeps(1) [of t dis]]
  unfolding any_inv_def by auto

lemma any_inv_step:
  assumes "any_inv caps m rs t" "length rs < m" "any_ok caps m t rs (i, c)"
  shows "\<exists>r t'. reap_urb dis i c t = Some (r, t') \<and> same_request t t'
    \<and> (if Suc (length rs) < m then r = Waiting \<and> any_inv caps m (rs @ [(i, c)]) t' \<and> any_ok caps m t' = any_ok caps m t
       else r \<noteq> Waiting \<and> any_over (rs @ [(i, c)]) t')"
proof -
  let ?S = "set (map fst rs)"
  have v: "bulk_live caps m ?S t" "distinct (map fst rs)" "bulk_type t" "transferred t \<le> room caps t ?S"
    "transferred t = sum_list (map (c_actual \<circ> snd) rs)" using assms(1) by (simp_all add: any_inv_def)
  have x: "i < m" "i \<notin> ?S" "completion_fits t (bulk_urb caps t i) c" "c_status c = - EOVERFLOW \<longrightarrow> Suc i = block_count caps t"
    "m = block_count caps t \<longrightarrow> (Suc i = m \<longleftrightarrow> Suc (length rs) = m)"
    using assms(3) by (simp_all add: any_ok_def bulk_ok_def)
  have n: "num_urbs t = block_count caps t" "?S \<subseteq> {0..<m}" using v(1) by (simp_all add: bulk_live_def)
  have sub: "insert i ?S \<subseteq> {0..<m}" using n(2) x(1) by simp
  have "card (insert i ?S) = Suc (length rs)" using x(2) distinct_card [OF v(2)] by simp
  then have all: "insert i ?S = {0..<m} \<longleftrightarrow> Suc (length rs) = m" using all_reaped [OF sub] by auto
  obtain r t' where st: "reap_urb dis i c t = Some (r, t')" "after_reap caps m (insert i ?S) (c_actual c) t (r, t')"
    using reap_bulk_step [OF v(1) x(1,2) v(3,4) x(3), of dis] x(4,5) n(1) all by auto
  have sr: "same_request t t'" using st(2) by (simp add: after_reap_def)
  have "transferred t + c_actual c \<le> room caps t (insert i ?S)"
    using v(4) x(2,3) room_insert [of ?S i caps t] by (simp add: completion_fits_def)
  then show ?thesis using st v sr x(2) all assms(2) any_ok_same [OF sr] bulk_type_same [OF sr] room_same [OF sr, of caps]
    by (auto simp: after_reap_def any_inv_def any_over_def)
qed

interpretation bulk: block_protocol dis "any_inv caps" any_over "any_ok caps" for dis caps
proof
  fix m rs t i c
  assume "any_inv caps m rs t" "length rs < m" "any_ok caps m t rs (i, c)"
  then show "\<exists>r t'. reap_urb dis i c t = Some (r, t')
        \<and> (if Suc (length rs) < m then r = Waiting \<and> any_inv caps m (rs @ [(i, c)]) t' \<and> any_ok caps m t' = any_ok caps m t
           else r \<noteq> Waiting \<and> any_over (rs @ [(i, c)]) t')"
    using any_inv_step by blast
qed (simp_all add: any_inv_cancel any_ok_same cancel_keeps any_over_def)

text \<open>The same in the order of submission.\<close>

definition bulk_inv :: "u32 \<Rightarrow> nat \<Rightarrow> completion list \<Rightarrow> usb_transfer \<Rightarrow> bool" where
  "bulk_inv caps m cs t \<longleftrightarrow> any_inv caps m (enumerate 0 cs) t"

lemma set_enumerate_fst: "set (map fst (enumerate 0 cs)) = {0..<length cs}"
  by simp

lemma sum_enumerate: "sum_list (map (c_actual \<circ> snd) (enumerate k cs)) = sum_list (map c_actual cs)"
  by (induction cs arbitrary: k) simp_all

lemma bulk_inv_facts:
  assumes "bulk_inv caps m cs t"
  shows "bulk_live caps m {0..<length cs} t" "bulk_type t" "transferred t \<le> length cs * piece_size caps t"
    "transferred t = sum_list (map c_actual cs)"
proof -
  have "any_inv caps m (enumerate 0 cs) t" using assms by (simp add: bulk_inv_def)
  then show "bulk_live caps m {0..<length cs} t" "bulk_type t" "transferred t = sum_list (map c_actual cs)"
    and "transferred t \<le> length cs * piece_size caps t"
    using order.trans [OF _ room_upto [of caps t "length cs"], of "transferred t"]
    unfolding any_inv_def set_enumerate_fst sum_enumerate by blast+
qed

lemma bulk_inv_cancel: "bulk_inv caps m cs t \<Longrightarrow> bulk_inv caps m cs (snd (op_cancel_transfer dis t))"
  by (simp add: bulk_inv_def any_inv_cancel)

lemma bulk_inv_step:
  assumes "bulk_inv caps m cs t" "length cs < m" "bulk_ok caps m t (length cs) c"
  shows "\<exists>r t'. reap_urb dis (length cs) c t = Some (r, t') \<and> same_request t t'
    \<and> (if Suc (length cs) < m then r = Waiting \<and> bulk_inv caps m (cs @ [c]) t' else r \<noteq> Waiting \<and> urbs t' = None)"
proof -
  let ?rs = "enumerate 0 cs"
  have "any_ok caps m t ?rs (length cs, c)" using assms(2,3) by (simp add: any_ok_def)
  then have "\<exists>r t'. reap_urb dis (length cs) c t = Some (r, t') \<and> same_request t t'
    \<and> (if Suc (length ?rs) < m then r = Waiting \<and> any_inv caps m (?rs @ [(length cs, c)]) t' \<and> any_ok caps m t' = any_ok caps m t
       else r \<noteq> Waiting \<and> any_over (?rs @ [(length cs, c)]) t')"
    by (intro any_inv_step) (use assms(1,2) in \<open>simp_all add: bulk_inv_def\<close>)
  moreover have "?rs @ [(length cs, c)] = enumerate 0 (cs @ [c])" by (simp add: enumerate_append_eq)
  ultimately show ?thesis unfolding bulk_inv_def any_over_def by (auto split: if_splits)
qed

text \<open>A control transfer is one block.\<close>

definition control_inv :: "nat \<Rightarrow> completion list \<Rightarrow> usb_transfer \<Rightarrow> bool" where
  "control_inv m cs t \<longleftrightarrow> m = 1 \<and> cs = [] \<and> tr_type t = TYPE_CONTROL \<and> (\<exists>u. urbs t = Some [u]) \<and> flying t = {0}"

definition control_over :: "completion list \<Rightarrow> usb_transfer \<Rightarrow> bool" where
  "control_over cs t \<longleftrightarrow> urbs t = None \<and> flying t = {}"

definition control_ok :: "nat \<Rightarrow> usb_transfer \<Rightarrow> nat \<Rightarrow> completion \<Rightarrow> bool" where
  "control_ok m t i c \<longleftrightarrow> 8 + length (c_data c) \<le> length (tr_buffer t)"

interpretation control: reap_protocol dis control_inv control_over control_ok for dis
proof
  fix m cs t c
  assume a: "control_inv m cs t" "length cs < m" "control_ok m t (length cs) c"
  obtain buf where "put_bytes 8 (c_data c) (tr_buffer t) = Some buf"
    using a(3) by (simp add: control_ok_def put_bytes_Some)
  moreover obtain u where "urbs t = Some [u]" using a(1) by (auto simp: control_inv_def)
  ultimately show "\<exists>r t'. reap_urb dis (length cs) c t = Some (r, t')
      \<and> (if Suc (length cs) < m then r = Waiting \<and> control_inv m (cs @ [c]) t' \<and> control_ok m t' = control_ok m t
         else r \<noteq> Waiting \<and> control_over (cs @ [c]) t')"
    using a(1) by (simp add: control_inv_def control_over_def reap_urb_def get_at_def handle_control_completion_def
        free_urbs_def Let_def)
next
  fix m cs t
  assume "control_inv m cs t"
  then show "control_inv m cs (snd (op_cancel_transfer dis t))"
    using same_request_facts(6) [OF cancel_keeps(1) [of t dis]] by (simp add: control_inv_def cancel_keeps)
qed (simp_all add: control_ok_def control_over_def cancel_keeps fun_eq_iff)

lemma control_transfer_reports_once:
  assumes "tr_type t = TYPE_CONTROL" "flying t = {}" "submit_control_transfer mem sub t = Some (0, t1)"
    "reaps es = [c]" "8 + length (c_data c) \<le> length (tr_buffer t)"
  shows "\<exists>r t2. session dis 0 es t1 = Some ([r], t2) \<and> r \<noteq> Waiting \<and> urbs t2 = None \<and> flying t2 = {}"
proof -
  have "submit_error e \<noteq> 0" for e by (simp add: submit_error_def)
  then have t1: "control_inv 1 [] t1" "tr_buffer t1 = tr_buffer t"
    using assms(1-3) by (auto simp: submit_control_transfer_def control_inv_def Let_def bind_eq_Some_conv split: if_splits)
  have "\<exists>r t2. session dis (length ([] :: completion list)) es t1
        = Some (replicate (1 - Suc (length ([] :: completion list))) Waiting @ [r], t2)
      \<and> r \<noteq> Waiting \<and> control_over ([] @ reaps es) t2"
    by (rule control.session_run [OF t1(1)]) (use assms(4,5) t1(2) in \<open>simp_all add: control_ok_def\<close>)
  then show ?thesis by (simp add: control_over_def)
qed

lemma submit_bulk_run:
  assumes "submit_bulk_transfer caps mem sub dis t = Some (0, t1)" "flying t = {}"
  shows "same_request t t1" "tr_buffer t1 = tr_buffer t" "transferred t1 = transferred t" "reap_status t1 = ST_COMPLETED"
    "bulk_live caps (accepted sub (block_count caps t)) {} t1" "0 < accepted sub (block_count caps t)"
    "reap_act t1 = (if accepted sub (block_count caps t) = block_count caps t then NORMAL
       else if sub (accepted sub (block_count caps t)) = EREMOTEIO then COMPLETED_EARLY else SUBMIT_FAILED)"
    "reap_act t1 = SUBMIT_FAILED \<longrightarrow> flying t1 \<subseteq> discarding t1"
proof -
  let ?n = "block_count caps t"
  define t0 where "t0 = t\<lparr>urbs := Some (replicate ?n zero_urb), num_urbs := ?n, num_retired := 0,
     reap_act := NORMAL, reap_status := ST_COMPLETED\<rparr>"
  have loop: "bulk_submit_loop caps sub dis ?n 0 t0 = Some (0, t1)"
    using assms(1) by (auto simp: submit_bulk_transfer_def t0_def block_count_def piece_size_def Let_def split: if_splits)
  have sr: "same_request t t0" by (simp add: t0_def same_request_def)
  have npos: "0 < ?n" by (simp add: block_count_def piece_size_def bulk_count_pos bulk_split_pos)
  have run: "\<exists>r t'. bulk_submit_loop caps sub dis ?n 0 t0 = Some (r, t')
    \<and> tr_buffer t' = tr_buffer t0 \<and> transferred t' = transferred t0 \<and> reap_status t' = reap_status t0 \<and> same_request t0 t'
    \<and> (if 0 + accepted sub ?n = 0 \<and> 0 < ?n then r = submit_error (sub 0) \<and> urbs t' = None \<and> flying t' = {}
       else r = 0 \<and> bulk_live caps (0 + accepted sub ?n) {} t'
         \<and> reap_act t' = (if accepted sub ?n = ?n then NORMAL
             else if sub (0 + accepted sub ?n) = EREMOTEIO then COMPLETED_EARLY else SUBMIT_FAILED)
         \<and> (reap_act t' = SUBMIT_FAILED \<longrightarrow> flying t' \<subseteq> discarding t'))"
    by (rule bulk_submit_loop_run [where us = "replicate ?n zero_urb"])
      (simp_all add: t0_def assms(2) same_request_facts(3) [OF sr [unfolded t0_def]])
  have err: "submit_error e \<noteq> 0" for e by (simp add: submit_error_def)
  show "same_request t t1" "tr_buffer t1 = tr_buffer t" "transferred t1 = transferred t" "reap_status t1 = ST_COMPLETED"
    "bulk_live caps (accepted sub ?n) {} t1" "0 < accepted sub ?n"
    "reap_act t1 = (if accepted sub ?n = ?n then NORMAL
       else if sub (accepted sub ?n) = EREMOTEIO then COMPLETED_EARLY else SUBMIT_FAILED)"
    "reap_act t1 = SUBMIT_FAILED \<longrightarrow> flying t1 \<subseteq> discarding t1"
    using run loop npos err same_request_trans [OF sr] by (auto simp: t0_def split: if_splits)
qed

lemma not_in_take: "distinct xs \<Longrightarrow> k < length xs \<Longrightarrow> xs ! k \<notin> set (take k xs)"
  by (auto simp: in_set_conv_nth distinct_conv_nth)

text \<open>C12: Every bulk or interrupt transfer that was submitted is reported exactly once, whatever the
  kernel answers, in whatever order it hands back the blocks, and whenever the application cancels:
  with \<open>m\<close> blocks accepted, the first \<open>m - 1\<close> completions report nothing and the last one reports
  and frees the blocks, none of which the kernel then holds.  All data is counted.  Two hypotheses
  are on the kernel: EOVERFLOW comes with the last block only, as a comment in the code says; and
  when all blocks were accepted, the last one is handed back last, because its completion ends
  the transfer.\<close>

theorem bulk_transfer_reports_once:
  assumes "bulk_type t" "flying t = {}" "transferred t = 0"
    "submit_bulk_transfer caps mem sub dis t = Some (0, t1)" "m = accepted sub (block_count caps t)"
    "distinct (map fst (block_reaps es))" "set (map fst (block_reaps es)) = {0..<m}"
    "m = block_count caps t \<Longrightarrow> fst (last (block_reaps es)) = m - 1"
    "\<And>k c. (k, c) \<in> set (block_reaps es) \<Longrightarrow> completion_fits t (bulk_urb caps t k) c"
    "\<And>k c. (k, c) \<in> set (block_reaps es) \<Longrightarrow> c_status c = - EOVERFLOW \<Longrightarrow> Suc k = block_count caps t"
  shows "\<exists>r t2. kernel_session dis es t1 = Some (replicate (m - 1) Waiting @ [r], t2) \<and> r \<noteq> Waiting
    \<and> urbs t2 = None \<and> flying t2 = {} \<and> transferred t2 = sum_list (map (c_actual \<circ> snd) (block_reaps es))"
proof -
  let ?rs = "block_reaps es"
  note sub = submit_bulk_run [OF assms(4,2), folded assms(5)]
  have inv: "any_inv caps m [] t1"
    using sub(3,5) assms(1,3) bulk_type_same [OF sub(1)] by (simp add: any_inv_def)
  have len: "length ?rs = m" using distinct_card [OF assms(6)] assms(7) by simp
  have ok: "any_ok caps m t1 ([] @ take k ?rs) (?rs ! k)" if k: "k < length ?rs" for k
  proof -
    have el: "?rs ! k \<in> set ?rs" using k by simp
    have "fst (?rs ! k) \<in> {0..<m}" using assms(7) el by (metis image_eqI list.set_map)
    moreover have "fst (?rs ! k) \<notin> set (map fst (take k ?rs))"
      using not_in_take [of "map fst ?rs" k] assms(6) k by (simp add: take_map)
    moreover have "Suc (fst (?rs ! k)) = m \<longleftrightarrow> Suc k = m" if "m = block_count caps t"
    proof -
      have ne: "?rs \<noteq> []" using k by auto
      have lst: "fst (?rs ! (m - 1)) = m - 1" using assms(8) [OF that] by (simp only: last_conv_nth [OF ne] len)
      have l: "m - 1 < length ?rs" "0 < m" using k by (auto simp: len)
      have "map fst ?rs ! k = map fst ?rs ! (m - 1) \<longleftrightarrow> k = m - 1"
        by (rule nth_eq_iff_index_eq [OF assms(6)]) (use k l in simp_all)
      then have "fst (?rs ! k) = m - 1 \<longleftrightarrow> k = m - 1" by (simp only: nth_map [OF k] nth_map [OF l(1)] lst)
      then show ?thesis using l(2) by linarith
    qed
    ultimately show ?thesis
      using el k assms(9,10) [of "fst (?rs ! k)" "snd (?rs ! k)"]
      by (simp add: any_ok_def bulk_ok_same [OF sub(1)] bulk_ok_def same_request_facts(3) [OF sub(1)])
  qed
  have "\<exists>r t2. kernel_session dis es t1 = Some (replicate (m - Suc (length ([] :: (nat \<times> completion) list))) Waiting @ [r], t2)
      \<and> r \<noteq> Waiting \<and> any_over ([] @ ?rs) t2"
    by (rule bulk.kernel_session_run [OF inv]) (use sub(6) len ok in simp_all)
  then show ?thesis by (simp add: any_over_def)
qed

section \<open>The data of an IN transfer\<close>

lemma finish_keeps:
  "finish t = Some (r, t') \<Longrightarrow> tr_buffer t' = tr_buffer t \<and> transferred t' = transferred t \<and> r \<noteq> Waiting"
  by (auto simp: finish_def free_urbs_def split: if_splits)

lemma cancel_remaining_keeps:
  assumes "cancel_remaining dis i t = Some (r, t')"
  shows "tr_buffer t' = tr_buffer t \<and> transferred t' = transferred t \<and> (r = Waiting \<longrightarrow> reap_act t' = reap_act t)"
  using assms by (auto simp: cancel_remaining_def Let_def discard_urbs_def dest: finish_keeps split: if_splits)

lemma bulk_normal_keeps:
  assumes "bulk_normal dis i u c t = Some (r, t')" "r = Waiting \<Longrightarrow> c_status c \<notin> {- EPIPE, - ENODEV, - ESHUTDOWN}"
  shows "tr_buffer t' = tr_buffer t" "transferred t' = transferred t + c_actual c"
    "r = Waiting \<Longrightarrow> reap_act t' = NORMAL \<Longrightarrow> urb_length u \<le> c_actual c"
proof -
  have "tr_buffer t' = tr_buffer t \<and> transferred t' = transferred t + c_actual c
      \<and> (r = Waiting \<longrightarrow> reap_act t' = NORMAL \<longrightarrow> urb_length u \<le> c_actual c)"
    using assms by (auto simp: bulk_normal_def Let_def dest!: finish_keeps cancel_remaining_keeps split: if_splits)
  then show "tr_buffer t' = tr_buffer t" "transferred t' = transferred t + c_actual c"
    "r = Waiting \<Longrightarrow> reap_act t' = NORMAL \<Longrightarrow> urb_length u \<le> c_actual c" by blast+
qed

lemma bulk_abnormal_keeps:
  assumes "bulk_abnormal u c t = Some (r, t')" "reap_act t \<noteq> NORMAL"
  shows "\<exists>t1. keep_surplus u c t = Some t1 \<and> tr_buffer t' = tr_buffer t1 \<and> transferred t' = transferred t1
    \<and> (r = Waiting \<longrightarrow> reap_act t' \<noteq> NORMAL)"
proof -
  obtain t1 where t1: "keep_surplus u c t = Some t1" using assms(1) by (auto simp: bulk_abnormal_def bind_eq_Some_conv)
  have "reap_act t1 = reap_act t" using t1 by (auto simp: keep_surplus_def bind_eq_Some_conv split: if_splits)
  then show ?thesis using assms t1 by (auto simp: bulk_abnormal_def dest!: finish_keeps split: if_splits)
qed

text \<open>The bytes received so far are the front of the buffer; while all went well they fill all
  blocks before \<open>i\<close>.\<close>

definition data_ok :: "u32 \<Rightarrow> nat \<Rightarrow> bytes \<Rightarrow> usb_transfer \<Rightarrow> bool" where
  "data_ok caps i acc t \<longleftrightarrow> \<not> is_out t \<and> transferred t = length acc \<and> take (length acc) (tr_buffer t) = acc
     \<and> (reap_act t = NORMAL \<longrightarrow> transferred t = i * piece_size caps t)"

lemma keep_surplus_data:
  assumes "keep_surplus u c t = Some t1" "transferred t = length acc" "take (length acc) (tr_buffer t) = acc"
    "length acc \<le> urb_offset u" "get_bytes (urb_offset u) (c_actual c) (tr_buffer t) = Some (c_data c)"
    "length (c_data c) = c_actual c"
  shows "transferred t1 = length acc + length (c_data c)" "take (length acc + length (c_data c)) (tr_buffer t1) = acc @ c_data c"
proof -
  have tk: "urb_offset u + c_actual c \<le> length (tr_buffer t)" "take (c_actual c) (drop (urb_offset u) (tr_buffer t)) = c_data c"
    using assms(5) by (simp_all add: get_bytes_def split: if_splits)
  have "transferred t1 = length acc + length (c_data c) \<and> take (length acc + length (c_data c)) (tr_buffer t1) = acc @ c_data c"
  proof (cases "0 < c_actual c \<and> urb_offset u \<noteq> transferred t")
    case True
    then obtain buf where "put_bytes (transferred t) (c_data c) (tr_buffer t) = Some buf"
      "t1 = t\<lparr>tr_buffer := buf, transferred := transferred t + c_actual c\<rparr>"
      using assms(1,5) by (auto simp: keep_surplus_def bind_eq_Some_conv)
    then show ?thesis using take_put_bytes [of "transferred t" "c_data c" "tr_buffer t" buf] assms(2,3,6) by simp
  next
    case False
    then have t1: "tr_buffer t1 = tr_buffer t" "transferred t1 = transferred t + c_actual c" "c_actual c = 0 \<or> urb_offset u = length acc"
      using assms(1,2) by (auto simp: keep_surplus_def split: if_splits)
    then show ?thesis using tk(2) assms(2,3,6) by (auto simp: take_add)
  qed
  then show "transferred t1 = length acc + length (c_data c)" "take (length acc + length (c_data c)) (tr_buffer t1) = acc @ c_data c"
    by simp_all
qed

lemma reap_bulk_data:
  assumes live: "bulk_live caps m {0..<i} t" "i < m" "bulk_type t" "transferred t \<le> i * piece_size caps t"
    and fits: "completion_fits t (bulk_urb caps t i) c" and data: "data_ok caps i acc t"
    and run: "reap_urb dis i c t = Some (r, t')" and st: "r = Waiting \<Longrightarrow> c_status c \<notin> {- EPIPE, - ENODEV, - ESHUTDOWN}"
    and part: "r = Waiting \<Longrightarrow> Suc i < block_count caps t" "piece_size caps t' = piece_size caps t" "is_out t' = is_out t"
  shows "r = Waiting \<Longrightarrow> data_ok caps (Suc i) (acc @ c_data c) t'"
    and "transferred t' = length (acc @ c_data c)" and "take (transferred t') (tr_buffer t') = acc @ c_data c"
proof -
  let ?u = "bulk_urb caps t i"
  obtain us where us: "urbs t = Some us" "length us = num_urbs t" "us ! i = ?u" "num_urbs t = block_count caps t" "m \<le> num_urbs t"
    "i \<in> flying t"
    using live(1,2) by (auto simp: bulk_live_def)
  have d: "\<not> is_out t" "transferred t = length acc" "take (length acc) (tr_buffer t) = acc" "length (c_data c) = c_actual c"
    "length acc \<le> urb_offset ?u" "reap_act t = NORMAL \<longrightarrow> urb_offset ?u = length acc"
    using data fits live(4) by (auto simp: data_ok_def completion_fits_def bulk_urb_offset)
  have ty: "tr_type t \<noteq> TYPE_CONTROL" "tr_type t \<noteq> TYPE_ISO"
    "tr_type t = TYPE_BULK \<or> tr_type t = TYPE_BULK_STREAM \<or> tr_type t = TYPE_INTR"
    using live(3) by (auto simp: bulk_type_def)
  have "i < length us" using us live(2) by simp
  then have "get_at i us = Some ?u" using us(3) by (simp add: get_at_def)
  then obtain buf where buf: "put_bytes (urb_offset ?u) (c_data c) (tr_buffer t) = Some buf"
    "handle_bulk_completion dis i ?u c (t\<lparr>flying := flying t - {i}, tr_buffer := buf\<rparr>) = Some (r, t')"
    using run ty us(1,6) d(1) by (auto simp: reap_urb_def bind_eq_Some_conv)
  define t1 where "t1 = t\<lparr>flying := flying t - {i}, tr_buffer := buf, num_retired := num_retired t + 1\<rparr>"
  have h: "(if reap_act t1 \<noteq> NORMAL then bulk_abnormal ?u c t1 else bulk_normal dis i ?u c t1) = Some (r, t')"
    using buf(2) by (simp add: handle_bulk_completion_def t1_def Let_def split: if_splits)
  have t1: "tr_buffer t1 = buf" "transferred t1 = length acc" "reap_act t1 = reap_act t" using d(2) by (simp_all add: t1_def)
  have got: "get_bytes (urb_offset ?u) (c_actual c) buf = Some (c_data c)" using get_put_bytes [OF buf(1)] d(4) by simp
  have front: "take (length acc) buf = acc"
  proof -
    have "take (length acc) (take (urb_offset ?u + length (c_data c)) buf) = take (length acc) (take (urb_offset ?u) (tr_buffer t) @ c_data c)"
      by (simp only: take_put_bytes [OF buf(1)])
    moreover have "urb_offset ?u \<le> length (tr_buffer t)" using buf(1) by (auto simp: put_bytes_def split: if_splits)
    ultimately show ?thesis using d(3,5) by (simp add: min_absorb1)
  qed
  have all: "transferred t' = length (acc @ c_data c) \<and> take (length (acc @ c_data c)) (tr_buffer t') = acc @ c_data c
      \<and> (r = Waiting \<longrightarrow> reap_act t' = NORMAL \<longrightarrow> transferred t' = Suc i * piece_size caps t)"
  proof (cases "reap_act t = NORMAL")
    case True
    have n: "bulk_normal dis i ?u c t1 = Some (r, t')" using h True t1(3) by simp
    note k = bulk_normal_keeps [OF n st]
    have "take (length acc + length (c_data c)) buf = acc @ c_data c"
      using take_put_bytes [OF buf(1)] d(3,6) True by simp
    moreover have "transferred t' = Suc i * piece_size caps t" if "r = Waiting" "reap_act t' = NORMAL"
    proof -
      have "tr_length t \<noteq> 0"
        using part(1) [OF that(1)] by (intro notI) (simp add: block_count_def bulk_count_def)
      moreover have "i \<noteq> block_count caps t - 1" using part(1) [OF that(1)] by linarith
      ultimately have "urb_length ?u = piece_size caps t" by (simp add: bulk_urb_length)
      then have "c_actual c = piece_size caps t" using k(3) [OF _ that] fits by (simp add: completion_fits_def)
      then show ?thesis using k(2) t1(2) d(6) True by (simp add: bulk_urb_offset)
    qed
    ultimately show ?thesis using k(1,2) t1 d(4) by simp
  next
    case False
    then obtain t2 where t2: "keep_surplus ?u c t1 = Some t2" "tr_buffer t' = tr_buffer t2" "transferred t' = transferred t2"
      "r = Waiting \<longrightarrow> reap_act t' \<noteq> NORMAL"
      using bulk_abnormal_keeps [of ?u c t1 r t'] h t1(3) by auto
    show ?thesis
      using keep_surplus_data [OF t2(1) t1(2) _ d(5) _ d(4)] front got t2(2-4) t1(1) by simp
  qed
  then show "transferred t' = length (acc @ c_data c)" "take (transferred t') (tr_buffer t') = acc @ c_data c" by simp_all
  show "data_ok caps (Suc i) (acc @ c_data c) t'" if "r = Waiting"
    using all d(1) part(2,3) that unfolding data_ok_def by auto
qed

lemma cancel_data: "data_ok caps i acc t \<Longrightarrow> data_ok caps i acc (snd (op_cancel_transfer dis t))"
  using cancel_keeps(8) [of dis t] same_request_facts(2) [OF cancel_keeps(1) [of t dis], of caps]
    same_request_facts(4) [OF cancel_keeps(1) [of t dis]]
  by (auto simp: data_ok_def cancel_keeps(2,7))

definition data_inv :: "u32 \<Rightarrow> nat \<Rightarrow> completion list \<Rightarrow> usb_transfer \<Rightarrow> bool" where
  "data_inv caps m cs t \<longleftrightarrow> bulk_inv caps m cs t \<and> data_ok caps (length cs) (concat (map c_data cs)) t"

definition data_over :: "completion list \<Rightarrow> usb_transfer \<Rightarrow> bool" where
  "data_over cs t \<longleftrightarrow> urbs t = None \<and> take (transferred t) (tr_buffer t) = concat (map c_data cs)"

definition data_fits :: "u32 \<Rightarrow> nat \<Rightarrow> usb_transfer \<Rightarrow> nat \<Rightarrow> completion \<Rightarrow> bool" where
  "data_fits caps m t i c \<longleftrightarrow> bulk_ok caps m t i c
     \<and> (Suc i < m \<longrightarrow> c_status c \<notin> {- EPIPE, - ENODEV, - ESHUTDOWN})"

lemma data_fits_same: "same_request t t' \<Longrightarrow> data_fits caps m t' = data_fits caps m t"
  by (rule ext)+ (simp add: data_fits_def bulk_ok_same)

lemma data_inv_step:
  assumes "data_inv caps m cs t" "length cs < m" "data_fits caps m t (length cs) c"
  shows "\<exists>r t'. reap_urb dis (length cs) c t = Some (r, t')
    \<and> (if Suc (length cs) < m then r = Waiting \<and> data_inv caps m (cs @ [c]) t' \<and> data_fits caps m t' = data_fits caps m t
       else r \<noteq> Waiting \<and> data_over (cs @ [c]) t')"
proof -
  have inv: "bulk_inv caps m cs t" and dat: "data_ok caps (length cs) (concat (map c_data cs)) t"
    and c: "bulk_ok caps m t (length cs) c" using assms by (simp_all add: data_inv_def data_fits_def)
  note i = bulk_inv_facts [OF inv]
  obtain r t' where st: "reap_urb dis (length cs) c t = Some (r, t')" "same_request t t'"
    "if Suc (length cs) < m then r = Waiting \<and> bulk_inv caps m (cs @ [c]) t' else r \<noteq> Waiting \<and> urbs t' = None" using bulk_inv_step [OF inv assms(2) c] by blast
  have w: "r = Waiting \<longleftrightarrow> Suc (length cs) < m" using st(3) by (auto split: if_splits)
  have "r = Waiting \<Longrightarrow> c_status c \<notin> {- EPIPE, - ENODEV, - ESHUTDOWN}" using w assms(3) by (simp add: data_fits_def)
  moreover have "r = Waiting \<Longrightarrow> Suc (length cs) < block_count caps t" using w i(1) by (auto simp: bulk_live_def)
  moreover have "completion_fits t (bulk_urb caps t (length cs)) c" using c by (simp add: bulk_ok_def)
  ultimately have d: "r = Waiting \<Longrightarrow> data_ok caps (Suc (length cs)) (concat (map c_data cs) @ c_data c) t'"
    "take (transferred t') (tr_buffer t') = concat (map c_data cs) @ c_data c"
    using reap_bulk_data [OF i(1) assms(2) i(2,3) _ dat st(1) _ _ same_request_facts(2,4) [OF st(2)]] by blast+
  show ?thesis
    using st w d data_fits_same [OF st(2)] by (auto simp: data_inv_def data_over_def)
qed

interpretation data: reap_protocol dis "data_inv caps" data_over "data_fits caps" for dis caps
proof
  fix m cs t c
  assume "data_inv caps m cs t" "length cs < m" "data_fits caps m t (length cs) c"
  then show "\<exists>r t'. reap_urb dis (length cs) c t = Some (r, t')
        \<and> (if Suc (length cs) < m then r = Waiting \<and> data_inv caps m (cs @ [c]) t' \<and> data_fits caps m t' = data_fits caps m t
           else r \<noteq> Waiting \<and> data_over (cs @ [c]) t')"
    by (rule data_inv_step)
qed (simp_all add: data_inv_def bulk_inv_cancel cancel_data data_fits_same cancel_keeps data_over_def)

text \<open>C16: The data of an IN transfer ends up contiguous at the front of the buffer, although every
  block has its own place in it: bytes that arrive after a short block, an error or a cancellation
  are moved down to the end of what was there.  (A stall or a removed device does not leave the
  normal state, so bytes of later blocks would stay where they are.)\<close>

theorem bulk_data_contiguous:
  assumes "bulk_type t" "\<not> is_out t" "flying t = {}" "transferred t = 0"
    "submit_bulk_transfer caps mem sub dis t = Some (0, t1)" "m = accepted sub (block_count caps t)"
    "length (reaps es) = m"
    "\<And>k. k < m \<Longrightarrow> completion_fits t (bulk_urb caps t k) (reaps es ! k)"
    "\<And>k. k < m \<Longrightarrow> c_status (reaps es ! k) = - EOVERFLOW \<Longrightarrow> Suc k = block_count caps t"
    "\<And>k. Suc k < m \<Longrightarrow> c_status (reaps es ! k) \<notin> {- EPIPE, - ENODEV, - ESHUTDOWN}"
  shows "\<exists>rs t2. session dis 0 es t1 = Some (rs, t2)
    \<and> take (transferred t2) (tr_buffer t2) = concat (map c_data (reaps es))"
proof -
  note sub = submit_bulk_run [OF assms(5,3), folded assms(6)]
  have inv: "data_inv caps m [] t1"
    using sub(3,5) assms(1,2,4) bulk_type_same [OF sub(1)] same_request_facts(4) [OF sub(1)]
    by (simp add: data_inv_def bulk_inv_def any_inv_def data_ok_def)
  have "\<exists>r t2. session dis (length ([] :: completion list)) es t1 = Some (replicate (m - Suc (length ([] :: completion list))) Waiting @ [r], t2)
      \<and> r \<noteq> Waiting \<and> data_over ([] @ reaps es) t2"
    by (rule data.session_run [OF inv])
      (use sub(6) assms(7-10) in \<open>simp_all add: data_fits_same [OF sub(1)] data_fits_def bulk_ok_def\<close>)
  then show ?thesis by (auto simp: data_over_def)
qed

section \<open>A transfer that ends too early\<close>

text \<open>Two completions end a transfer in its normal state at once: an overflow, which a comment in
  \<open>handle_bulk_completion\<close> says can only occur in the last block, and that of the last block.
  While the kernel still holds other blocks, the handler frees them all.  A stall keeps the
  normal state and discards the rest from the last block backwards, so that the last block may
  well come back before the others.\<close>

lemma early_end_frees_live_blocks:
  assumes "bulk_live caps m S t" "i < m" "i \<notin> S" "insert i S \<noteq> {0..<m}" "bulk_type t" "reap_act t = NORMAL"
    and "c_status c = - EOVERFLOW \<or> i = num_urbs t - 1 \<and> c_status c \<in> {0, - EREMOTEIO, - ENOENT, - ECONNRESET}"
  shows "reap_urb dis i c t = None"
proof -
  obtain us where us: "urbs t = Some us" "length us = num_urbs t" "m \<le> num_urbs t" "flying t = {0..<m} - S" "S \<subseteq> {0..<m}"
    using assms(1) by (auto simp: bulk_live_def)
  have at: "i \<in> flying t" "get_at i us = Some (us ! i)" using us assms(2,3) by (auto simp: get_at_def)
  have fl: "flying t - {i} \<noteq> {}" using us(4,5) assms(2,4) by auto
  have run: "handle_bulk_completion dis i (us ! i) c (t\<lparr>flying := flying t - {i}, tr_buffer := buf\<rparr>) = None" for buf
    using assms(6,7) fl by (auto simp: handle_bulk_completion_def bulk_normal_def Let_def finish_def free_urbs_def)
  have ty: "tr_type t \<noteq> TYPE_CONTROL" "tr_type t \<noteq> TYPE_ISO"
    "tr_type t = TYPE_BULK \<or> tr_type t = TYPE_BULK_STREAM \<or> tr_type t = TYPE_INTR"
    using assms(5) by (auto simp: bulk_type_def)
  show ?thesis
    using ty by (simp add: reap_urb_def at us(1) run bind_eq_None_conv)
qed

section \<open>Examples\<close>

lemma submit_bulk_accepts:
  assumes "urbs t = None" "flying t = {}" "sub 0 = 0" "\<not> is_out t"
  shows "\<exists>t1. submit_bulk_transfer caps True sub dis t = Some (0, t1)"
proof -
  let ?n = "block_count caps t"
  define t0 where "t0 = t\<lparr>urbs := Some (replicate ?n zero_urb), num_urbs := ?n, num_retired := 0,
     reap_act := NORMAL, reap_status := ST_COMPLETED\<rparr>"
  have sr: "same_request t t0" by (simp add: t0_def same_request_def)
  have npos: "0 < ?n" by (simp add: block_count_def piece_size_def bulk_count_pos bulk_split_pos)
  then have acc: "0 < accepted sub ?n" using assms(3) by (simp add: accepted_def upt_conv_Cons)
  have "\<exists>r t'. bulk_submit_loop caps sub dis ?n 0 t0 = Some (r, t')
    \<and> tr_buffer t' = tr_buffer t0 \<and> transferred t' = transferred t0 \<and> reap_status t' = reap_status t0 \<and> same_request t0 t'
    \<and> (if 0 + accepted sub ?n = 0 \<and> 0 < ?n then r = submit_error (sub 0) \<and> urbs t' = None \<and> flying t' = {}
       else r = 0 \<and> bulk_live caps (0 + accepted sub ?n) {} t'
         \<and> reap_act t' = (if accepted sub ?n = ?n then NORMAL
             else if sub (0 + accepted sub ?n) = EREMOTEIO then COMPLETED_EARLY else SUBMIT_FAILED)
         \<and> (reap_act t' = SUBMIT_FAILED \<longrightarrow> flying t' \<subseteq> discarding t'))"
    by (rule bulk_submit_loop_run [where us = "replicate ?n zero_urb"])
      (simp_all add: t0_def assms(2) same_request_facts(3) [OF sr [unfolded t0_def]])
  then show ?thesis using assms(1,4) acc
    by (simp add: submit_bulk_transfer_def t0_def block_count_def piece_size_def Let_def) blast
qed

text \<open>An IN request of 20000 bytes: two blocks, of 16384 and 3616 bytes.\<close>

definition in_request :: "nat \<Rightarrow> usb_transfer" where
  "in_request n = \<lparr>tr_flags = 0, tr_endpoint = 0x81, tr_type = TYPE_BULK, tr_timeout = 0,
     tr_status = ST_COMPLETED, tr_actual_length = 0, tr_buffer = replicate n 0, tr_packets = [],
     tr_stream_id = 0, transferred = 0, urbs = None, reap_act = NORMAL, num_urbs = 0, num_retired = 0,
     reap_status = ST_COMPLETED, iso_packet_offset = 0, flying = {}, discarding = {}\<rparr>"

definition answer :: "int \<Rightarrow> bytes \<Rightarrow> completion" where
  "answer st bs = \<lparr>c_status = st, c_actual = length bs, c_data = bs, c_packets = []\<rparr>"

lemma in_request_facts:
  "bulk_type (in_request n)" "\<not> is_out (in_request n)" "flying (in_request n) = {}" "transferred (in_request n) = 0"
  "urbs (in_request n) = None" "piece_size 2 (in_request n) = 16384"
  by (simp_all add: in_request_def bulk_type_def is_out_def piece_size_def bulk_split_def)

lemma in_request_blocks:
  "block_count 2 (in_request 20000) = 2" "urb_length (bulk_urb 2 (in_request 20000) 0) = 16384"
  "urb_length (bulk_urb 2 (in_request 20000) 1) = 3616"
proof -
  have l: "tr_length (in_request 20000) = 20000" by (simp add: in_request_def tr_length_def)
  show b: "block_count 2 (in_request 20000) = 2"
    by (simp add: block_count_def in_request_facts(6) l bulk_count_def)
  show "urb_length (bulk_urb 2 (in_request 20000) 0) = 16384" "urb_length (bulk_urb 2 (in_request 20000) 1) = 3616"
    by (simp_all add: bulk_urb_length b in_request_facts(6) l)
qed

lemma both_accepted: "accepted (\<lambda>i. 0) 2 = 2" "accepted (\<lambda>i. if i = 0 then 0 else 12) 2 = 1"
  "accepted (\<lambda>i. if i = 2 then 12 else 0) 3 = 2"
  by (simp_all add: accepted_def upt_rec)

text \<open>An IN request of 40000 bytes: three blocks, the third of which the kernel refuses.  The second
  comes back first, then the application cancels, then comes the first.\<close>

lemma long_request_blocks:
  "block_count 2 (in_request 40000) = 3" "urb_length (bulk_urb 2 (in_request 40000) 0) = 16384"
  "urb_length (bulk_urb 2 (in_request 40000) 1) = 16384"
proof -
  have l: "tr_length (in_request 40000) = 40000" by (simp add: in_request_def tr_length_def)
  show b: "block_count 2 (in_request 40000) = 3"
    by (simp add: block_count_def in_request_facts(6) l bulk_count_def)
  show "urb_length (bulk_urb 2 (in_request 40000) 0) = 16384" "urb_length (bulk_urb 2 (in_request 40000) 1) = 16384"
    by (simp_all add: bulk_urb_length b in_request_facts(6) l)
qed

theorem bulk_transfer_reports_once_witness:
  "\<exists>t1. submit_bulk_transfer 2 True (\<lambda>i. if i = 2 then 12 else 0) (\<lambda>i. 0) (in_request 40000) = Some (0, t1)
    \<and> (\<exists>r t2. kernel_session (\<lambda>i. 0) [Reap_block 1 (answer 0 [1, 2]), Cancel_all, Reap_block 0 (answer (- ENOENT) [3, 4, 5])] t1
          = Some (replicate (2 - 1) Waiting @ [r], t2) \<and> r \<noteq> Waiting
        \<and> urbs t2 = None \<and> flying t2 = {} \<and> transferred t2 = 5)"
proof -
  let ?es = "[Reap_block 1 (answer 0 [1, 2]), Cancel_all, Reap_block 0 (answer (- ENOENT) [3, 4, 5])]"
  let ?sub = "\<lambda>i::nat. if i = 2 then 12 else 0 :: int"
  obtain t1 where t1: "submit_bulk_transfer 2 True ?sub (\<lambda>i. 0) (in_request 40000) = Some (0, t1)"
    using submit_bulk_accepts [of "in_request 40000" ?sub 2 "\<lambda>i. 0"] by (auto simp: in_request_facts)
  have "\<exists>r t2. kernel_session (\<lambda>i. 0) ?es t1 = Some (replicate (2 - 1) Waiting @ [r], t2) \<and> r \<noteq> Waiting
        \<and> urbs t2 = None \<and> flying t2 = {} \<and> transferred t2 = sum_list (map (c_actual \<circ> snd) (block_reaps ?es))"
  proof (rule bulk_transfer_reports_once [OF in_request_facts(1,3,4) t1])
    show "completion_fits (in_request 40000) (bulk_urb 2 (in_request 40000) k) c" if "(k, c) \<in> set (block_reaps ?es)" for k c
      using that by (auto simp: completion_fits_def answer_def long_request_blocks [simplified])
    show "Suc k = block_count 2 (in_request 40000)" if "(k, c) \<in> set (block_reaps ?es)" "c_status c = - EOVERFLOW" for k c
      using that by (auto simp: answer_def)
  qed (auto simp: long_request_blocks both_accepted)
  then show ?thesis using t1 by (auto simp: answer_def)
qed

theorem bulk_data_contiguous_witness:
  "\<exists>t1. submit_bulk_transfer 2 True (\<lambda>i. 0) (\<lambda>i. 0) (in_request 20000) = Some (0, t1)
    \<and> (\<exists>rs t2. session (\<lambda>i. 0) 0 [Reap (answer (- EPROTO) [1, 2]), Reap (answer (- ECONNRESET) [3, 4, 5])] t1 = Some (rs, t2)
        \<and> take (transferred t2) (tr_buffer t2) = [1, 2, 3, 4, 5])"
proof -
  let ?es = "[Reap (answer (- EPROTO) [1, 2]), Reap (answer (- ECONNRESET) [3, 4, 5])]"
  obtain t1 where t1: "submit_bulk_transfer 2 True (\<lambda>i. 0) (\<lambda>i. 0) (in_request 20000) = Some (0, t1)"
    using submit_bulk_accepts [of "in_request 20000" "\<lambda>i. 0" 2 "\<lambda>i. 0"] by (auto simp: in_request_facts)
  have "\<exists>rs t2. session (\<lambda>i. 0) 0 ?es t1 = Some (rs, t2)
        \<and> take (transferred t2) (tr_buffer t2) = concat (map c_data (reaps ?es))"
  proof (rule bulk_data_contiguous [OF in_request_facts(1-4) t1 refl])
    show "completion_fits (in_request 20000) (bulk_urb 2 (in_request 20000) k) (reaps ?es ! k)"
      if "k < accepted (\<lambda>i. 0) (block_count 2 (in_request 20000))" for k
      using that by (auto simp: less_2_cases_iff completion_fits_def answer_def in_request_blocks [simplified] both_accepted)
    show "Suc k = block_count 2 (in_request 20000)"
      if "k < accepted (\<lambda>i. 0) (block_count 2 (in_request 20000))" "c_status (reaps ?es ! k) = - EOVERFLOW" for k
      using that by (auto simp: less_2_cases_iff answer_def in_request_blocks both_accepted)
    show "c_status (reaps ?es ! k) \<notin> {- EPIPE, - ENODEV, - ESHUTDOWN}"
      if "Suc k < accepted (\<lambda>i. 0) (block_count 2 (in_request 20000))" for k
      using that by (auto simp: answer_def in_request_blocks both_accepted)
  qed (simp_all add: in_request_blocks both_accepted)
  then show ?thesis using t1 by (auto simp: answer_def)
qed

end
