(* ===== verification/UsbList.thy ===== *)
theory UsbList
  imports Prelude
begin

text \<open>
  The doubly linked lists of libusb (\<open>libusbi.h\<close>: \<open>struct list_head\<close>, \<open>list_init\<close>, \<open>list_add\<close>,
  \<open>list_add_tail\<close>, \<open>list_del\<close>, \<open>list_empty\<close>, \<open>list_for_each_entry\<close>).  The nodes sit inside the
  elements, so an element is named by the address of its node.  The heap holds the two pointers of
  every node; \<open>live\<close> is the set of addresses that may be used, and any other address, NULL
  included, is a fault (\<open>None\<close>).

  \<open>ring h hp xs\<close> says that the list with head \<open>hp\<close> holds the elements \<open>xs\<close>.  The lemmas show that
  the operations implement the operations on lists, so the components that keep such lists are
  modelled with Isabelle's lists; \<open>add_twice_loses_end\<close> shows what adding a member again does.
\<close>

section \<open>Nodes and operations\<close>

record links =
  prev :: "nat \<Rightarrow> nat"
  next_of :: "nat \<Rightarrow> nat"
  live :: "nat set"

definition get_prev :: "nat \<Rightarrow> links \<Rightarrow> nat option" where
  "get_prev p h = (if p \<in> live h then Some (prev h p) else None)"

definition get_next :: "nat \<Rightarrow> links \<Rightarrow> nat option" where
  "get_next p h = (if p \<in> live h then Some (next_of h p) else None)"

definition put_prev :: "nat \<Rightarrow> nat \<Rightarrow> links \<Rightarrow> links option" where
  "put_prev p v h = (if p \<in> live h then Some (h\<lparr>prev := (prev h)(p := v)\<rparr>) else None)"

definition put_next :: "nat \<Rightarrow> nat \<Rightarrow> links \<Rightarrow> links option" where
  "put_next p v h = (if p \<in> live h then Some (h\<lparr>next_of := (next_of h)(p := v)\<rparr>) else None)"

definition list_init :: "nat \<Rightarrow> links \<Rightarrow> links option" where
  "list_init e h = do { h \<leftarrow> put_next e e h; put_prev e e h }"

definition list_empty :: "nat \<Rightarrow> links \<Rightarrow> bool option" where
  "list_empty e h = do { n \<leftarrow> get_next e h; Some (n = e) }"

definition list_add :: "nat \<Rightarrow> nat \<Rightarrow> links \<Rightarrow> links option" where
  "list_add e hp h = do {
     n \<leftarrow> get_next hp h;
     h \<leftarrow> put_next e n h;
     h \<leftarrow> put_prev e hp h;
     n \<leftarrow> get_next hp h;
     h \<leftarrow> put_prev n e h;
     put_next hp e h }"

definition list_add_tail :: "nat \<Rightarrow> nat \<Rightarrow> links \<Rightarrow> links option" where
  "list_add_tail e hp h = do {
     h \<leftarrow> put_next e hp h;
     p \<leftarrow> get_prev hp h;
     h \<leftarrow> put_prev e p h;
     p \<leftarrow> get_prev hp h;
     h \<leftarrow> put_next p e h;
     put_prev hp e h }"

definition list_del :: "nat \<Rightarrow> links \<Rightarrow> links option" where
  "list_del e h = do {
     n \<leftarrow> get_next e h;
     p \<leftarrow> get_prev e h;
     h \<leftarrow> put_prev n p h;
     p \<leftarrow> get_prev e h;
     n \<leftarrow> get_next e h;
     h \<leftarrow> put_next p n h;
     h \<leftarrow> put_prev e 0 h;
     put_next e 0 h }"

text \<open>The elements \<open>list_for_each_entry\<close> visits, from node \<open>p\<close> on.  \<open>None\<close>: a fault or no end.\<close>

partial_function (option) for_each_from :: "nat \<Rightarrow> nat \<Rightarrow> links \<Rightarrow> nat list option" where
  [code]: "for_each_from hp p h =
     (if p = hp then Some [] else do { n \<leftarrow> get_next p h; xs \<leftarrow> for_each_from hp n h; Some (p # xs) })"

definition list_for_each :: "nat \<Rightarrow> links \<Rightarrow> nat list option" where
  "list_for_each hp h = do { n \<leftarrow> get_next hp h; for_each_from hp n h }"

lemmas list_ops = list_init_def list_empty_def list_add_def list_add_tail_def list_del_def
  get_prev_def get_next_def put_prev_def put_next_def

section \<open>The lists they stand for\<close>

text \<open>From \<open>a\<close> through \<open>xs\<close> to \<open>b\<close>.\<close>

primrec seg :: "links \<Rightarrow> nat \<Rightarrow> nat list \<Rightarrow> nat \<Rightarrow> bool" where
  "seg h a [] b \<longleftrightarrow> a \<in> live h \<and> b \<in> live h \<and> next_of h a = b \<and> prev h b = a"
| "seg h a (x # xs) b \<longleftrightarrow> a \<in> live h \<and> next_of h a = x \<and> prev h x = a \<and> seg h x xs b"

definition ring :: "links \<Rightarrow> nat \<Rightarrow> nat list \<Rightarrow> bool" where
  "ring h hp xs \<longleftrightarrow> distinct (hp # xs) \<and> seg h hp xs hp"

lemma seg_live: "seg h a xs b \<Longrightarrow> a \<in> live h \<and> b \<in> live h \<and> set xs \<subseteq> live h"
  by (induction xs arbitrary: a) auto

lemma seg_append: "seg h a (xs @ y # ys) b \<longleftrightarrow> seg h a xs y \<and> seg h y ys b"
  by (induction xs arbitrary: a) (auto dest: seg_live)

text \<open>A segment depends on the successors of all but its end and the predecessors of all but its
  start.\<close>

lemma seg_frame:
  assumes "seg h a xs b" "\<forall>x \<in> set (a # xs). next_of h' x = next_of h x"
    "\<forall>x \<in> set (xs @ [b]). prev h' x = prev h x" "live h \<subseteq> live h'"
  shows "seg h' a xs b"
  using assms by (induction xs arbitrary: a) auto

lemma seg_last: "seg h a xs b \<Longrightarrow> prev h b = last (a # xs) \<and> next_of h (last (a # xs)) = b"
  by (induction xs arbitrary: a) auto

lemma seg_first: "seg h a xs b \<Longrightarrow> next_of h a = hd (xs @ [b]) \<and> prev h (hd (xs @ [b])) = a"
  by (cases xs) auto

text \<open>\<open>e\<close> is linked in at the end of a segment, or at its start.\<close>

lemma seg_extend:
  assumes s: "seg h a xs b" and e: "e \<in> live h" "e \<notin> set (a # xs)" "e \<noteq> b"
    and d: "distinct (a # xs)" "b \<notin> set xs"
    and h': "h' = h\<lparr>prev := (prev h)(e := last (a # xs), b := e), next_of := (next_of h)(e := b, last (a # xs) := e)\<rparr>"
  shows "seg h' a (xs @ [e]) b"
proof (cases xs rule: rev_cases)
  case Nil
  then show ?thesis using s e h' by auto
next
  case (snoc ys y)
  then have "seg h a ys y" "seg h y [] b" using s seg_append [of h a ys y "[]" b] by auto
  have "seg h' a ys y" by (rule seg_frame [OF \<open>seg h a ys y\<close>]) (use e d snoc h' in auto)
  moreover have "seg h' y [e] b" using \<open>seg h y [] b\<close> e d snoc h' by auto
  ultimately show ?thesis using snoc seg_append [of h' a ys y "[e]" b] by simp
qed

lemma seg_remove:
  assumes "seg h a (ys @ e # zs) b" "distinct (a # ys @ e # zs)" "b \<notin> set (ys @ e # zs)"
    and "\<forall>x. x \<noteq> last (a # ys) \<and> x \<noteq> e \<longrightarrow> next_of h' x = next_of h x"
    and "\<forall>x. x \<noteq> hd (zs @ [b]) \<and> x \<noteq> e \<longrightarrow> prev h' x = prev h x"
    and "next_of h' (last (a # ys)) = hd (zs @ [b])" "prev h' (hd (zs @ [b])) = last (a # ys)" "live h' = live h"
  shows "seg h' a (ys @ zs) b"
  using assms(1,2,3,4,6,7)
proof (induction ys arbitrary: a)
  case Nil
  show ?case
  proof (cases zs)
    case Nil
    with Nil.prems assms(8) show ?thesis by simp
  next
    case (Cons z zs')
    with Nil.prems(1) have z: "a \<in> live h" "seg h z zs' b" by simp_all
    have "next_of h' x = next_of h x" if "x \<in> set (z # zs')" for x
      using that Nil.prems(2,4) Cons by (metis append_Nil distinct.simps(2) last.simps list.set_intros(2))
    moreover have "prev h' x = prev h x" if "x \<in> set (zs' @ [b])" for x
    proof -
      have "x \<noteq> z" "x \<noteq> e" using that Nil.prems(2,3) Cons by auto
      with Cons assms(5) show ?thesis by (metis append_Cons list.sel(1))
    qed
    ultimately have "seg h' z zs' b" using z(2) assms(8) by (intro seg_frame [of h z zs' b h']) auto
    with Cons Nil.prems(5,6) z(1) assms(8) show ?thesis by simp
  qed
next
  case (Cons y ys)
  have "seg h' y (ys @ zs) b" by (rule Cons.IH) (use Cons.prems in simp_all)
  moreover have "y \<noteq> hd (zs @ [b])" "y \<noteq> e" using Cons.prems(2,3) hd_in_set [of "zs @ [b]"] by auto
  then have "prev h' y = prev h y" using assms(5) by blast
  moreover have "a \<noteq> last (y # ys)" "a \<noteq> e" using Cons.prems(2) last_in_set [of "y # ys"] by auto
  then have "next_of h' a = next_of h a" using Cons.prems(4) by simp
  ultimately show ?case using Cons.prems(1) assms(8) by simp
qed

section \<open>The operations implement lists\<close>

lemma list_init_ring: "e \<in> live h \<Longrightarrow> \<exists>h'. list_init e h = Some h' \<and> ring h' e [] \<and> live h' = live h"
  by (simp add: list_ops ring_def)

lemma list_empty_ring: "ring h hp xs \<Longrightarrow> list_empty hp h = Some (xs = [])"
  by (cases xs) (auto simp: ring_def list_ops)

text \<open>\<open>list_add_tail\<close> before a member, or before the head.\<close>

definition linked_before :: "nat \<Rightarrow> nat \<Rightarrow> links \<Rightarrow> links" where
  "linked_before e p h = h\<lparr>prev := (prev h)(e := prev h p, p := e), next_of := (next_of h)(e := p, prev h p := e)\<rparr>"

lemma linked_before_live: "live (linked_before e p h) = live h"
  by (simp add: linked_before_def)

lemma list_add_tail_eq:
  "e \<in> live h \<Longrightarrow> p \<in> live h \<Longrightarrow> prev h p \<in> live h \<Longrightarrow> e \<noteq> p \<Longrightarrow> list_add_tail e p h = Some (linked_before e p h)"
  by (auto simp: list_ops linked_before_def)

lemma list_add_eq_tail:
  assumes "e \<in> live h" "hp \<in> live h" "n \<in> live h" "next_of h hp = n" "prev h n = hp" "e \<noteq> n" "e \<noteq> hp"
  shows "list_add e hp h = Some (linked_before e n h)"
  using assms by (auto simp: list_ops linked_before_def fun_upd_twist)

lemma linked_before_head:
  assumes "ring h hp xs" "e \<in> live h" "e \<notin> set (hp # xs)"
  shows "ring (linked_before e hp h) hp (xs @ [e])"
proof -
  from assms have s: "seg h hp xs hp" and d: "distinct (hp # xs)" by (auto simp: ring_def)
  have "seg (linked_before e hp h) hp (xs @ [e]) hp"
    by (rule seg_extend [OF s]) (use assms d seg_last [OF s] in \<open>auto simp: linked_before_def\<close>)
  with d assms show ?thesis by (auto simp: ring_def)
qed

lemma linked_before_member:
  assumes r: "ring h hp (ys @ p # zs)" and e: "e \<in> live h" "e \<notin> set (hp # ys @ p # zs)"
  shows "ring (linked_before e p h) hp (ys @ e # p # zs)"
proof -
  let ?h = "linked_before e p h"
  from r have s: "seg h hp ys p" "seg h p zs hp" and d: "distinct (hp # ys @ p # zs)"
    by (auto simp: ring_def seg_append)
  have l: "prev h p = last (hp # ys)" using seg_last [OF s(1)] by simp
  have "seg ?h hp (ys @ [e]) p"
    by (rule seg_extend [OF s(1)]) (use e d l in \<open>auto simp: linked_before_def\<close>)
  moreover have "last (hp # ys) \<notin> set (p # zs)" using last_in_set [of "hp # ys"] d by auto
  then have "seg ?h p zs hp" by (intro seg_frame [OF s(2)]) (use e d l in \<open>auto simp: linked_before_def\<close>)
  ultimately have "seg ?h hp ((ys @ [e]) @ p # zs) hp" by (simp only: seg_append)
  with d e show ?thesis by (auto simp: ring_def)
qed

lemma ring_live: "ring h hp xs \<Longrightarrow> hp \<in> live h \<and> set xs \<subseteq> live h"
  unfolding ring_def by (blast dest: seg_live)

lemma ring_prev_live: "ring h hp xs \<Longrightarrow> p \<in> set (hp # xs) \<Longrightarrow> prev h p \<in> live h"
proof -
  assume r: "ring h hp xs" and p: "p \<in> set (hp # xs)"
  from r have s: "seg h hp xs hp" by (simp add: ring_def)
  show ?thesis
  proof (cases "p = hp")
    case True
    then have "prev h p = last (hp # xs)" using seg_last [OF s] by simp
    then show ?thesis using ring_live [OF r] last_in_set [of "hp # xs"] by auto
  next
    case False
    then obtain ys zs where xs: "xs = ys @ p # zs" using p split_list by fastforce
    with s have "prev h p = last (hp # ys)" using seg_append seg_last by blast
    then show ?thesis using ring_live [OF r] last_in_set [of "hp # ys"] xs by auto
  qed
qed

lemma list_add_tail_ring:
  assumes "ring h hp xs" "e \<in> live h" "e \<notin> set (hp # xs)"
  shows "\<exists>h'. list_add_tail e hp h = Some h' \<and> ring h' hp (xs @ [e]) \<and> live h' = live h"
  using linked_before_head [OF assms] ring_live [OF assms(1)] ring_prev_live [OF assms(1), of hp] assms
  by (auto simp: list_add_tail_eq linked_before_live)

lemma list_add_tail_member:
  assumes "ring h hp (ys @ p # zs)" "e \<in> live h" "e \<notin> set (hp # ys @ p # zs)"
  shows "\<exists>h'. list_add_tail e p h = Some h' \<and> ring h' hp (ys @ e # p # zs) \<and> live h' = live h"
  using linked_before_member [OF assms] ring_live [OF assms(1)] ring_prev_live [OF assms(1), of p] assms
  by (auto simp: list_add_tail_eq linked_before_live)

lemma list_add_ring:
  assumes r: "ring h hp xs" and e: "e \<in> live h" "e \<notin> set (hp # xs)"
  shows "\<exists>h'. list_add e hp h = Some h' \<and> ring h' hp (e # xs) \<and> live h' = live h"
proof -
  let ?n = "hd (xs @ [hp])"
  from r have "next_of h hp = ?n" "prev h ?n = hp" using seg_first by (auto simp: ring_def)
  moreover have n: "?n \<in> live h" "e \<noteq> ?n" using ring_live [OF r] e by (cases xs; auto)+
  ultimately have "list_add e hp h = Some (linked_before e ?n h)"
    using e ring_live [OF r] by (intro list_add_eq_tail) auto
  moreover have "ring (linked_before e ?n h) hp (e # xs)"
    using linked_before_head [OF r e] linked_before_member [of h hp "[]" ?n "List.tl xs" e] r e by (cases xs) auto
  ultimately show ?thesis by (simp add: linked_before_def)
qed

lemma list_del_ring:
  assumes r: "ring h hp (ys @ e # zs)"
  shows "\<exists>h'. list_del e h = Some h' \<and> ring h' hp (ys @ zs) \<and> live h' = live h"
proof -
  let ?a = "last (hp # ys)" and ?b = "hd (zs @ [hp])"
  from r have s: "seg h hp ys e" "seg h e zs hp" "seg h hp (ys @ e # zs) hp" and d: "distinct (hp # ys @ e # zs)"
    by (auto simp: ring_def seg_append)
  have ab: "prev h e = ?a" "next_of h e = ?b" using seg_last [OF s(1)] seg_first [OF s(2)] by auto
  have l: "e \<in> live h" "?a \<in> live h" "?b \<in> live h"
    using ring_live [OF r] last_in_set [of "hp # ys"] hd_in_set [of "zs @ [hp]"] by auto
  have ne: "?a \<noteq> e" "?b \<noteq> e" using d last_in_set [of "hp # ys"] hd_in_set [of "zs @ [hp]"] by auto
  let ?h = "h\<lparr>prev := (prev h)(?b := ?a, e := 0), next_of := (next_of h)(?a := ?b, e := 0)\<rparr>"
  have "list_del e h = Some ?h" using l ab ne by (auto simp: list_ops)
  moreover have "seg ?h hp (ys @ zs) hp"
    by (rule seg_remove [OF s(3)]) (use d ne in auto)
  ultimately show ?thesis using d by (auto simp: ring_def)
qed

lemma for_each_seg: "seg h p xs b \<Longrightarrow> distinct (p # xs) \<Longrightarrow> b \<notin> set xs \<Longrightarrow>
  for_each_from b (next_of h p) h = Some xs"
proof (induction xs arbitrary: p)
  case Nil
  then show ?case by (simp add: for_each_from.simps)
next
  case (Cons x xs)
  then have "for_each_from b (next_of h x) h = Some xs" by simp
  with Cons.prems seg_live [of h x xs b] show ?case by (subst for_each_from.simps) (auto simp: get_next_def)
qed

lemma list_for_each_ring: "ring h hp xs \<Longrightarrow> list_for_each hp h = Some xs"
  using for_each_seg [of h hp xs hp] ring_live [of h hp xs] by (simp add: list_for_each_def get_next_def ring_def)

section \<open>The interface its clients use\<close>

locale linked_list =
  fixes rep :: "'h \<Rightarrow> nat \<Rightarrow> nat list \<Rightarrow> bool" and nodes :: "'h \<Rightarrow> nat set"
    and append :: "nat \<Rightarrow> nat \<Rightarrow> 'h \<Rightarrow> 'h option" and remove :: "nat \<Rightarrow> 'h \<Rightarrow> 'h option"
    and members :: "nat \<Rightarrow> 'h \<Rightarrow> nat list option"
  assumes append_head: "rep h p xs \<Longrightarrow> e \<in> nodes h \<Longrightarrow> e \<notin> set (p # xs) \<Longrightarrow>
      \<exists>h'. append e p h = Some h' \<and> rep h' p (xs @ [e]) \<and> nodes h' = nodes h"
    and append_member: "rep h p (ys @ c # zs) \<Longrightarrow> e \<in> nodes h \<Longrightarrow> e \<notin> set (p # ys @ c # zs) \<Longrightarrow>
      \<exists>h'. append e c h = Some h' \<and> rep h' p (ys @ e # c # zs) \<and> nodes h' = nodes h"
    and remove_member: "rep h p (ys @ e # zs) \<Longrightarrow> \<exists>h'. remove e h = Some h' \<and> rep h' p (ys @ zs) \<and> nodes h' = nodes h"
    and members_rep: "rep h p xs \<Longrightarrow> members p h = Some xs"
begin

text \<open>Adding in front of the first member with a property, or at the end.\<close>

lemma insert_at_first:
  assumes r: "rep h p xs" and e: "e \<in> nodes h" "e \<notin> set (p # xs)"
  shows "\<exists>h'. do { ys \<leftarrow> members p h; append e (case find P ys of None \<Rightarrow> p | Some c \<Rightarrow> c) h } = Some h'
    \<and> rep h' p (takeWhile (Not \<circ> P) xs @ e # dropWhile (Not \<circ> P) xs) \<and> nodes h' = nodes h"
proof (cases "dropWhile (Not \<circ> P) xs")
  case Nil
  then have f: "find P xs = None" and t: "takeWhile (Not \<circ> P) xs = xs"
    using takeWhile_dropWhile_id [of "Not \<circ> P" xs] by (simp_all add: find_None_iff)
  show ?thesis using append_head [OF r e] unfolding members_rep [OF r] Nil t by (simp add: f)
next
  case (Cons c zs)
  then have xs: "takeWhile (Not \<circ> P) xs @ c # zs = xs" "find P xs = Some c"
    using takeWhile_dropWhile_id [of "Not \<circ> P" xs] by (simp_all add: find_dropWhile)
  then show ?thesis
    using append_member [of h p "takeWhile (Not \<circ> P) xs" c zs e] r e by (simp add: members_rep [OF r] Cons)
qed

text \<open>Removing the first member with a property.\<close>

lemma remove_first:
  assumes r: "rep h p xs" and f: "find P xs = Some c"
  shows "\<exists>h'. remove c h = Some h' \<and> rep h' p (takeWhile (Not \<circ> P) xs @ List.tl (dropWhile (Not \<circ> P) xs)) \<and> nodes h' = nodes h"
proof -
  from f obtain zs where d: "dropWhile (Not \<circ> P) xs = c # zs" by (auto simp: find_dropWhile split: list.splits)
  then have "takeWhile (Not \<circ> P) xs @ c # zs = xs" using takeWhile_dropWhile_id [of "Not \<circ> P" xs] by simp
  then show ?thesis using remove_member [of h p "takeWhile (Not \<circ> P) xs" c zs] r d by simp
qed

end

interpretation libusb_list: linked_list ring live list_add_tail list_del list_for_each
  by unfold_locales (auto intro: list_add_tail_ring list_add_tail_member list_del_ring list_for_each_ring)

text \<open>Adding the only member of a list again leaves a list without end.\<close>

lemma for_each_loops: "next_of h p = p \<Longrightarrow> p \<noteq> hp \<Longrightarrow> for_each_from hp p h = None"
proof (rule ccontr)
  assume "next_of h p = p" "p \<noteq> hp" and "for_each_from hp p h \<noteq> None"
  then obtain xs where xs: "for_each_from hp p h = Some xs" by auto
  have "next_of h p = p \<and> p \<noteq> hp \<longrightarrow> False"
  proof (rule for_each_from.raw_induct [where P = "\<lambda>hp p h y. next_of h p = p \<and> p \<noteq> hp \<longrightarrow> False", OF _ xs], intro impI)
    fix rec and hp p :: nat and h y
    assume IH: "\<And>hp p h y. rec hp p h = Some y \<Longrightarrow> next_of h p = p \<and> p \<noteq> hp \<longrightarrow> False"
      and step: "(if p = hp then Some [] else do { n \<leftarrow> get_next p h; xs \<leftarrow> rec hp n h; Some (p # xs) }) = Some y"
      and l: "next_of h p = p \<and> p \<noteq> hp"
    then obtain xs where "rec hp p h = Some xs" by (auto simp: bind_eq_Some_conv get_next_def split: if_splits)
    then show False using IH l by blast
  qed
  with \<open>next_of h p = p\<close> \<open>p \<noteq> hp\<close> show False by simp
qed

lemma add_twice_loses_end:
  assumes "ring h hp [e]"
  shows "\<exists>h'. list_add_tail e hp h = Some h' \<and> list_for_each hp h' = None"
proof -
  from assms have "e \<noteq> hp" "e \<in> live h" "hp \<in> live h" "next_of h hp = e" "prev h hp = e" by (auto simp: ring_def)
  then have "list_add_tail e hp h = Some (linked_before e hp h)" "next_of (linked_before e hp h) hp = e"
    "next_of (linked_before e hp h) e = e" "hp \<in> live (linked_before e hp h)"
    by (auto simp: list_ops linked_before_def)
  then show ?thesis using \<open>e \<noteq> hp\<close> by (auto simp: list_for_each_def get_next_def for_each_loops)
qed

end
