(* ===== verification/UsbFlight.thy ===== *)
theory UsbFlight
  imports UsbUrb UsbList
begin

text \<open>
  Transfers in flight (\<open>libusb/io.c\<close>): submission, cancellation, completion with the callback of the
  client, timeouts and disconnection, together with the device and handle objects of \<open>core.c\<close> they
  refer to.  The build has no \<open>timerfd\<close> (\<open>config.h\<close> does not define \<open>USBI_TIMERFD_AVAILABLE\<close>), so
  \<open>usbi_using_timerfd\<close> is 0 and arming the timer does nothing.

  The locks make each operation one step.  Objects are named by numbers, 0 is NULL; an object that
  is gone is \<open>None\<close> in its map, and using it is a fault.  The list of transfers in flight is an
  Isabelle list; \<open>link_flying\<close> is its insertion on the linked nodes of \<open>UsbList\<close>.  A callback is
  given by the calls it makes.  Adding a transfer to the list it is already in, or freeing or filling
  a transfer in the list, is forbidden by the documentation and destroys the list: it counts as a
  fault at once.
\<close>

section \<open>Time\<close>

text \<open>\<open>struct timeval\<close> (seconds, microseconds) and \<open>struct timespec\<close> (seconds, nanoseconds).\<close>

type_synonym timeval = "nat \<times> nat"
type_synonym timespec = "nat \<times> nat"

definition timerisset :: "timeval \<Rightarrow> bool" where
  "timerisset t \<longleftrightarrow> fst t \<noteq> 0 \<or> snd t \<noteq> 0"

definition timeval_of :: "timespec \<Rightarrow> timeval" where
  "timeval_of t = (fst t, snd t div 1000)"

text \<open>\<open>a\<close> is after \<open>b\<close>.\<close>

definition later_than :: "timeval \<Rightarrow> timeval \<Rightarrow> bool" where
  "later_than a b \<longleftrightarrow> fst b < fst a \<or> fst a = fst b \<and> snd b < snd a"

definition timeval_sub :: "timeval \<Rightarrow> timeval \<Rightarrow> timeval" where
  "timeval_sub a b = (if snd a < snd b then (fst a - fst b - 1, snd a + 1000000 - snd b)
                   else (fst a - fst b, snd a - snd b))"

fun carry :: "timespec \<Rightarrow> timespec" where
  "carry (s, ns) = (if 1000000000 \<le> ns then carry (s + 1, ns - 1000000000) else (s, ns))"

declare carry.simps [simp del]

section \<open>Objects\<close>

abbreviation TIMED_OUT :: u8 where "TIMED_OUT \<equiv> 1"
abbreviation OS_HANDLES_TIMEOUT :: u8 where "OS_HANDLES_TIMEOUT \<equiv> 2"
abbreviation CANCELLING :: u8 where "CANCELLING \<equiv> 4"
abbreviation DEVICE_DISAPPEARED :: u8 where "DEVICE_DISAPPEARED \<equiv> 8"

abbreviation TRANSFER_FREE_TRANSFER :: u8 where "TRANSFER_FREE_TRANSFER \<equiv> 4"

record usb_dev =
  dv_refcnt :: nat
  dv_parent :: nat
  dv_session :: nat
  dv_attached :: bool

record usb_handle =
  uh_dev :: nat
  uh_fd :: int
  uh_caps :: u32
  uh_claimed :: u32
  uh_auto_detach :: bool

text \<open>The rest of \<open>struct usbi_transfer\<close> and \<open>struct libusb_transfer\<close>: \<open>timeout\<close>, \<open>flags\<close>,
  \<open>dev_handle\<close> and whether \<open>callback\<close> is set.\<close>

record flight =
  fl_xfer :: usb_transfer
  fl_deadline :: timeval
  fl_flags :: u8
  fl_handle :: nat
  fl_callback :: bool

text \<open>\<open>usb_devs\<close> are the device objects, \<open>known_devs\<close> is the list of attached ones and \<open>departed\<close> the
  messages in the hotplug pipe.  \<open>kernel_fds\<close>, \<open>submits\<close>, \<open>reports\<close> and \<open>lost\<close> are ghost state: the
  open files, the successful submissions, the completed transfers with their status, and the transfers dropped by closing their handle with the device
  whose reference they kept.\<close>

record io_context =
  usb_devs :: "nat \<Rightarrow> usb_dev option"
  known_devs :: "nat list"
  departed :: "nat list"
  open_devs :: "nat list"
  dev_handles :: "nat \<Rightarrow> usb_handle option"
  transfers :: "nat \<Rightarrow> flight option"
  flying_transfers :: "nat list"
  pollfds :: "(int \<times> u32) list"
  kernel_fds :: "int list"
  submits :: "nat list"
  reports :: "(nat \<times> xfer_status) list"
  lost :: "(nat \<times> nat) list"

definition set_flight :: "nat \<Rightarrow> flight \<Rightarrow> io_context \<Rightarrow> io_context" where
  "set_flight i f s = s\<lparr>transfers := (transfers s)(i \<mapsto> f)\<rparr>"

section \<open>References on devices\<close>

definition libusb_ref_device :: "nat \<Rightarrow> io_context \<Rightarrow> io_context option" where
  "libusb_ref_device d s = do {
     v \<leftarrow> usb_devs s d;
     Some (s\<lparr>usb_devs := (usb_devs s)(d \<mapsto> v\<lparr>dv_refcnt := dv_refcnt v + 1\<rparr>)\<rparr>) }"

text \<open>The last reference destroys the device and gives back its reference on the parent.\<close>

partial_function (option) libusb_unref_device :: "nat \<Rightarrow> io_context \<Rightarrow> io_context option" where
  [code]: "libusb_unref_device d s =
     (if d = 0 then Some s
      else do {
        v \<leftarrow> usb_devs s d;
        let s1 = s\<lparr>usb_devs := (usb_devs s)(d \<mapsto> v\<lparr>dv_refcnt := dv_refcnt v - 1\<rparr>)\<rparr>;
        if dv_refcnt v = 1 then do {
          s2 \<leftarrow> libusb_unref_device (dv_parent v) s1;
          Some (s2\<lparr>usb_devs := (usb_devs s2)(d := None)\<rparr>) }
        else Some s1 })"

section \<open>The list of transfers in flight\<close>

text \<open>The client is told the time by the kernel; \<open>None\<close>: reading the clock fails.\<close>

definition calculate_timeout :: "timespec option \<Rightarrow> flight \<Rightarrow> flight option" where
  "calculate_timeout clock f =
     (let timeout = tr_timeout (fl_xfer f) in
      if timeout = 0 then Some f
      else case clock of None \<Rightarrow> None
      | Some (s, ns) \<Rightarrow>
          Some (f\<lparr>fl_deadline := timeval_of (carry (s + timeout div 1000, ns + timeout mod 1000 * 1000000))\<rparr>))"

text \<open>The loop of \<open>add_to_flying_list\<close>; \<open>dl\<close> gives the deadlines of the members.\<close>

primrec insert_before :: "(nat \<Rightarrow> timeval) \<Rightarrow> nat \<Rightarrow> nat list \<Rightarrow> nat list" where
  "insert_before dl e [] = [e]"
| "insert_before dl e (c # cs) =
     (if \<not> timerisset (dl c) \<or> later_than (dl c) (dl e) then e # c # cs else c # insert_before dl e cs)"

definition insert_flying :: "(nat \<Rightarrow> timeval) \<Rightarrow> nat \<Rightarrow> nat list \<Rightarrow> nat list" where
  "insert_flying dl e xs =
     (if xs = [] then [e] else if \<not> timerisset (dl e) then xs @ [e] else insert_before dl e xs)"

text \<open>The same on the linked list with head \<open>hp\<close>.\<close>

definition link_flying :: "(nat \<Rightarrow> timeval) \<Rightarrow> nat \<Rightarrow> nat \<Rightarrow> links \<Rightarrow> links option" where
  "link_flying dl e hp h = do {
     empty \<leftarrow> list_empty hp h;
     if empty then list_add e hp h
     else if \<not> timerisset (dl e) then list_add_tail e hp h
     else do {
       cs \<leftarrow> list_for_each hp h;
       list_add_tail e (case find (\<lambda>c. \<not> timerisset (dl c) \<or> later_than (dl c) (dl e)) cs of None \<Rightarrow> hp | Some c \<Rightarrow> c) h } }"

definition deadline :: "io_context \<Rightarrow> nat \<Rightarrow> timeval" where
  "deadline s i = (case transfers s i of Some f \<Rightarrow> fl_deadline f | None \<Rightarrow> (0, 0))"

definition add_to_flying_list :: "nat \<Rightarrow> io_context \<Rightarrow> io_context option" where
  "add_to_flying_list i s =
     (if i \<in> set (flying_transfers s) \<or> (\<exists>j \<in> set (flying_transfers s). transfers s j = None) then None
      else Some (s\<lparr>flying_transfers := insert_flying (deadline s) i (flying_transfers s)\<rparr>))"

definition remove_flying :: "nat \<Rightarrow> io_context \<Rightarrow> io_context option" where
  "remove_flying i s =
     (if i \<in> set (flying_transfers s) then Some (s\<lparr>flying_transfers := remove1 i (flying_transfers s)\<rparr>) else None)"

section \<open>Calls of the client\<close>

text \<open>What the kernel and the allocator answer to one call: the clock, the allocations, the
  error numbers of the submitted and of the discarded blocks.\<close>

record submit_answers =
  an_clock :: "timespec option"
  an_mem :: "nat \<Rightarrow> bool"
  an_sub :: "nat \<Rightarrow> int"
  an_dis :: "nat \<Rightarrow> int"

text \<open>\<open>calloc\<close> clears the transfer.\<close>

definition zero_transfer :: "nat \<Rightarrow> usb_transfer" where
  "zero_transfer n = \<lparr>tr_flags = 0, tr_endpoint = 0, tr_type = 0, tr_timeout = 0, tr_status = ST_COMPLETED,
     tr_actual_length = 0, tr_buffer = [], tr_packets = replicate n \<lparr>pd_length = 0, pd_actual = 0, pd_status = ST_COMPLETED\<rparr>,
     tr_stream_id = 0, transferred = 0, urbs = None, reap_act = NORMAL, num_urbs = 0, num_retired = 0,
     reap_status = ST_COMPLETED, iso_packet_offset = 0, flying = {}, discarding = {}\<rparr>"

text \<open>\<open>i\<close> is the address of the new transfer, when there is memory for it.\<close>

definition libusb_alloc_transfer :: "bool \<Rightarrow> nat \<Rightarrow> nat \<Rightarrow> io_context \<Rightarrow> (nat \<times> io_context) option" where
  "libusb_alloc_transfer mem i n s =
     (if \<not> mem then Some (0, s)
      else if i = 0 \<or> transfers s i \<noteq> None then None
      else Some (i, set_flight i \<lparr>fl_xfer = zero_transfer n, fl_deadline = (0, 0), fl_flags = 0, fl_handle = 0,
                               fl_callback = False\<rparr> s))"

definition libusb_free_transfer :: "nat \<Rightarrow> io_context \<Rightarrow> io_context option" where
  "libusb_free_transfer i s =
     (if i = 0 then Some s
      else if transfers s i = None \<or> i \<in> set (flying_transfers s) then None
      else Some (s\<lparr>transfers := (transfers s)(i := None)\<rparr>))"

text \<open>The fields \<open>libusb_fill_control_transfer\<close> and its relatives write, and \<open>flags\<close>.\<close>

record fill_request =
  rq_handle :: nat
  rq_endpoint :: u8
  rq_type :: u8
  rq_timeout :: nat
  rq_buffer :: bytes
  rq_callback :: bool
  rq_flags :: u8

definition fill_transfer :: "fill_request \<Rightarrow> nat \<Rightarrow> io_context \<Rightarrow> io_context option" where
  "fill_transfer q i s = do {
     f \<leftarrow> transfers s i;
     if i \<in> set (flying_transfers s) then None
     else Some (set_flight i (f\<lparr>fl_handle := rq_handle q, fl_callback := rq_callback q,
       fl_xfer := (fl_xfer f)\<lparr>tr_endpoint := rq_endpoint q, tr_type := rq_type q, tr_timeout := rq_timeout q,
         tr_buffer := rq_buffer q, tr_flags := rq_flags q\<rparr>\<rparr>) s) }"

definition libusb_submit_transfer :: "submit_answers \<Rightarrow> nat \<Rightarrow> io_context \<Rightarrow> (int \<times> io_context) option" where
  "libusb_submit_transfer a i s = do {
     f \<leftarrow> transfers s i;
     h \<leftarrow> dev_handles s (fl_handle f);
     let f1 = f\<lparr>fl_xfer := (fl_xfer f)\<lparr>transferred := 0\<rparr>, fl_flags := 0\<rparr>;
     case calculate_timeout (an_clock a) f1 of
       None \<Rightarrow> Some (ERR_OTHER, set_flight i f1 s)
     | Some f2 \<Rightarrow> do {
         s1 \<leftarrow> add_to_flying_list i (set_flight i f2 s);
         (r, t) \<leftarrow> op_submit_transfer (uh_caps h) (an_mem a) (an_sub a) (an_dis a) (fl_xfer f2);
         let s2 = set_flight i (f2\<lparr>fl_xfer := t\<rparr>) s1;
         if r \<noteq> 0 then do { s3 \<leftarrow> remove_flying i s2; Some (r, s3) }
         else do { s3 \<leftarrow> libusb_ref_device (uh_dev h) s2; Some (r, s3\<lparr>submits := submits s3 @ [i]\<rparr>) } } }"

definition libusb_cancel_transfer :: "(nat \<Rightarrow> int) \<Rightarrow> nat \<Rightarrow> io_context \<Rightarrow> (int \<times> io_context) option" where
  "libusb_cancel_transfer dis i s = do {
     f \<leftarrow> transfers s i;
     if urbs (fl_xfer f) \<noteq> None \<and> dev_handles s (fl_handle f) = None then None
     else let (r, t) = op_cancel_transfer dis (fl_xfer f);
              fl = (if r = ERR_NO_DEVICE then fl_flags f OR DEVICE_DISAPPEARED else fl_flags f) in
          Some (r, set_flight i (f\<lparr>fl_xfer := t, fl_flags := fl OR CANCELLING\<rparr>) s) }"

definition libusb_transfer_set_stream_id :: "u32 \<Rightarrow> nat \<Rightarrow> io_context \<Rightarrow> io_context option" where
  "libusb_transfer_set_stream_id v i s = do {
     f \<leftarrow> transfers s i; Some (set_flight i (f\<lparr>fl_xfer := (fl_xfer f)\<lparr>tr_stream_id := v\<rparr>\<rparr>) s) }"

definition libusb_transfer_get_stream_id :: "nat \<Rightarrow> io_context \<Rightarrow> u32 option" where
  "libusb_transfer_get_stream_id i s = do { f \<leftarrow> transfers s i; Some (tr_stream_id (fl_xfer f)) }"

datatype action =
  Alloc bool nat nat | Fill fill_request nat | Submit submit_answers nat | Cancel "nat \<Rightarrow> int" nat | SetStream u32 nat | Free nat

primrec act :: "action \<Rightarrow> io_context \<Rightarrow> io_context option" where
  "act (Alloc mem i n) s = do { (p, s1) \<leftarrow> libusb_alloc_transfer mem i n s; Some s1 }"
| "act (Fill q i) s = fill_transfer q i s"
| "act (Submit a i) s = do { (r, s1) \<leftarrow> libusb_submit_transfer a i s; Some s1 }"
| "act (Cancel dis i) s = do { (r, s1) \<leftarrow> libusb_cancel_transfer dis i s; Some s1 }"
| "act (SetStream v i) s = libusb_transfer_set_stream_id v i s"
| "act (Free i) s = libusb_free_transfer i s"

primrec acts :: "action list \<Rightarrow> io_context \<Rightarrow> io_context option" where
  "acts [] s = Some s"
| "acts (x # xs) s = do { s1 \<leftarrow> act x s; acts xs s1 }"

section \<open>Completion\<close>

text \<open>The callback of the client: the calls it makes when transfer \<open>i\<close> completes.\<close>

type_synonym callback = "nat \<Rightarrow> io_context \<Rightarrow> action list"

definition final_status :: "usb_transfer \<Rightarrow> xfer_status \<Rightarrow> xfer_status" where
  "final_status t st =
     (if st = ST_COMPLETED \<and> tr_flags t AND TRANSFER_SHORT_NOT_OK \<noteq> 0
         \<and> (if tr_type t = TYPE_CONTROL then int (tr_length t) - CONTROL_SETUP_SIZE else int (tr_length t))
             \<noteq> int (transferred t)
      then ST_ERROR else st)"

definition usbi_handle_transfer_completion ::
  "callback \<Rightarrow> nat \<Rightarrow> xfer_status \<Rightarrow> io_context \<Rightarrow> io_context option" where
  "usbi_handle_transfer_completion cb i st s = do {
     f \<leftarrow> transfers s i;
     h \<leftarrow> dev_handles s (fl_handle f);
     s1 \<leftarrow> remove_flying i s;
     let t = fl_xfer f;
     let st1 = final_status t st;
     let s2 = set_flight i (f\<lparr>fl_xfer := t\<lparr>tr_status := st1, tr_actual_length := transferred t\<rparr>\<rparr>)
                (s1\<lparr>reports := reports s1 @ [(i, st1)]\<rparr>);
     s3 \<leftarrow> (if fl_callback f then acts (cb i s2) s2 else Some s2);
     s4 \<leftarrow> (if tr_flags t AND TRANSFER_FREE_TRANSFER \<noteq> 0 then libusb_free_transfer i s3 else Some s3);
     h \<leftarrow> dev_handles s4 (fl_handle f);
     libusb_unref_device (uh_dev h) s4 }"

definition usbi_handle_transfer_cancellation :: "callback \<Rightarrow> nat \<Rightarrow> io_context \<Rightarrow> io_context option" where
  "usbi_handle_transfer_cancellation cb i s = do {
     f \<leftarrow> transfers s i;
     if fl_flags f AND TIMED_OUT \<noteq> 0 then usbi_handle_transfer_completion cb i ST_TIMED_OUT s
     else usbi_handle_transfer_completion cb i ST_CANCELLED s }"

text \<open>\<open>reap_for_handle\<close> with the report it ends in.\<close>

definition reap_flight ::
  "callback \<Rightarrow> (nat \<Rightarrow> int) \<Rightarrow> nat \<Rightarrow> nat \<Rightarrow> completion \<Rightarrow> io_context \<Rightarrow> io_context option" where
  "reap_flight cb dis i idx c s = do {
     f \<leftarrow> transfers s i;
     h \<leftarrow> dev_handles s (fl_handle f);
     (r, t) \<leftarrow> reap_urb dis idx c (fl_xfer f);
     let s1 = set_flight i (f\<lparr>fl_xfer := t\<rparr>) s;
     case r of
       Waiting \<Rightarrow> Some s1
     | Cancelled \<Rightarrow> usbi_handle_transfer_cancellation cb i s1
     | Completed st \<Rightarrow> usbi_handle_transfer_completion cb i st s1 }"

section \<open>Timeouts\<close>

definition handle_timeout :: "(nat \<Rightarrow> int) \<Rightarrow> nat \<Rightarrow> io_context \<Rightarrow> io_context option" where
  "handle_timeout dis i s = do {
     f \<leftarrow> transfers s i;
     (r, s1) \<leftarrow> libusb_cancel_transfer dis i (set_flight i (f\<lparr>fl_flags := fl_flags f OR TIMED_OUT\<rparr>) s);
     Some s1 }"

definition handled :: "flight \<Rightarrow> bool" where
  "handled f \<longleftrightarrow> fl_flags f AND (TIMED_OUT OR OS_HANDLES_TIMEOUT) \<noteq> 0"

primrec timeouts_loop :: "(nat \<Rightarrow> nat \<Rightarrow> int) \<Rightarrow> timeval \<Rightarrow> nat list \<Rightarrow> io_context \<Rightarrow> io_context option" where
  "timeouts_loop dis now [] s = Some s"
| "timeouts_loop dis now (i # is) s = do {
     f \<leftarrow> transfers s i;
     if \<not> timerisset (fl_deadline f) then Some s
     else if handled f then timeouts_loop dis now is s
     else if later_than (fl_deadline f) now then Some s
     else do { s1 \<leftarrow> handle_timeout (dis i) i s; timeouts_loop dis now is s1 } }"

definition handle_timeouts ::
  "timespec option \<Rightarrow> (nat \<Rightarrow> nat \<Rightarrow> int) \<Rightarrow> io_context \<Rightarrow> io_context option" where
  "handle_timeouts clock dis s =
     (if flying_transfers s = [] then Some s
      else case clock of None \<Rightarrow> Some s
      | Some now \<Rightarrow> timeouts_loop dis (timeval_of now) (flying_transfers s) s)"

text \<open>The first transfer that can still time out.\<close>

primrec next_pending :: "nat list \<Rightarrow> io_context \<Rightarrow> flight option option" where
  "next_pending [] s = Some None"
| "next_pending (i # is) s = do {
     f \<leftarrow> transfers s i;
     if handled f \<or> \<not> timerisset (fl_deadline f) then next_pending is s else Some (Some f) }"

text \<open>\<open>None\<close>: nothing to wait for, the code returns 0; otherwise it returns 1 and the time to wait.\<close>

definition libusb_get_next_timeout :: "timespec option \<Rightarrow> io_context \<Rightarrow> timeval option option" where
  "libusb_get_next_timeout clock s =
     (if flying_transfers s = [] then Some None
      else do {
        p \<leftarrow> next_pending (flying_transfers s) s;
        Some (case (p, clock) of
          (Some f, Some now) \<Rightarrow> Some (if later_than (fl_deadline f) (timeval_of now)
                                      then timeval_sub (fl_deadline f) (timeval_of now) else (0, 0))
        | _ \<Rightarrow> None) })"

text \<open>The smaller of that and the time the client wants to wait: \<open>None\<close> when a timeout has expired.\<close>

definition get_next_timeout :: "timespec option \<Rightarrow> timeval \<Rightarrow> io_context \<Rightarrow> timeval option option" where
  "get_next_timeout clock tv s = do {
     r \<leftarrow> libusb_get_next_timeout clock s;
     Some (case r of None \<Rightarrow> Some tv
       | Some t \<Rightarrow> if \<not> timerisset t then None else if later_than tv t then Some t else Some tv) }"

section \<open>Disconnection and closing\<close>

definition of_handle :: "io_context \<Rightarrow> nat \<Rightarrow> nat \<Rightarrow> bool" where
  "of_handle s h i \<longleftrightarrow> (case transfers s i of Some f \<Rightarrow> fl_handle f = h | None \<Rightarrow> False)"

text \<open>The loop may be kept running by a callback that submits again.\<close>

partial_function (option) usbi_handle_disconnect :: "callback \<Rightarrow> nat \<Rightarrow> io_context \<Rightarrow> io_context option" where
  [code]: "usbi_handle_disconnect cb h s =
     (case find (of_handle s h) (flying_transfers s) of
        None \<Rightarrow> Some s
      | Some i \<Rightarrow> do {
          f \<leftarrow> transfers s i;
          t \<leftarrow> op_clear_transfer_priv (fl_xfer f);
          s1 \<leftarrow> usbi_handle_transfer_completion cb i ST_NO_DEVICE (set_flight i (f\<lparr>fl_xfer := t\<rparr>) s);
          usbi_handle_disconnect cb h s1 })"

definition usbi_remove_pollfd :: "int \<Rightarrow> io_context \<Rightarrow> io_context" where
  "usbi_remove_pollfd fd s = s\<lparr>pollfds := (case find (\<lambda>p. fst p = fd) (pollfds s) of
     None \<Rightarrow> pollfds s | Some p \<Rightarrow> remove1 p (pollfds s))\<rparr>"

definition usbi_add_pollfd :: "bool \<Rightarrow> int \<Rightarrow> u32 \<Rightarrow> io_context \<Rightarrow> int \<times> io_context" where
  "usbi_add_pollfd mem fd ev s = (if mem then (0, s\<lparr>pollfds := pollfds s @ [(fd, ev)]\<rparr>) else (ERROR_NO_MEM, s))"

definition op_close :: "int \<Rightarrow> io_context \<Rightarrow> io_context" where
  "op_close fd s = (usbi_remove_pollfd fd s)\<lparr>kernel_fds := remove1 fd (kernel_fds s)\<rparr>"

text \<open>The transfers of the handle leave the list; their references on the device are not given
  back.\<close>

primrec detach_transfers :: "nat \<Rightarrow> nat list \<Rightarrow> io_context \<Rightarrow> io_context option" where
  "detach_transfers h [] s = Some s"
| "detach_transfers h (i # is) s = do {
     f \<leftarrow> transfers s i;
     if fl_handle f \<noteq> h then detach_transfers h is s
     else do {
       u \<leftarrow> dev_handles s h;
       s1 \<leftarrow> remove_flying i s;
       detach_transfers h is (set_flight i (f\<lparr>fl_handle := 0\<rparr>)
         (s1\<lparr>lost := lost s1 @ [(i, uh_dev u)]\<rparr>)) } }"

definition do_close :: "nat \<Rightarrow> io_context \<Rightarrow> io_context option" where
  "do_close h s = do {
     u \<leftarrow> dev_handles s h;
     s1 \<leftarrow> detach_transfers h (flying_transfers s) s;
     s2 \<leftarrow> (if h \<in> set (open_devs s1) then Some (s1\<lparr>open_devs := remove1 h (open_devs s1)\<rparr>) else None);
     s3 \<leftarrow> libusb_unref_device (uh_dev u) (op_close (uh_fd u) s2);
     Some (s3\<lparr>dev_handles := (dev_handles s3)(h := None)\<rparr>) }"

text \<open>Interrupting the event handler with a byte in the control pipe has no effect on this state.\<close>

definition libusb_close_handle :: "nat \<Rightarrow> io_context \<Rightarrow> io_context option" where
  "libusb_close_handle h s = (if h = 0 then Some s else do_close h s)"

section \<open>Opening\<close>

abbreviation ERR_ACCESS :: int where "ERR_ACCESS \<equiv> -3"
abbreviation EACCES :: int where "EACCES \<equiv> 13"
abbreviation POLLOUT :: u32 where "POLLOUT \<equiv> 4"

text \<open>The file is opened a second time when it does not exist yet; a negative result is minus the
  error number.\<close>

definition get_usbfs_fd :: "int \<Rightarrow> int \<Rightarrow> int" where
  "get_usbfs_fd first second =
     (if 0 \<le> first then first
      else let r = (if first = - ENOENT then second else first) in
        if 0 \<le> r then r
        else if r = - EACCES then ERR_ACCESS
        else if r = - ENOENT then ERR_NO_DEVICE
        else ERROR_IO)"

definition usbi_get_device_by_session_id :: "nat \<Rightarrow> io_context \<Rightarrow> (nat \<times> io_context) option" where
  "usbi_get_device_by_session_id session s =
     (case find (\<lambda>d. map_option dv_session (usb_devs s d) = Some session) (known_devs s) of
        None \<Rightarrow> Some (0, s)
      | Some d \<Rightarrow> if d = 0 then None else do { s1 \<leftarrow> libusb_ref_device d s; Some (d, s1) })"

definition usbi_disconnect_device :: "nat \<Rightarrow> io_context \<Rightarrow> io_context option" where
  "usbi_disconnect_device d s = do {
     v \<leftarrow> usb_devs s d;
     if d \<in> set (known_devs s)
     then Some (s\<lparr>usb_devs := (usb_devs s)(d \<mapsto> v\<lparr>dv_attached := False\<rparr>),
                  known_devs := remove1 d (known_devs s), departed := departed s @ [d]\<rparr>)
     else None }"

definition linux_device_disconnected :: "nat \<Rightarrow> io_context \<Rightarrow> io_context option" where
  "linux_device_disconnected session s = do {
     (d, s1) \<leftarrow> usbi_get_device_by_session_id session s;
     if d = 0 then Some s1
     else do { s2 \<leftarrow> usbi_disconnect_device d s1; libusb_unref_device d s2 } }"

text \<open>What the system answers when a device is opened: whether there is memory for the handle, the
  two attempts to open the file, its capabilities if it knows that request, and whether there is
  memory for the entry in the poll list.  The last two say what old kernels support.\<close>

record open_answers =
  oa_mem :: bool
  oa_first :: int
  oa_second :: int
  oa_caps :: "u32 option"
  oa_pollmem :: bool
  supports_flag_zero_packet :: bool
  supports_flag_bulk_continuation :: bool

definition op_open :: "open_answers \<Rightarrow> usb_handle \<Rightarrow> io_context \<Rightarrow> (int \<times> usb_handle \<times> io_context) option" where
  "op_open a u s =
     (let fd = get_usbfs_fd (oa_first a) (oa_second a); u1 = u\<lparr>uh_fd := fd\<rparr> in
      if fd < 0 then do {
        v \<leftarrow> usb_devs s (uh_dev u);
        s1 \<leftarrow> (if fd = ERR_NO_DEVICE \<and> dv_attached v then linux_device_disconnected (dv_session v) s else Some s);
        Some (fd, u1, s1) }
      else
        let caps = (case oa_caps a of Some c \<Rightarrow> c | None \<Rightarrow>
              (if supports_flag_zero_packet a then CAP_ZERO_PACKET else 0)
              OR (if supports_flag_bulk_continuation a then CAP_BULK_CONTINUATION else 0));
            (r, s1) = usbi_add_pollfd (oa_pollmem a) fd POLLOUT (s\<lparr>kernel_fds := fd # kernel_fds s\<rparr>)
        in Some (r, u1\<lparr>uh_caps := caps\<rparr>, s1))"

text \<open>\<open>h\<close> is the address of the new handle.\<close>

definition libusb_open_device :: "open_answers \<Rightarrow> nat \<Rightarrow> nat \<Rightarrow> io_context \<Rightarrow> (int \<times> io_context) option" where
  "libusb_open_device a d h s = do {
     v \<leftarrow> (if d = 0 then None else usb_devs s d);
     if \<not> dv_attached v then Some (ERR_NO_DEVICE, s)
     else if \<not> oa_mem a then Some (ERROR_NO_MEM, s)
     else if h = 0 \<or> dev_handles s h \<noteq> None then None
     else do {
       s1 \<leftarrow> libusb_ref_device d s;
       (r, u, s2) \<leftarrow> op_open a \<lparr>uh_dev = d, uh_fd = 0, uh_caps = 0, uh_claimed = 0, uh_auto_detach = False\<rparr> s1;
       if r < 0 then do { s3 \<leftarrow> libusb_unref_device d s2; Some (r, s3) }
       else Some (0, s2\<lparr>open_devs := h # open_devs s2, dev_handles := (dev_handles s2)(h \<mapsto> u)\<rparr>) } }"

end
