(* ===== verification/UsbFlightProofs.thy ===== *)
theory UsbFlightProofs
  imports UsbFlight
begin

text \<open>
  The transfers in flight are accounted for.  \<open>flights_ok\<close> is the invariant of a context: the list
  is sorted by the time the transfers are due with those that wait for ever at the end, its members
  are alive and their handles open, the reference count of a device is the number of its other
  references, of its open handles and of its transfers in flight, and every successful submission is
  either in flight, reported or dropped by closing, once.  Every operation and every callback keeps it.
  With it the early exits of the timeout functions are shown to lose
  nothing, and disconnection to report every transfer of the handle.
\<close>

section \<open>When a transfer is due\<close>

datatype due = Due nat nat | Never

instantiation due :: linorder
begin

fun less_eq_due :: "due \<Rightarrow> due \<Rightarrow> bool" where
  "less_eq_due a Never \<longleftrightarrow> True"
| "less_eq_due Never (Due s u) \<longleftrightarrow> False"
| "less_eq_due (Due s u) (Due s' u') \<longleftrightarrow> s < s' \<or> s = s' \<and> u \<le> u'"

definition less_due :: "due \<Rightarrow> due \<Rightarrow> bool" where
  "less_due a b \<longleftrightarrow> a \<le> b \<and> \<not> b \<le> a"

instance
proof
  fix a b c :: due
  show "a < b \<longleftrightarrow> a \<le> b \<and> \<not> b \<le> a" by (rule less_due_def)
  show "a \<le> a" by (cases a) auto
  show "a \<le> b \<Longrightarrow> b \<le> c \<Longrightarrow> a \<le> c" by (cases a; cases b; cases c) auto
  show "a \<le> b \<Longrightarrow> b \<le> a \<Longrightarrow> a = b" by (cases a; cases b) auto
  show "a \<le> b \<or> b \<le> a" by (cases a; cases b) auto
qed

end

definition due_of :: "timeval \<Rightarrow> due" where
  "due_of t = (if timerisset t then Due (fst t) (snd t) else Never)"

lemma less_Due [simp]: "Due s u < Due s' u' \<longleftrightarrow> s < s' \<or> s = s' \<and> u < u'"
  by (auto simp: less_due_def)

lemma less_Never [simp]: "a < Never \<longleftrightarrow> a \<noteq> Never" "\<not> Never < a"
  by (cases a; auto simp: less_due_def)+

lemma due_of_Never [simp]: "due_of t = Never \<longleftrightarrow> \<not> timerisset t"
  by (simp add: due_of_def)

lemma due_less: "timerisset a \<Longrightarrow> due_of a < due_of b \<longleftrightarrow> \<not> timerisset b \<or> later_than b a"
  by (auto simp: due_of_def later_than_def)

text \<open>The insertion goes behind everything that is due at the same time or before.\<close>

definition due_sorted :: "(nat \<Rightarrow> timeval) \<Rightarrow> nat list \<Rightarrow> bool" where
  "due_sorted dl xs \<longleftrightarrow> sorted (map (\<lambda>i. due_of (dl i)) xs)"

lemma insert_before_splits:
  assumes "timerisset (dl e)"
  shows "insert_before dl e xs = takeWhile (\<lambda>c. due_of (dl c) \<le> due_of (dl e)) xs @ e # dropWhile (\<lambda>c. due_of (dl c) \<le> due_of (dl e)) xs"
  using due_less [OF assms] by (induction xs) (auto simp flip: not_less)

lemma insert_flying_splits:
  "insert_flying dl e xs = takeWhile (\<lambda>c. due_of (dl c) \<le> due_of (dl e)) xs @ e # dropWhile (\<lambda>c. due_of (dl c) \<le> due_of (dl e)) xs"
proof (cases "timerisset (dl e)")
  case True
  then show ?thesis by (simp add: insert_flying_def insert_before_splits)
next
  case False
  then have "due_of (dl e) = Never" by simp
  then have "due_of (dl c) \<le> due_of (dl e)" for c by (simp only: less_eq_due.simps)
  with False show ?thesis by (cases xs) (simp_all add: insert_flying_def takeWhile_eq_all_conv [THEN iffD2] dropWhile_eq_Nil_conv [THEN iffD2])
qed

lemma insert_flying_parts:
  obtains ys zs where "xs = ys @ zs" "insert_flying dl e xs = ys @ e # zs"
    "\<forall>y \<in> set ys. due_of (dl y) \<le> due_of (dl e)"
    "zs = [] \<or> due_of (dl e) < due_of (dl (hd zs))"
proof (rule that)
  let ?P = "\<lambda>c. due_of (dl c) \<le> due_of (dl e)"
  show "xs = takeWhile ?P xs @ dropWhile ?P xs" by simp
  show "insert_flying dl e xs = takeWhile ?P xs @ e # dropWhile ?P xs" by (rule insert_flying_splits)
  show "\<forall>y \<in> set (takeWhile ?P xs). ?P y" by (blast dest: set_takeWhileD)
  show "dropWhile ?P xs = [] \<or> due_of (dl e) < due_of (dl (hd (dropWhile ?P xs)))"
    using hd_dropWhile [of ?P xs] by (metis not_le)
qed

lemma insert_flying_sorted:
  assumes "due_sorted dl xs"
  shows "due_sorted dl (insert_flying dl e xs)"
proof -
  obtain ys zs where xs: "xs = ys @ zs" and r: "insert_flying dl e xs = ys @ e # zs"
    and y: "\<forall>y \<in> set ys. due_of (dl y) \<le> due_of (dl e)" and z: "zs = [] \<or> due_of (dl e) < due_of (dl (hd zs))"
    using insert_flying_parts [of xs dl e] by metis
  have "due_of (dl e) \<le> due_of (dl x)" if x: "x \<in> set zs" for x
  proof -
    obtain w ws where zs: "zs = w # ws" using x by (cases zs) auto
    with z have "due_of (dl e) \<le> due_of (dl w)" by simp
    also have "due_of (dl w) \<le> due_of (dl x)"
      using assms x zs by (auto simp: due_sorted_def xs sorted_append)
    finally show ?thesis .
  qed
  with assms y show ?thesis unfolding r by (auto simp: due_sorted_def xs sorted_append intro: order_trans)
qed

lemma set_insert_flying [simp]: "set (insert_flying dl e xs) = insert e (set xs)"
  by (rule insert_flying_parts [of xs dl e]) simp

lemma filter_insert_flying:
  "length (filter P (insert_flying dl e xs)) = length (filter P xs) + (if P e then 1 else 0)"
  by (rule insert_flying_parts [of xs dl e]) simp

lemma distinct_insert_flying: "distinct xs \<Longrightarrow> e \<notin> set xs \<Longrightarrow> distinct (insert_flying dl e xs)"
  by (rule insert_flying_parts [of xs dl e]) auto

lemma insert_before_first:
  "insert_before dl e xs = takeWhile (Not \<circ> (\<lambda>c. \<not> timerisset (dl c) \<or> later_than (dl c) (dl e))) xs
     @ e # dropWhile (Not \<circ> (\<lambda>c. \<not> timerisset (dl c) \<or> later_than (dl c) (dl e))) xs"
  by (induction xs) auto

lemma link_flying_ring:
  assumes r: "ring h hp xs" and e: "e \<in> live h" "e \<notin> set (hp # xs)"
  shows "\<exists>h'. link_flying dl e hp h = Some h' \<and> ring h' hp (insert_flying dl e xs) \<and> live h' = live h"
proof (cases "xs = []")
  case True
  then show ?thesis using list_add_ring [OF r e] by (simp add: link_flying_def insert_flying_def list_empty_ring [OF r])
next
  case False
  show ?thesis
  proof (cases "timerisset (dl e)")
    case True
    then show ?thesis
      using libusb_list.insert_at_first [OF r e, of "\<lambda>c. \<not> timerisset (dl c) \<or> later_than (dl c) (dl e)"] False
      by (simp add: link_flying_def insert_flying_def insert_before_first list_empty_ring [OF r])
  next
    case never: False
    then show ?thesis using list_add_tail_ring [OF r e] False by (simp add: link_flying_def insert_flying_def list_empty_ring [OF r])
  qed
qed

lemma carry_eq: "carry (s, ns) = (s + ns div 1000000000, ns mod 1000000000)"
proof (induction "(s, ns)" arbitrary: s ns rule: carry.induct)
  case (1 s ns)
  then show ?case by (cases "1000000000 \<le> ns") (simp_all add: carry.simps [of s ns] le_div_geq le_mod_geq)
qed

section \<open>The invariant\<close>

definition dev_of :: "io_context \<Rightarrow> nat \<Rightarrow> nat option" where
  "dev_of s i = (case transfers s i of None \<Rightarrow> None | Some f \<Rightarrow> map_option uh_dev (dev_handles s (fl_handle f)))"

definition flying_on :: "io_context \<Rightarrow> nat \<Rightarrow> nat" where
  "flying_on s d = length (filter (\<lambda>i. dev_of s i = Some d) (flying_transfers s))"

definition open_on :: "io_context \<Rightarrow> nat \<Rightarrow> nat" where
  "open_on s d = length (filter (\<lambda>h. map_option uh_dev (dev_handles s h) = Some d) (open_devs s))"

definition lost_on :: "io_context \<Rightarrow> nat \<Rightarrow> nat" where
  "lost_on s d = length (filter (\<lambda>p. snd p = d) (lost s))"

definition list_ok :: "io_context \<Rightarrow> bool" where
  "list_ok s \<longleftrightarrow> distinct (flying_transfers s) \<and> due_sorted (deadline s) (flying_transfers s)
     \<and> (\<forall>i \<in> set (flying_transfers s). dev_of s i \<noteq> None)"

definition times_ok :: "io_context \<Rightarrow> bool" where
  "times_ok s \<longleftrightarrow> (\<forall>i f. transfers s i = Some f \<longrightarrow> snd (fl_deadline f) < 1000000)"

definition handles_ok :: "io_context \<Rightarrow> bool" where
  "handles_ok s \<longleftrightarrow> distinct (open_devs s) \<and> dev_handles s 0 = None \<and> (\<forall>h. h \<in> set (open_devs s) \<longleftrightarrow> dev_handles s h \<noteq> None)
     \<and> (\<forall>h u. dev_handles s h = Some u \<longrightarrow> uh_dev u \<noteq> 0 \<and> usb_devs s (uh_dev u) \<noteq> None)"

text \<open>\<open>ext\<close> counts the references from elsewhere: the list of known devices, device lists handed to
  the client, child devices.\<close>

definition refs_ok :: "(nat \<Rightarrow> nat) \<Rightarrow> io_context \<Rightarrow> bool" where
  "refs_ok ext s \<longleftrightarrow> (\<forall>d v. usb_devs s d = Some v \<longrightarrow>
     dv_refcnt v = ext d + open_on s d + flying_on s d + lost_on s d \<and> 0 < ext d)"

definition log_ok :: "io_context \<Rightarrow> bool" where
  "log_ok s \<longleftrightarrow> (\<forall>i. count_list (submits s) i = count_list (map fst (reports s)) i
     + count_list (map fst (lost s)) i + (if i \<in> set (flying_transfers s) then 1 else 0))"

definition flights_ok :: "(nat \<Rightarrow> nat) \<Rightarrow> io_context \<Rightarrow> bool" where
  "flights_ok ext s \<longleftrightarrow> list_ok s \<and> times_ok s \<and> handles_ok s \<and> refs_ok ext s \<and> log_ok s"

lemmas flights_ok_defs = flights_ok_def list_ok_def times_ok_def handles_ok_def refs_ok_def log_ok_def

section \<open>Every operation keeps it\<close>

text \<open>Writing a transfer without touching what the list depends on.\<close>

lemma dev_of_set_flight:
  "dev_of (set_flight i f s) j = (if j = i then map_option uh_dev (dev_handles s (fl_handle f)) else dev_of s j)"
  by (simp add: dev_of_def set_flight_def split: option.split)

lemma deadline_set_flight: "deadline (set_flight i f s) j = (if j = i then fl_deadline f else deadline s j)"
  by (simp add: deadline_def set_flight_def)

lemma set_flight_simps [simp]:
  "flying_transfers (set_flight i f s) = flying_transfers s" "usb_devs (set_flight i f s) = usb_devs s"
  "dev_handles (set_flight i f s) = dev_handles s" "open_devs (set_flight i f s) = open_devs s"
  "submits (set_flight i f s) = submits s" "reports (set_flight i f s) = reports s" "lost (set_flight i f s) = lost s"
  "transfers (set_flight i f s) i = Some f" "i \<noteq> j \<Longrightarrow> transfers (set_flight i f s) j = transfers s j"
  by (simp_all add: set_flight_def)

lemma dev_of_frame [simp]:
  "dev_of (s\<lparr>usb_devs := a\<rparr>) = dev_of s" "dev_of (s\<lparr>open_devs := b\<rparr>) = dev_of s"
  "dev_of (s\<lparr>flying_transfers := c\<rparr>) = dev_of s" "dev_of (s\<lparr>pollfds := d\<rparr>) = dev_of s"
  "dev_of (s\<lparr>kernel_fds := k\<rparr>) = dev_of s" "dev_of (s\<lparr>known_devs := l\<rparr>) = dev_of s" "dev_of (s\<lparr>departed := m\<rparr>) = dev_of s"
  "dev_of (s\<lparr>submits := e\<rparr>) = dev_of s" "dev_of (s\<lparr>reports := f\<rparr>) = dev_of s" "dev_of (s\<lparr>lost := g\<rparr>) = dev_of s"
  by (auto simp: dev_of_def fun_eq_iff cong: option.case_cong)

lemma deadline_frame [simp]:
  "deadline (s\<lparr>usb_devs := a\<rparr>) = deadline s" "deadline (s\<lparr>open_devs := b\<rparr>) = deadline s"
  "deadline (s\<lparr>flying_transfers := c\<rparr>) = deadline s" "deadline (s\<lparr>pollfds := d\<rparr>) = deadline s"
  "deadline (s\<lparr>kernel_fds := k\<rparr>) = deadline s" "deadline (s\<lparr>known_devs := l\<rparr>) = deadline s"
  "deadline (s\<lparr>departed := m\<rparr>) = deadline s" "deadline (s\<lparr>submits := e\<rparr>) = deadline s" "deadline (s\<lparr>reports := f\<rparr>) = deadline s"
  "deadline (s\<lparr>lost := g\<rparr>) = deadline s" "deadline (s\<lparr>dev_handles := h\<rparr>) = deadline s"
  by (auto simp: deadline_def fun_eq_iff)

lemma due_sorted_cong: "(\<And>i. i \<in> set xs \<Longrightarrow> dl i = dl' i) \<Longrightarrow> due_sorted dl xs = due_sorted dl' xs"
  unfolding due_sorted_def by (simp cong: map_cong)

lemma flying_on_cong:
  "flying_transfers s' = flying_transfers s \<Longrightarrow> (\<And>i. i \<in> set (flying_transfers s) \<Longrightarrow> dev_of s' i = dev_of s i) \<Longrightarrow>
     flying_on s' d = flying_on s d"
  unfolding flying_on_def by (metis (mono_tags, lifting) filter_cong)

lemma set_flight_ok:
  assumes ok: "flights_ok ext s" and t: "snd (fl_deadline f') < 1000000"
    and f: "i \<in> set (flying_transfers s) \<longrightarrow>
      (\<exists>f. transfers s i = Some f \<and> fl_deadline f' = fl_deadline f \<and> fl_handle f' = fl_handle f)"
  shows "flights_ok ext (set_flight i f' s)"
proof -
  have d: "dev_of (set_flight i f' s) j = dev_of s j" "deadline (set_flight i f' s) j = deadline s j"
    if "j \<in> set (flying_transfers s)" for j
  proof -
    have "j = i \<Longrightarrow> map_option uh_dev (dev_handles s (fl_handle f')) = dev_of s j \<and> fl_deadline f' = deadline s j"
      using f that by (auto simp: dev_of_def deadline_def)
    then show "dev_of (set_flight i f' s) j = dev_of s j" "deadline (set_flight i f' s) j = deadline s j"
      by (simp_all add: dev_of_set_flight deadline_set_flight)
  qed
  have "due_sorted (deadline (set_flight i f' s)) (flying_transfers s) = due_sorted (deadline s) (flying_transfers s)"
    by (rule due_sorted_cong) (rule d(2))
  then have "list_ok (set_flight i f' s)" using ok d(1) by (simp add: flights_ok_def list_ok_def)
  moreover have "times_ok (set_flight i f' s)" using ok t by (auto simp: flights_ok_def times_ok_def set_flight_def)
  moreover have "flying_on (set_flight i f' s) d = flying_on s d" for d
    by (rule flying_on_cong) (simp_all add: d(1))
  then have "refs_ok ext (set_flight i f' s)" using ok by (simp add: flights_ok_def refs_ok_def open_on_def lost_on_def)
  ultimately show ?thesis using ok by (simp add: flights_ok_def handles_ok_def log_ok_def)
qed

lemma flying_alive: "flights_ok ext s \<Longrightarrow> i \<in> set (flying_transfers s) \<Longrightarrow>
  \<exists>f u. transfers s i = Some f \<and> dev_handles s (fl_handle f) = Some u \<and> dev_of s i = Some (uh_dev u)"
  unfolding flights_ok_def list_ok_def dev_of_def by (fastforce split: option.splits)

lemma time_bound: "flights_ok ext s \<Longrightarrow> transfers s i = Some f \<Longrightarrow> snd (fl_deadline f) < 1000000"
  by (simp add: flights_ok_def times_ok_def)

lemma same_flight_ok:
  "flights_ok ext s \<Longrightarrow> transfers s i = Some f \<Longrightarrow> fl_deadline f' = fl_deadline f \<Longrightarrow>
     fl_handle f' = fl_handle f \<or> i \<notin> set (flying_transfers s) \<Longrightarrow> flights_ok ext (set_flight i f' s)"
  using time_bound by (intro set_flight_ok) auto

lemma alloc_ok:
  assumes "flights_ok ext s" "libusb_alloc_transfer mem i n s = Some (p, s')"
  shows "flights_ok ext s' \<and> dev_handles s' = dev_handles s"
proof (cases mem)
  case True
  then have "i \<notin> set (flying_transfers s)" using assms flying_alive [OF assms(1)] by (force simp: libusb_alloc_transfer_def)
  then show ?thesis using assms True set_flight_ok [OF assms(1)] by (auto simp: libusb_alloc_transfer_def split: if_splits)
next
  case False
  then show ?thesis using assms by (simp add: libusb_alloc_transfer_def)
qed

lemma free_transfer_ok:
  assumes ok: "flights_ok ext s" and r: "libusb_free_transfer i s = Some s'"
  shows "flights_ok ext s' \<and> dev_handles s' = dev_handles s"
proof (cases "i = 0")
  case True
  then show ?thesis using assms by (simp add: libusb_free_transfer_def)
next
  case False
  with r have i: "i \<notin> set (flying_transfers s)" and s': "s' = s\<lparr>transfers := (transfers s)(i := None)\<rparr>"
    by (auto simp: libusb_free_transfer_def split: if_splits)
  have d: "dev_of s' j = dev_of s j" "deadline s' j = deadline s j" if "j \<in> set (flying_transfers s)" for j
    using i that by (auto simp: s' dev_of_def deadline_def split: option.split)
  have "due_sorted (deadline s') (flying_transfers s) = due_sorted (deadline s) (flying_transfers s)"
    by (rule due_sorted_cong) (rule d(2))
  then have "list_ok s'" using ok d(1) by (simp add: flights_ok_def list_ok_def s')
  moreover have "flying_on s' d = flying_on s d" for d by (rule flying_on_cong) (simp_all add: s' d(1) [unfolded s'])
  then have "refs_ok ext s'" using ok by (simp add: flights_ok_def refs_ok_def open_on_def lost_on_def s')
  ultimately show ?thesis using ok by (auto simp: flights_ok_def times_ok_def handles_ok_def log_ok_def s' split: if_splits)
qed

lemma fill_ok:
  assumes "flights_ok ext s" "fill_transfer q i s = Some s'"
  shows "flights_ok ext s' \<and> dev_handles s' = dev_handles s"
  using assms same_flight_ok [OF assms(1)] by (auto simp: fill_transfer_def bind_eq_Some_conv split: if_splits)

lemma set_stream_ok:
  assumes "flights_ok ext s" "libusb_transfer_set_stream_id v i s = Some s'"
  shows "flights_ok ext s' \<and> dev_handles s' = dev_handles s"
  using assms same_flight_ok [OF assms(1)] by (auto simp: libusb_transfer_set_stream_id_def bind_eq_Some_conv)

text \<open>Cancelling changes the transfer and its flags only.\<close>

lemma cancel_result:
  assumes "libusb_cancel_transfer dis i s = Some (r, s')"
  obtains f t fl where "transfers s i = Some f" "s' = set_flight i (f\<lparr>fl_xfer := t, fl_flags := fl\<rparr>) s"
  using assms by (auto simp: libusb_cancel_transfer_def bind_eq_Some_conv Let_def split: if_splits prod.splits)

lemma cancel_ok:
  assumes "flights_ok ext s" "libusb_cancel_transfer dis i s = Some (r, s')"
  shows "flights_ok ext s' \<and> dev_handles s' = dev_handles s"
  by (rule cancel_result [OF assms(2)]) (auto intro!: same_flight_ok [OF assms(1)])

lemma deadline_computed:
  assumes "calculate_timeout clock f = Some f'" "snd (fl_deadline f) < 1000000"
  shows "snd (fl_deadline f') < 1000000 \<and> fl_handle f' = fl_handle f"
proof (cases clock)
  case None
  then show ?thesis using assms by (auto simp: calculate_timeout_def Let_def split: if_splits)
next
  case (Some c)
  have "(n mod 1000000000) div 1000 < 1000000" for n :: nat
    using mod_less_divisor [of 1000000000 n] by (simp add: less_mult_imp_div_less)
  then show ?thesis using assms Some by (cases c) (auto simp: calculate_timeout_def Let_def timeval_of_def carry_eq split: if_splits)
qed

lemma ref_device_result:
  assumes "libusb_ref_device d s = Some s'"
  obtains v where "usb_devs s d = Some v" "s' = s\<lparr>usb_devs := (usb_devs s)(d \<mapsto> v\<lparr>dv_refcnt := dv_refcnt v + 1\<rparr>)\<rparr>"
  using assms by (auto simp: libusb_ref_device_def bind_eq_Some_conv)

lemma enlist_ok:
  assumes ok: "flights_ok ext s" and i: "i \<notin> set (flying_transfers s)"
    and u: "dev_of s i = Some d"
    and r: "libusb_ref_device d (s\<lparr>flying_transfers := insert_flying (deadline s) i (flying_transfers s)\<rparr>) = Some s'"
  shows "flights_ok ext (s'\<lparr>submits := submits s' @ [i]\<rparr>)"
proof -
  let ?xs = "insert_flying (deadline s) i (flying_transfers s)" and ?s = "s'\<lparr>submits := submits s' @ [i]\<rparr>"
  from r obtain v where v: "usb_devs s d = Some v"
    and s': "s' = s\<lparr>flying_transfers := ?xs, usb_devs := (usb_devs s)(d \<mapsto> v\<lparr>dv_refcnt := dv_refcnt v + 1\<rparr>)\<rparr>"
    by (rule ref_device_result) auto
  have dev: "dev_of ?s = dev_of s" and dl: "deadline ?s = deadline s" by (simp_all add: s')
  have "list_ok ?s"
    using ok i u by (auto simp: flights_ok_def list_ok_def dev dl) (auto simp: s' intro: distinct_insert_flying insert_flying_sorted)
  moreover have "times_ok ?s" using ok by (simp add: flights_ok_def times_ok_def s')
  moreover have "handles_ok ?s" using ok by (auto simp: flights_ok_def handles_ok_def s')
  moreover have "flying_on ?s x = flying_on s x + (if x = d then 1 else 0)" for x
    using u by (simp add: flying_on_def dev filter_insert_flying) (simp add: s' filter_insert_flying)
  then have "refs_ok ext ?s" using ok v by (auto simp: flights_ok_def refs_ok_def open_on_def lost_on_def s')
  moreover have "log_ok ?s" using ok i by (auto simp: flights_ok_def log_ok_def s')
  ultimately show ?thesis by (simp add: flights_ok_def)
qed

lemma remove_inserted: "e \<notin> set xs \<Longrightarrow> remove1 e (insert_flying dl e xs) = xs"
  by (rule insert_flying_parts [of xs dl e]) (simp add: remove1_append)

lemma submit_ok:
  assumes ok: "flights_ok ext s" and r: "libusb_submit_transfer a i s = Some (r, s')"
  shows "flights_ok ext s' \<and> dev_handles s' = dev_handles s"
proof -
  from r obtain f u where f: "transfers s i = Some f" and u: "dev_handles s (fl_handle f) = Some u"
    by (auto simp: libusb_submit_transfer_def bind_eq_Some_conv)
  define f1 where "f1 = f\<lparr>fl_xfer := (fl_xfer f)\<lparr>transferred := 0\<rparr>, fl_flags := 0\<rparr>"
  note r = r [unfolded libusb_submit_transfer_def f u Option.bind.bind_lunit f1_def [symmetric] Let_def]
  show ?thesis
  proof (cases "calculate_timeout (an_clock a) f1")
    case None
    then have "s' = set_flight i f1 s" using r by simp
    then show ?thesis using same_flight_ok [OF ok f] by (simp add: f1_def)
  next
    case (Some f2)
    have f2: "snd (fl_deadline f2) < 1000000" "fl_handle f2 = fl_handle f"
      using deadline_computed [OF Some] time_bound [OF ok f] by (simp_all add: f1_def)
    obtain s1 where s1: "add_to_flying_list i (set_flight i f2 s) = Some s1"
      using r Some by (cases "add_to_flying_list i (set_flight i f2 s)") auto
    obtain q t where t: "op_submit_transfer (uh_caps u) (an_mem a) (an_sub a) (an_dis a) (fl_xfer f2) = Some (q, t)"
      using r Some s1 by (cases "op_submit_transfer (uh_caps u) (an_mem a) (an_sub a) (an_dis a) (fl_xfer f2)") auto
    have i: "i \<notin> set (flying_transfers s)" and
      s1: "s1 = (set_flight i f2 s)\<lparr>flying_transfers := insert_flying (deadline (set_flight i f2 s)) i (flying_transfers s)\<rparr>"
      and r': "(if q \<noteq> 0 then do { s3 \<leftarrow> remove_flying i (set_flight i (f2\<lparr>fl_xfer := t\<rparr>) s1); Some (q, s3) }
          else do { s3 \<leftarrow> libusb_ref_device (uh_dev u) (set_flight i (f2\<lparr>fl_xfer := t\<rparr>) s1);
                    Some (q, s3\<lparr>submits := submits s3 @ [i]\<rparr>) }) = Some (r, s')"
      using r Some s1 t by (simp_all add: add_to_flying_list_def split: if_splits)
    define s0 where "s0 = set_flight i (f2\<lparr>fl_xfer := t\<rparr>) s"
    have "deadline (set_flight i f2 s) = deadline s0" by (auto simp: s0_def deadline_set_flight)
    then have s2: "set_flight i (f2\<lparr>fl_xfer := t\<rparr>) s1 = s0\<lparr>flying_transfers := insert_flying (deadline s0) i (flying_transfers s0)\<rparr>"
      by (simp add: s0_def s1) (simp add: set_flight_def)
    have s0: "flights_ok ext s0" "i \<notin> set (flying_transfers s0)" "dev_of s0 i = Some (uh_dev u)" "dev_handles s0 = dev_handles s"
      using set_flight_ok [OF ok] i f2 u by (simp_all add: s0_def dev_of_set_flight)
    show ?thesis
    proof (cases "q = 0")
      case True
      with r' [unfolded s2] obtain s3
        where "libusb_ref_device (uh_dev u) (s0\<lparr>flying_transfers := insert_flying (deadline s0) i (flying_transfers s0)\<rparr>) = Some s3"
          "s' = s3\<lparr>submits := submits s3 @ [i]\<rparr>"
        by (auto simp: bind_eq_Some_conv)
      then show ?thesis using enlist_ok [OF s0(1-3)] s0(4) by (auto elim!: ref_device_result)
    next
      case False
      with r' [unfolded s2] have "s' = s0"
        by (auto simp: bind_eq_Some_conv remove_flying_def remove_inserted [OF s0(2)] split: if_splits)
      then show ?thesis using s0 by simp
    qed
  qed
qed

lemma act_ok:
  assumes "flights_ok ext s" "act x s = Some s'"
  shows "flights_ok ext s' \<and> dev_handles s' = dev_handles s"
proof (cases x)
  case (Alloc mem i n)
  then show ?thesis using assms alloc_ok by (auto simp: bind_eq_Some_conv)
next
  case (Fill q i)
  then show ?thesis using assms fill_ok by simp
next
  case (Submit a i)
  then show ?thesis using assms submit_ok by (auto simp: bind_eq_Some_conv)
next
  case (Cancel dis i)
  then show ?thesis using assms cancel_ok by (auto simp: bind_eq_Some_conv)
next
  case (SetStream v i)
  then show ?thesis using assms set_stream_ok by simp
next
  case (Free i)
  then show ?thesis using assms free_transfer_ok by simp
qed

lemma acts_ok: "flights_ok ext s \<Longrightarrow> acts xs s = Some s' \<Longrightarrow> flights_ok ext s' \<and> dev_handles s' = dev_handles s"
proof (induction xs arbitrary: s)
  case Nil
  then show ?case by simp
next
  case (Cons x xs)
  then obtain s1 where "act x s = Some s1" "acts xs s1 = Some s'" by (auto simp: bind_eq_Some_conv)
  with Cons act_ok show ?case by metis
qed

text \<open>While the callback runs, the reference of the completed transfer is still held.\<close>

lemma due_sorted_remove1: "due_sorted dl xs \<Longrightarrow> due_sorted dl (remove1 i xs)"
  by (simp add: due_sorted_def sorted_map_remove1)

lemma count_remove1:
  "distinct xs \<Longrightarrow> i \<in> set xs \<Longrightarrow> length (filter P xs) = length (filter P (remove1 i xs)) + (if P i then 1 else 0)"
  by (induction xs) auto

lemma retire_ok:
  assumes ok: "flights_ok ext s" and i: "i \<in> set (flying_transfers s)" and d: "dev_of s i = Some d"
  shows "flights_ok (ext(d := ext d + 1)) (s\<lparr>flying_transfers := remove1 i (flying_transfers s), reports := reports s @ [(i, st)]\<rparr>)"
    (is "flights_ok _ ?s")
proof -
  have dist: "distinct (flying_transfers s)" using ok by (simp add: flights_ok_def list_ok_def)
  have dev: "dev_of ?s = dev_of s" and dl: "deadline ?s = deadline s" by simp_all
  have "list_ok ?s"
    using ok unfolding flights_ok_def list_ok_def dev dl by (auto intro: due_sorted_remove1)
  moreover have "flying_on s x = flying_on ?s x + (if x = d then 1 else 0)" for x
    using count_remove1 [OF dist i, of "\<lambda>i. dev_of s i = Some x"] d by (auto simp: flying_on_def dev)
  then have "refs_ok (ext(d := ext d + 1)) ?s" using ok by (auto simp: flights_ok_def refs_ok_def open_on_def lost_on_def)
  moreover have "log_ok ?s" using ok i dist by (auto simp: flights_ok_def log_ok_def)
  ultimately show ?thesis using ok by (simp add: flights_ok_def times_ok_def handles_ok_def)
qed

text \<open>A device with a reference from elsewhere is not destroyed.\<close>

lemma unref_result:
  "usb_devs s d = Some v \<Longrightarrow> dv_refcnt v \<noteq> 1 \<Longrightarrow> d \<noteq> 0 \<Longrightarrow>
     libusb_unref_device d s = Some (s\<lparr>usb_devs := (usb_devs s)(d \<mapsto> v\<lparr>dv_refcnt := dv_refcnt v - 1\<rparr>)\<rparr>)"
  by (subst libusb_unref_device.simps) (simp add: Let_def)

lemma unref_ok:
  assumes ok: "flights_ok (ext(d := ext d + 1)) s" and e: "0 < ext d" and d: "usb_devs s d \<noteq> None" "d \<noteq> 0"
  shows "\<exists>v. libusb_unref_device d s = Some (s\<lparr>usb_devs := (usb_devs s)(d \<mapsto> v)\<rparr>)
    \<and> flights_ok ext (s\<lparr>usb_devs := (usb_devs s)(d \<mapsto> v)\<rparr>)"
proof -
  from d obtain v where v: "usb_devs s d = Some v" by auto
  then have n: "dv_refcnt v = ext d + 1 + open_on s d + flying_on s d + lost_on s d"
    using ok by (auto simp: flights_ok_def refs_ok_def)
  let ?s = "s\<lparr>usb_devs := (usb_devs s)(d \<mapsto> v\<lparr>dv_refcnt := dv_refcnt v - 1\<rparr>)\<rparr>"
  have "libusb_unref_device d s = Some ?s"
    using v n e d by (intro unref_result) auto
  moreover
  have "flying_on ?s x = flying_on s x" "open_on ?s x = open_on s x" "lost_on ?s x = lost_on s x" for x
    by (simp_all add: flying_on_def open_on_def lost_on_def)
  then have "refs_ok ext ?s" using ok n e v by (auto simp: flights_ok_def refs_ok_def split: if_splits)
  then have "flights_ok ext ?s"
    using ok by (auto simp: flights_ok_def list_ok_def times_ok_def handles_ok_def log_ok_def)
  ultimately show ?thesis by blast
qed

lemma completion_ok:
  assumes ok: "flights_ok ext s" and r: "usbi_handle_transfer_completion cb i st s = Some s'"
  shows "flights_ok ext s' \<and> dev_handles s' = dev_handles s"
proof -
  from r obtain f u where f: "transfers s i = Some f" and u: "dev_handles s (fl_handle f) = Some u"
    by (auto simp: usbi_handle_transfer_completion_def bind_eq_Some_conv)
  from r have i: "i \<in> set (flying_transfers s)"
    by (auto simp: usbi_handle_transfer_completion_def remove_flying_def bind_eq_Some_conv split: if_splits)
  let ?t = "fl_xfer f" and ?d = "uh_dev u"
  define st1 where "st1 = final_status ?t st"
  define s2 where "s2 = set_flight i (f\<lparr>fl_xfer := ?t\<lparr>tr_status := st1, tr_actual_length := transferred ?t\<rparr>\<rparr>)
    (s\<lparr>flying_transfers := remove1 i (flying_transfers s), reports := reports s @ [(i, st1)]\<rparr>)"
  have d: "dev_of s i = Some ?d" using f u by (simp add: dev_of_def)
  have live: "0 < ext ?d" "usb_devs s ?d \<noteq> None" "?d \<noteq> 0"
    using ok u unfolding flights_ok_def handles_ok_def refs_ok_def by blast+
  have s2: "flights_ok (ext(?d := ext ?d + 1)) s2" "dev_handles s2 = dev_handles s"
    using same_flight_ok [OF retire_ok [OF ok i d, of st1], of i f] f by (simp_all add: s2_def)
  from r f u i obtain s3 s4 where s3: "(if fl_callback f then acts (cb i s2) s2 else Some s2) = Some s3"
    and s4: "(if tr_flags ?t AND TRANSFER_FREE_TRANSFER \<noteq> 0 then libusb_free_transfer i s3 else Some s3) = Some s4"
    and s': "do { h \<leftarrow> dev_handles s4 (fl_handle f); libusb_unref_device (uh_dev h) s4 } = Some s'"
    unfolding usbi_handle_transfer_completion_def remove_flying_def Let_def s2_def st1_def
    by (simp add: bind_eq_Some_conv cong: if_cong) blast
  have s3: "flights_ok (ext(?d := ext ?d + 1)) s3" "dev_handles s3 = dev_handles s"
    using s3 s2 acts_ok by (auto split: if_splits)
  then have s4: "flights_ok (ext(?d := ext ?d + 1)) s4" "dev_handles s4 = dev_handles s"
    using s4 free_transfer_ok by (auto split: if_splits)
  then have "usb_devs s4 ?d \<noteq> None" using u by (auto simp: flights_ok_def handles_ok_def)
  from unref_ok [OF s4(1) live(1) this live(3)] s' s4(2) u show ?thesis by auto
qed

lemma reap_ok:
  assumes ok: "flights_ok ext s" and r: "reap_flight cb dis i idx c s = Some s'"
  shows "flights_ok ext s' \<and> dev_handles s' = dev_handles s"
proof -
  from r obtain f q t where f: "transfers s i = Some f" and q: "reap_urb dis idx c (fl_xfer f) = Some (q, t)"
    by (auto simp: reap_flight_def bind_eq_Some_conv)
  define s1 where "s1 = set_flight i (f\<lparr>fl_xfer := t\<rparr>) s"
  have s1: "flights_ok ext s1" "dev_handles s1 = dev_handles s" using same_flight_ok [OF ok f] by (simp_all add: s1_def)
  show ?thesis
  proof (cases q)
    case Waiting
    then show ?thesis using r f q s1 by (auto simp: reap_flight_def bind_eq_Some_conv s1_def)
  next
    case (Completed st)
    then have "usbi_handle_transfer_completion cb i st s1 = Some s'"
      using r f q by (auto simp: reap_flight_def bind_eq_Some_conv s1_def)
    then show ?thesis using completion_ok [OF s1(1)] s1(2) by simp
  next
    case Cancelled
    then have "usbi_handle_transfer_cancellation cb i s1 = Some s'"
      using r f q by (auto simp: reap_flight_def bind_eq_Some_conv s1_def)
    then show ?thesis using completion_ok [OF s1(1)] s1(2)
      by (auto simp: usbi_handle_transfer_cancellation_def bind_eq_Some_conv split: if_splits)
  qed
qed

lemma handle_timeout_ok:
  assumes ok: "flights_ok ext s" and r: "handle_timeout dis i s = Some s'"
  shows "flights_ok ext s' \<and> dev_handles s' = dev_handles s"
proof -
  from r obtain f q where f: "transfers s i = Some f"
    and c: "libusb_cancel_transfer dis i (set_flight i (f\<lparr>fl_flags := fl_flags f OR TIMED_OUT\<rparr>) s) = Some (q, s')"
    by (auto simp: handle_timeout_def bind_eq_Some_conv)
  show ?thesis using cancel_ok [OF same_flight_ok [OF ok f] c] by simp
qed

lemma timeouts_loop_ok:
  "flights_ok ext s \<Longrightarrow> timeouts_loop dis now is s = Some s' \<Longrightarrow> flights_ok ext s' \<and> dev_handles s' = dev_handles s"
proof (induction "is" arbitrary: s)
  case Nil
  then show ?case by simp
next
  case (Cons i "is")
  then show ?case using handle_timeout_ok by (fastforce simp: bind_eq_Some_conv split: if_splits)
qed

lemma handle_timeouts_ok:
  "flights_ok ext s \<Longrightarrow> handle_timeouts clock dis s = Some s' \<Longrightarrow> flights_ok ext s' \<and> dev_handles s' = dev_handles s"
  using timeouts_loop_ok by (auto simp: handle_timeouts_def split: if_splits option.splits)

lemma disconnect_ok:
  assumes ok: "flights_ok ext s" and r: "usbi_handle_disconnect cb h s = Some s'"
  shows "flights_ok ext s' \<and> dev_handles s' = dev_handles s"
proof -
  have "flights_ok ext s \<longrightarrow> flights_ok ext s' \<and> dev_handles s' = dev_handles s"
  proof (rule usbi_handle_disconnect.raw_induct [where P = "\<lambda>cb h s s'. flights_ok ext s \<longrightarrow> flights_ok ext s' \<and> dev_handles s' = dev_handles s", OF _ r], intro impI)
    fix rec and cb :: callback and h s s'
    assume IH: "\<And>cb h s s'. rec cb h s = Some s' \<Longrightarrow> flights_ok ext s \<longrightarrow> flights_ok ext s' \<and> dev_handles s' = dev_handles s"
      and step: "(case find (of_handle s h) (flying_transfers s) of None \<Rightarrow> Some s
        | Some i \<Rightarrow> do {
            f \<leftarrow> transfers s i;
            t \<leftarrow> op_clear_transfer_priv (fl_xfer f);
            s1 \<leftarrow> usbi_handle_transfer_completion cb i ST_NO_DEVICE (set_flight i (f\<lparr>fl_xfer := t\<rparr>) s);
            rec cb h s1 }) = Some s'"
      and ok: "flights_ok ext s"
    show "flights_ok ext s' \<and> dev_handles s' = dev_handles s"
    proof (cases "find (of_handle s h) (flying_transfers s)")
      case None
      then show ?thesis using step ok by simp
    next
      case (Some i)
      with step obtain f t s1 where f: "transfers s i = Some f"
        and c: "usbi_handle_transfer_completion cb i ST_NO_DEVICE (set_flight i (f\<lparr>fl_xfer := t\<rparr>) s) = Some s1"
        and l: "rec cb h s1 = Some s'"
        by (auto simp: bind_eq_Some_conv)
      have "flights_ok ext s1 \<and> dev_handles s1 = dev_handles s"
        using completion_ok [OF same_flight_ok [OF ok f] c] by simp
      then show ?thesis using IH [OF l] by simp
    qed
  qed
  with ok show ?thesis by simp
qed

text \<open>Closing a handle drops its transfers and loses their references.\<close>

lemma drop_ok:
  assumes ok: "flights_ok ext s" and i: "i \<in> set (flying_transfers s)" and d: "dev_of s i = Some d"
  shows "flights_ok ext (s\<lparr>flying_transfers := remove1 i (flying_transfers s), lost := lost s @ [(i, d)]\<rparr>)"
    (is "flights_ok _ ?s")
proof -
  have dist: "distinct (flying_transfers s)" using ok by (simp add: flights_ok_def list_ok_def)
  have "list_ok ?s" using ok by (auto simp: flights_ok_def list_ok_def intro: due_sorted_remove1)
  moreover have "flying_on s x = flying_on ?s x + (if x = d then 1 else 0)" for x
    using count_remove1 [OF dist i, of "\<lambda>i. dev_of s i = Some x"] d by (auto simp: flying_on_def)
  then have "refs_ok ext ?s" using ok by (auto simp: flights_ok_def refs_ok_def open_on_def lost_on_def)
  moreover have "log_ok ?s" using ok i dist by (auto simp: flights_ok_def log_ok_def)
  ultimately show ?thesis using ok by (simp add: flights_ok_def times_ok_def handles_ok_def)
qed

lemma detach_ok:
  assumes "flights_ok ext s" "detach_transfers h is s = Some s'" "h \<noteq> 0"
  shows "flights_ok ext s' \<and> dev_handles s' = dev_handles s \<and> open_devs s' = open_devs s
    \<and> set (flying_transfers s') \<subseteq> set (flying_transfers s)
    \<and> (\<forall>i. \<not> of_handle s h i \<longrightarrow> \<not> of_handle s' h i) \<and> (\<forall>i \<in> set is. \<not> of_handle s' h i)"
  using assms(1,2)
proof (induction "is" arbitrary: s)
  case Nil
  then show ?case by simp
next
  case (Cons i "is")
  then obtain f where f: "transfers s i = Some f" by (auto simp: bind_eq_Some_conv)
  show ?case
  proof (cases "fl_handle f = h")
    case False
    then have "\<not> of_handle s h i" by (simp add: of_handle_def f)
    then show ?thesis using Cons.IH [OF Cons.prems(1)] Cons.prems(2) f False by auto
  next
    case True
    with Cons.prems(2) f obtain u where u: "dev_handles s h = Some u" and i: "i \<in> set (flying_transfers s)"
      by (auto simp: bind_eq_Some_conv remove_flying_def split: if_splits)
    define s1 where "s1 = set_flight i (f\<lparr>fl_handle := 0\<rparr>)
      (s\<lparr>flying_transfers := remove1 i (flying_transfers s), lost := lost s @ [(i, uh_dev u)]\<rparr>)"
    have d: "dev_of s i = Some (uh_dev u)" using f u True by (simp add: dev_of_def)
    have dist: "distinct (flying_transfers s)" using Cons.prems(1) by (simp add: flights_ok_def list_ok_def)
    have ok: "flights_ok ext s1"
      using same_flight_ok [OF drop_ok [OF Cons.prems(1) i d], of i f] f dist by (simp add: s1_def)
    have r: "detach_transfers h is s1 = Some s'"
      using Cons.prems(2) f True u i by (simp add: remove_flying_def s1_def)
    have "\<not> of_handle s1 h j" if "j = i \<or> \<not> of_handle s h j" for j
      using that \<open>h \<noteq> 0\<close> by (cases "j = i") (auto simp: of_handle_def s1_def set_flight_def)
    moreover have "set (flying_transfers s1) \<subseteq> set (flying_transfers s)" "dev_handles s1 = dev_handles s" "open_devs s1 = open_devs s"
      using set_remove1_subset by (simp_all add: s1_def)
    ultimately show ?thesis using Cons.IH [OF ok r] by auto
  qed
qed

lemma close_ok:
  assumes ok: "flights_ok ext s" and r: "do_close h s = Some s'"
  shows "flights_ok ext s' \<and> dev_handles s' = (dev_handles s)(h := None)"
proof -
  from r obtain u s1 where u: "dev_handles s h = Some u" and d: "detach_transfers h (flying_transfers s) s = Some s1"
    by (auto simp: do_close_def bind_eq_Some_conv)
  have h: "h \<noteq> 0" using ok u by (cases h) (auto simp: flights_ok_def handles_ok_def)
  note s1 = detach_ok [OF ok d h]
  let ?d = "uh_dev u"
  define s2 where "s2 = op_close (uh_fd u) (s1\<lparr>open_devs := remove1 h (open_devs s1)\<rparr>)"
  have r: "do { s3 \<leftarrow> libusb_unref_device ?d s2; Some (s3\<lparr>dev_handles := (dev_handles s3)(h := None)\<rparr>) } = Some s'"
    using r u d by (simp add: do_close_def s2_def bind_eq_Some_conv split: if_splits)
  define s4 where "s4 = s2\<lparr>dev_handles := (dev_handles s2)(h := None)\<rparr>"
  have s4: "s4 = s1\<lparr>open_devs := remove1 h (open_devs s1), pollfds := pollfds s2, kernel_fds := kernel_fds s2, dev_handles := (dev_handles s1)(h := None)\<rparr>"
    by (simp add: s4_def s2_def op_close_def usbi_remove_pollfd_def)
  have ok1: "flights_ok ext s1" and h1: "dev_handles s1 = dev_handles s"
    and none: "\<And>i. i \<in> set (flying_transfers s1) \<Longrightarrow> \<not> of_handle s1 h i"
    using s1 by blast+
  have u1: "dev_handles s1 h = Some u" using u h1 by simp
  have live: "0 < ext ?d" "usb_devs s1 ?d \<noteq> None" "?d \<noteq> 0"
    using ok1 u1 unfolding flights_ok_def handles_ok_def refs_ok_def by blast+
  have dist: "distinct (open_devs s1)" "h \<in> set (open_devs s1)"
    using ok1 u1 unfolding flights_ok_def handles_ok_def by simp_all
  have dev: "dev_of s4 i = dev_of s1 i" if "i \<in> set (flying_transfers s1)" for i
    using none [OF that] by (auto simp: dev_of_def s4 of_handle_def split: option.splits)
  have same: "flying_transfers s4 = flying_transfers s1" "deadline s4 = deadline s1" by (simp_all add: s4)
  have "flights_ok (ext(?d := ext ?d + 1)) s4"
  proof -
    have "list_ok s4" using ok1 dev by (simp add: flights_ok_def list_ok_def same)
    moreover have "handles_ok s4" using ok1 dist by (auto simp: flights_ok_def handles_ok_def s4)
    moreover have fl: "flying_on s4 x = flying_on s1 x" for x by (rule flying_on_cong) (simp_all add: dev same)
    moreover have op: "open_on s1 x = open_on s4 x + (if x = ?d then 1 else 0)" for x
    proof -
      have "filter (\<lambda>k. map_option uh_dev (dev_handles s4 k) = Some x) (remove1 h (open_devs s1))
          = filter (\<lambda>k. map_option uh_dev (dev_handles s1 k) = Some x) (remove1 h (open_devs s1))"
        using dist by (intro filter_cong) (auto simp: s4)
      then have "open_on s4 x = length (filter (\<lambda>k. map_option uh_dev (dev_handles s1 k) = Some x) (remove1 h (open_devs s1)))"
        by (simp add: open_on_def) (simp add: s4)
      then show ?thesis
        using count_remove1 [OF dist, of "\<lambda>k. map_option uh_dev (dev_handles s1 k) = Some x"] u1
        by (auto simp: open_on_def)
    qed
    have "refs_ok (ext(?d := ext ?d + 1)) s4"
      unfolding refs_ok_def
    proof (intro allI impI)
      fix x v
      assume "usb_devs s4 x = Some v"
      then have "usb_devs s1 x = Some v" by (simp add: s4)
      then have "dv_refcnt v = ext x + open_on s1 x + flying_on s1 x + lost_on s1 x" "0 < ext x"
        using ok1 unfolding flights_ok_def refs_ok_def by blast+
      moreover have "lost_on s4 x = lost_on s1 x" by (simp add: lost_on_def s4)
      ultimately show "dv_refcnt v = (ext(?d := ext ?d + 1)) x + open_on s4 x + flying_on s4 x + lost_on s4 x
          \<and> 0 < (ext(?d := ext ?d + 1)) x"
        using fl [of x] op [of x] by simp
    qed
    ultimately show ?thesis using ok1 by (simp add: flights_ok_def times_ok_def log_ok_def same) (simp add: s4)
  qed
  note ok4 = this
  from live obtain v where v: "usb_devs s2 ?d = Some v" by (auto simp: s2_def op_close_def usbi_remove_pollfd_def)
  then have "usb_devs s4 ?d = Some v" by (simp add: s4_def)
  then have "dv_refcnt v = (ext(?d := ext ?d + 1)) ?d + open_on s4 ?d + flying_on s4 ?d + lost_on s4 ?d"
    using ok4 unfolding flights_ok_def refs_ok_def by blast
  then have n: "dv_refcnt v \<noteq> 1" using live by simp
  from v have v4: "usb_devs s4 ?d = Some v" by (simp add: s4_def)
  have "s' = s4\<lparr>usb_devs := (usb_devs s4)(?d \<mapsto> v\<lparr>dv_refcnt := dv_refcnt v - 1\<rparr>)\<rparr>"
    using r unref_result [OF v n live(3)] by (cases s2) (auto simp: s4_def)
  moreover have "dev_handles s4 = (dev_handles s)(h := None)" using s1 by (simp add: s4)
  ultimately show ?thesis
    using unref_ok [OF ok4 live(1) _ live(3)] unref_result [OF v4 n live(3)] v4 by auto
qed

text \<open>Opening a device.\<close>

lemma flights_ok_cong:
  assumes "usb_devs s' = usb_devs s" "open_devs s' = open_devs s" "dev_handles s' = dev_handles s"
    "transfers s' = transfers s" "flying_transfers s' = flying_transfers s" "submits s' = submits s"
    "reports s' = reports s" "lost s' = lost s"
  shows "flights_ok ext s' \<longleftrightarrow> flights_ok ext s"
proof -
  have "dev_of s' = dev_of s" "deadline s' = deadline s" by (rule ext, simp add: dev_of_def deadline_def assms cong: option.case_cong)+
  then show ?thesis using assms by (simp add: flights_ok_defs flying_on_def open_on_def lost_on_def)
qed

lemma device_flag_ok:
  assumes ok: "flights_ok ext s" and v: "usb_devs s d = Some v" "dv_refcnt v' = dv_refcnt v"
  shows "flights_ok ext (s\<lparr>usb_devs := (usb_devs s)(d \<mapsto> v')\<rparr>)" (is "flights_ok _ ?s")
proof -
  have "flying_on ?s x = flying_on s x" "open_on ?s x = open_on s x" "lost_on ?s x = lost_on s x" for x
    by (simp_all add: flying_on_def open_on_def lost_on_def)
  then have "refs_ok ext ?s" using ok v by (auto simp: flights_ok_def refs_ok_def)
  then show ?thesis using ok v by (auto simp: flights_ok_def list_ok_def times_ok_def handles_ok_def log_ok_def)
qed

lemma ref_ok:
  assumes ok: "flights_ok ext s" and r: "libusb_ref_device d s = Some s'"
  shows "flights_ok (ext(d := ext d + 1)) s' \<and> dev_handles s' = dev_handles s \<and> 0 < ext d \<and> usb_devs s' d \<noteq> None"
proof -
  from r obtain v where v: "usb_devs s d = Some v" and s': "s' = s\<lparr>usb_devs := (usb_devs s)(d \<mapsto> v\<lparr>dv_refcnt := dv_refcnt v + 1\<rparr>)\<rparr>"
    by (rule ref_device_result)
  have "flying_on s' x = flying_on s x" "open_on s' x = open_on s x" "lost_on s' x = lost_on s x" for x
    by (simp_all add: flying_on_def open_on_def lost_on_def s')
  then have "refs_ok (ext(d := ext d + 1)) s'" using ok v by (auto simp: flights_ok_def refs_ok_def s')
  moreover have "0 < ext d" using ok v by (auto simp: flights_ok_def refs_ok_def)
  ultimately show ?thesis using ok v by (auto simp: flights_ok_def list_ok_def times_ok_def handles_ok_def log_ok_def s')
qed

lemma disconnected_ok:
  assumes ok: "flights_ok ext s" and r: "linux_device_disconnected session s = Some s'"
  shows "flights_ok ext s' \<and> dev_handles s' = dev_handles s \<and> (\<forall>x. usb_devs s x \<noteq> None \<longrightarrow> usb_devs s' x \<noteq> None)"
proof -
  from r obtain d s1 where g: "usbi_get_device_by_session_id session s = Some (d, s1)"
    by (auto simp: linux_device_disconnected_def bind_eq_Some_conv)
  show ?thesis
  proof (cases "d = 0")
    case True
    then have "s' = s1" using r g by (simp add: linux_device_disconnected_def)
    then show ?thesis
      using g ok True by (auto simp: usbi_get_device_by_session_id_def bind_eq_Some_conv split: option.splits if_splits)
  next
    case False
    with g have ref: "libusb_ref_device d s = Some s1"
      by (auto simp: usbi_get_device_by_session_id_def bind_eq_Some_conv split: option.splits if_splits)
    note s1 = ref_ok [OF ok ref]
    from r g False obtain s2 where d2: "usbi_disconnect_device d s1 = Some s2" and u: "libusb_unref_device d s2 = Some s'"
      by (auto simp: linux_device_disconnected_def bind_eq_Some_conv)
    from d2 obtain v where v: "usb_devs s1 d = Some v" and s2: "s2 = s1\<lparr>usb_devs := (usb_devs s1)(d \<mapsto> v\<lparr>dv_attached := False\<rparr>),
        known_devs := remove1 d (known_devs s1), departed := departed s1 @ [d]\<rparr>"
      by (auto simp: usbi_disconnect_device_def bind_eq_Some_conv split: if_splits)
    have ok2: "flights_ok (ext(d := ext d + 1)) s2"
      using device_flag_ok [of _ s1 d v "v\<lparr>dv_attached := False\<rparr>"] s1 v
        flights_ok_cong [of s2 "s1\<lparr>usb_devs := (usb_devs s1)(d \<mapsto> v\<lparr>dv_attached := False\<rparr>)\<rparr>"] by (simp add: s2)
    obtain v' where "s' = s2\<lparr>usb_devs := (usb_devs s2)(d \<mapsto> v')\<rparr>" "flights_ok ext s'"
      using unref_ok [OF ok2] s1 u False by (auto simp: s2)
    moreover have "\<forall>x. usb_devs s x \<noteq> None \<longrightarrow> usb_devs s1 x \<noteq> None"
      using ref by (auto elim!: ref_device_result)
    ultimately show ?thesis using s1 by (auto simp: s2)
  qed
qed

lemma opened_ok:
  assumes ok: "flights_ok (ext(d := ext d + 1)) s" and d: "0 < ext d" "usb_devs s d \<noteq> None" "d \<noteq> 0"
    and h: "h \<noteq> 0" "dev_handles s h = None" and u: "uh_dev u = d"
  shows "flights_ok ext (s\<lparr>open_devs := h # open_devs s, dev_handles := (dev_handles s)(h \<mapsto> u)\<rparr>)" (is "flights_ok _ ?s")
proof -
  have dev: "dev_of ?s i = dev_of s i" if "i \<in> set (flying_transfers s)" for i
    using flying_alive [OF ok that] h by (auto simp: dev_of_def)
  have "list_ok ?s" using ok dev by (simp add: flights_ok_def list_ok_def)
  moreover have new: "h \<notin> set (open_devs s)" using ok h by (auto simp: flights_ok_def handles_ok_def)
  then have "handles_ok ?s" using ok h d u by (auto simp: flights_ok_def handles_ok_def)
  moreover have fl: "flying_on ?s x = flying_on s x" for x by (rule flying_on_cong) (simp_all add: dev)
  have op: "open_on ?s x = open_on s x + (if x = d then 1 else 0)" for x
  proof -
    have f: "filter (\<lambda>k. map_option uh_dev (dev_handles ?s k) = Some x) (open_devs s)
        = filter (\<lambda>k. map_option uh_dev (dev_handles s k) = Some x) (open_devs s)"
      using new by (intro filter_cong) auto
    have "open_devs ?s = h # open_devs s" "(map_option uh_dev (dev_handles ?s h) = Some x) = (x = d)" using u by auto
    then show ?thesis by (simp only: open_on_def filter.simps f split: if_split) simp
  qed
  have "refs_ok ext ?s"
    unfolding refs_ok_def
  proof (intro allI impI)
    fix x v
    assume "usb_devs ?s x = Some v"
    then have "dv_refcnt v = (ext(d := ext d + 1)) x + open_on s x + flying_on s x + lost_on s x" "0 < (ext(d := ext d + 1)) x"
      using ok unfolding flights_ok_def refs_ok_def by simp_all
    moreover have "lost_on ?s x = lost_on s x" by (simp add: lost_on_def)
    ultimately show "dv_refcnt v = ext x + open_on ?s x + flying_on ?s x + lost_on ?s x \<and> 0 < ext x"
      using fl [of x] op [of x] d(1) by (cases "x = d") simp_all
  qed
  ultimately show ?thesis using ok by (simp add: flights_ok_def times_ok_def log_ok_def)
qed

lemma op_open_ok:
  assumes ok: "flights_ok ext s" and r: "op_open a u s = Some (q, u', s')"
  shows "flights_ok ext s' \<and> dev_handles s' = dev_handles s \<and> uh_dev u' = uh_dev u
    \<and> (\<forall>x. usb_devs s x \<noteq> None \<longrightarrow> usb_devs s' x \<noteq> None)"
proof (cases "get_usbfs_fd (oa_first a) (oa_second a) < 0")
  case True
  then obtain v where "usb_devs s (uh_dev u) = Some v"
    and "(if get_usbfs_fd (oa_first a) (oa_second a) = ERR_NO_DEVICE \<and> dv_attached v
        then linux_device_disconnected (dv_session v) s else Some s) = Some s'"
    and "uh_dev u' = uh_dev u"
    using r by (auto simp: op_open_def Let_def bind_eq_Some_conv)
  then show ?thesis using disconnected_ok [OF ok] ok by (auto split: if_splits)
next
  case False
  let ?s = "s\<lparr>kernel_fds := get_usbfs_fd (oa_first a) (oa_second a) # kernel_fds s\<rparr>"
  have "s' = snd (usbi_add_pollfd (oa_pollmem a) (get_usbfs_fd (oa_first a) (oa_second a)) POLLOUT ?s)" "uh_dev u' = uh_dev u"
    using r False by (auto simp: op_open_def Let_def split: prod.splits)
  moreover have "flights_ok ext (snd (usbi_add_pollfd m fd ev ?s))" for m fd ev
    using ok flights_ok_cong [of "snd (usbi_add_pollfd m fd ev ?s)" s] by (simp add: usbi_add_pollfd_def)
  ultimately show ?thesis by (simp add: usbi_add_pollfd_def)
qed

lemma open_ok:
  assumes ok: "flights_ok ext s" and r: "libusb_open_device a d h s = Some (q, s')"
  shows "flights_ok ext s'"
proof -
  from r obtain v where d: "d \<noteq> 0" and v: "usb_devs s d = Some v" by (auto simp: libusb_open_device_def bind_eq_Some_conv split: if_splits)
  show ?thesis
  proof (cases "dv_attached v \<and> oa_mem a")
    case False
    then show ?thesis using r d v ok by (auto simp: libusb_open_device_def split: if_splits)
  next
    case True
    then have h: "h \<noteq> 0" "dev_handles s h = None" using r d v by (auto simp: libusb_open_device_def split: if_splits)
    let ?u = "\<lparr>uh_dev = d, uh_fd = 0, uh_caps = 0, uh_claimed = 0, uh_auto_detach = False\<rparr>"
    from r d v True h obtain s1 q' u s2 where ref: "libusb_ref_device d s = Some s1" and op: "op_open a ?u s1 = Some (q', u, s2)"
      and rest: "(if q' < 0 then do { s3 \<leftarrow> libusb_unref_device d s2; Some (q', s3) }
        else Some (0, s2\<lparr>open_devs := h # open_devs s2, dev_handles := (dev_handles s2)(h \<mapsto> u)\<rparr>)) = Some (q, s')"
      by (simp add: libusb_open_device_def bind_eq_Some_conv) blast
    note s1 = ref_ok [OF ok ref]
    have s2: "flights_ok (ext(d := ext d + 1)) s2" "dev_handles s2 = dev_handles s" "uh_dev u = d"
      using op_open_ok [OF _ op] s1 by auto
    have ext: "0 < ext d" using s1 by blast
    have live: "usb_devs s2 d \<noteq> None" using op_open_ok [OF _ op] s1 by blast
    show ?thesis
    proof (cases "q' < 0")
      case True
      then show ?thesis using rest unref_ok [OF s2(1) ext live d] by (auto simp: bind_eq_Some_conv)
    next
      case False
      then show ?thesis using rest opened_ok [OF s2(1) ext live d h(1) _ s2(3)] s2(2) h(2) by auto
    qed
  qed
qed

section \<open>Runs\<close>

text \<open>What happens to a context: the client calls, the kernel returns a block, timeouts are
  handled, a device disappears, a handle is opened or closed.\<close>

datatype event =
    Call action
  | Reaped "nat \<Rightarrow> int" nat nat completion
  | Expiry "timespec option" "nat \<Rightarrow> nat \<Rightarrow> int"
  | Unplugged nat
  | Opened open_answers nat nat
  | Closed nat

primrec occur :: "callback \<Rightarrow> event \<Rightarrow> io_context \<Rightarrow> io_context option" where
  "occur cb (Call x) s = act x s"
| "occur cb (Reaped dis i idx c) s = reap_flight cb dis i idx c s"
| "occur cb (Expiry clock dis) s = handle_timeouts clock dis s"
| "occur cb (Unplugged h) s = usbi_handle_disconnect cb h s"
| "occur cb (Opened a d h) s = do { (r, s1) \<leftarrow> libusb_open_device a d h s; Some s1 }"
| "occur cb (Closed h) s = libusb_close_handle h s"

primrec run_events :: "callback \<Rightarrow> event list \<Rightarrow> io_context \<Rightarrow> io_context option" where
  "run_events cb [] s = Some s"
| "run_events cb (e # es) s = do { s1 \<leftarrow> occur cb e s; run_events cb es s1 }"

lemma occur_ok:
  assumes "flights_ok ext s" "occur cb e s = Some s'"
  shows "flights_ok ext s'"
  using assms(2) act_ok [OF assms(1)] reap_ok [OF assms(1)] handle_timeouts_ok [OF assms(1)]
    disconnect_ok [OF assms(1)] open_ok [OF assms(1)] close_ok [OF assms(1)] assms(1)
  by (cases e) (auto simp: libusb_close_handle_def bind_eq_Some_conv split: if_splits)

lemma run_events_ok: "flights_ok ext s \<Longrightarrow> run_events cb es s = Some s' \<Longrightarrow> flights_ok ext s'"
proof (induction es arbitrary: s)
  case Nil
  then show ?case by simp
next
  case (Cons e es)
  then obtain s1 where "occur cb e s = Some s1" "run_events cb es s1 = Some s'" by (auto simp: bind_eq_Some_conv)
  with Cons occur_ok show ?case by blast
qed

section \<open>Timeouts\<close>

definition expired :: "timeval \<Rightarrow> flight \<Rightarrow> bool" where
  "expired now f \<longleftrightarrow> timerisset (fl_deadline f) \<and> \<not> later_than (fl_deadline f) now \<and> \<not> handled f"

definition cancelled_late :: "(nat \<Rightarrow> int) \<Rightarrow> flight \<Rightarrow> flight \<Rightarrow> bool" where
  "cancelled_late dis f f' \<longleftrightarrow> fl_flags f' AND TIMED_OUT \<noteq> 0 \<and> fl_flags f' AND CANCELLING \<noteq> 0
     \<and> fl_xfer f' = snd (op_cancel_transfer dis (fl_xfer f)) \<and> fl_handle f' = fl_handle f \<and> fl_deadline f' = fl_deadline f"

lemma due_expired: "timerisset t \<and> \<not> later_than t now \<longleftrightarrow> due_of t \<le> Due (fst now) (snd now)"
  by (auto simp: due_of_def later_than_def)

lemma handle_timeout_result:
  assumes f: "transfers s i = Some f" and h: "dev_handles s (fl_handle f) \<noteq> None"
  shows "\<exists>f'. handle_timeout dis i s = Some (set_flight i f' s) \<and> cancelled_late dis f f'"
proof -
  let ?f = "f\<lparr>fl_flags := fl_flags f OR TIMED_OUT\<rparr>"
  obtain r t where c: "op_cancel_transfer dis (fl_xfer f) = (r, t)" by fastforce
  let ?g = "?f\<lparr>fl_xfer := t, fl_flags := (if r = ERR_NO_DEVICE then fl_flags ?f OR DEVICE_DISAPPEARED else fl_flags ?f) OR CANCELLING\<rparr>"
  have "handle_timeout dis i s = Some (set_flight i ?g s)"
    using f h c by (auto simp: handle_timeout_def libusb_cancel_transfer_def Let_def set_flight_def)
  moreover have "fl_flags ?g AND TIMED_OUT \<noteq> 0" "fl_flags ?g AND CANCELLING \<noteq> 0"
    by (simp_all add: word_ao_dist)
  ultimately show ?thesis using c by (auto simp: cancelled_late_def)
qed

lemma timeouts_loop_exact:
  assumes "due_sorted (deadline s) is" "distinct is" "\<forall>i \<in> set is. dev_of s i \<noteq> None"
  shows "\<exists>s'. timeouts_loop dis now is s = Some s' \<and> flying_transfers s' = flying_transfers s
     \<and> (\<forall>i. i \<notin> set is \<longrightarrow> transfers s' i = transfers s i)
     \<and> (\<forall>i \<in> set is. \<exists>f f'. transfers s i = Some f \<and> transfers s' i = Some f'
          \<and> (if expired now f then cancelled_late (dis i) f f' else f' = f))"
  using assms
proof (induction "is" arbitrary: s)
  case Nil
  then show ?case by simp
next
  case (Cons i "is")
  then obtain f where f: "transfers s i = Some f" and h: "dev_handles s (fl_handle f) \<noteq> None"
    by (auto simp: dev_of_def split: option.splits)
  have dl: "deadline s i = fl_deadline f" by (simp add: deadline_def f)
  have later: "due_of (fl_deadline f) \<le> due_of (deadline s j)" if "j \<in> set is" for j
    using Cons.prems(1) that by (auto simp: due_sorted_def dl)
  have alive: "\<exists>g. transfers s j = Some g \<and> deadline s j = fl_deadline g" if "j \<in> set is" for j
    using Cons.prems(3) that by (auto simp: dev_of_def deadline_def split: option.splits)
  show ?case
  proof (cases "timerisset (fl_deadline f) \<and> \<not> later_than (fl_deadline f) now")
    case False
    have "\<not> (timerisset (fl_deadline g) \<and> \<not> later_than (fl_deadline g) now)" if "j \<in> set is" "transfers s j = Some g" for j g
      using False later [OF that(1)] alive [OF that(1)] that(2) unfolding due_expired by fastforce
    then have none: "\<not> expired now g" if "j \<in> set (i # is)" "transfers s j = Some g" for j g
      using that False f unfolding expired_def by auto
    show ?thesis
    proof (cases "\<not> handled f \<or> \<not> timerisset (fl_deadline f)")
      case True
      then have "timeouts_loop dis now (i # is) s = Some s" using False f by auto
      then show ?thesis using none alive f by fastforce
    next
      case handled: False
      then have "timeouts_loop dis now (i # is) s = timeouts_loop dis now is s" using f by simp
      moreover have "due_sorted (deadline s) is" using Cons.prems(1) by (simp add: due_sorted_def)
      ultimately show ?thesis
        using Cons.IH [of s] Cons.prems(2,3) none f by fastforce
    qed
  next
    case due: True
    show ?thesis
    proof (cases "handled f")
      case True
      then have "timeouts_loop dis now (i # is) s = timeouts_loop dis now is s" using f due by simp
      moreover have "due_sorted (deadline s) is" using Cons.prems(1) by (simp add: due_sorted_def)
      ultimately show ?thesis
        using Cons.IH [of s] Cons.prems(2,3) f True by (fastforce simp: expired_def)
    next
      case False
      then have e: "expired now f" using due by (simp add: expired_def)
      obtain g where g: "handle_timeout (dis i) i s = Some (set_flight i g s)" "cancelled_late (dis i) f g"
        using handle_timeout_result [OF f h] by blast
      let ?s = "set_flight i g s"
      have same: "transfers ?s j = transfers s j" "dev_of ?s j = dev_of s j" "deadline ?s j = deadline s j"
        if "j \<in> set is" for j
      proof -
        have "i \<noteq> j" "j \<noteq> i" using that Cons.prems(2) by auto
        then show "transfers ?s j = transfers s j" "dev_of ?s j = dev_of s j" "deadline ?s j = deadline s j"
          by (simp_all add: dev_of_set_flight deadline_set_flight)
      qed
      have "due_sorted (deadline ?s) is"
        using Cons.prems(1) due_sorted_cong [of "is" "deadline ?s" "deadline s", OF same(3)] by (simp add: due_sorted_def)
      then obtain s' where s': "timeouts_loop dis now is ?s = Some s'" "flying_transfers s' = flying_transfers ?s"
        "\<forall>j. j \<notin> set is \<longrightarrow> transfers s' j = transfers ?s j"
        "\<forall>j \<in> set is. \<exists>f f'. transfers ?s j = Some f \<and> transfers s' j = Some f'
          \<and> (if expired now f then cancelled_late (dis j) f f' else f' = f)"
        using Cons.IH [of ?s] Cons.prems(2,3) same(2) by fastforce
      have "timeouts_loop dis now (i # is) s = Some s'" using f due False g s'(1) by simp
      then show ?thesis using s' f e g(2) Cons.prems(2) same(1) by (intro exI [of _ s']) auto
    qed
  qed
qed

text \<open>The time until the first transfer that can still time out.\<close>

definition usecs :: "timeval \<Rightarrow> nat" where
  "usecs t = fst t * 1000000 + snd t"

definition pending :: "io_context \<Rightarrow> nat \<Rightarrow> bool" where
  "pending s i \<longleftrightarrow> (case transfers s i of None \<Rightarrow> False | Some f \<Rightarrow> \<not> handled f \<and> timerisset (fl_deadline f))"

lemma usecs_due:
  assumes "due_of a \<le> due_of b" "timerisset a" "timerisset b" "snd a < 1000000"
  shows "usecs a \<le> usecs b"
  using assms by (cases a; cases b) (auto simp: due_of_def usecs_def)

lemma usecs_timersub:
  "later_than a b \<Longrightarrow> snd a < 1000000 \<Longrightarrow> snd b < 1000000 \<Longrightarrow> usecs (timeval_sub a b) = usecs a - usecs b"
  by (cases a; cases b) (auto simp: timeval_sub_def later_than_def usecs_def diff_mult_distrib)

lemma usecs_not_after: "\<not> later_than a b \<Longrightarrow> snd a < 1000000 \<Longrightarrow> usecs a \<le> usecs b"
  by (cases a; cases b) (auto simp: later_than_def usecs_def not_less)

lemma next_pending_find:
  "\<forall>i \<in> set is. transfers s i \<noteq> None \<Longrightarrow>
     next_pending is s = Some (case find (pending s) is of None \<Rightarrow> None | Some i \<Rightarrow> transfers s i)"
  by (induction "is") (auto simp: pending_def)

lemma find_first:
  assumes "find P xs = Some x"
  obtains ys zs where "xs = ys @ x # zs" "P x" "\<forall>y \<in> set ys. \<not> P y"
proof -
  from assms obtain zs where "dropWhile (Not \<circ> P) xs = x # zs"
    by (auto simp: find_dropWhile split: list.splits)
  then have "xs = takeWhile (Not \<circ> P) xs @ x # zs" "P x"
    using takeWhile_dropWhile_id [of "Not \<circ> P" xs] hd_dropWhile [of "Not \<circ> P" xs] by (simp_all del: takeWhile_dropWhile_id)
  moreover have "\<forall>y \<in> set (takeWhile (Not \<circ> P) xs). \<not> P y" by (auto dest: set_takeWhileD)
  ultimately show thesis by (rule that)
qed

lemma next_timeout_exact:
  assumes ok: "flights_ok ext s" and now: "snd now < 1000000000"
  shows "\<exists>r. libusb_get_next_timeout (Some now) s = Some r \<and> (case r of
      None \<Rightarrow> \<forall>i \<in> set (flying_transfers s). \<not> pending s i
    | Some t \<Rightarrow> (\<exists>i \<in> set (flying_transfers s). pending s i \<and> usecs t = usecs (deadline s i) - usecs (timeval_of now))
        \<and> (\<forall>i \<in> set (flying_transfers s). pending s i \<longrightarrow> usecs t \<le> usecs (deadline s i) - usecs (timeval_of now)))"
proof (cases "find (pending s) (flying_transfers s)")
  case None
  have "\<forall>i \<in> set (flying_transfers s). transfers s i \<noteq> None" using flying_alive [OF ok] by fastforce
  from next_pending_find [OF this] None have "libusb_get_next_timeout (Some now) s = Some None"
    by (simp add: libusb_get_next_timeout_def)
  then show ?thesis using None by (auto simp: find_None_iff)
next
  case (Some i)
  then obtain ys zs where xs: "flying_transfers s = ys @ i # zs" and p: "pending s i" and ys: "\<forall>y \<in> set ys. \<not> pending s y"
    by (rule find_first)
  from p obtain f where f: "transfers s i = Some f" and d: "deadline s i = fl_deadline f" "timerisset (fl_deadline f)"
    by (auto simp: pending_def deadline_def split: option.splits)
  let ?now = "timeval_of now"
  let ?t = "if later_than (fl_deadline f) ?now then timeval_sub (fl_deadline f) ?now else (0, 0)"
  have bound: "snd (fl_deadline f) < 1000000" "snd ?now < 1000000"
    using time_bound [OF ok f] now by (simp_all add: timeval_of_def less_mult_imp_div_less)
  have t: "usecs ?t = usecs (deadline s i) - usecs ?now"
    using usecs_timersub [OF _ bound] usecs_not_after [OF _ bound(1), of ?now] by (auto simp: d) (simp add: usecs_def)
  have "\<forall>i \<in> set (flying_transfers s). transfers s i \<noteq> None" using flying_alive [OF ok] by fastforce
  from next_pending_find [OF this] Some f have "libusb_get_next_timeout (Some now) s = Some (Some ?t)"
    by (auto simp: libusb_get_next_timeout_def xs)
  moreover have "usecs (deadline s i) \<le> usecs (deadline s j)" if "j \<in> set (flying_transfers s)" "pending s j" for j
  proof -
    from that ys xs have "j \<in> set (i # zs)" by auto
    moreover have "due_sorted (deadline s) (flying_transfers s)" using ok by (simp add: flights_ok_def list_ok_def)
    ultimately have "due_of (deadline s i) \<le> due_of (deadline s j)" by (auto simp: xs due_sorted_def sorted_append)
    moreover have "timerisset (deadline s j)" using that(2) by (auto simp: pending_def deadline_def split: option.splits)
    ultimately show ?thesis using d bound by (intro usecs_due) auto
  qed
  ultimately show ?thesis using t p xs by (auto intro!: exI [of _ "Some ?t"] diff_le_mono)
qed

section \<open>Disconnection\<close>

text \<open>A callback that at most frees its transfer.\<close>

definition only_frees :: "callback \<Rightarrow> bool" where
  "only_frees cb \<longleftrightarrow> (\<forall>i s. cb i s = [] \<or> cb i s = [Free i])"

lemma complete_quietly:
  assumes ok: "flights_ok ext s" and i: "i \<in> set (flying_transfers s)" and f: "transfers s i = Some f"
    and cb: "only_frees cb" and fl: "tr_flags (fl_xfer f) AND TRANSFER_FREE_TRANSFER = 0"
  shows "\<exists>s'. usbi_handle_transfer_completion cb i ST_NO_DEVICE s = Some s'
    \<and> flying_transfers s' = remove1 i (flying_transfers s) \<and> reports s' = reports s @ [(i, ST_NO_DEVICE)]
    \<and> (\<forall>j. j \<noteq> i \<longrightarrow> transfers s' j = transfers s j)"
proof -
  obtain u where u: "dev_handles s (fl_handle f) = Some u" and d: "dev_of s i = Some (uh_dev u)"
    using flying_alive [OF ok i] f by auto
  have dist: "distinct (flying_transfers s)" using ok by (simp add: flights_ok_def list_ok_def)
  let ?d = "uh_dev u" and ?t = "fl_xfer f"
  define s2 where "s2 = set_flight i (f\<lparr>fl_xfer := ?t\<lparr>tr_status := ST_NO_DEVICE, tr_actual_length := transferred ?t\<rparr>\<rparr>)
    (s\<lparr>flying_transfers := remove1 i (flying_transfers s), reports := reports s @ [(i, ST_NO_DEVICE)]\<rparr>)"
  have s2: "flights_ok (ext(?d := ext ?d + 1)) s2"
    using same_flight_ok [OF retire_ok [OF ok i d, of ST_NO_DEVICE], of i f] f by (simp add: s2_def)
  have gone: "i \<notin> set (flying_transfers s2)" "transfers s2 i \<noteq> None" using dist by (simp_all add: s2_def)
  obtain s3 where s3: "(if fl_callback f then acts (cb i s2) s2 else Some s2) = Some s3"
    and same: "flying_transfers s3 = flying_transfers s2" "reports s3 = reports s2" "usb_devs s3 = usb_devs s2"
      "\<forall>j. j \<noteq> i \<longrightarrow> transfers s3 j = transfers s2 j"
  proof (cases "fl_callback f \<and> cb i s2 = [Free i] \<and> i \<noteq> 0")
    case True
    then show thesis using gone by (intro that [of "s2\<lparr>transfers := (transfers s2)(i := None)\<rparr>"]) (auto simp: libusb_free_transfer_def)
  next
    case False
    have "cb i s2 = [] \<or> cb i s2 = [Free i]" using cb by (simp add: only_frees_def)
    then show thesis using False by (intro that [of s2]) (auto simp: libusb_free_transfer_def)
  qed
  have ok3: "flights_ok (ext(?d := ext ?d + 1)) s3 \<and> dev_handles s3 = dev_handles s2"
    using s2 s3 acts_ok [OF s2] by (cases "fl_callback f") auto
  have h3: "dev_handles s3 (fl_handle f) = Some u" using ok3 u by (simp add: s2_def)
  have live: "0 < ext ?d" "usb_devs s ?d \<noteq> None" "?d \<noteq> 0"
    using ok u unfolding flights_ok_def handles_ok_def refs_ok_def by blast+
  have "usb_devs s3 ?d \<noteq> None" using live(2) same(3) by (simp add: s2_def)
  then obtain v where v: "libusb_unref_device ?d s3 = Some (s3\<lparr>usb_devs := (usb_devs s3)(?d \<mapsto> v)\<rparr>)"
    using unref_ok [of ext ?d s3] ok3 live by blast
  have "usbi_handle_transfer_completion cb i ST_NO_DEVICE s = Some (s3\<lparr>usb_devs := (usb_devs s3)(?d \<mapsto> v)\<rparr>)"
    using f u i fl s3 h3 v
    by (simp add: usbi_handle_transfer_completion_def remove_flying_def final_status_def s2_def [symmetric] cong: if_cong)
  then show ?thesis using same by (auto simp: s2_def)
qed

lemma clear_idle:
  "flying t = {} \<Longrightarrow> \<exists>t'. op_clear_transfer_priv t = Some t' \<and> tr_flags t' = tr_flags t"
  unfolding op_clear_transfer_priv_def free_urbs_def by (simp split: if_split)

lemma disconnect_all:
  assumes "flights_ok ext s" "only_frees cb" "dev_handles s h \<noteq> None"
    and "\<forall>i \<in> set (flying_transfers s). \<forall>f. transfers s i = Some f \<and> fl_handle f = h \<longrightarrow>
          flying (fl_xfer f) = {} \<and> tr_flags (fl_xfer f) AND TRANSFER_FREE_TRANSFER = 0"
  shows "\<exists>s'. usbi_handle_disconnect cb h s = Some s'
    \<and> flying_transfers s' = filter (\<lambda>i. \<not> of_handle s h i) (flying_transfers s)
    \<and> reports s' = reports s @ map (\<lambda>i. (i, ST_NO_DEVICE)) (filter (of_handle s h) (flying_transfers s))"
  using assms
proof (induction "length (flying_transfers s)" arbitrary: s rule: less_induct)
  case less
  show ?case
  proof (cases "find (of_handle s h) (flying_transfers s)")
    case None
    then have "\<forall>i \<in> set (flying_transfers s). \<not> of_handle s h i" by (auto simp: find_None_iff)
    then show ?thesis using None by (simp add: usbi_handle_disconnect.simps filter_id_conv filter_empty_conv)
  next
    case (Some i)
    then obtain ys zs where xs: "flying_transfers s = ys @ i # zs" and i: "of_handle s h i"
      and ys: "\<forall>y \<in> set ys. \<not> of_handle s h y"
      by (rule find_first)
    have dist: "distinct (flying_transfers s)" using less.prems(1) by (simp add: flights_ok_def list_ok_def)
    from i obtain f where f: "transfers s i = Some f" "fl_handle f = h" by (auto simp: of_handle_def split: option.splits)
    have k: "flying (fl_xfer f) = {}" "tr_flags (fl_xfer f) AND TRANSFER_FREE_TRANSFER = 0"
      using less.prems(4) f xs by auto
    obtain t where t: "op_clear_transfer_priv (fl_xfer f) = Some t" "tr_flags t = tr_flags (fl_xfer f)"
      using clear_idle [OF k(1)] by blast
    let ?s = "set_flight i (f\<lparr>fl_xfer := t\<rparr>) s"
    have ok: "flights_ok ext ?s" using same_flight_ok [OF less.prems(1) f(1)] by simp
    obtain s1 where s1: "usbi_handle_transfer_completion cb i ST_NO_DEVICE ?s = Some s1"
      "flying_transfers s1 = remove1 i (flying_transfers s)" "reports s1 = reports s @ [(i, ST_NO_DEVICE)]"
      "\<forall>j. j \<noteq> i \<longrightarrow> transfers s1 j = transfers s j"
      using complete_quietly [OF ok, of i "f\<lparr>fl_xfer := t\<rparr>" cb] xs k(2) t(2) less.prems(2) by (auto)
    have fl1: "flying_transfers s1 = ys @ zs" using s1(2) dist by (simp add: xs remove1_append)
    have ne: "j \<noteq> i" if "j \<in> set (ys @ zs)" for j using that dist xs by auto
    have same: "of_handle s1 h j = of_handle s h j" "transfers s1 j = transfers s j" if "j \<in> set (ys @ zs)" for j
      using s1(4) ne [OF that] by (auto simp: of_handle_def)
    have ok1: "flights_ok ext s1" "dev_handles s1 h \<noteq> None" using completion_ok [OF ok s1(1)] less.prems(3) by auto
    have "\<forall>j \<in> set (flying_transfers s1). \<forall>f. transfers s1 j = Some f \<and> fl_handle f = h \<longrightarrow>
          flying (fl_xfer f) = {} \<and> tr_flags (fl_xfer f) AND TRANSFER_FREE_TRANSFER = 0"
      using less.prems(4) same(2) unfolding fl1 xs by auto
    then obtain s' where s': "usbi_handle_disconnect cb h s1 = Some s'"
      "flying_transfers s' = filter (\<lambda>i. \<not> of_handle s1 h i) (ys @ zs)"
      "reports s' = reports s1 @ map (\<lambda>i. (i, ST_NO_DEVICE)) (filter (of_handle s1 h) (ys @ zs))"
      using less.hyps [OF _ ok1(1) less.prems(2) ok1(2)] unfolding fl1 xs by auto
    have "filter (of_handle s1 h) (ys @ zs) = filter (of_handle s h) (ys @ zs)"
      "filter (\<lambda>i. \<not> of_handle s1 h i) (ys @ zs) = filter (\<lambda>i. \<not> of_handle s h i) (ys @ zs)"
      using same(1) by (auto intro!: filter_cong simp del: set_append filter_append)
    moreover have "filter (of_handle s h) ys = []" using ys by (simp add: filter_empty_conv)
    moreover have "usbi_handle_disconnect cb h s = Some s'"
      using Some f t s1(1) s'(1) by (subst usbi_handle_disconnect.simps) simp
    ultimately show ?thesis using s'(2,3) s1(3) i by (simp add: xs)
  qed
qed

section \<open>Example\<close>

definition demo_transfer :: usb_transfer where
  "demo_transfer = (zero_transfer 0)\<lparr>tr_endpoint := 0x81, tr_type := TYPE_BULK, tr_buffer := [0, 0],
     urbs := Some [zero_urb\<lparr>urb_type := 3, urb_endpoint := 0x81, urb_length := 2\<rparr>], num_urbs := 1, flying := {0}\<rparr>"

definition demo_flight :: "timeval \<Rightarrow> flight" where
  "demo_flight t = \<lparr>fl_xfer = demo_transfer, fl_deadline = t, fl_flags = 0, fl_handle = 7, fl_callback = True\<rparr>"

text \<open>Transfer 3 is due at second 100, transfer 4 waits for ever.\<close>

definition demo_context :: io_context where
  "demo_context = \<lparr>usb_devs = [1 \<mapsto> \<lparr>dv_refcnt = 4, dv_parent = 0, dv_session = 258, dv_attached = True\<rparr>],
     known_devs = [1], departed = [], open_devs = [7],
     dev_handles = [7 \<mapsto> \<lparr>uh_dev = 1, uh_fd = 5, uh_caps = 4, uh_claimed = 0, uh_auto_detach = False\<rparr>],
     transfers = [3 \<mapsto> demo_flight (100, 5), 4 \<mapsto> demo_flight (0, 0)], flying_transfers = [3, 4], pollfds = [(5, 4)], kernel_fds = [5],
     submits = [3, 4], reports = [], lost = []\<rparr>"

definition demo_answers :: submit_answers where
  "demo_answers = \<lparr>an_clock = Some (200, 0), an_mem = (\<lambda>_. True), an_sub = (\<lambda>_. 0), an_dis = (\<lambda>_. 0)\<rparr>"

definition demo_reply :: completion where
  "demo_reply = \<lparr>c_status = 0, c_actual = 2, c_data = [8, 9], c_packets = []\<rparr>"

text \<open>A callback that submits the first transfer again.\<close>

definition echo :: callback where
  "echo i s = (if length (reports s) = 1 then [Submit demo_answers i] else [])"

definition demo_run :: "event list" where
  "demo_run = [Expiry (Some (200, 0)) (\<lambda>_ _. 0), Reaped (\<lambda>_. 0) 3 0 demo_reply, Reaped (\<lambda>_. 0) 4 0 demo_reply]"

lemma demo_ok: "flights_ok (\<lambda>_. 1) demo_context"
  by (auto simp: flights_ok_defs demo_context_def demo_flight_def due_sorted_def due_of_def deadline_def timerisset_def
    dev_of_def open_on_def flying_on_def lost_on_def split: if_splits)

lemma demo_outcome:
  "map_option (\<lambda>s. (reports s, flying_transfers s, map_option dv_refcnt (usb_devs s 1))) (run_events echo demo_run demo_context)
     = Some ([(3, ST_TIMED_OUT), (4, ST_COMPLETED)], [3], Some 3)"
  by code_simp

text \<open>A transfer without timeout keeps the deadline of its previous submission: when submitted again
  after that, it is cancelled at once.\<close>

lemma infinite_transfer_times_out:
  "map_option (\<lambda>s. map_option (\<lambda>f. (tr_timeout (fl_xfer f), reap_act (fl_xfer f), fl_flags f)) (transfers s 3))
     (run_events echo (demo_run @ [Expiry (Some (201, 0)) (\<lambda>_ _. 0)]) demo_context)
     = Some (Some (0, CANCELLED, TIMED_OUT OR CANCELLING))"
  by code_simp

text \<open>Closing a handle with transfers in flight: the device keeps their references for good.\<close>

lemma close_loses_references:
  "map_option (\<lambda>s. (flying_transfers s, open_devs s, map_option dv_refcnt (usb_devs s 1), lost s))
     (run_events echo [Closed 7] demo_context) = Some ([], [], Some 3, [(3, 1), (4, 1)])"
  by code_simp

text \<open>When there is no memory for the entry in the poll list, the file of the device stays open.\<close>

lemma failed_open_leaks_file:
  "map_option (\<lambda>(r, s). (r, kernel_fds s, open_devs s))
     (libusb_open_device \<lparr>oa_mem = True, oa_first = 9, oa_second = 0, oa_caps = Some 0, oa_pollmem = False,
        supports_flag_zero_packet = True, supports_flag_bulk_continuation = True\<rparr> 1 8 demo_context)
     = Some (ERROR_NO_MEM, [9, 5], [7])"
  by code_simp

section \<open>Properties\<close>

text \<open>C2: Whatever the client, its callbacks and the kernel do, the list of transfers in flight stays
  sorted by the time they are due with the ones that wait for ever at the end, its members stay
  alive, the reference count of each device stays the sum of its other references, its open handles,
  its transfers in flight and those dropped by closing, and every successful submission is in
  flight, reported or dropped, exactly once.\<close>

theorem run_keeps_flights:
  assumes "flights_ok ext s" and "run_events cb es s = Some s'"
  shows "flights_ok ext s'"
  using assms by (rule run_events_ok)

theorem run_keeps_flights_witness:
  "\<exists>s'. run_events echo demo_run demo_context = Some s' \<and> flights_ok (\<lambda>_. 1) s' \<and> flying_transfers s' = [3]"
proof -
  obtain s' where "run_events echo demo_run demo_context = Some s'" "flying_transfers s' = [3]"
    using demo_outcome by (cases "run_events echo demo_run demo_context") auto
  with run_keeps_flights [OF demo_ok] show ?thesis by blast
qed

text \<open>C20: Although it stops at the first transfer that is not due, handling the timeouts cancels every
  transfer that has expired and was not cancelled for it before, marks it as timed out, and touches
  no other.\<close>

theorem timeouts_cancel_exactly_expired:
  assumes "flights_ok ext s"
  shows "\<exists>s'. handle_timeouts (Some now) dis s = Some s' \<and> flying_transfers s' = flying_transfers s
    \<and> (\<forall>i. i \<notin> set (flying_transfers s) \<longrightarrow> transfers s' i = transfers s i)
    \<and> (\<forall>i \<in> set (flying_transfers s). \<exists>f f'. transfers s i = Some f \<and> transfers s' i = Some f'
         \<and> (if expired (timeval_of now) f then cancelled_late (dis i) f f' else f' = f))"
  using timeouts_loop_exact [of s "flying_transfers s" dis "timeval_of now"] assms
  by (auto simp: flights_ok_def list_ok_def handle_timeouts_def)

theorem timeouts_cancel_exactly_expired_witness:
  "\<exists>s' f'. handle_timeouts (Some (200, 0)) (\<lambda>_ _. 0) demo_context = Some s' \<and> transfers s' 3 = Some f'
     \<and> cancelled_late (\<lambda>_. 0) (demo_flight (100, 5)) f' \<and> transfers s' 4 = Some (demo_flight (0, 0))"
proof -
  have "expired (timeval_of (200, 0)) (demo_flight (100, 5))" "\<not> expired (timeval_of (200, 0)) (demo_flight (0, 0))"
    by (simp_all add: expired_def demo_flight_def timerisset_def timeval_of_def later_than_def handled_def)
  then show ?thesis
    using timeouts_cancel_exactly_expired [OF demo_ok, of "(200, 0)" "\<lambda>_ _. 0"] by (auto simp: demo_context_def)
qed

text \<open>C26: The time until the next timeout is the smallest over all transfers in flight that can still
  time out, zero when one has expired, and there is none exactly when there is no such transfer.\<close>

theorem next_timeout_is_minimum:
  assumes "flights_ok ext s" and "snd now < 1000000000"
  shows "\<exists>r. libusb_get_next_timeout (Some now) s = Some r \<and> (case r of
      None \<Rightarrow> \<forall>i \<in> set (flying_transfers s). \<not> pending s i
    | Some t \<Rightarrow> (\<exists>i \<in> set (flying_transfers s). pending s i \<and> usecs t = usecs (deadline s i) - usecs (timeval_of now))
        \<and> (\<forall>i \<in> set (flying_transfers s). pending s i \<longrightarrow> usecs t \<le> usecs (deadline s i) - usecs (timeval_of now)))"
  using assms by (rule next_timeout_exact)

theorem next_timeout_is_minimum_witness:
  "\<exists>t. libusb_get_next_timeout (Some (99, 7000)) demo_context = Some (Some t) \<and> usecs t = 999998"
proof -
  obtain r where r: "libusb_get_next_timeout (Some (99, 7000)) demo_context = Some r" and c: "case r of
      None \<Rightarrow> \<forall>i \<in> set (flying_transfers demo_context). \<not> pending demo_context i
    | Some t \<Rightarrow> (\<exists>i \<in> set (flying_transfers demo_context). pending demo_context i
          \<and> usecs t = usecs (deadline demo_context i) - usecs (timeval_of (99, 7000)))
        \<and> (\<forall>i \<in> set (flying_transfers demo_context). pending demo_context i
          \<longrightarrow> usecs t \<le> usecs (deadline demo_context i) - usecs (timeval_of (99, 7000)))"
    using next_timeout_is_minimum [OF demo_ok, of "(99, 7000)"] by auto
  have "pending demo_context 3" "\<not> pending demo_context 4" "flying_transfers demo_context = [3, 4]"
    "usecs (deadline demo_context 3) - usecs (timeval_of (99, 7000)) = 999998"
    by (simp_all add: pending_def demo_context_def demo_flight_def handled_def timerisset_def usecs_def deadline_def timeval_of_def)
  then show ?thesis using r c by (cases r) auto
qed

text \<open>C23: When a device disappears and the kernel has dropped its requests, handling the disconnection
  returns, reports each transfer of the handle once, in order, as lost with the device, and leaves the
  other transfers in flight, also when the callback frees the transfer.\<close>

theorem disconnect_reports_all:
  assumes "flights_ok ext s" and "only_frees cb" and "dev_handles s h \<noteq> None"
    and "\<forall>i \<in> set (flying_transfers s). \<forall>f. transfers s i = Some f \<and> fl_handle f = h \<longrightarrow>
          flying (fl_xfer f) = {} \<and> tr_flags (fl_xfer f) AND TRANSFER_FREE_TRANSFER = 0"
  shows "\<exists>s'. usbi_handle_disconnect cb h s = Some s'
    \<and> flying_transfers s' = filter (\<lambda>i. \<not> of_handle s h i) (flying_transfers s)
    \<and> reports s' = reports s @ map (\<lambda>i. (i, ST_NO_DEVICE)) (filter (of_handle s h) (flying_transfers s))"
  using assms by (rule disconnect_all)

theorem disconnect_reports_all_witness:
  "\<exists>s'. usbi_handle_disconnect (\<lambda>i _. [Free i]) 7 (set_flight 3 ((demo_flight (100, 5))\<lparr>fl_xfer := demo_transfer\<lparr>flying := {}\<rparr>\<rparr>)
      (set_flight 4 ((demo_flight (0, 0))\<lparr>fl_xfer := demo_transfer\<lparr>flying := {}\<rparr>\<rparr>) demo_context)) = Some s'
     \<and> flying_transfers s' = [] \<and> reports s' = [(3, ST_NO_DEVICE), (4, ST_NO_DEVICE)]"
proof -
  let ?f = "\<lambda>t. (demo_flight t)\<lparr>fl_xfer := demo_transfer\<lparr>flying := {}\<rparr>\<rparr>"
  define s where "s = set_flight 3 (?f (100, 5)) (set_flight 4 (?f (0, 0)) demo_context)"
  have t: "transfers demo_context 3 = Some (demo_flight (100, 5))" "transfers demo_context 4 = Some (demo_flight (0, 0))"
    by (simp_all add: demo_context_def)
  have ok: "flights_ok (\<lambda>_. 1) s"
    unfolding s_def
    by (rule same_flight_ok [OF same_flight_ok [OF demo_ok t(2)], of "?f (0, 0)" 3 "demo_flight (100, 5)"])
      (simp_all add: t demo_flight_def)
  have s: "flying_transfers s = [3, 4]" "reports s = []" "transfers s 3 = Some (?f (100, 5))" "transfers s 4 = Some (?f (0, 0))"
    "dev_handles s 7 \<noteq> None"
    by (simp_all add: s_def demo_context_def)
  have "of_handle s 7 3" "of_handle s 7 4" using s by (simp_all add: of_handle_def demo_flight_def)
  then show ?thesis
    using disconnect_reports_all [OF ok, of "\<lambda>i _. [Free i]" 7] s
    unfolding s_def [symmetric] by (auto simp: only_frees_def demo_flight_def demo_transfer_def zero_transfer_def)
qed

text \<open>C27: On the doubly linked nodes, adding a transfer to the list of transfers in flight relinks it to
  the list with the transfer behind all members due no later and before all others, where a transfer
  without timeout is due last; no other node is touched.\<close>

theorem linking_keeps_order:
  assumes "ring h hp xs" and "e \<in> live h" and "e \<notin> set (hp # xs)" and "due_sorted dl xs"
  shows "\<exists>h' ys zs. link_flying dl e hp h = Some h' \<and> ring h' hp (ys @ e # zs) \<and> xs = ys @ zs
    \<and> due_sorted dl (ys @ e # zs) \<and> (\<forall>z \<in> set zs. due_of (dl e) < due_of (dl z))"
proof -
  obtain ys zs where p: "xs = ys @ zs" "insert_flying dl e xs = ys @ e # zs" "zs = [] \<or> due_of (dl e) < due_of (dl (hd zs))"
    using insert_flying_parts [of xs dl e] by metis
  have "due_of (dl e) < due_of (dl z)" if z: "z \<in> set zs" for z
  proof -
    obtain w ws where w: "zs = w # ws" using z by (cases zs) auto
    then have "due_of (dl w) \<le> due_of (dl z)" using assms(4) z by (auto simp: due_sorted_def p(1) sorted_append)
    then show ?thesis using p(3) w by simp
  qed
  then show ?thesis using link_flying_ring [OF assms(1-3), of dl] insert_flying_sorted [OF assms(4), of e] p(1,2) by auto
qed

theorem linking_keeps_order_witness:
  "\<exists>h h'. ring h 10 [3, 4] \<and> link_flying (\<lambda>i. (i, 0)) 5 10 h = Some h' \<and> ring h' 10 [3, 4, 5]"
proof -
  let ?h = "\<lparr>prev = id(3 := 10, 4 := 3, 10 := 4), next_of = id(10 := 3, 3 := 4, 4 := 10), live = {3, 4, 5, 10}\<rparr>"
  have r: "ring ?h 10 [3, 4]" by (simp add: ring_def)
  obtain h' ys zs where h': "link_flying (\<lambda>i. (i, 0)) 5 10 ?h = Some h'" "ring h' 10 (ys @ 5 # zs)" "[3, 4] = ys @ zs"
      "\<forall>z \<in> set zs. due_of (5, 0) < due_of (z, 0)"
    using linking_keeps_order [OF r, of 5 "\<lambda>i. (i, 0)"] by (auto simp: due_sorted_def due_of_def timerisset_def)
  have "zs = []"
  proof (rule ccontr)
    assume "zs \<noteq> []"
    then have "last zs = 4" using h'(3) by (metis last.simps last_appendR list.distinct(1))
    with h'(4) \<open>zs \<noteq> []\<close> have "due_of (5, 0) < due_of (4, 0)" by (metis last_in_set)
    then show False by (simp add: due_of_def timerisset_def)
  qed
  then show ?thesis using r h' by auto
qed

end
