(* ===== verification/UsbClaims.thy ===== *)
theory UsbClaims
  imports UsbFlight UsbfsDesc
begin

text \<open>
  Control of an open device: configurations, interfaces, reset, streams and kernel drivers
  (\<open>core.c\<close> from \<open>libusb_get_configuration\<close> on, and the operations of \<open>linux_usbfs.c\<close> behind them).

  Each operation is a sequence of requests to the kernel (\<open>ioctl\<close>).  The answers are an argument: the
  error number of each request, 0 when it succeeds.  A \<open>port\<close> is an open handle with its device;
  \<open>bound\<close> is ghost state, the interfaces the kernel has bound to the handle.  The properties relate
  it to \<open>claimed_interfaces\<close>, what libusb believes.
\<close>

section \<open>State and answers\<close>

abbreviation EBUSY :: int where "EBUSY \<equiv> 16"
abbreviation ENOTTY :: int where "ENOTTY \<equiv> 25"
abbreviation ENODATA :: int where "ENODATA \<equiv> 61"
abbreviation MAXINTERFACES :: int where "MAXINTERFACES \<equiv> 32"

record port =
  pt_handle :: usb_handle
  pt_attached :: bool
  pt_device :: linux_device
  bound :: "nat set"

datatype usbfs_call =
  SETCONFIG | CLAIMINTF nat | RELEASEINTF nat | SETINTF | CLEAR_HALT | RESET | STREAMS
  | GETDRIVER nat | DISCONNECT nat | CONNECT nat | DISCONNECT_CLAIM nat

text \<open>\<open>driver\<close>: the name of the driver of an interface; \<open>reconnected\<close>: whether a driver took the
  interface; \<open>streams\<close>: the result of the request for streams, and whether there is memory for it.\<close>

record kernel =
  errno :: "usbfs_call \<Rightarrow> int"
  driver :: "nat \<Rightarrow> string"
  reconnected :: "nat \<Rightarrow> bool"
  streams :: int
  streams_mem :: bool

text \<open>The translations of error numbers.\<close>

definition os_error :: "(int \<times> int) list \<Rightarrow> int \<Rightarrow> int" where
  "os_error table e = (case map_of table e of Some r \<Rightarrow> r | None \<Rightarrow> ERR_OTHER)"

section \<open>Requests\<close>

text \<open>\<open>config\<close> is what the variable of the caller holds before; \<open>answer\<close> the answer of the device.\<close>

definition op_get_configuration :: "usbfs_mode \<Rightarrow> int \<times> u8 \<Rightarrow> int \<Rightarrow> port \<Rightarrow> (int \<times> int) option" where
  "op_get_configuration md answer config p =
     (if sysfs_can_relate_devices md then do {
        (r, c) \<leftarrow> sysfs_get_active_config (pt_device p);
        Some (if r < 0 then (r, c) else (0, if c = -1 then 0 else c)) }
      else let r = usbfs_get_active_config answer in
        if r < 0 then Some (r, config) else Some (0, if config = -1 then 0 else config))"

definition op_set_configuration :: "kernel \<Rightarrow> int \<Rightarrow> port \<Rightarrow> int \<times> port" where
  "op_set_configuration k c p =
     (let e = errno k SETCONFIG in
      if e \<noteq> 0 then (os_error [(EINVAL, ERROR_NOT_FOUND), (EBUSY, ERR_BUSY), (ENODEV, ERR_NO_DEVICE)] e, p)
      else (0, p\<lparr>pt_device := (pt_device p)\<lparr>active_config := c\<rparr>\<rparr>))"

definition claim_interface :: "kernel \<Rightarrow> nat \<Rightarrow> port \<Rightarrow> int \<times> port" where
  "claim_interface k i p =
     (let e = errno k (CLAIMINTF i) in
      if e \<noteq> 0 then (os_error [(ENOENT, ERROR_NOT_FOUND), (EBUSY, ERR_BUSY), (ENODEV, ERR_NO_DEVICE)] e, p)
      else (0, p\<lparr>bound := insert i (bound p)\<rparr>))"

definition release_interface :: "kernel \<Rightarrow> nat \<Rightarrow> port \<Rightarrow> int \<times> port" where
  "release_interface k i p =
     (let e = errno k (RELEASEINTF i) in
      if e \<noteq> 0 then (os_error [(ENODEV, ERR_NO_DEVICE)] e, p)
      else (0, p\<lparr>bound := bound p - {i}\<rparr>))"

definition op_set_interface :: "kernel \<Rightarrow> int" where
  "op_set_interface k =
     (let e = errno k SETINTF in if e \<noteq> 0 then os_error [(EINVAL, ERROR_NOT_FOUND), (ENODEV, ERR_NO_DEVICE)] e else 0)"

definition op_clear_halt :: "kernel \<Rightarrow> int" where
  "op_clear_halt k =
     (let e = errno k CLEAR_HALT in if e \<noteq> 0 then os_error [(ENOENT, ERROR_NOT_FOUND), (ENODEV, ERR_NO_DEVICE)] e else 0)"

definition do_streams_ioctl :: "kernel \<Rightarrow> bytes \<Rightarrow> int" where
  "do_streams_ioctl k endpoints =
     (if 30 < length endpoints then ERROR_INVALID_PARAM
      else if \<not> streams_mem k then ERROR_NO_MEM
      else let e = errno k STREAMS in
        if e \<noteq> 0 then os_error [(ENOTTY, ERR_NOT_SUPPORTED), (EINVAL, ERROR_INVALID_PARAM), (ENODEV, ERR_NO_DEVICE)] e
        else streams k)"

definition op_kernel_driver_active :: "kernel \<Rightarrow> nat \<Rightarrow> int" where
  "op_kernel_driver_active k i =
     (let e = errno k (GETDRIVER i) in
      if e \<noteq> 0 then (if e = ENODATA then 0 else os_error [(ENODEV, ERR_NO_DEVICE)] e)
      else if driver k i = ''usbfs'' then 0 else 1)"

definition op_detach_kernel_driver :: "kernel \<Rightarrow> nat \<Rightarrow> int" where
  "op_detach_kernel_driver k i =
     (if errno k (GETDRIVER i) = 0 \<and> driver k i = ''usbfs'' then ERROR_NOT_FOUND
      else let e = errno k (DISCONNECT i) in
        if e \<noteq> 0 then os_error [(ENODATA, ERROR_NOT_FOUND), (EINVAL, ERROR_INVALID_PARAM), (ENODEV, ERR_NO_DEVICE)] e
        else 0)"

definition op_attach_kernel_driver :: "kernel \<Rightarrow> nat \<Rightarrow> int" where
  "op_attach_kernel_driver k i =
     (let e = errno k (CONNECT i) in
      if e \<noteq> 0 then os_error [(ENODATA, ERROR_NOT_FOUND), (EINVAL, ERROR_INVALID_PARAM), (ENODEV, ERR_NO_DEVICE), (EBUSY, ERR_BUSY)] e
      else if \<not> reconnected k i then ERROR_NOT_FOUND
      else 0)"

definition detach_kernel_driver_and_claim :: "kernel \<Rightarrow> nat \<Rightarrow> port \<Rightarrow> int \<times> port" where
  "detach_kernel_driver_and_claim k i p =
     (let e = errno k (DISCONNECT_CLAIM i) in
      if e = 0 then (0, p\<lparr>bound := insert i (bound p)\<rparr>)
      else if e \<noteq> ENOTTY then
        (os_error [(EBUSY, ERR_BUSY), (EINVAL, ERROR_INVALID_PARAM), (ENODEV, ERR_NO_DEVICE)] e, p)
      else let r = op_detach_kernel_driver k i in
        if r \<noteq> 0 \<and> r \<noteq> ERROR_NOT_FOUND then (r, p) else claim_interface k i p)"

definition op_claim_interface :: "kernel \<Rightarrow> nat \<Rightarrow> port \<Rightarrow> int \<times> port" where
  "op_claim_interface k i p =
     (if uh_auto_detach (pt_handle p) then detach_kernel_driver_and_claim k i p else claim_interface k i p)"

text \<open>Giving the interface back to its driver may fail silently.\<close>

definition op_release_interface :: "kernel \<Rightarrow> nat \<Rightarrow> port \<Rightarrow> int \<times> port" where
  "op_release_interface k i p = release_interface k i p"

section \<open>Claims\<close>

definition claimed :: "nat \<Rightarrow> port \<Rightarrow> bool" where
  "claimed i p \<longleftrightarrow> uh_claimed (pt_handle p) AND push_bit i 1 \<noteq> 0"

definition set_claim :: "nat \<Rightarrow> port \<Rightarrow> port" where
  "set_claim i p = p\<lparr>pt_handle := (pt_handle p)\<lparr>uh_claimed := uh_claimed (pt_handle p) OR push_bit i 1\<rparr>\<rparr>"

definition clear_claim :: "nat \<Rightarrow> port \<Rightarrow> port" where
  "clear_claim i p = p\<lparr>pt_handle := (pt_handle p)\<lparr>uh_claimed := uh_claimed (pt_handle p) AND NOT (push_bit i 1)\<rparr>\<rparr>"

text \<open>A shift by a negative number is undefined.\<close>

definition shift_count :: "int \<Rightarrow> nat option" where
  "shift_count i = (if i < 0 then None else Some (nat i))"

definition libusb_claim_interface :: "kernel \<Rightarrow> int \<Rightarrow> port \<Rightarrow> (int \<times> port) option" where
  "libusb_claim_interface k iface p =
     (if MAXINTERFACES \<le> iface then Some (ERROR_INVALID_PARAM, p)
      else if \<not> pt_attached p then Some (ERR_NO_DEVICE, p)
      else do {
        i \<leftarrow> shift_count iface;
        Some (if claimed i p then (0, p)
              else let (r, p1) = op_claim_interface k i p in (r, if r = 0 then set_claim i p1 else p1)) })"

definition libusb_release_interface :: "kernel \<Rightarrow> int \<Rightarrow> port \<Rightarrow> (int \<times> port) option" where
  "libusb_release_interface k iface p =
     (if MAXINTERFACES \<le> iface then Some (ERROR_INVALID_PARAM, p)
      else do {
        i \<leftarrow> shift_count iface;
        Some (if \<not> claimed i p then (ERROR_NOT_FOUND, p)
              else let (r, p1) = op_release_interface k i p in (r, if r = 0 then clear_claim i p1 else p1)) })"

definition libusb_set_interface_alt_setting :: "kernel \<Rightarrow> int \<Rightarrow> port \<Rightarrow> int option" where
  "libusb_set_interface_alt_setting k iface p =
     (if MAXINTERFACES \<le> iface then Some ERROR_INVALID_PARAM
      else if \<not> pt_attached p then Some ERR_NO_DEVICE
      else do {
        i \<leftarrow> shift_count iface;
        Some (if \<not> claimed i p then ERROR_NOT_FOUND else op_set_interface k) })"

section \<open>Reset\<close>

primrec release_claimed :: "kernel \<Rightarrow> nat list \<Rightarrow> port \<Rightarrow> port" where
  "release_claimed k [] p = p"
| "release_claimed k (i # is) p =
     release_claimed k is (if claimed i p then snd (release_interface k i p) else p)"

primrec reclaim :: "kernel \<Rightarrow> nat list \<Rightarrow> int \<Rightarrow> port \<Rightarrow> int \<times> port" where
  "reclaim k [] res p = (res, p)"
| "reclaim k (i # is) res p =
     (if claimed i p then
        let (r, p1) = detach_kernel_driver_and_claim k i p in
        if r \<noteq> 0 then reclaim k is ERROR_NOT_FOUND (clear_claim i p1) else reclaim k is res p1
      else reclaim k is res p)"

text \<open>The kernel unbinds all interfaces of a device it resets.\<close>

definition op_reset_device :: "kernel \<Rightarrow> port \<Rightarrow> int \<times> port" where
  "op_reset_device k p =
     (let p1 = release_claimed k [0..<32] p; e = errno k RESET in
      if e \<noteq> 0 then (if e = ENODEV then ERROR_NOT_FOUND else ERR_OTHER, p1)
      else reclaim k [0..<32] 0 (p1\<lparr>bound := {}\<rparr>))"

section \<open>The calls of the client\<close>

definition libusb_get_configuration ::
  "usbfs_mode \<Rightarrow> int \<times> u8 \<Rightarrow> int \<times> bytes \<Rightarrow> int \<Rightarrow> port \<Rightarrow> (int \<times> int) option" where
  "libusb_get_configuration md answer control config p = do {
     (r, c) \<leftarrow> op_get_configuration md answer config p;
     if r \<noteq> ERR_NOT_SUPPORTED then Some (r, c)
     else do {
       tmp \<leftarrow> put_bytes 0 (snd control) [0];
       Some (if fst control = 0 then (ERROR_IO, c)
             else if fst control = 1 then (0, uint (tmp ! 0))
             else (fst control, c)) } }"

definition libusb_set_configuration :: "kernel \<Rightarrow> int \<Rightarrow> port \<Rightarrow> int \<times> port" where
  "libusb_set_configuration k c p = op_set_configuration k c p"

definition libusb_clear_halt :: "kernel \<Rightarrow> port \<Rightarrow> int" where
  "libusb_clear_halt k p = (if \<not> pt_attached p then ERR_NO_DEVICE else op_clear_halt k)"

definition libusb_reset_device :: "kernel \<Rightarrow> port \<Rightarrow> int \<times> port" where
  "libusb_reset_device k p = (if \<not> pt_attached p then (ERR_NO_DEVICE, p) else op_reset_device k p)"

definition libusb_alloc_streams :: "kernel \<Rightarrow> bytes \<Rightarrow> port \<Rightarrow> int" where
  "libusb_alloc_streams k endpoints p = (if \<not> pt_attached p then ERR_NO_DEVICE else do_streams_ioctl k endpoints)"

definition libusb_free_streams :: "kernel \<Rightarrow> bytes \<Rightarrow> port \<Rightarrow> int" where
  "libusb_free_streams k endpoints p = (if \<not> pt_attached p then ERR_NO_DEVICE else do_streams_ioctl k endpoints)"

definition libusb_kernel_driver_active :: "kernel \<Rightarrow> nat \<Rightarrow> port \<Rightarrow> int" where
  "libusb_kernel_driver_active k i p = (if \<not> pt_attached p then ERR_NO_DEVICE else op_kernel_driver_active k i)"

definition libusb_detach_kernel_driver :: "kernel \<Rightarrow> nat \<Rightarrow> port \<Rightarrow> int" where
  "libusb_detach_kernel_driver k i p = (if \<not> pt_attached p then ERR_NO_DEVICE else op_detach_kernel_driver k i)"

definition libusb_attach_kernel_driver :: "kernel \<Rightarrow> nat \<Rightarrow> port \<Rightarrow> int" where
  "libusb_attach_kernel_driver k i p = (if \<not> pt_attached p then ERR_NO_DEVICE else op_attach_kernel_driver k i)"

text \<open>The Linux backend can always detach drivers.\<close>

definition libusb_set_auto_detach_kernel_driver :: "bool \<Rightarrow> port \<Rightarrow> int \<times> port" where
  "libusb_set_auto_detach_kernel_driver enable p =
     (0, p\<lparr>pt_handle := (pt_handle p)\<lparr>uh_auto_detach := enable\<rparr>\<rparr>)"

end
