(* ===== verification/UsbClaimsProofs.thy ===== *)
theory UsbClaimsProofs
  imports UsbClaims
begin

text \<open>
  What libusb believes about its claims is what the kernel has bound, through every sequence of calls
  in which no reset fails; and the two calls after which the caller is misled.
\<close>

section \<open>Claims and the kernel\<close>

definition mirrored :: "port \<Rightarrow> bool" where
  "mirrored p \<longleftrightarrow> bound p \<subseteq> {..<32} \<and> (\<forall>i < 32. claimed i p \<longleftrightarrow> i \<in> bound p)"

lemma claimed_bit: "claimed i p \<longleftrightarrow> bit (uh_claimed (pt_handle p)) i"
  by (simp add: claimed_def bit_iff_and_push_bit_not_eq_0)

lemma claimed_set_claim: "i < 32 \<Longrightarrow> claimed i (set_claim j p) \<longleftrightarrow> i = j \<or> claimed i p"
  by (auto simp: claimed_bit set_claim_def bit_simps)

lemma claimed_clear_claim: "i < 32 \<Longrightarrow> claimed i (clear_claim j p) \<longleftrightarrow> i \<noteq> j \<and> claimed i p"
  by (auto simp: claimed_bit clear_claim_def bit_simps)

lemma claimed_bound [simp]: "claimed i (p\<lparr>bound := b\<rparr>) = claimed i p" "claimed i (p\<lparr>pt_device := d\<rparr>) = claimed i p"
  by (simp_all add: claimed_def)

lemma bound_claims [simp]: "bound (set_claim i p) = bound p" "bound (clear_claim i p) = bound p"
  by (simp_all add: set_claim_def clear_claim_def)

lemma claim_result: "claim_interface k i p = (r, p1) \<Longrightarrow> p1 = (if r = 0 then p\<lparr>bound := insert i (bound p)\<rparr> else p)"
  by (auto simp: claim_interface_def Let_def os_error_def split: if_splits)

lemma release_result: "release_interface k i p = (r, p1) \<Longrightarrow> p1 = (if r = 0 then p\<lparr>bound := bound p - {i}\<rparr> else p)"
  by (auto simp: release_interface_def Let_def os_error_def split: if_splits)

lemma detach_claim_result:
  "detach_kernel_driver_and_claim k i p = (r, p1) \<Longrightarrow> p1 = (if r = 0 then p\<lparr>bound := insert i (bound p)\<rparr> else p)"
  by (auto simp: detach_kernel_driver_and_claim_def Let_def os_error_def dest: claim_result split: if_splits)

lemma op_claim_result:
  "op_claim_interface k i p = (r, p1) \<Longrightarrow> p1 = (if r = 0 then p\<lparr>bound := insert i (bound p)\<rparr> else p)"
  by (cases "uh_auto_detach (pt_handle p)") (simp_all add: op_claim_interface_def claim_result detach_claim_result)

lemma shift_count_Some: "shift_count n = Some i \<Longrightarrow> \<not> MAXINTERFACES \<le> n \<Longrightarrow> i < 32"
  by (auto simp: shift_count_def split: if_splits)

lemma claim_mirrored:
  assumes "mirrored p" "libusb_claim_interface k n p = Some (r, p')"
  shows "mirrored p'"
proof (cases "MAXINTERFACES \<le> n \<or> \<not> pt_attached p")
  case True
  then show ?thesis using assms by (auto simp: libusb_claim_interface_def split: if_splits)
next
  case False
  with assms(2) obtain i where i: "shift_count n = Some i" by (auto simp: libusb_claim_interface_def bind_eq_Some_conv)
  then have i32: "i < 32" using shift_count_Some False by blast
  obtain q p1 where q: "op_claim_interface k i p = (q, p1)" by fastforce
  show ?thesis
  proof (cases "claimed i p")
    case True
    then show ?thesis using assms False i by (simp add: libusb_claim_interface_def)
  next
    case free: False
    then have p': "p' = (if q = 0 then set_claim i p1 else p1)" using assms(2) False i q by (auto simp: libusb_claim_interface_def)
    show ?thesis
    proof (cases "q = 0")
      case True
      then have "p1 = p\<lparr>bound := insert i (bound p)\<rparr>" using op_claim_result [OF q] by simp
      then show ?thesis using assms(1) i32 p' True by (auto simp: mirrored_def claimed_set_claim)
    next
      case False
      then show ?thesis using op_claim_result [OF q] assms(1) p' by simp
    qed
  qed
qed

lemma release_mirrored:
  assumes "mirrored p" "libusb_release_interface k n p = Some (r, p')"
  shows "mirrored p'"
proof (cases "MAXINTERFACES \<le> n")
  case True
  then show ?thesis using assms by (simp add: libusb_release_interface_def)
next
  case False
  with assms(2) obtain i where i: "shift_count n = Some i" by (auto simp: libusb_release_interface_def bind_eq_Some_conv)
  then have i32: "i < 32" using shift_count_Some False by blast
  obtain q p1 where q: "release_interface k i p = (q, p1)" by fastforce
  show ?thesis
  proof (cases "claimed i p")
    case False
    then show ?thesis using assms \<open>\<not> MAXINTERFACES \<le> n\<close> i by (simp add: libusb_release_interface_def)
  next
    case True
    then have p': "p' = (if q = 0 then clear_claim i p1 else p1)"
      using assms(2) False i q by (auto simp: libusb_release_interface_def op_release_interface_def)
    show ?thesis
    proof (cases "q = 0")
      case True
      then have "p1 = p\<lparr>bound := bound p - {i}\<rparr>" using release_result [OF q] by simp
      then show ?thesis using assms(1) i32 p' True by (auto simp: mirrored_def claimed_clear_claim)
    next
      case False
      then show ?thesis using release_result [OF q] assms(1) p' by simp
    qed
  qed
qed

lemma release_claimed_frame: "pt_handle (release_claimed k is p) = pt_handle p"
proof (induction "is" arbitrary: p)
  case Nil
  then show ?case by simp
next
  case (Cons i "is")
  obtain q p1 where "release_interface k i p = (q, p1)" by fastforce
  with release_result [OF this] Cons show ?case by simp
qed

lemma reclaim_mirrored:
  assumes "reclaim k is res p = (r, p')" "distinct is" "set is \<subseteq> {..<32}" "set is \<inter> bound p = {}" "bound p \<subseteq> {..<32}"
    and "\<forall>i < 32. i \<notin> set is \<longrightarrow> (claimed i p \<longleftrightarrow> i \<in> bound p)"
  shows "mirrored p'"
  using assms
proof (induction "is" arbitrary: res p)
  case Nil
  then show ?case by (simp add: mirrored_def)
next
  case (Cons i "is")
  show ?case
  proof (cases "claimed i p")
    case False
    show ?thesis by (rule Cons.IH [of res p]) (use Cons.prems False in auto)
  next
    case True
    obtain q p1 where q: "detach_kernel_driver_and_claim k i p = (q, p1)" by fastforce
    note p1 = detach_claim_result [OF q]
    show ?thesis
    proof (cases "q = 0")
      case True
      show ?thesis by (rule Cons.IH [of res p1]) (use Cons.prems True q p1 \<open>claimed i p\<close> in auto)
    next
      case False
      show ?thesis by (rule Cons.IH [of ERROR_NOT_FOUND "clear_claim i p1"])
        (use Cons.prems False q p1 \<open>claimed i p\<close> in \<open>auto simp: claimed_clear_claim\<close>)
    qed
  qed
qed

lemma reset_mirrored:
  assumes "mirrored p" "libusb_reset_device k p = (r, p')" "errno k RESET = 0"
  shows "mirrored p'"
proof (cases "pt_attached p")
  case True
  then have "reclaim k [0..<32] 0 ((release_claimed k [0..<32] p)\<lparr>bound := {}\<rparr>) = (r, p')"
    using assms by (simp add: libusb_reset_device_def op_reset_device_def)
  then show ?thesis by (rule reclaim_mirrored) auto
next
  case False
  then show ?thesis using assms by (simp add: libusb_reset_device_def)
qed

text \<open>A refused reset has given interfaces up without noting it: the kernel has bound fewer.\<close>

definition covered :: "port \<Rightarrow> bool" where
  "covered p \<longleftrightarrow> bound p \<subseteq> {i. i < 32 \<and> claimed i p}"

lemma mirrored_covered: "mirrored p \<Longrightarrow> covered p"
  by (auto simp: mirrored_def covered_def)

lemma claim_covered:
  assumes "covered p" "libusb_claim_interface k n p = Some (r, p')"
  shows "covered p' \<and> pt_attached p' = pt_attached p"
proof (cases "MAXINTERFACES \<le> n \<or> \<not> pt_attached p")
  case True
  then show ?thesis using assms by (auto simp: libusb_claim_interface_def split: if_splits)
next
  case False
  with assms(2) obtain i where i: "shift_count n = Some i" by (auto simp: libusb_claim_interface_def bind_eq_Some_conv)
  then have i32: "i < 32" using shift_count_Some False by blast
  obtain q p1 where q: "op_claim_interface k i p = (q, p1)" by fastforce
  then have "p' = (if claimed i p then p else if q = 0 then set_claim i p1 else p1)"
    using assms(2) False i by (auto simp: libusb_claim_interface_def split: if_splits)
  then show ?thesis
    using op_claim_result [OF q] assms(1) i32
    by (auto simp: covered_def claimed_set_claim) (simp_all add: set_claim_def)
qed

lemma release_covered:
  assumes "covered p" "libusb_release_interface k n p = Some (r, p')"
  shows "covered p' \<and> pt_attached p' = pt_attached p"
proof (cases "MAXINTERFACES \<le> n")
  case True
  then show ?thesis using assms by (simp add: libusb_release_interface_def)
next
  case False
  with assms(2) obtain i where i: "shift_count n = Some i" by (auto simp: libusb_release_interface_def bind_eq_Some_conv)
  obtain q p1 where q: "release_interface k i p = (q, p1)" by fastforce
  then have "p' = (if claimed i p then if q = 0 then clear_claim i p1 else p1 else p)"
    using assms(2) False i by (auto simp: libusb_release_interface_def op_release_interface_def split: if_splits)
  then show ?thesis
    using release_result [OF q] assms(1)
    by (auto simp: covered_def claimed_clear_claim) (simp_all add: clear_claim_def)
qed

lemma release_claimed_covered: "covered p \<Longrightarrow> covered (release_claimed k is p) \<and> pt_attached (release_claimed k is p) = pt_attached p"
proof (induction "is" arbitrary: p)
  case (Cons i "is")
  obtain q p1 where q: "release_interface k i p = (q, p1)" by fastforce
  have "covered p1 \<and> pt_attached p1 = pt_attached p" using release_result [OF q] Cons.prems by (auto simp: covered_def)
  then show ?case using Cons.IH [of p] Cons.IH [of p1] Cons.prems q by simp
qed simp

lemma reclaim_attached: "pt_attached (snd (reclaim k is res p)) = pt_attached p"
proof (induction "is" arbitrary: res p)
  case (Cons i "is")
  obtain q p1 where q: "detach_kernel_driver_and_claim k i p = (q, p1)" by fastforce
  then show ?case using detach_claim_result [OF q] by (simp add: Cons.IH clear_claim_def)
qed simp

text \<open>A reset the kernel grants takes the claims again: whatever was believed before, what is
  believed afterwards is true.\<close>

lemma reset_granted:
  assumes "libusb_reset_device k p = (r, p')" "errno k RESET = 0" "pt_attached p"
  shows "mirrored p'"
proof -
  have "reclaim k [0..<32] 0 ((release_claimed k [0..<32] p)\<lparr>bound := {}\<rparr>) = (r, p')"
    using assms by (simp add: libusb_reset_device_def op_reset_device_def)
  then show ?thesis by (rule reclaim_mirrored) auto
qed

lemma reset_covered:
  assumes "covered p" "libusb_reset_device k p = (r, p')"
  shows "covered p' \<and> pt_attached p' = pt_attached p"
proof (cases "pt_attached p \<and> errno k RESET = 0")
  case True
  then have "reclaim k [0..<32] 0 ((release_claimed k [0..<32] p)\<lparr>bound := {}\<rparr>) = (r, p')"
    using assms(2) by (simp add: libusb_reset_device_def op_reset_device_def)
  from reclaim_attached [of k "[0..<32]" 0 "(release_claimed k [0..<32] p)\<lparr>bound := {}\<rparr>", unfolded this]
  show ?thesis
    using mirrored_covered [OF reset_granted [OF assms(2)]] True release_claimed_covered [OF assms(1)] by simp
next
  case False
  then show ?thesis
    using assms release_claimed_covered [OF assms(1), of k "[0..<32]"]
    by (auto simp: libusb_reset_device_def op_reset_device_def Let_def)
qed

section \<open>Sequences of calls\<close>

datatype port_call = Claim int | Release int | Configure int | Reset_Device | Auto_Detach bool

primrec perform :: "kernel \<Rightarrow> port_call \<Rightarrow> port \<Rightarrow> (int \<times> port) option" where
  "perform k (Claim n) p = libusb_claim_interface k n p"
| "perform k (Release n) p = libusb_release_interface k n p"
| "perform k (Configure c) p = Some (libusb_set_configuration k c p)"
| "perform k Reset_Device p = Some (libusb_reset_device k p)"
| "perform k (Auto_Detach enable) p = Some (libusb_set_auto_detach_kernel_driver enable p)"

primrec performs :: "(kernel \<times> port_call) list \<Rightarrow> port \<Rightarrow> port option" where
  "performs [] p = Some p"
| "performs (c # cs) p = do { (r, p1) \<leftarrow> perform (fst c) (snd c) p; performs cs p1 }"

text \<open>No reset has been refused since the last one that was granted.\<close>

primrec in_step :: "bool \<Rightarrow> (kernel \<times> port_call) list \<Rightarrow> bool" where
  "in_step b [] = b"
| "in_step b (c # cs) = in_step (if snd c = Reset_Device then errno (fst c) RESET = 0 else b) cs"

text \<open>On a device that is gone a reset does nothing.\<close>

definition believed :: "bool \<Rightarrow> port \<Rightarrow> bool" where
  "believed b p \<longleftrightarrow> covered p \<and> (b \<or> \<not> pt_attached p \<longrightarrow> mirrored p)"

lemma perform_believed:
  assumes "believed b p" "perform k c p = Some (r, p')"
  shows "believed (if c = Reset_Device then errno k RESET = 0 else b) p'"
proof (cases c)
  case (Configure n)
  then show ?thesis using assms
    by (auto simp: believed_def libusb_set_configuration_def op_set_configuration_def mirrored_def covered_def Let_def split: if_splits)
next
  case (Auto_Detach enable)
  then show ?thesis using assms
    by (auto simp: believed_def libusb_set_auto_detach_kernel_driver_def mirrored_def covered_def claimed_def)
next
  case (Claim n)
  then have "libusb_claim_interface k n p = Some (r, p')" using assms(2) by simp
  then show ?thesis using claim_mirrored claim_covered assms(1) Claim by (auto simp: believed_def)
next
  case (Release n)
  then have "libusb_release_interface k n p = Some (r, p')" using assms(2) by simp
  then show ?thesis using release_mirrored release_covered assms(1) Release by (auto simp: believed_def)
next
  case Reset_Device
  then have r: "libusb_reset_device k p = (r, p')" using assms(2) by simp
  show ?thesis
  proof (cases "pt_attached p")
    case True
    then show ?thesis using reset_covered [OF _ r] reset_granted [OF r] assms(1) Reset_Device by (auto simp: believed_def)
  next
    case False
    then show ?thesis using r assms(1) Reset_Device by (auto simp: believed_def libusb_reset_device_def)
  qed
qed

lemma performs_believed: "believed b p \<Longrightarrow> performs cs p = Some p' \<Longrightarrow> believed (in_step b cs) p'"
proof (induction cs arbitrary: b p)
  case (Cons c cs)
  then obtain r p1 where "perform (fst c) (snd c) p = Some (r, p1)" "performs cs p1 = Some p'"
    by (auto simp: bind_eq_Some_conv)
  with Cons perform_believed [of b p "fst c" "snd c" r p1] show ?case by simp
qed simp

section \<open>Examples\<close>

text \<open>A kernel that grants everything but what \<open>refuse\<close> says.\<close>

definition demo_kernel :: "(usbfs_call \<Rightarrow> int) \<Rightarrow> kernel" where
  "demo_kernel refuse = \<lparr>errno = refuse, driver = (\<lambda>_. ''uvc''), reconnected = (\<lambda>_. True), streams = 0, streams_mem = True\<rparr>"

definition demo_device :: linux_device where
  "demo_device = \<lparr>descriptors = [], active_config = 1, num_configurations = 1, sysfs_open = -1, sysfs_read = (0, [])\<rparr>"

definition demo_port :: port where
  "demo_port = \<lparr>pt_handle = \<lparr>uh_dev = 1, uh_fd = 5, uh_caps = 0, uh_claimed = 0, uh_auto_detach = False\<rparr>,
     pt_attached = True, pt_device = demo_device, bound = {}\<rparr>"

text \<open>After a reset the kernel refused, libusb still believes in claims it has given up itself.\<close>

lemma failed_reset_forgets_release:
  "map_option (\<lambda>p. (claimed 1 p, bound p))
     (performs [(demo_kernel (\<lambda>_. 0), Claim 1), (demo_kernel (\<lambda>c. if c = RESET then EBUSY else 0), Reset_Device)] demo_port)
     = Some (True, {})"
  by code_simp

text \<open>Without sysfs the active configuration is read from the device and dropped: the caller gets
  success and a variable nobody has written.\<close>

lemma configuration_dropped:
  "\<not> sysfs_can_relate_devices md \<Longrightarrow> 0 < v \<Longrightarrow> c \<noteq> -1 \<Longrightarrow> libusb_get_configuration md (0, v) ctl c p = Some (0, c)"
  by (simp add: libusb_get_configuration_def op_get_configuration_def usbfs_get_active_config_def)

section \<open>Properties\<close>

text \<open>C31: Through every sequence of claims, releases, configurations and resets, with any answers of
  the kernel, libusb never forgets a claim: every interface the kernel has bound to the handle is
  one libusb believes to be claimed.  The converse, that it believes nothing else, holds
  as long as no reset is refused, and again from the next reset that is granted (a refused reset has
  given interfaces up without noting it).\<close>

theorem claims_mirror_kernel:
  assumes "mirrored p" and "performs cs p = Some p'"
  shows "bound p' \<subseteq> {i. i < 32 \<and> claimed i p'} \<and> (in_step True cs \<longrightarrow> bound p' = {i. i < 32 \<and> claimed i p'})"
proof -
  have "believed (in_step True cs) p'"
    by (rule performs_believed [OF _ assms(2)]) (simp add: believed_def assms(1) mirrored_covered)
  then show ?thesis by (auto simp: believed_def covered_def mirrored_def)
qed

text \<open>A refused reset, then one that is granted but for interface 3.\<close>

theorem claims_mirror_kernel_witness:
  "\<exists>p'. performs [(demo_kernel (\<lambda>_. 0), Claim 1), (demo_kernel (\<lambda>_. 0), Claim 3),
      (demo_kernel (\<lambda>c. if c = RESET then EBUSY else 0), Reset_Device),
      (demo_kernel (\<lambda>c. if c = DISCONNECT_CLAIM 3 then EBUSY else 0), Reset_Device)] demo_port = Some p'
    \<and> bound p' = {1} \<and> {i. i < 32 \<and> claimed i p'} = {1}"
proof -
  let ?cs = "[(demo_kernel (\<lambda>_. 0), Claim 1), (demo_kernel (\<lambda>_. 0), Claim 3),
      (demo_kernel (\<lambda>c. if c = RESET then EBUSY else 0), Reset_Device),
      (demo_kernel (\<lambda>c. if c = DISCONNECT_CLAIM 3 then EBUSY else 0), Reset_Device)]"
  have "map_option bound (performs ?cs demo_port) = Some {1}" by code_simp
  then obtain p' where p': "performs ?cs demo_port = Some p'" "bound p' = {1}" by (cases "performs ?cs demo_port") auto
  have "mirrored demo_port" by (simp add: mirrored_def demo_port_def claimed_def)
  moreover have "in_step True ?cs" by (simp add: demo_kernel_def)
  ultimately show ?thesis using claims_mirror_kernel [OF _ p'(1)] p' by auto
qed

end
