(* ===== verification/UsbSync.thy ===== *)
theory UsbSync
  imports UsbFlightProofs
begin

text \<open>
  Transfers of the client: the helpers of \<open>libusb.h\<close> that fill a transfer, and the synchronous
  transfers of \<open>sync.c\<close>, which submit one and handle events until it has completed.

  The events that happen meanwhile, to this and to other transfers, are a list; when it ends before
  the transfer has completed the call does not return (\<open>None\<close>).  The callback \<open>sync_transfer_cb\<close>
  makes no calls; its flag \<open>completed\<close> is set when the transfer has one more report.
\<close>

section \<open>Filling a transfer\<close>

abbreviation DIR_IN :: u8 where "DIR_IN \<equiv> 0x80"
abbreviation TRANSFER_FREE_BUFFER :: u8 where "TRANSFER_FREE_BUFFER \<equiv> 2"
abbreviation ERR_TIMEOUT :: int where "ERR_TIMEOUT \<equiv> -7"
abbreviation ERR_OVERFLOW :: int where "ERR_OVERFLOW \<equiv> -8"
abbreviation ERR_PIPE :: int where "ERR_PIPE \<equiv> -9"
abbreviation ERR_INTERRUPTED :: int where "ERR_INTERRUPTED \<equiv> -10"

text \<open>The eight bytes of a setup packet.\<close>

definition libusb_fill_control_setup :: "u8 \<Rightarrow> u8 \<Rightarrow> u16 \<Rightarrow> u16 \<Rightarrow> u16 \<Rightarrow> bytes" where
  "libusb_fill_control_setup bmRequestType bRequest wValue wIndex wLength =
     [bmRequestType, bRequest] @ bytes16 wValue @ bytes16 wIndex @ bytes16 wLength"

definition fill_common :: "nat \<Rightarrow> u8 \<Rightarrow> u8 \<Rightarrow> bytes \<Rightarrow> nat \<Rightarrow> flight \<Rightarrow> flight" where
  "fill_common h ep ty buf timeout f =
     f\<lparr>fl_handle := h, fl_callback := True,
       fl_xfer := (fl_xfer f)\<lparr>tr_endpoint := ep, tr_type := ty, tr_timeout := timeout, tr_buffer := buf\<rparr>\<rparr>"

text \<open>The length of a control transfer is read back from the setup packet in the buffer.\<close>

definition libusb_fill_control_transfer :: "nat \<Rightarrow> bytes \<Rightarrow> nat \<Rightarrow> flight \<Rightarrow> flight option" where
  "libusb_fill_control_transfer h buf timeout f = do {
     b0 \<leftarrow> get_at 6 buf;
     b1 \<leftarrow> get_at 7 buf;
     bs \<leftarrow> get_bytes 0 (8 + unat (le16 b0 b1)) buf;
     Some (fill_common h 0 TYPE_CONTROL bs timeout f) }"

definition libusb_fill_bulk_transfer :: "nat \<Rightarrow> u8 \<Rightarrow> bytes \<Rightarrow> nat \<Rightarrow> flight \<Rightarrow> flight" where
  "libusb_fill_bulk_transfer h ep buf timeout f = fill_common h ep TYPE_BULK buf timeout f"

definition libusb_fill_bulk_stream_transfer :: "nat \<Rightarrow> u8 \<Rightarrow> u32 \<Rightarrow> bytes \<Rightarrow> nat \<Rightarrow> flight \<Rightarrow> flight" where
  "libusb_fill_bulk_stream_transfer h ep stream buf timeout f =
     (let f1 = libusb_fill_bulk_transfer h ep buf timeout f
      in f1\<lparr>fl_xfer := (fl_xfer f1)\<lparr>tr_type := TYPE_BULK_STREAM, tr_stream_id := stream\<rparr>\<rparr>)"

definition libusb_fill_interrupt_transfer :: "nat \<Rightarrow> u8 \<Rightarrow> bytes \<Rightarrow> nat \<Rightarrow> flight \<Rightarrow> flight" where
  "libusb_fill_interrupt_transfer h ep buf timeout f = fill_common h ep TYPE_INTR buf timeout f"

text \<open>\<open>tr_packets\<close> is the array that was allocated; \<open>n\<close> of its descriptors are used.\<close>

definition libusb_fill_iso_transfer :: "nat \<Rightarrow> u8 \<Rightarrow> bytes \<Rightarrow> nat \<Rightarrow> nat \<Rightarrow> flight \<Rightarrow> flight option" where
  "libusb_fill_iso_transfer h ep buf n timeout f = do {
     ds \<leftarrow> get_bytes 0 n (tr_packets (fl_xfer f));
     let f1 = fill_common h ep TYPE_ISO buf timeout f;
     Some (f1\<lparr>fl_xfer := (fl_xfer f1)\<lparr>tr_packets := ds\<rparr>\<rparr>) }"

definition libusb_set_iso_packet_lengths :: "u32 \<Rightarrow> usb_transfer \<Rightarrow> usb_transfer" where
  "libusb_set_iso_packet_lengths len t = t\<lparr>tr_packets := map (\<lambda>d. d\<lparr>pd_length := len\<rparr>) (tr_packets t)\<rparr>"

text \<open>Where a packet starts in the buffer; \<open>None\<close> is NULL.\<close>

definition libusb_get_iso_packet_buffer :: "usb_transfer \<Rightarrow> u32 \<Rightarrow> nat option" where
  "libusb_get_iso_packet_buffer t packet =
     (if 0x7FFFFFFF < packet then None
      else if int (length (tr_packets t)) \<le> uint packet then None
      else Some (sum_list (map (\<lambda>d. unat (pd_length d)) (take (unat packet) (tr_packets t)))))"

text \<open>The product is an \<open>int\<close>.\<close>

definition libusb_get_iso_packet_buffer_simple :: "usb_transfer \<Rightarrow> u32 \<Rightarrow> int option" where
  "libusb_get_iso_packet_buffer_simple t packet =
     (if 0x7FFFFFFF < packet then None
      else if int (length (tr_packets t)) \<le> uint packet then None
      else Some (sint (pd_length (tr_packets t ! 0) * packet)))"

section \<open>Waiting\<close>

text \<open>A call of \<open>libusb_handle_events_completed\<close> handles an event or fails; \<open>dis\<close> answers the
  cancellation that follows a failure.\<close>

datatype wait_step = Handled event | Failed int "nat \<Rightarrow> int"

definition completed :: "nat \<Rightarrow> nat \<Rightarrow> io_context \<Rightarrow> bool" where
  "completed i n s \<longleftrightarrow> n < count_list (map fst (reports s)) i"

primrec sync_transfer_wait_for_completion ::
  "callback \<Rightarrow> nat \<Rightarrow> nat \<Rightarrow> wait_step list \<Rightarrow> io_context \<Rightarrow> io_context option" where
  "sync_transfer_wait_for_completion cb i n [] s = (if completed i n s then Some s else None)"
| "sync_transfer_wait_for_completion cb i n (e # es) s =
     (if completed i n s then Some s
      else case e of
        Handled ev \<Rightarrow> do { s1 \<leftarrow> occur cb ev s; sync_transfer_wait_for_completion cb i n es s1 }
      | Failed r dis \<Rightarrow>
          if r = ERR_INTERRUPTED then sync_transfer_wait_for_completion cb i n es s
          else do { (q, s1) \<leftarrow> libusb_cancel_transfer dis i s; sync_transfer_wait_for_completion cb i n es s1 })"

text \<open>The callback of the transfer that is waited for.\<close>

definition sync_transfer_cb :: "nat \<Rightarrow> callback \<Rightarrow> callback" where
  "sync_transfer_cb i cb = (\<lambda>j s. if j = i then [] else cb j s)"

definition status_error :: "xfer_status \<Rightarrow> int" where
  "status_error st = (case st of
     ST_COMPLETED \<Rightarrow> 0 | ST_TIMED_OUT \<Rightarrow> ERR_TIMEOUT | ST_STALL \<Rightarrow> ERR_PIPE | ST_NO_DEVICE \<Rightarrow> ERR_NO_DEVICE
   | ST_OVERFLOW \<Rightarrow> ERR_OVERFLOW | ST_ERROR \<Rightarrow> ERROR_IO | ST_CANCELLED \<Rightarrow> ERROR_IO)"

section \<open>Synchronous transfers\<close>

text \<open>\<open>mem\<close>: whether the two allocations succeed; \<open>i\<close>: the address of the transfer; \<open>junk\<close>: what the
  fresh buffer holds; \<open>es\<close>: what happens while the call waits.\<close>

definition libusb_control_transfer ::
  "(nat \<Rightarrow> bool) \<Rightarrow> submit_answers \<Rightarrow> callback \<Rightarrow> wait_step list \<Rightarrow> bytes \<Rightarrow> nat
    \<Rightarrow> nat \<Rightarrow> u8 \<Rightarrow> u8 \<Rightarrow> u16 \<Rightarrow> u16 \<Rightarrow> bytes \<Rightarrow> u16 \<Rightarrow> nat \<Rightarrow> io_context \<Rightarrow> (int \<times> bytes \<times> io_context) option" where
  "libusb_control_transfer mem a cb es junk i h bmRequestType bRequest wValue wIndex data wLength timeout s = do {
     (p, s) \<leftarrow> libusb_alloc_transfer (mem 0) i 0 s;
     if p = 0 then Some (ERROR_NO_MEM, data, s)
     else if \<not> mem 1 then do { s \<leftarrow> libusb_free_transfer i s; Some (ERROR_NO_MEM, data, s) }
     else do {
       payload \<leftarrow> (if bmRequestType AND DIR_IN = 0 then get_bytes 0 (unat wLength) data
                   else Some (take (unat wLength) (junk @ replicate (unat wLength) 0)));
       f \<leftarrow> transfers s i;
       f \<leftarrow> libusb_fill_control_transfer h
             (libusb_fill_control_setup bmRequestType bRequest wValue wIndex wLength @ payload) timeout f;
       (r, s1) \<leftarrow> libusb_submit_transfer a i
             (set_flight i (f\<lparr>fl_xfer := (fl_xfer f)\<lparr>tr_flags := TRANSFER_FREE_BUFFER\<rparr>\<rparr>) s);
       if r < 0 then do { s2 \<leftarrow> libusb_free_transfer i s1; Some (r, data, s2) }
       else do {
         s2 \<leftarrow> sync_transfer_wait_for_completion (sync_transfer_cb i cb) i (count_list (map fst (reports s)) i) es s1;
         f \<leftarrow> transfers s2 i;
         let t = fl_xfer f;
         out \<leftarrow> (if bmRequestType AND DIR_IN \<noteq> 0 then do {
                  bs \<leftarrow> get_bytes 8 (tr_actual_length t) (tr_buffer t); put_bytes 0 bs data }
                else Some data);
         s3 \<leftarrow> libusb_free_transfer i s2;
         Some (if tr_status t = ST_COMPLETED then int (tr_actual_length t) else status_error (tr_status t), out, s3) } } }"

text \<open>The result code, the number of bytes transferred when the transfer was submitted, and the
  buffer, which the transfer uses in place.\<close>

definition do_sync_bulk_transfer ::
  "bool \<Rightarrow> submit_answers \<Rightarrow> callback \<Rightarrow> wait_step list \<Rightarrow> nat \<Rightarrow> nat \<Rightarrow> u8 \<Rightarrow> bytes \<Rightarrow> nat \<Rightarrow> u8 \<Rightarrow> io_context
    \<Rightarrow> (int \<times> nat option \<times> bytes \<times> io_context) option" where
  "do_sync_bulk_transfer mem a cb es i h ep buf timeout ty s = do {
     (p, s) \<leftarrow> libusb_alloc_transfer mem i 0 s;
     if p = 0 then Some (ERROR_NO_MEM, None, buf, s)
     else do {
       f \<leftarrow> transfers s i;
       let f = libusb_fill_bulk_transfer h ep buf timeout f;
       (r, s1) \<leftarrow> libusb_submit_transfer a i (set_flight i (f\<lparr>fl_xfer := (fl_xfer f)\<lparr>tr_type := ty\<rparr>\<rparr>) s);
       if r < 0 then do { s2 \<leftarrow> libusb_free_transfer i s1; Some (r, None, buf, s2) }
       else do {
         s2 \<leftarrow> sync_transfer_wait_for_completion (sync_transfer_cb i cb) i (count_list (map fst (reports s)) i) es s1;
         f \<leftarrow> transfers s2 i;
         let t = fl_xfer f;
         s3 \<leftarrow> libusb_free_transfer i s2;
         Some (status_error (tr_status t), Some (tr_actual_length t), tr_buffer t, s3) } } }"

definition libusb_bulk_transfer where
  "libusb_bulk_transfer mem a cb es i h ep buf timeout s = do_sync_bulk_transfer mem a cb es i h ep buf timeout TYPE_BULK s"

definition libusb_interrupt_transfer where
  "libusb_interrupt_transfer mem a cb es i h ep buf timeout s =
     do_sync_bulk_transfer mem a cb es i h ep buf timeout TYPE_INTR s"

end
