(* ===== verification/UsbSyncProofs.thy ===== *)
theory UsbSyncProofs
  imports UsbSync
begin

text \<open>
  A synchronous control transfer from the call to the return, through the setup packet, the request
  block, the completion and the callback: what it returns for every answer of the device, and that
  it leaves the context as it found it.
\<close>

section \<open>Setup packets\<close>

lemma setup_length [simp]: "length (libusb_fill_control_setup a b c d e) = 8"
  by (simp add: libusb_fill_control_setup_def)

lemma fill_control_transfer_setup:
  assumes "length payload = unat len"
  shows "libusb_fill_control_transfer h (libusb_fill_control_setup a b c d len @ payload) timeout f
    = Some (fill_common h 0 TYPE_CONTROL (libusb_fill_control_setup a b c d len @ payload) timeout f)"
  using assms by (simp add: libusb_fill_control_transfer_def libusb_fill_control_setup_def bytes16_def get_at_def
    get_bytes_def wire_simps nth_append)

section \<open>One transfer\<close>

text \<open>A submission the kernel accepts.\<close>

lemma submit_accepted:
  assumes f: "transfers s i = Some f" and u: "dev_handles s (fl_handle f) = Some u"
    and c: "calculate_timeout (an_clock a) (f\<lparr>fl_xfer := (fl_xfer f)\<lparr>transferred := 0\<rparr>, fl_flags := 0\<rparr>) = Some f2"
    and i: "i \<notin> set (flying_transfers s)" and alive: "\<forall>j \<in> set (flying_transfers s). transfers s j \<noteq> None"
    and t: "op_submit_transfer (uh_caps u) (an_mem a) (an_sub a) (an_dis a) (fl_xfer f2) = Some (0, t)"
    and v: "usb_devs s (uh_dev u) = Some v"
  shows "libusb_submit_transfer a i s = Some (0, s\<lparr>
      transfers := (transfers s)(i \<mapsto> f2\<lparr>fl_xfer := t\<rparr>),
      flying_transfers := insert_flying (deadline (set_flight i f2 s)) i (flying_transfers s),
      usb_devs := (usb_devs s)(uh_dev u \<mapsto> v\<lparr>dv_refcnt := dv_refcnt v + 1\<rparr>),
      submits := submits s @ [i]\<rparr>)"
proof -
  have "\<not> (\<exists>j \<in> set (flying_transfers s). transfers (set_flight i f2 s) j = None)"
    using alive by (auto simp: set_flight_def)
  then show ?thesis using f u c i t v
    by (cases s) (simp add: libusb_submit_transfer_def add_to_flying_list_def libusb_ref_device_def set_flight_def Let_def)
qed

text \<open>A completion with a callback that makes no calls.\<close>

lemma completion_quiet:
  assumes f: "transfers s i = Some f" and u: "dev_handles s (fl_handle f) = Some u" and i: "i \<in> set (flying_transfers s)"
    and cb: "\<And>x. cb i x = []" and fl: "tr_flags (fl_xfer f) AND TRANSFER_FREE_TRANSFER = 0"
    and v: "usb_devs s (uh_dev u) = Some v" "dv_refcnt v \<noteq> 1" "uh_dev u \<noteq> 0"
  shows "usbi_handle_transfer_completion cb i st s = Some (s\<lparr>
      transfers := (transfers s)(i \<mapsto> f\<lparr>fl_xfer := (fl_xfer f)\<lparr>tr_status := final_status (fl_xfer f) st,
        tr_actual_length := transferred (fl_xfer f)\<rparr>\<rparr>),
      flying_transfers := remove1 i (flying_transfers s),
      usb_devs := (usb_devs s)(uh_dev u \<mapsto> v\<lparr>dv_refcnt := dv_refcnt v - 1\<rparr>),
      reports := reports s @ [(i, final_status (fl_xfer f) st)]\<rparr>)"
proof -
  let ?s = "set_flight i (f\<lparr>fl_xfer := (fl_xfer f)\<lparr>tr_status := final_status (fl_xfer f) st, tr_actual_length := transferred (fl_xfer f)\<rparr>\<rparr>)
    (s\<lparr>flying_transfers := remove1 i (flying_transfers s), reports := reports s @ [(i, final_status (fl_xfer f) st)]\<rparr>)"
  have "usb_devs ?s (uh_dev u) = Some v" using v(1) by simp
  note un = unref_result [OF this v(2,3)]
  have "usbi_handle_transfer_completion cb i st s = libusb_unref_device (uh_dev u) ?s"
    using f u i cb fl by (simp add: usbi_handle_transfer_completion_def remove_flying_def Let_def)
  then show ?thesis unfolding un by (cases s) (simp add: set_flight_def)
qed

lemma calculate_timeout_Some: "\<exists>dl. calculate_timeout (Some now) f = Some (f\<lparr>fl_deadline := dl\<rparr>)"
proof (cases "tr_timeout (fl_xfer f) = 0")
  case True
  then have "calculate_timeout (Some now) f = Some (f\<lparr>fl_deadline := fl_deadline f\<rparr>)" by (simp add: calculate_timeout_def)
  then show ?thesis by blast
next
  case False
  then have "calculate_timeout (Some now) f = Some (f\<lparr>fl_deadline := timeval_of (carry
      (fst now + tr_timeout (fl_xfer f) div 1000, snd now + tr_timeout (fl_xfer f) mod 1000 * 1000000))\<rparr>)"
    by (cases now) (simp add: calculate_timeout_def Let_def)
  then show ?thesis by blast
qed

text \<open>What the status of a control request means to the caller.\<close>

definition control_status :: "int \<Rightarrow> xfer_status" where
  "control_status st =
     (if st = 0 then ST_COMPLETED
      else if st = - ENOENT then ST_CANCELLED
      else if st = - ENODEV \<or> st = - ESHUTDOWN then ST_NO_DEVICE
      else if st = - EPIPE then ST_STALL
      else if st = - EOVERFLOW then ST_OVERFLOW
      else ST_ERROR)"

lemma reap_control:
  assumes "tr_type t = TYPE_CONTROL" "urbs t = Some [u]" "flying t = {0}" "reap_act t = NORMAL"
    and "8 + length (c_data c) \<le> length (tr_buffer t)"
  shows "\<exists>t'. reap_urb dis 0 c t = Some (Completed (control_status (c_status c)), t')
    \<and> transferred t' = transferred t + c_actual c \<and> tr_flags t' = tr_flags t \<and> tr_type t' = TYPE_CONTROL
    \<and> tr_buffer t' = take 8 (tr_buffer t) @ c_data c @ drop (8 + length (c_data c)) (tr_buffer t)"
  using assms by (auto simp: reap_urb_def get_at_def put_bytes_def handle_control_completion_def free_urbs_def
      control_status_def Let_def)

text \<open>The whole call.  \<open>from_device\<close> says that the request is an IN request.\<close>

definition control_result :: "int \<Rightarrow> nat \<Rightarrow> int" where
  "control_result st n = (if st = 0 then int n else status_error (control_status st))"

lemma control_transfer_exact:
  assumes ok: "flights_ok ext s" and u: "dev_handles s h = Some u" and i: "i \<noteq> 0" "transfers s i = None"
    and a: "mem 0" "mem 1" "an_clock a = Some now" "an_mem a 0" "an_sub a 0 = 0" and len: "unat len \<le> 4096"
    and data: "unat len \<le> length data" and c: "length (c_data c) \<le> unat len"
    and dir: "if rt AND DIR_IN = 0 then c_data c = [] else c_actual c = length (c_data c)"
  shows "\<exists>s'. libusb_control_transfer mem a cb [Handled (Reaped dis i 0 c)] junk i h rt rq v ix data len timeout s
      = Some (control_result (c_status c) (c_actual c), c_data c @ drop (length (c_data c)) data, s')
    \<and> flying_transfers s' = flying_transfers s \<and> transfers s' = transfers s \<and> usb_devs s' = usb_devs s"
proof -
  define payload where "payload = (if rt AND DIR_IN = 0 then take (unat len) data
    else take (unat len) (junk @ replicate (unat len) 0))"
  define buf where "buf = libusb_fill_control_setup rt rq v ix len @ payload"
  have pl: "length payload = unat len" using data by (auto simp: payload_def min_def)
  then have bl: "length buf = 8 + unat len" by (simp add: buf_def)
  define f0 where "f0 = fill_common h 0 TYPE_CONTROL buf timeout
    \<lparr>fl_xfer = zero_transfer 0, fl_deadline = (0, 0), fl_flags = 0, fl_handle = 0, fl_callback = False\<rparr>"
  define f1 where "f1 = f0\<lparr>fl_xfer := (fl_xfer f0)\<lparr>tr_flags := TRANSFER_FREE_BUFFER\<rparr>\<rparr>"
  obtain dl where c1: "calculate_timeout (Some now) (f1\<lparr>fl_xfer := (fl_xfer f1)\<lparr>transferred := 0\<rparr>, fl_flags := 0\<rparr>)
      = Some (f1\<lparr>fl_xfer := (fl_xfer f1)\<lparr>transferred := 0\<rparr>, fl_flags := 0, fl_deadline := dl\<rparr>)"
    using calculate_timeout_Some by blast
  define f2 where "f2 = f1\<lparr>fl_xfer := (fl_xfer f1)\<lparr>transferred := 0\<rparr>, fl_flags := 0, fl_deadline := dl\<rparr>"
  have x2: "tr_type (fl_xfer f2) = TYPE_CONTROL" "tr_buffer (fl_xfer f2) = buf" "urbs (fl_xfer f2) = None"
      "flying (fl_xfer f2) = {}" "tr_flags (fl_xfer f2) = TRANSFER_FREE_BUFFER" "transferred (fl_xfer f2) = 0"
      "reap_act (fl_xfer f2) = NORMAL" "fl_handle f2 = h" "fl_callback f2"
    by (simp_all add: f2_def f1_def f0_def fill_common_def zero_transfer_def)
  have "int (unat len) \<le> int 4096" using len by (simp only: of_nat_le_iff)
  then have "uint len \<le> 4096" by simp
  then obtain t ub where t: "op_submit_transfer (uh_caps u) (an_mem a) (an_sub a) (an_dis a) (fl_xfer f2) = Some (0, t)"
    and xt: "tr_type t = TYPE_CONTROL" "tr_buffer t = buf" "urbs t = Some [ub]" "flying t = {0}"
      "tr_flags t = TRANSFER_FREE_BUFFER" "transferred t = 0" "reap_act t = NORMAL"
    using x2 a len bl by (auto simp: op_submit_transfer_def submit_control_transfer_def tr_length_def Let_def)
  have h: "h \<noteq> 0" and d: "uh_dev u \<noteq> 0" and fresh: "i \<notin> set (flying_transfers s)"
    and alive: "\<forall>j \<in> set (flying_transfers s). transfers s j \<noteq> None"
    using ok u i flying_alive [OF ok] by (cases h; force simp: flights_ok_def handles_ok_def)+
  obtain w where w: "usb_devs s (uh_dev u) = Some w" and n: "dv_refcnt w \<noteq> 0"
  proof -
    have "usb_devs s (uh_dev u) \<noteq> None" using ok u unfolding flights_ok_def handles_ok_def by blast
    then obtain w where "usb_devs s (uh_dev u) = Some w" by auto
    moreover from this have "dv_refcnt w \<noteq> 0" using ok by (fastforce simp: flights_ok_def refs_ok_def)
    ultimately show thesis by (rule that)
  qed
  define xs where "xs = insert_flying (deadline (set_flight i f2 (set_flight i f1 s))) i (flying_transfers s)"
  define s1 where "s1 = s\<lparr>transfers := (transfers s)(i \<mapsto> f2\<lparr>fl_xfer := t\<rparr>), flying_transfers := xs,
      usb_devs := (usb_devs s)(uh_dev u \<mapsto> w\<lparr>dv_refcnt := dv_refcnt w + 1\<rparr>), submits := submits s @ [i]\<rparr>"
  have sub: "libusb_submit_transfer a i (set_flight i f1 s) = Some (0, s1)"
  proof -
    have "fl_handle f1 = h" by (simp add: f1_def f0_def fill_common_def)
    then have "libusb_submit_transfer a i (set_flight i f1 s) = Some (0, (set_flight i f1 s)\<lparr>
        transfers := (transfers (set_flight i f1 s))(i \<mapsto> f2\<lparr>fl_xfer := t\<rparr>), flying_transfers := xs,
        usb_devs := (usb_devs s)(uh_dev u \<mapsto> w\<lparr>dv_refcnt := dv_refcnt w + 1\<rparr>), submits := submits s @ [i]\<rparr>)"
      using submit_accepted [of "set_flight i f1 s" i f1 u a f2 t w] u a(3) c1 fresh alive t w
      by (auto simp: f2_def xs_def set_flight_def)
    then show ?thesis by (simp add: s1_def set_flight_def)
  qed
  obtain t' where r: "reap_urb dis 0 c t = Some (Completed (control_status (c_status c)), t')"
    and xt': "transferred t' = c_actual c" "tr_flags t' = TRANSFER_FREE_BUFFER" "tr_type t' = TYPE_CONTROL"
      "tr_buffer t' = take 8 buf @ c_data c @ drop (8 + length (c_data c)) buf"
    using reap_control [OF xt(1,3,4,7), of c dis] xt c bl by auto
  define st where "st = control_status (c_status c)"
  have fin: "final_status t' st = st" by (simp add: final_status_def xt')
  define s2 where "s2 = s1\<lparr>transfers := (transfers s1)(i \<mapsto> f2\<lparr>fl_xfer := t'\<lparr>tr_status := st, tr_actual_length := c_actual c\<rparr>\<rparr>),
      flying_transfers := flying_transfers s, usb_devs := usb_devs s, reports := reports s @ [(i, st)]\<rparr>"
  have "usbi_handle_transfer_completion (sync_transfer_cb i cb) i st (set_flight i (f2\<lparr>fl_xfer := t'\<rparr>) s1) = Some s2"
  proof -
    let ?s = "set_flight i (f2\<lparr>fl_xfer := t'\<rparr>) s1" and ?w = "w\<lparr>dv_refcnt := dv_refcnt w + 1\<rparr>"
    have "remove1 i xs = flying_transfers s" by (simp add: xs_def remove_inserted [OF fresh])
    moreover have "(usb_devs s1)(uh_dev u \<mapsto> ?w\<lparr>dv_refcnt := dv_refcnt ?w - 1\<rparr>) = usb_devs s"
      using w by (auto simp: s1_def)
    ultimately show ?thesis
      using completion_quiet [of ?s i "f2\<lparr>fl_xfer := t'\<rparr>" u "sync_transfer_cb i cb" ?w st] u x2 xt' w n d fin
      by (simp add: s1_def s2_def set_flight_def sync_transfer_cb_def xs_def)
  qed
  then have occ: "occur (sync_transfer_cb i cb) (Reaped dis i 0 c) s1 = Some s2"
    using u x2 r by (simp add: reap_flight_def s1_def st_def)
  let ?n = "count_list (map fst (reports s)) i"
  have wait: "sync_transfer_wait_for_completion (sync_transfer_cb i cb) i ?n [Handled (Reaped dis i 0 c)] s1 = Some s2"
    using occ by (simp add: completed_def) (simp add: s1_def s2_def)
  define g where "g = f2\<lparr>fl_xfer := t'\<lparr>tr_status := st, tr_actual_length := c_actual c\<rparr>\<rparr>"
  have g: "transfers s2 i = Some g" by (simp add: s2_def g_def)
  define s3 where "s3 = s2\<lparr>transfers := (transfers s2)(i := None)\<rparr>"
  have free: "libusb_free_transfer i s2 = Some s3"
    using i g fresh by (simp add: libusb_free_transfer_def s3_def) (simp add: s2_def)
  have out: "(if rt AND DIR_IN \<noteq> 0 then do { bs \<leftarrow> get_bytes 8 (tr_actual_length (fl_xfer g)) (tr_buffer (fl_xfer g)); put_bytes 0 bs data }
      else Some data) = Some (c_data c @ drop (length (c_data c)) data)"
  proof (cases "rt AND DIR_IN = 0")
    case True
    then show ?thesis using dir by simp
  next
    case False
    then have "c_actual c = length (c_data c)" using dir by simp
    then show ?thesis using False c data bl by (simp add: g_def xt' get_bytes_def put_bytes_def)
  qed
  have "libusb_control_transfer mem a cb [Handled (Reaped dis i 0 c)] junk i h rt rq v ix data len timeout s
      = Some (control_result (c_status c) (c_actual c), c_data c @ drop (length (c_data c)) data, s3)"
  proof -
    have al: "libusb_alloc_transfer (mem 0) i 0 s = Some (i, set_flight i \<lparr>fl_xfer = zero_transfer 0, fl_deadline = (0, 0),
        fl_flags = 0, fl_handle = 0, fl_callback = False\<rparr> s)"
      using a i by (simp add: libusb_alloc_transfer_def)
    have "set_flight i f1 (set_flight i \<lparr>fl_xfer = zero_transfer 0, fl_deadline = (0, 0),
        fl_flags = 0, fl_handle = 0, fl_callback = False\<rparr> s) = set_flight i f1 s"
      by (simp add: set_flight_def)
    moreover have "libusb_fill_control_transfer h (libusb_fill_control_setup rt rq v ix len @ payload) timeout
        \<lparr>fl_xfer = zero_transfer 0, fl_deadline = (0, 0), fl_flags = 0, fl_handle = 0, fl_callback = False\<rparr> = Some f0"
      using fill_control_transfer_setup [OF pl] by (simp add: f0_def buf_def)
    moreover have "(if rt AND DIR_IN = 0 then get_bytes 0 (unat len) data
        else Some (take (unat len) (junk @ replicate (unat len) 0))) = Some payload"
      using data by (simp add: payload_def get_bytes_def)
    moreover have "tr_status (fl_xfer g) = st" "tr_actual_length (fl_xfer g) = c_actual c" by (simp_all add: g_def)
    moreover have "control_result (c_status c) (c_actual c) = (if st = ST_COMPLETED then int (c_actual c) else status_error st)"
      by (auto simp: st_def control_result_def control_status_def)
    ultimately show ?thesis
      unfolding libusb_control_transfer_def al
      using a i sub wait g out free by (simp add: f1_def Let_def)
  qed
  moreover have "transfers s3 = transfers s" using i by (auto simp: s3_def s2_def s1_def)
  moreover have "flying_transfers s3 = flying_transfers s" "usb_devs s3 = usb_devs s" by (simp_all add: s3_def s2_def)
  ultimately show ?thesis by blast
qed

section \<open>Packet buffers\<close>

lemma iso_packet_offsets_bounded:
  assumes "libusb_get_iso_packet_buffer t p = Some off" "bytes_of (map pd_length (tr_packets t)) \<le> tr_length t"
  shows "off + unat (pd_length (tr_packets t ! unat p)) \<le> tr_length t"
proof -
  let ?f = "\<lambda>d. unat (pd_length d)" and ?xs = "tr_packets t"
  from assms(1) have p: "uint p < int (length ?xs)" and off: "off = sum_list (map ?f (take (unat p) ?xs))"
    by (auto simp: libusb_get_iso_packet_buffer_def split: if_splits)
  from p have "int (unat p) < int (length ?xs)" by simp
  then have p: "unat p < length ?xs" by (simp only: of_nat_less_iff)
  have "off + ?f (?xs ! unat p) = sum_list (map ?f (take (Suc (unat p)) ?xs))"
    using p by (simp add: off take_Suc_conv_app_nth)
  also have "\<dots> \<le> sum_list (map ?f (take (Suc (unat p)) ?xs)) + sum_list (map ?f (drop (Suc (unat p)) ?xs))" by simp
  also have "\<dots> = sum_list (map ?f (take (Suc (unat p)) ?xs @ drop (Suc (unat p)) ?xs))"
    by (simp only: map_append sum_list_append)
  also have "\<dots> = bytes_of (map pd_length ?xs)" by (simp add: bytes_of_def o_def)
  finally show ?thesis using assms(2) by simp
qed

section \<open>Properties\<close>

text \<open>C18: A synchronous control transfer on an open handle returns what the device answered: the number
  of bytes when it completes, the error of its status otherwise.  The bytes an IN request receives are
  at the start of the caller's buffer and nothing else in it changes, and afterwards the context has
  the same transfers, the same list of transfers in flight and the same device references as before.\<close>

theorem control_transfer_delivers:
  assumes "flights_ok ext s" and "dev_handles s h = Some u" and "i \<noteq> 0" and "transfers s i = None"
    and "mem 0" and "mem 1" and "an_clock a = Some now" and "an_mem a 0" and "an_sub a 0 = 0"
    and "unat len \<le> 4096" and "unat len \<le> length data" and "length (c_data c) \<le> unat len"
    and "if rt AND DIR_IN = 0 then c_data c = [] else c_actual c = length (c_data c)"
  shows "\<exists>s'. libusb_control_transfer mem a cb [Handled (Reaped dis i 0 c)] junk i h rt rq v ix data len timeout s
      = Some (control_result (c_status c) (c_actual c), c_data c @ drop (length (c_data c)) data, s')
    \<and> flying_transfers s' = flying_transfers s \<and> transfers s' = transfers s \<and> usb_devs s' = usb_devs s"
  using assms by (rule control_transfer_exact)

theorem control_transfer_delivers_witness:
  "\<exists>s'. libusb_control_transfer (\<lambda>_. True) demo_answers echo [Handled (Reaped (\<lambda>_. 0) 9 0 demo_reply)] [] 9 7
       0x80 6 0x0100 0 [1, 2, 3] 2 1000 demo_context = Some (2, [8, 9, 3], s') \<and> flying_transfers s' = [3, 4]"
proof -
  have "\<exists>s'. libusb_control_transfer (\<lambda>_. True) demo_answers echo [Handled (Reaped (\<lambda>_. 0) 9 0 demo_reply)] [] 9 7
       0x80 6 0x0100 0 [1, 2, 3] 2 1000 demo_context
     = Some (control_result (c_status demo_reply) (c_actual demo_reply), c_data demo_reply @ drop (length (c_data demo_reply)) [1, 2, 3], s')
     \<and> flying_transfers s' = flying_transfers demo_context \<and> transfers s' = transfers demo_context
     \<and> usb_devs s' = usb_devs demo_context"
    by (rule control_transfer_delivers [OF demo_ok])
      (simp_all add: demo_context_def demo_answers_def demo_reply_def)
  then obtain s' where s': "libusb_control_transfer (\<lambda>_. True) demo_answers echo [Handled (Reaped (\<lambda>_. 0) 9 0 demo_reply)] [] 9 7
       0x80 6 0x0100 0 [1, 2, 3] 2 1000 demo_context
     = Some (control_result (c_status demo_reply) (c_actual demo_reply), c_data demo_reply @ drop (length (c_data demo_reply)) [1, 2, 3], s')"
     "flying_transfers s' = flying_transfers demo_context"
    by blast
  moreover have "control_result (c_status demo_reply) (c_actual demo_reply) = 2"
      "c_data demo_reply @ drop (length (c_data demo_reply)) [1, 2, 3] = [8, 9, 3]" "flying_transfers demo_context = [3, 4]"
    by (simp_all add: demo_reply_def control_result_def demo_context_def)
  ultimately show ?thesis by auto
qed

end
