(* ===== verification/Spec2Isabelle.thy ===== *)
theory Spec2Isabelle
  imports WrapperProofs Detector FrameHandoff UsbDescStrings UsbfsDescProofs UsbUrbIso UsbFlightProofs UsbClaimsProofs UsbSyncProofs
begin

text \<open>
  \<^bold>\<open>The program.\<close>  The application turns a surface watched by a Kinect camera into a touch screen.  Its
  native part (\<open>src/app/src/main/cpp\<close>) is built by \<open>CMakeLists.txt\<close> from three layers:
  libusb for Linux (\<open>libusb/\<close>), libfreenect (\<open>libfreenect/\<close>) and the detector
  (\<open>stouchDetector.cpp\<close>, \<open>stouchFreenect.h\<close>).  A request of libfreenect becomes a transfer of libusb,
  the transfer becomes request blocks of the kernel, their completions come back through callbacks
  to the packet streams of libfreenect, a complete frame goes through the C++ wrapper to the
  detector, and a thread of the detector turns frames into touches.

  \<^bold>\<open>How the code is modelled.\<close>  A C struct is a record, an enum a datatype, an integer whose width
  matters a word, an error code of the source an integer or a sum.  An access outside a block, a
  use of a freed or closed object, or any other undefined behaviour is \<open>None\<close>, so a theorem whose
  conclusion is \<open>Some\<close> states that no fault occurs.  What the code takes from outside (the kernel, the
  device, the allocator, files, OpenCV, the rounding of the processor) is an argument of the definitions.
  Loops are structural recursions; those that may not end are \<open>partial_function (option)\<close>, for which
  \<open>None\<close> also means that the call does not return.  No definition uses fuel.

  \<^bold>\<open>libusb.\<close>
  \<^item> \<open>UsbDesc\<close> models the descriptor parser of \<open>descriptor.c\<close>: \<open>raw_desc_to_config\<close> with
    \<open>parse_configuration\<close>, \<open>parse_interface\<close> and \<open>parse_endpoint\<close> on the bytes that are left, the
    \<open>clear_\<close> functions on numbered blocks, companions, the binary object store and strings.
    \<open>UsbDescProofs\<close> and \<open>UsbDescStrings\<close> show that no input is read outside its bounds and that
    everything allocated is released, but for the leak they name; \<open>UsbDescRoundtrip\<close> defines the wire
    format of a configuration and shows that parsing inverts it.
  \<^item> \<open>UsbfsDesc\<close> models how \<open>linux_usbfs.c\<close> caches the descriptor file and finds configurations in it,
    and the queries of \<open>descriptor.c\<close> and \<open>core.c\<close>.  \<open>UsbfsDescProofs\<close> shows the path from the file
    to the active configuration and the packet size, and the inputs on which the code fails.
  \<^item> \<open>UsbUrb\<close> models submission, cancellation and completion of control, bulk, interrupt and isochronous
    transfers in \<open>linux_usbfs.c\<close>.  A transfer is one record; the ghost fields \<open>flying\<close> and
    \<open>discarding\<close> are the blocks the kernel holds and was told to discard.  The locale
    \<open>block_protocol\<close> of \<open>UsbUrbProofs\<close> states once what an invariant must satisfy for a session, in
    which the kernel hands the blocks back in any order, to end in one report; it is interpreted for
    bulk transfers.  \<open>reap_protocol\<close>, which is an instance of it (a \<open>sublocale\<close>), does so for blocks handed
    back in the order of their submission: data of bulk, control and isochronous transfers (\<open>UsbUrbIso\<close>).
  \<^item> \<open>UsbList\<close> models the doubly linked lists of \<open>libusbi.h\<close> on a heap of nodes and shows that they
    implement lists; the locale \<open>linked_list\<close> is what their users rely on.
  \<^item> \<open>UsbFlight\<close> models \<open>io.c\<close>: the sorted list of transfers in flight, submission, cancellation,
    completion with the callback, timeouts and disconnection, and the reference counts of devices and
    the opening and closing of handles in \<open>core.c\<close>.  \<open>UsbFlightProofs\<close> shows the invariant that every
    run keeps and with it the exactness of timeouts and disconnection.
  \<^item> \<open>UsbClaims\<close> models the control of an open device in \<open>core.c\<close> and \<open>linux_usbfs.c\<close>: configurations,
    interfaces, alternate settings, halt, reset, streams, kernel drivers.  The ghost field \<open>bound\<close> is
    the set of interfaces the kernel has bound; \<open>UsbClaimsProofs\<close> shows when the bit mask of claimed
    interfaces refines it.
  \<^item> \<open>UsbSync\<close> models the synchronous transfers of \<open>sync.c\<close> and the helpers of \<open>libusb.h\<close> that fill a
    transfer, over \<open>UsbFlight\<close>: what happens while a call waits is a list of steps.  \<open>UsbSyncProofs\<close>
    shows that a call returns what the device answered and leaves transfers and references as before.

  \<^bold>\<open>libfreenect.\<close>
  \<^item> \<open>UsbCmd\<close> models the command channel of \<open>flags.c\<close> (\<open>send_cmd\<close>, registers, CMOS), \<open>UsbBulk\<close> the
    bulk transfers, \<open>Loader\<close> the firmware upload of \<open>loader.c\<close>, \<open>Tilt\<close> the motor of \<open>tilt.c\<close>: each
    with what is exchanged on the wire.
  \<^item> \<open>UsbDevices\<close> models opening and closing the USB functions in \<open>usb_libusb10.c\<close> as a state monad over
    the open handles; \<open>UsbDevicesProofs\<close> has a small Hoare logic for it.
  \<^item> \<open>IsoStream\<close> models the isochronous streams of \<open>usb_libusb10.c\<close> with the set of transfers in flight
    and the counters of dead ones.
  \<^item> \<open>PacketStream\<close> models the reassembly of packets to frames in \<open>cameras.c\<close>, \<open>PixelUnpack\<close> and
    \<open>ColorConvert\<close> the conversion of raw frames, \<open>FrameModes\<close> the mode tables, \<open>Registration\<close> the
    projection of depth onto the colour camera, all against specifications: a bit stream, a pixel
    formula, a depth buffer.  \<open>CFloat\<close> is the floating point of the code: real numbers with a rounding
    function after each operation, and the accuracy IEEE 754 gives it.  \<open>Calibration\<close> bounds the two
    tables computed with it for the zero plane of a Kinect.
  \<^item> \<open>CMemory\<close> is the heap of the C code; \<open>Cameras\<close> and \<open>Audio\<close> are the operations of \<open>cameras.c\<close> and
    \<open>audio.c\<close> on it; \<open>CameraProofs\<close> shows that no sequence of packets makes the handlers fault.
  \<^item> \<open>FreenectCore\<close> models contexts and devices (\<open>core.c\<close>) and \<open>FreenectCoreProofs\<close> their refinement of
    a registry of devices with disjoint handles; \<open>Wrapper\<close> and \<open>WrapperProofs\<close> are the C++ objects of
    \<open>libfreenect.hpp\<close> with the invariant by which a callback reaches a live object.

  \<^bold>\<open>The application.\<close>
  \<^item> \<open>FrameHandoff\<close> models the three buffers between the driver and the processing thread, with every
    interleaving as a sequence of steps; \<open>Detector\<close> the calibration state machine and the detection
    of touches over an abstract OpenCV.

  \<^bold>\<open>Properties.\<close>  Each property stands in the theory of its component, after a text that states it.
  They span memory safety of parsers and packet handlers, ownership and release of blocks, handles
  and references, exact functional results of conversions and protocols, refinement of lists,
  registries and sorted queues, termination, and the errors the code makes.  A property with
  hypotheses is followed by a witness that applies it to a concrete input.

  \<^bold>\<open>Not modelled.\<close>
  \<^item> \<open>timerfd\<close>: \<open>config.h\<close> does not define \<open>USBI_TIMERFD_AVAILABLE\<close>.  The Windows, macOS and BSD branches
    are not compiled either.
  \<^item> \<open>oscpack\<close> and \<open>TUIO\<close>: vendored libraries that \<open>CMakeLists.txt\<close> does not compile.
  \<^item> Locks, condition variables and \<open>poll\<close>: operations are steps, as the locks make them; the sharing of
    the event loop between threads in \<open>io.c\<close> and the threads of \<open>os/threads_posix.c\<close> are left out.
  \<^item> Netlink, udev and directory scans that enumerate devices, and hotplug callbacks: a sequence of system
    calls and string formatting whose results are the arguments of the other components.
  \<^item> Logging, error texts, JNI glue and drawing: no state of their own.
  \<^item> Floating point: \<open>freenect_camera_to_world\<close> of \<open>registration.c\<close> is left out; the angles of
    \<open>tilt.c\<close> are reals, on which the operations used are exact.  What the processor makes of a
    conversion to an integer type that C leaves undefined is an argument.
\<close>

end
